(* ===== verification/Sei_Prelude.thy ===== *)
theory Sei_Prelude
  imports
    Main
    "HOL-Library.AList"
    "HOL-Library.Char_ord"
    "HOL-Library.List_Lexorder"
begin

text \<open>
  Shared vocabulary of the development: Go byte slices, Go maps, and the small facts about
  them that the component theories use.

  A Go byte slice is \<open>None\<close> when it is \<open>nil\<close> and \<open>Some b\<close> otherwise, so that the code's
  distinction between a \<open>nil\<close> slice and an empty one is kept. A Go string and the content of
  a slice are byte lists (\<^typ>\<open>string\<close>), compared lexicographically as \<open>bytes.Compare\<close> and
  \<open>strings.Compare\<close> do. A Go map (or \<open>sync.Map\<close>) is an association list: the order of the
  list is the (unspecified) order in which \<open>range\<close> visits the entries.
\<close>

named_theorems gomap_simps \<open>lookups in updated Go maps\<close>

type_synonym bytes = string
type_synonym slice = "bytes option"
type_synonym ('k, 'v) gomap = "('k \<times> 'v) list"

subsection \<open>Byte slices\<close>

definition slice_bytes :: "slice \<Rightarrow> bytes" where
  "slice_bytes s = (case s of None \<Rightarrow> [] | Some b \<Rightarrow> b)"

definition bytes_Equal :: "slice \<Rightarrow> slice \<Rightarrow> bool" where
  "bytes_Equal a b \<longleftrightarrow> slice_bytes a = slice_bytes b"

lemma slice_bytes_simps [simp]:
  "slice_bytes None = []" "slice_bytes (Some b) = b"
  by (simp_all add: slice_bytes_def)

lemma bytes_Equal_refl [simp]: "bytes_Equal a a"
  by (simp add: bytes_Equal_def)

text \<open>\<open>bytes.Equal\<close> does not tell \<open>nil\<close> from an empty slice; on slices that are not
  \<open>Some []\<close> it is equality.\<close>

lemma bytes_Equal_nonempty:
  "a \<noteq> Some [] \<Longrightarrow> b \<noteq> Some [] \<Longrightarrow> bytes_Equal a b \<longleftrightarrow> a = b"
  by (cases a; cases b) (auto simp: bytes_Equal_def)

subsection \<open>Go maps\<close>

abbreviation gm_load :: "('k, 'v) gomap \<Rightarrow> 'k \<Rightarrow> 'v option" where
  "gm_load m k \<equiv> map_of m k"

abbreviation gm_store :: "'k \<Rightarrow> 'v \<Rightarrow> ('k, 'v) gomap \<Rightarrow> ('k, 'v) gomap" where
  "gm_store k v m \<equiv> AList.update k v m"

abbreviation gm_delete :: "'k \<Rightarrow> ('k, 'v) gomap \<Rightarrow> ('k, 'v) gomap" where
  "gm_delete k m \<equiv> AList.delete k m"

abbreviation gm_keys :: "('k, 'v) gomap \<Rightarrow> 'k list" where
  "gm_keys m \<equiv> map fst m"

lemma gm_load_store [gomap_simps]:
  "gm_load (gm_store k v m) k' = (if k' = k then Some v else gm_load m k')"
  by (simp add: update_conv')

lemma gm_load_delete [gomap_simps]:
  "gm_load (gm_delete k m) k' = (if k' = k then None else gm_load m k')"
  by (simp add: AList.delete_conv')

lemma gm_load_map_values:
  "gm_load (map (\<lambda>(k, v). (k, f v)) m) k = map_option f (gm_load m k)"
  by (induction m) auto

lemma gm_load_Some_key: "gm_load m k = Some v \<Longrightarrow> k \<in> set (gm_keys m)"
  by (force dest: map_of_SomeD)

lemma gm_load_None_key: "gm_load m k = None \<longleftrightarrow> k \<notin> set (gm_keys m)"
  by (simp add: map_of_eq_None_iff)

lemma gm_keys_store: "set (gm_keys (gm_store k v m)) = insert k (set (gm_keys m))"
  by (induction m) auto

subsection \<open>Lists\<close>

lemma list_insert_not_Nil [simp]: "List.insert x xs \<noteq> []"
  by (metis empty_iff in_set_insert insertI1 list.set(1) set_insert)

lemma sort_Nil_iff [simp]: "sort xs = [] \<longleftrightarrow> xs = []"
  by (metis set_empty set_sort)

subsection \<open>Sequencing of operations that may panic\<close>

definition sum_bind :: "'e + 'a \<Rightarrow> ('a \<Rightarrow> 'e + 'b) \<Rightarrow> 'e + 'b" where
  "sum_bind x f = (case x of Inl e \<Rightarrow> Inl e | Inr a \<Rightarrow> f a)"

lemma sum_bind_simps [simp]:
  "sum_bind (Inl e) f = Inl e"
  "sum_bind (Inr a) f = f a"
  by (simp_all add: sum_bind_def)

lemma sum_bind_cong [fundef_cong]:
  "x = y \<Longrightarrow> (\<And>a. y = Inr a \<Longrightarrow> f a = g a) \<Longrightarrow> sum_bind x f = sum_bind y g"
  by (cases y) auto

lemma sum_bind_Inr_iff: "sum_bind x f = Inr b \<longleftrightarrow> (\<exists>a. x = Inr a \<and> f a = Inr b)"
  by (cases x) auto

text \<open>A loop over a list that threads the state and stops at the first error.\<close>

fun each :: "('x \<Rightarrow> 's \<Rightarrow> 'e + 's) \<Rightarrow> 'x list \<Rightarrow> 's \<Rightarrow> 'e + 's" where
  "each f [] s = Inr s"
| "each f (x # xs) s = sum_bind (f x s) (each f xs)"

lemma each_append: "each f (xs @ ys) s = sum_bind (each f xs s) (each f ys)"
proof (induction xs arbitrary: s)
  case (Cons x xs)
  then show ?case by (cases "f x s") simp_all
qed simp

lemma each_cong: "(\<And>x s. x \<in> set xs \<Longrightarrow> f x s = g x s) \<Longrightarrow> each f xs s = each g xs s"
proof (induction xs arbitrary: s)
  case (Cons x xs)
  then have "each f xs s1 = each g xs s1" for s1 by simp
  with Cons.prems show ?case by (cases "g x s") simp_all
qed simp

end
