(* ===== verification/MVItem.thy ===== *)
theory MVItem
  imports Sei_Prelude "HOL-Library.RBT"
begin

text \<open>
  The versions of one key: \<open>src/sei-cosmos/store/multiversion/data_structures.go\<close>.

  A \<open>multiVersionItem\<close> keeps the values that transactions of the block have written to one
  key, ordered by transaction index, in a B-tree of the package \<open>github.com/google/btree\<close>.
  That package is not part of the repository: its operations are the fields of the record
  \<open>btree\<close>, an argument of every operation here, and what its documentation promises of them
  is the locale \<open>btree_api\<close>. The item's read-write mutex makes each operation atomic; the
  model's operations are atomic state transformers.
\<close>

subsection \<open>Value items\<close>

record valueItem =
  vi_index :: int
  vi_incarnation :: int
  vi_value :: slice
  vi_estimate :: bool

definition vi_IsDeleted :: "valueItem \<Rightarrow> bool" where
  "vi_IsDeleted v \<longleftrightarrow> vi_value v = None \<and> \<not> vi_estimate v"

definition vi_IsEstimate :: "valueItem \<Rightarrow> bool" where
  "vi_IsEstimate v = vi_estimate v"

definition vi_Less :: "valueItem \<Rightarrow> valueItem \<Rightarrow> bool" where
  "vi_Less i other \<longleftrightarrow> vi_index i < vi_index other"

definition NewValueItem :: "int \<Rightarrow> int \<Rightarrow> slice \<Rightarrow> valueItem" where
  "NewValueItem index incarnation v =
     \<lparr>vi_index = index, vi_incarnation = incarnation, vi_value = v, vi_estimate = False\<rparr>"

definition NewEstimateItem :: "int \<Rightarrow> int \<Rightarrow> valueItem" where
  "NewEstimateItem index incarnation =
     \<lparr>vi_index = index, vi_incarnation = incarnation, vi_value = None, vi_estimate = True\<rparr>"

definition NewDeletedItem :: "int \<Rightarrow> int \<Rightarrow> valueItem" where
  "NewDeletedItem index incarnation =
     \<lparr>vi_index = index, vi_incarnation = incarnation, vi_value = None, vi_estimate = False\<rparr>"

lemmas value_item_defs =
  NewValueItem_def NewEstimateItem_def NewDeletedItem_def vi_IsDeleted_def vi_IsEstimate_def

lemma new_item_index [simp]:
  "vi_index (NewValueItem i n v) = i"
  "vi_index (NewEstimateItem i n) = i"
  "vi_index (NewDeletedItem i n) = i"
  by (simp_all add: value_item_defs)

lemma new_item_value [simp]:
  "vi_value (NewValueItem i n v) = v"
  "vi_value (NewEstimateItem i n) = None"
  "vi_value (NewDeletedItem i n) = None"
  by (simp_all add: value_item_defs)

lemma new_item_estimate [simp]:
  "vi_IsEstimate (NewValueItem i n v) \<longleftrightarrow> False"
  "vi_IsEstimate (NewEstimateItem i n) \<longleftrightarrow> True"
  "vi_IsEstimate (NewDeletedItem i n) \<longleftrightarrow> False"
  by (simp_all add: value_item_defs)

lemma deleted_item_is_nil_value: "NewDeletedItem i n = NewValueItem i n None"
  by (simp add: value_item_defs)

lemma vi_IsDeleted_iff: "vi_IsDeleted v \<longleftrightarrow> \<not> vi_IsEstimate v \<and> vi_value v = None"
  by (auto simp: vi_IsDeleted_def vi_IsEstimate_def)

subsection \<open>The B-tree package\<close>

text \<open>
  The operations of the B-tree that the code calls. A traversal with a callback
  (\<open>Descend\<close>, \<open>DescendLessOrEqual\<close>) is the list of items in the order in which the callback
  is offered them; the callback itself is the code's, and is in the operations below.
\<close>

record 't btree =
  bt_New :: 't
  bt_ReplaceOrInsert :: "'t \<Rightarrow> valueItem \<Rightarrow> 't"
  bt_Delete :: "'t \<Rightarrow> valueItem \<Rightarrow> 't"
  bt_Max :: "'t \<Rightarrow> valueItem option"
  bt_Descend :: "'t \<Rightarrow> valueItem list"
  bt_DescendLessOrEqual :: "'t \<Rightarrow> valueItem \<Rightarrow> valueItem list"

subsection \<open>Operations of a multi-version item\<close>

record 't multiVersionItem =
  valueTree :: 't

definition NewMultiVersionItem :: "'t btree \<Rightarrow> 't multiVersionItem" where
  "NewMultiVersionItem bt = \<lparr>valueTree = bt_New bt\<rparr>"

definition mvi_GetLatest :: "'t btree \<Rightarrow> 't multiVersionItem \<Rightarrow> valueItem option" where
  "mvi_GetLatest bt item = bt_Max bt (valueTree item)"

definition mvi_GetLatestNonEstimate :: "'t btree \<Rightarrow> 't multiVersionItem \<Rightarrow> valueItem option" where
  "mvi_GetLatestNonEstimate bt item =
     List.find (\<lambda>x. \<not> vi_IsEstimate x) (bt_Descend bt (valueTree item))"

definition mvi_GetLatestBeforeIndex ::
  "'t btree \<Rightarrow> int \<Rightarrow> 't multiVersionItem \<Rightarrow> valueItem option" where
  "mvi_GetLatestBeforeIndex bt index item =
     (let pivot = \<lparr>vi_index = index - 1, vi_incarnation = 0, vi_value = None, vi_estimate = False\<rparr>
      in case bt_DescendLessOrEqual bt (valueTree item) pivot of
           [] \<Rightarrow> None
         | vItem # _ \<Rightarrow> Some vItem)"

text \<open>\<open>Set\<close> asserts that the value is not \<open>nil\<close>: its argument here is the content of a slice
  that is not \<open>nil\<close>.\<close>

definition mvi_Set ::
  "'t btree \<Rightarrow> int \<Rightarrow> int \<Rightarrow> bytes \<Rightarrow> 't multiVersionItem \<Rightarrow> 't multiVersionItem" where
  "mvi_Set bt index incarnation v item =
     item\<lparr>valueTree :=
       bt_ReplaceOrInsert bt (valueTree item) (NewValueItem index incarnation (Some v))\<rparr>"

definition mvi_Delete ::
  "'t btree \<Rightarrow> int \<Rightarrow> int \<Rightarrow> 't multiVersionItem \<Rightarrow> 't multiVersionItem" where
  "mvi_Delete bt index incarnation item =
     item\<lparr>valueTree :=
       bt_ReplaceOrInsert bt (valueTree item) (NewDeletedItem index incarnation)\<rparr>"

definition mvi_Remove :: "'t btree \<Rightarrow> int \<Rightarrow> 't multiVersionItem \<Rightarrow> 't multiVersionItem" where
  "mvi_Remove bt index item =
     item\<lparr>valueTree :=
       bt_Delete bt (valueTree item)
         \<lparr>vi_index = index, vi_incarnation = 0, vi_value = None, vi_estimate = False\<rparr>\<rparr>"

definition mvi_SetEstimate ::
  "'t btree \<Rightarrow> int \<Rightarrow> int \<Rightarrow> 't multiVersionItem \<Rightarrow> 't multiVersionItem" where
  "mvi_SetEstimate bt index incarnation item =
     item\<lparr>valueTree :=
       bt_ReplaceOrInsert bt (valueTree item) (NewEstimateItem index incarnation)\<rparr>"

subsection \<open>The version written by one transaction\<close>

text \<open>\<open>item_at bt item i\<close> is the version that transaction \<open>i\<close> has in the item: the abstract
  state against which the operations are specified.\<close>

definition item_at :: "'t btree \<Rightarrow> 't multiVersionItem \<Rightarrow> int \<Rightarrow> valueItem option" where
  "item_at bt item i = List.find (\<lambda>x. vi_index x = i) (bt_Descend bt (valueTree item))"

text \<open>The latest version among those below an index, read off the abstract state.\<close>

definition latest_below :: "(int \<Rightarrow> valueItem option) \<Rightarrow> int \<Rightarrow> valueItem option \<Rightarrow> bool" where
  "latest_below at index r \<longleftrightarrow>
     (case r of
        None \<Rightarrow> (\<forall>j < index. at j = None)
      | Some x \<Rightarrow> vi_index x < index \<and> at (vi_index x) = Some x \<and>
                  (\<forall>j. vi_index x < j \<and> j < index \<longrightarrow> at j = None))"

lemma latest_below_unique:
  assumes "latest_below at index r" and "latest_below at index r'"
  shows "r = r'"
proof (cases r; cases r')
  fix x y
  assume r: "r = Some x" "r' = Some y"
  with assms have "\<not> vi_index x < vi_index y" and "\<not> vi_index y < vi_index x"
    unfolding latest_below_def by fastforce+
  then have "vi_index x = vi_index y" by simp
  with assms r show ?thesis by (simp add: latest_below_def)
qed (use assms in \<open>force simp: latest_below_def\<close>)+

lemma latest_below_cong:
  "(\<And>j. j < index \<Longrightarrow> at j = at' j) \<Longrightarrow> latest_below at index r \<longleftrightarrow> latest_below at' index r"
  by (auto simp: latest_below_def split: option.splits)

subsection \<open>What the B-tree package promises\<close>

text \<open>
  The documented behaviour of the package: traversals are in descending order of \<open>Less\<close> with
  no two equal items, \<open>ReplaceOrInsert\<close> adds an item and drops the one it equals, \<open>Delete\<close>
  drops the item equal to its argument, \<open>Max\<close> is the largest item and \<open>DescendLessOrEqual\<close>
  starts at the pivot.
\<close>

locale btree_api =
  fixes bt :: "'t btree"
  assumes descend_sorted: "sorted_wrt (\<lambda>x y. vi_Less y x) (bt_Descend bt t)"
    and descend_New: "bt_Descend bt (bt_New bt) = []"
    and descend_ReplaceOrInsert:
      "set (bt_Descend bt (bt_ReplaceOrInsert bt t x)) =
         insert x {y \<in> set (bt_Descend bt t). vi_index y \<noteq> vi_index x}"
    and descend_Delete:
      "set (bt_Descend bt (bt_Delete bt t x)) =
         {y \<in> set (bt_Descend bt t). vi_index y \<noteq> vi_index x}"
    and max_first: "bt_Max bt t = (case bt_Descend bt t of [] \<Rightarrow> None | x # _ \<Rightarrow> Some x)"
    and descend_from_pivot:
      "bt_DescendLessOrEqual bt t p = filter (\<lambda>x. \<not> vi_Less p x) (bt_Descend bt t)"
begin

lemma descend_inj:
  assumes "x \<in> set (bt_Descend bt t)" and "y \<in> set (bt_Descend bt t)"
    and "vi_index x = vi_index y"
  shows "x = y"
proof -
  have "sorted_wrt (\<lambda>x y. vi_Less y x) xs \<Longrightarrow> x \<in> set xs \<Longrightarrow> y \<in> set xs \<Longrightarrow> x = y" for xs
    using assms(3) by (induction xs) (auto simp: vi_Less_def)
  with descend_sorted assms(1,2) show ?thesis by blast
qed

lemma item_at_iff:
  "item_at bt item i = Some x \<longleftrightarrow> x \<in> set (bt_Descend bt (valueTree item)) \<and> vi_index x = i"
proof -
  have "List.find (\<lambda>x. vi_index x = i) xs = Some x \<longleftrightarrow> x \<in> set xs \<and> vi_index x = i"
    if "\<And>y. y \<in> set xs \<Longrightarrow> vi_index y = vi_index x \<Longrightarrow> x \<in> set xs \<Longrightarrow> y = x" for xs
    using that by (induction xs) auto
  then show ?thesis
    unfolding item_at_def by (metis descend_inj)
qed

lemma item_at_index: "item_at bt item i = Some x \<Longrightarrow> vi_index x = i"
  by (simp add: item_at_iff)

lemma item_at_None:
  "item_at bt item i = None \<longleftrightarrow> (\<forall>x \<in> set (bt_Descend bt (valueTree item)). vi_index x \<noteq> i)"
  unfolding item_at_def by (auto simp: find_None_iff)

lemma item_at_New [simp]: "item_at bt (NewMultiVersionItem bt) i = None"
  by (simp add: item_at_None NewMultiVersionItem_def descend_New)

lemma item_at_insert:
  "item_at bt (item\<lparr>valueTree := bt_ReplaceOrInsert bt (valueTree item) x\<rparr>) j =
     (if j = vi_index x then Some x else item_at bt item j)"
proof (cases "j = vi_index x")
  case True
  then show ?thesis by (simp add: item_at_iff descend_ReplaceOrInsert)
next
  case False
  then have "item_at bt (item\<lparr>valueTree := bt_ReplaceOrInsert bt (valueTree item) x\<rparr>) j = Some y
      \<longleftrightarrow> item_at bt item j = Some y" for y
    by (auto simp: item_at_iff descend_ReplaceOrInsert)
  with False show ?thesis by (metis option.exhaust)
qed

lemma item_at_Set [simp]:
  "item_at bt (mvi_Set bt i n v item) j =
     (if j = i then Some (NewValueItem i n (Some v)) else item_at bt item j)"
  by (simp add: mvi_Set_def item_at_insert)

lemma item_at_Delete [simp]:
  "item_at bt (mvi_Delete bt i n item) j =
     (if j = i then Some (NewDeletedItem i n) else item_at bt item j)"
  by (simp add: mvi_Delete_def item_at_insert)

lemma item_at_SetEstimate [simp]:
  "item_at bt (mvi_SetEstimate bt i n item) j =
     (if j = i then Some (NewEstimateItem i n) else item_at bt item j)"
  by (simp add: mvi_SetEstimate_def item_at_insert)

lemma item_at_Remove [simp]:
  "item_at bt (mvi_Remove bt i item) j = (if j = i then None else item_at bt item j)"
proof (cases "j = i")
  case True
  then show ?thesis by (simp add: item_at_None mvi_Remove_def descend_Delete)
next
  case False
  then have "item_at bt (mvi_Remove bt i item) j = Some y \<longleftrightarrow> item_at bt item j = Some y" for y
    by (auto simp: item_at_iff mvi_Remove_def descend_Delete)
  with False show ?thesis by (metis option.exhaust)
qed

lemma descending_head_latest:
  assumes "filter P (bt_Descend bt t) = x # xs" and "y \<in> set (bt_Descend bt t)" and "P y"
  shows "vi_index y \<le> vi_index x"
proof -
  have "sorted_wrt (\<lambda>x y. vi_Less y x) (x # xs)"
    using sorted_wrt_filter [OF descend_sorted [of t], of P] assms(1) by simp
  moreover have "y \<in> set (x # xs)"
    using assms by (simp flip: assms(1))
  ultimately show ?thesis by (auto simp: vi_Less_def)
qed

lemma GetLatestBeforeIndex_latest:
  "latest_below (item_at bt item) index (mvi_GetLatestBeforeIndex bt index item)"
proof -
  let ?t = "valueTree item"
  have le: "bt_DescendLessOrEqual bt ?t
      \<lparr>vi_index = index - 1, vi_incarnation = 0, vi_value = None, vi_estimate = False\<rparr>
    = filter (\<lambda>x. vi_index x < index) (bt_Descend bt ?t)"
    by (auto simp: descend_from_pivot vi_Less_def intro!: filter_cong)
  show ?thesis
  proof (cases "filter (\<lambda>x. vi_index x < index) (bt_Descend bt ?t)")
    case Nil
    then show ?thesis
      by (auto simp: mvi_GetLatestBeforeIndex_def le latest_below_def filter_empty_conv item_at_None)
  next
    case (Cons x xs)
    then have "x \<in> set (filter (\<lambda>x. vi_index x < index) (bt_Descend bt ?t))" by simp
    then have x: "x \<in> set (bt_Descend bt ?t)" "vi_index x < index" by auto
    have "item_at bt item j = None" if "vi_index x < j" "j < index" for j
      using descending_head_latest [OF Cons] that by (force simp: item_at_None)
    with x Cons show ?thesis
      by (simp add: mvi_GetLatestBeforeIndex_def le latest_below_def item_at_iff)
  qed
qed

lemma GetLatestBeforeIndex_iff:
  "mvi_GetLatestBeforeIndex bt index item = r \<longleftrightarrow> latest_below (item_at bt item) index r"
  using GetLatestBeforeIndex_latest latest_below_unique by metis

lemma GetLatestNonEstimate_latest:
  "mvi_GetLatestNonEstimate bt item = Some x \<longleftrightarrow>
     item_at bt item (vi_index x) = Some x \<and> \<not> vi_IsEstimate x \<and>
     (\<forall>j y. vi_index x < j \<longrightarrow> item_at bt item j = Some y \<longrightarrow> vi_IsEstimate y)"
proof -
  let ?d = "bt_Descend bt (valueTree item)" and ?P = "\<lambda>x. \<not> vi_IsEstimate x"
  have find: "List.find ?P xs = (case filter ?P xs of [] \<Rightarrow> None | x # _ \<Rightarrow> Some x)" for xs
    by (induction xs) auto
  show ?thesis
  proof (cases "filter ?P ?d")
    case Nil
    then show ?thesis
      by (auto simp: mvi_GetLatestNonEstimate_def find filter_empty_conv item_at_iff)
  next
    case (Cons y ys)
    then have "y \<in> set (filter ?P ?d)" by simp
    then have y: "y \<in> set ?d" "?P y" by auto
    show ?thesis
    proof
      assume "mvi_GetLatestNonEstimate bt item = Some x"
      with Cons have "x = y" by (simp add: mvi_GetLatestNonEstimate_def find)
      with y descending_head_latest [OF Cons]
      show "item_at bt item (vi_index x) = Some x \<and> \<not> vi_IsEstimate x \<and>
          (\<forall>j y. vi_index x < j \<longrightarrow> item_at bt item j = Some y \<longrightarrow> vi_IsEstimate y)"
        by (force simp: item_at_iff)
    next
      assume x: "item_at bt item (vi_index x) = Some x \<and> \<not> vi_IsEstimate x \<and>
          (\<forall>j y. vi_index x < j \<longrightarrow> item_at bt item j = Some y \<longrightarrow> vi_IsEstimate y)"
      then have "vi_index x \<le> vi_index y" "\<not> vi_index x < vi_index y"
        using descending_head_latest [OF Cons] y by (auto simp: item_at_iff)
      then have "x = y" using x y descend_inj by (auto simp: item_at_iff)
      with Cons show "mvi_GetLatestNonEstimate bt item = Some x"
        by (simp add: mvi_GetLatestNonEstimate_def find)
    qed
  qed
qed

lemma GetLatestNonEstimate_None:
  "mvi_GetLatestNonEstimate bt item = None \<longleftrightarrow>
     (\<forall>j y. item_at bt item j = Some y \<longrightarrow> vi_IsEstimate y)"
  by (auto simp: mvi_GetLatestNonEstimate_def find_None_iff item_at_iff)

lemma GetLatest_latest:
  "mvi_GetLatest bt item = Some x \<longleftrightarrow>
     item_at bt item (vi_index x) = Some x \<and> (\<forall>j > vi_index x. item_at bt item j = None)"
proof (cases "bt_Descend bt (valueTree item)")
  case Nil
  then show ?thesis by (simp add: mvi_GetLatest_def max_first item_at_iff)
next
  case (Cons y ys)
  have top: "vi_index z \<le> vi_index y" if "z \<in> set (bt_Descend bt (valueTree item))" for z
    using descending_head_latest [of "\<lambda>_. True" "valueTree item" y ys z] Cons that by simp
  show ?thesis
  proof
    assume "mvi_GetLatest bt item = Some x"
    with Cons have "x = y" by (simp add: mvi_GetLatest_def max_first)
    with Cons top show "item_at bt item (vi_index x) = Some x \<and>
        (\<forall>j > vi_index x. item_at bt item j = None)"
      by (force simp: item_at_iff item_at_None)
  next
    assume x: "item_at bt item (vi_index x) = Some x \<and> (\<forall>j > vi_index x. item_at bt item j = None)"
    then have "vi_index x = vi_index y"
      using top [of x] Cons by (force simp: item_at_iff item_at_None)
    with x Cons have "x = y"
      using descend_inj [of x "valueTree item" y] by (simp add: item_at_iff)
    with Cons show "mvi_GetLatest bt item = Some x" by (simp add: mvi_GetLatest_def max_first)
  qed
qed

end

text \<open>
  A search tree that keeps these promises: a red-black tree of the library, keyed by the
  transaction index. The theorems of the development hold for any B-tree that satisfies
  \<open>btree_api\<close>; this instance shows that such a B-tree exists and lets the operations run.
\<close>

definition rbt_btree :: "(int, valueItem) rbt btree" where
  "rbt_btree =
     \<lparr>bt_New = RBT.empty,
      bt_ReplaceOrInsert = (\<lambda>t x. RBT.insert (vi_index x) x t),
      bt_Delete = (\<lambda>t x. RBT.delete (vi_index x) t),
      bt_Max = (\<lambda>t. case rev (RBT.entries t) of [] \<Rightarrow> None | (i, x) # _ \<Rightarrow> Some (x\<lparr>vi_index := i\<rparr>)),
      bt_Descend = (\<lambda>t. map (\<lambda>(i, x). x\<lparr>vi_index := i\<rparr>) (rev (RBT.entries t))),
      bt_DescendLessOrEqual = (\<lambda>t p. filter (\<lambda>x. vi_index x \<le> vi_index p)
        (map (\<lambda>(i, x). x\<lparr>vi_index := i\<rparr>) (rev (RBT.entries t))))\<rparr>"

lemma rbt_entries_iff: "(i, x) \<in> set (RBT.entries t) \<longleftrightarrow> RBT.lookup t i = Some x"
  using RBT.map_of_entries [of t] RBT.distinct_entries [of t] by (metis map_of_eq_Some_iff)

lemma rbt_descend_set:
  "y \<in> set (map (\<lambda>(i, x). x\<lparr>vi_index := i\<rparr>) (rev (RBT.entries t))) \<longleftrightarrow>
     (\<exists>x. RBT.lookup t (vi_index y) = Some x \<and> y = x\<lparr>vi_index := vi_index y\<rparr>)"
proof
  assume "y \<in> set (map (\<lambda>(i, x). x\<lparr>vi_index := i\<rparr>) (rev (RBT.entries t)))"
  then show "\<exists>x. RBT.lookup t (vi_index y) = Some x \<and> y = x\<lparr>vi_index := vi_index y\<rparr>"
    by (auto simp: rbt_entries_iff)
next
  assume "\<exists>x. RBT.lookup t (vi_index y) = Some x \<and> y = x\<lparr>vi_index := vi_index y\<rparr>"
  then obtain x where "(vi_index y, x) \<in> set (RBT.entries t)" "y = x\<lparr>vi_index := vi_index y\<rparr>"
    by (auto simp: rbt_entries_iff)
  then show "y \<in> set (map (\<lambda>(i, x). x\<lparr>vi_index := i\<rparr>) (rev (RBT.entries t)))"
    by (auto intro!: rev_image_eqI)
qed

lemma rbt_entries_empty: "RBT.entries RBT.empty = []"
  by (metis RBT.distinct_entries all_not_in_conv empty_set lookup_empty_empty old.prod.exhaust
      option.discI rbt_entries_iff RBT.lookup_empty set_empty)

interpretation rbt: btree_api rbt_btree
proof
  fix t :: "(int, valueItem) rbt" and x p :: valueItem
  have "sorted_wrt (<) (map fst (RBT.entries t))"
    using RBT.sorted_entries [of t] RBT.distinct_entries [of t] by (simp add: strict_sorted_iff)
  then have "sorted_wrt (\<lambda>p q. fst q < fst p) (rev (RBT.entries t))"
    by (simp add: sorted_wrt_map sorted_wrt_rev)
  then show "sorted_wrt (\<lambda>x y. vi_Less y x) (bt_Descend rbt_btree t)"
    by (simp add: rbt_btree_def sorted_wrt_map vi_Less_def case_prod_beta)
  show "bt_Descend rbt_btree (bt_New rbt_btree) = []"
    by (simp add: rbt_btree_def rbt_entries_empty)
  show "set (bt_Descend rbt_btree (bt_ReplaceOrInsert rbt_btree t x)) =
      insert x {y \<in> set (bt_Descend rbt_btree t). vi_index y \<noteq> vi_index x}"
    unfolding set_eq_iff rbt_btree_def btree.simps mem_Collect_eq insert_iff rbt_descend_set
    by (auto split: if_splits)
  show "set (bt_Descend rbt_btree (bt_Delete rbt_btree t x)) =
      {y \<in> set (bt_Descend rbt_btree t). vi_index y \<noteq> vi_index x}"
    unfolding set_eq_iff rbt_btree_def btree.simps mem_Collect_eq insert_iff rbt_descend_set
    by (auto split: if_splits)
  show "bt_Max rbt_btree t = (case bt_Descend rbt_btree t of [] \<Rightarrow> None | x # _ \<Rightarrow> Some x)"
    by (auto simp: rbt_btree_def split: list.splits prod.splits)
  show "bt_DescendLessOrEqual rbt_btree t p = filter (\<lambda>x. \<not> vi_Less p x) (bt_Descend rbt_btree t)"
    by (auto simp: rbt_btree_def vi_Less_def not_less intro!: filter_cong)
qed

subsection \<open>Properties\<close>

text \<open>\<open>GetLatestBeforeIndex\<close> answers with the version of the largest transaction index below the
  given one, estimates included, and with nothing exactly when no earlier transaction has a
  version.\<close>

theorem GetLatestBeforeIndex_spec:
  assumes "btree_api bt"
  shows "mvi_GetLatestBeforeIndex bt index item = r \<longleftrightarrow> latest_below (item_at bt item) index r"
  by (rule btree_api.GetLatestBeforeIndex_iff [OF assms])

theorem GetLatestBeforeIndex_spec_witness:
  "mvi_GetLatestBeforeIndex rbt_btree 2
     (mvi_Set rbt_btree 2 0 ''b'' (mvi_SetEstimate rbt_btree 1 3 (NewMultiVersionItem rbt_btree)))
     = Some (NewEstimateItem 1 3) \<and>
   latest_below (item_at rbt_btree
     (mvi_Set rbt_btree 2 0 ''b'' (mvi_SetEstimate rbt_btree 1 3 (NewMultiVersionItem rbt_btree)))) 2
     (Some (NewEstimateItem 1 3))"
proof -
  have "mvi_GetLatestBeforeIndex rbt_btree 2
     (mvi_Set rbt_btree 2 0 ''b'' (mvi_SetEstimate rbt_btree 1 3 (NewMultiVersionItem rbt_btree)))
     = Some (NewEstimateItem 1 3)" by code_simp
  then show ?thesis using GetLatestBeforeIndex_spec [OF rbt.btree_api_axioms] by blast
qed

end
