(* ===== verification/KVStore.thy ===== *)
theory KVStore
  imports Sei_Prelude
begin

text \<open>
  The key-value store interface of \<open>src/sei-cosmos/store/types\<close>: the content of a store that
  other components use as their parent, the assertions on keys and values, and the laws that
  every \<open>KVStore\<close> promises its clients (the locale \<open>kv_store\<close>).
\<close>

datatype panic =
    KeyIsNil
  | ValueIsNil
  | ReadEstimate int
  | ParentConflict
  | UnknownStore
  | NilDereference
  | InvalidIterator
  | EmptyRangeBound
  | IndexOutOfRange
  | EstimateInWriteback

definition AssertValidKey :: "bytes \<Rightarrow> panic option" where
  "AssertValidKey key = (if length key = 0 then Some KeyIsNil else None)"

definition AssertValidValue :: "slice \<Rightarrow> panic option" where
  "AssertValidValue v = (if v = None then Some ValueIsNil else None)"

text \<open>The content of a store: the keys it holds with their values, which are not \<open>nil\<close>.\<close>

type_synonym kvstore = "(bytes, bytes) gomap"

definition kv_Get :: "kvstore \<Rightarrow> bytes \<Rightarrow> slice" where
  "kv_Get st key = gm_load st key"

definition kv_Has :: "kvstore \<Rightarrow> bytes \<Rightarrow> bool" where
  "kv_Has st key \<longleftrightarrow> kv_Get st key \<noteq> None"

definition kv_Set :: "bytes \<Rightarrow> bytes \<Rightarrow> kvstore \<Rightarrow> kvstore" where
  "kv_Set key v st = gm_store key v st"

definition kv_Delete :: "bytes \<Rightarrow> kvstore \<Rightarrow> kvstore" where
  "kv_Delete key st = gm_delete key st"

text \<open>A key is in the domain of an iterator when it is not below \<open>start\<close> and is below \<open>end\<close>; a
  \<open>nil\<close> bound is no bound. The iterator offers the keys of the domain in order.\<close>

definition IsKeyInDomain :: "bytes \<Rightarrow> slice \<Rightarrow> slice \<Rightarrow> bool" where
  "IsKeyInDomain key start end' \<longleftrightarrow>
     \<not> key < slice_bytes start \<and> (case end' of None \<Rightarrow> True | Some e \<Rightarrow> \<not> e \<le> key)"

definition kv_Iterator :: "kvstore \<Rightarrow> slice \<Rightarrow> slice \<Rightarrow> bool \<Rightarrow> (bytes \<times> bytes) list" where
  "kv_Iterator st start end' ascending =
     (let ks = sort (remdups (filter (\<lambda>k. IsKeyInDomain k start end') (gm_keys st)));
          kvs = map (\<lambda>k. (k, slice_bytes (kv_Get st k))) ks
      in if ascending then kvs else rev kvs)"

lemma kv_Get_Set [gomap_simps]: "kv_Get (kv_Set k v st) k' = (if k' = k then Some v else kv_Get st k')"
  by (simp add: kv_Get_def kv_Set_def gm_load_store)

lemma kv_Get_Delete [gomap_simps]: "kv_Get (kv_Delete k st) k' = (if k' = k then None else kv_Get st k')"
  by (simp add: kv_Get_def kv_Delete_def gm_load_delete)

lemma kv_Iterator_entries:
  "(k, v) \<in> set (kv_Iterator st start end' ascending) \<longleftrightarrow>
     IsKeyInDomain k start end' \<and> kv_Get st k = Some v"
proof -
  have "(k, v) \<in> set (kv_Iterator st start end' ascending) \<longleftrightarrow>
      IsKeyInDomain k start end' \<and> k \<in> set (gm_keys st) \<and> v = slice_bytes (kv_Get st k)"
    by (auto simp: kv_Iterator_def Let_def)
  also have "\<dots> \<longleftrightarrow> IsKeyInDomain k start end' \<and> kv_Get st k = Some v"
  proof (cases "kv_Get st k")
    case None
    then have "k \<notin> set (gm_keys st)" by (simp add: kv_Get_def gm_load_None_key)
    with None show ?thesis by simp
  next
    case (Some w)
    then have "k \<in> set (gm_keys st)" by (auto simp: kv_Get_def dest: gm_load_Some_key)
    with Some show ?thesis by auto
  qed
  finally show ?thesis .
qed

lemma kv_Iterator_keys:
  "map fst (kv_Iterator st start end' ascending) =
     (let ks = sort (remdups (filter (\<lambda>k. IsKeyInDomain k start end') (gm_keys st)))
      in if ascending then ks else rev ks)"
  by (simp add: kv_Iterator_def Let_def o_def rev_map)

lemma kv_Iterator_sorted:
  "sorted_wrt (\<lambda>a b. if ascending then a < b else b < a)
     (map fst (kv_Iterator st start end' ascending))"
proof -
  have "sorted_wrt (<) (sort (remdups (filter (\<lambda>k. IsKeyInDomain k start end') (gm_keys st))))"
    by (simp add: strict_sorted_iff)
  then show ?thesis
    unfolding kv_Iterator_keys by (cases ascending) (simp_all add: sorted_wrt_rev)
qed

text \<open>What a store promises: a read after a write sees the write and nothing else changes.\<close>

locale kv_store =
  fixes get :: "'s \<Rightarrow> bytes \<Rightarrow> slice"
    and put :: "bytes \<Rightarrow> bytes \<Rightarrow> 's \<Rightarrow> 's"
    and del :: "bytes \<Rightarrow> 's \<Rightarrow> 's"
  assumes get_put: "get (put k v s) k' = (if k' = k then Some v else get s k')"
    and get_del: "get (del k s) k' = (if k' = k then None else get s k')"
begin

definition write_one :: "bytes \<times> slice \<Rightarrow> 's \<Rightarrow> 's" where
  "write_one kv s = (case kv of (k, None) \<Rightarrow> del k s | (k, Some v) \<Rightarrow> put k v s)"

lemma get_write: "get (write_one (k, v) s) k' = (if k' = k then v else get s k')"
  by (simp add: write_one_def get_put get_del split: option.splits)

text \<open>A client that flushes a batch of writes with distinct keys leaves exactly the batch over
  the old content, in whatever order it writes.\<close>

lemma get_fold_write:
  "distinct (map fst ws) \<Longrightarrow>
     get (fold write_one ws s) k = (case map_of ws k of None \<Rightarrow> get s k | Some v \<Rightarrow> v)"
proof (induction ws arbitrary: s)
  case Nil
  then show ?case by simp
next
  case (Cons w ws)
  obtain k' v' where w: "w = (k', v')" by (cases w)
  have "map_of ws k' = None"
    using Cons.prems w by (simp add: map_of_eq_None_iff)
  moreover have "get (fold write_one (w # ws) s) k =
      (case map_of ws k of None \<Rightarrow> get (write_one w s) k | Some v \<Rightarrow> v)"
    using Cons by simp
  ultimately show ?case
    by (auto simp: w get_write split: option.splits)
qed

end

interpretation plain: kv_store kv_Get kv_Set kv_Delete
  by unfold_locales (simp_all add: gomap_simps)

end
