(* ===== verification/MVStore.thy ===== *)
theory MVStore
  imports MVItem KVStore
begin

text \<open>
  The multi-version store: \<open>src/sei-cosmos/store/multiversion/store.go\<close>, its state and the
  operations that read and write versions. The validation of a transaction against the store
  is in the theory \<open>MVValidate\<close>.

  One \<open>Store\<close> serves one module store of the block. It maps each key to the versions written
  by the transactions of the block, and remembers for each transaction which keys it wrote,
  what it read and what it iterated over. The parent store is the module store below, which
  no transaction writes while the block runs.
\<close>

type_synonym WriteSet = "(bytes, slice) gomap"
type_synonym ReadSet = "(bytes, slice list) gomap"

record iterationTracker =
  startKey :: slice
  endKey :: slice
  earlyStopKey :: slice
  iteratedKeys :: "bytes list"
  it_ascending :: bool
  it_writeset :: WriteSet

record 't mvstore =
  multiVersionMap :: "(bytes, 't multiVersionItem) gomap"
  txWritesetKeys :: "(int, bytes list) gomap"
  txReadSets :: "(int, ReadSet) gomap"
  txIterateSets :: "(int, iterationTracker list) gomap"
  parentStore :: kvstore

definition NewMultiVersionStore :: "kvstore \<Rightarrow> 't mvstore" where
  "NewMultiVersionStore parent =
     \<lparr>multiVersionMap = [], txWritesetKeys = [], txReadSets = [], txIterateSets = [],
      parentStore = parent\<rparr>"

subsection \<open>Reading versions\<close>

definition mvs_GetLatest :: "'t btree \<Rightarrow> 't mvstore \<Rightarrow> bytes \<Rightarrow> valueItem option" where
  "mvs_GetLatest bt s key =
     (case gm_load (multiVersionMap s) key of
        None \<Rightarrow> None
      | Some mvVal \<Rightarrow> (case mvi_GetLatest bt mvVal of None \<Rightarrow> None | Some latestVal \<Rightarrow> Some latestVal))"

definition mvs_GetLatestBeforeIndex :: "'t btree \<Rightarrow> 't mvstore \<Rightarrow> int \<Rightarrow> bytes \<Rightarrow> valueItem option" where
  "mvs_GetLatestBeforeIndex bt s index key =
     (case gm_load (multiVersionMap s) key of
        None \<Rightarrow> None
      | Some mvVal \<Rightarrow>
          (case mvi_GetLatestBeforeIndex bt index mvVal of None \<Rightarrow> None | Some val \<Rightarrow> Some val))"

definition mvs_Has :: "'t btree \<Rightarrow> 't mvstore \<Rightarrow> int \<Rightarrow> bytes \<Rightarrow> bool" where
  "mvs_Has bt s index key =
     (case gm_load (multiVersionMap s) key of
        None \<Rightarrow> False
      | Some mvVal \<Rightarrow> mvi_GetLatestBeforeIndex bt index mvVal \<noteq> None)"

subsection \<open>Writing versions\<close>

definition remove_old_key :: "'t btree \<Rightarrow> int \<Rightarrow> WriteSet \<Rightarrow> bytes \<Rightarrow> 't mvstore \<Rightarrow> 't mvstore" where
  "remove_old_key bt index writeset key s =
     (if gm_load writeset key \<noteq> None then s
      else case gm_load (multiVersionMap s) key of
             None \<Rightarrow> s
           | Some mvVal \<Rightarrow>
               s\<lparr>multiVersionMap := gm_store key (mvi_Remove bt index mvVal) (multiVersionMap s)\<rparr>)"

definition removeOldWriteset :: "'t btree \<Rightarrow> int \<Rightarrow> WriteSet \<Rightarrow> 't mvstore \<Rightarrow> 't mvstore" where
  "removeOldWriteset bt index newWriteSet s =
     (case gm_load (txWritesetKeys s) index of
        None \<Rightarrow> s
      | Some keys \<Rightarrow>
          fold (remove_old_key bt index newWriteSet) keys
            (s\<lparr>txWritesetKeys := gm_delete index (txWritesetKeys s)\<rparr>))"

definition load_or_new :: "'t btree \<Rightarrow> bytes \<Rightarrow> 't mvstore \<Rightarrow> 't multiVersionItem" where
  "load_or_new bt key s =
     (case gm_load (multiVersionMap s) key of
        None \<Rightarrow> NewMultiVersionItem bt
      | Some mvVal \<Rightarrow> mvVal)"

definition set_key :: "'t btree \<Rightarrow> int \<Rightarrow> int \<Rightarrow> bytes \<times> slice \<Rightarrow> 't mvstore \<Rightarrow> 't mvstore" where
  "set_key bt index incarnation kv s =
     (case kv of (key, v) \<Rightarrow>
        let mvVal = load_or_new bt key s;
            mvVal' = (case v of
                        None \<Rightarrow> mvi_Delete bt index incarnation mvVal
                      | Some b \<Rightarrow> mvi_Set bt index incarnation b mvVal)
        in s\<lparr>multiVersionMap := gm_store key mvVal' (multiVersionMap s)\<rparr>)"

definition mvs_SetWriteset :: "'t btree \<Rightarrow> int \<Rightarrow> int \<Rightarrow> WriteSet \<Rightarrow> 't mvstore \<Rightarrow> 't mvstore" where
  "mvs_SetWriteset bt index incarnation writeset s =
     (let s1 = removeOldWriteset bt index writeset s;
          s2 = fold (set_key bt index incarnation) writeset s1
      in s2\<lparr>txWritesetKeys := gm_store index (sort (gm_keys writeset)) (txWritesetKeys s2)\<rparr>)"

definition set_estimate_key :: "'t btree \<Rightarrow> int \<Rightarrow> int \<Rightarrow> bytes \<Rightarrow> 't mvstore \<Rightarrow> 't mvstore" where
  "set_estimate_key bt index incarnation key s =
     s\<lparr>multiVersionMap :=
        gm_store key (mvi_SetEstimate bt index incarnation (load_or_new bt key s)) (multiVersionMap s)\<rparr>"

definition mvs_InvalidateWriteset :: "'t btree \<Rightarrow> int \<Rightarrow> int \<Rightarrow> 't mvstore \<Rightarrow> 't mvstore" where
  "mvs_InvalidateWriteset bt index incarnation s =
     (case gm_load (txWritesetKeys s) index of
        None \<Rightarrow> s
      | Some keys \<Rightarrow> fold (set_estimate_key bt index incarnation) keys s)"

definition mvs_SetEstimatedWriteset :: "'t btree \<Rightarrow> int \<Rightarrow> int \<Rightarrow> WriteSet \<Rightarrow> 't mvstore \<Rightarrow> 't mvstore" where
  "mvs_SetEstimatedWriteset bt index incarnation writeset s =
     (let s1 = removeOldWriteset bt index writeset s;
          s2 = fold (set_estimate_key bt index incarnation) (gm_keys writeset) s1
      in s2\<lparr>txWritesetKeys := gm_store index (sort (gm_keys writeset)) (txWritesetKeys s2)\<rparr>)"

definition mvs_GetAllWritesetKeys :: "'t mvstore \<Rightarrow> (int, bytes list) gomap" where
  "mvs_GetAllWritesetKeys s = fold (\<lambda>(index, keys) m. gm_store index keys m) (txWritesetKeys s) []"

subsection \<open>Read sets and iterate sets\<close>

definition mvs_SetReadset :: "int \<Rightarrow> ReadSet \<Rightarrow> 't mvstore \<Rightarrow> 't mvstore" where
  "mvs_SetReadset index readset s = s\<lparr>txReadSets := gm_store index readset (txReadSets s)\<rparr>"

definition mvs_GetReadset :: "'t mvstore \<Rightarrow> int \<Rightarrow> ReadSet option" where
  "mvs_GetReadset s index = gm_load (txReadSets s) index"

definition mvs_SetIterateset :: "int \<Rightarrow> iterationTracker list \<Rightarrow> 't mvstore \<Rightarrow> 't mvstore" where
  "mvs_SetIterateset index iterateset s =
     s\<lparr>txIterateSets := gm_store index iterateset (txIterateSets s)\<rparr>"

definition mvs_GetIterateset :: "'t mvstore \<Rightarrow> int \<Rightarrow> iterationTracker list option" where
  "mvs_GetIterateset s index = gm_load (txIterateSets s) index"

definition mvs_ClearReadset :: "int \<Rightarrow> 't mvstore \<Rightarrow> 't mvstore" where
  "mvs_ClearReadset index s = s\<lparr>txReadSets := gm_delete index (txReadSets s)\<rparr>"

definition mvs_ClearIterateset :: "int \<Rightarrow> 't mvstore \<Rightarrow> 't mvstore" where
  "mvs_ClearIterateset index s = s\<lparr>txIterateSets := gm_delete index (txIterateSets s)\<rparr>"

subsection \<open>Writing the block's result to the parent\<close>

definition write_latest_key :: "'t btree \<Rightarrow> bytes \<Rightarrow> 't mvstore \<Rightarrow> panic + 't mvstore" where
  "write_latest_key bt key s =
     (case gm_load (multiVersionMap s) key of
        None \<Rightarrow> Inr s
      | Some val \<Rightarrow>
          (case mvi_GetLatestNonEstimate bt val of
             None \<Rightarrow> Inr s
           | Some mvValue \<Rightarrow>
               if vi_IsEstimate mvValue then Inl EstimateInWriteback
               else if vi_IsDeleted mvValue then Inr (s\<lparr>parentStore := kv_Delete key (parentStore s)\<rparr>)
               else (case vi_value mvValue of
                       None \<Rightarrow> Inr s
                     | Some v \<Rightarrow> Inr (s\<lparr>parentStore := kv_Set key v (parentStore s)\<rparr>))))"

definition mvs_WriteLatestToStore :: "'t btree \<Rightarrow> 't mvstore \<Rightarrow> panic + 't mvstore" where
  "mvs_WriteLatestToStore bt s = each (write_latest_key bt) (sort (gm_keys (multiVersionMap s))) s"

subsection \<open>The abstract state: one version per key and transaction\<close>

definition mv_at :: "'t btree \<Rightarrow> 't mvstore \<Rightarrow> bytes \<Rightarrow> int \<Rightarrow> valueItem option" where
  "mv_at bt s key i =
     (case gm_load (multiVersionMap s) key of None \<Rightarrow> None | Some it \<Rightarrow> item_at bt it i)"

text \<open>Every version belongs to a key that its transaction's recorded write set names: what
  makes the removal of an old write set complete.\<close>

definition keys_recorded :: "'t btree \<Rightarrow> 't mvstore \<Rightarrow> bool" where
  "keys_recorded bt s \<longleftrightarrow>
     (\<forall>k i. mv_at bt s k i \<noteq> None \<longrightarrow>
        (\<exists>ks. gm_load (txWritesetKeys s) i = Some ks \<and> k \<in> set ks))"

text \<open>The value that transaction \<open>index\<close> finds under a key: the latest version below it, or the
  parent's value when no earlier transaction wrote the key.\<close>

definition mv_view :: "'t btree \<Rightarrow> 't mvstore \<Rightarrow> int \<Rightarrow> bytes \<Rightarrow> slice" where
  "mv_view bt s index key =
     (case mvs_GetLatestBeforeIndex bt s index key of
        None \<Rightarrow> kv_Get (parentStore s) key
      | Some x \<Rightarrow> vi_value x)"

text \<open>The value that \<open>WriteLatestToStore\<close> leaves in the parent under a key.\<close>

definition latest_value :: "'t btree \<Rightarrow> 't mvstore \<Rightarrow> bytes \<Rightarrow> slice" where
  "latest_value bt s key =
     (case gm_load (multiVersionMap s) key of
        None \<Rightarrow> kv_Get (parentStore s) key
      | Some it \<Rightarrow> (case mvi_GetLatestNonEstimate bt it of
                       None \<Rightarrow> kv_Get (parentStore s) key
                     | Some x \<Rightarrow> vi_value x))"

lemma keys_recorded_None:
  "keys_recorded bt s \<Longrightarrow> gm_load (txWritesetKeys s) i = None \<Longrightarrow> mv_at bt s k i = None"
  unfolding keys_recorded_def by (metis option.distinct(1))

lemma keys_recorded_notin:
  "keys_recorded bt s \<Longrightarrow> gm_load (txWritesetKeys s) i = Some ks \<Longrightarrow> k \<notin> set ks \<Longrightarrow>
     mv_at bt s k i = None"
  unfolding keys_recorded_def by (metis option.inject)

subsection \<open>Frame of the write operations\<close>

text \<open>Writing versions touches neither the parent nor what is recorded about reads.\<close>

definition same_reads :: "'t mvstore \<Rightarrow> 't mvstore \<Rightarrow> bool" where
  "same_reads s s' \<longleftrightarrow> parentStore s = parentStore s' \<and> txReadSets s = txReadSets s' \<and>
     txIterateSets s = txIterateSets s'"

lemma same_reads_fold:
  "(\<And>x s. same_reads (f x s) s) \<Longrightarrow> same_reads (fold f xs s) s"
proof (induction xs arbitrary: s)
  case Nil
  then show ?case by (simp add: same_reads_def)
next
  case (Cons x xs)
  then have "same_reads (fold f xs (f x s)) (f x s)" "same_reads (f x s) s" by blast+
  then show ?case by (simp add: same_reads_def)
qed

lemma same_reads_set_key: "same_reads (set_key bt i n kv s) s"
  by (simp add: same_reads_def set_key_def Let_def split: prod.splits)

lemma same_reads_estimate_key: "same_reads (set_estimate_key bt i n k s) s"
  by (simp add: same_reads_def set_estimate_key_def)

lemma same_reads_remove_old_key: "same_reads (remove_old_key bt i ws k s) s"
  by (simp add: same_reads_def remove_old_key_def split: option.splits)

lemma same_reads_trans: "same_reads a b \<Longrightarrow> same_reads b c \<Longrightarrow> same_reads a c"
  by (simp add: same_reads_def)

lemma same_reads_keys_update: "same_reads (s\<lparr>txWritesetKeys := m\<rparr>) s"
  by (simp add: same_reads_def)

lemmas same_reads_folds =
  same_reads_fold [OF same_reads_set_key] same_reads_fold [OF same_reads_estimate_key]
  same_reads_fold [OF same_reads_remove_old_key]

lemma same_reads_removeOldWriteset: "same_reads (removeOldWriteset bt i ws s) s"
  unfolding removeOldWriteset_def
  by (auto split: option.split intro: same_reads_trans [OF same_reads_folds(3) same_reads_keys_update])
    (simp add: same_reads_def)

lemma same_reads_SetWriteset: "same_reads (mvs_SetWriteset bt i n ws s) s"
  unfolding mvs_SetWriteset_def Let_def
  by (rule same_reads_trans [OF same_reads_keys_update
        same_reads_trans [OF same_reads_folds(1) same_reads_removeOldWriteset]])

lemma same_reads_InvalidateWriteset: "same_reads (mvs_InvalidateWriteset bt i n s) s"
  unfolding mvs_InvalidateWriteset_def
  by (auto split: option.split intro: same_reads_folds(2)) (simp add: same_reads_def)

lemma same_reads_SetEstimatedWriteset: "same_reads (mvs_SetEstimatedWriteset bt i n ws s) s"
  unfolding mvs_SetEstimatedWriteset_def Let_def
  by (rule same_reads_trans [OF same_reads_keys_update
        same_reads_trans [OF same_reads_folds(2) same_reads_removeOldWriteset]])

lemmas same_reads_ops =
  same_reads_SetWriteset same_reads_InvalidateWriteset same_reads_SetEstimatedWriteset

lemma same_keys_fold:
  "(\<And>x s. txWritesetKeys (f x s) = txWritesetKeys s) \<Longrightarrow>
     txWritesetKeys (fold f xs s) = txWritesetKeys s"
  by (induction xs arbitrary: s) auto

lemma keys_set_key: "txWritesetKeys (set_key bt i n kv s) = txWritesetKeys s"
  by (simp add: set_key_def Let_def split: prod.splits)

lemma keys_estimate_key: "txWritesetKeys (set_estimate_key bt i n k s) = txWritesetKeys s"
  by (simp add: set_estimate_key_def)

lemma keys_remove_old_key: "txWritesetKeys (remove_old_key bt i ws k s) = txWritesetKeys s"
  by (simp add: remove_old_key_def split: option.splits)

lemma keys_removeOldWriteset:
  "gm_load (txWritesetKeys (removeOldWriteset bt i ws s)) j =
     (if j = i then None else gm_load (txWritesetKeys s) j)"
  by (simp add: removeOldWriteset_def same_keys_fold keys_remove_old_key gomap_simps
      split: option.splits)

lemma keys_SetWriteset:
  "gm_load (txWritesetKeys (mvs_SetWriteset bt i n ws s)) j =
     (if j = i then Some (sort (gm_keys ws)) else gm_load (txWritesetKeys s) j)"
  by (simp add: mvs_SetWriteset_def Let_def same_keys_fold keys_set_key keys_removeOldWriteset
      gomap_simps)

lemma keys_SetEstimatedWriteset:
  "gm_load (txWritesetKeys (mvs_SetEstimatedWriteset bt i n ws s)) j =
     (if j = i then Some (sort (gm_keys ws)) else gm_load (txWritesetKeys s) j)"
  by (simp add: mvs_SetEstimatedWriteset_def Let_def same_keys_fold keys_estimate_key
      keys_removeOldWriteset gomap_simps)

lemma keys_InvalidateWriteset:
  "txWritesetKeys (mvs_InvalidateWriteset bt i n s) = txWritesetKeys s"
  by (simp add: mvs_InvalidateWriteset_def same_keys_fold keys_estimate_key split: option.splits)

lemma readset_ops [simp]:
  "gm_load (txReadSets (mvs_SetReadset i rs s)) j = (if j = i then Some rs else gm_load (txReadSets s) j)"
  "gm_load (txReadSets (mvs_ClearReadset i s)) j = (if j = i then None else gm_load (txReadSets s) j)"
  "txReadSets (mvs_SetIterateset i its s) = txReadSets s"
  "txReadSets (mvs_ClearIterateset i s) = txReadSets s"
  "gm_load (txIterateSets (mvs_SetIterateset i its s)) j =
     (if j = i then Some its else gm_load (txIterateSets s) j)"
  "gm_load (txIterateSets (mvs_ClearIterateset i s)) j =
     (if j = i then None else gm_load (txIterateSets s) j)"
  "txIterateSets (mvs_SetReadset i rs s) = txIterateSets s"
  "txIterateSets (mvs_ClearReadset i s) = txIterateSets s"
  by (simp_all add: mvs_SetReadset_def mvs_ClearReadset_def mvs_SetIterateset_def
      mvs_ClearIterateset_def gomap_simps)

lemma readset_ops_versions [simp]:
  "mv_at bt (mvs_SetReadset i rs s) = mv_at bt s"
  "mv_at bt (mvs_ClearReadset i s) = mv_at bt s"
  "mv_at bt (mvs_SetIterateset i its s) = mv_at bt s"
  "mv_at bt (mvs_ClearIterateset i s) = mv_at bt s"
  "txWritesetKeys (mvs_SetReadset i rs s) = txWritesetKeys s"
  "txWritesetKeys (mvs_ClearReadset i s) = txWritesetKeys s"
  "txWritesetKeys (mvs_SetIterateset i its s) = txWritesetKeys s"
  "txWritesetKeys (mvs_ClearIterateset i s) = txWritesetKeys s"
  "parentStore (mvs_SetReadset i rs s) = parentStore s"
  "parentStore (mvs_ClearReadset i s) = parentStore s"
  "parentStore (mvs_SetIterateset i its s) = parentStore s"
  "parentStore (mvs_ClearIterateset i s) = parentStore s"
  by (simp_all add: mvs_SetReadset_def mvs_ClearReadset_def mvs_SetIterateset_def
      mvs_ClearIterateset_def mv_at_def [abs_def])

subsection \<open>Versions after each operation\<close>

context btree_api
begin

lemma mv_at_index: "mv_at bt s k i = Some x \<Longrightarrow> vi_index x = i"
  by (auto simp: mv_at_def item_at_index split: option.splits)

lemma GetLatestBeforeIndex_versions:
  "mvs_GetLatestBeforeIndex bt s index key = r \<longleftrightarrow> latest_below (mv_at bt s key) index r"
proof (cases "gm_load (multiVersionMap s) key")
  case None
  then have "mv_at bt s key = (\<lambda>_. None)" by (simp add: mv_at_def fun_eq_iff)
  with None show ?thesis
    by (auto simp: mvs_GetLatestBeforeIndex_def latest_below_def split: option.splits)
next
  case (Some it)
  then have "mv_at bt s key = item_at bt it" by (simp add: mv_at_def fun_eq_iff)
  with Some show ?thesis
    by (simp add: mvs_GetLatestBeforeIndex_def GetLatestBeforeIndex_iff [symmetric]
        split: option.splits)
qed

lemma GetLatestBeforeIndex_cong:
  "(\<And>j. j < index \<Longrightarrow> mv_at bt s key j = mv_at bt s' key j) \<Longrightarrow>
     mvs_GetLatestBeforeIndex bt s index key = mvs_GetLatestBeforeIndex bt s' index key"
  using GetLatestBeforeIndex_versions latest_below_cong by metis

lemma mv_at_store:
  "mv_at bt (s\<lparr>multiVersionMap := gm_store k it (multiVersionMap s)\<rparr>) k' j =
     (if k' = k then item_at bt it j else mv_at bt s k' j)"
  by (simp add: mv_at_def gomap_simps)

lemma item_at_load_or_new: "item_at bt (load_or_new bt k s) j = mv_at bt s k j"
  by (simp add: load_or_new_def mv_at_def split: option.splits)

lemma mv_at_set_key:
  "mv_at bt (set_key bt i n (k, v) s) k' j =
     (if k' = k \<and> j = i then Some (NewValueItem i n v) else mv_at bt s k' j)"
  by (cases v) (auto simp: set_key_def Let_def mv_at_store item_at_load_or_new
      deleted_item_is_nil_value)

lemma mv_at_estimate_key:
  "mv_at bt (set_estimate_key bt i n k s) k' j =
     (if k' = k \<and> j = i then Some (NewEstimateItem i n) else mv_at bt s k' j)"
  by (simp add: set_estimate_key_def mv_at_store item_at_load_or_new)

lemma mv_at_remove_old_key:
  "mv_at bt (remove_old_key bt i ws k s) k' j =
     (if k' = k \<and> j = i \<and> gm_load ws k = None then None else mv_at bt s k' j)"
proof (cases "gm_load (multiVersionMap s) k")
  case None
  then show ?thesis by (auto simp: remove_old_key_def mv_at_def)
next
  case (Some it)
  then have "mv_at bt s k = item_at bt it" by (simp add: mv_at_def fun_eq_iff)
  with Some show ?thesis by (simp add: remove_old_key_def mv_at_store)
qed

lemma mv_at_fold_set_key:
  assumes "distinct (gm_keys ws)"
  shows "mv_at bt (fold (set_key bt i n) ws s) k j =
    (case gm_load ws k of
       None \<Rightarrow> mv_at bt s k j
     | Some v \<Rightarrow> if j = i then Some (NewValueItem i n v) else mv_at bt s k j)"
  using assms
proof (induction ws arbitrary: s)
  case Nil
  then show ?case by simp
next
  case (Cons w ws)
  obtain k' v' where w: "w = (k', v')" by (cases w)
  have "gm_load ws k' = None" using Cons.prems w by (simp add: map_of_eq_None_iff)
  with Cons w show ?case by (auto simp: mv_at_set_key split: option.splits)
qed

lemma mv_at_fold_estimate_key:
  "mv_at bt (fold (set_estimate_key bt i n) ks s) k j =
     (if k \<in> set ks \<and> j = i then Some (NewEstimateItem i n) else mv_at bt s k j)"
  by (induction ks arbitrary: s) (auto simp: mv_at_estimate_key)

lemma mv_at_fold_remove_old_key:
  "mv_at bt (fold (remove_old_key bt i ws) ks s) k j =
     (if k \<in> set ks \<and> j = i \<and> gm_load ws k = None then None else mv_at bt s k j)"
  by (induction ks arbitrary: s) (auto simp: mv_at_remove_old_key)

lemma mv_at_keys_update [simp]: "mv_at bt (s\<lparr>txWritesetKeys := m\<rparr>) = mv_at bt s"
  by (simp add: mv_at_def fun_eq_iff)

text \<open>With every version recorded, removing the old write set leaves, at the transaction's own
  index, only keys that the new write set overwrites.\<close>

lemma mv_at_removeOldWriteset:
  assumes "keys_recorded bt s"
  shows "mv_at bt (removeOldWriteset bt i ws s) k j =
    (if j = i \<and> gm_load ws k = None then None else mv_at bt s k j)"
proof (cases "gm_load (txWritesetKeys s) i")
  case None
  then have "mv_at bt s k i = None" by (rule keys_recorded_None [OF assms])
  with None show ?thesis by (simp add: removeOldWriteset_def)
next
  case (Some ks)
  then have "k \<notin> set ks \<Longrightarrow> mv_at bt s k i = None" by (rule keys_recorded_notin [OF assms])
  with Some show ?thesis by (auto simp: removeOldWriteset_def mv_at_fold_remove_old_key)
qed

lemma mv_at_SetWriteset:
  assumes "keys_recorded bt s" and "distinct (gm_keys ws)"
  shows "mv_at bt (mvs_SetWriteset bt i n ws s) k j =
    (if j = i then map_option (NewValueItem i n) (gm_load ws k) else mv_at bt s k j)"
  using assms
  by (simp add: mvs_SetWriteset_def Let_def mv_at_fold_set_key mv_at_removeOldWriteset
      split: option.splits)

lemma mv_at_SetEstimatedWriteset:
  assumes "keys_recorded bt s"
  shows "mv_at bt (mvs_SetEstimatedWriteset bt i n ws s) k j =
    (if j = i then map_option (\<lambda>_. NewEstimateItem i n) (gm_load ws k) else mv_at bt s k j)"
proof (cases "gm_load ws k")
  case None
  then have "k \<notin> set (gm_keys ws)" by (simp add: gm_load_None_key)
  with None assms show ?thesis
    by (simp add: mvs_SetEstimatedWriteset_def Let_def mv_at_fold_estimate_key
        mv_at_removeOldWriteset)
next
  case (Some v)
  then have "k \<in> set (gm_keys ws)" by (rule gm_load_Some_key)
  with Some assms show ?thesis
    by (simp add: mvs_SetEstimatedWriteset_def Let_def mv_at_fold_estimate_key
        mv_at_removeOldWriteset)
qed

lemma mv_at_InvalidateWriteset:
  "mv_at bt (mvs_InvalidateWriteset bt i n s) k j =
     (case gm_load (txWritesetKeys s) i of
        None \<Rightarrow> mv_at bt s k j
      | Some ks \<Rightarrow> if k \<in> set ks \<and> j = i then Some (NewEstimateItem i n) else mv_at bt s k j)"
  by (simp add: mvs_InvalidateWriteset_def mv_at_fold_estimate_key split: option.splits)

lemma mv_at_InvalidateWriteset_other:
  "j \<noteq> i \<Longrightarrow> mv_at bt (mvs_InvalidateWriteset bt i n s) k j = mv_at bt s k j"
  by (simp add: mv_at_InvalidateWriteset split: option.splits)

subsection \<open>Every operation keeps the versions recorded\<close>

lemma keys_recorded_New: "keys_recorded bt (NewMultiVersionStore parent)"
  by (simp add: keys_recorded_def mv_at_def NewMultiVersionStore_def)

lemma keys_recorded_SetWriteset:
  assumes "keys_recorded bt s" and "distinct (gm_keys ws)"
  shows "keys_recorded bt (mvs_SetWriteset bt i n ws s)"
  using assms gm_load_Some_key [of ws]
  by (fastforce simp: keys_recorded_def mv_at_SetWriteset [OF assms] keys_SetWriteset)

lemma keys_recorded_SetEstimatedWriteset:
  assumes "keys_recorded bt s"
  shows "keys_recorded bt (mvs_SetEstimatedWriteset bt i n ws s)"
  using assms gm_load_Some_key [of ws]
  by (fastforce simp: keys_recorded_def mv_at_SetEstimatedWriteset [OF assms]
      keys_SetEstimatedWriteset)

lemma keys_recorded_InvalidateWriteset:
  assumes "keys_recorded bt s"
  shows "keys_recorded bt (mvs_InvalidateWriteset bt i n s)"
  using assms
  by (auto simp: keys_recorded_def mv_at_InvalidateWriteset keys_InvalidateWriteset
      split: option.splits if_splits)

lemma keys_recorded_reads [simp]:
  "keys_recorded bt (mvs_SetReadset i rs s) = keys_recorded bt s"
  "keys_recorded bt (mvs_ClearReadset i s) = keys_recorded bt s"
  "keys_recorded bt (mvs_SetIterateset i its s) = keys_recorded bt s"
  "keys_recorded bt (mvs_ClearIterateset i s) = keys_recorded bt s"
  by (simp_all add: keys_recorded_def)

subsection \<open>What a transaction sees\<close>

lemma mv_view_cong:
  assumes "\<And>j. j < index \<Longrightarrow> mv_at bt s key j = mv_at bt s' key j"
    and "parentStore s = parentStore s'"
  shows "mv_view bt s index key = mv_view bt s' index key"
  using GetLatestBeforeIndex_cong [of index s key s'] assms
  by (simp add: mv_view_def split: option.split)

lemma mv_view_parent: "(\<And>j. j < index \<Longrightarrow> mv_at bt s key j = None) \<Longrightarrow>
    mv_view bt s index key = kv_Get (parentStore s) key"
  using GetLatestBeforeIndex_versions [of s index key None]
  by (simp add: mv_view_def latest_below_def)

text \<open>The view above a transaction is the view at the transaction, overwritten by its own
  versions, when no other transaction lies between.\<close>

lemma mv_view_step:
  assumes "i < i'" and "\<And>j. i < j \<Longrightarrow> j < i' \<Longrightarrow> mv_at bt s key j = None"
  shows "mv_view bt s i' key = (case mv_at bt s key i of None \<Rightarrow> mv_view bt s i key | Some x \<Rightarrow> vi_value x)"
proof (cases "mv_at bt s key i")
  case None
  let ?r = "mvs_GetLatestBeforeIndex bt s i key"
  have r: "latest_below (mv_at bt s key) i ?r"
    using GetLatestBeforeIndex_versions by blast
  have gap: "mv_at bt s key j = None" if "i \<le> j" "j < i'" for j
    using None assms(2) that by (cases "j = i") auto
  have "latest_below (mv_at bt s key) i' ?r"
  proof (cases ?r)
    case None
    with r gap show ?thesis by (simp add: latest_below_def) (meson not_le)
  next
    case (Some x)
    with r gap assms(1) show ?thesis by (simp add: latest_below_def) (meson not_le)
  qed
  then have "mvs_GetLatestBeforeIndex bt s i' key = ?r"
    using GetLatestBeforeIndex_versions by blast
  with None show ?thesis by (simp add: mv_view_def)
next
  case (Some x)
  with assms have "latest_below (mv_at bt s key) i' (Some x)"
    by (simp add: latest_below_def mv_at_index)
  then have "mvs_GetLatestBeforeIndex bt s i' key = Some x"
    using GetLatestBeforeIndex_versions by blast
  with Some show ?thesis by (simp add: mv_view_def)
qed

subsection \<open>The parent store after the block\<close>

text \<open>No key panics: what \<open>GetLatestNonEstimate\<close> returns is not an estimate.\<close>

lemma write_latest_key_Inr:
  obtains s' where "write_latest_key bt k s = Inr s'" and "multiVersionMap s' = multiVersionMap s"
    and "\<And>k'. kv_Get (parentStore s') k' = (if k' = k then latest_value bt s k else kv_Get (parentStore s) k')"
proof (cases "gm_load (multiVersionMap s) k")
  case None
  with that [of s] show thesis by (simp add: write_latest_key_def latest_value_def)
next
  case item: (Some it)
  show thesis
  proof (cases "mvi_GetLatestNonEstimate bt it")
    case None
    with item that [of s] show thesis by (simp add: write_latest_key_def latest_value_def)
  next
    case (Some x)
    then have "\<not> vi_IsEstimate x" by (simp add: GetLatestNonEstimate_latest)
    moreover from this have "vi_IsDeleted x \<longleftrightarrow> vi_value x = None" by (simp add: vi_IsDeleted_iff)
    ultimately show thesis
      using item Some that [of "s\<lparr>parentStore := kv_Delete k (parentStore s)\<rparr>"]
        that [of "s\<lparr>parentStore := kv_Set k v (parentStore s)\<rparr>" for v]
      by (cases "vi_value x") (auto simp: write_latest_key_def latest_value_def gomap_simps)
  qed
qed

lemma each_write_latest:
  "\<exists>s'. each (write_latest_key bt) ks s = Inr s' \<and>
     (\<forall>k. kv_Get (parentStore s') k = (if k \<in> set ks then latest_value bt s k else kv_Get (parentStore s) k))"
proof (induction ks arbitrary: s)
  case (Cons k ks)
  obtain s1 where s1: "write_latest_key bt k s = Inr s1" "multiVersionMap s1 = multiVersionMap s"
    "\<And>k'. kv_Get (parentStore s1) k' = (if k' = k then latest_value bt s k else kv_Get (parentStore s) k')"
    using write_latest_key_Inr [where k = k and s = s] by blast
  then have "latest_value bt s1 k' = latest_value bt s k'" for k'
    by (auto simp: latest_value_def split: option.splits)
  with Cons.IH [of s1] s1 show ?case by auto
qed simp

lemma WriteLatestToStore_parent:
  "\<exists>s'. mvs_WriteLatestToStore bt s = Inr s' \<and> kv_Get (parentStore s') = latest_value bt s"
proof -
  obtain s' where s': "mvs_WriteLatestToStore bt s = Inr s'"
    "\<And>k. kv_Get (parentStore s') k =
      (if k \<in> set (gm_keys (multiVersionMap s)) then latest_value bt s k else kv_Get (parentStore s) k)"
    using each_write_latest [of "sort (gm_keys (multiVersionMap s))" s]
    unfolding mvs_WriteLatestToStore_def by auto
  have "latest_value bt s k = kv_Get (parentStore s) k" if "k \<notin> set (gm_keys (multiVersionMap s))" for k
  proof -
    have "gm_load (multiVersionMap s) k = None" unfolding gm_load_None_key by (rule that)
    then show ?thesis by (simp add: latest_value_def)
  qed
  with s' show ?thesis by (auto simp: fun_eq_iff)
qed

text \<open>The value left in the parent, read off the versions: the value of the latest version that is not an
  estimate, whatever estimates lie above it.\<close>

lemma latest_value_version:
  assumes "mv_at bt s k i = Some x" and "\<not> vi_IsEstimate x"
    and "\<And>j y. mv_at bt s k j = Some y \<Longrightarrow> i < j \<Longrightarrow> vi_IsEstimate y"
  shows "latest_value bt s k = vi_value x"
proof -
  obtain it where it: "gm_load (multiVersionMap s) k = Some it" "item_at bt it i = Some x"
    using assms(1) by (auto simp: mv_at_def split: option.splits)
  with assms(3) have "\<And>j y. item_at bt it j = Some y \<Longrightarrow> i < j \<Longrightarrow> vi_IsEstimate y" by (simp add: mv_at_def)
  with it assms(2) have "mvi_GetLatestNonEstimate bt it = Some x"
    unfolding GetLatestNonEstimate_latest using item_at_index by (metis linorder_neqE_linordered_idom not_less)
  with it show ?thesis by (simp add: latest_value_def)
qed

lemma latest_value_none:
  assumes "\<And>j y. mv_at bt s k j = Some y \<Longrightarrow> vi_IsEstimate y"
  shows "latest_value bt s k = kv_Get (parentStore s) k"
proof (cases "gm_load (multiVersionMap s) k")
  case (Some it)
  with assms have "mvi_GetLatestNonEstimate bt it = None"
    by (simp add: GetLatestNonEstimate_None mv_at_def)
  with Some show ?thesis by (simp add: latest_value_def)
qed (simp add: latest_value_def)

text \<open>Without estimates, the parent ends up with what a transaction after the whole block sees.\<close>

lemma latest_value_view:
  assumes "\<And>i x. mv_at bt s k i = Some x \<Longrightarrow> i < hi \<and> \<not> vi_IsEstimate x"
  shows "latest_value bt s k = mv_view bt s hi k"
proof (cases "gm_load (multiVersionMap s) k")
  case None
  then show ?thesis by (simp add: latest_value_def mv_view_def mvs_GetLatestBeforeIndex_def)
next
  case (Some it)
  then have at: "mv_at bt s k = item_at bt it" by (simp add: mv_at_def fun_eq_iff)
  show ?thesis
  proof (cases "mvi_GetLatestNonEstimate bt it")
    case None
    with assms at have "mv_at bt s k i = None" for i
      unfolding GetLatestNonEstimate_None by (metis not_None_eq)
    then have "mv_view bt s hi k = kv_Get (parentStore s) k" by (intro mv_view_parent)
    with None Some show ?thesis by (simp add: latest_value_def)
  next
    case (Some x)
    then have "latest_below (mv_at bt s k) hi (Some x)"
      using assms at unfolding GetLatestNonEstimate_latest latest_below_def by auto
    then have "mvs_GetLatestBeforeIndex bt s hi k = Some x"
      using GetLatestBeforeIndex_versions by blast
    with Some \<open>gm_load (multiVersionMap s) k = Some it\<close> show ?thesis
      by (simp add: latest_value_def mv_view_def)
  qed
qed

end

subsection \<open>Properties\<close>

text \<open>C18. \<open>SetWriteset\<close> replaces the versions of its transaction by the new write set, deletions
  included, and touches no version of another transaction: what an earlier incarnation wrote
  and this one did not is gone.\<close>

theorem SetWriteset_versions:
  assumes "btree_api bt" and "keys_recorded bt s" and "distinct (gm_keys writeset)"
  shows "mv_at bt (mvs_SetWriteset bt index incarnation writeset s) key i =
    (if i = index then map_option (NewValueItem index incarnation) (gm_load writeset key)
     else mv_at bt s key i)"
  using btree_api.mv_at_SetWriteset [OF assms] by simp

theorem SetWriteset_versions_witness:
  "mv_at rbt_btree (mvs_SetWriteset rbt_btree 3 1 [(''b'', None)]
     (mvs_SetWriteset rbt_btree 3 0 [(''a'', Some ''x'')] (NewMultiVersionStore []))) ''a'' 3 = None \<and>
   mv_at rbt_btree (mvs_SetWriteset rbt_btree 3 1 [(''b'', None)]
     (mvs_SetWriteset rbt_btree 3 0 [(''a'', Some ''x'')] (NewMultiVersionStore []))) ''b'' 3
     = Some (NewDeletedItem 3 1)"
proof -
  let ?s = "mvs_SetWriteset rbt_btree 3 0 [(''a'', Some ''x'')] (NewMultiVersionStore [])"
  have "keys_recorded rbt_btree ?s"
    by (rule rbt.keys_recorded_SetWriteset [OF rbt.keys_recorded_New]) simp
  from SetWriteset_versions [OF rbt.btree_api_axioms this, of "[(''b'', None)]" 3 1]
  show ?thesis by (simp add: deleted_item_is_nil_value)
qed

text \<open>C24. When the versions of every transaction belong to keys of its recorded write set,
  \<open>InvalidateWriteset\<close> leaves an estimate under every key of the write set of its transaction, so that
  no version of the transaction is left that is not an estimate and later transactions that would
  read one abort, and leaves all other versions alone.\<close>

theorem InvalidateWriteset_estimates:
  assumes "btree_api bt" and "keys_recorded bt s"
  shows "mv_at bt (mvs_InvalidateWriteset bt index incarnation s) key i =
      (if i = index \<and> (\<exists>ks. gm_load (txWritesetKeys s) index = Some ks \<and> key \<in> set ks)
       then Some (NewEstimateItem index incarnation) else mv_at bt s key i) \<and>
    (mv_at bt (mvs_InvalidateWriteset bt index incarnation s) key index = Some x \<longrightarrow> vi_IsEstimate x)"
  using keys_recorded_None [OF assms(2), of index key] keys_recorded_notin [OF assms(2), of index]
  by (auto simp: btree_api.mv_at_InvalidateWriteset [OF assms(1)] split: option.splits)

theorem InvalidateWriteset_estimates_witness:
  "mv_at rbt_btree (mvs_InvalidateWriteset rbt_btree 3 1
     (mvs_SetWriteset rbt_btree 3 0 [(''a'', Some ''x'')] (NewMultiVersionStore []))) ''a'' 3
     = Some (NewEstimateItem 3 1)"
proof -
  let ?s = "mvs_SetWriteset rbt_btree 3 0 [(''a'', Some ''x'')] (NewMultiVersionStore [])"
  have "keys_recorded rbt_btree ?s"
    by (rule rbt.keys_recorded_SetWriteset [OF rbt.keys_recorded_New]) simp
  from InvalidateWriteset_estimates [OF rbt.btree_api_axioms this, of 3 1 "''a''" 3]
  show ?thesis by (simp add: keys_SetWriteset gomap_simps)
qed

text \<open>C22. \<open>WriteLatestToStore\<close> never panics and leaves in the parent store, under every key, the value of
  the latest version that is not an estimate, also when there are estimates above it (a deletion, whose
  value is \<open>nil\<close>, removes the key). A key without versions, or with estimates only, keeps its old value.\<close>

theorem WriteLatestToStore_spec:
  assumes "btree_api bt"
  shows "\<exists>s'. mvs_WriteLatestToStore bt s = Inr s' \<and>
    (\<forall>key.
      (\<forall>i x. mv_at bt s key i = Some x \<and> \<not> vi_IsEstimate x \<and>
         (\<forall>j y. mv_at bt s key j = Some y \<and> i < j \<longrightarrow> vi_IsEstimate y) \<longrightarrow>
         kv_Get (parentStore s') key = vi_value x) \<and>
      ((\<forall>j y. mv_at bt s key j = Some y \<longrightarrow> vi_IsEstimate y) \<longrightarrow>
         kv_Get (parentStore s') key = kv_Get (parentStore s) key))"
proof -
  obtain s' where s': "mvs_WriteLatestToStore bt s = Inr s'" "kv_Get (parentStore s') = latest_value bt s"
    using btree_api.WriteLatestToStore_parent [OF assms] by blast
  moreover note btree_api.latest_value_version [OF assms] btree_api.latest_value_none [OF assms]
  ultimately show ?thesis by (intro exI [of _ s']) (simp, blast)
qed

text \<open>Transaction 3 has written a key and transaction 5 has an estimate for it.\<close>

definition estimate_above :: "(int, valueItem) rbt mvstore" where
  "estimate_above =
     mvs_SetEstimatedWriteset rbt_btree 5 0 [(''a'', None)]
       (mvs_SetWriteset rbt_btree 3 0 [(''a'', Some ''x'')] (NewMultiVersionStore []))"

theorem WriteLatestToStore_spec_witness:
  "\<exists>s'. mvs_WriteLatestToStore rbt_btree estimate_above = Inr s' \<and> kv_Get (parentStore s') ''a'' = Some ''x''"
proof -
  let ?s1 = "mvs_SetWriteset rbt_btree 3 0 [(''a'', Some ''x'')] (NewMultiVersionStore []) :: (int, valueItem) rbt mvstore"
  have rec: "keys_recorded rbt_btree ?s1"
    by (rule rbt.keys_recorded_SetWriteset [OF rbt.keys_recorded_New]) simp
  have "mv_at rbt_btree ?s1 ''a'' j = (if j = 3 then Some (NewValueItem 3 0 (Some ''x'')) else None)" for j
    using rbt.mv_at_SetWriteset [OF rbt.keys_recorded_New [of "[]"], of "[(''a'', Some ''x'')]" 3 0 "''a''" j]
    by (simp add: mv_at_def NewMultiVersionStore_def)
  then have at: "mv_at rbt_btree estimate_above ''a'' j =
      (if j = 5 then Some (NewEstimateItem 5 0) else if j = 3 then Some (NewValueItem 3 0 (Some ''x'')) else None)" for j
    using rbt.mv_at_SetEstimatedWriteset [OF rec, of 5 0 "[(''a'', None)]" "''a''" j] by (simp add: estimate_above_def)
  obtain s' where s': "mvs_WriteLatestToStore rbt_btree estimate_above = Inr s'"
    "mv_at rbt_btree estimate_above ''a'' 3 = Some x \<and> \<not> vi_IsEstimate x \<and>
       (\<forall>j y. mv_at rbt_btree estimate_above ''a'' j = Some y \<and> 3 < j \<longrightarrow> vi_IsEstimate y) \<longrightarrow>
       kv_Get (parentStore s') ''a'' = vi_value x" for x
    using WriteLatestToStore_spec [OF rbt.btree_api_axioms, of estimate_above] by blast
  from s'(2) [of "NewValueItem 3 0 (Some ''x'')"] s'(1) show ?thesis
    by (simp add: at NewValueItem_def NewEstimateItem_def vi_IsEstimate_def split: if_splits)
qed

end
