(* ===== verification/MVIter.thy ===== *)
theory MVIter
  imports MVStore
begin

text \<open>
  Iterators over the multi-version store:
  \<open>src/sei-cosmos/store/multiversion/memiterator.go\<close> (the validation iterator) and
  \<open>src/sei-cosmos/store/multiversion/mergeiterator.go\<close> (the merge of a parent iterator with a
  cache iterator), as the replay of an iteration uses them.

  The sorted set of candidate keys is an in-memory database of the package
  \<open>github.com/tendermint/tm-db\<close>, which is not part of the repository: its operations are the
  fields of the record \<open>memdb\<close>, and what its documentation promises is the locale \<open>memdb_api\<close>.
  An iterator is the list of what it has still to offer.
\<close>

subsection \<open>The in-memory database\<close>

text \<open>Iterators offer keys (the values stored here are placeholders); \<open>None\<close> is the error that an
  empty, non-\<open>nil\<close> bound gives.\<close>

record 'd memdb =
  md_New :: 'd
  md_Set :: "'d \<Rightarrow> bytes \<Rightarrow> bytes \<Rightarrow> 'd"
  md_Iterator :: "'d \<Rightarrow> slice \<Rightarrow> slice \<Rightarrow> bytes list option"
  md_ReverseIterator :: "'d \<Rightarrow> slice \<Rightarrow> slice \<Rightarrow> bytes list option"

definition mvs_CollectIteratorItems :: "'d memdb \<Rightarrow> 't mvstore \<Rightarrow> int \<Rightarrow> 'd" where
  "mvs_CollectIteratorItems md s index =
     fold (\<lambda>i sortedItems.
             case gm_load (txWritesetKeys s) i of
               None \<Rightarrow> sortedItems
             | Some indexedWriteset \<Rightarrow> fold (\<lambda>key d. md_Set md d key []) indexedWriteset sortedItems)
       [0..index - 1] (md_New md)"

text \<open>What the documentation of the database promises: iterators offer the keys of the domain in
  order, an empty key is refused, and only an empty, non-\<open>nil\<close> bound makes an iterator fail.\<close>

locale memdb_api =
  fixes md :: "'d memdb"
    and md_keys :: "'d \<Rightarrow> bytes set"
  assumes keys_New: "md_keys (md_New md) = {}"
    and keys_Set: "md_keys (md_Set md d k v) = (if k = [] then md_keys d else insert k (md_keys d))"
    and Iterator_ok: "start \<noteq> Some [] \<Longrightarrow> end' \<noteq> Some [] \<Longrightarrow>
      \<exists>ks. md_Iterator md d start end' = Some ks \<and>
        set ks = {k \<in> md_keys d. IsKeyInDomain k start end'} \<and> sorted_wrt (<) ks"
    and ReverseIterator_ok: "start \<noteq> Some [] \<Longrightarrow> end' \<noteq> Some [] \<Longrightarrow>
      \<exists>ks. md_ReverseIterator md d start end' = Some ks \<and>
        set ks = {k \<in> md_keys d. IsKeyInDomain k start end'} \<and> sorted_wrt (>) ks"
    and Iterator_error: "start = Some [] \<or> end' = Some [] \<Longrightarrow>
      md_Iterator md d start end' = None \<and> md_ReverseIterator md d start end' = None"
begin

lemma keys_fold_Set: "md_keys (fold (\<lambda>key d. md_Set md d key []) ks d) = (set ks - {[]}) \<union> md_keys d"
  by (induction ks arbitrary: d) (auto simp: keys_Set)

lemma keys_collect_from:
  "md_keys (fold (\<lambda>i sortedItems.
       case gm_load m i of
         None \<Rightarrow> sortedItems
       | Some ks \<Rightarrow> fold (\<lambda>key d. md_Set md d key []) ks sortedItems) xs d) =
   {k. \<exists>i ks. i \<in> set xs \<and> gm_load m i = Some ks \<and> k \<in> set ks \<and> k \<noteq> []} \<union> md_keys d"
  by (induction xs arbitrary: d) (auto simp: keys_fold_Set split: option.splits)

text \<open>The candidate keys of an iteration are the keys in the write sets of earlier transactions.\<close>

lemma keys_CollectIteratorItems:
  "md_keys (mvs_CollectIteratorItems md s index) =
     {k. \<exists>i ks. 0 \<le> i \<and> i < index \<and> gm_load (txWritesetKeys s) i = Some ks \<and> k \<in> set ks \<and> k \<noteq> []}"
  unfolding mvs_CollectIteratorItems_def keys_collect_from by (auto simp: keys_New)

end

text \<open>An instance: a sorted list of keys.\<close>

definition list_memdb :: "bytes list memdb" where
  "list_memdb =
     \<lparr>md_New = [],
      md_Set = (\<lambda>d k v. if k = [] then d else insort_insert k d),
      md_Iterator = (\<lambda>d start end'. if start = Some [] \<or> end' = Some [] then None
        else Some (filter (\<lambda>k. IsKeyInDomain k start end') (remdups (sort d)))),
      md_ReverseIterator = (\<lambda>d start end'. if start = Some [] \<or> end' = Some [] then None
        else Some (rev (filter (\<lambda>k. IsKeyInDomain k start end') (remdups (sort d)))))\<rparr>"

interpretation lmd: memdb_api list_memdb set
proof
  fix d :: "bytes list" and start end' :: slice
  have "sorted_wrt (<) (remdups (sort d))" by (simp add: strict_sorted_iff)
  then have "sorted_wrt (<) (filter (\<lambda>k. IsKeyInDomain k start end') (remdups (sort d)))"
    by (rule sorted_wrt_filter)
  then show "\<exists>ks. md_Iterator list_memdb d start end' = Some ks \<and>
      set ks = {k \<in> set d. IsKeyInDomain k start end'} \<and> sorted_wrt (<) ks"
    and "\<exists>ks. md_ReverseIterator list_memdb d start end' = Some ks \<and>
      set ks = {k \<in> set d. IsKeyInDomain k start end'} \<and> sorted_wrt (>) ks"
    if "start \<noteq> Some []" "end' \<noteq> Some []"
    using that by (auto simp: list_memdb_def sorted_wrt_rev)
qed (auto simp: list_memdb_def set_insort_insert)

subsection \<open>The validation iterator\<close>

record validationIterator =
  vit_iter :: "bytes list"
  vit_readCache :: "(bytes, slice) gomap"
  vit_abort :: "int list"

definition newMVSValidationIterator ::
  "'d memdb \<Rightarrow> slice \<Rightarrow> slice \<Rightarrow> 'd \<Rightarrow> bool \<Rightarrow> panic + validationIterator" where
  "newMVSValidationIterator md start end' items ascending =
     (case (if ascending then md_Iterator md items start end'
            else md_ReverseIterator md items start end') of
        None \<Rightarrow> Inl EmptyRangeBound
      | Some iter \<Rightarrow> Inr \<lparr>vit_iter = iter, vit_readCache = [], vit_abort = []\<rparr>)"

definition vit_hasCurrentValue ::
  "'t btree \<Rightarrow> 't mvstore \<Rightarrow> int \<Rightarrow> WriteSet \<Rightarrow> validationIterator \<Rightarrow> bytes \<Rightarrow> bool" where
  "vit_hasCurrentValue bt s index writeset vi key \<longleftrightarrow>
     gm_load writeset key \<noteq> None \<or> gm_load (vit_readCache vi) key \<noteq> None \<or>
     mvs_GetLatestBeforeIndex bt s index key \<noteq> None"

definition vit_skipRemovedKeys ::
  "'t btree \<Rightarrow> 't mvstore \<Rightarrow> int \<Rightarrow> WriteSet \<Rightarrow> validationIterator \<Rightarrow> validationIterator" where
  "vit_skipRemovedKeys bt s index writeset vi =
     vi\<lparr>vit_iter := dropWhile (\<lambda>k. \<not> vit_hasCurrentValue bt s index writeset vi k) (vit_iter vi)\<rparr>"

definition vit_Valid ::
  "'t btree \<Rightarrow> 't mvstore \<Rightarrow> int \<Rightarrow> WriteSet \<Rightarrow> validationIterator \<Rightarrow> bool \<times> validationIterator" where
  "vit_Valid bt s index writeset vi =
     (let vi' = vit_skipRemovedKeys bt s index writeset vi in (vit_iter vi' \<noteq> [], vi'))"

text \<open>\<open>Next\<close> and \<open>Key\<close> of the underlying iterator are called only while it is valid.\<close>

definition vit_Next ::
  "'t btree \<Rightarrow> 't mvstore \<Rightarrow> int \<Rightarrow> WriteSet \<Rightarrow> validationIterator \<Rightarrow> validationIterator" where
  "vit_Next bt s index writeset vi =
     vit_skipRemovedKeys bt s index writeset (vi\<lparr>vit_iter := tl (vit_iter vi)\<rparr>)"

definition vit_Key ::
  "'t btree \<Rightarrow> 't mvstore \<Rightarrow> int \<Rightarrow> WriteSet \<Rightarrow> validationIterator \<Rightarrow> bytes \<times> validationIterator" where
  "vit_Key bt s index writeset vi =
     (let vi' = vit_skipRemovedKeys bt s index writeset vi in (hd (vit_iter vi'), vi'))"

text \<open>The abort channel has capacity one; a full channel drops the abort.\<close>

definition vit_WriteAbort :: "int \<Rightarrow> validationIterator \<Rightarrow> validationIterator" where
  "vit_WriteAbort dep vi = (if vit_abort vi = [] then vi\<lparr>vit_abort := [dep]\<rparr> else vi)"

definition vit_Value ::
  "'t btree \<Rightarrow> 't mvstore \<Rightarrow> int \<Rightarrow> WriteSet \<Rightarrow> validationIterator \<Rightarrow> slice \<times> validationIterator" where
  "vit_Value bt s index writeset vi =
     (let key = hd (vit_iter vi) in
      case gm_load writeset key of
        Some val \<Rightarrow> (val, vi)
      | None \<Rightarrow>
          (case gm_load (vit_readCache vi) key of
             Some val \<Rightarrow> (val, vi)
           | None \<Rightarrow>
               (case mvs_GetLatestBeforeIndex bt s index key of
                  None \<Rightarrow> (None, vi)
                | Some val \<Rightarrow>
                    let vi1 = (if vi_IsEstimate val then vit_WriteAbort (vi_index val) vi else vi)
                    in if vi_IsDeleted val
                       then (None, vi1\<lparr>vit_readCache := gm_store key None (vit_readCache vi1)\<rparr>)
                       else (vi_value val,
                             vi1\<lparr>vit_readCache := gm_store key (vi_value val) (vit_readCache vi1)\<rparr>))))"

subsection \<open>The merge iterator\<close>

record mvsMergeIterator =
  mi_parent :: "(bytes \<times> bytes) list"
  mi_cache :: validationIterator

definition bytes_Compare :: "bytes \<Rightarrow> bytes \<Rightarrow> int" where
  "bytes_Compare a b = (if a < b then -1 else if a = b then 0 else 1)"

definition mi_compare :: "bool \<Rightarrow> bytes \<Rightarrow> bytes \<Rightarrow> int" where
  "mi_compare ascending a b = (if ascending then bytes_Compare a b else bytes_Compare a b * -1)"

lemma vit_iter_skipRemovedKeys:
  "length (vit_iter (vit_skipRemovedKeys bt s index ws vi)) \<le> length (vit_iter vi)"
  by (simp add: vit_skipRemovedKeys_def length_dropWhile_le)

lemma vit_iter_Value: "vit_iter (snd (vit_Value bt s index ws vi)) = vit_iter vi"
  by (simp add: vit_Value_def Let_def vit_WriteAbort_def split: option.splits)

lemma vit_Valid_length:
  "vit_Valid bt s index ws vi = (b, vi') \<Longrightarrow> length (vit_iter vi') \<le> length (vit_iter vi)"
  using vit_iter_skipRemovedKeys by (auto simp: vit_Valid_def Let_def)

lemma vit_Next_length:
  "vit_iter vi \<noteq> [] \<Longrightarrow> length (vit_iter (vit_Next bt s index ws vi)) < length (vit_iter vi)"
  using vit_iter_skipRemovedKeys [of bt s index ws "vi\<lparr>vit_iter := tl (vit_iter vi)\<rparr>"]
  by (cases "vit_iter vi") (auto simp: vit_Next_def)

lemma vit_step_length:
  assumes "vit_Valid bt s index ws cache = (True, c1)" and "vit_Value bt s index ws c1 = (v, c2)"
  shows "length (vit_iter (vit_Next bt s index ws c2)) < length (vit_iter cache)"
proof -
  have "vit_iter c2 = vit_iter c1"
    using vit_iter_Value [of bt s index ws c1] assms(2) by simp
  moreover have "vit_iter c1 \<noteq> []"
    using assms(1) by (auto simp: vit_Valid_def Let_def)
  ultimately show ?thesis
    using vit_Next_length [of c2 bt s index ws] vit_Valid_length [OF assms(1)] by simp
qed

function mi_skipCacheDeletes ::
  "'t btree \<Rightarrow> 't mvstore \<Rightarrow> int \<Rightarrow> WriteSet \<Rightarrow> bool \<Rightarrow> slice \<Rightarrow> validationIterator \<Rightarrow> validationIterator"
where
  "mi_skipCacheDeletes bt s index ws ascending until cache =
     (case vit_Valid bt s index ws cache of
        (valid, c1) \<Rightarrow>
          if \<not> valid then c1
          else case vit_Value bt s index ws c1 of
            (v, c2) \<Rightarrow>
              if v \<noteq> None then c2
              else if (case until of None \<Rightarrow> True
                       | Some u \<Rightarrow> mi_compare ascending (fst (vit_Key bt s index ws c2)) u < 0)
              then mi_skipCacheDeletes bt s index ws ascending until (vit_Next bt s index ws c2)
              else c2)"
  by pat_completeness auto
termination
  by (relation "measure (\<lambda>(bt, s, index, ws, ascending, until, cache). length (vit_iter cache))")
    (auto intro: vit_step_length [OF sym sym])

declare mi_skipCacheDeletes.simps [simp del]

lemma mi_skipCacheDeletes_length:
  "length (vit_iter (mi_skipCacheDeletes bt s index ws ascending until cache)) \<le> length (vit_iter cache)"
proof (induction bt s index ws ascending until cache rule: mi_skipCacheDeletes.induct)
  case (1 bt s index ws ascending until cache)
  obtain valid c1 where v: "vit_Valid bt s index ws cache = (valid, c1)" by force
  obtain w c2 where w: "vit_Value bt s index ws c1 = (w, c2)" by force
  have l1: "length (vit_iter c1) \<le> length (vit_iter cache)"
    using vit_Valid_length [OF v] .
  have l2: "vit_iter c2 = vit_iter c1"
    using vit_iter_Value [of bt s index ws c1] w by simp
  have l3: "valid \<Longrightarrow> length (vit_iter (vit_Next bt s index ws c2)) < length (vit_iter cache)"
    using v w by (auto intro: vit_step_length)
  note IH = "1.IH" [OF v [symmetric] _ w [symmetric]]
  show ?case
    using IH l1 l2 l3 by (subst mi_skipCacheDeletes.simps) (auto simp: v w)
qed

text \<open>Once a version's value has been served it is served again, so a deleted cache item below
  the parent's key is passed over.\<close>

lemma vit_Value_again:
  assumes "vit_Valid bt s index ws cache = (True, c1)" and "vit_Value bt s index ws c1 = (v, c2)"
  shows "vit_Valid bt s index ws c2 = (True, c2)" and "vit_Value bt s index ws c2 = (v, c2)"
    and "vit_Key bt s index ws c2 = (hd (vit_iter c1), c2)"
proof -
  from assms(1) have c1: "vit_iter c1 \<noteq> []"
      "c1 = vit_skipRemovedKeys bt s index ws cache"
    by (auto simp: vit_Valid_def Let_def)
  then obtain k ks where k: "vit_iter c1 = k # ks" by (cases "vit_iter c1") auto
  have rc: "vit_readCache c1 = vit_readCache cache"
    using c1(2) by (simp add: vit_skipRemovedKeys_def)
  have "dropWhile (\<lambda>k. \<not> vit_hasCurrentValue bt s index ws cache k) (vit_iter cache) = k # ks"
    using c1(2) k by (simp add: vit_skipRemovedKeys_def)
  then have "vit_hasCurrentValue bt s index ws cache k"
    by (metis hd_dropWhile list.sel(1) list.discI)
  then have pres: "gm_load ws k \<noteq> None \<or> gm_load (vit_readCache c1) k \<noteq> None \<or>
      mvs_GetLatestBeforeIndex bt s index k \<noteq> None"
    by (simp add: vit_hasCurrentValue_def rc)
  have it: "vit_iter c2 = k # ks"
    using vit_iter_Value [of bt s index ws c1] assms(2) k by simp
  have served: "gm_load ws k \<noteq> None \<or> gm_load (vit_readCache c2) k = Some v"
    using assms(2) pres k
    by (auto simp: vit_Value_def Let_def vit_WriteAbort_def gomap_simps
        split: option.splits if_splits)
  then have "vit_hasCurrentValue bt s index ws c2 k" by (auto simp: vit_hasCurrentValue_def)
  with it have skip: "vit_skipRemovedKeys bt s index ws c2 = c2"
    by (simp add: vit_skipRemovedKeys_def)
  with it show "vit_Valid bt s index ws c2 = (True, c2)"
    and "vit_Key bt s index ws c2 = (hd (vit_iter c1), c2)"
    by (simp_all add: vit_Valid_def vit_Key_def Let_def k)
  show "vit_Value bt s index ws c2 = (v, c2)"
    using served assms(2) it k
    by (auto simp: vit_Value_def Let_def vit_WriteAbort_def split: option.splits if_splits)
qed

lemma mi_skipCacheDeletes_progress:
  assumes "vit_Valid bt s index ws cache = (True, c1)" and "vit_Value bt s index ws c1 = (None, c2)"
    and "mi_compare ascending (hd (vit_iter c1)) u < 0"
  shows "length (vit_iter (mi_skipCacheDeletes bt s index ws ascending (Some u) c2))
    < length (vit_iter cache)"
proof -
  note again = vit_Value_again [OF assms(1,2)]
  have "mi_skipCacheDeletes bt s index ws ascending (Some u) c2 =
      mi_skipCacheDeletes bt s index ws ascending (Some u) (vit_Next bt s index ws c2)"
    by (subst mi_skipCacheDeletes.simps) (simp add: again assms(3))
  also have "length (vit_iter \<dots>) \<le> length (vit_iter (vit_Next bt s index ws c2))"
    by (rule mi_skipCacheDeletes_length)
  also have "\<dots> < length (vit_iter cache)"
    using vit_step_length [OF assms(1,2)] .
  finally show ?thesis .
qed

lemma mi_compare_flip: "mi_compare ascending a b = 1 \<Longrightarrow> mi_compare ascending b a < 0"
  by (auto simp: mi_compare_def bytes_Compare_def split: if_splits)

lemma mi_skipCacheDeletes_below_parent:
  assumes "vit_Valid bt s index ws cache = (True, c1)" and "vit_Value bt s index ws c1 = (None, c2)"
    and "mi_compare ascending u (hd (vit_iter c1)) \<noteq> -1"
    and "mi_compare ascending u (hd (vit_iter c1)) \<noteq> 0"
  shows "length (vit_iter (mi_skipCacheDeletes bt s index ws ascending (Some u) c2))
    < length (vit_iter cache)"
proof -
  have "mi_compare ascending u (hd (vit_iter c1)) = 1"
    using assms(3,4) by (auto simp: mi_compare_def bytes_Compare_def split: if_splits)
  with mi_compare_flip mi_skipCacheDeletes_progress assms(1,2) show ?thesis by blast
qed

lemma vit_Key_valid:
  "vit_Valid bt s index ws cache = (True, c1) \<Longrightarrow> vit_Key bt s index ws c1 = (hd (vit_iter c1), c1)"
  by (auto simp: vit_Valid_def vit_Key_def vit_skipRemovedKeys_def vit_hasCurrentValue_def Let_def)

function mi_skipUntilExistsOrInvalid ::
  "'t btree \<Rightarrow> 't mvstore \<Rightarrow> int \<Rightarrow> WriteSet \<Rightarrow> bool \<Rightarrow> mvsMergeIterator \<Rightarrow> bool \<times> mvsMergeIterator"
where
  "mi_skipUntilExistsOrInvalid bt s index ws ascending mi =
     (case mi_parent mi of
        [] \<Rightarrow>
          (let c1 = mi_skipCacheDeletes bt s index ws ascending None (mi_cache mi)
           in case vit_Valid bt s index ws c1 of (valid, c2) \<Rightarrow> (valid, mi\<lparr>mi_cache := c2\<rparr>))
      | (keyP, valP) # ps \<Rightarrow>
          (case vit_Valid bt s index ws (mi_cache mi) of
             (valid, c1) \<Rightarrow>
               if \<not> valid then (True, mi\<lparr>mi_cache := c1\<rparr>)
               else
                 let keyC = hd (vit_iter c1) in
                 if mi_compare ascending keyP keyC = -1 then (True, mi\<lparr>mi_cache := c1\<rparr>)
                 else (case vit_Value bt s index ws c1 of
                         (valueC, c2) \<Rightarrow>
                           if valueC \<noteq> None then (True, mi\<lparr>mi_cache := c2\<rparr>)
                           else if mi_compare ascending keyP keyC = 0
                           then mi_skipUntilExistsOrInvalid bt s index ws ascending
                                  \<lparr>mi_parent = ps, mi_cache = vit_Next bt s index ws c2\<rparr>
                           else mi_skipUntilExistsOrInvalid bt s index ws ascending
                                  (mi\<lparr>mi_cache :=
                                     mi_skipCacheDeletes bt s index ws ascending (Some keyP) c2\<rparr>))))"
  by pat_completeness auto
termination
  by (relation "measure (\<lambda>(bt, s, index, ws, ascending, mi).
        length (mi_parent mi) + length (vit_iter (mi_cache mi)))")
    (auto intro: mi_skipCacheDeletes_below_parent [OF sym sym]
      order.strict_trans1 [OF _ vit_step_length [OF sym sym]] less_SucI add_less_mono)

declare mi_skipUntilExistsOrInvalid.simps [simp del]

definition mi_Valid ::
  "'t btree \<Rightarrow> 't mvstore \<Rightarrow> int \<Rightarrow> WriteSet \<Rightarrow> bool \<Rightarrow> mvsMergeIterator \<Rightarrow> bool \<times> mvsMergeIterator" where
  "mi_Valid bt s index ws ascending mi = mi_skipUntilExistsOrInvalid bt s index ws ascending mi"

text \<open>\<open>Key\<close> and \<open>Next\<close> first skip, then assert that the iterator is valid (which skips again),
  and panic when it is not.\<close>

definition mi_assertValid ::
  "'t btree \<Rightarrow> 't mvstore \<Rightarrow> int \<Rightarrow> WriteSet \<Rightarrow> bool \<Rightarrow> mvsMergeIterator \<Rightarrow> panic + mvsMergeIterator" where
  "mi_assertValid bt s index ws ascending mi =
     (case mi_skipUntilExistsOrInvalid bt s index ws ascending mi of
        (_, mi1) \<Rightarrow>
          (case mi_Valid bt s index ws ascending mi1 of
             (valid, mi2) \<Rightarrow> if valid then Inr mi2 else Inl InvalidIterator))"

definition mi_Key ::
  "'t btree \<Rightarrow> 't mvstore \<Rightarrow> int \<Rightarrow> WriteSet \<Rightarrow> bool \<Rightarrow> mvsMergeIterator
     \<Rightarrow> panic + bytes \<times> mvsMergeIterator" where
  "mi_Key bt s index ws ascending mi =
     (case mi_assertValid bt s index ws ascending mi of
        Inl p \<Rightarrow> Inl p
      | Inr mi1 \<Rightarrow>
          (case mi_parent mi1 of
             [] \<Rightarrow> (case vit_Key bt s index ws (mi_cache mi1) of
                      (keyC, c1) \<Rightarrow> Inr (keyC, mi1\<lparr>mi_cache := c1\<rparr>))
           | (keyP, _) # _ \<Rightarrow>
               (case vit_Valid bt s index ws (mi_cache mi1) of
                  (valid, c1) \<Rightarrow>
                    if \<not> valid then Inr (keyP, mi1\<lparr>mi_cache := c1\<rparr>)
                    else (case vit_Key bt s index ws c1 of
                            (keyC, c2) \<Rightarrow>
                              Inr (if mi_compare ascending keyP keyC = 1 then keyC else keyP,
                                   mi1\<lparr>mi_cache := c2\<rparr>)))))"

definition mi_Next ::
  "'t btree \<Rightarrow> 't mvstore \<Rightarrow> int \<Rightarrow> WriteSet \<Rightarrow> bool \<Rightarrow> mvsMergeIterator \<Rightarrow> panic + mvsMergeIterator" where
  "mi_Next bt s index ws ascending mi =
     (case mi_assertValid bt s index ws ascending mi of
        Inl p \<Rightarrow> Inl p
      | Inr mi1 \<Rightarrow>
          (case mi_parent mi1 of
             [] \<Rightarrow> Inr (mi1\<lparr>mi_cache := vit_Next bt s index ws (mi_cache mi1)\<rparr>)
           | (keyP, _) # ps \<Rightarrow>
               (case vit_Valid bt s index ws (mi_cache mi1) of
                  (valid, c1) \<Rightarrow>
                    if \<not> valid then Inr (mi1\<lparr>mi_parent := ps, mi_cache := c1\<rparr>)
                    else (case vit_Key bt s index ws c1 of
                            (keyC, c2) \<Rightarrow>
                              let cmp = mi_compare ascending keyP keyC in
                              if cmp = -1 then Inr (mi1\<lparr>mi_parent := ps, mi_cache := c2\<rparr>)
                              else if cmp = 0
                              then Inr (mi1\<lparr>mi_parent := ps, mi_cache := vit_Next bt s index ws c2\<rparr>)
                              else Inr (mi1\<lparr>mi_cache := vit_Next bt s index ws c2\<rparr>)))))"

subsection \<open>What a validation iterator offers\<close>

context memdb_api
begin

text \<open>A fresh iterator, in either direction, offers the collected keys of its domain in order.\<close>

lemma newMVSValidationIterator_keys:
  assumes "start \<noteq> Some []" and "end' \<noteq> Some []"
  shows "\<exists>ks. newMVSValidationIterator md start end' items ascending =
      Inr \<lparr>vit_iter = ks, vit_readCache = [], vit_abort = []\<rparr> \<and>
    set ks = {k \<in> md_keys items. IsKeyInDomain k start end'} \<and>
    sorted_wrt (\<lambda>a b. if ascending then a < b else b < a) ks"
proof (cases ascending)
  case True
  with Iterator_ok [OF assms, of items] show ?thesis by (auto simp: newMVSValidationIterator_def)
next
  case False
  with ReverseIterator_ok [OF assms, of items] show ?thesis by (auto simp: newMVSValidationIterator_def)
qed

end

subsection \<open>Properties\<close>

text \<open>The validation iterator for transaction \<open>index\<close> starts with exactly the keys of its domain
  that some earlier transaction has in its write set, each once and in the direction of the
  iteration.\<close>

theorem validation_iterator_keys:
  assumes "memdb_api md md_keys" and "start \<noteq> Some []" and "end' \<noteq> Some []"
  shows "\<exists>ks. newMVSValidationIterator md start end' (mvs_CollectIteratorItems md s index) ascending =
      Inr \<lparr>vit_iter = ks, vit_readCache = [], vit_abort = []\<rparr> \<and>
    set ks = {k. IsKeyInDomain k start end' \<and> k \<noteq> [] \<and>
      (\<exists>i wks. 0 \<le> i \<and> i < index \<and> gm_load (txWritesetKeys s) i = Some wks \<and> k \<in> set wks)} \<and>
    sorted_wrt (\<lambda>a b. if ascending then a < b else b < a) ks"
proof -
  have "{k \<in> md_keys (mvs_CollectIteratorItems md s index). IsKeyInDomain k start end'} =
    {k. IsKeyInDomain k start end' \<and> k \<noteq> [] \<and>
      (\<exists>i wks. 0 \<le> i \<and> i < index \<and> gm_load (txWritesetKeys s) i = Some wks \<and> k \<in> set wks)}"
    unfolding memdb_api.keys_CollectIteratorItems [OF assms(1)] by auto
  with memdb_api.newMVSValidationIterator_keys [OF assms, of "mvs_CollectIteratorItems md s index" ascending]
  show ?thesis by simp
qed

theorem validation_iterator_keys_witness:
  "\<exists>ks. newMVSValidationIterator list_memdb None (Some ''c'')
      (mvs_CollectIteratorItems list_memdb (NewMultiVersionStore []) 2) True =
    Inr \<lparr>vit_iter = ks, vit_readCache = [], vit_abort = []\<rparr> \<and> set ks = {}"
  using validation_iterator_keys [OF lmd.memdb_api_axioms, of None "Some ''c''" "NewMultiVersionStore []" 2 True]
  by (auto simp: NewMultiVersionStore_def)

end
