(* ===== verification/MVValidate.thy ===== *)
theory MVValidate
  imports MVIter
begin

text \<open>
  Validation of a transaction against the multi-version store:
  \<open>src/sei-cosmos/store/multiversion/store.go\<close>, from \<open>validateIterator\<close> to
  \<open>ValidateTransactionState\<close>. A transaction is valid when every iteration it made would visit
  the same keys now and every value it read is the one it would read now.
\<close>

subsection \<open>Replaying an iteration\<close>

definition iteratorValidationAborted :: "mvsMergeIterator \<Rightarrow> bool" where
  "iteratorValidationAborted mi \<longleftrightarrow> vit_abort (mi_cache mi) \<noteq> []"

definition replay_done :: "iterationTracker \<Rightarrow> nat \<Rightarrow> mvsMergeIterator \<Rightarrow> bool" where
  "replay_done tracker foundKeys mi \<longleftrightarrow>
     \<not> iteratorValidationAborted mi \<and> foundKeys \<ge> length (iteratedKeys tracker)"

text \<open>The loop of the replay. A panic of the merge iterator is recovered and counts as a failed
  validation. The loop ends because every round finds one more of the expected keys.\<close>

function replay_loop ::
  "'t btree \<Rightarrow> 't mvstore \<Rightarrow> int \<Rightarrow> iterationTracker \<Rightarrow> nat \<Rightarrow> mvsMergeIterator \<Rightarrow> bool"
where
  "replay_loop bt s index tracker foundKeys mi =
     (let ws = it_writeset tracker; asc = it_ascending tracker in
      if iteratorValidationAborted mi then False
      else case mi_Valid bt s index ws asc mi of
        (valid, mi1) \<Rightarrow>
          if \<not> valid then replay_done tracker foundKeys mi1
          else if iteratorValidationAborted mi1 then False
          else if length (iteratedKeys tracker) - foundKeys = 0 then False
          else case mi_Key bt s index ws asc mi1 of
            Inl p \<Rightarrow> False
          | Inr (key, mi2) \<Rightarrow>
              if iteratorValidationAborted mi2 then False
              else if key \<notin> set (iteratedKeys tracker) then False
              else if bytes_Equal (Some key) (earlyStopKey tracker)
                then replay_done tracker (foundKeys + 1) mi2
              else case mi_Next bt s index ws asc mi2 of
                Inl p \<Rightarrow> False
              | Inr mi3 \<Rightarrow> replay_loop bt s index tracker (foundKeys + 1) mi3)"
  by pat_completeness auto
termination
  by (relation "measure (\<lambda>(bt, s, index, tracker, foundKeys, mi).
        length (iteratedKeys tracker) - foundKeys)") auto

declare replay_loop.simps [simp del]

definition validateIteratorReplay ::
  "'t btree \<Rightarrow> 'd memdb \<Rightarrow> 't mvstore \<Rightarrow> int \<Rightarrow> iterationTracker \<Rightarrow> 'd \<Rightarrow> bool" where
  "validateIteratorReplay bt md s index tracker items =
     (let parentIter = kv_Iterator (parentStore s) (startKey tracker) (endKey tracker) (it_ascending tracker)
      in case newMVSValidationIterator md (startKey tracker) (endKey tracker) items (it_ascending tracker) of
           Inl p \<Rightarrow> False
         | Inr iter \<Rightarrow> replay_loop bt s index tracker 0 \<lparr>mi_parent = parentIter, mi_cache = iter\<rparr>)"

definition validateIterator ::
  "'t btree \<Rightarrow> 'd memdb \<Rightarrow> 't mvstore \<Rightarrow> int \<Rightarrow> iterationTracker \<Rightarrow> bool" where
  "validateIterator bt md s index tracker =
     (let sortedItems = mvs_CollectIteratorItems md s index;
          sortedItems' = fold (\<lambda>key d. md_Set md d key []) (gm_keys (it_writeset tracker)) sortedItems
      in validateIteratorReplay bt md s index tracker sortedItems')"

definition checkIteratorAtIndex :: "'t btree \<Rightarrow> 'd memdb \<Rightarrow> 't mvstore \<Rightarrow> int \<Rightarrow> bool" where
  "checkIteratorAtIndex bt md s index =
     (case gm_load (txIterateSets s) index of
        None \<Rightarrow> True
      | Some iterateset \<Rightarrow>
          fold (\<lambda>tracker valid. valid \<and> validateIterator bt md s index tracker) iterateset True)"

subsection \<open>Checking what was read\<close>

definition check_read ::
  "'t btree \<Rightarrow> 't mvstore \<Rightarrow> int \<Rightarrow> bytes \<times> slice list \<Rightarrow> bool \<times> int list \<times> bytes list
     \<Rightarrow> bool \<times> int list \<times> bytes list" where
  "check_read bt s index kv acc =
     (case kv of (key, valueArr) \<Rightarrow> case acc of (valid, conflictSet, conflictKeys) \<Rightarrow>
        (case valueArr of
           [v] \<Rightarrow>
             (case mvs_GetLatestBeforeIndex bt s index key of
                None \<Rightarrow>
                  if \<not> bytes_Equal (kv_Get (parentStore s) key) v
                  then (False, conflictSet, conflictKeys @ [key])
                  else (valid, conflictSet, conflictKeys)
              | Some latestValue \<Rightarrow>
                  if vi_IsEstimate latestValue
                  then (valid, List.insert (vi_index latestValue) conflictSet, conflictKeys)
                  else if vi_IsDeleted latestValue
                  then if v \<noteq> None
                       then (False, List.insert (vi_index latestValue) conflictSet, conflictKeys @ [key])
                       else (valid, conflictSet, conflictKeys)
                  else if \<not> bytes_Equal (vi_value latestValue) v
                  then (False, List.insert (vi_index latestValue) conflictSet, conflictKeys @ [key])
                  else (valid, conflictSet, conflictKeys))
         | _ \<Rightarrow> (False, conflictSet, conflictKeys)))"

definition checkReadsetAtIndex ::
  "'t btree \<Rightarrow> 't mvstore \<Rightarrow> int \<Rightarrow> bool \<times> int list \<times> bytes list" where
  "checkReadsetAtIndex bt s index =
     (case gm_load (txReadSets s) index of
        None \<Rightarrow> (True, [], [])
      | Some readset \<Rightarrow>
          (case fold (check_read bt s index) readset (True, [], []) of
             (valid, conflictSet, conflictKeys) \<Rightarrow> (valid, sort conflictSet, conflictKeys)))"

definition mvs_ValidateTransactionState ::
  "'t btree \<Rightarrow> 'd memdb \<Rightarrow> 't mvstore \<Rightarrow> int \<Rightarrow> bool \<times> int list" where
  "mvs_ValidateTransactionState bt md s index =
     (let iteratorValid = checkIteratorAtIndex bt md s index
      in case checkReadsetAtIndex bt s index of
           (readsetValid, conflictIndices, _) \<Rightarrow> (iteratorValid \<and> readsetValid, conflictIndices))"

definition mvs_ValidateTransactionStateWithKeys ::
  "'t btree \<Rightarrow> 'd memdb \<Rightarrow> 't mvstore \<Rightarrow> int \<Rightarrow> bool \<times> int list \<times> bytes list" where
  "mvs_ValidateTransactionStateWithKeys bt md s index =
     (let iteratorValid = checkIteratorAtIndex bt md s index
      in case checkReadsetAtIndex bt s index of
           (readsetValid, conflictIndices, conflictKeys) \<Rightarrow>
             (iteratorValid \<and> readsetValid, conflictIndices, conflictKeys))"

subsection \<open>What a passed check means\<close>

text \<open>A single recorded read agrees with the store: exactly one value was recorded, the latest
  version (if any) is not an estimate, and it compares equal.\<close>

definition read_agrees :: "'t btree \<Rightarrow> 't mvstore \<Rightarrow> int \<Rightarrow> bytes \<times> slice list \<Rightarrow> bool" where
  "read_agrees bt s index kv \<longleftrightarrow>
     (case kv of (key, valueArr) \<Rightarrow>
        \<exists>v. valueArr = [v] \<and>
          (case mvs_GetLatestBeforeIndex bt s index key of
             None \<Rightarrow> bytes_Equal (kv_Get (parentStore s) key) v
           | Some x \<Rightarrow> \<not> vi_IsEstimate x \<and>
               (if vi_IsDeleted x then v = None else bytes_Equal (vi_value x) v)))"

lemma check_read_agrees:
  "check_read bt s index kv (valid, cs, ks) =
     (if read_agrees bt s index kv then (valid, cs, ks) else check_read bt s index kv (valid, cs, ks))"
  by (auto simp: check_read_def read_agrees_def split: prod.splits list.splits option.splits)

text \<open>A read that does not agree either clears the verdict or adds a conflicting index, and
  neither is ever taken back.\<close>

lemma check_read_step:
  assumes "check_read bt s index kv (valid, cs, ks) = (valid', cs', ks')"
  shows "valid' \<longrightarrow> valid" and "set cs \<subseteq> set cs'"
    and "valid' \<Longrightarrow> cs' = [] \<Longrightarrow> read_agrees bt s index kv"
  using assms
  by (auto simp: check_read_def read_agrees_def split: prod.splits list.splits option.splits if_splits)

lemma fold_check_read_sound:
  assumes "fold (check_read bt s index) rs (valid, cs, ks) = (valid', cs', ks')"
  shows "(valid' \<longrightarrow> valid) \<and> set cs \<subseteq> set cs' \<and>
    (valid' \<and> cs' = [] \<longrightarrow> (\<forall>kv \<in> set rs. read_agrees bt s index kv))"
  using assms
proof (induction rs arbitrary: valid cs ks)
  case Nil
  then show ?case by simp
next
  case (Cons kv rs)
  obtain v1 c1 k1 where step: "check_read bt s index kv (valid, cs, ks) = (v1, c1, k1)"
    by (metis prod_cases3)
  note one = check_read_step [OF step]
  from Cons.prems step have "fold (check_read bt s index) rs (v1, c1, k1) = (valid', cs', ks')"
    by simp
  note IH = Cons.IH [OF this]
  have "c1 = [] \<and> v1" if "valid'" "cs' = []" using IH that by auto
  with IH one show ?case by auto
qed

lemma fold_check_read_complete:
  "(\<forall>kv \<in> set rs. read_agrees bt s index kv) \<Longrightarrow>
     fold (check_read bt s index) rs (valid, cs, ks) = (valid, cs, ks)"
proof (induction rs)
  case Nil
  then show ?case by simp
next
  case (Cons kv rs)
  then have "check_read bt s index kv (valid, cs, ks) = (valid, cs, ks)"
    using check_read_agrees [of bt s index kv valid cs ks] by simp
  with Cons show ?case by simp
qed

lemma checkReadset_ok_iff:
  "(\<exists>ks. checkReadsetAtIndex bt s index = (True, [], ks)) \<longleftrightarrow>
     (\<forall>rs. gm_load (txReadSets s) index = Some rs \<longrightarrow> (\<forall>kv \<in> set rs. read_agrees bt s index kv))"
proof (cases "gm_load (txReadSets s) index")
  case None
  then show ?thesis by (simp add: checkReadsetAtIndex_def)
next
  case (Some rs)
  obtain v c k where f: "fold (check_read bt s index) rs (True, [], []) = (v, c, k)"
    by (metis prod_cases3)
  have "v \<and> c = [] \<longleftrightarrow> (\<forall>kv \<in> set rs. read_agrees bt s index kv)"
    using fold_check_read_sound [OF f] fold_check_read_complete [of rs bt s index True "[]" "[]"] f
    by auto
  with Some f show ?thesis
    by (auto simp: checkReadsetAtIndex_def)
qed

subsection \<open>Properties\<close>

text \<open>C17. The read set check accepts a transaction without naming a conflict exactly when every read
  it recorded has a single value and that value compares equal with what the transaction would
  read now, no estimate included.\<close>

theorem checkReadset_verdict:
  "(\<exists>ks. checkReadsetAtIndex bt s index = (True, [], ks)) \<longleftrightarrow>
     (\<forall>rs. gm_load (txReadSets s) index = Some rs \<longrightarrow> (\<forall>kv \<in> set rs. read_agrees bt s index kv))"
  by (rule checkReadset_ok_iff)

theorem checkReadset_verdict_witness:
  "(\<exists>ks. checkReadsetAtIndex rbt_btree
      (mvs_SetReadset 1 [(''k'', [Some ''v''])] (NewMultiVersionStore [(''k'', ''v'')])) 1 = (True, [], ks)) \<and>
   read_agrees rbt_btree
      (mvs_SetReadset 1 [(''k'', [Some ''v''])] (NewMultiVersionStore [(''k'', ''v'')])) 1 (''k'', [Some ''v''])"
proof -
  have "checkReadsetAtIndex rbt_btree
      (mvs_SetReadset 1 [(''k'', [Some ''v''])] (NewMultiVersionStore [(''k'', ''v'')])) 1 = (True, [], [])"
    by code_simp
  then show ?thesis
    using checkReadset_verdict [of rbt_btree
        "mvs_SetReadset 1 [(''k'', [Some ''v''])] (NewMultiVersionStore [(''k'', ''v'')])" 1] by simp
qed

end
