(* ===== verification/VIStore.thy ===== *)
theory VIStore
  imports MVValidate
begin

text \<open>
  The version-indexed store: \<open>src/sei-cosmos/store/multiversion/mvkv.go\<close>, the view of the
  multi-version store that one incarnation of one transaction works on, and the transactions
  themselves.

  A transaction (the scheduler's \<open>deliverTx\<close> on one request) is a deterministic program over
  the stores: the datatype \<open>prog\<close> holds its next store operation and how it goes on with the
  answer, panics included (the code above may recover them). Running it against the
  version-indexed stores is \<open>run_tx\<close>; the same program on plain stores is \<open>run_serial\<close>.
\<close>

subsection \<open>State\<close>

record versionIndexedStore =
  vis_readset :: ReadSet
  vis_writeset :: WriteSet
  vis_iterateset :: "iterationTracker list"
  vis_parent :: kvstore
  vis_transactionIndex :: int
  vis_incarnation :: int

definition NewVersionIndexedStore :: "kvstore \<Rightarrow> int \<Rightarrow> int \<Rightarrow> versionIndexedStore" where
  "NewVersionIndexedStore parent transactionIndex incarnation =
     \<lparr>vis_readset = [], vis_writeset = [], vis_iterateset = [], vis_parent = parent,
      vis_transactionIndex = transactionIndex, vis_incarnation = incarnation\<rparr>"

definition mvs_VersionedIndexedStore :: "'t mvstore \<Rightarrow> int \<Rightarrow> int \<Rightarrow> versionIndexedStore" where
  "mvs_VersionedIndexedStore s index incarnation =
     NewVersionIndexedStore (parentStore s) index incarnation"

definition NewIterationTracker :: "slice \<Rightarrow> slice \<Rightarrow> bool \<Rightarrow> WriteSet \<Rightarrow> iterationTracker" where
  "NewIterationTracker start end' ascending writeset =
     \<lparr>startKey = start, endKey = end', earlyStopKey = None, iteratedKeys = [],
      it_ascending = ascending, it_writeset = fold (\<lambda>(k, v) m. gm_store k v m) writeset []\<rparr>"

definition it_SetEarlyStopKey :: "slice \<Rightarrow> iterationTracker \<Rightarrow> iterationTracker" where
  "it_SetEarlyStopKey key tracker = tracker\<lparr>earlyStopKey := key\<rparr>"

definition it_AddKey :: "bytes \<Rightarrow> iterationTracker \<Rightarrow> iterationTracker" where
  "it_AddKey key tracker =
     it_SetEarlyStopKey (Some key) (tracker\<lparr>iteratedKeys := List.insert key (iteratedKeys tracker)\<rparr>)"

text \<open>The abort channel of a task is shared by its version-indexed stores. It is buffered; when it
  is full a further abort is dropped.\<close>

definition vis_WriteAbort :: "nat \<Rightarrow> int \<Rightarrow> int list \<Rightarrow> int list" where
  "vis_WriteAbort capacity dep ch = (if length ch < capacity then ch @ [dep] else ch)"

subsection \<open>Reads and writes\<close>

definition vis_UpdateReadSet :: "bytes \<Rightarrow> slice \<Rightarrow> versionIndexedStore \<Rightarrow> versionIndexedStore" where
  "vis_UpdateReadSet key v st =
     (case gm_load (vis_readset st) key of
        None \<Rightarrow> st\<lparr>vis_readset := gm_store key [v] (vis_readset st)\<rparr>
      | Some existing \<Rightarrow>
          if list_ex (\<lambda>readsetVal. bytes_Equal v readsetVal) existing then st
          else st\<lparr>vis_readset := gm_store key (existing @ [v]) (vis_readset st)\<rparr>)"

definition vis_parseValueAndUpdateReadset ::
  "bytes \<Rightarrow> valueItem \<Rightarrow> versionIndexedStore \<Rightarrow> slice \<times> versionIndexedStore" where
  "vis_parseValueAndUpdateReadset key mvsValue st =
     (let v = (if vi_IsDeleted mvsValue then None else vi_value mvsValue)
      in (v, vis_UpdateReadSet key v st))"

definition vis_Get ::
  "'t btree \<Rightarrow> 't mvstore \<Rightarrow> nat \<Rightarrow> bytes \<Rightarrow> versionIndexedStore \<Rightarrow> int list
     \<Rightarrow> (panic + slice) \<times> versionIndexedStore \<times> int list" where
  "vis_Get bt mvs capacity key st ch =
     (case AssertValidKey key of
        Some p \<Rightarrow> (Inl p, st, ch)
      | None \<Rightarrow>
          (case gm_load (vis_writeset st) key of
             Some cacheValue \<Rightarrow> (Inr cacheValue, st, ch)
           | None \<Rightarrow>
               (case gm_load (vis_readset st) key of
                  Some readsetVal \<Rightarrow>
                    (case readsetVal of [] \<Rightarrow> (Inl IndexOutOfRange, st, ch) | v # _ \<Rightarrow> (Inr v, st, ch))
                | None \<Rightarrow>
                    (case mvs_GetLatestBeforeIndex bt mvs (vis_transactionIndex st) key of
                       Some mvsValue \<Rightarrow>
                         if vi_IsEstimate mvsValue
                         then (Inl (ReadEstimate (vi_index mvsValue)), st,
                               vis_WriteAbort capacity (vi_index mvsValue) ch)
                         else (case vis_parseValueAndUpdateReadset key mvsValue st of
                                 (v, st') \<Rightarrow> (Inr v, st', ch))
                     | None \<Rightarrow>
                         let parentValue = kv_Get (vis_parent st) key
                         in (Inr parentValue, vis_UpdateReadSet key parentValue st, ch)))))"

definition vis_Has ::
  "'t btree \<Rightarrow> 't mvstore \<Rightarrow> nat \<Rightarrow> bytes \<Rightarrow> versionIndexedStore \<Rightarrow> int list
     \<Rightarrow> (panic + bool) \<times> versionIndexedStore \<times> int list" where
  "vis_Has bt mvs capacity key st ch =
     (case vis_Get bt mvs capacity key st ch of
        (r, st', ch') \<Rightarrow> (map_sum id (\<lambda>v. v \<noteq> None) r, st', ch'))"

definition vis_setValue ::
  "bytes \<Rightarrow> slice \<Rightarrow> versionIndexedStore \<Rightarrow> panic option \<times> versionIndexedStore" where
  "vis_setValue key v st =
     (case AssertValidKey key of
        Some p \<Rightarrow> (Some p, st)
      | None \<Rightarrow> (None, st\<lparr>vis_writeset := gm_store key v (vis_writeset st)\<rparr>))"

definition vis_Set ::
  "bytes \<Rightarrow> slice \<Rightarrow> versionIndexedStore \<Rightarrow> panic option \<times> versionIndexedStore" where
  "vis_Set key v st =
     (case AssertValidKey key of Some p \<Rightarrow> (Some p, st) | None \<Rightarrow> vis_setValue key v st)"

definition vis_Delete :: "bytes \<Rightarrow> versionIndexedStore \<Rightarrow> panic option \<times> versionIndexedStore" where
  "vis_Delete key st =
     (case AssertValidKey key of Some p \<Rightarrow> (Some p, st) | None \<Rightarrow> vis_setValue key None st)"

definition vis_UpdateIterateSet :: "iterationTracker \<Rightarrow> versionIndexedStore \<Rightarrow> versionIndexedStore" where
  "vis_UpdateIterateSet tracker st = st\<lparr>vis_iterateset := vis_iterateset st @ [tracker]\<rparr>"

text \<open>\<open>ValidateReadset\<close> walks the read set in key order and stops at the first key that does not
  agree; an estimate is reported on the abort channel.\<close>

fun vis_validate_keys ::
  "'t btree \<Rightarrow> 't mvstore \<Rightarrow> nat \<Rightarrow> versionIndexedStore \<Rightarrow> bytes list \<Rightarrow> int list
     \<Rightarrow> (panic + bool) \<times> int list"
where
  "vis_validate_keys bt mvs capacity st [] ch = (Inr True, ch)"
| "vis_validate_keys bt mvs capacity st (key # keys) ch =
     (case gm_load (vis_readset st) key of
        Some [v] \<Rightarrow>
          (case mvs_GetLatestBeforeIndex bt mvs (vis_transactionIndex st) key of
             Some mvsValue \<Rightarrow>
               if vi_IsEstimate mvsValue
               then (Inr False, vis_WriteAbort capacity (vi_index mvsValue) ch)
               else if (if vi_IsDeleted mvsValue then v \<noteq> None
                        else slice_bytes v \<noteq> slice_bytes (vi_value mvsValue))
               then (Inr False, ch)
               else vis_validate_keys bt mvs capacity st keys ch
           | None \<Rightarrow>
               if slice_bytes (kv_Get (vis_parent st) key) \<noteq> slice_bytes v
               then (Inl ParentConflict, ch)
               else vis_validate_keys bt mvs capacity st keys ch)
      | _ \<Rightarrow> (Inr False, ch))"

definition vis_ValidateReadset ::
  "'t btree \<Rightarrow> 't mvstore \<Rightarrow> nat \<Rightarrow> versionIndexedStore \<Rightarrow> int list \<Rightarrow> (panic + bool) \<times> int list" where
  "vis_ValidateReadset bt mvs capacity st ch =
     vis_validate_keys bt mvs capacity st (sort (gm_keys (vis_readset st))) ch"

definition vis_WriteToMultiVersionStore ::
  "'t btree \<Rightarrow> versionIndexedStore \<Rightarrow> 't mvstore \<Rightarrow> 't mvstore" where
  "vis_WriteToMultiVersionStore bt st mvs =
     mvs_SetIterateset (vis_transactionIndex st) (vis_iterateset st)
       (mvs_SetReadset (vis_transactionIndex st) (vis_readset st)
         (mvs_SetWriteset bt (vis_transactionIndex st) (vis_incarnation st) (vis_writeset st) mvs))"

definition vis_WriteEstimatesToMultiVersionStore ::
  "'t btree \<Rightarrow> versionIndexedStore \<Rightarrow> 't mvstore \<Rightarrow> 't mvstore" where
  "vis_WriteEstimatesToMultiVersionStore bt st mvs =
     mvs_SetEstimatedWriteset bt (vis_transactionIndex st) (vis_incarnation st) (vis_writeset st) mvs"

subsection \<open>Transactions\<close>

datatype 'r prog =
    Done 'r
  | GetOp bytes bytes "panic + slice \<Rightarrow> 'r prog"
  | SetOp bytes bytes slice "panic option \<Rightarrow> 'r prog"
  | DeleteOp bytes bytes "panic option \<Rightarrow> 'r prog"

text \<open>\<open>Has\<close> is a \<open>Get\<close> whose value is only compared with \<open>nil\<close>.\<close>

definition HasOp :: "bytes \<Rightarrow> bytes \<Rightarrow> (panic + bool \<Rightarrow> 'r prog) \<Rightarrow> 'r prog" where
  "HasOp sk key f = GetOp sk key (\<lambda>r. f (map_sum id (\<lambda>v. v \<noteq> None) r))"

record txState =
  tx_stores :: "(bytes, versionIndexedStore) gomap"
  tx_abortCh :: "int list"

text \<open>One store operation of a transaction. \<open>mvss\<close> is what the multi-version stores hold at that
  moment; other tasks may be writing to them.\<close>

definition tx_get ::
  "'t btree \<Rightarrow> (bytes, 't mvstore) gomap \<Rightarrow> nat \<Rightarrow> bytes \<Rightarrow> bytes \<Rightarrow> txState \<Rightarrow> (panic + slice) \<times> txState" where
  "tx_get bt mvss capacity sk key st =
     (case gm_load (tx_stores st) sk of
        None \<Rightarrow> (Inl UnknownStore, st)
      | Some vis \<Rightarrow>
          (case gm_load mvss sk of
             None \<Rightarrow> (Inl UnknownStore, st)
           | Some mvs \<Rightarrow>
               (case vis_Get bt mvs capacity key vis (tx_abortCh st) of
                  (r, vis', ch') \<Rightarrow>
                    (r, st\<lparr>tx_stores := gm_store sk vis' (tx_stores st), tx_abortCh := ch'\<rparr>))))"

definition tx_set :: "bytes \<Rightarrow> bytes \<Rightarrow> slice \<Rightarrow> txState \<Rightarrow> panic option \<times> txState" where
  "tx_set sk key v st =
     (case gm_load (tx_stores st) sk of
        None \<Rightarrow> (Some UnknownStore, st)
      | Some vis \<Rightarrow>
          (case vis_Set key v vis of
             (r, vis') \<Rightarrow> (r, st\<lparr>tx_stores := gm_store sk vis' (tx_stores st)\<rparr>)))"

definition tx_delete :: "bytes \<Rightarrow> bytes \<Rightarrow> txState \<Rightarrow> panic option \<times> txState" where
  "tx_delete sk key st =
     (case gm_load (tx_stores st) sk of
        None \<Rightarrow> (Some UnknownStore, st)
      | Some vis \<Rightarrow>
          (case vis_Delete key vis of
             (r, vis') \<Rightarrow> (r, st\<lparr>tx_stores := gm_store sk vis' (tx_stores st)\<rparr>)))"

text \<open>\<open>env n\<close> is the state of the multi-version stores when the transaction makes its \<open>n\<close>-th store
  operation: an arbitrary sequence, so that every interleaving with other tasks is covered.\<close>

primrec run_tx ::
  "'t btree \<Rightarrow> (nat \<Rightarrow> (bytes, 't mvstore) gomap) \<Rightarrow> nat \<Rightarrow> 'r prog \<Rightarrow> nat \<Rightarrow> txState \<Rightarrow> 'r \<times> txState"
where
  "run_tx bt env capacity (Done r) n st = (r, st)"
| "run_tx bt env capacity (GetOp sk key f) n st =
     (case tx_get bt (env n) capacity sk key st of
        (r, st') \<Rightarrow> run_tx bt env capacity (f r) (Suc n) st')"
| "run_tx bt env capacity (SetOp sk key v f) n st =
     (case tx_set sk key v st of (r, st') \<Rightarrow> run_tx bt env capacity (f r) (Suc n) st')"
| "run_tx bt env capacity (DeleteOp sk key f) n st =
     (case tx_delete sk key st of (r, st') \<Rightarrow> run_tx bt env capacity (f r) (Suc n) st')"

subsection \<open>The same transactions on plain stores\<close>

type_synonym world = "bytes \<Rightarrow> (bytes \<Rightarrow> slice) option"

definition world_get :: "world \<Rightarrow> bytes \<Rightarrow> bytes \<Rightarrow> panic + slice" where
  "world_get w sk key =
     (case w sk of
        None \<Rightarrow> Inl UnknownStore
      | Some m \<Rightarrow> (case AssertValidKey key of Some p \<Rightarrow> Inl p | None \<Rightarrow> Inr (m key)))"

definition world_set :: "bytes \<Rightarrow> bytes \<Rightarrow> slice \<Rightarrow> world \<Rightarrow> panic option \<times> world" where
  "world_set sk key v w =
     (case w sk of
        None \<Rightarrow> (Some UnknownStore, w)
      | Some m \<Rightarrow>
          (case AssertValidKey key of Some p \<Rightarrow> (Some p, w) | None \<Rightarrow> (None, w(sk \<mapsto> m(key := v)))))"

primrec run_serial :: "'r prog \<Rightarrow> world \<Rightarrow> 'r \<times> world" where
  "run_serial (Done r) w = (r, w)"
| "run_serial (GetOp sk key f) w = run_serial (f (world_get w sk key)) w"
| "run_serial (SetOp sk key v f) w = (case world_set sk key v w of (r, w') \<Rightarrow> run_serial (f r) w')"
| "run_serial (DeleteOp sk key f) w = (case world_set sk key None w of (r, w') \<Rightarrow> run_serial (f r) w')"

text \<open>A transaction that never stores an empty, non-\<open>nil\<close> value. (The validation of reads compares
  with \<open>bytes.Equal\<close>, which does not tell such a value from an absent key.)\<close>

primrec nonempty_writes :: "'r prog \<Rightarrow> bool" where
  "nonempty_writes (Done r) = True"
| "nonempty_writes (GetOp sk key f) = (\<forall>r. nonempty_writes (f r))"
| "nonempty_writes (SetOp sk key v f) = (v \<noteq> Some [] \<and> (\<forall>r. nonempty_writes (f r)))"
| "nonempty_writes (DeleteOp sk key f) = (\<forall>r. nonempty_writes (f r))"

subsection \<open>What a run never takes back\<close>

text \<open>A run keeps the identity of its stores and every recorded read, and an abort once written
  stays in the channel.\<close>

definition vis_extends :: "versionIndexedStore \<Rightarrow> versionIndexedStore \<Rightarrow> bool" where
  "vis_extends v v' \<longleftrightarrow>
     vis_transactionIndex v' = vis_transactionIndex v \<and> vis_incarnation v' = vis_incarnation v \<and>
     vis_parent v' = vis_parent v \<and> vis_iterateset v' = vis_iterateset v \<and>
     (\<forall>k vs. gm_load (vis_readset v) k = Some vs \<longrightarrow> gm_load (vis_readset v') k = Some vs)"

definition tx_extends :: "txState \<Rightarrow> txState \<Rightarrow> bool" where
  "tx_extends st st' \<longleftrightarrow>
     (\<forall>sk. rel_option vis_extends (gm_load (tx_stores st) sk) (gm_load (tx_stores st') sk)) \<and>
     (tx_abortCh st \<noteq> [] \<longrightarrow> tx_abortCh st' \<noteq> [])"

lemma vis_extends_refl [simp]: "vis_extends v v"
  by (simp add: vis_extends_def)

lemma vis_extends_trans: "vis_extends a b \<Longrightarrow> vis_extends b c \<Longrightarrow> vis_extends a c"
  by (simp add: vis_extends_def)

lemma tx_extends_refl [simp]: "tx_extends st st"
  by (simp add: tx_extends_def option.rel_refl)

lemma tx_extends_trans:
  assumes "tx_extends a b" and "tx_extends b c"
  shows "tx_extends a c"
proof -
  have "rel_option vis_extends x z" if "rel_option vis_extends x y" "rel_option vis_extends y z" for x y z
    using that vis_extends_trans by (auto simp: option.rel_sel)
  with assms show ?thesis unfolding tx_extends_def by blast
qed

lemma tx_extends_store:
  assumes "gm_load (tx_stores st) sk = Some vis" and "vis_extends vis vis'"
    and "tx_abortCh st \<noteq> [] \<longrightarrow> ch' \<noteq> []"
  shows "tx_extends st (st\<lparr>tx_stores := gm_store sk vis' (tx_stores st), tx_abortCh := ch'\<rparr>)"
  using assms by (auto simp: tx_extends_def gomap_simps option.rel_refl)

lemma vis_extends_first_read:
  "gm_load (vis_readset st) key = None \<Longrightarrow>
     vis_extends st (st\<lparr>vis_readset := gm_store key vs (vis_readset st)\<rparr>)"
  by (auto simp: vis_extends_def gomap_simps)

lemma vis_Get_extends:
  assumes "vis_Get bt mvs capacity key st ch = (r, st', ch')"
  shows "vis_extends st st'" and "ch \<noteq> [] \<longrightarrow> ch' \<noteq> []"
    and "vis_writeset st' = vis_writeset st"
  using assms
  by (auto simp: vis_Get_def vis_parseValueAndUpdateReadset_def Let_def vis_WriteAbort_def
      vis_extends_first_read vis_UpdateReadSet_def split: option.splits list.splits if_splits)

lemma vis_Set_extends: "vis_Set key v st = (r, st') \<Longrightarrow> vis_extends st st'"
  by (auto simp: vis_Set_def vis_setValue_def vis_extends_def split: option.splits)

lemma vis_Delete_Set: "vis_Delete key st = vis_Set key None st"
  by (simp add: vis_Delete_def vis_Set_def)

lemma tx_delete_set: "tx_delete sk key st = tx_set sk key None st"
  by (cases "gm_load (tx_stores st) sk") (simp_all add: tx_delete_def tx_set_def vis_Delete_Set)

lemma tx_get_extends: "tx_get bt mvss capacity sk key st = (r, st') \<Longrightarrow> tx_extends st st'"
  by (auto simp: tx_get_def split: option.splits prod.splits
      intro!: tx_extends_store dest: vis_Get_extends)

lemma tx_set_extends:
  assumes "tx_set sk key v st = (r, st')"
  shows "tx_extends st st'" and "tx_abortCh st' = tx_abortCh st"
proof -
  show "tx_extends st st'"
  proof (cases "gm_load (tx_stores st) sk")
    case None
    with assms show ?thesis by (simp add: tx_set_def)
  next
    case (Some vis)
    obtain r' vis' where set: "vis_Set key v vis = (r', vis')" by force
    with assms Some have "st' = st\<lparr>tx_stores := gm_store sk vis' (tx_stores st)\<rparr>"
      by (simp add: tx_set_def)
    with tx_extends_store [OF Some vis_Set_extends [OF set], of "tx_abortCh st"] show ?thesis
      by (simp add: tx_extends_def)
  qed
  show "tx_abortCh st' = tx_abortCh st"
    using assms by (auto simp: tx_set_def split: option.splits prod.splits)
qed

lemma run_tx_extends: "run_tx bt env capacity p n st = (r, st') \<Longrightarrow> tx_extends st st'"
proof (induction p arbitrary: n st)
  case (Done x)
  then show ?case by simp
next
  case (GetOp sk key f)
  obtain a st1 where a: "tx_get bt (env n) capacity sk key st = (a, st1)" by force
  with GetOp.prems have "run_tx bt env capacity (f a) (Suc n) st1 = (r, st')" by simp
  then have "tx_extends st1 st'" by (rule GetOp.IH [OF rangeI])
  with tx_get_extends [OF a] show ?case by (rule tx_extends_trans)
next
  case (SetOp sk key v f)
  obtain a st1 where a: "tx_set sk key v st = (a, st1)" by force
  with SetOp.prems have "run_tx bt env capacity (f a) (Suc n) st1 = (r, st')" by simp
  then have "tx_extends st1 st'" by (rule SetOp.IH [OF rangeI])
  with tx_set_extends(1) [OF a] show ?case by (rule tx_extends_trans)
next
  case (DeleteOp sk key f)
  obtain a st1 where a: "tx_set sk key None st = (a, st1)" by force
  with DeleteOp.prems have "run_tx bt env capacity (f a) (Suc n) st1 = (r, st')"
    by (simp add: tx_delete_set)
  then have "tx_extends st1 st'" by (rule DeleteOp.IH [OF rangeI])
  with tx_set_extends(1) [OF a] show ?case by (rule tx_extends_trans)
qed

subsection \<open>A run agrees with the serial run\<close>

text \<open>The world a transaction sees: its own writes over a base.\<close>

definition tx_world :: "(bytes \<Rightarrow> bytes \<Rightarrow> slice) \<Rightarrow> txState \<Rightarrow> world" where
  "tx_world base st sk =
     map_option (\<lambda>vis k. case gm_load (vis_writeset vis) k of Some v \<Rightarrow> v | None \<Rightarrow> base sk k)
       (gm_load (tx_stores st) sk)"

text \<open>The recorded reads are exactly the base's values.\<close>

definition reads_from :: "(bytes \<Rightarrow> bytes \<Rightarrow> slice) \<Rightarrow> txState \<Rightarrow> bool" where
  "reads_from base st \<longleftrightarrow>
     (\<forall>sk vis k vs. gm_load (tx_stores st) sk = Some vis \<longrightarrow>
        gm_load (vis_readset vis) k = Some vs \<longrightarrow> vs = [base sk k])"

lemma reads_from_extends:
  assumes "tx_extends st st'" and "reads_from base st'"
    and "gm_load (tx_stores st) sk = Some vis" and "gm_load (vis_readset vis) k = Some vs"
  shows "vs = [base sk k]"
proof -
  from assms(1,3) obtain vis' where "gm_load (tx_stores st') sk = Some vis'" "vis_extends vis vis'"
    by (metis option.rel_cases option.distinct(1) option.inject tx_extends_def)
  with assms(2,4) show ?thesis unfolding reads_from_def vis_extends_def by blast
qed

lemma tx_get_agrees:
  assumes get: "tx_get bt mvss capacity sk key st = (r, st1)"
    and mvss: "gm_load (tx_stores st) sk \<noteq> None \<Longrightarrow> gm_load mvss sk \<noteq> None"
    and cap: "0 < capacity"
    and ext: "tx_extends st1 st'" and quiet: "tx_abortCh st' = []" and reads: "reads_from base st'"
  shows "world_get (tx_world base st) sk key = r" and "tx_world base st1 = tx_world base st"
proof -
  have "world_get (tx_world base st) sk key = r \<and> tx_world base st1 = tx_world base st"
  proof (cases "gm_load (tx_stores st) sk")
    case None
    with get show ?thesis by (auto simp: tx_get_def world_get_def tx_world_def)
  next
    case (Some vis)
    with mvss obtain mvs where mvs: "gm_load mvss sk = Some mvs" by auto
    obtain a vis1 ch1 where vget: "vis_Get bt mvs capacity key vis (tx_abortCh st) = (a, vis1, ch1)"
      by (metis prod_cases3)
    have a: "a = r" and st1: "st1 = st\<lparr>tx_stores := gm_store sk vis1 (tx_stores st), tx_abortCh := ch1\<rparr>"
      using get Some mvs vget by (auto simp: tx_get_def)
    have load1: "gm_load (tx_stores st1) sk = Some vis1"
      by (simp add: st1 gomap_simps)
    have ch1: "ch1 = []"
      using ext quiet by (auto simp: tx_extends_def st1)
    have frame: "tx_world base st1 = tx_world base st"
      using vis_Get_extends(3) [OF vget] Some
      by (auto simp: tx_world_def st1 gomap_simps fun_eq_iff)
    have read: "vs = [base sk key]" if "gm_load (vis_readset vis1) key = Some vs" for vs
      using reads_from_extends [OF ext reads load1 that] .
    have "world_get (tx_world base st) sk key = a"
      using vget Some read ch1 cap
      by (auto simp: vis_Get_def world_get_def tx_world_def vis_parseValueAndUpdateReadset_def
          vis_UpdateReadSet_def vis_WriteAbort_def Let_def gomap_simps
          split: option.splits list.splits if_splits)
    with a frame show ?thesis by simp
  qed
  then show "world_get (tx_world base st) sk key = r" and "tx_world base st1 = tx_world base st"
    by simp_all
qed

lemma tx_set_agrees:
  assumes "tx_set sk key v st = (r, st1)"
  shows "world_set sk key v (tx_world base st) = (r, tx_world base st1)"
proof (cases "gm_load (tx_stores st) sk")
  case None
  with assms show ?thesis by (auto simp: tx_set_def world_set_def tx_world_def)
next
  case (Some vis)
  show ?thesis
  proof (cases "AssertValidKey key")
    case (Some p)
    then have "r = Some p" "st1 = st\<lparr>tx_stores := gm_store sk vis (tx_stores st)\<rparr>"
      using assms \<open>gm_load (tx_stores st) sk = Some vis\<close> by (simp_all add: tx_set_def vis_Set_def)
    with Some \<open>gm_load (tx_stores st) sk = Some vis\<close> show ?thesis
      by (simp add: world_set_def tx_world_def gomap_simps fun_eq_iff)
  next
    case None
    with assms Some show ?thesis
      by (auto simp: tx_set_def vis_Set_def vis_setValue_def world_set_def tx_world_def
          gomap_simps fun_eq_iff)
  qed
qed

text \<open>The simulation: a run that wrote no abort, and whose recorded reads are the values of the
  base, answers and writes as the serial run on that base does. The multi-version stores may
  have changed arbitrarily during the run.\<close>

lemma run_tx_serial:
  assumes "run_tx bt env capacity p n st = (r, st')"
    and "\<And>m sk. gm_load (tx_stores st) sk \<noteq> None \<Longrightarrow> gm_load (env m) sk \<noteq> None"
    and "0 < capacity" and "tx_abortCh st' = []" and "reads_from base st'"
  shows "run_serial p (tx_world base st) = (r, tx_world base st')"
  using assms(1,2)
proof (induction p arbitrary: n st)
  case (Done x)
  then show ?case by simp
next
  case (GetOp sk key f)
  obtain a st1 where a: "tx_get bt (env n) capacity sk key st = (a, st1)" by force
  with GetOp.prems have run: "run_tx bt env capacity (f a) (Suc n) st1 = (r, st')" by simp
  note agree = tx_get_agrees [OF a GetOp.prems(2) assms(3) run_tx_extends [OF run] assms(4,5)]
  have "gm_load (tx_stores st) sk' = None \<longleftrightarrow> gm_load (tx_stores st1) sk' = None" for sk'
    using tx_get_extends [OF a] unfolding tx_extends_def by (metis option.rel_sel)
  with GetOp.IH [OF rangeI run] GetOp.prems(2) agree show ?case by simp
next
  case (SetOp sk key v f)
  obtain a st1 where a: "tx_set sk key v st = (a, st1)" by force
  with SetOp.prems have run: "run_tx bt env capacity (f a) (Suc n) st1 = (r, st')" by simp
  have "gm_load (tx_stores st) sk' = None \<longleftrightarrow> gm_load (tx_stores st1) sk' = None" for sk'
    using tx_set_extends(1) [OF a] unfolding tx_extends_def by (metis option.rel_sel)
  with SetOp.IH [OF rangeI run] SetOp.prems(2) tx_set_agrees [OF a] show ?case by simp
next
  case (DeleteOp sk key f)
  obtain a st1 where a: "tx_set sk key None st = (a, st1)" by force
  with DeleteOp.prems have run: "run_tx bt env capacity (f a) (Suc n) st1 = (r, st')"
    by (simp add: tx_delete_set)
  have "gm_load (tx_stores st) sk' = None \<longleftrightarrow> gm_load (tx_stores st1) sk' = None" for sk'
    using tx_set_extends(1) [OF a] unfolding tx_extends_def by (metis option.rel_sel)
  with DeleteOp.IH [OF rangeI run] DeleteOp.prems(2) tx_set_agrees [OF a] show ?case by simp
qed

subsection \<open>Well-formed runs\<close>

text \<open>No version and no parent value is an empty, non-\<open>nil\<close> slice.\<close>

definition mvs_nonempty :: "'t btree \<Rightarrow> 't mvstore \<Rightarrow> bool" where
  "mvs_nonempty bt m \<longleftrightarrow>
     (\<forall>k i x. mv_at bt m k i = Some x \<longrightarrow> vi_value x \<noteq> Some []) \<and>
     (\<forall>k. kv_Get (parentStore m) k \<noteq> Some [])"

definition vis_clean :: "versionIndexedStore \<Rightarrow> bool" where
  "vis_clean v \<longleftrightarrow>
     distinct (gm_keys (vis_writeset v)) \<and>
     (\<forall>k x. gm_load (vis_writeset v) k = Some x \<longrightarrow> x \<noteq> Some []) \<and>
     (\<forall>k vs. gm_load (vis_readset v) k = Some vs \<longrightarrow> Some [] \<notin> set vs) \<and>
     (\<forall>k. kv_Get (vis_parent v) k \<noteq> Some [])"

definition tx_clean :: "txState \<Rightarrow> bool" where
  "tx_clean st \<longleftrightarrow> (\<forall>sk v. gm_load (tx_stores st) sk = Some v \<longrightarrow> vis_clean v)"

lemma tx_clean_store:
  "tx_clean st \<Longrightarrow> vis_clean v \<Longrightarrow>
     tx_clean (st\<lparr>tx_stores := gm_store sk v (tx_stores st), tx_abortCh := ch\<rparr>)"
  "tx_clean st \<Longrightarrow> vis_clean v \<Longrightarrow> tx_clean (st\<lparr>tx_stores := gm_store sk v (tx_stores st)\<rparr>)"
  by (simp_all add: tx_clean_def gomap_simps)

lemma vis_clean_read:
  "vis_clean st \<Longrightarrow> v \<noteq> Some [] \<Longrightarrow> vis_clean (vis_UpdateReadSet key v st)"
  by (auto simp: vis_clean_def vis_UpdateReadSet_def gomap_simps split: option.splits)

lemma vis_clean_set:
  assumes "vis_clean st" and "v \<noteq> Some []" and "vis_Set key v st = (r, st')"
  shows "vis_clean st'"
  using assms
  by (auto simp: vis_clean_def vis_Set_def vis_setValue_def gomap_simps distinct_update
      simp del: map_of_eq_Some_iff split: option.splits if_splits) blast

lemma tx_set_clean:
  assumes "tx_clean st" and "v \<noteq> Some []" and "tx_set sk key v st = (r, st')"
  shows "tx_clean st'"
proof (cases "gm_load (tx_stores st) sk")
  case None
  with assms show ?thesis by (simp add: tx_set_def)
next
  case (Some vis)
  obtain r' vis' where set: "vis_Set key v vis = (r', vis')" by force
  have "vis_clean vis'"
    using vis_clean_set [OF _ assms(2) set] assms(1) Some by (simp add: tx_clean_def)
  with assms Some set show ?thesis by (auto simp: tx_set_def intro: tx_clean_store)
qed

context btree_api
begin

lemma GetLatest_nonempty:
  "mvs_nonempty bt m \<Longrightarrow> mvs_GetLatestBeforeIndex bt m index key = Some x \<Longrightarrow> vi_value x \<noteq> Some []"
  unfolding GetLatestBeforeIndex_versions latest_below_def mvs_nonempty_def by auto

lemma mv_view_nonempty: "mvs_nonempty bt m \<Longrightarrow> mv_view bt m index key \<noteq> Some []"
  using GetLatest_nonempty by (auto simp: mv_view_def mvs_nonempty_def split: option.splits)

lemma vis_Get_clean:
  assumes "vis_clean st" and "mvs_nonempty bt mvs"
    and "vis_Get bt mvs capacity key st ch = (r, st', ch')"
  shows "vis_clean st'"
proof -
  have "kv_Get (vis_parent st) key \<noteq> Some []" using assms(1) by (simp add: vis_clean_def)
  then show ?thesis
    using assms(3) vis_clean_read [OF assms(1)] assms(1) GetLatest_nonempty [OF assms(2)]
    by (auto simp: vis_Get_def vis_parseValueAndUpdateReadset_def Let_def
        split: option.splits list.splits if_splits)
qed

lemma tx_get_clean:
  assumes "tx_clean st" and "\<And>m. gm_load mvss sk = Some m \<Longrightarrow> mvs_nonempty bt m"
    and "tx_get bt mvss capacity sk key st = (r, st')"
  shows "tx_clean st'"
proof (cases "gm_load (tx_stores st) sk")
  case None
  with assms show ?thesis by (simp add: tx_get_def)
next
  case (Some vis)
  show ?thesis
  proof (cases "gm_load mvss sk")
    case None
    with assms Some show ?thesis by (simp add: tx_get_def)
  next
    case (Some mvs)
    obtain a vis' ch' where get: "vis_Get bt mvs capacity key vis (tx_abortCh st) = (a, vis', ch')"
      by (metis prod_cases3)
    have "vis_clean vis'"
      using vis_Get_clean [OF _ assms(2) [OF Some] get] assms(1)
        \<open>gm_load (tx_stores st) sk = Some vis\<close> by (simp add: tx_clean_def)
    with assms Some get \<open>gm_load (tx_stores st) sk = Some vis\<close> show ?thesis
      by (auto simp: tx_get_def intro: tx_clean_store)
  qed
qed

lemma run_tx_clean:
  assumes "run_tx bt env capacity p n st = (r, st')" and "nonempty_writes p" and "tx_clean st"
    and "\<And>k sk m. gm_load (env k) sk = Some m \<Longrightarrow> mvs_nonempty bt m"
  shows "tx_clean st'"
  using assms(1-3)
proof (induction p arbitrary: n st)
  case (Done x)
  then show ?case by simp
next
  case (GetOp sk key f)
  obtain a st1 where a: "tx_get bt (env n) capacity sk key st = (a, st1)" by force
  have "tx_clean st1" by (rule tx_get_clean [OF GetOp.prems(3) assms(4) a])
  with GetOp.prems a show ?case by (auto intro: GetOp.IH [OF rangeI])
next
  case (SetOp sk key v f)
  obtain a st1 where a: "tx_set sk key v st = (a, st1)" by force
  have "tx_clean st1" using tx_set_clean [OF SetOp.prems(3) _ a] SetOp.prems(2) by simp
  with SetOp.prems a show ?case by (auto intro: SetOp.IH [OF rangeI])
next
  case (DeleteOp sk key f)
  obtain a st1 where a: "tx_set sk key None st = (a, st1)" by force
  have "tx_clean st1" using tx_set_clean [OF DeleteOp.prems(3) _ a] by simp
  with DeleteOp.prems a show ?case by (auto simp: tx_delete_set intro: DeleteOp.IH [OF rangeI])
qed

text \<open>A recorded read that passes the check is exactly what the transaction would see now.\<close>

lemma read_agrees_view:
  assumes "mvs_nonempty bt m" and "read_agrees bt m index (key, vs)" and "Some [] \<notin> set vs"
  shows "vs = [mv_view bt m index key]"
proof -
  from assms(2) obtain v where vs: "vs = [v]"
    and v: "case mvs_GetLatestBeforeIndex bt m index key of
        None \<Rightarrow> bytes_Equal (kv_Get (parentStore m) key) v
      | Some x \<Rightarrow> \<not> vi_IsEstimate x \<and> (if vi_IsDeleted x then v = None else bytes_Equal (vi_value x) v)"
    by (auto simp: read_agrees_def)
  have "v \<noteq> Some []" using assms(3) vs by auto
  show ?thesis
  proof (cases "mvs_GetLatestBeforeIndex bt m index key")
    case None
    with v \<open>v \<noteq> Some []\<close> assms(1) show ?thesis
      by (simp add: vs mv_view_def bytes_Equal_nonempty mvs_nonempty_def)
  next
    case (Some x)
    with v \<open>v \<noteq> Some []\<close> GetLatest_nonempty [OF assms(1) Some] show ?thesis
      by (auto simp: vs mv_view_def bytes_Equal_nonempty vi_IsDeleted_iff split: if_splits)
  qed
qed

text \<open>Conversely, a read of what the transaction sees agrees, unless it is an estimate.\<close>

lemma view_read_agrees:
  assumes "\<And>x. mvs_GetLatestBeforeIndex bt m index key = Some x \<Longrightarrow> \<not> vi_IsEstimate x"
  shows "read_agrees bt m index (key, [mv_view bt m index key])"
  using assms
  by (auto simp: read_agrees_def mv_view_def vi_IsDeleted_iff split: option.splits)

end

subsection \<open>Properties\<close>

text \<open>Reads of a transaction are repeatable: once \<open>Get\<close> has answered, it answers the same for that
  key whatever happens to the multi-version store in between.\<close>

theorem Get_repeatable:
  assumes "vis_Get bt mvs capacity key st ch = (Inr v, st', ch')"
  shows "vis_Get bt2 mvs2 capacity2 key st' ch2 = (Inr v, st', ch2)"
  using assms
  by (auto simp: vis_Get_def vis_parseValueAndUpdateReadset_def vis_UpdateReadSet_def Let_def gomap_simps
      split: option.splits list.splits if_splits)

theorem Get_repeatable_witness:
  "vis_Get rbt_btree (mvs_SetWriteset rbt_btree 1 0 [(''k'', Some ''w'')] (NewMultiVersionStore [])) 1 ''k''
     (snd (vis_Set ''z'' None
        (vis_UpdateReadSet ''k'' None (NewVersionIndexedStore [] 4 0)))) [] =
   (Inr None, snd (vis_Set ''z'' None (vis_UpdateReadSet ''k'' None (NewVersionIndexedStore [] 4 0))), [])"
proof -
  have "vis_Get rbt_btree (NewMultiVersionStore []) 1 ''k''
      (snd (vis_Set ''z'' None (NewVersionIndexedStore [] 4 0))) [] =
    (Inr None, snd (vis_Set ''z'' None (vis_UpdateReadSet ''k'' None (NewVersionIndexedStore [] 4 0))), [])"
    by code_simp
  then show ?thesis by (rule Get_repeatable)
qed

text \<open>C10. A transaction whose run wrote no abort, and whose recorded reads are exactly the values of
  some base, answers and writes as the serial run on that base does, even when other tasks
  changed the multi-version stores arbitrarily during the run.\<close>

theorem run_tx_simulates_serial:
  assumes "run_tx bt env capacity p n st = (r, st')"
    and "\<And>m sk. gm_load (tx_stores st) sk \<noteq> None \<Longrightarrow> gm_load (env m) sk \<noteq> None"
    and "0 < capacity" and "tx_abortCh st' = []" and "reads_from base st'"
  shows "run_serial p (tx_world base st) = (r, tx_world base st')"
  by (rule run_tx_serial [OF assms])

theorem run_tx_simulates_serial_witness:
  "run_serial (GetOp ''s'' ''k'' (\<lambda>x. SetOp ''s'' ''k'' (Some ''w'') (\<lambda>_. Done x)))
     (tx_world (\<lambda>_ _. Some ''v'') \<lparr>tx_stores = [(''s'', NewVersionIndexedStore [(''k'', ''v'')] 0 0)], tx_abortCh = []\<rparr>) =
   (Inr (Some ''v''), tx_world (\<lambda>_ _. Some ''v'')
     \<lparr>tx_stores = [(''s'', (NewVersionIndexedStore [(''k'', ''v'')] 0 0)
        \<lparr>vis_readset := [(''k'', [Some ''v''])], vis_writeset := [(''k'', Some ''w'')]\<rparr>)], tx_abortCh = []\<rparr>)"
proof (rule run_tx_simulates_serial [where capacity = 1 and n = 0 and bt = rbt_btree and
      env = "\<lambda>_. [(''s'', NewMultiVersionStore [(''k'', ''v'')])]"])
  show "run_tx rbt_btree (\<lambda>_. [(''s'', NewMultiVersionStore [(''k'', ''v'')])]) 1
      (GetOp ''s'' ''k'' (\<lambda>x. SetOp ''s'' ''k'' (Some ''w'') (\<lambda>_. Done x))) 0
      \<lparr>tx_stores = [(''s'', NewVersionIndexedStore [(''k'', ''v'')] 0 0)], tx_abortCh = []\<rparr> =
    (Inr (Some ''v''),
      \<lparr>tx_stores = [(''s'', (NewVersionIndexedStore [(''k'', ''v'')] 0 0)
        \<lparr>vis_readset := [(''k'', [Some ''v''])], vis_writeset := [(''k'', Some ''w'')]\<rparr>)], tx_abortCh = []\<rparr>)"
    by code_simp
qed (auto simp: reads_from_def NewVersionIndexedStore_def split: if_splits)

end
