(* ===== verification/Scheduler.thy ===== *)
theory Scheduler
  imports VIStore
begin

text \<open>
  The optimistic scheduler: \<open>src/sei-cosmos/tasks/scheduler.go\<close>.

  \<open>ProcessAll\<close> runs the transactions of a block in rounds. A round executes the tasks that are
  due, each against its version-indexed stores, and then validates all tasks from the first one
  that is not validated. A task whose reads no longer hold is invalidated and run again. After
  \<open>maximumIterations\<close> rounds the scheduler turns synchronous and runs the rest in order.

  Tasks are shared by reference in the code; here a task is its position in \<open>allTasks\<close>. What the
  worker goroutines do concurrently is given by a schedule: for each round the order in which
  tasks take effect and, for every store operation of a running task, what the multi-version
  stores hold at that moment. Tracing spans, metrics other than the retry counters, and the
  transaction tracer hooks have no effect on the state and are left out.
\<close>

datatype status =
    statusPending
  | statusExecuted
  | statusAborted
  | statusValidated
  | statusWaiting

definition maximumIterations :: nat where
  "maximumIterations = 10"

record ('q, 'r) deliverTxTask =
  dt_Status :: status
  dt_Dependencies :: "int list"
  dt_Abort :: "int option"
  dt_Incarnation :: int
  dt_Request :: 'q
  dt_AbsoluteIndex :: int
  dt_Response :: "'r option"
  dt_VersionStores :: "(bytes, versionIndexedStore) gomap"

record ('q, 'r, 't) scheduler =
  multiVersionStores :: "(bytes, 't mvstore) gomap"
  allTasks :: "('q, 'r) deliverTxTask list"
  synchronous :: bool
  maxIncarnation :: int
  conflictKeyCounts :: "(bytes, nat) gomap"
  sched_retries :: nat

text \<open>The order in which the worker goroutines take effect in one round, and what each running
  task (by position) sees of the multi-version stores at each of its operations.\<close>

record 't schedule =
  sch_exec_order :: "nat list \<Rightarrow> nat list"
  sch_env :: "nat \<Rightarrow> nat \<Rightarrow> (bytes, 't mvstore) gomap"
  sch_validate_order :: "nat list \<Rightarrow> nat list"

subsection \<open>Tasks\<close>

definition dt_AppendDependencies ::
  "int list \<Rightarrow> ('q, 'r) deliverTxTask \<Rightarrow> ('q, 'r) deliverTxTask" where
  "dt_AppendDependencies deps t = t\<lparr>dt_Dependencies := fold List.insert deps (dt_Dependencies t)\<rparr>"

definition dt_IsStatus :: "status \<Rightarrow> ('q, 'r) deliverTxTask \<Rightarrow> bool" where
  "dt_IsStatus s t \<longleftrightarrow> dt_Status t = s"

definition dt_SetStatus :: "status \<Rightarrow> ('q, 'r) deliverTxTask \<Rightarrow> ('q, 'r) deliverTxTask" where
  "dt_SetStatus s t = t\<lparr>dt_Status := s\<rparr>"

definition dt_Reset :: "('q, 'r) deliverTxTask \<Rightarrow> ('q, 'r) deliverTxTask" where
  "dt_Reset t =
     (dt_SetStatus statusPending t)\<lparr>dt_Response := None, dt_Abort := None, dt_VersionStores := []\<rparr>"

definition dt_Increment :: "('q, 'r) deliverTxTask \<Rightarrow> ('q, 'r) deliverTxTask" where
  "dt_Increment t = t\<lparr>dt_Incarnation := dt_Incarnation t + 1\<rparr>"

definition NewScheduler :: "('q, 'r, 't) scheduler" where
  "NewScheduler = \<lparr>multiVersionStores = [], allTasks = [], synchronous = False, maxIncarnation = 0,
     conflictKeyCounts = [], sched_retries = 0\<rparr>"

definition toTasks :: "('q \<times> int) list \<Rightarrow> ('q, 'r) deliverTxTask list" where
  "toTasks reqs =
     map (\<lambda>(req, absoluteIndex).
            \<lparr>dt_Status = statusPending, dt_Dependencies = [], dt_Abort = None, dt_Incarnation = 0,
             dt_Request = req, dt_AbsoluteIndex = absoluteIndex, dt_Response = None,
             dt_VersionStores = []\<rparr>) reqs"

fun collectResponses :: "('q, 'r) deliverTxTask list \<Rightarrow> panic + 'r list" where
  "collectResponses [] = Inr []"
| "collectResponses (t # ts) =
     (case dt_Response t of
        None \<Rightarrow> Inl NilDereference
      | Some r \<Rightarrow> (case collectResponses ts of Inl p \<Rightarrow> Inl p | Inr rs \<Rightarrow> Inr (r # rs)))"

text \<open>A \<open>nil\<close> map of stores is the empty list: it is filled on the first call.\<close>

definition tryInitMultiVersionStore ::
  "(bytes, kvstore) gomap \<Rightarrow> ('q, 'r, 't) scheduler \<Rightarrow> ('q, 'r, 't) scheduler" where
  "tryInitMultiVersionStore stores s =
     (if multiVersionStores s \<noteq> [] then s
      else s\<lparr>multiVersionStores := map (\<lambda>(sk, kv). (sk, NewMultiVersionStore kv)) stores\<rparr>)"

subsection \<open>Dependencies and conflicts\<close>

definition task_at :: "('q, 'r) deliverTxTask list \<Rightarrow> int \<Rightarrow> ('q, 'r) deliverTxTask option" where
  "task_at tasks i = List.find (\<lambda>t. dt_AbsoluteIndex t = i) tasks"

fun dependenciesValidated :: "('q, 'r) deliverTxTask list \<Rightarrow> int list \<Rightarrow> panic + bool" where
  "dependenciesValidated tasks [] = Inr True"
| "dependenciesValidated tasks (i # deps) =
     (case task_at tasks i of
        None \<Rightarrow> Inl NilDereference
      | Some task \<Rightarrow>
          if \<not> dt_IsStatus statusValidated task then Inr False
          else dependenciesValidated tasks deps)"

definition allValidated :: "('q, 'r) deliverTxTask list \<Rightarrow> bool" where
  "allValidated tasks = list_all (dt_IsStatus statusValidated) tasks"

fun first_non_validated :: "nat \<Rightarrow> ('q, 'r) deliverTxTask list \<Rightarrow> nat option" where
  "first_non_validated i [] = None"
| "first_non_validated i (t # ts) =
     (if dt_Status t \<noteq> statusValidated then Some i else first_non_validated (Suc i) ts)"

definition findFirstNonValidated :: "('q, 'r, 't) scheduler \<Rightarrow> nat option" where
  "findFirstNonValidated s = first_non_validated 0 (allTasks s)"

definition invalidateTask ::
  "'t btree \<Rightarrow> ('q, 'r) deliverTxTask \<Rightarrow> ('q, 'r, 't) scheduler \<Rightarrow> ('q, 'r, 't) scheduler" where
  "invalidateTask bt task s =
     s\<lparr>multiVersionStores :=
        map (\<lambda>(sk, mv). (sk,
              mvs_ClearIterateset (dt_AbsoluteIndex task)
                (mvs_ClearReadset (dt_AbsoluteIndex task)
                  (mvs_InvalidateWriteset bt (dt_AbsoluteIndex task) (dt_Incarnation task) mv))))
          (multiVersionStores s)\<rparr>"

definition find_conflicts_store ::
  "'t btree \<Rightarrow> 'd memdb \<Rightarrow> int \<Rightarrow> bytes \<times> 't mvstore \<Rightarrow> bool \<times> int list \<times> bytes list
     \<Rightarrow> bool \<times> int list \<times> bytes list" where
  "find_conflicts_store bt md index skmv acc =
     (case skmv of (storeKey, mv) \<Rightarrow> case acc of (valid, conflicts, conflictKeys) \<Rightarrow>
        case mvs_ValidateTransactionStateWithKeys bt md mv index of
          (ok, mvConflicts, mvKeys) \<Rightarrow>
            (valid \<and> ok, fold List.insert mvConflicts conflicts,
             conflictKeys @ map (\<lambda>k. storeKey @ ''/'' @ k) mvKeys))"

definition findConflicts ::
  "'t btree \<Rightarrow> 'd memdb \<Rightarrow> ('q, 'r, 't) scheduler \<Rightarrow> ('q, 'r) deliverTxTask \<Rightarrow> bool \<times> int list \<times> bytes list" where
  "findConflicts bt md s task =
     (case fold (find_conflicts_store bt md (dt_AbsoluteIndex task)) (multiVersionStores s) (True, [], []) of
        (valid, conflicts, conflictKeys) \<Rightarrow> (valid, sort conflicts, conflictKeys))"

subsection \<open>Validation\<close>

definition upd_task ::
  "nat \<Rightarrow> (('q, 'r) deliverTxTask \<Rightarrow> ('q, 'r) deliverTxTask) \<Rightarrow> ('q, 'r, 't) scheduler \<Rightarrow> ('q, 'r, 't) scheduler" where
  "upd_task p f s = s\<lparr>allTasks := (allTasks s)[p := f (allTasks s ! p)]\<rparr>"

definition count_conflicts :: "bytes list \<Rightarrow> ('q, 'r, 't) scheduler \<Rightarrow> ('q, 'r, 't) scheduler" where
  "count_conflicts keys s =
     s\<lparr>conflictKeyCounts :=
        fold (\<lambda>k m. gm_store k (Suc (case gm_load m k of None \<Rightarrow> 0 | Some n \<Rightarrow> n)) m) keys
          (conflictKeyCounts s)\<rparr>"

definition shouldRerun ::
  "'t btree \<Rightarrow> 'd memdb \<Rightarrow> nat \<Rightarrow> ('q, 'r, 't) scheduler \<Rightarrow> panic + bool \<times> ('q, 'r, 't) scheduler" where
  "shouldRerun bt md p s =
     (let task = allTasks s ! p in
      case dt_Status task of
        statusAborted \<Rightarrow> Inr (True, s)
      | statusPending \<Rightarrow> Inr (True, s)
      | statusWaiting \<Rightarrow>
          (case dependenciesValidated (allTasks s) (dt_Dependencies task) of
             Inl e \<Rightarrow> Inl e
           | Inr b \<Rightarrow> Inr (b, s))
      | _ \<Rightarrow>
          (case findConflicts bt md s task of
             (valid, conflicts, conflictKeys) \<Rightarrow>
               if \<not> valid then
                 let s1 = count_conflicts conflictKeys
                            (upd_task p (dt_AppendDependencies conflicts) (invalidateTask bt task s))
                 in (case dependenciesValidated (allTasks s1) (dt_Dependencies (allTasks s1 ! p)) of
                       Inl e \<Rightarrow> Inl e
                     | Inr b \<Rightarrow>
                         if b then Inr (True, s1)
                         else Inr (False, upd_task p (dt_SetStatus statusWaiting) s1))
               else if length conflicts = 0
               then Inr (False, upd_task p (dt_SetStatus statusValidated) s)
               else Inr (False, s)))"

definition validateTask ::
  "'t btree \<Rightarrow> 'd memdb \<Rightarrow> nat \<Rightarrow> ('q, 'r, 't) scheduler \<Rightarrow> panic + bool \<times> ('q, 'r, 't) scheduler" where
  "validateTask bt md p s =
     (case shouldRerun bt md p s of Inl e \<Rightarrow> Inl e | Inr (b, s') \<Rightarrow> Inr (\<not> b, s'))"

text \<open>The work handed to a validation worker for one task.\<close>

definition validate_work ::
  "'t btree \<Rightarrow> 'd memdb \<Rightarrow> nat \<Rightarrow> ('q, 'r, 't) scheduler \<times> nat list \<Rightarrow> panic + ('q, 'r, 't) scheduler \<times> nat list" where
  "validate_work bt md p acc =
     (case acc of (s, res) \<Rightarrow>
        (case validateTask bt md p s of
           Inl e \<Rightarrow> Inl e
         | Inr (ok, s1) \<Rightarrow>
             if ok then Inr (s1, res)
             else
               let s2 = upd_task p (\<lambda>t. dt_Increment (dt_Reset t)) s1;
                   inc = dt_Incarnation (allTasks s2 ! p);
                   s3 = (if inc > maxIncarnation s2 then s2\<lparr>maxIncarnation := inc\<rparr> else s2)
               in Inr (s3, res @ [p])))"

fun validate_each ::
  "'t btree \<Rightarrow> 'd memdb \<Rightarrow> nat list \<Rightarrow> ('q, 'r, 't) scheduler \<times> nat list \<Rightarrow> panic + ('q, 'r, 't) scheduler \<times> nat list"
where
  "validate_each bt md [] acc = Inr acc"
| "validate_each bt md (p # ps) acc =
     (case validate_work bt md p acc of Inl e \<Rightarrow> Inl e | Inr acc' \<Rightarrow> validate_each bt md ps acc')"

definition validateAll ::
  "'t btree \<Rightarrow> 'd memdb \<Rightarrow> 't schedule \<Rightarrow> ('q, 'r, 't) scheduler \<Rightarrow> panic + ('q, 'r, 't) scheduler \<times> nat list" where
  "validateAll bt md sch s =
     (case findFirstNonValidated s of
        None \<Rightarrow> Inr (s, [])
      | Some startIdx \<Rightarrow>
          let ps = [startIdx..<length (allTasks s)]
          in validate_each bt md (if synchronous s then ps else sch_validate_order sch ps) (s, []))"

subsection \<open>Execution\<close>

definition prepareTask ::
  "('q, 'r) deliverTxTask \<Rightarrow> (bytes, 't mvstore) gomap \<Rightarrow> (bytes, versionIndexedStore) gomap" where
  "prepareTask task mvss =
     map (\<lambda>(storeKey, mvs).
            (storeKey, mvs_VersionedIndexedStore mvs (dt_AbsoluteIndex task) (dt_Incarnation task))) mvss"

text \<open>Each version-indexed store of the task is written to the multi-version store it stands on.\<close>

definition write_stores ::
  "(versionIndexedStore \<Rightarrow> 't mvstore \<Rightarrow> 't mvstore) \<Rightarrow> (bytes, versionIndexedStore) gomap
     \<Rightarrow> (bytes, 't mvstore) gomap \<Rightarrow> (bytes, 't mvstore) gomap" where
  "write_stores wr vs mvss =
     map (\<lambda>(sk, m). (sk, case gm_load vs sk of None \<Rightarrow> m | Some v \<Rightarrow> wr v m)) mvss"

definition executeTask ::
  "'t btree \<Rightarrow> ('q \<Rightarrow> 'r prog) \<Rightarrow> (nat \<Rightarrow> (bytes, 't mvstore) gomap) \<Rightarrow> nat
     \<Rightarrow> ('q, 'r, 't) scheduler \<Rightarrow> ('q, 'r, 't) scheduler" where
  "executeTask bt deliverTx env p s =
     (let s1 = (if synchronous s \<and> dt_IsStatus statusValidated (allTasks s ! p)
                then invalidateTask bt (allTasks s ! p) s else s);
          s2 = (if synchronous s \<and> \<not> dt_IsStatus statusPending (allTasks s1 ! p)
                then upd_task p (\<lambda>t. dt_Increment (dt_Reset t)) s1 else s1);
          task = allTasks s2 ! p;
          mvss = multiVersionStores s2;
          seen = (if synchronous s then (\<lambda>_. mvss) else env)
      in case run_tx bt seen (length mvss) (deliverTx (dt_Request task)) 0
                \<lparr>tx_stores = prepareTask task mvss, tx_abortCh = []\<rparr> of
           (resp, st) \<Rightarrow>
             (case tx_abortCh st of
                abort # _ \<Rightarrow>
                  (upd_task p (\<lambda>t. dt_AppendDependencies [abort]
                       ((dt_SetStatus statusAborted t)\<lparr>dt_Abort := Some abort,
                          dt_VersionStores := tx_stores st\<rparr>)) s2)
                    \<lparr>multiVersionStores :=
                       write_stores (vis_WriteEstimatesToMultiVersionStore bt) (tx_stores st) mvss\<rparr>
              | [] \<Rightarrow>
                  (upd_task p (\<lambda>t. (dt_SetStatus statusExecuted t)\<lparr>dt_Response := Some resp,
                       dt_VersionStores := tx_stores st\<rparr>) s2)
                    \<lparr>multiVersionStores :=
                       write_stores (vis_WriteToMultiVersionStore bt) (tx_stores st) mvss\<rparr>))"

definition executeAll ::
  "'t btree \<Rightarrow> ('q \<Rightarrow> 'r prog) \<Rightarrow> 't schedule \<Rightarrow> nat list
     \<Rightarrow> ('q, 'r, 't) scheduler \<Rightarrow> ('q, 'r, 't) scheduler" where
  "executeAll bt deliverTx sch tasks s =
     (if length tasks = 0 then s
      else fold (\<lambda>p s. executeTask bt deliverTx (sch_env sch p) p s)
             (if synchronous s then tasks else sch_exec_order sch tasks) s)"

subsection \<open>ProcessAll\<close>

text \<open>The loop, with the number of rounds it may still make; \<open>None\<close> when it would make more.\<close>

fun process_loop ::
  "'t btree \<Rightarrow> 'd memdb \<Rightarrow> ('q \<Rightarrow> 'r prog) \<Rightarrow> (nat \<Rightarrow> 't schedule) \<Rightarrow> nat \<Rightarrow> nat \<Rightarrow> nat list
     \<Rightarrow> ('q, 'r, 't) scheduler \<Rightarrow> (panic + ('q, 'r, 't) scheduler) option"
and process_round ::
  "'t btree \<Rightarrow> 'd memdb \<Rightarrow> ('q \<Rightarrow> 'r prog) \<Rightarrow> (nat \<Rightarrow> 't schedule) \<Rightarrow> nat \<Rightarrow> nat \<Rightarrow> nat list
     \<Rightarrow> ('q, 'r, 't) scheduler \<Rightarrow> (panic + ('q, 'r, 't) scheduler) option"
where
  "process_loop bt md deliverTx sched 0 iterations toExecute s =
     (if allValidated (allTasks s) then Some (Inr s) else None)"
| "process_loop bt md deliverTx sched (Suc fuel) iterations toExecute s =
     (if allValidated (allTasks s) then Some (Inr s)
      else if iterations \<ge> maximumIterations
      then let s1 = s\<lparr>synchronous := True\<rparr>
           in (case findFirstNonValidated s1 of
                 None \<Rightarrow> Some (Inr s1)
               | Some startIdx \<Rightarrow>
                   process_round bt md deliverTx sched fuel iterations
                     [startIdx..<length (allTasks s1)] s1)
      else process_round bt md deliverTx sched fuel iterations toExecute s)"
| "process_round bt md deliverTx sched fuel iterations toExecute s =
     (let s1 = executeAll bt deliverTx (sched iterations) toExecute s
      in case validateAll bt md (sched iterations) s1 of
           Inl e \<Rightarrow> Some (Inl e)
         | Inr (s2, toExecute') \<Rightarrow>
             process_loop bt md deliverTx sched fuel (Suc iterations) toExecute'
               (s2\<lparr>sched_retries := sched_retries s2 + length toExecute'\<rparr>))"

text \<open>At the end every multi-version store writes its latest versions to its parent.\<close>

fun write_back ::
  "'t btree \<Rightarrow> (bytes, 't mvstore) gomap \<Rightarrow> panic + (bytes, 't mvstore) gomap" where
  "write_back bt [] = Inr []"
| "write_back bt ((sk, mv) # mvs) =
     sum_bind (mvs_WriteLatestToStore bt mv) (\<lambda>mv'. sum_bind (write_back bt mvs) (\<lambda>mvs'. Inr ((sk, mv') # mvs')))"

definition ProcessAll ::
  "'t btree \<Rightarrow> 'd memdb \<Rightarrow> ('q \<Rightarrow> 'r prog) \<Rightarrow> (nat \<Rightarrow> 't schedule) \<Rightarrow> nat \<Rightarrow> (bytes, kvstore) gomap
     \<Rightarrow> ('q \<times> int) list \<Rightarrow> ('q, 'r, 't) scheduler
     \<Rightarrow> (panic + 'r list \<times> ('q, 'r, 't) scheduler) option" where
  "ProcessAll bt md deliverTx sched fuel stores reqs s0 =
     (let s = (tryInitMultiVersionStore stores s0)\<lparr>allTasks := toTasks reqs, conflictKeyCounts := []\<rparr>
      in case process_loop bt md deliverTx sched fuel 0 [0..<length (allTasks s)] s of
           None \<Rightarrow> None
         | Some (Inl e) \<Rightarrow> Some (Inl e)
         | Some (Inr s1) \<Rightarrow>
             (case write_back bt (multiVersionStores s1) of
                Inl e \<Rightarrow> Some (Inl e)
              | Inr mvs \<Rightarrow>
                  let s2 = s1\<lparr>multiVersionStores := mvs\<rparr>
                  in (case collectResponses (allTasks s2) of
                        Inl e \<Rightarrow> Some (Inl e)
                      | Inr rs \<Rightarrow> Some (Inr (rs, s2)))))"

end
