(* ===== verification/OCCInvariant.thy ===== *)
theory OCCInvariant
  imports Scheduler
begin

text \<open>
  The invariant of the optimistic scheduler and its preservation by execution and validation.

  Each task that counts as executed has its recorded reads and its writes in the multi-version
  stores (\<open>executed_ok\<close>); every version belongs to a task and nothing stored is an empty value
  (\<open>mvs_ok\<close>); and in the validated prefix of the block every recorded read still holds
  (\<open>prefix_valid\<close>).
\<close>

subsection \<open>Stores of a scheduler\<close>

definition mvs_ok :: "'t btree \<Rightarrow> int set \<Rightarrow> 't mvstore \<Rightarrow> bool" where
  "mvs_ok bt I m \<longleftrightarrow>
     keys_recorded bt m \<and> mvs_nonempty bt m \<and> (\<forall>k i. mv_at bt m k i \<noteq> None \<longrightarrow> i \<in> I)"

definition stores_ok :: "'t btree \<Rightarrow> int set \<Rightarrow> (bytes, 't mvstore) gomap \<Rightarrow> bool" where
  "stores_ok bt I mvss \<longleftrightarrow> (\<forall>sk m. gm_load mvss sk = Some m \<longrightarrow> mvs_ok bt I m)"

text \<open>The module stores below the multi-version stores.\<close>

definition bases :: "(bytes, 't mvstore) gomap \<Rightarrow> (bytes, kvstore) gomap" where
  "bases mvss = map (\<lambda>(sk, m). (sk, parentStore m)) mvss"

text \<open>What a running task may see: stores of the same names, well-formed, with versions of the
  block's own transactions only.\<close>

definition env_ok ::
  "'t btree \<Rightarrow> int set \<Rightarrow> (bytes, kvstore) gomap \<Rightarrow> (nat \<Rightarrow> (bytes, 't mvstore) gomap) \<Rightarrow> bool" where
  "env_ok bt I stores env \<longleftrightarrow>
     (\<forall>n. stores_ok bt I (env n) \<and> set (gm_keys stores) \<subseteq> set (gm_keys (env n)))"

text \<open>\<open>mvs_only_at i m m'\<close>: the step from \<open>m\<close> to \<open>m'\<close> touched only what belongs to transaction \<open>i\<close>.\<close>

definition mvs_only_at :: "'t btree \<Rightarrow> int \<Rightarrow> 't mvstore \<Rightarrow> 't mvstore \<Rightarrow> bool" where
  "mvs_only_at bt i m m' \<longleftrightarrow>
     parentStore m' = parentStore m \<and>
     (\<forall>j. j \<noteq> i \<longrightarrow> (\<forall>k. mv_at bt m' k j = mv_at bt m k j) \<and>
        gm_load (txReadSets m') j = gm_load (txReadSets m) j \<and>
        gm_load (txIterateSets m') j = gm_load (txIterateSets m) j)"

definition only_at ::
  "'t btree \<Rightarrow> int \<Rightarrow> (bytes, 't mvstore) gomap \<Rightarrow> (bytes, 't mvstore) gomap \<Rightarrow> bool" where
  "only_at bt i mvss mvss' \<longleftrightarrow>
     bases mvss' = bases mvss \<and>
     (\<forall>sk m m'. gm_load mvss sk = Some m \<longrightarrow> gm_load mvss' sk = Some m' \<longrightarrow> mvs_only_at bt i m m')"

lemma gm_load_map:
  "gm_load (map (\<lambda>(k, v). (k, f k v)) m) k = map_option (f k) (gm_load m k)"
  by (induction m) auto

lemma gm_load_bases: "gm_load (bases mvss) sk = map_option parentStore (gm_load mvss sk)"
  unfolding bases_def by (rule gm_load_map)

lemma bases_keys: "gm_keys (bases mvss) = gm_keys mvss"
  by (induction mvss) (auto simp: bases_def)

lemma bases_eq_load:
  "bases mvss = bases mvss' \<Longrightarrow> gm_load mvss sk = None \<longleftrightarrow> gm_load mvss' sk = None"
  by (metis gm_load_bases map_option_is_None)

lemma only_at_map:
  assumes "\<And>sk m. gm_load mvss sk = Some m \<Longrightarrow> mvs_only_at bt i m (f sk m)"
    and "distinct (gm_keys mvss)"
  shows "only_at bt i mvss (map (\<lambda>(sk, m). (sk, f sk m)) mvss)"
proof -
  have "parentStore (f sk m) = parentStore m" if "(sk, m) \<in> set mvss" for sk m
    using assms that by (simp add: mvs_only_at_def)
  then have "bases (map (\<lambda>(sk, m). (sk, f sk m)) mvss) = bases mvss"
    by (auto simp: bases_def)
  with assms(1) show ?thesis by (auto simp: only_at_def gm_load_map simp del: map_of_eq_Some_iff)
qed

lemma mvs_only_at_trans: "mvs_only_at bt i a b \<Longrightarrow> mvs_only_at bt i b c \<Longrightarrow> mvs_only_at bt i a c"
  by (simp add: mvs_only_at_def)

context btree_api
begin

lemma mvs_only_at_write:
  assumes "keys_recorded bt m" and "distinct (gm_keys (vis_writeset v))"
  shows "mvs_only_at bt (vis_transactionIndex v) m (vis_WriteToMultiVersionStore bt v m)"
  using same_reads_SetWriteset [of bt "vis_transactionIndex v" "vis_incarnation v" "vis_writeset v" m]
  by (simp add: mvs_only_at_def vis_WriteToMultiVersionStore_def mv_at_SetWriteset [OF assms]
      same_reads_def)

lemma mvs_only_at_write_estimates:
  assumes "keys_recorded bt m"
  shows "mvs_only_at bt (vis_transactionIndex v) m (vis_WriteEstimatesToMultiVersionStore bt v m)"
  using same_reads_SetEstimatedWriteset [of bt "vis_transactionIndex v" "vis_incarnation v" "vis_writeset v" m]
  by (simp add: mvs_only_at_def vis_WriteEstimatesToMultiVersionStore_def
      mv_at_SetEstimatedWriteset [OF assms] same_reads_def)

lemma mvs_only_at_invalidate:
  "mvs_only_at bt i m
     (mvs_ClearIterateset i (mvs_ClearReadset i (mvs_InvalidateWriteset bt i n m)))"
  using same_reads_InvalidateWriteset [of bt i n m]
  by (simp add: mvs_only_at_def mv_at_InvalidateWriteset_other same_reads_def)

lemma mvs_ok_write:
  assumes "mvs_ok bt I m" and "vis_clean v" and "vis_transactionIndex v \<in> I"
  shows "mvs_ok bt I (vis_WriteToMultiVersionStore bt v m)"
proof -
  let ?i = "vis_transactionIndex v"
  have d: "distinct (gm_keys (vis_writeset v))" and k: "keys_recorded bt m"
    using assms by (simp_all add: vis_clean_def mvs_ok_def)
  have at: "mv_at bt (vis_WriteToMultiVersionStore bt v m) key j =
      (if j = ?i then map_option (NewValueItem ?i (vis_incarnation v)) (gm_load (vis_writeset v) key)
       else mv_at bt m key j)" for key j
    by (simp add: vis_WriteToMultiVersionStore_def mv_at_SetWriteset [OF k d])
  have "parentStore (vis_WriteToMultiVersionStore bt v m) = parentStore m"
    using mvs_only_at_write [OF k d] by (simp add: mvs_only_at_def)
  moreover have "keys_recorded bt (vis_WriteToMultiVersionStore bt v m)"
    by (simp add: vis_WriteToMultiVersionStore_def keys_recorded_SetWriteset [OF k d])
  ultimately show ?thesis
    using assms by (auto simp: mvs_ok_def mvs_nonempty_def at vis_clean_def simp del: map_of_eq_Some_iff)
qed

lemma mvs_ok_write_estimates:
  assumes "mvs_ok bt I m" and "vis_transactionIndex v \<in> I"
  shows "mvs_ok bt I (vis_WriteEstimatesToMultiVersionStore bt v m)"
proof -
  let ?i = "vis_transactionIndex v"
  have k: "keys_recorded bt m" using assms by (simp add: mvs_ok_def)
  have at: "mv_at bt (vis_WriteEstimatesToMultiVersionStore bt v m) key j =
      (if j = ?i then map_option (\<lambda>_. NewEstimateItem ?i (vis_incarnation v)) (gm_load (vis_writeset v) key)
       else mv_at bt m key j)" for key j
    by (simp add: vis_WriteEstimatesToMultiVersionStore_def mv_at_SetEstimatedWriteset [OF k])
  have "parentStore (vis_WriteEstimatesToMultiVersionStore bt v m) = parentStore m"
    using mvs_only_at_write_estimates [OF k] by (simp add: mvs_only_at_def)
  moreover have "keys_recorded bt (vis_WriteEstimatesToMultiVersionStore bt v m)"
    by (simp add: vis_WriteEstimatesToMultiVersionStore_def keys_recorded_SetEstimatedWriteset [OF k])
  ultimately show ?thesis
    using assms by (auto simp: mvs_ok_def mvs_nonempty_def at)
qed

lemma mvs_ok_invalidate:
  assumes "mvs_ok bt I m" and "i \<in> I"
  shows "mvs_ok bt I (mvs_ClearIterateset i (mvs_ClearReadset i (mvs_InvalidateWriteset bt i n m)))"
proof -
  have k: "keys_recorded bt m" using assms by (simp add: mvs_ok_def)
  have "parentStore (mvs_InvalidateWriteset bt i n m) = parentStore m"
    using same_reads_InvalidateWriteset [of bt i n m] by (simp add: same_reads_def)
  moreover have "mv_at bt (mvs_InvalidateWriteset bt i n m) key j = Some x \<Longrightarrow>
      (mv_at bt m key j = Some x \<or> (j = i \<and> vi_value x = None))" for key j x
    by (auto simp: mv_at_InvalidateWriteset split: option.splits if_splits)
  ultimately show ?thesis
    using assms keys_recorded_InvalidateWriteset [OF k, of i n]
    unfolding mvs_ok_def mvs_nonempty_def by (auto, fastforce+)
qed

end

subsection \<open>What an executed task leaves\<close>

definition fresh_stores ::
  "(bytes, kvstore) gomap \<Rightarrow> int \<Rightarrow> int \<Rightarrow> (bytes, versionIndexedStore) gomap" where
  "fresh_stores stores i n = map (\<lambda>(sk, kv). (sk, NewVersionIndexedStore kv i n)) stores"

text \<open>The reads, the (empty) list of iterations and the writes of \<open>v\<close> are in the store.\<close>

definition recorded :: "'t btree \<Rightarrow> int \<Rightarrow> versionIndexedStore \<Rightarrow> 't mvstore \<Rightarrow> bool" where
  "recorded bt i v m \<longleftrightarrow>
     gm_load (txReadSets m) i = Some (vis_readset v) \<and> gm_load (txIterateSets m) i = Some [] \<and>
     (\<forall>k. mv_at bt m k i = map_option (NewValueItem i (vis_incarnation v)) (gm_load (vis_writeset v) k))"

definition executed_ok ::
  "'t btree \<Rightarrow> ('q \<Rightarrow> 'r prog) \<Rightarrow> (bytes, kvstore) gomap \<Rightarrow> int set \<Rightarrow> (bytes, 't mvstore) gomap
     \<Rightarrow> ('q, 'r) deliverTxTask \<Rightarrow> bool" where
  "executed_ok bt deliverTx stores I mvss t \<longleftrightarrow>
     (\<exists>env resp st. env_ok bt I stores env \<and>
        run_tx bt env (length stores) (deliverTx (dt_Request t)) 0
          \<lparr>tx_stores = fresh_stores stores (dt_AbsoluteIndex t) (dt_Incarnation t), tx_abortCh = []\<rparr>
        = (resp, st) \<and>
        tx_abortCh st = [] \<and> dt_Response t = Some resp \<and>
        (\<forall>sk m. gm_load mvss sk = Some m \<longrightarrow>
           (\<exists>v. gm_load (tx_stores st) sk = Some v \<and> recorded bt (dt_AbsoluteIndex t) v m)))"

definition task_done :: "('q, 'r) deliverTxTask \<Rightarrow> bool" where
  "task_done t \<longleftrightarrow> dt_Status t = statusExecuted \<or> dt_Status t = statusValidated"

text \<open>Every read recorded for transaction \<open>i\<close> still holds.\<close>

definition task_valid :: "'t btree \<Rightarrow> (bytes, 't mvstore) gomap \<Rightarrow> int \<Rightarrow> bool" where
  "task_valid bt mvss i \<longleftrightarrow>
     (\<forall>sk m rs. gm_load mvss sk = Some m \<longrightarrow> gm_load (txReadSets m) i = Some rs \<longrightarrow>
        (\<forall>kv \<in> set rs. read_agrees bt m i kv))"

definition sched_inv ::
  "'t btree \<Rightarrow> ('q \<Rightarrow> 'r prog) \<Rightarrow> (bytes, kvstore) gomap \<Rightarrow> ('q \<times> int) list
     \<Rightarrow> ('q, 'r, 't) scheduler \<Rightarrow> bool" where
  "sched_inv bt deliverTx stores reqs s \<longleftrightarrow>
     map (\<lambda>t. (dt_Request t, dt_AbsoluteIndex t)) (allTasks s) = reqs \<and>
     bases (multiVersionStores s) = stores \<and>
     stores_ok bt (snd ` set reqs) (multiVersionStores s) \<and>
     (\<forall>t \<in> set (allTasks s). set (dt_Dependencies t) \<subseteq> snd ` set reqs \<and>
        (task_done t \<longrightarrow> executed_ok bt deliverTx stores (snd ` set reqs) (multiVersionStores s) t))"

text \<open>In the validated prefix of the block every recorded read still holds.\<close>

definition prefix_valid :: "'t btree \<Rightarrow> ('q, 'r, 't) scheduler \<Rightarrow> bool" where
  "prefix_valid bt s \<longleftrightarrow>
     (\<forall>p < length (allTasks s). (\<forall>q \<le> p. dt_Status (allTasks s ! q) = statusValidated) \<longrightarrow>
        task_valid bt (multiVersionStores s) (dt_AbsoluteIndex (allTasks s ! p)))"

text \<open>The block: transaction indices increase, the stores have different names and hold no empty
  value, and no transaction writes one.\<close>

definition block_ok ::
  "('q \<Rightarrow> 'r prog) \<Rightarrow> (bytes, kvstore) gomap \<Rightarrow> ('q \<times> int) list \<Rightarrow> bool" where
  "block_ok deliverTx stores reqs \<longleftrightarrow>
     sorted_wrt (<) (map snd reqs) \<and> distinct (gm_keys stores) \<and> stores \<noteq> [] \<and>
     (\<forall>sk kv k. gm_load stores sk = Some kv \<longrightarrow> kv_Get kv k \<noteq> Some []) \<and>
     (\<forall>q \<in> fst ` set reqs. nonempty_writes (deliverTx q))"

lemma gm_load_fresh:
  "gm_load (fresh_stores stores i n) sk = map_option (\<lambda>kv. NewVersionIndexedStore kv i n) (gm_load stores sk)"
  unfolding fresh_stores_def by (rule gm_load_map)

lemma prepareTask_fresh:
  "prepareTask t mvss = fresh_stores (bases mvss) (dt_AbsoluteIndex t) (dt_Incarnation t)"
  by (auto simp: prepareTask_def fresh_stores_def bases_def mvs_VersionedIndexedStore_def)

lemma recorded_cong:
  "mvs_only_at bt i m m' \<Longrightarrow> j \<noteq> i \<Longrightarrow> recorded bt j v m' \<longleftrightarrow> recorded bt j v m"
  by (simp add: recorded_def mvs_only_at_def)

lemma only_at_load:
  assumes "only_at bt i mvss mvss'" and "gm_load mvss' sk = Some m'"
  obtains m where "gm_load mvss sk = Some m" and "mvs_only_at bt i m m'"
proof -
  have "gm_load mvss sk \<noteq> None"
    using assms bases_eq_load [of mvss mvss' sk] by (simp add: only_at_def)
  with assms that show thesis unfolding only_at_def by blast
qed

lemma executed_ok_cong:
  assumes "executed_ok bt deliverTx stores I mvss t" and "only_at bt i mvss mvss'"
    and "dt_AbsoluteIndex t \<noteq> i"
  shows "executed_ok bt deliverTx stores I mvss' t"
proof -
  have "\<exists>v. gm_load vs sk = Some v \<and> recorded bt (dt_AbsoluteIndex t) v m'"
    if all: "\<forall>sk m. gm_load mvss sk = Some m \<longrightarrow>
        (\<exists>v. gm_load vs sk = Some v \<and> recorded bt (dt_AbsoluteIndex t) v m)"
      and "gm_load mvss' sk = Some m'" for vs sk m'
  proof -
    obtain m where "gm_load mvss sk = Some m" "mvs_only_at bt i m m'"
      using only_at_load [OF assms(2) \<open>gm_load mvss' sk = Some m'\<close>] by blast
    with all recorded_cong [OF _ assms(3)] show ?thesis by blast
  qed
  with assms(1) show ?thesis unfolding executed_ok_def by meson
qed

lemma task_done_Response:
  "executed_ok bt deliverTx stores I mvss t \<Longrightarrow> dt_Response t \<noteq> None"
  by (auto simp: executed_ok_def)

context btree_api
begin

lemma read_agrees_cong:
  assumes "mvs_only_at bt i m m'" and "j \<le> i"
  shows "read_agrees bt m' j kv \<longleftrightarrow> read_agrees bt m j kv"
proof -
  have "mvs_GetLatestBeforeIndex bt m' j k = mvs_GetLatestBeforeIndex bt m j k" for k
    using assms by (intro GetLatestBeforeIndex_cong) (simp add: mvs_only_at_def)
  moreover have "parentStore m' = parentStore m" using assms by (simp add: mvs_only_at_def)
  ultimately show ?thesis by (simp add: read_agrees_def cong: option.case_cong)
qed

lemma task_valid_cong:
  assumes "task_valid bt mvss j" and "only_at bt i mvss mvss'" and "j < i"
  shows "task_valid bt mvss' j"
  unfolding task_valid_def
proof (intro allI impI ballI)
  fix sk m' rs kv
  assume m': "gm_load mvss' sk = Some m'" and rs: "gm_load (txReadSets m') j = Some rs" and "kv \<in> set rs"
  obtain m where m: "gm_load mvss sk = Some m" "mvs_only_at bt i m m'"
    using only_at_load [OF assms(2) m'] by blast
  with rs assms(3) have "gm_load (txReadSets m) j = Some rs" by (simp add: mvs_only_at_def)
  with m assms \<open>kv \<in> set rs\<close> have "read_agrees bt m j kv" unfolding task_valid_def by blast
  with read_agrees_cong [OF m(2)] assms(3) show "read_agrees bt m' j kv" by simp
qed

end

subsection \<open>Conflicts\<close>

lemma find_conflicts_step:
  "checkReadsetAtIndex bt m i = (b, c, k) \<Longrightarrow>
     find_conflicts_store bt md i (sk, m) (valid, cs, ks) =
       (valid \<and> checkIteratorAtIndex bt md m i \<and> b, fold List.insert c cs, ks @ map (\<lambda>k. sk @ ''/'' @ k) k)"
  by (simp add: find_conflicts_store_def mvs_ValidateTransactionStateWithKeys_def)

lemma set_fold_insert: "set (fold List.insert xs ys) = set xs \<union> set ys"
  by (induction xs arbitrary: ys) auto

lemma find_conflicts_fold_sound:
  assumes "fold (find_conflicts_store bt md i) mvss (valid, cs, ks) = (valid', cs', ks')"
  shows "(valid' \<longrightarrow> valid) \<and> set cs \<subseteq> set cs' \<and>
    (valid' \<and> cs' = [] \<longrightarrow> (\<forall>(sk, m) \<in> set mvss. checkIteratorAtIndex bt md m i \<and>
        (\<exists>ks. checkReadsetAtIndex bt m i = (True, [], ks))))"
  using assms
proof (induction mvss arbitrary: valid cs ks)
  case Nil
  then show ?case by simp
next
  case (Cons skm mvss)
  obtain sk m where skm: "skm = (sk, m)" by force
  obtain b c k where rd: "checkReadsetAtIndex bt m i = (b, c, k)" by (metis prod_cases3)
  from Cons.prems have
    "fold (find_conflicts_store bt md i) mvss
       (valid \<and> checkIteratorAtIndex bt md m i \<and> b, fold List.insert c cs, ks @ map (\<lambda>k. sk @ ''/'' @ k) k)
     = (valid', cs', ks')"
    by (simp add: skm find_conflicts_step [OF rd])
  note IH = Cons.IH [OF this]
  have "c = []" if "cs' = []" using IH that by (auto simp: set_fold_insert)
  with IH show ?case by (auto simp: skm rd set_fold_insert)
qed

lemma find_conflicts_fold_complete:
  assumes "\<forall>(sk, m) \<in> set mvss. checkIteratorAtIndex bt md m i \<and>
      (\<exists>ks. checkReadsetAtIndex bt m i = (True, [], ks))"
  shows "\<exists>ks'. fold (find_conflicts_store bt md i) mvss (valid, cs, ks) = (valid, cs, ks')"
  using assms
proof (induction mvss arbitrary: ks)
  case Nil
  then show ?case by simp
next
  case (Cons skm mvss)
  obtain sk m where skm: "skm = (sk, m)" by force
  with Cons.prems obtain k where "checkReadsetAtIndex bt m i = (True, [], k)" "checkIteratorAtIndex bt md m i"
    by auto
  then have "find_conflicts_store bt md i skm (valid, cs, ks) = (valid, cs, ks @ map (\<lambda>k. sk @ ''/'' @ k) k)"
    by (simp add: skm find_conflicts_step)
  with Cons show ?case by simp
qed

text \<open>Validation finds nothing exactly when all recorded reads hold (for tasks without iterations).\<close>

lemma findConflicts_ok_iff:
  assumes "distinct (gm_keys (multiVersionStores s))"
    and "\<And>sk m. gm_load (multiVersionStores s) sk = Some m \<Longrightarrow>
        gm_load (txIterateSets m) (dt_AbsoluteIndex t) = Some []"
  shows "(\<exists>ks. findConflicts bt md s t = (True, [], ks)) \<longleftrightarrow>
     task_valid bt (multiVersionStores s) (dt_AbsoluteIndex t)"
proof -
  let ?i = "dt_AbsoluteIndex t" and ?M = "multiVersionStores s"
  let ?ok = "\<forall>(sk, m) \<in> set ?M. checkIteratorAtIndex bt md m ?i \<and>
      (\<exists>ks. checkReadsetAtIndex bt m ?i = (True, [], ks))"
  have load: "(sk, m) \<in> set ?M \<longleftrightarrow> gm_load ?M sk = Some m" for sk m
    using assms(1) by simp
  have "checkIteratorAtIndex bt md m ?i" if "(sk, m) \<in> set ?M" for sk m
    using that assms(2) [of sk m] load by (simp add: checkIteratorAtIndex_def)
  then have "?ok \<longleftrightarrow> (\<forall>(sk, m) \<in> set ?M. \<forall>rs. gm_load (txReadSets m) ?i = Some rs \<longrightarrow>
      (\<forall>kv \<in> set rs. read_agrees bt m ?i kv))"
    by (auto simp: checkReadset_ok_iff)
  also have "\<dots> \<longleftrightarrow> task_valid bt ?M ?i"
    unfolding task_valid_def load [symmetric] by blast
  finally have ok: "?ok \<longleftrightarrow> task_valid bt ?M ?i" .
  obtain v c k where f: "fold (find_conflicts_store bt md ?i) ?M (True, [], []) = (v, c, k)"
    by (metis prod_cases3)
  have "v \<and> c = [] \<longleftrightarrow> ?ok"
    using find_conflicts_fold_sound [OF f] find_conflicts_fold_complete [of ?M bt md ?i True "[]" "[]"] f
    by auto
  with ok f show ?thesis by (auto simp: findConflicts_def)
qed

context btree_api
begin

lemma GetLatest_in:
  assumes "mvs_ok bt I m" and "mvs_GetLatestBeforeIndex bt m i k = Some x"
  shows "vi_index x \<in> I"
  using assms unfolding GetLatestBeforeIndex_versions latest_below_def mvs_ok_def by auto

lemma check_read_in:
  "mvs_ok bt I m \<Longrightarrow> check_read bt m i kv (v, c, k) = (v', c', k') \<Longrightarrow> set c \<subseteq> I \<Longrightarrow> set c' \<subseteq> I"
  by (auto simp: check_read_def dest: GetLatest_in split: prod.splits list.splits option.splits if_splits)

lemma fold_check_read_in:
  assumes "mvs_ok bt I m"
  shows "fold (check_read bt m i) rs (v, c, k) = (v', c', k') \<Longrightarrow> set c \<subseteq> I \<Longrightarrow> set c' \<subseteq> I"
proof (induction rs arbitrary: v c k)
  case Nil
  then show ?case by simp
next
  case (Cons kv rs)
  obtain a b d where step: "check_read bt m i kv (v, c, k) = (a, b, d)" by (metis prod_cases3)
  have "set b \<subseteq> I" by (rule check_read_in [OF assms step Cons.prems(2)])
  with Cons.IH Cons.prems(1) step show ?case by simp
qed

lemma checkReadset_in:
  "mvs_ok bt I m \<Longrightarrow> checkReadsetAtIndex bt m i = (v, c, k) \<Longrightarrow> set c \<subseteq> I"
  by (auto simp: checkReadsetAtIndex_def dest!: fold_check_read_in split: option.splits prod.splits)

lemma find_conflicts_in:
  "(\<forall>(sk, m) \<in> set mvss. mvs_ok bt I m) \<Longrightarrow> set c \<subseteq> I \<Longrightarrow>
     fold (find_conflicts_store bt md i) mvss (v, c, k) = (v', c', k') \<Longrightarrow> set c' \<subseteq> I"
proof (induction mvss arbitrary: v c k)
  case Nil
  then show ?case by simp
next
  case (Cons skm mvss)
  obtain sk m where skm: "skm = (sk, m)" by force
  obtain b d e where rd: "checkReadsetAtIndex bt m i = (b, d, e)" by (metis prod_cases3)
  have "set d \<subseteq> I" using checkReadset_in [OF _ rd] Cons.prems(1) skm by auto
  with Cons.prems(2) have "set (fold List.insert d c) \<subseteq> I" by (simp add: set_fold_insert)
  moreover have "\<forall>(sk, m) \<in> set mvss. mvs_ok bt I m" using Cons.prems(1) by simp
  moreover note Cons.prems(3)
  ultimately show ?case using Cons.IH by (simp add: skm find_conflicts_step [OF rd])
qed

lemma findConflicts_in:
  assumes "stores_ok bt I (multiVersionStores s)" and "distinct (gm_keys (multiVersionStores s))"
    and "findConflicts bt md s t = (v, c, k)"
  shows "set c \<subseteq> I"
proof -
  have "\<forall>(sk, m) \<in> set (multiVersionStores s). mvs_ok bt I m"
    using assms(1,2) by (auto simp: stores_ok_def)
  note * = find_conflicts_in [OF this]
  obtain v' c' k' where f:
    "fold (find_conflicts_store bt md (dt_AbsoluteIndex t)) (multiVersionStores s) (True, [], []) = (v', c', k')"
    by (metis prod_cases3)
  with assms(3) * [OF _ f] show ?thesis by (auto simp: findConflicts_def)
qed

end

end
