(* ===== verification/OCCStep.thy ===== *)
theory OCCStep
  imports OCCInvariant
begin

text \<open>
  Every step of the scheduler keeps the invariant: the execution of a task, its validation, and
  whole rounds of both.
\<close>

subsection \<open>Steps that touch one task\<close>

definition step_at :: "'t btree \<Rightarrow> nat \<Rightarrow> ('q, 'r, 't) scheduler \<Rightarrow> ('q, 'r, 't) scheduler \<Rightarrow> bool" where
  "step_at bt p s s' \<longleftrightarrow>
     length (allTasks s') = length (allTasks s) \<and>
     (\<forall>q. q \<noteq> p \<longrightarrow> allTasks s' ! q = allTasks s ! q) \<and>
     dt_Request (allTasks s' ! p) = dt_Request (allTasks s ! p) \<and>
     dt_AbsoluteIndex (allTasks s' ! p) = dt_AbsoluteIndex (allTasks s ! p) \<and>
     only_at bt (dt_AbsoluteIndex (allTasks s ! p)) (multiVersionStores s) (multiVersionStores s')"

lemma mvs_only_at_refl [simp]: "mvs_only_at bt i m m"
  by (simp add: mvs_only_at_def)

lemma only_at_refl [simp]: "only_at bt i mvss mvss"
  by (auto simp: only_at_def)

lemma only_at_trans:
  assumes "only_at bt i a b" and "only_at bt i b c"
  shows "only_at bt i a c"
  unfolding only_at_def
proof (intro conjI allI impI)
  show "bases c = bases a" using assms by (simp add: only_at_def)
next
  fix sk m m'
  assume m: "gm_load a sk = Some m" and m': "gm_load c sk = Some m'"
  obtain mb where "gm_load b sk = Some mb" "mvs_only_at bt i mb m'"
    using only_at_load [OF assms(2) m'] by blast
  moreover with m assms(1) have "mvs_only_at bt i m mb" unfolding only_at_def by blast
  ultimately show "mvs_only_at bt i m m'" by (blast intro: mvs_only_at_trans)
qed

lemma step_at_refl [simp]: "step_at bt p s s"
  by (simp add: step_at_def)

lemma step_at_trans: "step_at bt p a b \<Longrightarrow> step_at bt p b c \<Longrightarrow> step_at bt p a c"
  unfolding step_at_def by (auto intro: only_at_trans)

lemma step_at_upd_task:
  assumes "\<And>t. dt_Request (f t) = dt_Request t" and "\<And>t. dt_AbsoluteIndex (f t) = dt_AbsoluteIndex t"
  shows "step_at bt p s (upd_task p f s)"
  using assms by (cases "p < length (allTasks s)") (simp_all add: step_at_def upd_task_def list_update_beyond)

lemma step_at_other [simp]:
  "step_at bt p s (s'\<lparr>maxIncarnation := n\<rparr>) = step_at bt p s s'"
  "step_at bt p s (count_conflicts ks s') = step_at bt p s s'"
  by (simp_all add: step_at_def count_conflicts_def)

lemma nth_upd_task:
  "p < length (allTasks s) \<Longrightarrow>
     allTasks (upd_task p f s) ! q = (if q = p then f (allTasks s ! p) else allTasks s ! q)"
  by (simp add: upd_task_def nth_list_update)

lemma upd_task_frame [simp]:
  "multiVersionStores (upd_task p f s) = multiVersionStores s"
  "length (allTasks (upd_task p f s)) = length (allTasks s)"
  "synchronous (upd_task p f s) = synchronous s"
  by (simp_all add: upd_task_def)

lemma count_conflicts_frame [simp]:
  "multiVersionStores (count_conflicts ks s) = multiVersionStores s"
  "allTasks (count_conflicts ks s) = allTasks s"
  "synchronous (count_conflicts ks s) = synchronous s"
  by (simp_all add: count_conflicts_def)

lemma invalidateTask_frame [simp]:
  "allTasks (invalidateTask bt t s) = allTasks s"
  "synchronous (invalidateTask bt t s) = synchronous s"
  by (simp_all add: invalidateTask_def)

lemma task_fields [simp]:
  "dt_Request (dt_SetStatus st t) = dt_Request t"
  "dt_AbsoluteIndex (dt_SetStatus st t) = dt_AbsoluteIndex t"
  "dt_Dependencies (dt_SetStatus st t) = dt_Dependencies t"
  "dt_Incarnation (dt_SetStatus st t) = dt_Incarnation t"
  "dt_Response (dt_SetStatus st t) = dt_Response t"
  "dt_Status (dt_SetStatus st t) = st"
  "dt_Request (dt_AppendDependencies ds t) = dt_Request t"
  "dt_AbsoluteIndex (dt_AppendDependencies ds t) = dt_AbsoluteIndex t"
  "set (dt_Dependencies (dt_AppendDependencies ds t)) = set ds \<union> set (dt_Dependencies t)"
  "dt_Status (dt_AppendDependencies ds t) = dt_Status t"
  "dt_Request (dt_Increment t) = dt_Request t"
  "dt_AbsoluteIndex (dt_Increment t) = dt_AbsoluteIndex t"
  "dt_Dependencies (dt_Increment t) = dt_Dependencies t"
  "dt_Status (dt_Increment t) = dt_Status t"
  "dt_Request (dt_Reset t) = dt_Request t"
  "dt_AbsoluteIndex (dt_Reset t) = dt_AbsoluteIndex t"
  "dt_Dependencies (dt_Reset t) = dt_Dependencies t"
  "dt_Status (dt_Reset t) = statusPending"
  by (simp_all add: dt_SetStatus_def dt_AppendDependencies_def dt_Increment_def dt_Reset_def
      set_fold_insert)

text \<open>Positions and indices: the indices increase along the block.\<close>

lemma inv_length:
  "sched_inv bt deliverTx stores reqs s \<Longrightarrow> length (allTasks s) = length reqs"
  unfolding sched_inv_def by (metis length_map)

lemma inv_nth:
  assumes "sched_inv bt deliverTx stores reqs s" and "p < length reqs"
  shows "dt_Request (allTasks s ! p) = fst (reqs ! p)" and "dt_AbsoluteIndex (allTasks s ! p) = snd (reqs ! p)"
proof -
  have "reqs ! p = (dt_Request (allTasks s ! p), dt_AbsoluteIndex (allTasks s ! p))"
    using assms unfolding sched_inv_def by (metis (no_types, lifting) length_map nth_map)
  then show "dt_Request (allTasks s ! p) = fst (reqs ! p)"
    and "dt_AbsoluteIndex (allTasks s ! p) = snd (reqs ! p)" by simp_all
qed

lemma block_index_mono:
  "block_ok deliverTx stores reqs \<Longrightarrow> p < q \<Longrightarrow> q < length reqs \<Longrightarrow> snd (reqs ! p) < snd (reqs ! q)"
  by (simp add: block_ok_def sorted_wrt_iff_nth_less)

lemma block_index_less_iff:
  assumes "block_ok deliverTx stores reqs" and "p < length reqs" and "q < length reqs"
  shows "snd (reqs ! p) < snd (reqs ! q) \<longleftrightarrow> p < q" and "snd (reqs ! p) = snd (reqs ! q) \<longleftrightarrow> p = q"
  using block_index_mono [OF assms(1)] assms(2,3) by (metis less_asym linorder_neqE_nat less_irrefl)+

lemma inv_index_in:
  "sched_inv bt deliverTx stores reqs s \<Longrightarrow> p < length reqs \<Longrightarrow>
     dt_AbsoluteIndex (allTasks s ! p) \<in> snd ` set reqs"
  by (simp add: inv_nth)

lemma sched_inv_step:
  assumes inv: "sched_inv bt deliverTx stores reqs s" and blk: "block_ok deliverTx stores reqs"
    and p: "p < length reqs" and step: "step_at bt p s s'"
    and ok: "stores_ok bt (snd ` set reqs) (multiVersionStores s')"
    and deps: "set (dt_Dependencies (allTasks s' ! p)) \<subseteq> snd ` set reqs"
    and fin: "task_done (allTasks s' ! p) \<Longrightarrow>
      executed_ok bt deliverTx stores (snd ` set reqs) (multiVersionStores s') (allTasks s' ! p)"
  shows "sched_inv bt deliverTx stores reqs s'"
proof -
  have len: "length (allTasks s) = length reqs" by (rule inv_length [OF inv])
  then have len': "length (allTasks s') = length reqs" using step by (simp add: step_at_def)
  have same: "allTasks s' ! q = allTasks s ! q" if "q \<noteq> p" for q
    using step that by (simp add: step_at_def)
  have "map (\<lambda>t. (dt_Request t, dt_AbsoluteIndex t)) (allTasks s') = reqs"
  proof (rule nth_equalityI)
    fix q assume "q < length (map (\<lambda>t. (dt_Request t, dt_AbsoluteIndex t)) (allTasks s'))"
    then have q: "q < length reqs" using len' by simp
    have "dt_Request (allTasks s' ! q) = dt_Request (allTasks s ! q)"
      and "dt_AbsoluteIndex (allTasks s' ! q) = dt_AbsoluteIndex (allTasks s ! q)"
      using same step by (cases "q = p"; simp add: step_at_def)+
    with inv_nth [OF inv q] q len' show
      "map (\<lambda>t. (dt_Request t, dt_AbsoluteIndex t)) (allTasks s') ! q = reqs ! q" by simp
  qed (simp add: len')
  moreover have "bases (multiVersionStores s') = stores"
    using inv step by (simp add: sched_inv_def step_at_def only_at_def)
  moreover have tasks: "set (dt_Dependencies (allTasks s' ! q)) \<subseteq> snd ` set reqs \<and>
      (task_done (allTasks s' ! q) \<longrightarrow>
        executed_ok bt deliverTx stores (snd ` set reqs) (multiVersionStores s') (allTasks s' ! q))"
    if q: "q < length reqs" for q
  proof (cases "q = p")
    case True
    with deps fin show ?thesis by simp
  next
    case False
    then have ne: "dt_AbsoluteIndex (allTasks s ! q) \<noteq> dt_AbsoluteIndex (allTasks s ! p)"
      using block_index_less_iff(2) [OF blk q p] by (simp add: inv_nth [OF inv] q p)
    have "allTasks s ! q \<in> set (allTasks s)" using q len by simp
    with inv have "set (dt_Dependencies (allTasks s ! q)) \<subseteq> snd ` set reqs"
      and "task_done (allTasks s ! q) \<longrightarrow>
        executed_ok bt deliverTx stores (snd ` set reqs) (multiVersionStores s) (allTasks s ! q)"
      by (simp_all add: sched_inv_def)
    moreover have "only_at bt (dt_AbsoluteIndex (allTasks s ! p)) (multiVersionStores s) (multiVersionStores s')"
      using step by (simp add: step_at_def)
    ultimately show ?thesis using executed_ok_cong [OF _ _ ne] unfolding same [OF False] by blast
  qed
  moreover have "\<forall>t \<in> set (allTasks s'). set (dt_Dependencies t) \<subseteq> snd ` set reqs \<and>
      (task_done t \<longrightarrow> executed_ok bt deliverTx stores (snd ` set reqs) (multiVersionStores s') t)"
    using tasks len' by (metis in_set_conv_nth)
  ultimately show ?thesis using ok unfolding sched_inv_def by simp
qed

text \<open>The estimates that transaction \<open>i\<close> could read have indices in \<open>E\<close>.\<close>

definition estimates_in :: "'t btree \<Rightarrow> int \<Rightarrow> int set \<Rightarrow> 't mvstore \<Rightarrow> bool" where
  "estimates_in bt i E m \<longleftrightarrow>
     (\<forall>key x. mvs_GetLatestBeforeIndex bt m i key = Some x \<longrightarrow> vi_IsEstimate x \<longrightarrow> vi_index x \<in> E)"

subsection \<open>Runs from fresh stores\<close>

lemma run_from_fresh:
  assumes "run_tx bt env c prog 0 \<lparr>tx_stores = fresh_stores stores i n, tx_abortCh = []\<rparr> = (resp, st)"
  shows "gm_load (tx_stores st) sk = None \<longleftrightarrow> gm_load stores sk = None"
    and "gm_load (tx_stores st) sk = Some v \<Longrightarrow>
      vis_transactionIndex v = i \<and> vis_incarnation v = n \<and> vis_iterateset v = []"
proof -
  let ?f = "gm_load (fresh_stores stores i n) sk"
  have rel: "rel_option vis_extends ?f (gm_load (tx_stores st) sk)"
    using run_tx_extends [OF assms] by (simp add: tx_extends_def)
  then show "gm_load (tx_stores st) sk = None \<longleftrightarrow> gm_load stores sk = None"
    by (metis gm_load_fresh map_option_is_None option.rel_sel)
  show "vis_transactionIndex v = i \<and> vis_incarnation v = n \<and> vis_iterateset v = []"
    if "gm_load (tx_stores st) sk = Some v"
    using rel that by (auto simp: gm_load_fresh vis_extends_def NewVersionIndexedStore_def
        option_rel_Some2)
qed

lemma tx_clean_fresh:
  assumes "block_ok deliverTx stores reqs"
  shows "tx_clean \<lparr>tx_stores = fresh_stores stores i n, tx_abortCh = []\<rparr>"
  using assms by (auto simp: tx_clean_def gm_load_fresh vis_clean_def NewVersionIndexedStore_def
      block_ok_def simp del: map_of_eq_Some_iff)

context btree_api
begin

lemma vis_Get_abort_in:
  "mvs_ok bt I m \<Longrightarrow> vis_Get bt m c key v ch = (r, v', ch') \<Longrightarrow> set ch \<subseteq> I \<Longrightarrow> set ch' \<subseteq> I"
  by (auto simp: vis_Get_def vis_parseValueAndUpdateReadset_def Let_def vis_WriteAbort_def
      dest: GetLatest_in split: option.splits list.splits if_splits)

lemma tx_get_abort_in:
  assumes "stores_ok bt I mvss" and "tx_get bt mvss c sk key st = (r, st')"
    and "set (tx_abortCh st) \<subseteq> I"
  shows "set (tx_abortCh st') \<subseteq> I"
proof (cases "gm_load (tx_stores st) sk = None \<or> gm_load mvss sk = None")
  case True
  with assms show ?thesis by (auto simp: tx_get_def split: option.splits)
next
  case False
  then obtain v m where v: "gm_load (tx_stores st) sk = Some v" "gm_load mvss sk = Some m" by auto
  obtain a v' ch where get: "vis_Get bt m c key v (tx_abortCh st) = (a, v', ch)" by (metis prod_cases3)
  have "mvs_ok bt I m" using assms(1) v by (simp add: stores_ok_def)
  then have "set ch \<subseteq> I" using get assms(3) by (rule vis_Get_abort_in)
  with assms(2) v get show ?thesis by (auto simp: tx_get_def)
qed

lemma run_tx_abort_in:
  assumes "\<And>k. stores_ok bt I (env k)"
  shows "run_tx bt env c p n st = (r, st') \<Longrightarrow> set (tx_abortCh st) \<subseteq> I \<Longrightarrow> set (tx_abortCh st') \<subseteq> I"
proof (induction p arbitrary: n st)
  case (Done x)
  then show ?case by simp
next
  case (GetOp sk key f)
  obtain a st1 where a: "tx_get bt (env n) c sk key st = (a, st1)" by force
  have "set (tx_abortCh st1) \<subseteq> I" by (rule tx_get_abort_in [OF assms a GetOp.prems(2)])
  moreover have "run_tx bt env c (f a) (Suc n) st1 = (r, st')" using GetOp.prems(1) a by simp
  ultimately show ?case using GetOp.IH [OF rangeI] by blast
next
  case (SetOp sk key v f)
  obtain a st1 where a: "tx_set sk key v st = (a, st1)" by force
  with SetOp.prems(1) have "run_tx bt env c (f a) (Suc n) st1 = (r, st')" by simp
  moreover have "set (tx_abortCh st1) \<subseteq> I" using SetOp.prems(2) tx_set_extends(2) [OF a] by simp
  ultimately show ?case using SetOp.IH [OF rangeI] by blast
next
  case (DeleteOp sk key f)
  obtain a st1 where a: "tx_set sk key None st = (a, st1)" by force
  with DeleteOp.prems(1) have "run_tx bt env c (f a) (Suc n) st1 = (r, st')" by (simp add: tx_delete_set)
  moreover have "set (tx_abortCh st1) \<subseteq> I" using DeleteOp.prems(2) tx_set_extends(2) [OF a] by simp
  ultimately show ?case using DeleteOp.IH [OF rangeI] by blast
qed

end

subsection \<open>Execution of a task\<close>

text \<open>The state in which the transaction of \<open>executeTask\<close> is run.\<close>

definition exec_prep :: "'t btree \<Rightarrow> nat \<Rightarrow> ('q, 'r, 't) scheduler \<Rightarrow> ('q, 'r, 't) scheduler" where
  "exec_prep bt p s =
     (let s1 = (if synchronous s \<and> dt_IsStatus statusValidated (allTasks s ! p)
                then invalidateTask bt (allTasks s ! p) s else s)
      in if synchronous s \<and> \<not> dt_IsStatus statusPending (allTasks s1 ! p)
         then upd_task p (\<lambda>t. dt_Increment (dt_Reset t)) s1 else s1)"

definition exec_run ::
  "'t btree \<Rightarrow> ('q \<Rightarrow> 'r prog) \<Rightarrow> (nat \<Rightarrow> (bytes, 't mvstore) gomap) \<Rightarrow> nat
     \<Rightarrow> ('q, 'r, 't) scheduler \<Rightarrow> 'r \<times> txState" where
  "exec_run bt deliverTx env p s =
     run_tx bt (if synchronous s then (\<lambda>_. multiVersionStores s) else env)
       (length (multiVersionStores s)) (deliverTx (dt_Request (allTasks s ! p))) 0
       \<lparr>tx_stores = prepareTask (allTasks s ! p) (multiVersionStores s), tx_abortCh = []\<rparr>"

lemma exec_prep_synchronous [simp]: "synchronous (exec_prep bt p s) = synchronous s"
  by (simp add: exec_prep_def Let_def)

lemma executeTask_prep:
  "executeTask bt deliverTx env p s =
     (case exec_run bt deliverTx env p (exec_prep bt p s) of
        (resp, st) \<Rightarrow>
          (case tx_abortCh st of
             abort # _ \<Rightarrow>
               (upd_task p (\<lambda>t. dt_AppendDependencies [abort]
                    ((dt_SetStatus statusAborted t)\<lparr>dt_Abort := Some abort,
                       dt_VersionStores := tx_stores st\<rparr>)) (exec_prep bt p s))
                 \<lparr>multiVersionStores :=
                    write_stores (vis_WriteEstimatesToMultiVersionStore bt) (tx_stores st)
                      (multiVersionStores (exec_prep bt p s))\<rparr>
           | [] \<Rightarrow>
               (upd_task p (\<lambda>t. (dt_SetStatus statusExecuted t)\<lparr>dt_Response := Some resp,
                    dt_VersionStores := tx_stores st\<rparr>) (exec_prep bt p s))
                 \<lparr>multiVersionStores :=
                    write_stores (vis_WriteToMultiVersionStore bt) (tx_stores st)
                      (multiVersionStores (exec_prep bt p s))\<rparr>))"
  unfolding executeTask_def exec_run_def exec_prep_synchronous unfolding exec_prep_def Let_def ..

lemma executeTask_aborted:
  assumes "exec_run bt deliverTx env p (exec_prep bt p s) = (resp, st)" and "tx_abortCh st = abort # ch"
  shows "executeTask bt deliverTx env p s =
    (upd_task p (\<lambda>t. dt_AppendDependencies [abort]
         ((dt_SetStatus statusAborted t)\<lparr>dt_Abort := Some abort, dt_VersionStores := tx_stores st\<rparr>))
       (exec_prep bt p s))
      \<lparr>multiVersionStores := write_stores (vis_WriteEstimatesToMultiVersionStore bt) (tx_stores st)
         (multiVersionStores (exec_prep bt p s))\<rparr>"
  by (simp add: executeTask_prep assms)

lemma executeTask_executed:
  assumes "exec_run bt deliverTx env p (exec_prep bt p s) = (resp, st)" and "tx_abortCh st = []"
  shows "executeTask bt deliverTx env p s =
    (upd_task p (\<lambda>t. (dt_SetStatus statusExecuted t)\<lparr>dt_Response := Some resp, dt_VersionStores := tx_stores st\<rparr>)
       (exec_prep bt p s))
      \<lparr>multiVersionStores := write_stores (vis_WriteToMultiVersionStore bt) (tx_stores st)
         (multiVersionStores (exec_prep bt p s))\<rparr>"
  by (simp add: executeTask_prep assms)

lemma exec_prep_deps:
  "p < length (allTasks s) \<Longrightarrow>
     dt_Dependencies (allTasks (exec_prep bt p s) ! p) = dt_Dependencies (allTasks s ! p)"
  by (simp add: exec_prep_def Let_def nth_upd_task)

lemma gm_load_write_stores:
  "gm_load (write_stores wr vs mvss) sk =
     map_option (\<lambda>m. case gm_load vs sk of None \<Rightarrow> m | Some v \<Rightarrow> wr v m) (gm_load mvss sk)"
  unfolding write_stores_def by (rule gm_load_map)

lemma inv_distinct:
  "sched_inv bt deliverTx stores reqs s \<Longrightarrow> block_ok deliverTx stores reqs \<Longrightarrow>
     distinct (gm_keys (multiVersionStores s))"
  unfolding sched_inv_def block_ok_def by (metis bases_keys)

context btree_api
begin

lemma invalidateTask_only:
  assumes "distinct (gm_keys (multiVersionStores s))"
  shows "only_at bt (dt_AbsoluteIndex t) (multiVersionStores s) (multiVersionStores (invalidateTask bt t s))"
  using assms by (simp add: invalidateTask_def only_at_map mvs_only_at_invalidate del: map_of_eq_Some_iff)

lemma invalidateTask_ok:
  assumes "stores_ok bt I (multiVersionStores s)" and "dt_AbsoluteIndex t \<in> I"
  shows "stores_ok bt I (multiVersionStores (invalidateTask bt t s))"
  using assms
  by (auto simp: invalidateTask_def stores_ok_def gm_load_map mvs_ok_invalidate simp del: map_of_eq_Some_iff)

lemma exec_prep_step:
  assumes "distinct (gm_keys (multiVersionStores s))"
  shows "step_at bt p s (exec_prep bt p s)"
proof -
  have "step_at bt p s (invalidateTask bt (allTasks s ! p) s)"
    using invalidateTask_only [OF assms] by (simp add: step_at_def)
  then have "step_at bt p s (if synchronous s \<and> dt_IsStatus statusValidated (allTasks s ! p)
      then invalidateTask bt (allTasks s ! p) s else s)" by simp
  then show ?thesis
    unfolding exec_prep_def Let_def by (auto intro!: step_at_trans [OF _ step_at_upd_task])
qed

lemma exec_prep_ok:
  assumes "stores_ok bt I (multiVersionStores s)" and "dt_AbsoluteIndex (allTasks s ! p) \<in> I"
  shows "stores_ok bt I (multiVersionStores (exec_prep bt p s))"
  using assms by (simp add: exec_prep_def Let_def invalidateTask_ok)

lemma exec_prep_inv:
  assumes inv: "sched_inv bt deliverTx stores reqs s" and blk: "block_ok deliverTx stores reqs"
    and p: "p < length reqs"
  shows "step_at bt p s (exec_prep bt p s)"
    and "stores_ok bt (snd ` set reqs) (multiVersionStores (exec_prep bt p s))"
    and "distinct (gm_keys (multiVersionStores (exec_prep bt p s)))"
    and "set (dt_Dependencies (allTasks (exec_prep bt p s) ! p)) \<subseteq> snd ` set reqs"
    and "p < length (allTasks (exec_prep bt p s))"
    and "bases (multiVersionStores (exec_prep bt p s)) = stores"
proof -
  show step: "step_at bt p s (exec_prep bt p s)" by (rule exec_prep_step [OF inv_distinct [OF inv blk]])
  show "stores_ok bt (snd ` set reqs) (multiVersionStores (exec_prep bt p s))"
    using inv inv_index_in [OF inv p] by (simp add: exec_prep_ok sched_inv_def)
  show "distinct (gm_keys (multiVersionStores (exec_prep bt p s)))"
    using step inv_distinct [OF inv blk] by (metis bases_keys only_at_def step_at_def)
  show "set (dt_Dependencies (allTasks (exec_prep bt p s) ! p)) \<subseteq> snd ` set reqs"
    using inv inv_length [OF inv] p by (simp add: exec_prep_deps sched_inv_def)
  show "p < length (allTasks (exec_prep bt p s))"
    using step p inv_length [OF inv] by (simp add: step_at_def)
  show "bases (multiVersionStores (exec_prep bt p s)) = stores"
    using step inv by (simp add: step_at_def only_at_def sched_inv_def)
qed

lemma write_stores_only:
  assumes "stores_ok bt I mvss" and "distinct (gm_keys mvss)"
    and "\<And>sk v. gm_load vs sk = Some v \<Longrightarrow> vis_transactionIndex v = i \<and> vis_clean v"
  shows "only_at bt i mvss (write_stores (vis_WriteToMultiVersionStore bt) vs mvss)"
    and "only_at bt i mvss (write_stores (vis_WriteEstimatesToMultiVersionStore bt) vs mvss)"
proof -
  have "mvs_only_at bt i m (case gm_load vs sk of None \<Rightarrow> m | Some v \<Rightarrow> vis_WriteToMultiVersionStore bt v m)"
    and "mvs_only_at bt i m (case gm_load vs sk of None \<Rightarrow> m | Some v \<Rightarrow> vis_WriteEstimatesToMultiVersionStore bt v m)"
    if "gm_load mvss sk = Some m" for sk m
    using that assms(1) assms(3) [of sk] mvs_only_at_write [of m] mvs_only_at_write_estimates [of m]
    by (auto simp: stores_ok_def mvs_ok_def vis_clean_def simp del: map_of_eq_Some_iff split: option.splits)
  with assms(2) show "only_at bt i mvss (write_stores (vis_WriteToMultiVersionStore bt) vs mvss)"
    and "only_at bt i mvss (write_stores (vis_WriteEstimatesToMultiVersionStore bt) vs mvss)"
    by (simp_all add: write_stores_def only_at_map del: map_of_eq_Some_iff)
qed

lemma write_stores_ok:
  assumes "stores_ok bt I mvss" and "i \<in> I"
    and "\<And>sk v. gm_load vs sk = Some v \<Longrightarrow> vis_transactionIndex v = i \<and> vis_clean v"
  shows "stores_ok bt I (write_stores (vis_WriteToMultiVersionStore bt) vs mvss)"
    and "stores_ok bt I (write_stores (vis_WriteEstimatesToMultiVersionStore bt) vs mvss)"
  using assms mvs_ok_write mvs_ok_write_estimates
  by (auto simp: stores_ok_def gm_load_write_stores split: option.splits simp del: map_of_eq_Some_iff)

lemma recorded_write:
  assumes "keys_recorded bt m" and "vis_clean v" and "vis_iterateset v = []"
  shows "recorded bt (vis_transactionIndex v) v (vis_WriteToMultiVersionStore bt v m)"
proof -
  have "distinct (gm_keys (vis_writeset v))" using assms(2) by (simp add: vis_clean_def)
  with assms(3) show ?thesis
    by (simp add: recorded_def vis_WriteToMultiVersionStore_def mv_at_SetWriteset [OF assms(1)])
qed

text \<open>The run of a task, seen from the invariant: its stores are its own and clean, and an abort
  names a transaction of the block.\<close>

lemma exec_run_facts:
  assumes inv: "sched_inv bt deliverTx stores reqs s" and blk: "block_ok deliverTx stores reqs"
    and p: "p < length reqs" and env: "env_ok bt (snd ` set reqs) stores env"
    and run: "exec_run bt deliverTx env p (exec_prep bt p s) = (resp, st)"
  shows "\<exists>seen. env_ok bt (snd ` set reqs) stores seen \<and>
      run_tx bt seen (length stores) (deliverTx (dt_Request (allTasks s ! p))) 0
        \<lparr>tx_stores = fresh_stores stores (dt_AbsoluteIndex (allTasks s ! p))
           (dt_Incarnation (allTasks (exec_prep bt p s) ! p)), tx_abortCh = []\<rparr> = (resp, st)"
    and "set (tx_abortCh st) \<subseteq> snd ` set reqs"
    and "gm_load (tx_stores st) sk = Some v \<Longrightarrow>
      vis_transactionIndex v = dt_AbsoluteIndex (allTasks s ! p) \<and>
      vis_incarnation v = dt_Incarnation (allTasks (exec_prep bt p s) ! p) \<and>
      vis_iterateset v = [] \<and> vis_clean v"
    and "gm_load (tx_stores st) sk = None \<longleftrightarrow> gm_load stores sk = None"
proof -
  let ?s = "exec_prep bt p s" and ?I = "snd ` set reqs"
  let ?seen = "if synchronous s then (\<lambda>_. multiVersionStores ?s) else env"
  note step = exec_prep_inv(1) [OF inv blk p] and ok = exec_prep_inv(2) [OF inv blk p]
    and bases = exec_prep_inv(6) [OF inv blk p]
  have seen: "env_ok bt ?I stores ?seen"
  proof (cases "synchronous s")
    case True
    with ok bases bases_keys [of "multiVersionStores ?s"] show ?thesis by (simp add: env_ok_def)
  qed (simp add: env)
  have len: "length (multiVersionStores ?s) = length stores" using bases by (metis bases_def length_map)
  have run': "run_tx bt ?seen (length stores) (deliverTx (dt_Request (allTasks s ! p))) 0
        \<lparr>tx_stores = fresh_stores stores (dt_AbsoluteIndex (allTasks s ! p))
           (dt_Incarnation (allTasks ?s ! p)), tx_abortCh = []\<rparr> = (resp, st)"
    using run step by (simp add: exec_run_def prepareTask_fresh bases len step_at_def)
  with seen show "\<exists>seen. env_ok bt ?I stores seen \<and>
      run_tx bt seen (length stores) (deliverTx (dt_Request (allTasks s ! p))) 0
        \<lparr>tx_stores = fresh_stores stores (dt_AbsoluteIndex (allTasks s ! p))
           (dt_Incarnation (allTasks ?s ! p)), tx_abortCh = []\<rparr> = (resp, st)" by blast
  show "set (tx_abortCh st) \<subseteq> ?I"
    by (rule run_tx_abort_in [OF _ run']) (use seen in \<open>simp_all add: env_ok_def\<close>)
  have "nonempty_writes (deliverTx (dt_Request (allTasks s ! p)))"
    using blk p by (simp add: block_ok_def inv_nth [OF inv])
  then have clean: "tx_clean st"
    by (rule run_tx_clean [OF run' _ tx_clean_fresh [OF blk]])
      (use seen in \<open>auto simp: env_ok_def stores_ok_def mvs_ok_def simp del: map_of_eq_Some_iff\<close>)
  show "vis_transactionIndex v = dt_AbsoluteIndex (allTasks s ! p) \<and>
      vis_incarnation v = dt_Incarnation (allTasks ?s ! p) \<and> vis_iterateset v = [] \<and> vis_clean v"
    if "gm_load (tx_stores st) sk = Some v"
    using run_from_fresh(2) [OF run' that] clean that by (simp add: tx_clean_def)
  show "gm_load (tx_stores st) sk = None \<longleftrightarrow> gm_load stores sk = None"
    by (rule run_from_fresh(1) [OF run'])
qed

lemma write_stores_recorded:
  assumes "stores_ok bt I mvss" and "gm_load vs sk \<noteq> None"
    and own: "\<And>v. gm_load vs sk = Some v \<Longrightarrow> vis_transactionIndex v = i \<and> vis_iterateset v = [] \<and> vis_clean v"
    and "gm_load (write_stores (vis_WriteToMultiVersionStore bt) vs mvss) sk = Some m'"
  shows "\<exists>v. gm_load vs sk = Some v \<and> recorded bt i v m'"
proof -
  from assms(2) obtain v where v: "gm_load vs sk = Some v" by blast
  with assms(4) obtain m where m: "gm_load mvss sk = Some m" "m' = vis_WriteToMultiVersionStore bt v m"
    by (auto simp: gm_load_write_stores simp del: map_of_eq_Some_iff)
  have "keys_recorded bt m" using assms(1) m(1) by (simp add: stores_ok_def mvs_ok_def)
  with recorded_write [of m v] own [OF v] v m(2) show ?thesis by simp
qed

text \<open>Both outcomes of a run keep the invariant.\<close>

lemma executeTask_inv_aborted:
  assumes inv: "sched_inv bt deliverTx stores reqs s" and blk: "block_ok deliverTx stores reqs"
    and p: "p < length reqs" and env: "env_ok bt (snd ` set reqs) stores env"
    and run: "exec_run bt deliverTx env p (exec_prep bt p s) = (resp, st)" and "tx_abortCh st = a # ch"
  shows "step_at bt p s (executeTask bt deliverTx env p s) \<and>
    sched_inv bt deliverTx stores reqs (executeTask bt deliverTx env p s) \<and>
    dt_Status (allTasks (executeTask bt deliverTx env p s) ! p) = statusAborted"
proof -
  let ?s' = "executeTask bt deliverTx env p s"
  note facts = exec_run_facts [OF inv blk p env run] and prep = exec_prep_inv [OF inv blk p]
  note eq = executeTask_aborted [OF run assms(6)]
  have own: "vis_transactionIndex v = dt_AbsoluteIndex (allTasks s ! p) \<and> vis_clean v"
    if "gm_load (tx_stores st) sk = Some v" for sk v using facts(3) [OF that] by simp
  have "step_at bt p (exec_prep bt p s) ?s'"
    using write_stores_only(2) [OF prep(2,3) own] prep(1,5) by (simp add: step_at_def eq nth_upd_task)
  with prep(1) have step: "step_at bt p s ?s'" by (rule step_at_trans)
  have status: "dt_Status (allTasks ?s' ! p) = statusAborted"
    using prep(5) by (simp add: eq nth_upd_task)
  have "sched_inv bt deliverTx stores reqs ?s'"
  proof (rule sched_inv_step [OF inv blk p step])
    show "stores_ok bt (snd ` set reqs) (multiVersionStores ?s')"
      using write_stores_ok(2) [OF prep(2) inv_index_in [OF inv p] own] by (simp add: eq)
    show "set (dt_Dependencies (allTasks ?s' ! p)) \<subseteq> snd ` set reqs"
      using prep(4,5) facts(2) assms(6) by (simp add: eq nth_upd_task)
  qed (simp add: status task_done_def)
  with step status show ?thesis by simp
qed

lemma executeTask_recorded:
  assumes inv: "sched_inv bt deliverTx stores reqs s" and blk: "block_ok deliverTx stores reqs"
    and p: "p < length reqs" and env: "env_ok bt (snd ` set reqs) stores env"
    and run: "exec_run bt deliverTx env p (exec_prep bt p s) = (resp, st)" and quiet: "tx_abortCh st = []"
    and load: "gm_load (multiVersionStores (executeTask bt deliverTx env p s)) sk = Some m'"
  shows "\<exists>v. gm_load (tx_stores st) sk = Some v \<and> recorded bt (dt_AbsoluteIndex (allTasks s ! p)) v m'"
proof (rule write_stores_recorded)
  let ?s = "exec_prep bt p s"
  note facts = exec_run_facts [OF inv blk p env run] and prep = exec_prep_inv [OF inv blk p]
  note eq = executeTask_executed [OF run quiet]
  show "stores_ok bt (snd ` set reqs) (multiVersionStores ?s)" by (rule prep(2))
  from load have "gm_load (multiVersionStores ?s) sk \<noteq> None"
    by (auto simp: eq gm_load_write_stores simp del: map_of_eq_Some_iff)
  then show "gm_load (tx_stores st) sk \<noteq> None"
    using facts(4) [of sk] prep(6) by (metis gm_load_bases map_option_is_None)
  show "gm_load (write_stores (vis_WriteToMultiVersionStore bt) (tx_stores st) (multiVersionStores ?s)) sk = Some m'"
    using load by (simp add: eq)
  show "vis_transactionIndex v = dt_AbsoluteIndex (allTasks s ! p) \<and> vis_iterateset v = [] \<and> vis_clean v"
    if "gm_load (tx_stores st) sk = Some v" for v using facts(3) [OF that] by simp
qed

lemma executeTask_inv_executed:
  assumes inv: "sched_inv bt deliverTx stores reqs s" and blk: "block_ok deliverTx stores reqs"
    and p: "p < length reqs" and env: "env_ok bt (snd ` set reqs) stores env"
    and run: "exec_run bt deliverTx env p (exec_prep bt p s) = (resp, st)" and quiet: "tx_abortCh st = []"
  shows "step_at bt p s (executeTask bt deliverTx env p s) \<and>
    sched_inv bt deliverTx stores reqs (executeTask bt deliverTx env p s) \<and>
    dt_Status (allTasks (executeTask bt deliverTx env p s) ! p) = statusExecuted"
proof -
  let ?s' = "executeTask bt deliverTx env p s" and ?s = "exec_prep bt p s"
  let ?i = "dt_AbsoluteIndex (allTasks s ! p)"
  note facts = exec_run_facts [OF inv blk p env run] and prep = exec_prep_inv [OF inv blk p]
  note eq = executeTask_executed [OF run quiet]
  have own: "vis_transactionIndex v = ?i \<and> vis_clean v"
    if "gm_load (tx_stores st) sk = Some v" for sk v using facts(3) [OF that] by simp
  have "step_at bt p ?s ?s'"
    using write_stores_only(1) [OF prep(2,3) own] prep(1,5) by (simp add: step_at_def eq nth_upd_task)
  with prep(1) have step: "step_at bt p s ?s'" by (rule step_at_trans)
  have task: "allTasks ?s' ! p = (dt_SetStatus statusExecuted (allTasks ?s ! p))
      \<lparr>dt_Response := Some resp, dt_VersionStores := tx_stores st\<rparr>"
    using prep(5) by (simp add: eq nth_upd_task)
  note rec = executeTask_recorded [OF assms]
  have "sched_inv bt deliverTx stores reqs ?s'"
  proof (rule sched_inv_step [OF inv blk p step])
    show "stores_ok bt (snd ` set reqs) (multiVersionStores ?s')"
      using write_stores_ok(1) [OF prep(2) inv_index_in [OF inv p] own] by (simp add: eq)
    show "set (dt_Dependencies (allTasks ?s' ! p)) \<subseteq> snd ` set reqs" using prep(4) by (simp add: task)
    have "dt_Request (allTasks ?s ! p) = dt_Request (allTasks s ! p)"
      and "dt_AbsoluteIndex (allTasks ?s ! p) = ?i" using prep(1) by (simp_all add: step_at_def)
    with facts(1) quiet rec show
      "executed_ok bt deliverTx stores (snd ` set reqs) (multiVersionStores ?s') (allTasks ?s' ! p)"
      unfolding executed_ok_def task by auto
  qed
  with step show ?thesis by (simp add: task)
qed

lemma executeTask_step:
  assumes "sched_inv bt deliverTx stores reqs s" and "block_ok deliverTx stores reqs"
    and "p < length reqs" and "env_ok bt (snd ` set reqs) stores env"
  shows "step_at bt p s (executeTask bt deliverTx env p s)"
    and "sched_inv bt deliverTx stores reqs (executeTask bt deliverTx env p s)"
    and "dt_Status (allTasks (executeTask bt deliverTx env p s) ! p) \<in> {statusExecuted, statusAborted}"
proof -
  obtain resp st where run: "exec_run bt deliverTx env p (exec_prep bt p s) = (resp, st)" by force
  have "step_at bt p s (executeTask bt deliverTx env p s) \<and>
    sched_inv bt deliverTx stores reqs (executeTask bt deliverTx env p s) \<and>
    dt_Status (allTasks (executeTask bt deliverTx env p s) ! p) \<in> {statusExecuted, statusAborted}"
    using executeTask_inv_aborted [OF assms run] executeTask_inv_executed [OF assms run]
    by (cases "tx_abortCh st") auto
  then show "step_at bt p s (executeTask bt deliverTx env p s)"
    and "sched_inv bt deliverTx stores reqs (executeTask bt deliverTx env p s)"
    and "dt_Status (allTasks (executeTask bt deliverTx env p s) ! p) \<in> {statusExecuted, statusAborted}"
    by simp_all
qed

text \<open>An executed task is not validated, so the validated prefix ends before it and keeps its reads.\<close>

lemma executeTask_prefix:
  assumes inv: "sched_inv bt deliverTx stores reqs s" and blk: "block_ok deliverTx stores reqs"
    and p: "p < length reqs" and env: "env_ok bt (snd ` set reqs) stores env"
    and pre: "prefix_valid bt s"
  shows "prefix_valid bt (executeTask bt deliverTx env p s)"
proof -
  let ?s' = "executeTask bt deliverTx env p s"
  note step = executeTask_step [OF inv blk p env]
  have len: "length (allTasks ?s') = length reqs" "length (allTasks s) = length reqs"
    using step(1) inv_length [OF inv] by (simp_all add: step_at_def)
  have same: "allTasks ?s' ! q = allTasks s ! q" if "q \<noteq> p" for q
    using step(1) that by (simp add: step_at_def)
  have "task_valid bt (multiVersionStores ?s') (dt_AbsoluteIndex (allTasks ?s' ! r))"
    if r: "r < length reqs" and all: "\<forall>q \<le> r. dt_Status (allTasks ?s' ! q) = statusValidated" for r
  proof -
    have "\<not> p \<le> r" using all step(3) by auto
    then have "r < p" by simp
    then have "\<forall>q \<le> r. dt_Status (allTasks s ! q) = statusValidated"
      using all same by (metis leD)
    with pre r len have "task_valid bt (multiVersionStores s) (dt_AbsoluteIndex (allTasks s ! r))"
      by (simp add: prefix_valid_def)
    moreover have "only_at bt (dt_AbsoluteIndex (allTasks s ! p)) (multiVersionStores s) (multiVersionStores ?s')"
      using step(1) by (simp add: step_at_def)
    moreover have "dt_AbsoluteIndex (allTasks s ! r) < dt_AbsoluteIndex (allTasks s ! p)"
      using block_index_mono [OF blk \<open>r < p\<close> p] by (simp add: inv_nth [OF inv] r p)
    ultimately have "task_valid bt (multiVersionStores ?s') (dt_AbsoluteIndex (allTasks s ! r))"
      by (rule task_valid_cong)
    with same \<open>r < p\<close> show ?thesis by simp
  qed
  with len show ?thesis by (simp add: prefix_valid_def)
qed

lemma execute_fold:
  assumes blk: "block_ok deliverTx stores reqs"
    and env: "\<And>p. env_ok bt (snd ` set reqs) stores (env p)"
  shows "sched_inv bt deliverTx stores reqs s \<Longrightarrow> prefix_valid bt s \<Longrightarrow> set ps \<subseteq> {..<length reqs} \<Longrightarrow>
    sched_inv bt deliverTx stores reqs (fold (\<lambda>p s. executeTask bt deliverTx (env p) p s) ps s) \<and>
    prefix_valid bt (fold (\<lambda>p s. executeTask bt deliverTx (env p) p s) ps s)"
proof (induction ps arbitrary: s)
  case Nil
  then show ?case by simp
next
  case (Cons p ps)
  then have p: "p < length reqs" by simp
  note inv = executeTask_step(2) [OF Cons.prems(1) blk p env]
    and pre = executeTask_prefix [OF Cons.prems(1) blk p env Cons.prems(2)]
  from Cons.IH [OF inv pre] Cons.prems(3) show ?case by simp
qed

subsection \<open>Validation of a task\<close>

text \<open>When validation reports conflicts without a verdict against the task, the conflicts are
  estimates that it would read.\<close>

lemma check_read_estimates:
  assumes "check_read bt m i kv (v, c, k) = (True, c', k')"
    and "estimates_in bt i E m"
    and "set c \<subseteq> E"
  shows "v \<and> set c' \<subseteq> E"
  using assms
  by (auto simp: check_read_def estimates_in_def split: prod.splits list.splits option.splits if_splits)

lemma fold_check_read_estimates:
  assumes "fold (check_read bt m i) rs (v, c, k) = (True, c', k')"
    and "estimates_in bt i E m"
    and "set c \<subseteq> E"
  shows "v \<and> set c' \<subseteq> E"
  using assms(1,3)
proof (induction rs arbitrary: v c k)
  case Nil
  then show ?case by simp
next
  case (Cons kv rs)
  obtain v1 c1 k1 where step: "check_read bt m i kv (v, c, k) = (v1, c1, k1)" by (metis prod_cases3)
  with Cons.prems(1) have rest: "fold (check_read bt m i) rs (v1, c1, k1) = (True, c', k')" by simp
  then have "v1" using fold_check_read_sound [OF rest] by simp
  with step have "check_read bt m i kv (v, c, k) = (True, c1, k1)" by simp
  then have "v \<and> set c1 \<subseteq> E" by (rule check_read_estimates [OF _ assms(2) Cons.prems(2)])
  with Cons.IH [OF rest] show ?case by simp
qed

lemma find_conflicts_estimates:
  assumes "\<forall>(sk, m) \<in> set mvss. estimates_in bt i E m"
    and "fold (find_conflicts_store bt md i) mvss (v, c, k) = (True, c', k')" and "set c \<subseteq> E"
  shows "set c' \<subseteq> E"
  using assms
proof (induction mvss arbitrary: v c k)
  case Nil
  then show ?case by simp
next
  case (Cons skm mvss)
  obtain sk m where skm: "skm = (sk, m)" by force
  obtain b d e where rd: "checkReadsetAtIndex bt m i = (b, d, e)" by (metis prod_cases3)
  have rest: "fold (find_conflicts_store bt md i) mvss
      (v \<and> checkIteratorAtIndex bt md m i \<and> b, fold List.insert d c, k @ map (\<lambda>k. sk @ ''/'' @ k) e)
      = (True, c', k')"
    using Cons.prems(2) by (simp add: skm find_conflicts_step [OF rd])
  then have b: b using find_conflicts_fold_sound [OF rest] by simp
  have "set d \<subseteq> E"
  proof (cases "gm_load (txReadSets m) i")
    case None
    with rd show ?thesis by (auto simp: checkReadsetAtIndex_def)
  next
    case (Some rs)
    obtain v1 c1 k1 where f: "fold (check_read bt m i) rs (True, [], []) = (v1, c1, k1)" by (metis prod_cases3)
    with rd b Some have "v1 = True" "d = sort c1" by (simp_all add: checkReadsetAtIndex_def)
    with f fold_check_read_estimates [of m i rs True "[]" "[]" c1 k1 E] Cons.prems(1) skm
    show ?thesis by simp
  qed
  with Cons.prems(3) have "set (fold List.insert d c) \<subseteq> E" by (simp add: set_fold_insert)
  with Cons.IH [OF _ rest] Cons.prems(1) show ?case by simp
qed

lemma executed_no_estimate:
  assumes "executed_ok bt deliverTx stores I mvss t" and "gm_load mvss sk = Some m"
    and "mv_at bt m k (dt_AbsoluteIndex t) = Some x"
  shows "\<not> vi_IsEstimate x"
  using assms by (fastforce simp: executed_ok_def recorded_def)

text \<open>An estimate below a task belongs to an earlier task that is not done.\<close>

lemma inv_estimates:
  assumes inv: "sched_inv bt deliverTx stores reqs s" and blk: "block_ok deliverTx stores reqs"
    and p: "p < length reqs" and m: "gm_load (multiVersionStores s) sk = Some m"
  shows "estimates_in bt (snd (reqs ! p)) {snd (reqs ! q) |q. q < p \<and> \<not> task_done (allTasks s ! q)} m"
  unfolding estimates_in_def
proof (intro allI impI)
  fix key x
  assume x: "mvs_GetLatestBeforeIndex bt m (snd (reqs ! p)) key = Some x" and est: "vi_IsEstimate x"
  have at: "mv_at bt m key (vi_index x) = Some x" and less: "vi_index x < snd (reqs ! p)"
    using x unfolding GetLatestBeforeIndex_versions latest_below_def by auto
  have "mvs_ok bt (snd ` set reqs) m" using inv m by (simp add: sched_inv_def stores_ok_def)
  then have "vi_index x \<in> snd ` set reqs" by (rule GetLatest_in [OF _ x])
  then obtain q where q: "q < length reqs" "vi_index x = snd (reqs ! q)"
    by (auto simp: in_set_conv_nth)
  have "q < p" using less q block_index_less_iff(1) [OF blk q(1) p] by simp
  moreover have "\<not> task_done (allTasks s ! q)"
  proof
    assume "task_done (allTasks s ! q)"
    then have "executed_ok bt deliverTx stores (snd ` set reqs) (multiVersionStores s) (allTasks s ! q)"
      using inv q(1) inv_length [OF inv] by (simp add: sched_inv_def)
    from executed_no_estimate [OF this m] at q est show False by (simp add: inv_nth [OF inv])
  qed
  ultimately show "vi_index x \<in> {snd (reqs ! q) |q. q < p \<and> \<not> task_done (allTasks s ! q)}"
    using q(2) by blast
qed

lemma inv_findConflicts:
  assumes inv: "sched_inv bt deliverTx stores reqs s" and blk: "block_ok deliverTx stores reqs"
    and p: "p < length reqs" and dn: "task_done (allTasks s ! p)"
  shows "(\<exists>ks. findConflicts bt md s (allTasks s ! p) = (True, [], ks)) \<longleftrightarrow>
    task_valid bt (multiVersionStores s) (dt_AbsoluteIndex (allTasks s ! p))"
proof (rule findConflicts_ok_iff [OF inv_distinct [OF inv blk]])
  fix sk m assume "gm_load (multiVersionStores s) sk = Some m"
  moreover have "executed_ok bt deliverTx stores (snd ` set reqs) (multiVersionStores s) (allTasks s ! p)"
    using inv p inv_length [OF inv] dn by (simp add: sched_inv_def)
  ultimately show "gm_load (txIterateSets m) (dt_AbsoluteIndex (allTasks s ! p)) = Some []"
    unfolding executed_ok_def recorded_def by blast
qed

lemma findConflicts_undecided:
  assumes inv: "sched_inv bt deliverTx stores reqs s" and blk: "block_ok deliverTx stores reqs"
    and p: "p < length reqs"
    and fc: "findConflicts bt md s (allTasks s ! p) = (True, cs, ks)" and "cs \<noteq> []"
  shows "\<exists>q < p. \<not> task_done (allTasks s ! q)"
proof -
  let ?E = "{snd (reqs ! q) |q. q < p \<and> \<not> task_done (allTasks s ! q)}"
  obtain v c k where f: "fold (find_conflicts_store bt md (snd (reqs ! p))) (multiVersionStores s)
      (True, [], []) = (v, c, k)" by (metis prod_cases3)
  with fc have "v = True" "cs = sort c" by (simp_all add: findConflicts_def inv_nth [OF inv p])
  have "\<forall>(sk, m) \<in> set (multiVersionStores s). estimates_in bt (snd (reqs ! p)) ?E m"
    using inv_estimates [OF inv blk p] inv_distinct [OF inv blk] by auto
  from find_conflicts_estimates [OF this f [unfolded \<open>v = True\<close>]] have "set c \<subseteq> ?E" by simp
  with \<open>cs = sort c\<close> \<open>cs \<noteq> []\<close> show ?thesis by (cases c) auto
qed

end

lemma dependenciesValidated_total:
  "set deps \<subseteq> dt_AbsoluteIndex ` set tasks \<Longrightarrow> \<exists>b. dependenciesValidated tasks deps = Inr b"
proof (induction deps)
  case Nil
  then show ?case by auto
next
  case (Cons i deps)
  have "task_at tasks i \<noteq> None"
    using Cons.prems by (auto simp: task_at_def find_None_iff)
  with Cons show ?case by auto
qed

lemma inv_indices:
  "sched_inv bt deliverTx stores reqs s \<Longrightarrow> dt_AbsoluteIndex ` set (allTasks s) = snd ` set reqs"
  unfolding sched_inv_def by (auto simp: image_image)

text \<open>What the validation of task \<open>p\<close> does: it touches only that task; afterwards the task is not
  done, or nothing else changed and a validated verdict is right unless an earlier task is not
  done.\<close>

definition validate_outcome ::
  "'t btree \<Rightarrow> nat \<Rightarrow> ('q, 'r, 't) scheduler \<Rightarrow> ('q, 'r, 't) scheduler \<Rightarrow> bool" where
  "validate_outcome bt p s s' \<longleftrightarrow>
     step_at bt p s s' \<and>
     (task_done (allTasks s' ! p) \<longrightarrow>
        task_done (allTasks s ! p) \<and> multiVersionStores s' = multiVersionStores s \<and>
        (dt_Status (allTasks s' ! p) = statusValidated \<longrightarrow>
           task_valid bt (multiVersionStores s) (dt_AbsoluteIndex (allTasks s ! p)) \<or>
           (\<exists>q < p. \<not> task_done (allTasks s ! q))))"

text \<open>The part of \<open>validate_work\<close> after the verdict.\<close>

definition validate_finish ::
  "nat \<Rightarrow> bool \<times> ('q, 'r, 't) scheduler \<Rightarrow> nat list \<Rightarrow> ('q, 'r, 't) scheduler \<times> nat list" where
  "validate_finish p bs res =
     (case bs of (b, s1) \<Rightarrow>
        if \<not> b then (s1, res)
        else let s2 = upd_task p (\<lambda>t. dt_Increment (dt_Reset t)) s1;
                 inc = dt_Incarnation (allTasks s2 ! p);
                 s3 = (if inc > maxIncarnation s2 then s2\<lparr>maxIncarnation := inc\<rparr> else s2)
             in (s3, res @ [p]))"

lemma validate_work_finish:
  "validate_work bt md p (s, res) =
     (case shouldRerun bt md p s of Inl e \<Rightarrow> Inl e | Inr bs \<Rightarrow> Inr (validate_finish p bs res))"
  by (auto simp: validate_work_def validateTask_def validate_finish_def Let_def split: sum.splits prod.splits)

lemma validate_finish_rerun:
  assumes "p < length (allTasks s1)"
  shows "step_at bt p s1 (fst (validate_finish p (True, s1) res))"
    and "multiVersionStores (fst (validate_finish p (True, s1) res)) = multiVersionStores s1"
    and "dt_Status (allTasks (fst (validate_finish p (True, s1) res)) ! p) = statusPending"
    and "dt_Dependencies (allTasks (fst (validate_finish p (True, s1) res)) ! p) = dt_Dependencies (allTasks s1 ! p)"
  using assms by (auto simp: validate_finish_def Let_def nth_upd_task intro: step_at_upd_task)

text \<open>A step of validation that leaves the task not done keeps the invariant.\<close>

lemma undone_step:
  assumes inv: "sched_inv bt deliverTx stores reqs s" and blk: "block_ok deliverTx stores reqs"
    and p: "p < length reqs" and step: "step_at bt p s s'"
    and ok: "stores_ok bt (snd ` set reqs) (multiVersionStores s')"
    and deps: "set (dt_Dependencies (allTasks s' ! p)) \<subseteq> snd ` set reqs"
    and undone: "\<not> task_done (allTasks s' ! p)"
  shows "validate_outcome bt p s s' \<and> sched_inv bt deliverTx stores reqs s'"
proof
  show "sched_inv bt deliverTx stores reqs s'"
    by (rule sched_inv_step [OF inv blk p step ok deps]) (simp add: undone)
qed (simp add: validate_outcome_def step undone)

lemma status_not_done:
  "\<not> task_done t \<longleftrightarrow> dt_Status t = statusAborted \<or> dt_Status t = statusPending \<or> dt_Status t = statusWaiting"
  by (cases "dt_Status t") (simp_all add: task_done_def)

text \<open>A task that is not done stays not done; it is handed back for execution or keeps waiting.\<close>

lemma validate_work_undone:
  assumes inv: "sched_inv bt deliverTx stores reqs s" and blk: "block_ok deliverTx stores reqs"
    and p: "p < length reqs" and undone: "\<not> task_done (allTasks s ! p)"
  shows "\<exists>s' res'. validate_work bt md p (s, res) = Inr (s', res') \<and>
    validate_outcome bt p s s' \<and> sched_inv bt deliverTx stores reqs s'"
proof -
  have len: "p < length (allTasks s)" using p inv_length [OF inv] by simp
  then have t: "allTasks s ! p \<in> set (allTasks s)" by simp
  have ok: "stores_ok bt (snd ` set reqs) (multiVersionStores s)" using inv by (simp add: sched_inv_def)
  have deps: "set (dt_Dependencies (allTasks s ! p)) \<subseteq> snd ` set reqs" using inv t by (simp add: sched_inv_def)
  obtain b where b: "dependenciesValidated (allTasks s) (dt_Dependencies (allTasks s ! p)) = Inr b"
    using dependenciesValidated_total deps inv_indices [OF inv] by metis
  then obtain c where run: "shouldRerun bt md p s = Inr (c, s)"
    using undone unfolding status_not_done by (auto simp: shouldRerun_def Let_def)
  show ?thesis
  proof (cases c)
    case True
    note fin = validate_finish_rerun [OF len, where res = res]
    have "validate_outcome bt p s (fst (validate_finish p (True, s) res)) \<and>
        sched_inv bt deliverTx stores reqs (fst (validate_finish p (True, s) res))"
      by (rule undone_step [OF inv blk p fin(1)]) (use fin ok deps in \<open>simp_all add: task_done_def\<close>)
    moreover have "validate_work bt md p (s, res) = Inr (validate_finish p (True, s) res)"
      using run True by (simp add: validate_work_finish)
    ultimately show ?thesis by (metis prod.collapse)
  next
    case False
    with run have "validate_work bt md p (s, res) = Inr (s, res)"
      by (simp add: validate_work_finish validate_finish_def)
    with undone_step [OF inv blk p step_at_refl ok deps undone] show ?thesis by blast
  qed
qed

lemma shouldRerun_done:
  assumes "task_done (allTasks s ! p)" and "findConflicts bt md s (allTasks s ! p) = (valid, cs, ks)"
  shows "shouldRerun bt md p s =
    (if \<not> valid then
       let s1 = count_conflicts ks (upd_task p (dt_AppendDependencies cs) (invalidateTask bt (allTasks s ! p) s))
       in (case dependenciesValidated (allTasks s1) (dt_Dependencies (allTasks s1 ! p)) of
             Inl e \<Rightarrow> Inl e
           | Inr b \<Rightarrow> if b then Inr (True, s1) else Inr (False, upd_task p (dt_SetStatus statusWaiting) s1))
     else if length cs = 0 then Inr (False, upd_task p (dt_SetStatus statusValidated) s)
     else Inr (False, s))"
  using assms by (auto simp: shouldRerun_def task_done_def Let_def)

context btree_api
begin

text \<open>A task whose reads failed loses its versions and is not done any more.\<close>

lemma validate_work_invalid:
  assumes inv: "sched_inv bt deliverTx stores reqs s" and blk: "block_ok deliverTx stores reqs"
    and p: "p < length reqs" and dn: "task_done (allTasks s ! p)"
    and fc: "findConflicts bt md s (allTasks s ! p) = (False, cs, ks)"
  shows "\<exists>s' res'. validate_work bt md p (s, res) = Inr (s', res') \<and>
    validate_outcome bt p s s' \<and> sched_inv bt deliverTx stores reqs s'"
proof -
  let ?s1 = "count_conflicts ks (upd_task p (dt_AppendDependencies cs) (invalidateTask bt (allTasks s ! p) s))"
  let ?I = "snd ` set reqs"
  have len: "p < length (allTasks s)" "p < length (allTasks ?s1)" using p inv_length [OF inv] by simp_all
  then have t: "allTasks s ! p \<in> set (allTasks s)" by simp
  have "step_at bt p s (invalidateTask bt (allTasks s ! p) s)"
    using invalidateTask_only [OF inv_distinct [OF inv blk]] by (simp add: step_at_def)
  then have step1: "step_at bt p s ?s1" by (auto intro: step_at_trans [OF _ step_at_upd_task])
  have "stores_ok bt ?I (multiVersionStores s)" using inv by (simp add: sched_inv_def)
  then have ok: "stores_ok bt ?I (multiVersionStores ?s1)" "set cs \<subseteq> ?I"
    using invalidateTask_ok inv_index_in [OF inv p] findConflicts_in [OF _ inv_distinct [OF inv blk] fc]
    by auto
  then have deps: "set (dt_Dependencies (allTasks ?s1 ! p)) \<subseteq> ?I"
    using inv t len(1) by (simp add: sched_inv_def nth_upd_task)
  have "map dt_AbsoluteIndex (allTasks ?s1) = map dt_AbsoluteIndex (allTasks s)"
    using len(1) by (intro nth_equalityI) (auto simp: nth_upd_task)
  then have "dt_AbsoluteIndex ` set (allTasks ?s1) = ?I"
    using inv_indices [OF inv] by (metis list.set_map)
  with deps obtain b where
    b: "dependenciesValidated (allTasks ?s1) (dt_Dependencies (allTasks ?s1 ! p)) = Inr b"
    using dependenciesValidated_total by metis
  show ?thesis
  proof (cases b)
    case True
    with b have "shouldRerun bt md p s = Inr (True, ?s1)" by (simp add: shouldRerun_done [OF dn fc] Let_def)
    then obtain s' res' where w: "validate_work bt md p (s, res) = Inr (s', res')"
      and s': "s' = fst (validate_finish p (True, ?s1) res)"
      by (metis (no_types, lifting) prod.collapse sum.simps(6) validate_work_finish)
    note fin = validate_finish_rerun [OF len(2), where res = res, folded s']
    have "validate_outcome bt p s s' \<and> sched_inv bt deliverTx stores reqs s'"
      by (rule undone_step [OF inv blk p step_at_trans [OF step1 fin(1)]])
        (use fin(2-4) ok(1) deps in \<open>simp_all add: task_done_def\<close>)
    with w show ?thesis by blast
  next
    case False
    let ?s' = "upd_task p (dt_SetStatus statusWaiting) ?s1"
    from False b have "shouldRerun bt md p s = Inr (False, ?s')"
      by (simp add: shouldRerun_done [OF dn fc] Let_def)
    then have w: "validate_work bt md p (s, res) = Inr (?s', res)"
      by (simp add: validate_work_finish validate_finish_def)
    have "validate_outcome bt p s ?s' \<and> sched_inv bt deliverTx stores reqs ?s'"
      by (rule undone_step [OF inv blk p step_at_trans [OF step1 step_at_upd_task]])
        (use ok(1) deps len in \<open>simp_all add: task_done_def nth_upd_task\<close>)
    with w show ?thesis by blast
  qed
qed

text \<open>A task whose reads all hold is validated.\<close>

lemma validate_work_valid:
  assumes inv: "sched_inv bt deliverTx stores reqs s" and blk: "block_ok deliverTx stores reqs"
    and p: "p < length reqs" and dn: "task_done (allTasks s ! p)"
    and valid: "task_valid bt (multiVersionStores s) (dt_AbsoluteIndex (allTasks s ! p))"
  shows "validate_work bt md p (s, res) = Inr (upd_task p (dt_SetStatus statusValidated) s, res)"
    and "validate_outcome bt p s (upd_task p (dt_SetStatus statusValidated) s)"
    and "sched_inv bt deliverTx stores reqs (upd_task p (dt_SetStatus statusValidated) s)"
proof -
  let ?s' = "upd_task p (dt_SetStatus statusValidated) s"
  have len: "p < length (allTasks s)" using p inv_length [OF inv] by simp
  then have t: "allTasks s ! p \<in> set (allTasks s)" by simp
  obtain ks where fc: "findConflicts bt md s (allTasks s ! p) = (True, [], ks)"
    using inv_findConflicts [OF inv blk p dn] valid by blast
  show "validate_work bt md p (s, res) = Inr (?s', res)"
    by (simp add: validate_work_finish validate_finish_def shouldRerun_done [OF dn fc])
  have step: "step_at bt p s ?s'" by (rule step_at_upd_task) simp_all
  with dn valid show "validate_outcome bt p s ?s'" by (simp add: validate_outcome_def)
  show "sched_inv bt deliverTx stores reqs ?s'"
    by (rule sched_inv_step [OF inv blk p step])
      (use inv t dn len in \<open>simp_all add: sched_inv_def nth_upd_task executed_ok_def\<close>)
qed

lemma validate_work_step:
  assumes inv: "sched_inv bt deliverTx stores reqs s" and blk: "block_ok deliverTx stores reqs"
    and p: "p < length reqs"
  shows "\<exists>s' res'. validate_work bt md p (s, res) = Inr (s', res') \<and>
    validate_outcome bt p s s' \<and> sched_inv bt deliverTx stores reqs s'"
proof (cases "task_done (allTasks s ! p)")
  case False
  then show ?thesis by (rule validate_work_undone [OF inv blk p])
next
  case dn: True
  obtain valid cs ks where fc: "findConflicts bt md s (allTasks s ! p) = (valid, cs, ks)"
    by (metis prod_cases3)
  consider "\<not> valid" | "valid" "cs = []" | "valid" "cs \<noteq> []" by blast
  then show ?thesis
  proof cases
    case 1
    with fc validate_work_invalid [OF inv blk p dn] show ?thesis by simp
  next
    case 2
    with fc inv_findConflicts [OF inv blk p dn]
    have "task_valid bt (multiVersionStores s) (dt_AbsoluteIndex (allTasks s ! p))" by auto
    from validate_work_valid [OF inv blk p dn this] show ?thesis by blast
  next
    case 3
    with findConflicts_undecided [OF inv blk p] fc have "\<exists>q < p. \<not> task_done (allTasks s ! q)" by simp
    with dn have "validate_outcome bt p s s" by (simp add: validate_outcome_def)
    moreover have "validate_work bt md p (s, res) = Inr (s, res)"
      using 3 by (simp add: validate_work_finish validate_finish_def shouldRerun_done [OF dn fc])
    ultimately show ?thesis using inv by blast
  qed
qed

end

end
