(* ===== verification/SyncRound.thy ===== *)
theory SyncRound
  imports OCCStep
begin

text \<open>
  The synchronous mode of the scheduler: tasks run in order, each on the finished work of all
  tasks before it. Such a run meets no estimate and every read it records holds, so the round of
  validation after it accepts all tasks. This is what bounds the number of rounds.
\<close>

definition quiet_vis :: "'t btree \<Rightarrow> int \<Rightarrow> 't mvstore \<Rightarrow> versionIndexedStore \<Rightarrow> bool" where
  "quiet_vis bt i m v \<longleftrightarrow>
     vis_transactionIndex v = i \<and> vis_parent v = parentStore m \<and>
     (\<forall>(k, vs) \<in> set (vis_readset v). vs = [mv_view bt m i k])"

text \<open>A run that has met no estimate and recorded exactly what it sees.\<close>

definition quiet_st :: "'t btree \<Rightarrow> int \<Rightarrow> (bytes, 't mvstore) gomap \<Rightarrow> txState \<Rightarrow> bool" where
  "quiet_st bt i mvss st \<longleftrightarrow>
     tx_abortCh st = [] \<and>
     (\<forall>sk v m. gm_load (tx_stores st) sk = Some v \<longrightarrow> gm_load mvss sk = Some m \<longrightarrow> quiet_vis bt i m v)"

text \<open>All positions below \<open>p\<close> are done and their reads hold.\<close>

definition sync_upto :: "'t btree \<Rightarrow> nat \<Rightarrow> ('q, 'r, 't) scheduler \<Rightarrow> bool" where
  "sync_upto bt p s \<longleftrightarrow>
     (\<forall>q < p. task_done (allTasks s ! q) \<and>
        task_valid bt (multiVersionStores s) (dt_AbsoluteIndex (allTasks s ! q)))"

lemma set_gm_store: "set (gm_store k v m) \<subseteq> insert (k, v) (set m)"
  by (induction m) auto

lemma quiet_vis_read:
  assumes "quiet_vis bt i m v" and "gm_load (vis_readset v) key = None"
  shows "quiet_vis bt i m (vis_UpdateReadSet key (mv_view bt m i key) v)"
  using assms set_gm_store [of key "[mv_view bt m i key]" "vis_readset v"]
  by (auto simp: quiet_vis_def vis_UpdateReadSet_def)

lemma vis_Get_quiet:
  assumes q: "quiet_vis bt i m v" and est: "estimates_in bt i {} m"
    and get: "vis_Get bt m c key v [] = (r, v', ch')"
  shows "quiet_vis bt i m v' \<and> ch' = []"
proof (cases "AssertValidKey key \<noteq> None \<or> gm_load (vis_writeset v) key \<noteq> None \<or> gm_load (vis_readset v) key \<noteq> None")
  case True
  with get q show ?thesis by (auto simp: vis_Get_def split: option.splits list.splits)
next
  case False
  have i: "vis_transactionIndex v = i" and parent: "vis_parent v = parentStore m"
    using q by (simp_all add: quiet_vis_def)
  show ?thesis
  proof (cases "mvs_GetLatestBeforeIndex bt m i key")
    case None
    then have "kv_Get (vis_parent v) key = mv_view bt m i key" by (simp add: mv_view_def parent)
    with None False get quiet_vis_read [OF q] show ?thesis by (auto simp: vis_Get_def i Let_def)
  next
    case (Some x)
    then have "\<not> vi_IsEstimate x" using est by (auto simp: estimates_in_def)
    moreover have "(if vi_IsDeleted x then None else vi_value x) = mv_view bt m i key"
      using Some \<open>\<not> vi_IsEstimate x\<close> by (auto simp: mv_view_def vi_IsDeleted_iff)
    ultimately show ?thesis
      using Some False get quiet_vis_read [OF q]
      by (auto simp: vis_Get_def i Let_def vis_parseValueAndUpdateReadset_def)
  qed
qed

lemma tx_get_quiet:
  assumes q: "quiet_st bt i mvss st"
    and est: "\<And>sk m. gm_load mvss sk = Some m \<Longrightarrow> estimates_in bt i {} m"
    and get: "tx_get bt mvss c sk key st = (r, st')"
  shows "quiet_st bt i mvss st'"
proof (cases "gm_load (tx_stores st) sk = None \<or> gm_load mvss sk = None")
  case True
  with q get show ?thesis by (auto simp: tx_get_def split: option.splits)
next
  case False
  then obtain v m where v: "gm_load (tx_stores st) sk = Some v" and m: "gm_load mvss sk = Some m" by auto
  have ch: "tx_abortCh st = []" and qv: "quiet_vis bt i m v" using q v m by (simp_all add: quiet_st_def)
  obtain a v' ch' where g: "vis_Get bt m c key v [] = (a, v', ch')" by (metis prod_cases3)
  note step = vis_Get_quiet [OF qv est [OF m] g]
  have "st' = st\<lparr>tx_stores := gm_store sk v' (tx_stores st), tx_abortCh := ch'\<rparr>"
    using get v m g ch by (simp add: tx_get_def)
  with step q m show ?thesis by (auto simp: quiet_st_def gomap_simps)
qed

lemma tx_set_quiet:
  assumes "quiet_st bt i mvss st" and "tx_set sk key x st = (r, st')"
  shows "quiet_st bt i mvss st'"
proof (cases "gm_load (tx_stores st) sk")
  case None
  with assms show ?thesis by (simp add: tx_set_def)
next
  case (Some v)
  obtain a v' where set: "vis_Set key x v = (a, v')" by force
  then have "quiet_vis bt i m v' = quiet_vis bt i m v" for m
    by (auto simp: vis_Set_def vis_setValue_def quiet_vis_def split: option.splits)
  with assms Some set show ?thesis by (auto simp: quiet_st_def tx_set_def gomap_simps split: if_splits)
qed

lemma run_tx_quiet:
  assumes est: "\<And>sk m. gm_load mvss sk = Some m \<Longrightarrow> estimates_in bt i {} m"
  shows "run_tx bt (\<lambda>_. mvss) c p n st = (r, st') \<Longrightarrow> quiet_st bt i mvss st \<Longrightarrow> quiet_st bt i mvss st'"
proof (induction p arbitrary: n st)
  case (Done x)
  then show ?case by simp
next
  case (GetOp sk key f)
  obtain a st1 where a: "tx_get bt mvss c sk key st = (a, st1)" by force
  have "quiet_st bt i mvss st1" by (rule tx_get_quiet [OF GetOp.prems(2) est a])
  moreover have "run_tx bt (\<lambda>_. mvss) c (f a) (Suc n) st1 = (r, st')" using GetOp.prems(1) a by simp
  ultimately show ?case using GetOp.IH [OF rangeI] by blast
next
  case (SetOp sk key v f)
  obtain a st1 where a: "tx_set sk key v st = (a, st1)" by force
  have "quiet_st bt i mvss st1" by (rule tx_set_quiet [OF SetOp.prems(2) a])
  moreover have "run_tx bt (\<lambda>_. mvss) c (f a) (Suc n) st1 = (r, st')" using SetOp.prems(1) a by simp
  ultimately show ?case using SetOp.IH [OF rangeI] by blast
next
  case (DeleteOp sk key f)
  obtain a st1 where a: "tx_set sk key None st = (a, st1)" by force
  have "quiet_st bt i mvss st1" by (rule tx_set_quiet [OF DeleteOp.prems(2) a])
  moreover have "run_tx bt (\<lambda>_. mvss) c (f a) (Suc n) st1 = (r, st')"
    using DeleteOp.prems(1) a by (simp add: tx_delete_set)
  ultimately show ?case using DeleteOp.IH [OF rangeI] by blast
qed

context btree_api
begin

lemma estimates_in_cong:
  assumes "mvs_only_at bt i m m'"
  shows "estimates_in bt i E m' \<longleftrightarrow> estimates_in bt i E m"
proof -
  have "mvs_GetLatestBeforeIndex bt m' i k = mvs_GetLatestBeforeIndex bt m i k" for k
    using assms by (intro GetLatestBeforeIndex_cong) (simp add: mvs_only_at_def)
  then show ?thesis by (simp add: estimates_in_def)
qed

lemma quiet_task_valid:
  assumes only: "only_at bt i mvss mvss'" and quiet: "quiet_st bt i mvss st"
    and est: "\<And>sk m. gm_load mvss sk = Some m \<Longrightarrow> estimates_in bt i {} m"
    and rec: "\<And>sk m'. gm_load mvss' sk = Some m' \<Longrightarrow>
      \<exists>v. gm_load (tx_stores st) sk = Some v \<and> recorded bt i v m'"
  shows "task_valid bt mvss' i"
  unfolding task_valid_def
proof (intro allI impI ballI)
  fix sk m' rs kv
  assume m': "gm_load mvss' sk = Some m'" and rs: "gm_load (txReadSets m') i = Some rs" and kv: "kv \<in> set rs"
  obtain k vs where kvs: "kv = (k, vs)" by force
  obtain m where m: "gm_load mvss sk = Some m" "mvs_only_at bt i m m'" using only_at_load [OF only m'] by blast
  obtain v where v: "gm_load (tx_stores st) sk = Some v" "recorded bt i v m'" using rec [OF m'] by blast
  then have "rs = vis_readset v" using rs by (simp add: recorded_def)
  moreover have "quiet_vis bt i m v" using quiet v(1) m(1) by (simp add: quiet_st_def)
  ultimately have "vs = [mv_view bt m i k]" using kv kvs by (auto simp: quiet_vis_def)
  moreover have "mv_view bt m i k = mv_view bt m' i k"
    using m(2) by (intro mv_view_cong) (simp_all add: mvs_only_at_def)
  moreover have "\<not> vi_IsEstimate x" if "mvs_GetLatestBeforeIndex bt m' i k = Some x" for x
    using est [OF m(1)] estimates_in_cong [OF m(2), of "{}"] that by (simp add: estimates_in_def)
  ultimately show "read_agrees bt m' i kv" using view_read_agrees [of m' i k] kvs by simp
qed

text \<open>When all tasks before it are done, a task run synchronously executes and its reads hold.\<close>

lemma executeTask_sync:
  assumes inv: "sched_inv bt deliverTx stores reqs s" and blk: "block_ok deliverTx stores reqs"
    and p: "p < length reqs" and env: "env_ok bt (snd ` set reqs) stores env"
    and sync: "synchronous s" and below: "\<And>q. q < p \<Longrightarrow> task_done (allTasks s ! q)"
  shows "dt_Status (allTasks (executeTask bt deliverTx env p s) ! p) = statusExecuted"
    and "task_valid bt (multiVersionStores (executeTask bt deliverTx env p s)) (dt_AbsoluteIndex (allTasks s ! p))"
proof -
  let ?s = "exec_prep bt p s" and ?s' = "executeTask bt deliverTx env p s"
  let ?M = "multiVersionStores (exec_prep bt p s)" and ?i = "dt_AbsoluteIndex (allTasks s ! p)"
  note prep = exec_prep_inv [OF inv blk p]
  obtain resp st where run: "exec_run bt deliverTx env p ?s = (resp, st)" by force
  have only: "only_at bt ?i (multiVersionStores s) ?M" and idx: "dt_AbsoluteIndex (allTasks ?s ! p) = ?i"
    using prep(1) by (simp_all add: step_at_def)
  have est: "estimates_in bt ?i {} m" if m: "gm_load ?M sk = Some m" for sk m
  proof -
    obtain m0 where m0: "gm_load (multiVersionStores s) sk = Some m0" "mvs_only_at bt ?i m0 m"
      using only_at_load [OF only m] by blast
    have none: "{snd (reqs ! q) |q. q < p \<and> \<not> task_done (allTasks s ! q)} = {}" using below by blast
    show ?thesis
      using inv_estimates [OF inv blk p m0(1)] estimates_in_cong [OF m0(2)]
      by (simp add: none inv_nth [OF inv p])
  qed
  have "quiet_st bt ?i ?M \<lparr>tx_stores = prepareTask (allTasks ?s ! p) ?M, tx_abortCh = []\<rparr>"
    using gm_load_bases [of ?M]
    by (auto simp: quiet_st_def quiet_vis_def prepareTask_fresh gm_load_fresh idx
        NewVersionIndexedStore_def simp del: map_of_eq_Some_iff)
  then have quiet: "quiet_st bt ?i ?M st"
    using run_tx_quiet [OF est] run sync by (simp add: exec_run_def)
  then have ch: "tx_abortCh st = []" by (simp add: quiet_st_def)
  have fin: "step_at bt p s ?s'" "sched_inv bt deliverTx stores reqs ?s'" "dt_Status (allTasks ?s' ! p) = statusExecuted"
    using executeTask_inv_executed [OF inv blk p env run ch] by simp_all
  show "dt_Status (allTasks ?s' ! p) = statusExecuted" by (rule fin(3))
  show "task_valid bt (multiVersionStores ?s') ?i"
  proof (rule quiet_task_valid [OF _ quiet])
    show "only_at bt ?i ?M (multiVersionStores ?s')"
      using write_stores_only(1) [OF prep(2,3)] exec_run_facts(3) [OF inv blk p env run]
      by (simp add: executeTask_executed [OF run ch])
  qed (blast intro: est, rule executeTask_recorded [OF inv blk p env run ch])
qed

lemma executeTask_sync_upto:
  assumes inv: "sched_inv bt deliverTx stores reqs s" and blk: "block_ok deliverTx stores reqs"
    and p: "p < length reqs" and env: "env_ok bt (snd ` set reqs) stores env"
    and sync: "synchronous s" and upto: "sync_upto bt p s"
  shows "sync_upto bt (Suc p) (executeTask bt deliverTx env p s)"
    and "synchronous (executeTask bt deliverTx env p s)"
proof -
  let ?s' = "executeTask bt deliverTx env p s"
  have below: "\<And>q. q < p \<Longrightarrow> task_done (allTasks s ! q)" using upto by (simp add: sync_upto_def)
  note own = executeTask_sync [OF inv blk p env sync below]
  note step = executeTask_step(1) [OF inv blk p env]
  have "task_done (allTasks ?s' ! q) \<and> task_valid bt (multiVersionStores ?s') (dt_AbsoluteIndex (allTasks ?s' ! q))"
    if "q < Suc p" for q
  proof (cases "q = p")
    case True
    with own step show ?thesis by (simp add: task_done_def step_at_def)
  next
    case False
    with that have "q < p" by simp
    then have "dt_AbsoluteIndex (allTasks s ! q) < dt_AbsoluteIndex (allTasks s ! p)"
      using block_index_mono [OF blk _ p] p by (simp add: inv_nth [OF inv])
    moreover have "task_valid bt (multiVersionStores s) (dt_AbsoluteIndex (allTasks s ! q))"
      using upto \<open>q < p\<close> by (simp add: sync_upto_def)
    moreover have "only_at bt (dt_AbsoluteIndex (allTasks s ! p)) (multiVersionStores s) (multiVersionStores ?s')"
      using step by (simp add: step_at_def)
    ultimately have "task_valid bt (multiVersionStores ?s') (dt_AbsoluteIndex (allTasks s ! q))"
      by (blast intro: task_valid_cong)
    moreover have "allTasks ?s' ! q = allTasks s ! q" using step False by (simp add: step_at_def)
    ultimately show ?thesis using below [OF \<open>q < p\<close>] by simp
  qed
  then show "sync_upto bt (Suc p) ?s'" by (simp add: sync_upto_def)
  show "synchronous ?s'"
    using sync by (simp add: executeTask_prep split: prod.splits list.splits)
qed

lemma execute_fold_sync:
  assumes blk: "block_ok deliverTx stores reqs"
    and env: "\<And>p. env_ok bt (snd ` set reqs) stores (env p)"
  shows "sched_inv bt deliverTx stores reqs s \<Longrightarrow> synchronous s \<Longrightarrow> sync_upto bt p s \<Longrightarrow> p \<le> length reqs \<Longrightarrow>
    sched_inv bt deliverTx stores reqs (fold (\<lambda>p s. executeTask bt deliverTx (env p) p s) [p..<length reqs] s) \<and>
    synchronous (fold (\<lambda>p s. executeTask bt deliverTx (env p) p s) [p..<length reqs] s) \<and>
    sync_upto bt (length reqs) (fold (\<lambda>p s. executeTask bt deliverTx (env p) p s) [p..<length reqs] s)"
proof (induction "length reqs - p" arbitrary: p s)
  case 0
  then show ?case by simp
next
  case (Suc d)
  then have p: "p < length reqs" by simp
  note inv = executeTask_step(2) [OF Suc.prems(1) blk p env]
    and up = executeTask_sync_upto [OF Suc.prems(1) blk p env Suc.prems(2,3)]
  have d: "d = length reqs - Suc p" and le: "Suc p \<le> length reqs" using Suc.hyps(2) p by simp_all
  from Suc.hyps(1) [OF d inv up(2,1) le] p show ?case by (simp add: upt_rec [of p])
qed

text \<open>Validation accepts every task whose reads hold and leaves the stores alone.\<close>

lemma validate_each_accepts:
  assumes blk: "block_ok deliverTx stores reqs"
  shows "sched_inv bt deliverTx stores reqs s \<Longrightarrow> sync_upto bt (length reqs) s \<Longrightarrow>
    set ps \<subseteq> {..<length reqs} \<Longrightarrow>
    \<exists>s'. validate_each bt md ps (s, res) = Inr (s', res) \<and> sched_inv bt deliverTx stores reqs s' \<and>
      sync_upto bt (length reqs) s' \<and>
      (\<forall>q. q \<in> set ps \<or> dt_Status (allTasks s ! q) = statusValidated \<longrightarrow> dt_Status (allTasks s' ! q) = statusValidated)"
proof (induction ps arbitrary: s)
  case Nil
  then show ?case by simp
next
  case (Cons p ps)
  then have p: "p < length reqs" by simp
  let ?s1 = "upd_task p (dt_SetStatus statusValidated) s"
  have len: "p < length (allTasks s)" using p inv_length [OF Cons.prems(1)] by simp
  have dn: "task_done (allTasks s ! p)"
    and valid: "task_valid bt (multiVersionStores s) (dt_AbsoluteIndex (allTasks s ! p))"
    using Cons.prems(2) p by (simp_all add: sync_upto_def)
  note w = validate_work_valid [OF Cons.prems(1) blk p dn valid]
  have "sync_upto bt (length reqs) ?s1"
    using Cons.prems(2) len by (simp add: sync_upto_def nth_upd_task task_done_def)
  moreover have "set ps \<subseteq> {..<length reqs}" using Cons.prems(3) by simp
  ultimately obtain s' where s': "validate_each bt md ps (?s1, res) = Inr (s', res)"
    "sched_inv bt deliverTx stores reqs s'" "sync_upto bt (length reqs) s'"
    "\<forall>q. q \<in> set ps \<or> dt_Status (allTasks ?s1 ! q) = statusValidated \<longrightarrow> dt_Status (allTasks s' ! q) = statusValidated"
    using Cons.IH [OF w(3)] by blast
  have "dt_Status (allTasks ?s1 ! q) = statusValidated"
    if "q = p \<or> dt_Status (allTasks s ! q) = statusValidated" for q
    using that len by (auto simp: nth_upd_task)
  with s'(4) have "\<forall>q. q \<in> set (p # ps) \<or> dt_Status (allTasks s ! q) = statusValidated \<longrightarrow>
      dt_Status (allTasks s' ! q) = statusValidated" by (metis set_ConsD)
  moreover have "validate_each bt md (p # ps) (s, res) = Inr (s', res)" using s'(1) by (simp add: w(1))
  ultimately show ?case using s'(2,3) by blast
qed

end

end
