(* ===== verification/Serializability.thy ===== *)
theory Serializability
  imports SyncRound "HOL-Library.Multiset"
begin

text \<open>
  What \<open>ProcessAll\<close> guarantees: it ends after at most \<open>maximumIterations + 1\<close> rounds, without a
  panic, and its responses and the final contents of the stores are those of running the
  transactions of the block one after the other.
\<close>

subsection \<open>A round of validation\<close>

text \<open>While a round of validation is under way, \<open>D\<close> holds the positions already dealt with.\<close>

definition round_inv :: "'t btree \<Rightarrow> ('q, 'r, 't) scheduler \<Rightarrow> nat set \<Rightarrow> bool" where
  "round_inv bt s D \<longleftrightarrow>
     (\<forall>p \<in> D. dt_Status (allTasks s ! p) = statusValidated \<longrightarrow>
        task_valid bt (multiVersionStores s) (dt_AbsoluteIndex (allTasks s ! p)) \<or>
        (\<exists>q < p. \<not> task_done (allTasks s ! q) \<or>
           (q \<in> D \<and> dt_Status (allTasks s ! q) \<noteq> statusValidated)))"

lemma findFirst_aux:
  "case first_non_validated i ts of
     None \<Rightarrow> \<forall>t \<in> set ts. dt_Status t = statusValidated
   | Some j \<Rightarrow> i \<le> j \<and> j < i + length ts \<and> dt_Status (ts ! (j - i)) \<noteq> statusValidated \<and>
       (\<forall>q < j - i. dt_Status (ts ! q) = statusValidated)"
proof (induction ts arbitrary: i)
  case Nil
  then show ?case by simp
next
  case (Cons t ts)
  show ?case
  proof (cases "dt_Status t = statusValidated")
    case True
    have "dt_Status ((t # ts) ! q) = statusValidated"
      if "\<forall>q < j - Suc i. dt_Status (ts ! q) = statusValidated" "q < j - i" for j q
      using that True by (cases q) auto
    moreover have "(t # ts) ! (j - i) = ts ! (j - Suc i)" if "Suc i \<le> j" for j
      using that by (simp add: nth_Cons')
    ultimately show ?thesis
      using Cons.IH [of "Suc i"] True by (auto split: option.splits)
  qed simp
qed

lemma findFirst_None:
  "findFirstNonValidated s = None \<Longrightarrow> p < length (allTasks s) \<Longrightarrow> dt_Status (allTasks s ! p) = statusValidated"
  using findFirst_aux [of "allTasks s" 0] by (simp add: findFirstNonValidated_def)

lemma findFirst_Some:
  assumes "findFirstNonValidated s = Some st"
  shows "st < length (allTasks s)" and "dt_Status (allTasks s ! st) \<noteq> statusValidated"
    and "q < st \<Longrightarrow> dt_Status (allTasks s ! q) = statusValidated"
  using findFirst_aux [of "allTasks s" 0] assms by (simp_all add: findFirstNonValidated_def)

lemma allValidated_nth:
  "allValidated (allTasks s) \<longleftrightarrow> (\<forall>p < length (allTasks s). dt_Status (allTasks s ! p) = statusValidated)"
  by (simp add: allValidated_def list_all_length dt_IsStatus_def)

context btree_api
begin

lemma round_step:
  assumes inv: "sched_inv bt deliverTx stores reqs s" and blk: "block_ok deliverTx stores reqs"
    and p: "p < length reqs" and D: "D \<subseteq> {..<length reqs}" "p \<notin> D"
    and rnd: "round_inv bt s D" and out: "validate_outcome bt p s s'"
  shows "round_inv bt s' (insert p D)"
  unfolding round_inv_def
proof (intro ballI impI)
  fix r assume r: "r \<in> insert p D" and st: "dt_Status (allTasks s' ! r) = statusValidated"
  have step: "step_at bt p s s'" using out by (simp add: validate_outcome_def)
  have same: "allTasks s' ! q = allTasks s ! q" if "q \<noteq> p" for q
    using step that by (simp add: step_at_def)
  have keep: "\<not> task_done (allTasks s' ! q)" if "\<not> task_done (allTasks s ! q)" for q
    using out same that by (cases "q = p") (auto simp: validate_outcome_def)
  let ?valid = "\<lambda>s r. task_valid bt (multiVersionStores s) (dt_AbsoluteIndex (allTasks s ! r))"
  let ?below = "\<exists>q < r. \<not> task_done (allTasks s' ! q) \<or>
      (q \<in> insert p D \<and> dt_Status (allTasks s' ! q) \<noteq> statusValidated)"
  show "?valid s' r \<or> ?below"
  proof (cases "r = p")
    case True
    then have "task_done (allTasks s' ! p)" using st by (simp add: task_done_def)
    with out True st have "?valid s p \<or> (\<exists>q < p. \<not> task_done (allTasks s ! q))"
      and "multiVersionStores s' = multiVersionStores s" by (simp_all add: validate_outcome_def)
    with True keep step show ?thesis by (auto simp: step_at_def)
  next
    case False
    with r D have r: "r \<in> D" "r < length reqs" by auto
    have "dt_Status (allTasks s ! r) = statusValidated" using st same [OF False] by simp
    with rnd r consider "?valid s r" | q where "q < r" "\<not> task_done (allTasks s ! q)"
      | q where "q < r" "q \<in> D" "dt_Status (allTasks s ! q) \<noteq> statusValidated"
      unfolding round_inv_def by blast
    then show ?thesis
    proof cases
      case 1
      show ?thesis
      proof (cases "task_done (allTasks s' ! p)")
        case True
        with 1 out same [OF False] show ?thesis by (simp add: validate_outcome_def)
      next
        case undone: False
        show ?thesis
        proof (cases "p < r")
          case True
          with undone show ?thesis by blast
        next
          case nless: False
          with False have "dt_AbsoluteIndex (allTasks s ! r) < dt_AbsoluteIndex (allTasks s ! p)"
            using block_index_mono [OF blk _ p, of r] by (simp add: inv_nth [OF inv] r p)
          with 1 step have "task_valid bt (multiVersionStores s') (dt_AbsoluteIndex (allTasks s ! r))"
            unfolding step_at_def by (blast intro: task_valid_cong)
          with same [OF False] show ?thesis by simp
        qed
      qed
    next
      case 2
      with keep show ?thesis by blast
    next
      case 3
      with D(2) same show ?thesis by (metis insertCI)
    qed
  qed
qed

lemma validate_each_round:
  assumes blk: "block_ok deliverTx stores reqs"
  shows "sched_inv bt deliverTx stores reqs s \<Longrightarrow> round_inv bt s D \<Longrightarrow> D \<subseteq> {..<length reqs} \<Longrightarrow>
    set ps \<subseteq> {..<length reqs} \<Longrightarrow> distinct ps \<Longrightarrow> set ps \<inter> D = {} \<Longrightarrow>
    \<exists>s' res'. validate_each bt md ps (s, res) = Inr (s', res') \<and>
      sched_inv bt deliverTx stores reqs s' \<and> round_inv bt s' (D \<union> set ps)"
proof (induction ps arbitrary: s res D)
  case Nil
  then show ?case by simp
next
  case (Cons p ps)
  then have p: "p < length reqs" "p \<notin> D" by auto
  obtain s1 res1 where w: "validate_work bt md p (s, res) = Inr (s1, res1)"
    and out: "validate_outcome bt p s s1" and inv: "sched_inv bt deliverTx stores reqs s1"
    using validate_work_step [OF Cons.prems(1) blk p(1)] by blast
  have rnd: "round_inv bt s1 (insert p D)"
    by (rule round_step [OF Cons.prems(1) blk p(1) Cons.prems(3) p(2) Cons.prems(2) out])
  have "insert p D \<subseteq> {..<length reqs}" "set ps \<subseteq> {..<length reqs}" "distinct ps" "set ps \<inter> insert p D = {}"
    using Cons.prems p by auto
  from Cons.IH [OF inv rnd this] w show ?case by (simp add: Un_commute)
qed

end

lemma validate_work_res:
  "validate_work bt md p (s, res) = Inr (s', res') \<Longrightarrow> set res' \<subseteq> insert p (set res)"
  by (auto simp: validate_work_def Let_def split: sum.splits prod.splits if_splits)

lemma validate_each_res:
  "validate_each bt md ps (s, res) = Inr (s', res') \<Longrightarrow> set res' \<subseteq> set res \<union> set ps"
proof (induction ps arbitrary: s res)
  case Nil
  then show ?case by simp
next
  case (Cons p ps)
  then obtain s1 res1 where w: "validate_work bt md p (s, res) = Inr (s1, res1)"
    and "validate_each bt md ps (s1, res1) = Inr (s', res')" by (auto split: sum.splits)
  with Cons.IH validate_work_res [OF w] show ?case by fastforce
qed

subsection \<open>Rounds\<close>

text \<open>A schedule runs each task once per phase, and what its tasks see is well-formed.\<close>

definition sched_ok ::
  "'t btree \<Rightarrow> int set \<Rightarrow> (bytes, kvstore) gomap \<Rightarrow> 't schedule \<Rightarrow> bool" where
  "sched_ok bt I stores sch \<longleftrightarrow>
     (\<forall>xs. mset (sch_exec_order sch xs) = mset xs) \<and>
     (\<forall>xs. mset (sch_validate_order sch xs) = mset xs) \<and>
     (\<forall>p. env_ok bt I stores (sch_env sch p))"

lemma sched_ok_order:
  assumes "sched_ok bt I stores sch"
  shows "set (sch_exec_order sch xs) = set xs" and "set (sch_validate_order sch xs) = set xs"
    and "distinct (sch_validate_order sch xs) = distinct xs"
  using assms unfolding sched_ok_def by (metis mset_eq_setD mset_eq_imp_distinct_iff)+

context btree_api
begin

lemma executeAll_inv:
  assumes inv: "sched_inv bt deliverTx stores reqs s" and blk: "block_ok deliverTx stores reqs"
    and pre: "prefix_valid bt s" and sch: "sched_ok bt (snd ` set reqs) stores sch"
    and ps: "set ps \<subseteq> {..<length reqs}"
  shows "sched_inv bt deliverTx stores reqs (executeAll bt deliverTx sch ps s)"
    and "prefix_valid bt (executeAll bt deliverTx sch ps s)"
proof -
  have env: "\<And>p. env_ok bt (snd ` set reqs) stores (sch_env sch p)"
    using sch by (simp add: sched_ok_def)
  have "set (if synchronous s then ps else sch_exec_order sch ps) \<subseteq> {..<length reqs}"
    using ps sched_ok_order(1) [OF sch] by simp
  from execute_fold [OF blk env inv pre this] inv pre
  show "sched_inv bt deliverTx stores reqs (executeAll bt deliverTx sch ps s)"
    and "prefix_valid bt (executeAll bt deliverTx sch ps s)"
    by (simp_all add: executeAll_def)
qed

lemma validateAll_inv:
  assumes inv: "sched_inv bt deliverTx stores reqs s" and blk: "block_ok deliverTx stores reqs"
    and pre: "prefix_valid bt s" and sch: "sched_ok bt (snd ` set reqs) stores sch"
  shows "\<exists>s' res. validateAll bt md sch s = Inr (s', res) \<and> sched_inv bt deliverTx stores reqs s' \<and>
    prefix_valid bt s' \<and> set res \<subseteq> {..<length reqs}"
proof (cases "findFirstNonValidated s")
  case None
  with inv pre show ?thesis by (simp add: validateAll_def)
next
  case (Some st)
  let ?n = "length reqs"
  note first = findFirst_Some [OF Some]
  define ps where "ps = (if synchronous s then [st..<?n] else sch_validate_order sch [st..<?n])"
  have len: "length (allTasks s) = ?n" by (rule inv_length [OF inv])
  have ps: "set ps = {st..<?n}" "distinct ps"
    using sched_ok_order [OF sch] by (simp_all add: ps_def)
  have "round_inv bt s {..<st}"
    unfolding round_inv_def using pre first len by (simp add: prefix_valid_def)
  moreover have "{..<st} \<subseteq> {..<?n}" "set ps \<subseteq> {..<?n}" "set ps \<inter> {..<st} = {}"
    using first(1) ps(1) len by auto
  ultimately obtain s' res where v: "validate_each bt md ps (s, []) = Inr (s', res)"
    and inv': "sched_inv bt deliverTx stores reqs s'" and rnd: "round_inv bt s' ({..<st} \<union> set ps)"
    using validate_each_round [OF blk inv, of "{..<st}" ps md "[]"] ps(2) by blast
  have "{..<st} \<union> set ps = {..<?n}" using ps(1) first(1) len by auto
  with rnd inv_length [OF inv'] have "prefix_valid bt s'"
    unfolding prefix_valid_def round_inv_def by (fastforce simp: task_done_def)
  moreover have "set res \<subseteq> {..<?n}" using validate_each_res [OF v] ps(1) by auto
  moreover have "validateAll bt md sch s = Inr (s', res)"
    using Some v len by (simp add: validateAll_def ps_def)
  ultimately show ?thesis using inv' by blast
qed

end

lemma inv_other_fields [simp]:
  "sched_inv bt deliverTx stores reqs (s\<lparr>synchronous := b\<rparr>) = sched_inv bt deliverTx stores reqs s"
  "sched_inv bt deliverTx stores reqs (s\<lparr>sched_retries := n\<rparr>) = sched_inv bt deliverTx stores reqs s"
  "prefix_valid bt (s\<lparr>synchronous := b\<rparr>) = prefix_valid bt s"
  "prefix_valid bt (s\<lparr>sched_retries := n\<rparr>) = prefix_valid bt s"
  by (simp_all add: sched_inv_def prefix_valid_def)

text \<open>What holds when the loop is over.\<close>

definition loop_done ::
  "'t btree \<Rightarrow> ('q \<Rightarrow> 'r prog) \<Rightarrow> (bytes, kvstore) gomap \<Rightarrow> ('q \<times> int) list
     \<Rightarrow> (panic + ('q, 'r, 't) scheduler) \<Rightarrow> bool" where
  "loop_done bt deliverTx stores reqs r \<longleftrightarrow>
     (\<exists>s. r = Inr s \<and> sched_inv bt deliverTx stores reqs s \<and> prefix_valid bt s \<and> allValidated (allTasks s))"

context btree_api
begin

lemma process_round_inv:
  assumes loop: "\<forall>iterations ps s r. sched_inv bt deliverTx stores reqs s \<longrightarrow> prefix_valid bt s \<longrightarrow>
      set ps \<subseteq> {..<length reqs} \<longrightarrow>
      process_loop bt md deliverTx sched fuel iterations ps s = Some r \<longrightarrow>
      loop_done bt deliverTx stores reqs r"
    and inv: "sched_inv bt deliverTx stores reqs s" and blk: "block_ok deliverTx stores reqs"
    and pre: "prefix_valid bt s" and sch: "\<forall>n. sched_ok bt (snd ` set reqs) stores (sched n)"
    and ps: "set ps \<subseteq> {..<length reqs}"
    and run: "process_round bt md deliverTx sched fuel iterations ps s = Some r"
  shows "loop_done bt deliverTx stores reqs r"
proof -
  let ?s1 = "executeAll bt deliverTx (sched iterations) ps s"
  note sch1 = sch [rule_format, of iterations]
  note ex = executeAll_inv [OF inv blk pre sch1 ps]
  obtain s' res where "validateAll bt md (sched iterations) ?s1 = Inr (s', res)"
    and "sched_inv bt deliverTx stores reqs s'" "prefix_valid bt s'" "set res \<subseteq> {..<length reqs}"
    using validateAll_inv [OF ex(1) blk ex(2) sch1] by blast
  with run show ?thesis
    using loop [rule_format, of "s'\<lparr>sched_retries := sched_retries s' + length res\<rparr>" res "Suc iterations" r]
    by (simp add: Let_def)
qed

lemma process_loop_inv:
  assumes blk: "block_ok deliverTx stores reqs" and sch: "\<forall>n. sched_ok bt (snd ` set reqs) stores (sched n)"
  shows "sched_inv bt deliverTx stores reqs s \<Longrightarrow> prefix_valid bt s \<Longrightarrow> set ps \<subseteq> {..<length reqs} \<Longrightarrow>
    process_loop bt md deliverTx sched fuel iterations ps s = Some r \<Longrightarrow>
    loop_done bt deliverTx stores reqs r"
proof (induction fuel arbitrary: iterations ps s r)
  case 0
  then show ?case by (auto simp: loop_done_def split: if_splits)
next
  case (Suc fuel)
  have IH: "\<forall>iterations ps s r. sched_inv bt deliverTx stores reqs s \<longrightarrow> prefix_valid bt s \<longrightarrow>
      set ps \<subseteq> {..<length reqs} \<longrightarrow>
      process_loop bt md deliverTx sched fuel iterations ps s = Some r \<longrightarrow>
      loop_done bt deliverTx stores reqs r"
    using Suc.IH by blast
  note round = process_round_inv [OF IH _ blk _ sch]
  show ?case
  proof (cases "allValidated (allTasks s)")
    case True
    with Suc.prems show ?thesis by (auto simp: loop_done_def)
  next
    case left: False
    show ?thesis
    proof (cases "iterations \<ge> maximumIterations")
      case False
      with left Suc.prems(4) have "process_round bt md deliverTx sched fuel iterations ps s = Some r" by simp
      with Suc.prems(1-3) show ?thesis by (rule round)
    next
      case True
      let ?s1 = "s\<lparr>synchronous := True\<rparr>"
      obtain st where st: "findFirstNonValidated ?s1 = Some st"
        using left findFirst_None [of ?s1] by (cases "findFirstNonValidated ?s1") (auto simp: allValidated_nth)
      have "set [st..<length (allTasks ?s1)] \<subseteq> {..<length reqs}"
        using inv_length [OF Suc.prems(1)] by auto
      moreover have "process_round bt md deliverTx sched fuel iterations [st..<length (allTasks ?s1)] ?s1 = Some r"
        using Suc.prems(4) left True st by (simp add: Let_def)
      moreover have "sched_inv bt deliverTx stores reqs ?s1" "prefix_valid bt ?s1" using Suc.prems(1,2) by simp_all
      ultimately show ?thesis using round [where s = ?s1] by blast
    qed
  qed
qed

end

subsection \<open>Running the block one transaction after the other\<close>

lemma block_index_pos:
  assumes "j \<in> snd ` set reqs"
  obtains q where "q < length reqs" and "j = snd (reqs ! q)"
proof -
  from assms obtain x where "x \<in> set reqs" "j = snd x" by blast
  then show thesis using that by (metis in_set_conv_nth)
qed

lemma block_gap:
  assumes "block_ok deliverTx stores reqs" and "p < length reqs"
    and "j \<in> snd ` set reqs" and "snd (reqs ! p) < j"
  shows "(if Suc p < length reqs then snd (reqs ! Suc p) else hi) \<le> j"
proof -
  obtain q where q: "q < length reqs" "j = snd (reqs ! q)" by (rule block_index_pos [OF assms(3)])
  then have "p < q" using assms(4) block_index_less_iff(1) [OF assms(1,2) q(1)] by simp
  then have "Suc p < length reqs" using q(1) by simp
  moreover have "snd (reqs ! Suc p) \<le> snd (reqs ! q)"
    using block_index_mono [OF assms(1) _ q(1), of "Suc p"] \<open>p < q\<close>
    by (cases "Suc p = q") (simp_all add: less_imp_le)
  ultimately show ?thesis using q(2) by simp
qed

fun run_block :: "('q \<Rightarrow> 'r prog) \<Rightarrow> 'q list \<Rightarrow> world \<Rightarrow> 'r list \<times> world" where
  "run_block deliverTx [] w = ([], w)"
| "run_block deliverTx (q # qs) w =
     (case run_serial (deliverTx q) w of
        (r, w1) \<Rightarrow> (case run_block deliverTx qs w1 of (rs, w2) \<Rightarrow> (r # rs, w2)))"

definition stores_world :: "(bytes, kvstore) gomap \<Rightarrow> world" where
  "stores_world stores sk = map_option kv_Get (gm_load stores sk)"

text \<open>What a transaction with index \<open>i\<close> sees.\<close>

definition world_at :: "'t btree \<Rightarrow> (bytes, 't mvstore) gomap \<Rightarrow> int \<Rightarrow> world" where
  "world_at bt mvss i sk = map_option (\<lambda>m. mv_view bt m i) (gm_load mvss sk)"

text \<open>A multi-version store after its versions have been written to its parent.\<close>

definition written :: "'t btree \<Rightarrow> 't mvstore \<Rightarrow> 't mvstore" where
  "written bt m = projr (mvs_WriteLatestToStore bt m)"

context btree_api
begin

text \<open>The base of a validated task's run is what it sees now.\<close>

lemma valid_reads_from:
  assumes ok: "stores_ok bt I mvss" and valid: "task_valid bt mvss i" and clean: "tx_clean st"
    and dom: "\<And>sk. gm_load (tx_stores st) sk \<noteq> None \<Longrightarrow> gm_load mvss sk \<noteq> None"
    and rec: "\<And>sk m. gm_load mvss sk = Some m \<Longrightarrow> \<exists>v. gm_load (tx_stores st) sk = Some v \<and> recorded bt i v m"
  shows "reads_from (\<lambda>sk k. case gm_load mvss sk of None \<Rightarrow> None | Some m \<Rightarrow> mv_view bt m i k) st"
  unfolding reads_from_def
proof (intro allI impI)
  fix sk vis k vs
  assume vis: "gm_load (tx_stores st) sk = Some vis" and vs: "gm_load (vis_readset vis) k = Some vs"
  obtain m where m: "gm_load mvss sk = Some m" using dom [of sk] vis by auto
  with rec [OF m] vis have "gm_load (txReadSets m) i = Some (vis_readset vis)"
    by (auto simp: recorded_def)
  moreover have "(k, vs) \<in> set (vis_readset vis)" using vs by (rule map_of_SomeD)
  ultimately have agree: "read_agrees bt m i (k, vs)" using valid m unfolding task_valid_def by blast
  have "mvs_nonempty bt m" using ok m by (simp add: stores_ok_def mvs_ok_def)
  moreover have "Some [] \<notin> set vs" using clean vis vs unfolding tx_clean_def vis_clean_def by blast
  ultimately show "vs = [case gm_load mvss sk of None \<Rightarrow> None | Some m \<Rightarrow> mv_view bt m i k]"
    using read_agrees_view [OF _ agree] m by simp
qed

lemma tx_world_fresh:
  assumes "bases mvss = stores"
  shows "tx_world (\<lambda>sk k. case gm_load mvss sk of None \<Rightarrow> None | Some m \<Rightarrow> mv_view bt m i k)
      \<lparr>tx_stores = fresh_stores stores i n, tx_abortCh = []\<rparr> = world_at bt mvss i"
proof
  fix sk
  show "tx_world (\<lambda>sk k. case gm_load mvss sk of None \<Rightarrow> None | Some m \<Rightarrow> mv_view bt m i k)
      \<lparr>tx_stores = fresh_stores stores i n, tx_abortCh = []\<rparr> sk = world_at bt mvss i sk"
    using gm_load_bases [of mvss sk] assms
    by (cases "gm_load mvss sk")
      (simp_all add: tx_world_def world_at_def gm_load_fresh NewVersionIndexedStore_def)
qed

text \<open>Its writes over what it sees are what the next transaction sees.\<close>

lemma tx_world_after:
  assumes ok: "stores_ok bt I mvss"
    and rec: "\<And>sk m. gm_load mvss sk = Some m \<Longrightarrow> \<exists>v. gm_load (tx_stores st) sk = Some v \<and> recorded bt i v m"
    and dom: "\<And>sk. gm_load (tx_stores st) sk = None \<longleftrightarrow> gm_load mvss sk = None"
    and hi: "i < hi" "\<And>j. j \<in> I \<Longrightarrow> i < j \<Longrightarrow> hi \<le> j"
  shows "tx_world (\<lambda>sk k. case gm_load mvss sk of None \<Rightarrow> None | Some m \<Rightarrow> mv_view bt m i k) st = world_at bt mvss hi"
    (is "tx_world ?base st = _")
proof
  fix sk
  show "tx_world ?base st sk = world_at bt mvss hi sk"
  proof (cases "gm_load mvss sk")
    case None
    with dom show ?thesis by (simp add: tx_world_def world_at_def)
  next
    case (Some m)
    with rec obtain v where v: "gm_load (tx_stores st) sk = Some v" "recorded bt i v m" by blast
    have "mv_at bt m k j = None" if "i < j" "j < hi" for k j
      using ok Some hi(2) [of j] that by (fastforce simp: stores_ok_def mvs_ok_def)
    then have "mv_view bt m hi k = (case gm_load (vis_writeset v) k of Some x \<Rightarrow> x | None \<Rightarrow> mv_view bt m i k)" for k
      using mv_view_step [OF hi(1), of m k] v(2)
      by (auto simp: recorded_def NewValueItem_def split: option.splits)
    with v(1) Some show ?thesis by (simp add: tx_world_def world_at_def fun_eq_iff cong: option.case_cong)
  qed
qed

text \<open>A validated task answers and writes as if run serially on what the tasks before it left.\<close>

lemma validated_task_serial:
  assumes inv: "sched_inv bt deliverTx stores reqs s" and blk: "block_ok deliverTx stores reqs"
    and p: "p < length reqs" and dn: "task_done (allTasks s ! p)"
    and valid: "task_valid bt (multiVersionStores s) (snd (reqs ! p))"
    and hi: "snd (reqs ! p) < hi" "\<And>j. j \<in> snd ` set reqs \<Longrightarrow> snd (reqs ! p) < j \<Longrightarrow> hi \<le> j"
  shows "\<exists>resp. dt_Response (allTasks s ! p) = Some resp \<and>
    run_serial (deliverTx (fst (reqs ! p))) (world_at bt (multiVersionStores s) (snd (reqs ! p))) =
      (resp, world_at bt (multiVersionStores s) hi)"
proof -
  let ?M = "multiVersionStores s" and ?i = "snd (reqs ! p)" and ?I = "snd ` set reqs"
  let ?base = "\<lambda>sk k. case gm_load ?M sk of None \<Rightarrow> None | Some m \<Rightarrow> mv_view bt m ?i k"
  let ?st0 = "\<lparr>tx_stores = fresh_stores stores ?i (dt_Incarnation (allTasks s ! p)), tx_abortCh = []\<rparr>"
  have ok: "stores_ok bt ?I ?M" and bases: "bases ?M = stores" using inv by (simp_all add: sched_inv_def)
  have "executed_ok bt deliverTx stores ?I ?M (allTasks s ! p)"
    using inv p inv_length [OF inv] dn by (simp add: sched_inv_def)
  then obtain env resp st where env: "env_ok bt ?I stores env"
    and run: "run_tx bt env (length stores) (deliverTx (fst (reqs ! p))) 0 ?st0 = (resp, st)"
    and quiet: "tx_abortCh st = []" and resp: "dt_Response (allTasks s ! p) = Some resp"
    and rec: "\<And>sk m. gm_load ?M sk = Some m \<Longrightarrow> \<exists>v. gm_load (tx_stores st) sk = Some v \<and> recorded bt ?i v m"
    unfolding executed_ok_def inv_nth [OF inv p] by blast
  have dom: "gm_load (tx_stores st) sk = None \<longleftrightarrow> gm_load ?M sk = None" for sk
    using run_from_fresh(1) [OF run, of sk] bases gm_load_bases [of ?M sk] by auto
  have "nonempty_writes (deliverTx (fst (reqs ! p)))" using blk p by (simp add: block_ok_def)
  then have clean: "tx_clean st"
    by (rule run_tx_clean [OF run _ tx_clean_fresh [OF blk]])
      (use env in \<open>auto simp: env_ok_def stores_ok_def mvs_ok_def simp del: map_of_eq_Some_iff\<close>)
  have reads: "reads_from ?base st" by (rule valid_reads_from [OF ok valid clean _ rec]) (simp add: dom)
  have "run_serial (deliverTx (fst (reqs ! p))) (tx_world ?base ?st0) = (resp, tx_world ?base st)"
  proof (rule run_tx_serial [OF run _ _ quiet reads])
    show "gm_load (env m) sk \<noteq> None" if "gm_load (tx_stores ?st0) sk \<noteq> None" for m sk
    proof -
      have "sk \<in> set (gm_keys stores)"
        using that gm_load_None_key [of stores sk] by (auto simp: gm_load_fresh)
      then have "sk \<in> set (gm_keys (env m))" using env by (auto simp: env_ok_def)
      then show ?thesis by (simp add: gm_load_None_key)
    qed
    show "0 < length stores" using blk by (simp add: block_ok_def)
  qed
  moreover have "tx_world ?base ?st0 = world_at bt ?M ?i" by (rule tx_world_fresh [OF bases])
  moreover have "tx_world ?base st = world_at bt ?M hi" by (rule tx_world_after [OF ok rec dom hi])
  ultimately show ?thesis using resp by simp
qed

text \<open>The whole block, from any position on.\<close>

lemma validated_block_serial:
  assumes inv: "sched_inv bt deliverTx stores reqs s" and blk: "block_ok deliverTx stores reqs"
    and pre: "prefix_valid bt s" and all: "allValidated (allTasks s)"
    and hi: "\<And>j. j \<in> snd ` set reqs \<Longrightarrow> j < hi"
  shows "p \<le> length reqs \<Longrightarrow> \<exists>rs. collectResponses (drop p (allTasks s)) = Inr rs \<and>
    run_block deliverTx (map fst (drop p reqs))
      (world_at bt (multiVersionStores s) (if p < length reqs then snd (reqs ! p) else hi)) =
    (rs, world_at bt (multiVersionStores s) hi)"
proof (induction "length reqs - p" arbitrary: p)
  case 0
  with inv_length [OF inv] show ?case by simp
next
  case (Suc d)
  then have p: "p < length reqs" by simp
  note len = inv_length [OF inv]
  have st: "dt_Status (allTasks s ! q) = statusValidated" if "q < length reqs" for q
    using all that len by (simp add: allValidated_nth)
  let ?nx = "if Suc p < length reqs then snd (reqs ! Suc p) else hi"
  have nxt: "snd (reqs ! p) < ?nx"
    using hi [of "snd (reqs ! p)"] p block_index_mono [OF blk, of p "Suc p"] by simp
  note gap = block_gap [OF blk p, of _ hi]
  have "task_valid bt (multiVersionStores s) (snd (reqs ! p))"
    using pre st p len by (simp add: prefix_valid_def inv_nth [OF inv])
  then obtain resp where resp: "dt_Response (allTasks s ! p) = Some resp"
    and run: "run_serial (deliverTx (fst (reqs ! p))) (world_at bt (multiVersionStores s) (snd (reqs ! p))) =
      (resp, world_at bt (multiVersionStores s) ?nx)"
    using validated_task_serial [OF inv blk p _ _ nxt gap] st [OF p] by (auto simp: task_done_def)
  have d: "d = length reqs - Suc p" using Suc.hyps(2) by simp
  obtain rs where rs: "collectResponses (drop (Suc p) (allTasks s)) = Inr rs"
    and rest: "run_block deliverTx (map fst (drop (Suc p) reqs)) (world_at bt (multiVersionStores s) ?nx) =
      (rs, world_at bt (multiVersionStores s) hi)"
    using Suc.hyps(1) [OF d] p by (metis Suc_leI)
  have "drop p (allTasks s) = allTasks s ! p # drop (Suc p) (allTasks s)"
    and "drop p reqs = reqs ! p # drop (Suc p) reqs"
    using p len by (simp_all add: Cons_nth_drop_Suc)
  with resp run rs rest p show ?case by simp
qed

lemma world_at_bottom:
  assumes "stores_ok bt I mvss" and "\<And>j. j \<in> I \<Longrightarrow> lo \<le> j"
  shows "world_at bt mvss lo = stores_world (bases mvss)"
proof
  fix sk
  show "world_at bt mvss lo sk = stores_world (bases mvss) sk"
  proof (cases "gm_load mvss sk")
    case None
    then show ?thesis by (simp add: world_at_def stores_world_def gm_load_bases)
  next
    case (Some m)
    have "mv_at bt m k j = None" if "j < lo" for k j
      using assms Some that by (fastforce simp: stores_ok_def mvs_ok_def)
    then have "mv_view bt m lo = kv_Get (parentStore m)" by (simp add: fun_eq_iff mv_view_parent)
    with Some show ?thesis by (simp add: world_at_def stores_world_def gm_load_bases)
  qed
qed

lemma written_parent:
  "mvs_WriteLatestToStore bt m = Inr (written bt m)" "kv_Get (parentStore (written bt m)) = latest_value bt m"
  using WriteLatestToStore_parent [of m] by (auto simp: written_def)

lemma write_back_written: "write_back bt mvs = Inr (map (\<lambda>(sk, mv). (sk, written bt mv)) mvs)"
  by (induction mvs) (auto simp: written_parent(1))

lemma world_at_top:
  assumes inv: "sched_inv bt deliverTx stores reqs s" and blk: "block_ok deliverTx stores reqs"
    and all: "allValidated (allTasks s)" and hi: "\<And>j. j \<in> snd ` set reqs \<Longrightarrow> j < hi"
  shows "stores_world (bases (map (\<lambda>(sk, mv). (sk, written bt mv)) (multiVersionStores s))) =
    world_at bt (multiVersionStores s) hi"
proof
  fix sk
  show "stores_world (bases (map (\<lambda>(sk, mv). (sk, written bt mv)) (multiVersionStores s))) sk =
    world_at bt (multiVersionStores s) hi sk"
  proof (cases "gm_load (multiVersionStores s) sk")
    case None
    then show ?thesis by (simp add: world_at_def stores_world_def gm_load_bases gm_load_map)
  next
    case (Some m)
    have "i < hi \<and> \<not> vi_IsEstimate x" if at: "mv_at bt m k i = Some x" for k i x
    proof -
      have "mvs_ok bt (snd ` set reqs) m" using inv Some by (simp add: sched_inv_def stores_ok_def)
      then have "i \<in> snd ` set reqs" using at by (auto simp: mvs_ok_def)
      then obtain q where q: "q < length reqs" "i = snd (reqs ! q)" by (auto simp: in_set_conv_nth)
      have len: "q < length (allTasks s)" using q inv_length [OF inv] by simp
      then have "task_done (allTasks s ! q)" using all by (simp add: allValidated_nth task_done_def)
      then have "executed_ok bt deliverTx stores (snd ` set reqs) (multiVersionStores s) (allTasks s ! q)"
        using inv len by (simp add: sched_inv_def)
      with executed_no_estimate [OF this Some] at q hi \<open>i \<in> snd ` set reqs\<close>
      show ?thesis by (simp add: inv_nth [OF inv])
    qed
    then have "kv_Get (parentStore (written bt m)) = mv_view bt m hi"
      by (simp add: fun_eq_iff written_parent(2) latest_value_view)
    with Some show ?thesis by (simp add: world_at_def stores_world_def gm_load_bases gm_load_map)
  qed
qed

end

subsection \<open>The loop ends\<close>

context btree_api
begin

lemma process_round_sync:
  assumes inv: "sched_inv bt deliverTx stores reqs s" and blk: "block_ok deliverTx stores reqs"
    and pre: "prefix_valid bt s" and sch: "\<forall>n. sched_ok bt (snd ` set reqs) stores (sched n)"
    and sync: "synchronous s" and first: "findFirstNonValidated s = Some st"
  shows "process_round bt md deliverTx sched fuel iterations [st..<length (allTasks s)] s \<noteq> None"
proof -
  let ?n = "length reqs"
  let ?s1 = "executeAll bt deliverTx (sched iterations) [st..<length (allTasks s)] s"
  note f = findFirst_Some [OF first]
  have len: "length (allTasks s) = ?n" by (rule inv_length [OF inv])
  have env: "env_ok bt (snd ` set reqs) stores (sch_env (sched iterations) p)" for p
    using sch by (simp add: sched_ok_def)
  have "sync_upto bt st s"
    using pre f len by (simp add: sync_upto_def prefix_valid_def task_done_def)
  from execute_fold_sync [OF blk env inv sync this] f(1) len sync
  have s1: "sched_inv bt deliverTx stores reqs ?s1" "synchronous ?s1" "sync_upto bt ?n ?s1"
    by (simp_all add: executeAll_def)
  have "\<exists>s2. validateAll bt md (sched iterations) ?s1 = Inr (s2, []) \<and> allValidated (allTasks s2)"
  proof (cases "findFirstNonValidated ?s1")
    case None
    then show ?thesis using findFirst_None [OF None] by (simp add: validateAll_def allValidated_nth)
  next
    case (Some st')
    have len1: "length (allTasks ?s1) = ?n" by (rule inv_length [OF s1(1)])
    have sub: "set [st'..<?n] \<subseteq> {..<?n}" by auto
    obtain s2 where s2: "validate_each bt md [st'..<?n] (?s1, []) = Inr (s2, [])"
      "sched_inv bt deliverTx stores reqs s2"
      "\<forall>q. q \<in> set [st'..<?n] \<or> dt_Status (allTasks ?s1 ! q) = statusValidated \<longrightarrow>
         dt_Status (allTasks s2 ! q) = statusValidated"
      using validate_each_accepts [OF blk s1(1,3) sub] by blast
    have "dt_Status (allTasks s2 ! q) = statusValidated" if "q < ?n" for q
      using s2(3) findFirst_Some(3) [OF Some, of q] that by (cases "q < st'") auto
    then have "allValidated (allTasks s2)" by (simp add: allValidated_nth inv_length [OF s2(2)])
    with s2(1) Some s1(2) len1 show ?thesis by (simp add: validateAll_def)
  qed
  then obtain s2 where "validateAll bt md (sched iterations) ?s1 = Inr (s2, [])" "allValidated (allTasks s2)"
    by blast
  then show ?thesis by (cases fuel) (simp_all add: Let_def)
qed

lemma process_loop_returns:
  assumes blk: "block_ok deliverTx stores reqs" and sch: "\<forall>n. sched_ok bt (snd ` set reqs) stores (sched n)"
  shows "sched_inv bt deliverTx stores reqs s \<Longrightarrow> prefix_valid bt s \<Longrightarrow> set ps \<subseteq> {..<length reqs} \<Longrightarrow>
    maximumIterations < fuel + iterations \<Longrightarrow> 0 < fuel \<Longrightarrow>
    process_loop bt md deliverTx sched fuel iterations ps s \<noteq> None"
proof (induction fuel arbitrary: iterations ps s)
  case 0
  then show ?case by simp
next
  case (Suc fuel)
  note sch1 = sch [rule_format, of iterations]
  show ?case
  proof (cases "allValidated (allTasks s)")
    case True
    then show ?thesis by simp
  next
    case left: False
    show ?thesis
    proof (cases "iterations \<ge> maximumIterations")
      case True
      let ?s1 = "s\<lparr>synchronous := True\<rparr>"
      obtain st where st: "findFirstNonValidated ?s1 = Some st"
        using left findFirst_None [of ?s1] by (cases "findFirstNonValidated ?s1") (auto simp: allValidated_nth)
      have "process_round bt md deliverTx sched fuel iterations [st..<length (allTasks ?s1)] ?s1 \<noteq> None"
        by (rule process_round_sync [OF _ blk _ sch _ st]) (use Suc.prems in simp_all)
      with left True st show ?thesis by (simp add: Let_def)
    next
      case False
      let ?s1 = "executeAll bt deliverTx (sched iterations) ps s"
      note ex = executeAll_inv [OF Suc.prems(1) blk Suc.prems(2) sch1 Suc.prems(3)]
      obtain s2 res where v: "validateAll bt md (sched iterations) ?s1 = Inr (s2, res)"
        and "sched_inv bt deliverTx stores reqs s2" "prefix_valid bt s2" "set res \<subseteq> {..<length reqs}"
        using validateAll_inv [OF ex(1) blk ex(2) sch1] by blast
      then have "process_loop bt md deliverTx sched fuel (Suc iterations) res
          (s2\<lparr>sched_retries := sched_retries s2 + length res\<rparr>) \<noteq> None"
        using Suc.prems(4) False by (intro Suc.IH) simp_all
      with left False v show ?thesis by (simp add: Let_def)
    qed
  qed
qed

end

subsection \<open>ProcessAll\<close>

lemma gm_keys_map: "gm_keys (map (\<lambda>(k, v). (k, f k v)) m) = gm_keys m"
  by (induction m) auto

definition initial_state ::
  "(bytes, kvstore) gomap \<Rightarrow> ('q \<times> int) list \<Rightarrow> ('q, 'r, 't) scheduler" where
  "initial_state stores reqs =
     (tryInitMultiVersionStore stores NewScheduler)\<lparr>allTasks := toTasks reqs, conflictKeyCounts := []\<rparr>"

lemma initial_fields [simp]:
  "allTasks (initial_state stores reqs) = toTasks reqs"
  "multiVersionStores (initial_state stores reqs) = map (\<lambda>(sk, kv). (sk, NewMultiVersionStore kv)) stores"
  by (simp_all add: initial_state_def tryInitMultiVersionStore_def NewScheduler_def)

lemma length_toTasks [simp]: "length (toTasks reqs) = length reqs"
  by (simp add: toTasks_def)

lemma toTasks_requests: "map (\<lambda>t. (dt_Request t, dt_AbsoluteIndex t)) (toTasks reqs) = reqs"
  by (simp add: toTasks_def split_beta comp_def)

lemma toTasks_fresh: "t \<in> set (toTasks reqs) \<Longrightarrow> dt_Dependencies t = [] \<and> \<not> task_done t"
  by (auto simp: toTasks_def task_done_def)

lemma ProcessAll_initial:
  "ProcessAll bt md deliverTx sched fuel stores reqs NewScheduler =
     (case process_loop bt md deliverTx sched fuel 0 [0..<length reqs] (initial_state stores reqs) of
        None \<Rightarrow> None
      | Some (Inl e) \<Rightarrow> Some (Inl e)
      | Some (Inr s1) \<Rightarrow>
          (case write_back bt (multiVersionStores s1) of
             Inl e \<Rightarrow> Some (Inl e)
           | Inr mvs \<Rightarrow>
               let s2 = s1\<lparr>multiVersionStores := mvs\<rparr>
               in (case collectResponses (allTasks s2) of
                     Inl e \<Rightarrow> Some (Inl e)
                   | Inr rs \<Rightarrow> Some (Inr (rs, s2)))))"
  by (simp add: ProcessAll_def initial_state_def [symmetric] Let_def)

lemma initial_prefix: "prefix_valid bt (initial_state stores reqs)"
  by (auto simp: prefix_valid_def toTasks_def split_beta)

context btree_api
begin

lemma stores_ok_new:
  assumes "\<And>sk kv k. gm_load stores sk = Some kv \<Longrightarrow> kv_Get kv k \<noteq> Some []"
  shows "stores_ok bt I (map (\<lambda>(sk, kv). (sk, NewMultiVersionStore kv)) stores)"
proof -
  have none: "mv_at bt (NewMultiVersionStore kv) k i = None" for kv k i
    by (simp add: mv_at_def NewMultiVersionStore_def)
  have parent: "parentStore (NewMultiVersionStore kv :: 't mvstore) = kv" for kv
    by (simp add: NewMultiVersionStore_def)
  show ?thesis
    using assms by (auto simp: stores_ok_def gm_load_map mvs_ok_def keys_recorded_New mvs_nonempty_def none
        parent simp del: map_of_eq_Some_iff)
qed

lemma initial_inv:
  assumes "block_ok deliverTx stores reqs"
  shows "sched_inv bt deliverTx stores reqs (initial_state stores reqs)"
proof -
  have parent: "parentStore (NewMultiVersionStore kv :: 't mvstore) = kv" for kv
    by (simp add: NewMultiVersionStore_def)
  have "bases (map (\<lambda>(sk, kv). (sk, NewMultiVersionStore kv :: 't mvstore)) stores) = stores"
    by (induction stores) (auto simp: bases_def parent)
  moreover have "stores_ok bt (snd ` set reqs) (map (\<lambda>(sk, kv). (sk, NewMultiVersionStore kv)) stores)"
    by (rule stores_ok_new) (use assms in \<open>simp add: block_ok_def\<close>)
  ultimately show ?thesis by (simp add: sched_inv_def toTasks_requests toTasks_fresh)
qed

text \<open>Whatever the schedule: if the loop returns, the responses and the stores are the serial ones.\<close>

lemma ProcessAll_result:
  assumes blk: "block_ok deliverTx stores reqs" and sch: "\<forall>n. sched_ok bt (snd ` set reqs) stores (sched n)"
    and run: "ProcessAll bt md deliverTx sched fuel stores reqs NewScheduler = Some r"
  shows "\<exists>rs s'. r = Inr (rs, s') \<and>
    run_block deliverTx (map fst reqs) (stores_world stores) = (rs, stores_world (bases (multiVersionStores s')))"
proof -
  let ?s0 = "initial_state stores reqs"
  have ps: "set [0..<length reqs] \<subseteq> {..<length reqs}" by auto
  obtain l where l: "process_loop bt md deliverTx sched fuel 0 [0..<length reqs] ?s0 = Some l"
    using run by (auto simp: ProcessAll_initial split: option.splits)
  obtain s where ls: "l = Inr s" and inv: "sched_inv bt deliverTx stores reqs s"
    and pre: "prefix_valid bt s" and all: "allValidated (allTasks s)"
    using process_loop_inv [OF blk sch initial_inv [OF blk] initial_prefix ps l] by (auto simp: loop_done_def)
  define hi where "hi = Max (insert 0 (snd ` set reqs)) + 1"
  have hi: "j < hi" if "j \<in> snd ` set reqs" for j
    using that by (simp add: hi_def less_Suc_eq_le Max_ge add1_zle_eq [symmetric])
  let ?lo = "if 0 < length reqs then snd (reqs ! 0) else hi"
  have "?lo \<le> j" if j: "j \<in> snd ` set reqs" for j
  proof -
    obtain q where q: "q < length reqs" "j = snd (reqs ! q)" by (rule block_index_pos [OF j])
    then show ?thesis using block_index_mono [OF blk _ q(1), of 0] by (cases "q = 0") (auto simp: less_imp_le)
  qed
  then have bottom: "world_at bt (multiVersionStores s) ?lo = stores_world stores"
    using world_at_bottom [of "snd ` set reqs" "multiVersionStores s"] inv by (simp add: sched_inv_def)
  obtain rs where rs: "collectResponses (allTasks s) = Inr rs"
    and blkrun: "run_block deliverTx (map fst reqs) (world_at bt (multiVersionStores s) ?lo) =
      (rs, world_at bt (multiVersionStores s) hi)"
    using validated_block_serial [OF inv blk pre all hi, of 0] by auto
  let ?s' = "s\<lparr>multiVersionStores := map (\<lambda>(sk, mv). (sk, written bt mv)) (multiVersionStores s)\<rparr>"
  have "r = Inr (rs, ?s')"
    using run l ls rs by (simp add: ProcessAll_initial write_back_written Let_def)
  with blkrun bottom world_at_top [OF inv blk all hi] show ?thesis by simp
qed

lemma ProcessAll_ends:
  assumes blk: "block_ok deliverTx stores reqs" and sch: "\<forall>n. sched_ok bt (snd ` set reqs) stores (sched n)"
    and fuel: "maximumIterations < fuel"
  shows "ProcessAll bt md deliverTx sched fuel stores reqs NewScheduler \<noteq> None"
proof -
  let ?s0 = "initial_state stores reqs"
  have ps: "set [0..<length reqs] \<subseteq> {..<length reqs}" by auto
  have "process_loop bt md deliverTx sched fuel 0 [0..<length reqs] ?s0 \<noteq> None"
    by (rule process_loop_returns [OF blk sch initial_inv [OF blk] initial_prefix ps]) (use fuel in simp_all)
  then show ?thesis
    by (auto simp: ProcessAll_initial write_back_written Let_def split: option.splits sum.splits)
qed

end

end
