(* ===== verification/SdkInt.thy ===== *)
theory SdkInt
  imports Sei_Prelude "HOL-Library.Signed_Division"
begin

text \<open>
  Bounded big integers: \<open>src/sei-cosmos/types/int.go\<close>.

  An \<open>Int\<close> wraps a \<open>big.Int\<close> and panics when a result needs more than \<open>maxBitLen\<close> bits; it is an
  \<open>int\<close> here, and an operation that can panic returns a sum. The uninitialised \<open>Int\<close> (a \<open>nil\<close>
  pointer) is not represented.
\<close>

datatype sdk_panic =
    IntOverflow
  | OutOfBound
  | DivisionByZero
  | DecOutOfRange
  | TooMuchPrecision
  | NegativeDecimal
  | DenomMismatch string string
  | NegativeCoinAmount
  | NegativeAmount
  | NotSorted
  | InvalidDenom string
  | NotPositive string
  | DuplicateDenom string
  | UnsortedDenom string

subsection \<open>The length of a number in bits\<close>

fun nat_bits :: "nat \<Rightarrow> nat" where
  "nat_bits n = (if n = 0 then 0 else Suc (nat_bits (n div 2)))"

declare nat_bits.simps [simp del]

definition BitLen :: "int \<Rightarrow> nat" where
  "BitLen i = nat_bits (nat \<bar>i\<bar>)"

lemma nat_bits_le_iff: "nat_bits n \<le> k \<longleftrightarrow> n < 2 ^ k"
proof (induction n arbitrary: k rule: nat_bits.induct)
  case (1 n)
  show ?case
  proof (cases "n = 0 \<or> k = 0")
    case True
    then show ?thesis by (cases "n = 0") (simp_all add: nat_bits.simps [of 0] nat_bits.simps [of n])
  next
    case False
    then obtain k' where k: "k = Suc k'" by (cases k) auto
    have "nat_bits n \<le> k \<longleftrightarrow> nat_bits (n div 2) \<le> k'"
      using False by (simp add: nat_bits.simps [of n] k)
    also have "\<dots> \<longleftrightarrow> n div 2 < 2 ^ k'" using 1 False by simp
    also have "\<dots> \<longleftrightarrow> n < 2 ^ k" by (auto simp: k)
    finally show ?thesis .
  qed
qed

lemma BitLen_le_iff: "BitLen i \<le> k \<longleftrightarrow> \<bar>i\<bar> < 2 ^ k"
proof -
  have "nat \<bar>i\<bar> < 2 ^ k \<longleftrightarrow> \<bar>i\<bar> < 2 ^ k" by (simp add: nat_less_iff)
  then show ?thesis by (simp add: BitLen_def nat_bits_le_iff)
qed

lemma BitLen_minus [simp]: "BitLen (- i) = BitLen i"
  by (simp add: BitLen_def)

lemma BitLen_0 [simp]: "BitLen 0 = 0"
  by (simp add: BitLen_def nat_bits.simps [of 0])

lemma BitLen_lower:
  assumes "i \<noteq> 0"
  shows "2 ^ (BitLen i - 1) \<le> \<bar>i\<bar>" and "0 < BitLen i"
proof -
  have "\<not> BitLen i \<le> 0" using assms unfolding BitLen_le_iff by auto
  then show pos: "0 < BitLen i" by simp
  then have "\<not> BitLen i \<le> BitLen i - 1" by simp
  then show "2 ^ (BitLen i - 1) \<le> \<bar>i\<bar>" unfolding BitLen_le_iff by simp
qed

subsection \<open>Operations\<close>

definition maxBitLen :: nat where
  "maxBitLen = 256"

definition int_in_range :: "int \<Rightarrow> bool" where
  "int_in_range i \<longleftrightarrow> BitLen i \<le> maxBitLen"

definition NewIntFromBigInt :: "int \<Rightarrow> sdk_panic + int" where
  "NewIntFromBigInt i = (if BitLen i > maxBitLen then Inl OutOfBound else Inr i)"

definition NewIntWithDecimal :: "int \<Rightarrow> int \<Rightarrow> sdk_panic + int" where
  "NewIntWithDecimal n dec =
     (if dec < 0 then Inl NegativeDecimal
      else let i = n * 10 ^ nat dec
           in if BitLen i > maxBitLen then Inl OutOfBound else Inr i)"

definition Int_IsInt64 :: "int \<Rightarrow> bool" where
  "Int_IsInt64 i \<longleftrightarrow> - (2 ^ 63) \<le> i \<and> i < 2 ^ 63"

definition Int_Int64 :: "int \<Rightarrow> sdk_panic + int" where
  "Int_Int64 i = (if \<not> Int_IsInt64 i then Inl OutOfBound else Inr i)"

definition Int_IsUint64 :: "int \<Rightarrow> bool" where
  "Int_IsUint64 i \<longleftrightarrow> 0 \<le> i \<and> i < 2 ^ 64"

definition Int_Uint64 :: "int \<Rightarrow> sdk_panic + int" where
  "Int_Uint64 i = (if \<not> Int_IsUint64 i then Inl OutOfBound else Inr i)"

definition Int_Add :: "int \<Rightarrow> int \<Rightarrow> sdk_panic + int" where
  "Int_Add i i2 = (let res = i + i2 in if BitLen res > maxBitLen then Inl IntOverflow else Inr res)"

definition Int_Sub :: "int \<Rightarrow> int \<Rightarrow> sdk_panic + int" where
  "Int_Sub i i2 = (let res = i - i2 in if BitLen res > maxBitLen then Inl IntOverflow else Inr res)"

definition Int_Mul :: "int \<Rightarrow> int \<Rightarrow> sdk_panic + int" where
  "Int_Mul i i2 =
     (if int (BitLen i) + int (BitLen i2) - 1 > int maxBitLen then Inl IntOverflow
      else let res = i * i2
           in if BitLen res > maxBitLen then Inl IntOverflow else Inr res)"

text \<open>\<open>Quo\<close> of \<open>big.Int\<close> truncates towards zero; \<open>Mod\<close> is Euclidean.\<close>

definition Int_Quo :: "int \<Rightarrow> int \<Rightarrow> sdk_panic + int" where
  "Int_Quo i i2 = (if i2 = 0 then Inl DivisionByZero else Inr (i sdiv i2))"

definition Int_Mod :: "int \<Rightarrow> int \<Rightarrow> sdk_panic + int" where
  "Int_Mod i i2 = (if i2 = 0 then Inl DivisionByZero else Inr (i mod \<bar>i2\<bar>))"

definition Int_Neg :: "int \<Rightarrow> int" where
  "Int_Neg i = - i"

definition Int_Abs :: "int \<Rightarrow> int" where
  "Int_Abs i = \<bar>i\<bar>"

definition MinInt :: "int \<Rightarrow> int \<Rightarrow> int" where
  "MinInt i i2 = (if i > i2 then i2 else i)"

definition MaxInt :: "int \<Rightarrow> int \<Rightarrow> int" where
  "MaxInt i i2 = (if i < i2 then i2 else i)"

subsection \<open>Range\<close>

lemma int_in_range_iff: "int_in_range i \<longleftrightarrow> \<bar>i\<bar> < 2 ^ 256"
  by (simp add: int_in_range_def maxBitLen_def BitLen_le_iff)

lemma int_in_range_abs: "int_in_range i \<longleftrightarrow> \<bar>i\<bar> < 2 ^ maxBitLen"
  by (simp add: int_in_range_def BitLen_le_iff)

lemma int_in_range_mono: "\<bar>a\<bar> \<le> \<bar>b\<bar> \<Longrightarrow> int_in_range b \<Longrightarrow> int_in_range a"
  by (simp add: int_in_range_abs)

lemma Int_Add_iff: "Int_Add a b = (if int_in_range (a + b) then Inr (a + b) else Inl IntOverflow)"
  by (auto simp: Int_Add_def int_in_range_def Let_def)

lemma Int_Sub_iff: "Int_Sub a b = (if int_in_range (a - b) then Inr (a - b) else Inl IntOverflow)"
  by (auto simp: Int_Sub_def int_in_range_def Let_def)

text \<open>The test of \<open>Mul\<close> on the operands never refuses a product that fits.\<close>

lemma BitLen_mult_lower:
  assumes "a \<noteq> 0" and "b \<noteq> 0"
  shows "BitLen a + BitLen b - 1 \<le> BitLen (a * b)"
proof -
  have "2 ^ (BitLen a - 1) * 2 ^ (BitLen b - 1) \<le> \<bar>a\<bar> * \<bar>b\<bar>"
    by (intro mult_mono BitLen_lower assms) auto
  then have "2 ^ (BitLen a - 1 + (BitLen b - 1)) \<le> \<bar>a * b\<bar>"
    by (simp add: power_add abs_mult)
  then have "\<not> BitLen (a * b) \<le> BitLen a - 1 + (BitLen b - 1)"
    unfolding BitLen_le_iff by simp
  with BitLen_lower(2) [OF assms(1)] BitLen_lower(2) [OF assms(2)] show ?thesis by linarith
qed

lemma Int_Mul_iff:
  assumes "int_in_range a" and "int_in_range b"
  shows "Int_Mul a b = (if int_in_range (a * b) then Inr (a * b) else Inl IntOverflow)"
proof (cases "a = 0 \<or> b = 0")
  case True
  then have "\<not> int (BitLen a) + int (BitLen b) - 1 > int maxBitLen"
    using assms by (auto simp: int_in_range_def)
  then show ?thesis by (auto simp: Int_Mul_def int_in_range_def Let_def)
next
  case False
  then have "BitLen a + BitLen b - 1 \<le> BitLen (a * b)" "0 < BitLen a"
    using BitLen_mult_lower BitLen_lower(2) by auto
  then have "int (BitLen a) + int (BitLen b) - 1 > int maxBitLen \<Longrightarrow> \<not> int_in_range (a * b)"
    unfolding int_in_range_def by linarith
  then show ?thesis by (auto simp: Int_Mul_def int_in_range_def Let_def)
qed

lemma abs_sdiv_le: "\<bar>(a :: int) sdiv b\<bar> \<le> \<bar>a\<bar>"
  using sdiv_int_range [of a b] by (simp add: abs_le_iff)

lemma Int_Quo_in_range: "int_in_range a \<Longrightarrow> Int_Quo a b = Inr c \<Longrightarrow> int_in_range c"
  using int_in_range_mono [OF abs_sdiv_le [of a b]] by (auto simp: Int_Quo_def split: if_splits)

lemma abs_mod_le: "\<bar>(a :: int) mod \<bar>b\<bar>\<bar> \<le> \<bar>b\<bar>" if "b \<noteq> 0"
  using pos_mod_bound [of "\<bar>b\<bar>" a] pos_mod_sign [of "\<bar>b\<bar>" a] that by (simp add: less_imp_le)

lemma Int_Mod_in_range: "int_in_range b \<Longrightarrow> Int_Mod a b = Inr c \<Longrightarrow> int_in_range c"
  using int_in_range_mono [OF abs_mod_le [of b a]] by (auto simp: Int_Mod_def split: if_splits)

lemma abs_smod_less: "b \<noteq> 0 \<Longrightarrow> \<bar>(a :: int) smod b\<bar> < \<bar>b\<bar>"
  by (simp add: signed_modulo_int_def abs_mult)

subsection \<open>Properties\<close>

text \<open>C29. On numbers of at most 256 bits the arithmetic of \<open>Int\<close> is exact or panics: addition,
  subtraction and multiplication return the mathematical result exactly when it fits in 256
  bits, so the early test of \<open>Mul\<close> on the operand lengths refuses no product that fits; quotient
  and modulus refuse only a zero divisor and stay in range.\<close>

theorem Int_arithmetic_exact:
  assumes "int_in_range a" and "int_in_range b"
  shows "Int_Add a b = (if \<bar>a + b\<bar> < 2 ^ 256 then Inr (a + b) else Inl IntOverflow) \<and>
    Int_Sub a b = (if \<bar>a - b\<bar> < 2 ^ 256 then Inr (a - b) else Inl IntOverflow) \<and>
    Int_Mul a b = (if \<bar>a * b\<bar> < 2 ^ 256 then Inr (a * b) else Inl IntOverflow) \<and>
    (case Int_Quo a b of Inl e \<Rightarrow> b = 0 | Inr q \<Rightarrow> int_in_range q \<and> \<bar>a - q * b\<bar> < \<bar>b\<bar>) \<and>
    (case Int_Mod a b of Inl e \<Rightarrow> b = 0 | Inr r \<Rightarrow> int_in_range r \<and> 0 \<le> r \<and> b dvd (a - r))"
proof (intro conjI)
  show "Int_Add a b = (if \<bar>a + b\<bar> < 2 ^ 256 then Inr (a + b) else Inl IntOverflow)"
    by (simp add: Int_Add_iff int_in_range_iff)
  show "Int_Sub a b = (if \<bar>a - b\<bar> < 2 ^ 256 then Inr (a - b) else Inl IntOverflow)"
    by (simp add: Int_Sub_iff int_in_range_iff)
  show "Int_Mul a b = (if \<bar>a * b\<bar> < 2 ^ 256 then Inr (a * b) else Inl IntOverflow)"
    using Int_Mul_iff [OF assms] by (simp add: int_in_range_iff)
  show "case Int_Quo a b of Inl e \<Rightarrow> b = 0 | Inr q \<Rightarrow> int_in_range q \<and> \<bar>a - q * b\<bar> < \<bar>b\<bar>"
    using Int_Quo_in_range [OF assms(1), of b] abs_smod_less [of b a]
    by (simp add: Int_Quo_def minus_sdiv_mult_eq_smod)
  have "b dvd a - a mod \<bar>b\<bar>" by (metis abs_dvd_iff dvd_minus_mod)
  then show "case Int_Mod a b of Inl e \<Rightarrow> b = 0 | Inr r \<Rightarrow> int_in_range r \<and> 0 \<le> r \<and> b dvd (a - r)"
    using Int_Mod_in_range [OF assms(2), of a] by (simp add: Int_Mod_def)
qed

theorem Int_arithmetic_exact_witness:
  "Int_Mul (2 ^ 128) (2 ^ 127) = Inr (2 ^ 255) \<and> Int_Mul (2 ^ 128) (2 ^ 128) = Inl IntOverflow"
proof -
  have range: "int_in_range (2 ^ 128)" "int_in_range (2 ^ 127)"
    by (simp_all add: int_in_range_iff)
  show ?thesis
    using Int_arithmetic_exact [OF range, THEN conjunct2, THEN conjunct2, THEN conjunct1]
      Int_arithmetic_exact [OF range(1,1), THEN conjunct2, THEN conjunct2, THEN conjunct1]
    by simp
qed

end
