(* ===== verification/DigitText.thy ===== *)
theory DigitText
  imports Sei_Prelude
begin

text \<open>
  Decimal text of numbers, as the standard library's \<open>big.Int\<close> prints and parses it, and
  \<open>strings.Split\<close> on a separator character.
\<close>

subsection \<open>Digits\<close>

definition digit_char :: "nat \<Rightarrow> char" where
  "digit_char n = char_of (48 + n)"

definition digit_val :: "char \<Rightarrow> nat" where
  "digit_val c = of_char c - 48"

definition is_digit :: "char \<Rightarrow> bool" where
  "is_digit c \<longleftrightarrow> (48 :: nat) \<le> of_char c \<and> of_char c \<le> (57 :: nat)"

lemma of_digit_char: "n < 10 \<Longrightarrow> of_char (digit_char n) = 48 + n"
  by (simp add: digit_char_def)

lemma digit_val_char [simp]: "n < 10 \<Longrightarrow> digit_val (digit_char n) = n"
  by (simp add: digit_val_def of_digit_char)

lemma is_digit_char [simp]: "n < 10 \<Longrightarrow> is_digit (digit_char n)"
  by (simp add: is_digit_def of_digit_char)

lemma digit_char_less: "m < 10 \<Longrightarrow> n < 10 \<Longrightarrow> digit_char m < digit_char n \<longleftrightarrow> m < n"
  by (simp add: less_char_def of_digit_char)

lemma digit_char_0: "digit_char 0 = CHR ''0''"
  by code_simp

lemma digit_not_sign: "is_digit c \<Longrightarrow> c \<noteq> CHR ''-'' \<and> c \<noteq> CHR ''+'' \<and> c \<noteq> CHR ''.''"
  by (auto simp: is_digit_def)

subsection \<open>Printing and parsing\<close>

fun nat_text :: "nat \<Rightarrow> string" where
  "nat_text n = (if n < 10 then [digit_char n] else nat_text (n div 10) @ [digit_char (n mod 10)])"

declare nat_text.simps [simp del]

definition digits_value :: "string \<Rightarrow> nat" where
  "digits_value s = foldl (\<lambda>acc c. acc * 10 + digit_val c) 0 s"

text \<open>\<open>SetString\<close> with base 10: an optional sign and at least one digit.\<close>

definition unsigned_value :: "string \<Rightarrow> int option" where
  "unsigned_value s = (if s \<noteq> [] \<and> list_all is_digit s then Some (int (digits_value s)) else None)"

definition big_SetString :: "string \<Rightarrow> int option" where
  "big_SetString s =
     (case s of
        [] \<Rightarrow> None
      | c # r \<Rightarrow>
          if c = CHR ''-'' then map_option uminus (unsigned_value r)
          else if c = CHR ''+'' then unsigned_value r
          else unsigned_value s)"

definition big_text :: "int \<Rightarrow> string" where
  "big_text i = (if i < 0 then CHR ''-'' # nat_text (nat (- i)) else nat_text (nat i))"

text \<open>\<open>SetString\<close> with base 0 and \<open>UnmarshalText\<close>: a prefix \<open>0b\<close>, \<open>0o\<close>, \<open>0x\<close> or \<open>0\<close> chooses the base, and
  underscores may separate digits.\<close>

datatype scan_prev = PrevOther | PrevDigit | PrevSep

definition scan_digit :: "char \<Rightarrow> nat" where
  "scan_digit c =
     (let n = of_char c in
      if 48 \<le> n \<and> n \<le> 57 then n - 48
      else if 97 \<le> n \<and> n \<le> 122 then n - 97 + 10
      else if 65 \<le> n \<and> n \<le> 90 then n - 65 + 10
      else 63)"

fun scan_digits :: "nat \<Rightarrow> scan_prev \<Rightarrow> bool \<Rightarrow> nat \<Rightarrow> nat \<Rightarrow> string \<Rightarrow> (scan_prev \<times> bool \<times> nat \<times> nat) option" where
  "scan_digits b prev invalSep cnt acc [] = Some (prev, invalSep, cnt, acc)"
| "scan_digits b prev invalSep cnt acc (c # cs) =
     (if c = CHR ''_'' then scan_digits b PrevSep (invalSep \<or> prev \<noteq> PrevDigit) cnt acc cs
      else if scan_digit c \<ge> b then None
      else scan_digits b PrevDigit invalSep (Suc cnt) (acc * b + scan_digit c) cs)"

definition scan_result :: "bool \<Rightarrow> (scan_prev \<times> bool \<times> nat \<times> nat) option \<Rightarrow> nat option" where
  "scan_result octal r =
     (case r of
        None \<Rightarrow> None
      | Some (prev, invalSep, cnt, acc) \<Rightarrow>
          if invalSep \<or> prev = PrevSep then None
          else if cnt = 0 then (if octal then Some 0 else None)
          else Some acc)"

definition nat_scan :: "string \<Rightarrow> nat option" where
  "nat_scan s =
     (case s of
        [] \<Rightarrow> None
      | c # r \<Rightarrow>
          if c \<noteq> CHR ''0'' then scan_result False (scan_digits 10 PrevOther False 0 0 s)
          else case r of
              [] \<Rightarrow> Some 0
            | p # q \<Rightarrow>
                if p = CHR ''b'' \<or> p = CHR ''B'' then scan_result False (scan_digits 2 PrevDigit False 0 0 q)
                else if p = CHR ''o'' \<or> p = CHR ''O'' then scan_result False (scan_digits 8 PrevDigit False 0 0 q)
                else if p = CHR ''x'' \<or> p = CHR ''X'' then scan_result False (scan_digits 16 PrevDigit False 0 0 q)
                else scan_result True (scan_digits 8 PrevDigit False 0 0 r))"

definition big_SetString0 :: "string \<Rightarrow> int option" where
  "big_SetString0 s =
     (case s of
        [] \<Rightarrow> None
      | c # r \<Rightarrow>
          if c = CHR ''-'' then map_option (\<lambda>n. - int n) (nat_scan r)
          else if c = CHR ''+'' then map_option int (nat_scan r)
          else map_option int (nat_scan s))"

lemma digits_value_snoc: "digits_value (s @ [c]) = digits_value s * 10 + digit_val c"
  by (simp add: digits_value_def)

lemma nat_text_not_Nil [simp]: "nat_text n \<noteq> []"
  by (simp add: nat_text.simps [of n])

lemma nat_text_digits: "list_all is_digit (nat_text n)"
proof (induction n rule: nat_text.induct)
  case (1 n)
  then show ?case by (cases "n < 10") (simp_all add: nat_text.simps [of n])
qed

lemma nat_text_value: "digits_value (nat_text n) = n"
proof (induction n rule: nat_text.induct)
  case (1 n)
  show ?case
  proof (cases "n < 10")
    case True
    then show ?thesis by (simp add: nat_text.simps [of n] digits_value_def)
  next
    case False
    with 1 show ?thesis by (simp add: nat_text.simps [of n] digits_value_snoc)
  qed
qed

lemma nat_text_length: "0 < k \<Longrightarrow> n < 10 ^ k \<Longrightarrow> length (nat_text n) \<le> k"
proof (induction n arbitrary: k rule: nat_text.induct)
  case (1 n)
  show ?case
  proof (cases "n < 10")
    case True
    with 1 show ?thesis by (simp add: nat_text.simps [of n])
  next
    case False
    then obtain k' where k: "k = Suc k'" "0 < k'"
      using 1 by (cases k; cases "k - 1") auto
    have "n div 10 < 10 ^ k'" using 1 k by (simp add: div_less_iff_less_mult mult.commute)
    with 1 False k show ?thesis by (simp add: nat_text.simps [of n])
  qed
qed

lemma unsigned_value_nat_text: "unsigned_value (nat_text n) = Some (int n)"
  by (simp add: unsigned_value_def nat_text_digits nat_text_value)

lemma SetString_unsigned:
  assumes "s \<noteq> []" and "list_all is_digit s"
  shows "big_SetString s = Some (int (digits_value s))"
  using assms digit_not_sign by (cases s) (auto simp: big_SetString_def unsigned_value_def)

lemma SetString_big_text: "big_SetString (big_text i) = Some i"
proof (cases "i < 0")
  case True
  then show ?thesis by (simp add: big_text_def big_SetString_def unsigned_value_nat_text)
next
  case False
  then show ?thesis by (simp add: big_text_def SetString_unsigned nat_text_digits nat_text_value)
qed

lemma scan_digit_digit: "is_digit c \<Longrightarrow> scan_digit c = digit_val c \<and> digit_val c < 10 \<and> c \<noteq> CHR ''_''"
  by (auto simp: scan_digit_def is_digit_def digit_val_def Let_def)

lemma scan_digits_decimal:
  "list_all is_digit s \<Longrightarrow>
    scan_digits 10 prev False cnt acc s =
      Some (if s = [] then prev else PrevDigit, False, cnt + length s, foldl (\<lambda>acc c. acc * 10 + digit_val c) acc s)"
  by (induction s arbitrary: prev cnt acc) (auto dest: scan_digit_digit)

lemma nat_text_leading: "0 < n \<Longrightarrow> hd (nat_text n) \<noteq> CHR ''0''"
proof (induction n rule: nat_text.induct)
  case (1 n)
  show ?case
  proof (cases "n < 10")
    case True
    then have "of_char (digit_char n) \<noteq> (of_char (CHR ''0'') :: nat)"
      using 1 by (simp add: of_digit_char)
    with True show ?thesis by (auto simp: nat_text.simps [of n])
  next
    case False
    with 1 show ?thesis by (simp add: nat_text.simps [of n])
  qed
qed

lemma nat_scan_text: "nat_scan (nat_text n) = Some n"
proof (cases "n = 0")
  case True
  then show ?thesis by (simp add: nat_text.simps [of 0] nat_scan_def digit_char_0)
next
  case False
  then obtain c r where t: "nat_text n = c # r" "c \<noteq> CHR ''0''"
    using nat_text_leading [of n] by (cases "nat_text n") auto
  have "scan_digits 10 PrevOther False 0 0 (nat_text n) = Some (PrevDigit, False, length (nat_text n), n)"
    using nat_text_value [of n] by (simp add: scan_digits_decimal nat_text_digits digits_value_def)
  with t show ?thesis by (simp add: nat_scan_def scan_result_def)
qed

lemma SetString0_big_text: "big_SetString0 (big_text i) = Some i"
proof (cases "i < 0")
  case True
  then show ?thesis by (simp add: big_text_def big_SetString0_def nat_scan_text)
next
  case False
  obtain c r where t: "nat_text (nat i) = c # r" by (cases "nat_text (nat i)") auto
  then have "is_digit c" using nat_text_digits [of "nat i"] by simp
  with False t digit_not_sign [of c] nat_scan_text [of "nat i"] show ?thesis
    by (simp add: big_text_def big_SetString0_def)
qed

lemma digits_value_append:
  "digits_value (s @ t) = digits_value s * 10 ^ length t + digits_value t"
proof (induction t rule: rev_induct)
  case Nil
  then show ?case by (simp add: digits_value_def)
next
  case (snoc c t)
  then show ?case
    by (simp add: digits_value_snoc append_assoc [symmetric] algebra_simps del: append_assoc)
qed

lemma digits_value_zeros [simp]: "digits_value (replicate n (CHR ''0'')) = 0"
proof (induction n)
  case 0
  then show ?case by (simp add: digits_value_def)
next
  case (Suc n)
  have "replicate (Suc n) (CHR ''0'') = replicate n (CHR ''0'') @ [CHR ''0'']"
    by (simp add: replicate_append_same)
  with Suc show ?case by (simp add: digits_value_snoc digit_val_def del: replicate.simps)
qed

lemma zeros_digits [simp]: "list_all is_digit (replicate n (CHR ''0''))"
  by (auto simp: list_all_iff is_digit_def)

subsection \<open>Fixed width\<close>

fun fixed_text :: "nat \<Rightarrow> nat \<Rightarrow> string" where
  "fixed_text 0 n = []"
| "fixed_text (Suc k) n = fixed_text k (n div 10) @ [digit_char (n mod 10)]"

lemma fixed_text_length [simp]: "length (fixed_text k n) = k"
  by (induction k arbitrary: n) simp_all

lemma fixed_text_zero: "fixed_text k 0 = replicate k (CHR ''0'')"
  by (induction k) (simp_all add: digit_char_0 replicate_append_same)

lemma fixed_text_pad:
  "0 < k \<Longrightarrow> n < 10 ^ k \<Longrightarrow> replicate (k - length (nat_text n)) (CHR ''0'') @ nat_text n = fixed_text k n"
proof (induction k arbitrary: n)
  case 0
  then show ?case by simp
next
  case (Suc k)
  show ?case
  proof (cases "n < 10")
    case True
    then show ?thesis by (simp add: nat_text.simps [of n] fixed_text_zero)
  next
    case False
    then have "0 < k" "n div 10 < 10 ^ k"
      using Suc.prems(2) by (cases k; simp add: div_less_iff_less_mult mult.commute)+
    with Suc.IH [of "n div 10"] False show ?thesis
      by (simp add: nat_text.simps [of n] append_assoc [symmetric] del: append_assoc)
  qed
qed

lemma fixed_text_append:
  "fixed_text (a + b) n = fixed_text a (n div 10 ^ b) @ fixed_text b n"
proof (induction b arbitrary: n)
  case 0
  then show ?case by simp
next
  case (Suc b)
  then show ?case by (simp add: div_mult2_eq)
qed

lemma list_less_append_right:
  fixes u v :: string
  assumes "u < v" and "length u = length v"
  shows "u @ x < v @ y"
  using lexord_sufI [of u v "{(u, v). u < v}" x y] assms by (simp add: list_less_def)

lemma list_less_append_left:
  fixes x y :: string
  shows "u @ x < u @ y \<longleftrightarrow> x < y"
  by (induction u) simp_all

lemma fixed_text_mono: "m < n \<Longrightarrow> n < 10 ^ k \<Longrightarrow> fixed_text k m < fixed_text k n"
proof (induction k arbitrary: m n)
  case 0
  then show ?case by simp
next
  case (Suc k)
  show ?case
  proof (cases "m div 10 = n div 10")
    case True
    then have "m mod 10 < n mod 10"
      using Suc.prems(1) by (metis add_less_cancel_left mult_div_mod_eq)
    with True show ?thesis by (simp add: list_less_append_left digit_char_less)
  next
    case False
    then have "m div 10 < n div 10" using Suc.prems(1) by (meson div_le_mono le_neq_implies_less less_imp_le)
    moreover have "n div 10 < 10 ^ k" using Suc.prems(2) by (simp add: div_less_iff_less_mult mult.commute)
    ultimately show ?thesis using Suc.IH by (simp add: list_less_append_right)
  qed
qed

subsection \<open>Splitting\<close>

fun split_on :: "char \<Rightarrow> string \<Rightarrow> string list" where
  "split_on c [] = [[]]"
| "split_on c (x # xs) =
     (if x = c then [] # split_on c xs
      else case split_on c xs of [] \<Rightarrow> [[x]] | y # ys \<Rightarrow> (x # y) # ys)"

lemma split_on_none: "c \<notin> set s \<Longrightarrow> split_on c s = [s]"
  by (induction s) auto

lemma split_on_once: "c \<notin> set s \<Longrightarrow> split_on c (s @ c # t) = s # split_on c t"
  by (induction s) auto

lemma digits_no_dot: "list_all is_digit s \<Longrightarrow> CHR ''.'' \<notin> set s"
  using digit_not_sign by (auto simp: list_all_iff)

end
