(* ===== verification/Coins.thy ===== *)
theory Coins
  imports SdkInt DigitText
begin

text \<open>
  Coins and sets of coins: \<open>src/sei-cosmos/types/coin.go\<close>.

  A set of coins is a list; the code keeps it sorted by denomination, without duplicates and
  without zero amounts. The uninitialised amount (a \<open>nil\<close> pointer) is not represented, and neither is
  the sharing of a slice's memory by \<open>Sort\<close> and \<open>removeZeroCoins\<close>: the operations return new lists.
  \<open>sort.Sort\<close> promises a permutation sorted by \<open>Less\<close>; the stable one is taken, and
  \<open>Sort_unique\<close> shows that on sets without duplicates there is no other.
\<close>

record Coin =
  Denom :: string
  Amount :: int

type_synonym Coins = "Coin list"

subsection \<open>Denominations\<close>

text \<open>The default regular expression: a letter, then 2 to 127 letters, digits, slashes or hyphens.\<close>

definition is_letter :: "char \<Rightarrow> bool" where
  "is_letter c \<longleftrightarrow>
     (let n = (of_char c :: nat) in (65 \<le> n \<and> n \<le> 90) \<or> (97 \<le> n \<and> n \<le> 122))"

definition denom_char :: "char \<Rightarrow> bool" where
  "denom_char c \<longleftrightarrow> is_letter c \<or> is_digit c \<or> c = CHR ''/'' \<or> c = CHR ''-''"

definition reDnm_match :: "string \<Rightarrow> bool" where
  "reDnm_match s \<longleftrightarrow>
     (case s of
        [] \<Rightarrow> False
      | c # r \<Rightarrow> is_letter c \<and> list_all denom_char r \<and> 2 \<le> length r \<and> length r \<le> 127)"

definition ValidateDenom :: "string \<Rightarrow> sdk_panic option" where
  "ValidateDenom denom = (if \<not> reDnm_match denom then Some (InvalidDenom denom) else None)"

definition mustValidateDenom :: "string \<Rightarrow> sdk_panic + unit" where
  "mustValidateDenom denom = (case ValidateDenom denom of Some e \<Rightarrow> Inl e | None \<Rightarrow> Inr ())"

subsection \<open>Single coins\<close>

definition Coin_Validate :: "Coin \<Rightarrow> sdk_panic option" where
  "Coin_Validate coin =
     (case ValidateDenom (Denom coin) of
        Some e \<Rightarrow> Some e
      | None \<Rightarrow> if Amount coin < 0 then Some NegativeAmount else None)"

definition NewCoin :: "string \<Rightarrow> int \<Rightarrow> sdk_panic + Coin" where
  "NewCoin denom amount =
     (let coin = \<lparr>Denom = denom, Amount = amount\<rparr>
      in case Coin_Validate coin of Some e \<Rightarrow> Inl e | None \<Rightarrow> Inr coin)"

definition Coin_IsGTE :: "Coin \<Rightarrow> Coin \<Rightarrow> sdk_panic + bool" where
  "Coin_IsGTE coin other =
     (if Denom coin \<noteq> Denom other then Inl (DenomMismatch (Denom coin) (Denom other))
      else Inr (\<not> Amount coin < Amount other))"

definition Coin_IsLT :: "Coin \<Rightarrow> Coin \<Rightarrow> sdk_panic + bool" where
  "Coin_IsLT coin other =
     (if Denom coin \<noteq> Denom other then Inl (DenomMismatch (Denom coin) (Denom other))
      else Inr (Amount coin < Amount other))"

definition Coin_IsEqual :: "Coin \<Rightarrow> Coin \<Rightarrow> sdk_panic + bool" where
  "Coin_IsEqual coin other =
     (if Denom coin \<noteq> Denom other then Inl (DenomMismatch (Denom coin) (Denom other))
      else Inr (Amount coin = Amount other))"

definition Coin_AddAmount :: "Coin \<Rightarrow> int \<Rightarrow> sdk_panic + Coin" where
  "Coin_AddAmount coin amount =
     sum_bind (Int_Add (Amount coin) amount) (\<lambda>a. Inr \<lparr>Denom = Denom coin, Amount = a\<rparr>)"

definition Coin_Add :: "Coin \<Rightarrow> Coin \<Rightarrow> sdk_panic + Coin" where
  "Coin_Add coin coinB =
     (if Denom coin \<noteq> Denom coinB then Inl (DenomMismatch (Denom coin) (Denom coinB))
      else sum_bind (Int_Add (Amount coin) (Amount coinB)) (\<lambda>a. Inr \<lparr>Denom = Denom coin, Amount = a\<rparr>))"

definition Coin_SubAmount :: "Coin \<Rightarrow> int \<Rightarrow> sdk_panic + Coin" where
  "Coin_SubAmount coin amount =
     sum_bind (Int_Sub (Amount coin) amount) (\<lambda>a.
       if a < 0 then Inl NegativeCoinAmount else Inr \<lparr>Denom = Denom coin, Amount = a\<rparr>)"

definition Coin_SubUnsafe :: "Coin \<Rightarrow> Coin \<Rightarrow> sdk_panic + Coin" where
  "Coin_SubUnsafe coin coinB =
     (if Denom coin \<noteq> Denom coinB then Inl (DenomMismatch (Denom coin) (Denom coinB))
      else sum_bind (Int_Sub (Amount coin) (Amount coinB)) (\<lambda>a. Inr \<lparr>Denom = Denom coin, Amount = a\<rparr>))"

definition Coin_Sub :: "Coin \<Rightarrow> Coin \<Rightarrow> sdk_panic + Coin" where
  "Coin_Sub coin coinB =
     (if Denom coin \<noteq> Denom coinB then Inl (DenomMismatch (Denom coin) (Denom coinB))
      else sum_bind (Int_Sub (Amount coin) (Amount coinB)) (\<lambda>a.
        if a < 0 then Inl NegativeCoinAmount else Inr \<lparr>Denom = Denom coin, Amount = a\<rparr>))"

subsection \<open>Construction and validation of sets\<close>

definition removeZeroCoins :: "Coins \<Rightarrow> Coins" where
  "removeZeroCoins coins = filter (\<lambda>coin. Amount coin \<noteq> 0) coins"

definition Coins_Sort :: "Coins \<Rightarrow> Coins" where
  "Coins_Sort coins = sort_key Denom coins"

definition sanitizeCoins :: "Coins \<Rightarrow> Coins" where
  "sanitizeCoins coins =
     (let newCoins = removeZeroCoins coins
      in if length newCoins = 0 then [] else Coins_Sort newCoins)"

definition validate_single :: "Coin \<Rightarrow> sdk_panic option" where
  "validate_single coin =
     (case ValidateDenom (Denom coin) of
        Some e \<Rightarrow> Some e
      | None \<Rightarrow> if \<not> Amount coin > 0 then Some (NotPositive (Denom coin)) else None)"

fun validate_rest :: "string list \<Rightarrow> string \<Rightarrow> Coins \<Rightarrow> sdk_panic option" where
  "validate_rest seenDenoms lowDenom [] = None"
| "validate_rest seenDenoms lowDenom (coin # coins) =
     (if Denom coin \<in> set seenDenoms then Some (DuplicateDenom (Denom coin))
      else case ValidateDenom (Denom coin) of
          Some e \<Rightarrow> Some e
        | None \<Rightarrow>
            if Denom coin \<le> lowDenom then Some (UnsortedDenom (Denom coin))
            else if \<not> Amount coin > 0 then Some (NotPositive (Denom coin))
            else validate_rest (Denom coin # seenDenoms) (Denom coin) coins)"

fun Coins_Validate :: "Coins \<Rightarrow> sdk_panic option" where
  "Coins_Validate [] = None"
| "Coins_Validate (coin # coins) =
     (case validate_single coin of
        Some e \<Rightarrow> Some e
      | None \<Rightarrow> validate_rest [Denom coin] (Denom coin) coins)"

definition Coins_IsValid :: "Coins \<Rightarrow> bool" where
  "Coins_IsValid coins \<longleftrightarrow> Coins_Validate coins = None"

definition NewCoins :: "Coins \<Rightarrow> sdk_panic + Coins" where
  "NewCoins coins =
     (let newCoins = sanitizeCoins coins
      in case Coins_Validate newCoins of Some e \<Rightarrow> Inl e | None \<Rightarrow> Inr newCoins)"

fun Coins_isSorted :: "Coins \<Rightarrow> bool" where
  "Coins_isSorted (c # d # cs) \<longleftrightarrow> \<not> Denom c > Denom d \<and> Coins_isSorted (d # cs)"
| "Coins_isSorted _ \<longleftrightarrow> True"

subsection \<open>Addition and subtraction\<close>

text \<open>The merge of \<open>safeAdd\<close>; integer and decimal coins differ in the addition of two coins.\<close>

fun safe_add_loop :: "(Coin \<Rightarrow> Coin \<Rightarrow> sdk_panic + Coin) \<Rightarrow> Coins \<Rightarrow> Coins \<Rightarrow> Coins \<Rightarrow> sdk_panic + Coins" where
  "safe_add_loop addC acc [] coinsB = Inr (acc @ removeZeroCoins coinsB)"
| "safe_add_loop addC acc (coinA # coins) [] = Inr (acc @ removeZeroCoins (coinA # coins))"
| "safe_add_loop addC acc (coinA # coins) (coinB # coinsB) =
     (if Denom coinA < Denom coinB then
        safe_add_loop addC (if Amount coinA \<noteq> 0 then acc @ [coinA] else acc) coins (coinB # coinsB)
      else if Denom coinA = Denom coinB then
        sum_bind (addC coinA coinB) (\<lambda>res.
          safe_add_loop addC (if Amount res \<noteq> 0 then acc @ [res] else acc) coins coinsB)
      else
        safe_add_loop addC (if Amount coinB \<noteq> 0 then acc @ [coinB] else acc) (coinA # coins) coinsB)"

definition safeAdd :: "Coins \<Rightarrow> Coins \<Rightarrow> sdk_panic + Coins" where
  "safeAdd coins coinsB =
     (if \<not> Coins_isSorted coins then Inl NotSorted
      else if \<not> Coins_isSorted coinsB then Inl NotSorted
      else safe_add_loop Coin_Add [] coins coinsB)"

definition Coins_Add :: "Coins \<Rightarrow> Coins \<Rightarrow> sdk_panic + Coins" where
  "Coins_Add coins coinsB = safeAdd coins coinsB"

definition Coins_negative :: "Coins \<Rightarrow> Coins" where
  "Coins_negative coins = map (\<lambda>coin. \<lparr>Denom = Denom coin, Amount = Int_Neg (Amount coin)\<rparr>) coins"

definition Coins_IsAnyNegative :: "Coins \<Rightarrow> bool" where
  "Coins_IsAnyNegative coins \<longleftrightarrow> list_ex (\<lambda>coin. Amount coin < 0) coins"

definition Coins_SafeSub :: "Coins \<Rightarrow> Coins \<Rightarrow> sdk_panic + Coins \<times> bool" where
  "Coins_SafeSub coins coinsB =
     sum_bind (safeAdd coins (Coins_negative coinsB)) (\<lambda>diff. Inr (diff, Coins_IsAnyNegative diff))"

definition Coins_Sub :: "Coins \<Rightarrow> Coins \<Rightarrow> sdk_panic + Coins" where
  "Coins_Sub coins coinsB =
     sum_bind (Coins_SafeSub coins coinsB) (\<lambda>(diff, hasNeg).
       if hasNeg then Inl NegativeCoinAmount else Inr diff)"

definition PartitionSigned :: "Coins \<Rightarrow> Coins \<times> Coins" where
  "PartitionSigned coins =
     (filter (\<lambda>coin. Amount coin > 0) coins, filter (\<lambda>coin. \<not> Amount coin > 0 \<and> Amount coin < 0) coins)"

subsection \<open>Maximum and minimum\<close>

fun max_merge :: "Coins \<Rightarrow> Coins \<Rightarrow> Coins" where
  "max_merge [] coinsB = coinsB"
| "max_merge (coinA # coins) [] = coinA # coins"
| "max_merge (coinA # coins) (coinB # coinsB) =
     (if Denom coinA < Denom coinB then coinA # max_merge coins (coinB # coinsB)
      else if Denom coinA = Denom coinB then
        (if Amount coinB > Amount coinA then coinB else coinA) # max_merge coins coinsB
      else coinB # max_merge (coinA # coins) coinsB)"

definition Coins_Max :: "Coins \<Rightarrow> Coins \<Rightarrow> sdk_panic + Coins" where
  "Coins_Max coins coinsB = NewCoins (max_merge coins coinsB)"

fun min_merge :: "Coins \<Rightarrow> Coins \<Rightarrow> Coins" where
  "min_merge (coinA # coins) (coinB # coinsB) =
     (if Denom coinA < Denom coinB then min_merge coins (coinB # coinsB)
      else if Denom coinA = Denom coinB then
        (let minCoin = (if Amount coinB < Amount coinA then coinB else coinA)
         in if Amount minCoin \<noteq> 0 then minCoin # min_merge coins coinsB else min_merge coins coinsB)
      else min_merge (coinA # coins) coinsB)"
| "min_merge _ _ = []"

definition Coins_Min :: "Coins \<Rightarrow> Coins \<Rightarrow> sdk_panic + Coins" where
  "Coins_Min coins coinsB = NewCoins (min_merge coins coinsB)"

subsection \<open>Amounts and comparison\<close>

fun AmountOfNoDenomValidation :: "Coins \<Rightarrow> string \<Rightarrow> int" where
  "AmountOfNoDenomValidation [] denom = 0"
| "AmountOfNoDenomValidation (coin # coins) denom =
     (if Denom coin = denom then Amount coin else AmountOfNoDenomValidation coins denom)"

definition AmountOf :: "Coins \<Rightarrow> string \<Rightarrow> sdk_panic + int" where
  "AmountOf coins denom =
     sum_bind (mustValidateDenom denom) (\<lambda>_. Inr (AmountOfNoDenomValidation coins denom))"

fun NonZeroAmountsOf :: "Coins \<Rightarrow> string list \<Rightarrow> sdk_panic + Coins" where
  "NonZeroAmountsOf coins [] = Inr []"
| "NonZeroAmountsOf coins (denom # denoms) =
     sum_bind (AmountOf coins denom) (\<lambda>amt.
     sum_bind (if amt > 0 then sum_bind (NewCoin denom amt) (\<lambda>c. Inr [c]) else Inr []) (\<lambda>first.
     sum_bind (NonZeroAmountsOf coins denoms) (\<lambda>subset. Inr (first @ subset))))"

fun DenomsSubset_walk :: "Coins \<Rightarrow> Coins \<Rightarrow> bool" where
  "DenomsSubset_walk [] coinsB \<longleftrightarrow> True"
| "DenomsSubset_walk (coin # coins) coinsB \<longleftrightarrow>
     (case dropWhile (\<lambda>b. Denom b < Denom coin) coinsB of
        [] \<Rightarrow> False
      | b # rest \<Rightarrow> Denom b = Denom coin \<and> DenomsSubset_walk coins rest)"

definition DenomsSubsetOf :: "Coins \<Rightarrow> Coins \<Rightarrow> bool" where
  "DenomsSubsetOf coins coinsB \<longleftrightarrow> \<not> length coins > length coinsB \<and> DenomsSubset_walk coins coinsB"

fun all_amounts :: "(int \<Rightarrow> int \<Rightarrow> bool) \<Rightarrow> Coins \<Rightarrow> Coins \<Rightarrow> sdk_panic + bool" where
  "all_amounts fails coins [] = Inr True"
| "all_amounts fails coins (coinB # coinsB) =
     sum_bind (AmountOf coins (Denom coinB)) (\<lambda>amountA.
       if fails amountA (Amount coinB) then Inr False else all_amounts fails coins coinsB)"

definition IsAllGT :: "Coins \<Rightarrow> Coins \<Rightarrow> sdk_panic + bool" where
  "IsAllGT coins coinsB =
     (if length coins = 0 then Inr False
      else if length coinsB = 0 then Inr True
      else if \<not> DenomsSubsetOf coinsB coins then Inr False
      else all_amounts (\<lambda>amountA amountB. \<not> amountA > amountB) coins coinsB)"

definition IsAllGTE :: "Coins \<Rightarrow> Coins \<Rightarrow> sdk_panic + bool" where
  "IsAllGTE coins coinsB =
     (if length coinsB = 0 then Inr True
      else if length coins = 0 then Inr False
      else all_amounts (\<lambda>amountA amountB. amountB > amountA) coins coinsB)"

definition IsAllLT :: "Coins \<Rightarrow> Coins \<Rightarrow> sdk_panic + bool" where
  "IsAllLT coins coinsB = IsAllGT coinsB coins"

definition IsAllLTE :: "Coins \<Rightarrow> Coins \<Rightarrow> sdk_panic + bool" where
  "IsAllLTE coins coinsB = IsAllGTE coinsB coins"

fun any_amount :: "(int \<Rightarrow> int \<Rightarrow> bool) \<Rightarrow> Coins \<Rightarrow> Coins \<Rightarrow> sdk_panic + bool" where
  "any_amount holds [] coinsB = Inr False"
| "any_amount holds (coin # coins) coinsB =
     sum_bind (AmountOf coinsB (Denom coin)) (\<lambda>amt.
       if holds (Amount coin) amt \<and> amt \<noteq> 0 then Inr True else any_amount holds coins coinsB)"

definition IsAnyGT :: "Coins \<Rightarrow> Coins \<Rightarrow> sdk_panic + bool" where
  "IsAnyGT coins coinsB =
     (if length coinsB = 0 then Inr False else any_amount (\<lambda>amount amt. amount > amt) coins coinsB)"

definition IsAnyGTE :: "Coins \<Rightarrow> Coins \<Rightarrow> sdk_panic + bool" where
  "IsAnyGTE coins coinsB =
     (if length coinsB = 0 then Inr False else any_amount (\<lambda>amount amt. amount \<ge> amt) coins coinsB)"

definition Coins_IsZero :: "Coins \<Rightarrow> bool" where
  "Coins_IsZero coins \<longleftrightarrow> \<not> list_ex (\<lambda>coin. Amount coin \<noteq> 0) coins"

fun equal_loop :: "Coins \<Rightarrow> Coins \<Rightarrow> sdk_panic + bool" where
  "equal_loop (c # cs) (d # ds) =
     sum_bind (Coin_IsEqual c d) (\<lambda>eq. if \<not> eq then Inr False else equal_loop cs ds)"
| "equal_loop _ _ = Inr True"

definition Coins_IsEqual :: "Coins \<Rightarrow> Coins \<Rightarrow> sdk_panic + bool" where
  "Coins_IsEqual coins coinsB =
     (if length coins \<noteq> length coinsB then Inr False
      else equal_loop (Coins_Sort coins) (Coins_Sort coinsB))"

definition Coins_IsAllPositive :: "Coins \<Rightarrow> bool" where
  "Coins_IsAllPositive coins \<longleftrightarrow> length coins \<noteq> 0 \<and> \<not> list_ex (\<lambda>coin. \<not> Amount coin > 0) coins"

end
