(* ===== verification/CoinLaws.thy ===== *)
theory CoinLaws
  imports Coins "HOL-Library.Multiset"
begin

text \<open>
  The laws of coin sets: validity, addition, subtraction, maximum, minimum and comparison of
  \<open>src/sei-cosmos/types/coin.go\<close> in terms of the amount of each denomination. The merge of
  \<open>safeAdd\<close> is treated once for integer and decimal coins, in the locale \<open>coin_sum\<close>.
\<close>

abbreviation amt :: "Coins \<Rightarrow> string \<Rightarrow> int" where
  "amt \<equiv> AmountOfNoDenomValidation"

abbreviation denoms :: "Coins \<Rightarrow> string list" where
  "denoms cs \<equiv> map Denom cs"

subsection \<open>Normal form\<close>

text \<open>Strictly ascending denominations and no zero amount.\<close>

definition coins_nf :: "Coins \<Rightarrow> bool" where
  "coins_nf cs \<longleftrightarrow> sorted_wrt (<) (denoms cs) \<and> (\<forall>c\<in>set cs. Amount c \<noteq> 0)"

lemma coins_nf_simps [simp]:
  "coins_nf []"
  "coins_nf (c # cs) \<longleftrightarrow> Amount c \<noteq> 0 \<and> (\<forall>d\<in>set cs. Denom c < Denom d) \<and> coins_nf cs"
  by (auto simp: coins_nf_def)

lemma amt_notin [simp]: "d \<notin> Denom ` set cs \<Longrightarrow> amt cs d = 0"
  by (induction cs) auto

lemma amt_above: "(\<forall>c\<in>set cs. d < Denom c) \<Longrightarrow> amt cs d = 0"
  by (rule amt_notin) auto

lemma amt_below: "(\<forall>c\<in>set cs. e < Denom c) \<Longrightarrow> d \<le> e \<Longrightarrow> amt cs d = 0"
  by (rule amt_above) auto

lemma amt_append: "amt (xs @ ys) d = (if d \<in> Denom ` set xs then amt xs d else amt ys d)"
  by (induction xs) auto

lemma amt_coin: "distinct (denoms cs) \<Longrightarrow> c \<in> set cs \<Longrightarrow> amt cs (Denom c) = Amount c"
  by (induction cs) force+

lemma nf_distinct: "coins_nf cs \<Longrightarrow> distinct (denoms cs)"
  by (simp add: coins_nf_def strict_sorted_iff)

lemma nf_amt_zero_iff: "coins_nf cs \<Longrightarrow> amt cs d = 0 \<longleftrightarrow> d \<notin> Denom ` set cs"
  by (induction cs) auto

lemma amt_in_values: "amt cs d = 0 \<or> (\<exists>c\<in>set cs. Denom c = d \<and> Amount c = amt cs d)"
  by (induction cs) auto

lemma coins_from_denoms: "distinct (denoms cs) \<Longrightarrow> cs = map (\<lambda>d. \<lparr>Denom = d, Amount = amt cs d\<rparr>) (denoms cs)"
  by (rule nth_equalityI) (auto simp: amt_coin)

text \<open>A set in normal form is determined by its amounts.\<close>

lemma nf_ext:
  assumes "coins_nf a" and "coins_nf b" and "\<And>d. amt a d = amt b d"
  shows "a = b"
proof -
  have "Denom ` set a = Denom ` set b"
    using assms(3) nf_amt_zero_iff [OF assms(1)] nf_amt_zero_iff [OF assms(2)] by auto
  then have "denoms a = denoms b"
    using assms(1,2) by (intro strict_sorted_equal) (simp_all add: coins_nf_def)
  then show ?thesis
    using coins_from_denoms [OF nf_distinct [OF assms(1)]] coins_from_denoms [OF nf_distinct [OF assms(2)]]
    by (metis (no_types, lifting) assms(3) map_eq_conv)
qed

lemma removeZero_nf: "sorted_wrt (<) (denoms cs) \<Longrightarrow> coins_nf (removeZeroCoins cs)"
  by (induction cs) (auto simp: removeZeroCoins_def)

lemma removeZero_id: "coins_nf cs \<Longrightarrow> removeZeroCoins cs = cs"
  by (simp add: removeZeroCoins_def coins_nf_def)

lemma amt_removeZero: "distinct (denoms cs) \<Longrightarrow> amt (removeZeroCoins cs) d = amt cs d"
  by (induction cs) (auto simp: removeZeroCoins_def)

subsection \<open>Validity\<close>

lemma validate_rest_None_iff:
  "\<forall>d\<in>set seen. d \<le> low \<Longrightarrow>
    validate_rest seen low cs = None \<longleftrightarrow>
    sorted_wrt (<) (low # denoms cs) \<and> (\<forall>c\<in>set cs. 0 < Amount c \<and> reDnm_match (Denom c))"
proof (induction cs arbitrary: seen low)
  case (Cons c cs)
  have "low < Denom c \<Longrightarrow> \<forall>d\<in>set (Denom c # seen). d \<le> Denom c" using Cons.prems by fastforce
  then have IH: "low < Denom c \<Longrightarrow> validate_rest (Denom c # seen) (Denom c) cs = None \<longleftrightarrow>
      sorted_wrt (<) (Denom c # denoms cs) \<and> (\<forall>x\<in>set cs. 0 < Amount x \<and> reDnm_match (Denom x))"
    by (rule Cons.IH)
  show ?case
  proof (cases "low < Denom c")
    case True
    with Cons.prems have "Denom c \<notin> set seen" by auto
    with True IH show ?thesis by (auto simp: ValidateDenom_def intro: less_trans)
  next
    case False
    then show ?thesis by (auto simp: ValidateDenom_def)
  qed
qed simp

lemma Coins_IsValid_iff:
  "Coins_IsValid cs \<longleftrightarrow>
    sorted_wrt (<) (denoms cs) \<and> (\<forall>c\<in>set cs. 0 < Amount c \<and> reDnm_match (Denom c))"
  by (cases cs)
    (auto simp: Coins_IsValid_def validate_single_def ValidateDenom_def validate_rest_None_iff split: option.splits)

lemma valid_nf: "Coins_IsValid cs \<Longrightarrow> coins_nf cs"
  by (auto simp: Coins_IsValid_iff coins_nf_def)

lemma valid_amt_nonneg: "Coins_IsValid cs \<Longrightarrow> 0 \<le> amt cs d"
  using amt_in_values [of cs d] by (force simp: Coins_IsValid_iff)

lemma nf_validI:
  assumes "coins_nf cs" and "\<And>d. 0 \<le> amt cs d" and "\<And>c. c \<in> set cs \<Longrightarrow> reDnm_match (Denom c)"
  shows "Coins_IsValid cs"
proof -
  have "0 < Amount c" if "c \<in> set cs" for c
    using assms(1,2) that amt_coin [OF nf_distinct [OF assms(1)] that] assms(2) [of "Denom c"]
    by (force simp: coins_nf_def)
  with assms show ?thesis by (simp add: Coins_IsValid_iff coins_nf_def)
qed

lemma subset_denoms_match:
  assumes "Coins_IsValid a" and "Coins_IsValid b" and "Denom ` set s \<subseteq> Denom ` set a \<union> Denom ` set b"
    and "c \<in> set s"
  shows "reDnm_match (Denom c)"
proof -
  have "Denom c \<in> Denom ` set a \<union> Denom ` set b" using assms(3,4) by blast
  with assms(1,2) show ?thesis by (auto simp: Coins_IsValid_iff)
qed

lemma isSorted_iff: "Coins_isSorted cs \<longleftrightarrow> sorted (denoms cs)"
  by (induction cs rule: Coins_isSorted.induct) (auto simp: not_less intro: order_trans)

lemma nf_isSorted: "sorted_wrt (<) (denoms cs) \<Longrightarrow> Coins_isSorted cs"
  by (simp add: isSorted_iff strict_sorted_imp_sorted)

subsection \<open>Sorting\<close>

lemma Sort_unique:
  assumes "distinct (denoms cs)" and "mset cs' = mset cs" and "sorted (denoms cs')"
  shows "cs' = Coins_Sort cs"
proof -
  have set: "set cs' = set cs" using assms(2) by (rule mset_eq_setD)
  have "mset (denoms cs') = mset (denoms cs)" using assms(2) by (metis mset_map)
  then have dist: "distinct (denoms cs')" using assms(1) by (metis mset_eq_imp_distinct_iff)
  have "mset (denoms (Coins_Sort cs)) = mset (denoms cs)" by (simp add: Coins_Sort_def)
  then have "distinct (denoms (Coins_Sort cs))" using assms(1) by (metis mset_eq_imp_distinct_iff)
  then have "denoms cs' = denoms (Coins_Sort cs)"
    using assms(3) dist set by (intro sorted_distinct_set_unique) (simp_all add: Coins_Sort_def)
  moreover have "inj_on Denom (set cs' \<union> set (Coins_Sort cs))"
    using assms(1) set by (simp add: Coins_Sort_def distinct_map)
  ultimately show ?thesis by (rule map_inj_on)
qed

lemma Sort_ordered:
  assumes "distinct (denoms cs)"
  shows "sorted_wrt (<) (denoms (Coins_Sort cs))" and "amt (Coins_Sort cs) d = amt cs d"
proof -
  have mset: "mset (denoms (Coins_Sort cs)) = mset (denoms cs)" by (simp add: Coins_Sort_def)
  then have dist: "distinct (denoms (Coins_Sort cs))" using assms by (metis mset_eq_imp_distinct_iff)
  then show "sorted_wrt (<) (denoms (Coins_Sort cs))" by (simp add: strict_sorted_iff Coins_Sort_def)
  show "amt (Coins_Sort cs) d = amt cs d"
  proof (cases "d \<in> Denom ` set cs")
    case True
    then obtain c where c: "c \<in> set cs" "d = Denom c" by auto
    then have "c \<in> set (Coins_Sort cs)" by (simp add: Coins_Sort_def)
    with c show ?thesis using amt_coin [OF dist] amt_coin [OF assms] by metis
  qed (simp add: Coins_Sort_def)
qed

lemma Sort_id: "sorted (denoms cs) \<Longrightarrow> Coins_Sort cs = cs"
  by (induction cs) (auto simp: Coins_Sort_def insort_is_Cons)

subsection \<open>The merge of two sets\<close>

text \<open>The merge relies on the addition of two coins of one denomination: the exact sum when it is in
  range, a panic otherwise.\<close>

locale coin_sum =
  fixes addC :: "Coin \<Rightarrow> Coin \<Rightarrow> sdk_panic + Coin" and in_range :: "int \<Rightarrow> bool" and overflow :: sdk_panic
  assumes addC: "Denom a = Denom b \<Longrightarrow>
      addC a b = (if in_range (Amount a + Amount b)
        then Inr \<lparr>Denom = Denom a, Amount = Amount a + Amount b\<rparr> else Inl overflow)"
    and zero: "in_range 0"
begin

text \<open>The sum of two sets in range.\<close>

definition is_sum :: "Coins \<Rightarrow> Coins \<Rightarrow> Coins \<Rightarrow> bool" where
  "is_sum a b s \<longleftrightarrow> coins_nf s \<and> (\<forall>d. amt s d = amt a d + amt b d) \<and>
     Denom ` set s \<subseteq> Denom ` set a \<union> Denom ` set b"

definition no_overflow :: "Coins \<Rightarrow> Coins \<Rightarrow> bool" where
  "no_overflow a b \<longleftrightarrow> (\<forall>d. d \<in> Denom ` set a \<and> d \<in> Denom ` set b \<longrightarrow> in_range (amt a d + amt b d))"

lemma is_sum_commute: "is_sum a b s \<longleftrightarrow> is_sum b a s"
  by (auto simp: is_sum_def add.commute)

lemma is_sum_Nil:
  assumes "sorted_wrt (<) (denoms b)"
  shows "is_sum [] b (removeZeroCoins b)"
  using assms removeZero_nf [OF assms] amt_removeZero [of b]
  by (auto simp: is_sum_def strict_sorted_iff removeZeroCoins_def)

lemma is_sum_above:
  assumes "is_sum a b s" and "\<forall>x\<in>set a. d < Denom x" and "\<forall>x\<in>set b. d < Denom x"
  shows "\<forall>x\<in>set s. d < Denom x"
proof
  fix x
  assume "x \<in> set s"
  then have "Denom x \<in> Denom ` set a \<union> Denom ` set b" using assms(1) unfolding is_sum_def by blast
  with assms(2,3) show "d < Denom x" by auto
qed

lemma is_sum_left:
  assumes "is_sum as b s" and "\<forall>x\<in>set as. Denom a < Denom x" and "\<forall>x\<in>set b. Denom a < Denom x"
  shows "is_sum (a # as) b (if Amount a \<noteq> 0 then a # s else s)"
proof -
  have "\<forall>x\<in>set s. Denom a < Denom x" by (rule is_sum_above [OF assms])
  moreover have "amt b (Denom a) = 0" "amt s (Denom a) = 0" using assms(3) calculation by (simp_all add: amt_above)
  ultimately show ?thesis using assms(1) by (auto simp: is_sum_def)
qed

lemma is_sum_both:
  assumes "is_sum as bs s" and "Denom a = Denom b" and "Denom r = Denom a" and "Amount r = Amount a + Amount b"
    and "\<forall>x\<in>set as. Denom a < Denom x" and "\<forall>x\<in>set bs. Denom a < Denom x"
  shows "is_sum (a # as) (b # bs) (if Amount r \<noteq> 0 then r # s else s)"
proof -
  have "\<forall>x\<in>set s. Denom r < Denom x" using is_sum_above [OF assms(1,5,6)] assms(3) by simp
  moreover have "amt s (Denom r) = 0" using calculation by (simp add: amt_above)
  ultimately show ?thesis using assms by (auto simp: is_sum_def)
qed

lemma above_notin: "\<forall>x\<in>set cs. d < Denom x \<Longrightarrow> d \<notin> Denom ` set cs"
  by auto

lemma no_overflow_left:
  assumes "\<forall>x\<in>set b. Denom a < Denom x"
  shows "no_overflow (a # as) b \<longleftrightarrow> no_overflow as b"
  using above_notin [OF assms] by (auto simp: no_overflow_def split: if_splits)

lemma no_overflow_commute: "no_overflow a b \<longleftrightarrow> no_overflow b a"
  by (auto simp: no_overflow_def add.commute)

lemma no_overflow_both:
  assumes "Denom a = Denom b" and "\<forall>x\<in>set as. Denom a < Denom x" and "\<forall>x\<in>set bs. Denom a < Denom x"
  shows "no_overflow (a # as) (b # bs) \<longleftrightarrow> in_range (Amount a + Amount b) \<and> no_overflow as bs"
  using above_notin [OF assms(2)] above_notin [OF assms(3)] assms(1)
  by (auto simp: no_overflow_def split: if_splits)

text \<open>The loop returns the sum, or panics when some denomination overflows.\<close>

lemma safe_add_loop_sum:
  assumes "sorted_wrt (<) (denoms a)" and "sorted_wrt (<) (denoms b)"
  shows "if no_overflow a b then \<exists>s. safe_add_loop addC acc a b = Inr (acc @ s) \<and> is_sum a b s
    else safe_add_loop addC acc a b = Inl overflow"
  using assms
proof (induction a b arbitrary: acc rule: max_merge.induct)
  case (1 b)
  then show ?case by (simp add: no_overflow_def is_sum_Nil)
next
  case (2 a as)
  then show ?case using is_sum_Nil [of "a # as"] by (simp add: no_overflow_def is_sum_commute)
next
  case (3 a as b bs)
  consider "Denom a < Denom b" | "Denom a = Denom b" | "Denom b < Denom a" by (rule linorder_cases)
  then show ?case
  proof cases
    case 1
    let ?acc = "if Amount a \<noteq> 0 then acc @ [a] else acc"
    have above: "\<forall>x\<in>set as. Denom a < Denom x" "\<forall>x\<in>set (b # bs). Denom a < Denom x"
      using 1 3(4,5) by (auto intro: less_trans)
    show ?thesis
      using 3(1) [OF 1, of ?acc] 3(4,5) 1 is_sum_left [OF _ above] no_overflow_left [OF above(2)]
      by (auto split: if_splits)
  next
    case 2
    let ?r = "\<lparr>Denom = Denom a, Amount = Amount a + Amount b\<rparr>"
    let ?acc = "if Amount ?r \<noteq> 0 then acc @ [?r] else acc"
    have above: "\<forall>x\<in>set as. Denom a < Denom x" "\<forall>x\<in>set bs. Denom a < Denom x"
      using 2 3(4,5) by auto
    have "\<not> Denom a < Denom b" using 2 by simp
    from 3(2) [OF this 2, of ?acc] 3(4,5) 2 above addC [OF 2] is_sum_both [OF _ 2 _ _ above, of _ ?r]
      no_overflow_both [OF 2 above]
    show ?thesis by (auto split: if_splits)
  next
    case right: 3
    let ?acc = "if Amount b \<noteq> 0 then acc @ [b] else acc"
    have above: "\<forall>x\<in>set bs. Denom b < Denom x" "\<forall>x\<in>set (a # as). Denom b < Denom x"
      using right 3(4,5) by (auto intro: less_trans)
    have "\<not> Denom a < Denom b" "Denom a \<noteq> Denom b" using right by auto
    from 3(3) [OF this, of ?acc] 3(4,5) this is_sum_left [OF _ above] no_overflow_left [OF above(2), of bs]
    show ?thesis by (auto simp: is_sum_commute no_overflow_commute split: if_splits)
  qed
qed

text \<open>The same in terms of amounts, for sets whose amounts are in range.\<close>

lemma safe_add_loop_spec:
  assumes "sorted_wrt (<) (denoms a)" and "sorted_wrt (<) (denoms b)"
    and "\<forall>d. in_range (amt a d)" and "\<forall>d. in_range (amt b d)"
  shows "case safe_add_loop addC [] a b of
      Inl e \<Rightarrow> e = overflow \<and> (\<exists>d. \<not> in_range (amt a d + amt b d))
    | Inr s \<Rightarrow> coins_nf s \<and> (\<forall>d. amt s d = amt a d + amt b d \<and> in_range (amt s d)) \<and>
        Denom ` set s \<subseteq> Denom ` set a \<union> Denom ` set b"
proof -
  have "no_overflow a b \<longleftrightarrow> (\<forall>d. in_range (amt a d + amt b d))"
    using assms(3,4) unfolding no_overflow_def by (metis add.right_neutral add_0 amt_notin)
  then show ?thesis
    using safe_add_loop_sum [OF assms(1,2), of "[]"] by (auto simp: is_sum_def split: if_splits)
qed

end

interpretation ic: coin_sum Coin_Add int_in_range IntOverflow
  by unfold_locales (simp_all add: Coin_Add_def Int_Add_iff int_in_range_abs)

text \<open>The amounts of a set are \<open>Int\<close>s.\<close>

definition coins_in_range :: "Coins \<Rightarrow> bool" where
  "coins_in_range cs \<longleftrightarrow> list_all (\<lambda>c. int_in_range (Amount c)) cs"

lemma int_in_range_0 [simp]: "int_in_range 0"
  by (simp add: int_in_range_abs)

lemma coins_in_range_amt: "coins_in_range cs \<Longrightarrow> int_in_range (amt cs d)"
  using amt_in_values [of cs d] by (force simp: coins_in_range_def list_all_iff)

lemma safeAdd_spec:
  assumes "coins_nf a" and "coins_nf b" and "coins_in_range a" and "coins_in_range b"
  shows "case safeAdd a b of
      Inl e \<Rightarrow> e = IntOverflow \<and> (\<exists>d. \<not> int_in_range (amt a d + amt b d))
    | Inr s \<Rightarrow> coins_nf s \<and> (\<forall>d. amt s d = amt a d + amt b d \<and> int_in_range (amt s d)) \<and>
        Denom ` set s \<subseteq> Denom ` set a \<union> Denom ` set b"
proof -
  have sorted: "sorted_wrt (<) (denoms a)" "sorted_wrt (<) (denoms b)"
    using assms(1,2) by (simp_all add: coins_nf_def)
  then have "safeAdd a b = safe_add_loop Coin_Add [] a b"
    by (simp add: safeAdd_def nf_isSorted)
  with ic.safe_add_loop_spec [OF sorted] show ?thesis
    using assms(3,4) by (simp add: coins_in_range_amt)
qed

lemma nf_in_rangeI: "coins_nf s \<Longrightarrow> (\<And>d. int_in_range (amt s d)) \<Longrightarrow> coins_in_range s"
  unfolding coins_in_range_def list_all_iff by (metis amt_coin nf_distinct)

lemma Coins_negative_simps [simp]:
  "amt (Coins_negative cs) d = - amt cs d"
  "Denom ` set (Coins_negative cs) = Denom ` set cs"
  "coins_nf (Coins_negative cs) \<longleftrightarrow> coins_nf cs"
  "coins_in_range (Coins_negative cs) \<longleftrightarrow> coins_in_range cs"
proof -
  show "amt (Coins_negative cs) d = - amt cs d"
    by (induction cs) (auto simp: Coins_negative_def Int_Neg_def)
  show "Denom ` set (Coins_negative cs) = Denom ` set cs"
    by (simp add: Coins_negative_def image_image)
  show "coins_nf (Coins_negative cs) \<longleftrightarrow> coins_nf cs"
    by (simp add: coins_nf_def Coins_negative_def Int_Neg_def comp_def)
  show "coins_in_range (Coins_negative cs) \<longleftrightarrow> coins_in_range cs"
    by (simp add: coins_in_range_def Coins_negative_def Int_Neg_def list_all_iff int_in_range_abs)
qed

lemma IsAnyNegative_iff: "coins_nf cs \<Longrightarrow> Coins_IsAnyNegative cs \<longleftrightarrow> (\<exists>d. amt cs d < 0)"
  unfolding Coins_IsAnyNegative_def list_ex_iff
  by (metis amt_coin amt_in_values less_irrefl nf_distinct)

lemma in_range_diff:
  assumes "int_in_range x" and "int_in_range y" and "0 \<le> x" and "0 \<le> y"
  shows "int_in_range (x - y)"
  using assms by (auto simp: int_in_range_abs)

text \<open>\<open>Sub\<close> of two valid sets: every amount is subtracted, or some amount would be negative.\<close>

lemma Coins_Sub_spec:
  assumes "Coins_IsValid a" and "Coins_IsValid b" and "coins_in_range a" and "coins_in_range b"
  shows "case Coins_Sub a b of
      Inl e \<Rightarrow> e = NegativeCoinAmount \<and> (\<exists>d. amt a d < amt b d)
    | Inr s \<Rightarrow> Coins_IsValid s \<and> coins_in_range s \<and> (\<forall>d. amt s d = amt a d - amt b d)"
proof -
  have range: "int_in_range (amt a d - amt b d)" for d
    using assms by (simp add: in_range_diff coins_in_range_amt valid_amt_nonneg)
  from safeAdd_spec [of a "Coins_negative b"] assms range
  obtain s where s: "safeAdd a (Coins_negative b) = Inr s" "coins_nf s"
      "\<And>d. amt s d = amt a d - amt b d" "Denom ` set s \<subseteq> Denom ` set a \<union> Denom ` set b"
    by (auto simp: valid_nf split: sum.splits)
  have "reDnm_match (Denom c)" if "c \<in> set s" for c
    by (rule subset_denoms_match [OF assms(1,2) s(4) that])
  then have "Coins_IsValid s" if "\<not> Coins_IsAnyNegative s"
    using that s(2) by (intro nf_validI) (auto simp: IsAnyNegative_iff not_less)
  moreover have "coins_in_range s" using s(2,3) range by (intro nf_in_rangeI) simp_all
  ultimately show ?thesis
    using s IsAnyNegative_iff [OF s(2)] by (auto simp: Coins_Sub_def Coins_SafeSub_def)
qed

end
