(* ===== verification/CoinProps.thy ===== *)
theory CoinProps
  imports CoinLaws
begin

text \<open>
  Construction, maximum, minimum and comparison of coin sets, and the properties of
  \<open>src/sei-cosmos/types/coin.go\<close>.
\<close>

subsection \<open>Construction\<close>

lemma sanitize_sort: "sanitizeCoins cs = Coins_Sort (removeZeroCoins cs)"
  by (simp add: sanitizeCoins_def Coins_Sort_def Let_def)

lemma NewCoins_Inr_iff: "NewCoins cs = Inr s \<longleftrightarrow> s = sanitizeCoins cs \<and> Coins_IsValid s"
  by (auto simp: NewCoins_def Let_def Coins_IsValid_def split: option.splits)

lemma NewCoins_valid: "Coins_IsValid cs \<Longrightarrow> NewCoins cs = Inr cs"
  by (simp add: NewCoins_Inr_iff sanitize_sort valid_nf removeZero_id Sort_id)
    (simp add: Sort_id Coins_IsValid_iff strict_sorted_imp_sorted)

subsection \<open>Maximum and minimum\<close>

lemma max_merge_denoms: "Denom ` set (max_merge a b) = Denom ` set a \<union> Denom ` set b"
  by (induction a b rule: max_merge.induct) auto

lemma valid_simps [simp]:
  "Coins_IsValid []"
  "Coins_IsValid (c # cs) \<longleftrightarrow>
    0 < Amount c \<and> reDnm_match (Denom c) \<and> (\<forall>d\<in>set cs. Denom c < Denom d) \<and> Coins_IsValid cs"
  by (auto simp: Coins_IsValid_iff)

lemma max_merge_above:
  assumes "\<forall>x\<in>set a. d < Denom x" and "\<forall>x\<in>set b. d < Denom x"
  shows "\<forall>x\<in>set (max_merge a b). d < Denom x"
proof
  fix x
  assume "x \<in> set (max_merge a b)"
  then have "Denom x \<in> Denom ` set a \<union> Denom ` set b" using max_merge_denoms by blast
  with assms show "d < Denom x" by auto
qed

lemma max_merge_spec:
  assumes "Coins_IsValid a" and "Coins_IsValid b"
  shows "Coins_IsValid (max_merge a b) \<and> (\<forall>d. amt (max_merge a b) d = max (amt a d) (amt b d))"
  using assms
proof (induction a b rule: max_merge.induct)
  case (1 b)
  then show ?case by (simp add: valid_amt_nonneg)
next
  case (2 a as)
  then show ?case using valid_amt_nonneg [of as] by auto
next
  case (3 a as b bs)
  consider "Denom a < Denom b" | "Denom a = Denom b" | "Denom b < Denom a" by (rule linorder_cases)
  then show ?case
  proof cases
    case 1
    have above: "\<forall>x\<in>set as. Denom a < Denom x" "\<forall>x\<in>set (b # bs). Denom a < Denom x"
      using 1 3(4,5) by (auto intro: less_trans)
    with 1 3 max_merge_above [OF above] show ?thesis by (auto simp: amt_above)
  next
    case 2
    have above: "\<forall>x\<in>set as. Denom a < Denom x" "\<forall>x\<in>set bs. Denom a < Denom x"
      using 2 3(4,5) by auto
    with 2 3 max_merge_above [OF above] show ?thesis by (auto simp: amt_above)
  next
    case right: 3
    have above: "\<forall>x\<in>set (a # as). Denom b < Denom x" "\<forall>x\<in>set bs. Denom b < Denom x"
      using right 3(4,5) by (auto intro: less_trans)
    with right 3 max_merge_above [OF above] show ?thesis by (auto simp: amt_above)
  qed
qed

lemma min_merge_above:
  assumes "\<forall>x\<in>set a. d < Denom x"
  shows "\<forall>x\<in>set (min_merge a b). d < Denom x"
  using assms by (induction a b rule: min_merge.induct) (auto simp: Let_def split: if_splits)

lemma min_merge_spec:
  assumes "Coins_IsValid a" and "Coins_IsValid b"
  shows "Coins_IsValid (min_merge a b) \<and> (\<forall>d. amt (min_merge a b) d = min (amt a d) (amt b d))"
  using assms
proof (induction a b rule: min_merge.induct)
  case (1 a as b bs)
  consider "Denom a < Denom b" | "Denom a = Denom b" | "Denom b < Denom a" by (rule linorder_cases)
  then show ?case
  proof cases
    case less: 1
    have above: "\<forall>x\<in>set as. Denom a < Denom x" "\<forall>x\<in>set (b # bs). Denom a < Denom x"
      using less 1(5,6) by (auto intro: less_trans)
    with less 1 show ?thesis by (auto simp: amt_above)
  next
    case 2
    have above: "\<forall>x\<in>set as. Denom a < Denom x" "\<forall>x\<in>set bs. Denom a < Denom x"
      using 2 1(5,6) by auto
    with 2 1 min_merge_above [OF above(1), of bs] show ?thesis by (auto simp: amt_above Let_def)
  next
    case right: 3
    have above: "\<forall>x\<in>set (a # as). Denom b < Denom x" "\<forall>x\<in>set bs. Denom b < Denom x"
      using right 1(5,6) by (auto intro: less_trans)
    with right 1 show ?thesis by (auto simp: amt_above)
  qed
qed (use valid_amt_nonneg in \<open>auto simp: min_absorb1 min_absorb2\<close>)

subsection \<open>Comparison\<close>

lemma AmountOf_valid: "reDnm_match d \<Longrightarrow> AmountOf cs d = Inr (amt cs d)"
  by (simp add: AmountOf_def mustValidateDenom_def ValidateDenom_def)

lemma all_amounts_valid:
  "\<forall>c\<in>set b. reDnm_match (Denom c) \<Longrightarrow>
    all_amounts fails a b = Inr (\<forall>c\<in>set b. \<not> fails (amt a (Denom c)) (Amount c))"
  by (induction b) (simp_all add: AmountOf_valid)

lemma any_amount_valid:
  "\<forall>c\<in>set a. reDnm_match (Denom c) \<Longrightarrow>
    any_amount holds a b = Inr (\<exists>c\<in>set a. holds (Amount c) (amt b (Denom c)) \<and> amt b (Denom c) \<noteq> 0)"
  by (induction a) (auto simp: AmountOf_valid)

lemma valid_denom_match: "Coins_IsValid cs \<Longrightarrow> \<forall>c\<in>set cs. reDnm_match (Denom c)"
  by (simp add: Coins_IsValid_iff)

lemma valid_amt_coin: "Coins_IsValid cs \<Longrightarrow> c \<in> set cs \<Longrightarrow> amt cs (Denom c) = Amount c"
  using amt_coin nf_distinct valid_nf by blast

lemma ball_coins_iff:
  assumes "Coins_IsValid b"
  shows "(\<forall>c\<in>set b. P (Denom c) (Amount c)) \<longleftrightarrow> (\<forall>d. 0 < amt b d \<longrightarrow> P d (amt b d))"
proof
  assume "\<forall>c\<in>set b. P (Denom c) (Amount c)"
  then show "\<forall>d. 0 < amt b d \<longrightarrow> P d (amt b d)" by (metis amt_in_values less_irrefl)
next
  assume all: "\<forall>d. 0 < amt b d \<longrightarrow> P d (amt b d)"
  show "\<forall>c\<in>set b. P (Denom c) (Amount c)"
  proof
    fix c
    assume "c \<in> set b"
    with assms have "amt b (Denom c) = Amount c" "0 < Amount c" by (auto simp: valid_amt_coin Coins_IsValid_iff)
    with all show "P (Denom c) (Amount c)" by metis
  qed
qed

lemma IsAllGTE_valid:
  assumes "Coins_IsValid a" and "Coins_IsValid b"
  shows "IsAllGTE a b = Inr (\<forall>d. amt b d \<le> amt a d)"
proof -
  have le: "(\<forall>d. amt b d \<le> amt a d) \<longleftrightarrow> (\<forall>c\<in>set b. \<not> amt a (Denom c) < Amount c)"
    using ball_coins_iff [OF assms(2), of "\<lambda>d x. \<not> amt a d < x"] valid_amt_nonneg [OF assms(1)] valid_amt_nonneg [OF assms(2)]
    by (metis dual_order.trans linorder_not_le nle_le)
  show ?thesis
  proof (cases "a = [] \<and> b \<noteq> []")
    case True
    then obtain c r where "b = c # r" by (cases b) auto
    with True assms(2) le show ?thesis by (simp add: IsAllGTE_def)
  next
    case False
    with le assms(2) show ?thesis by (auto simp: IsAllGTE_def all_amounts_valid valid_denom_match)
  qed
qed

lemma DenomsSubset_walk_iff:
  assumes "sorted_wrt (<) (denoms a)" and "sorted_wrt (<) (denoms b)"
  shows "DenomsSubset_walk a b \<longleftrightarrow> Denom ` set a \<subseteq> Denom ` set b"
  using assms
proof (induction a arbitrary: b)
  case (Cons c cs)
  let ?low = "\<lambda>x. Denom x < Denom c"
  have split: "Denom ` set b = Denom ` set (takeWhile ?low b) \<union> Denom ` set (dropWhile ?low b)"
    by (metis image_Un set_append takeWhile_dropWhile_id)
  have low: "\<forall>x\<in>set (takeWhile ?low b). Denom x < Denom c" by (auto dest: set_takeWhileD)
  have sorted: "sorted_wrt (<) (denoms (dropWhile ?low b))"
    using Cons.prems(2) by (metis map_append sorted_wrt_append takeWhile_dropWhile_id)
  show ?case
  proof (cases "dropWhile ?low b")
    case Nil
    have "\<not> DenomsSubset_walk (c # cs) b" by (simp only: DenomsSubset_walk.simps Nil list.case) simp
    moreover have "Denom c \<notin> Denom ` set b" using split low Nil by auto
    ultimately show ?thesis by auto
  next
    case (Cons e es)
    have ge: "\<not> Denom e < Denom c" using Cons by (metis hd_dropWhile list.distinct(1) list.sel(1))
    have above: "\<forall>x\<in>set es. Denom e < Denom x" using sorted Cons by simp
    let ?T = "Denom ` set (takeWhile ?low b)" and ?E = "Denom ` set es"
    have b: "Denom ` set b = insert (Denom e) (?T \<union> ?E)" unfolding split Cons by simp
    have below: "\<forall>x\<in>?T. x < Denom c" using low by blast
    have "\<forall>x\<in>Denom ` set cs. Denom c < x" using Cons.prems(1) by simp
    then have out: "x \<notin> ?T" "x \<noteq> Denom c" if "x \<in> Denom ` set cs" for x
      using below that by (meson less_asym, blast)
    have "Denom ` set cs \<subseteq> Denom ` set b \<longleftrightarrow> Denom ` set cs \<subseteq> ?E" if "Denom e = Denom c"
      unfolding b that using out by blast
    moreover have "Denom c \<notin> ?T" "Denom c \<notin> ?E" using below ge above by auto
    then have "Denom c \<in> Denom ` set b \<longleftrightarrow> Denom e = Denom c"
      unfolding b by (metis Un_iff insert_iff)
    moreover have "DenomsSubset_walk (c # cs) b \<longleftrightarrow> Denom e = Denom c \<and> Denom ` set cs \<subseteq> Denom ` set es"
      using Cons.IH [of es] Cons.prems sorted by (simp add: Cons)
    ultimately show ?thesis by (metis image_insert insert_subset list.simps(15))
  qed
qed simp

lemma DenomsSubsetOf_valid:
  assumes "Coins_IsValid a" and "Coins_IsValid b"
  shows "DenomsSubsetOf a b \<longleftrightarrow> Denom ` set a \<subseteq> Denom ` set b"
proof -
  have "card (Denom ` set cs) = length cs" if "Coins_IsValid cs" for cs
    using distinct_card [OF nf_distinct [OF valid_nf [OF that]]] by simp
  then have "length a \<le> length b" if "Denom ` set a \<subseteq> Denom ` set b"
    using assms card_mono [OF _ that] by (metis List.finite_set finite_imageI)
  then show ?thesis
    using DenomsSubset_walk_iff assms by (auto simp: DenomsSubsetOf_def Coins_IsValid_iff)
qed

lemma valid_amt_pos_iff: "Coins_IsValid cs \<Longrightarrow> 0 < amt cs d \<longleftrightarrow> d \<in> Denom ` set cs"
  using nf_amt_zero_iff [OF valid_nf, of cs d] valid_amt_nonneg [of cs d] by auto

lemma DenomsSubsetOf_amt:
  assumes "Coins_IsValid a" and "Coins_IsValid b"
  shows "DenomsSubsetOf a b \<longleftrightarrow> (\<forall>d. 0 < amt a d \<longrightarrow> 0 < amt b d)"
  by (simp add: DenomsSubsetOf_valid valid_amt_pos_iff assms subset_iff)

lemma IsAllGT_valid:
  assumes "Coins_IsValid a" and "Coins_IsValid b"
  shows "IsAllGT a b = Inr (a \<noteq> [] \<and> (\<forall>d. 0 < amt b d \<longrightarrow> amt b d < amt a d))"
proof -
  have "all_amounts (\<lambda>amountA amountB. \<not> amountB < amountA) a b = Inr (\<forall>d. 0 < amt b d \<longrightarrow> amt b d < amt a d)"
    using ball_coins_iff [OF assms(2), of "\<lambda>d x. x < amt a d"] valid_denom_match [OF assms(2)]
    by (simp add: all_amounts_valid)
  moreover have "DenomsSubsetOf b a" if "\<forall>d. 0 < amt b d \<longrightarrow> amt b d < amt a d"
    using that assms by (auto simp: DenomsSubsetOf_amt intro: less_trans)
  ultimately show ?thesis by (auto simp: IsAllGT_def)
qed

lemma IsAnyGT_valid:
  assumes "Coins_IsValid a" and "Coins_IsValid b"
  shows "IsAnyGT a b = Inr (\<exists>d. 0 < amt b d \<and> amt b d < amt a d)"
proof -
  have ge: "0 \<le> amt b d" for d by (rule valid_amt_nonneg [OF assms(2)])
  have "0 < amt a d \<and> amt b d < amt a d \<and> amt b d \<noteq> 0 \<longleftrightarrow> 0 < amt b d \<and> amt b d < amt a d" for d
    using ge [of d] by auto
  moreover have "(\<exists>c\<in>set a. amt b (Denom c) < Amount c \<and> amt b (Denom c) \<noteq> 0) \<longleftrightarrow>
      (\<exists>d. 0 < amt a d \<and> amt b d < amt a d \<and> amt b d \<noteq> 0)"
    using ball_coins_iff [OF assms(1), of "\<lambda>d x. \<not> (amt b d < x \<and> amt b d \<noteq> 0)"] by blast
  ultimately have "(\<exists>c\<in>set a. amt b (Denom c) < Amount c \<and> amt b (Denom c) \<noteq> 0) \<longleftrightarrow>
      (\<exists>d. 0 < amt b d \<and> amt b d < amt a d)" by simp
  then have "any_amount (\<lambda>amount x. amount > x) a b = Inr (\<exists>d. 0 < amt b d \<and> amt b d < amt a d)"
    by (simp add: any_amount_valid [OF valid_denom_match [OF assms(1)]])
  then show ?thesis by (cases "b = []") (simp_all add: IsAnyGT_def)
qed

lemma equal_loop_iff: "length a = length b \<Longrightarrow> equal_loop a b = Inr True \<longleftrightarrow> a = b"
  by (induction a b rule: equal_loop.induct) (auto simp: Coin_IsEqual_def)

lemma IsEqual_valid:
  assumes "Coins_IsValid a" and "Coins_IsValid b"
  shows "Coins_IsEqual a b = Inr True \<longleftrightarrow> a = b"
proof -
  have "Coins_Sort a = a" "Coins_Sort b = b"
    using assms by (simp_all add: Sort_id Coins_IsValid_iff strict_sorted_imp_sorted)
  then show ?thesis by (auto simp: Coins_IsEqual_def equal_loop_iff)
qed

subsection \<open>Addition\<close>

lemma Coins_Add_spec:
  assumes "Coins_IsValid a" and "Coins_IsValid b" and "coins_in_range a" and "coins_in_range b"
  shows "case Coins_Add a b of
      Inl e \<Rightarrow> e = IntOverflow \<and> (\<exists>d. \<not> int_in_range (amt a d + amt b d))
    | Inr s \<Rightarrow> Coins_IsValid s \<and> coins_in_range s \<and> (\<forall>d. amt s d = amt a d + amt b d)"
proof (cases "safeAdd a b")
  case (Inl e)
  then show ?thesis using safeAdd_spec [of a b] assms by (simp add: Coins_Add_def valid_nf)
next
  case (Inr s)
  then have s: "coins_nf s" "\<And>d. amt s d = amt a d + amt b d" "\<And>d. int_in_range (amt s d)"
      "Denom ` set s \<subseteq> Denom ` set a \<union> Denom ` set b"
    using safeAdd_spec [OF valid_nf valid_nf, of a b] assms by simp_all metis
  have "reDnm_match (Denom c)" if "c \<in> set s" for c
    by (rule subset_denoms_match [OF assms(1,2) s(4) that])
  moreover have "0 \<le> amt s d" for d using assms(1,2) by (simp add: s(2) valid_amt_nonneg)
  ultimately have "Coins_IsValid s" using s(1) by (intro nf_validI)
  with Inr s show ?thesis by (simp add: Coins_Add_def nf_in_rangeI)
qed

lemma Coins_Sub_Inr_unique:
  assumes "Coins_IsValid a" and "Coins_IsValid b" and "coins_in_range a" and "coins_in_range b"
    and "Coins_IsValid c" and "\<And>d. amt a d = amt c d + amt b d"
  shows "Coins_Sub a b = Inr c"
proof (cases "Coins_Sub a b")
  case (Inl e)
  with Coins_Sub_spec [OF assms(1-4)] obtain d where "amt a d < amt b d" by auto
  moreover have "0 \<le> amt c d" by (rule valid_amt_nonneg [OF assms(5)])
  ultimately show ?thesis using assms(6) [of d] by simp
next
  case (Inr s)
  with Coins_Sub_spec [OF assms(1-4)] assms(6) have "s = c"
    by (intro nf_ext) (simp_all add: valid_nf assms(5))
  with Inr show ?thesis by simp
qed

subsection \<open>Max and Min\<close>

lemma Coins_Max_spec:
  assumes "Coins_IsValid a" and "Coins_IsValid b"
  shows "Coins_Max a b = Inr (max_merge a b)"
  using max_merge_spec [OF assms] by (simp add: Coins_Max_def NewCoins_valid)

lemma Coins_Min_spec:
  assumes "Coins_IsValid a" and "Coins_IsValid b"
  shows "Coins_Min a b = Inr (min_merge a b)"
  using min_merge_spec [OF assms] by (simp add: Coins_Min_def NewCoins_valid)

lemma Coins_Add_cong:
  assumes "Coins_IsValid a" "Coins_IsValid b" "Coins_IsValid c" "Coins_IsValid e"
    and "coins_in_range a" "coins_in_range b" "coins_in_range c" "coins_in_range e"
    and "\<And>d. amt a d + amt b d = amt c d + amt e d"
  shows "Coins_Add a b = Coins_Add c e"
proof -
  note l = Coins_Add_spec [OF assms(1,2,5,6)] and r = Coins_Add_spec [OF assms(3,4,7,8)]
  show ?thesis
  proof (cases "Coins_Add a b")
    case (Inl x)
    with l obtain d where "x = IntOverflow" "\<not> int_in_range (amt c d + amt e d)" using assms(9) by auto
    with Inl r show ?thesis
      by (cases "Coins_Add c e") (auto dest: coins_in_range_amt [of _ d])
  next
    case (Inr s)
    with l have "int_in_range (amt c d + amt e d)" for d
      using coins_in_range_amt [of s d] assms(9) [of d] by simp
    with r obtain t where t: "Coins_Add c e = Inr t" by (cases "Coins_Add c e") auto
    have "s = t"
      using l r Inr t assms(9) by (intro nf_ext) (simp_all add: valid_nf)
    with Inr t show ?thesis by simp
  qed
qed

lemma coins_in_range_validI:
  "Coins_IsValid s \<Longrightarrow> (\<And>d. int_in_range (amt s d)) \<Longrightarrow> coins_in_range s"
  by (simp add: nf_in_rangeI valid_nf)

subsection \<open>Properties\<close>

text \<open>\<open>NewCoins\<close> accepts a list exactly when its non-zero coins are positive, with valid and
  pairwise different denominations; it then returns a valid set with the amounts of the list.\<close>

theorem NewCoins_accepts:
  "case NewCoins cs of
     Inl e \<Rightarrow> \<not> (distinct (denoms (removeZeroCoins cs)) \<and>
       list_all (\<lambda>c. 0 < Amount c \<and> reDnm_match (Denom c)) (removeZeroCoins cs))
   | Inr s \<Rightarrow> Coins_IsValid s \<and> mset s = mset (removeZeroCoins cs) \<and>
       (distinct (denoms cs) \<longrightarrow> amt s = amt cs)"
proof -
  let ?nz = "removeZeroCoins cs"
  have sort: "sanitizeCoins cs = Coins_Sort ?nz" "mset (Coins_Sort ?nz) = mset ?nz" "set (Coins_Sort ?nz) = set ?nz"
    by (simp_all add: sanitize_sort Coins_Sort_def)
  show ?thesis
  proof (cases "NewCoins cs")
    case (Inl e)
    then have "\<not> Coins_IsValid (Coins_Sort ?nz)" using NewCoins_Inr_iff [of cs] sort(1) by auto
    with Inl show ?thesis using Sort_ordered(1) [of ?nz] by (auto simp: Coins_IsValid_iff sort(3) list_all_iff)
  next
    case (Inr s)
    then have s: "s = Coins_Sort ?nz" "Coins_IsValid s" using NewCoins_Inr_iff [of cs] sort(1) by auto
    have "amt s d = amt cs d" if "distinct (denoms cs)" for d
    proof -
      have "distinct (denoms ?nz)" using that by (simp add: removeZeroCoins_def distinct_map_filter)
      then show ?thesis using s(1) that by (simp add: Sort_ordered(2) amt_removeZero)
    qed
    with Inr s sort show ?thesis by auto
  qed
qed

theorem NewCoins_accepts_witness:
  "\<exists>s. NewCoins [\<lparr>Denom = ''usei'', Amount = 5\<rparr>, \<lparr>Denom = ''uatom'', Amount = 3\<rparr>, \<lparr>Denom = ''foo'', Amount = 0\<rparr>] = Inr s \<and>
    Coins_IsValid s \<and> amt s ''usei'' = 5"
proof -
  let ?cs = "[\<lparr>Denom = ''usei'', Amount = 5\<rparr>, \<lparr>Denom = ''uatom'', Amount = 3\<rparr>, \<lparr>Denom = ''foo'', Amount = 0\<rparr>]"
  have "list_all (\<lambda>c. 0 < Amount c \<and> reDnm_match (Denom c)) (removeZeroCoins ?cs)" by code_simp
  moreover have "distinct (denoms ?cs)" "distinct (denoms (removeZeroCoins ?cs))"
    by (simp_all add: removeZeroCoins_def)
  ultimately show ?thesis using NewCoins_accepts [of ?cs] by (cases "NewCoins ?cs") auto
qed

text \<open>C9. \<open>Add\<close> of two valid sets returns a valid set in which every denomination has the sum of its
  two amounts; it panics exactly when some sum needs more than 256 bits.\<close>

theorem Coins_Add_correct:
  assumes "Coins_IsValid a" and "Coins_IsValid b" and "coins_in_range a" and "coins_in_range b"
  shows "case Coins_Add a b of
      Inl e \<Rightarrow> e = IntOverflow \<and> (\<exists>d. \<not> int_in_range (amt a d + amt b d))
    | Inr s \<Rightarrow> Coins_IsValid s \<and> coins_in_range s \<and> (\<forall>d. amt s d = amt a d + amt b d)"
  by (rule Coins_Add_spec [OF assms])

text \<open>Two valid sets for the witnesses.\<close>

definition coins_a :: Coins where
  "coins_a = [\<lparr>Denom = ''uatom'', Amount = 3\<rparr>, \<lparr>Denom = ''usei'', Amount = 5\<rparr>]"

definition coins_b :: Coins where
  "coins_b = [\<lparr>Denom = ''usei'', Amount = 2\<rparr>]"

lemma coins_ab_valid: "Coins_IsValid coins_a" "Coins_IsValid coins_b" "coins_in_range coins_a" "coins_in_range coins_b"
proof -
  show "Coins_IsValid coins_a" "Coins_IsValid coins_b" by code_simp+
  show "coins_in_range coins_a" "coins_in_range coins_b"
    by (simp_all add: coins_in_range_def coins_a_def coins_b_def int_in_range_iff)
qed

theorem Coins_Add_correct_witness:
  "\<exists>s. Coins_Add coins_a coins_b = Inr s \<and> Coins_IsValid s \<and> amt s ''usei'' = 7"
proof -
  have "int_in_range (amt coins_a d + amt coins_b d)" for d
    by (simp add: coins_a_def coins_b_def int_in_range_iff)
  with Coins_Add_correct [OF coins_ab_valid] show ?thesis
    by (cases "Coins_Add coins_a coins_b") (auto simp: coins_a_def coins_b_def)
qed

text \<open>C19. \<open>Sub\<close> of two valid sets returns a valid set with the differences of the amounts; it panics
  exactly when some difference is negative, and never overflows.\<close>

theorem Coins_Sub_correct:
  assumes "Coins_IsValid a" and "Coins_IsValid b" and "coins_in_range a" and "coins_in_range b"
  shows "case Coins_Sub a b of
      Inl e \<Rightarrow> e = NegativeCoinAmount \<and> IsAllGTE a b = Inr False
    | Inr s \<Rightarrow> Coins_IsValid s \<and> IsAllGTE a b = Inr True \<and> (\<forall>d. amt s d = amt a d - amt b d)"
proof -
  have "0 \<le> amt s d" if "Coins_IsValid s" for s d using that by (rule valid_amt_nonneg)
  with Coins_Sub_spec [OF assms] show ?thesis
    by (auto simp: IsAllGTE_valid assms(1,2) not_le split: sum.splits) (metis diff_ge_0_iff_ge)+
qed

theorem Coins_Sub_correct_witness:
  "Coins_Sub coins_b coins_a = Inl NegativeCoinAmount"
proof -
  have "amt coins_b ''uatom'' < amt coins_a ''uatom''" by (simp add: coins_a_def coins_b_def)
  then have "\<not> (\<forall>d. amt coins_a d \<le> amt coins_b d)" by (metis not_le)
  then have "IsAllGTE coins_b coins_a = Inr False" by (simp add: IsAllGTE_valid coins_ab_valid)
  with Coins_Sub_correct [OF coins_ab_valid(2,1,4,3)] show ?thesis
    by (cases "Coins_Sub coins_b coins_a") auto
qed

text \<open>Subtraction undoes addition: whenever the sum of two valid sets exists, subtracting the second
  set from it gives the first set back.\<close>

theorem Coins_Sub_Add:
  assumes "Coins_IsValid a" and "Coins_IsValid b" and "coins_in_range a" and "coins_in_range b"
    and "Coins_Add a b = Inr s"
  shows "Coins_Sub s b = Inr a"
  using Coins_Add_spec [OF assms(1-4)] assms(5)
  by (intro Coins_Sub_Inr_unique) (simp_all add: assms(1-4))

theorem Coins_Sub_Add_witness:
  "Coins_Sub [\<lparr>Denom = ''uatom'', Amount = 3\<rparr>, \<lparr>Denom = ''usei'', Amount = 7\<rparr>] coins_b = Inr coins_a"
proof (rule Coins_Sub_Add [OF coins_ab_valid])
  have "Coins_isSorted coins_a" "Coins_isSorted coins_b" by code_simp+
  then show "Coins_Add coins_a coins_b = Inr [\<lparr>Denom = ''uatom'', Amount = 3\<rparr>, \<lparr>Denom = ''usei'', Amount = 7\<rparr>]"
    by (simp add: Coins_Add_def safeAdd_def)
      (simp add: coins_a_def coins_b_def Coin_Add_def Int_Add_iff int_in_range_iff removeZeroCoins_def)
qed

text \<open>\<open>Max\<close> and \<open>Min\<close> of two valid sets are valid, take the larger and the smaller amount of every
  denomination, are the least upper and the greatest lower bound for \<open>IsAllLTE\<close>, and add up to the sum
  of the two sets, as the comments of the two functions state.\<close>

theorem Coins_Max_Min_laws:
  assumes "Coins_IsValid a" and "Coins_IsValid b" and "Coins_IsValid c"
    and "coins_in_range a" and "coins_in_range b"
  shows "\<exists>mx mn. Coins_Max a b = Inr mx \<and> Coins_Min a b = Inr mn \<and> Coins_IsValid mx \<and> Coins_IsValid mn \<and>
    (\<forall>d. amt mx d = max (amt a d) (amt b d) \<and> amt mn d = min (amt a d) (amt b d)) \<and>
    (IsAllLTE mx c = Inr True \<longleftrightarrow> IsAllLTE a c = Inr True \<and> IsAllLTE b c = Inr True) \<and>
    (IsAllLTE c mn = Inr True \<longleftrightarrow> IsAllLTE c a = Inr True \<and> IsAllLTE c b = Inr True) \<and>
    Coins_Add a b = Coins_Add mn mx"
proof (intro exI conjI)
  note mx = max_merge_spec [OF assms(1,2)] and mn = min_merge_spec [OF assms(1,2)]
  show "Coins_Max a b = Inr (max_merge a b)" "Coins_Min a b = Inr (min_merge a b)"
    by (rule Coins_Max_spec [OF assms(1,2)], rule Coins_Min_spec [OF assms(1,2)])
  show "Coins_IsValid (max_merge a b)" "Coins_IsValid (min_merge a b)" using mx mn by simp_all
  show "\<forall>d. amt (max_merge a b) d = max (amt a d) (amt b d) \<and> amt (min_merge a b) d = min (amt a d) (amt b d)"
    using mx mn by simp
  show "IsAllLTE (max_merge a b) c = Inr True \<longleftrightarrow> IsAllLTE a c = Inr True \<and> IsAllLTE b c = Inr True"
    using mx assms by (auto simp: IsAllLTE_def IsAllGTE_valid)
  show "IsAllLTE c (min_merge a b) = Inr True \<longleftrightarrow> IsAllLTE c a = Inr True \<and> IsAllLTE c b = Inr True"
    using mn assms by (auto simp: IsAllLTE_def IsAllGTE_valid)
  have range: "int_in_range (amt a d)" "int_in_range (amt b d)" for d
    using assms by (simp_all add: coins_in_range_amt)
  have "coins_in_range (max_merge a b)" "coins_in_range (min_merge a b)"
    using mx mn range by (intro coins_in_range_validI; simp add: max_def min_def)+
  with mx mn assms show "Coins_Add a b = Coins_Add (min_merge a b) (max_merge a b)"
    by (intro Coins_Add_cong) (simp_all add: min_def max_def)
qed

theorem Coins_Max_Min_laws_witness:
  "\<exists>mx. Coins_Max coins_a coins_b = Inr mx \<and> amt mx ''usei'' = 5 \<and> IsAllLTE mx coins_a = Inr True"
proof -
  have le: "IsAllLTE coins_a coins_a = Inr True" "IsAllLTE coins_b coins_a = Inr True"
    by (simp_all add: IsAllLTE_def IsAllGTE_valid coins_ab_valid) (simp add: coins_a_def coins_b_def)
  with Coins_Max_Min_laws [OF coins_ab_valid(1,2,1,3,4)] show ?thesis
    by (auto simp: coins_a_def coins_b_def)
qed

text \<open>The comparisons of valid sets are those of their amounts: \<open>DenomsSubsetOf\<close> is inclusion of the
  denominations, \<open>IsAllGTE\<close> compares every denomination, \<open>IsAllGT\<close> the denominations of the argument,
  \<open>IsAnyGT\<close> looks for a common denomination with a larger amount, and \<open>IsEqual\<close> accepts equal sets only.\<close>

theorem Coins_comparisons:
  assumes "Coins_IsValid a" and "Coins_IsValid b"
  shows "(DenomsSubsetOf a b \<longleftrightarrow> (\<forall>d. 0 < amt a d \<longrightarrow> 0 < amt b d)) \<and>
    IsAllGTE a b = Inr (\<forall>d. amt b d \<le> amt a d) \<and>
    IsAllGT a b = Inr (a \<noteq> [] \<and> (\<forall>d. 0 < amt b d \<longrightarrow> amt b d < amt a d)) \<and>
    IsAnyGT a b = Inr (\<exists>d. 0 < amt b d \<and> amt b d < amt a d) \<and>
    (Coins_IsEqual a b = Inr True \<longleftrightarrow> a = b)"
  using DenomsSubsetOf_amt [OF assms] IsAllGTE_valid [OF assms] IsAllGT_valid [OF assms]
    IsAnyGT_valid [OF assms] IsEqual_valid [OF assms] by (intro conjI)

theorem Coins_comparisons_witness:
  "DenomsSubsetOf coins_b coins_a \<and> IsAllGTE coins_b coins_a = Inr False"
proof -
  have "amt coins_b ''uatom'' < amt coins_a ''uatom''" by (simp add: coins_a_def coins_b_def)
  then have "\<not> (\<forall>d. amt coins_a d \<le> amt coins_b d)" by (metis not_le)
  moreover have "\<forall>d. 0 < amt coins_b d \<longrightarrow> 0 < amt coins_a d" by (simp add: coins_a_def coins_b_def)
  ultimately show ?thesis using Coins_comparisons [OF coins_ab_valid(2,1)] by simp
qed

text \<open>The documented contract of \<open>Add\<close>, that its result is always valid, needs valid arguments: the
  function only checks that its arguments are sorted, and it returns sets with a negative amount
  or with a duplicate denomination for sorted arguments that have them.\<close>

theorem Coins_Add_invalid_result:
  "Coins_Add [\<lparr>Denom = ''usei'', Amount = 2\<rparr>] [\<lparr>Denom = ''usei'', Amount = - 3\<rparr>] =
     Inr [\<lparr>Denom = ''usei'', Amount = - 1\<rparr>] \<and>
   Coins_Add [\<lparr>Denom = ''usei'', Amount = 1\<rparr>, \<lparr>Denom = ''usei'', Amount = 1\<rparr>] [] =
     Inr [\<lparr>Denom = ''usei'', Amount = 1\<rparr>, \<lparr>Denom = ''usei'', Amount = 1\<rparr>] \<and>
   \<not> Coins_IsValid [\<lparr>Denom = ''usei'', Amount = - 1\<rparr>] \<and>
   \<not> Coins_IsValid [\<lparr>Denom = ''usei'', Amount = 1\<rparr>, \<lparr>Denom = ''usei'', Amount = 1\<rparr>]"
  by (simp add: Coins_Add_def safeAdd_def Coin_Add_def Int_Add_iff int_in_range_iff removeZeroCoins_def)

end
