(* ===== verification/Decimal.thy ===== *)
theory Decimal
  imports SdkInt
begin

text \<open>
  Fixed-point decimals: the arithmetic of \<open>src/sei-cosmos/types/decimal.go\<close>.

  A \<open>Dec\<close> is a big integer that counts units of \<open>10 ^ -18\<close>; it is an \<open>int\<close> here (the
  uninitialised \<open>Dec\<close> is not represented). Operations whose result needs more than
  \<open>maxDecBitLen\<close> bits panic.
\<close>

type_synonym dec = int

definition Precision :: nat where
  "Precision = 18"

definition DecimalPrecisionBits :: nat where
  "DecimalPrecisionBits = 60"

definition intBitLen :: nat where
  "intBitLen = 256"

definition maxDecBitLen :: nat where
  "maxDecBitLen = intBitLen + DecimalPrecisionBits - 1"

definition maxApproxRootIterations :: nat where
  "maxApproxRootIterations = 100"

definition precisionReuse :: int where
  "precisionReuse = 10 ^ Precision"

definition fivePrecision :: int where
  "fivePrecision = precisionReuse sdiv 2"

definition ZeroDec :: dec where "ZeroDec = 0"
definition OneDec :: dec where "OneDec = precisionReuse"
definition SmallestDec :: dec where "SmallestDec = 1"

definition IsInValidRange :: "dec \<Rightarrow> bool" where
  "IsInValidRange d \<longleftrightarrow> BitLen d \<le> maxDecBitLen"

definition assertInValidRange :: "dec \<Rightarrow> sdk_panic + dec" where
  "assertInValidRange d = (if IsInValidRange d then Inr d else Inl DecOutOfRange)"

subsection \<open>Construction\<close>

text \<open>The table of multipliers is indexed with the precision; a negative one is out of its bounds.\<close>

definition precisionMultiplier :: "int \<Rightarrow> sdk_panic + int" where
  "precisionMultiplier prec =
     (if prec > int Precision then Inl TooMuchPrecision
      else if prec < 0 then Inl OutOfBound
      else Inr (10 ^ (Precision - nat prec)))"

definition NewDecWithPrec :: "int \<Rightarrow> int \<Rightarrow> sdk_panic + dec" where
  "NewDecWithPrec i prec = sum_bind (precisionMultiplier prec) (\<lambda>m. Inr (i * m))"

definition NewDec :: "int \<Rightarrow> sdk_panic + dec" where
  "NewDec i = NewDecWithPrec i 0"

definition NewDecFromBigIntWithPrec :: "int \<Rightarrow> int \<Rightarrow> sdk_panic + dec" where
  "NewDecFromBigIntWithPrec i prec =
     sum_bind (precisionMultiplier prec) (\<lambda>m. assertInValidRange (i * m))"

definition NewDecFromBigInt :: "int \<Rightarrow> sdk_panic + dec" where
  "NewDecFromBigInt i = NewDecFromBigIntWithPrec i 0"

definition NewDecFromIntWithPrec :: "int \<Rightarrow> int \<Rightarrow> sdk_panic + dec" where
  "NewDecFromIntWithPrec i prec =
     sum_bind (precisionMultiplier prec) (\<lambda>m. assertInValidRange (i * m))"

definition NewDecFromInt :: "int \<Rightarrow> sdk_panic + dec" where
  "NewDecFromInt i = NewDecFromIntWithPrec i 0"

subsection \<open>Rounding\<close>

text \<open>The part of \<open>chopPrecisionAndRound\<close> for numbers that are not negative.\<close>

definition chop_round_nonneg :: "int \<Rightarrow> int" where
  "chop_round_nonneg d =
     (let quo = d sdiv precisionReuse; rem = d smod precisionReuse
      in if rem = 0 then quo
         else if rem < fivePrecision then quo
         else if rem > fivePrecision then quo + 1
         else if even quo then quo else quo + 1)"

definition chopPrecisionAndRound :: "int \<Rightarrow> int" where
  "chopPrecisionAndRound d = (if d < 0 then - chop_round_nonneg (- d) else chop_round_nonneg d)"

definition chopPrecisionAndTruncate :: "int \<Rightarrow> int" where
  "chopPrecisionAndTruncate d = d sdiv precisionReuse"

definition chopPrecisionAndRoundUp :: "int \<Rightarrow> int" where
  "chopPrecisionAndRoundUp d =
     (if d < 0 then - chopPrecisionAndTruncate (- d)
      else let quo = d sdiv precisionReuse; rem = d smod precisionReuse
           in if rem = 0 then quo else quo + 1)"

subsection \<open>Arithmetic\<close>

definition Dec_Neg :: "dec \<Rightarrow> dec" where "Dec_Neg d = - d"
definition Dec_Abs :: "dec \<Rightarrow> dec" where "Dec_Abs d = \<bar>d\<bar>"

definition Dec_Add :: "dec \<Rightarrow> dec \<Rightarrow> sdk_panic + dec" where
  "Dec_Add d d2 = assertInValidRange (d + d2)"

definition Dec_Sub :: "dec \<Rightarrow> dec \<Rightarrow> sdk_panic + dec" where
  "Dec_Sub d d2 = assertInValidRange (d - d2)"

definition Dec_Mul :: "dec \<Rightarrow> dec \<Rightarrow> sdk_panic + dec" where
  "Dec_Mul d d2 = assertInValidRange (chopPrecisionAndRound (d * d2))"

definition Dec_MulTruncate :: "dec \<Rightarrow> dec \<Rightarrow> sdk_panic + dec" where
  "Dec_MulTruncate d d2 = assertInValidRange (chopPrecisionAndTruncate (d * d2))"

definition Dec_MulInt :: "dec \<Rightarrow> int \<Rightarrow> sdk_panic + dec" where
  "Dec_MulInt d i = assertInValidRange (d * i)"

definition Dec_MulInt64 :: "dec \<Rightarrow> int \<Rightarrow> sdk_panic + dec" where
  "Dec_MulInt64 d i = assertInValidRange (d * i)"

text \<open>\<open>big.Int.Quo\<close> panics on a zero divisor.\<close>

definition big_Quo :: "int \<Rightarrow> int \<Rightarrow> sdk_panic + int" where
  "big_Quo x y = (if y = 0 then Inl DivisionByZero else Inr (x sdiv y))"

definition Dec_Quo :: "dec \<Rightarrow> dec \<Rightarrow> sdk_panic + dec" where
  "Dec_Quo d d2 =
     (let mul = d * precisionReuse * precisionReuse
      in sum_bind (big_Quo mul d2) (\<lambda>quo. assertInValidRange (chopPrecisionAndRound quo)))"

definition Dec_QuoTruncate :: "dec \<Rightarrow> dec \<Rightarrow> sdk_panic + dec" where
  "Dec_QuoTruncate d d2 =
     (let mul = d * precisionReuse * precisionReuse
      in sum_bind (big_Quo mul d2) (\<lambda>quo. assertInValidRange (chopPrecisionAndTruncate quo)))"

definition Dec_QuoRoundUp :: "dec \<Rightarrow> dec \<Rightarrow> sdk_panic + dec" where
  "Dec_QuoRoundUp d d2 =
     (let mul = d * precisionReuse * precisionReuse
      in sum_bind (big_Quo mul d2) (\<lambda>quo. assertInValidRange (chopPrecisionAndRoundUp quo)))"

definition Dec_QuoInt :: "dec \<Rightarrow> int \<Rightarrow> sdk_panic + dec" where
  "Dec_QuoInt d i = big_Quo d i"

definition Dec_QuoInt64 :: "dec \<Rightarrow> int \<Rightarrow> sdk_panic + dec" where
  "Dec_QuoInt64 d i = big_Quo d i"

fun power_loop :: "nat \<Rightarrow> dec \<Rightarrow> dec \<Rightarrow> sdk_panic + dec" where
  "power_loop i d tmp =
     (if i > 1 then
        sum_bind (if i mod 2 \<noteq> 0 then Dec_Mul tmp d else Inr tmp) (\<lambda>tmp'.
        sum_bind (Dec_Mul d d) (\<lambda>d'.
          power_loop (i div 2) d' tmp'))
      else Dec_Mul d tmp)"

declare power_loop.simps [simp del]

definition Dec_Power :: "dec \<Rightarrow> nat \<Rightarrow> sdk_panic + dec" where
  "Dec_Power d n = (if n = 0 then Inr OneDec else power_loop n d OneDec)"

text \<open>One round of Newton's method; a panic leaves the guess of the round before and is returned as
  an error.\<close>

definition root_step :: "dec \<Rightarrow> nat \<Rightarrow> dec \<Rightarrow> sdk_panic + dec \<times> dec" where
  "root_step d root guess =
     sum_bind (Dec_Power guess (root - 1)) (\<lambda>p.
       let prev = (if p = 0 then SmallestDec else p) in
       sum_bind (Dec_Quo d prev) (\<lambda>q.
       sum_bind (Dec_Sub q guess) (\<lambda>delta.
       sum_bind (Dec_QuoInt delta (int root)) (\<lambda>delta'.
       sum_bind (Dec_Add guess delta') (\<lambda>guess'.
         Inr (delta', guess'))))))"

fun root_loop :: "nat \<Rightarrow> dec \<Rightarrow> nat \<Rightarrow> dec \<Rightarrow> dec \<Rightarrow> dec \<times> sdk_panic option" where
  "root_loop 0 d root guess delta = (guess, None)"
| "root_loop (Suc iters) d root guess delta =
     (if Dec_Abs delta > SmallestDec then
        (case root_step d root guess of
           Inl e \<Rightarrow> (guess, Some e)
         | Inr (delta', guess') \<Rightarrow> root_loop iters d root guess' delta')
      else (guess, None))"

definition approx_root_nonneg :: "dec \<Rightarrow> nat \<Rightarrow> dec \<times> sdk_panic option" where
  "approx_root_nonneg d root =
     (if root = 1 \<or> d = 0 \<or> d = OneDec then (d, None)
      else if root = 0 then (OneDec, None)
      else root_loop maxApproxRootIterations d root OneDec OneDec)"

text \<open>The negation of the root of \<open>|d|\<close>; both negations are range checked in the code, and a panic
  of the second one is recovered like any other.\<close>

definition ApproxRoot :: "dec \<Rightarrow> nat \<Rightarrow> dec \<times> sdk_panic option" where
  "ApproxRoot d root =
     (if d < 0 then
        (case Dec_MulInt64 d (-1) of
           Inl e \<Rightarrow> (ZeroDec, Some e)
         | Inr d' \<Rightarrow>
             (case approx_root_nonneg d' root of
                (absRoot, err) \<Rightarrow>
                  (case Dec_MulInt64 absRoot (-1) of
                     Inl e \<Rightarrow> (ZeroDec, Some e)
                   | Inr r \<Rightarrow> (r, err))))
      else approx_root_nonneg d root)"

definition ApproxSqrt :: "dec \<Rightarrow> dec \<times> sdk_panic option" where
  "ApproxSqrt d = ApproxRoot d 2"

definition Dec_IsInteger :: "dec \<Rightarrow> bool" where
  "Dec_IsInteger d \<longleftrightarrow> d smod precisionReuse = 0"

subsection \<open>Conversion\<close>

definition RoundInt64 :: "dec \<Rightarrow> sdk_panic + int" where
  "RoundInt64 d = (let chopped = chopPrecisionAndRound d in if \<not> Int_IsInt64 chopped then Inl OutOfBound else Inr chopped)"

definition RoundInt :: "dec \<Rightarrow> sdk_panic + int" where
  "RoundInt d = NewIntFromBigInt (chopPrecisionAndRound d)"

definition TruncateInt64 :: "dec \<Rightarrow> sdk_panic + int" where
  "TruncateInt64 d = (let chopped = chopPrecisionAndTruncate d in if \<not> Int_IsInt64 chopped then Inl OutOfBound else Inr chopped)"

definition TruncateInt :: "dec \<Rightarrow> sdk_panic + int" where
  "TruncateInt d = NewIntFromBigInt (chopPrecisionAndTruncate d)"

definition TruncateDec :: "dec \<Rightarrow> sdk_panic + dec" where
  "TruncateDec d = NewDecFromBigInt (chopPrecisionAndTruncate d)"

definition Dec_Ceil :: "dec \<Rightarrow> sdk_panic + dec" where
  "Dec_Ceil d =
     (let quo = d sdiv precisionReuse; rem = d smod precisionReuse
      in sum_bind (if rem = 0 then NewDecFromBigInt quo
                   else if rem < 0 then NewDecFromBigInt quo
                   else NewDecFromBigInt (quo + 1)) assertInValidRange)"

fun DecsEqual :: "dec list \<Rightarrow> dec list \<Rightarrow> bool" where
  "DecsEqual [] [] \<longleftrightarrow> True"
| "DecsEqual (x # xs) (y # ys) \<longleftrightarrow> x = y \<and> DecsEqual xs ys"
| "DecsEqual _ _ \<longleftrightarrow> False"

definition MinDec :: "dec \<Rightarrow> dec \<Rightarrow> dec" where
  "MinDec d1 d2 = (if d1 < d2 then d1 else d2)"

definition MaxDec :: "dec \<Rightarrow> dec \<Rightarrow> dec" where
  "MaxDec d1 d2 = (if d1 < d2 then d2 else d1)"

subsection \<open>Rounding to the nearest\<close>

lemma precisionReuse_pos [simp]: "0 < precisionReuse"
  by (simp add: precisionReuse_def)

lemma precisionReuse_nz [simp]: "precisionReuse \<noteq> 0"
  using precisionReuse_pos by linarith

lemma precisionReuse_abs [simp]: "\<bar>precisionReuse\<bar> = precisionReuse" "0 \<le> precisionReuse"
  using precisionReuse_pos by linarith+

lemma precisionReuse_half: "precisionReuse = 2 * fivePrecision"
  by (simp add: fivePrecision_def precisionReuse_def Precision_def)

lemma fivePrecision_pos [simp]: "0 < fivePrecision"
  using precisionReuse_half precisionReuse_pos by linarith

text \<open>\<open>r\<close> is a multiple of the unit nearest to \<open>d\<close>, the even one of two.\<close>

definition rounds_to :: "int \<Rightarrow> int \<Rightarrow> bool" where
  "rounds_to d r \<longleftrightarrow>
     2 * \<bar>r * precisionReuse - d\<bar> \<le> precisionReuse \<and>
     (2 * \<bar>r * precisionReuse - d\<bar> = precisionReuse \<longrightarrow> even r)"

lemma sdiv_nonneg: "0 \<le> (d :: int) \<Longrightarrow> d sdiv precisionReuse = d div precisionReuse"
  by (simp add: signed_divide_int_def sgn_if)

lemma smod_nonneg: "0 \<le> (d :: int) \<Longrightarrow> d smod precisionReuse = d mod precisionReuse"
  by (simp add: signed_modulo_int_def sgn_if)

lemma chop_round_nonneg_rounds:
  assumes "0 \<le> d"
  shows "rounds_to d (chop_round_nonneg d)"
proof -
  define q where "q = d div precisionReuse"
  define m where "m = d mod precisionReuse"
  have d: "d = q * precisionReuse + m" by (simp add: q_def m_def)
  have m: "0 \<le> m" "m < precisionReuse" by (simp_all add: m_def)
  have chop: "chop_round_nonneg d = (if m = 0 then q else if m < fivePrecision then q
      else if m > fivePrecision then q + 1 else if even q then q else q + 1)"
    using assms by (simp add: chop_round_nonneg_def sdiv_nonneg smod_nonneg q_def m_def)
  have at: "\<bar>q * precisionReuse - d\<bar> = m" "\<bar>(q + 1) * precisionReuse - d\<bar> = precisionReuse - m"
    using m by (simp_all add: d algebra_simps)
  note half = precisionReuse_half fivePrecision_pos
  consider "m < fivePrecision" | "m > fivePrecision" | "m = fivePrecision" by linarith
  then show ?thesis
  proof cases
    case 1
    then have "chop_round_nonneg d = q" by (simp add: chop)
    with 1 half show ?thesis by (simp add: rounds_to_def at)
  next
    case 2
    moreover have "m \<noteq> 0" using 2 fivePrecision_pos by linarith
    ultimately have "chop_round_nonneg d = q + 1" by (simp add: chop)
    moreover have "2 * (precisionReuse - m) < precisionReuse"
      unfolding precisionReuse_half using 2 by simp
    then have "rounds_to d (q + 1)" unfolding rounds_to_def at(2) by simp
    ultimately show ?thesis by simp
  next
    case 3
    moreover have "m \<noteq> 0" using 3 fivePrecision_pos by linarith
    ultimately have "chop_round_nonneg d = (if even q then q else q + 1)" by (simp add: chop)
    moreover have "2 * m = precisionReuse" "2 * (precisionReuse - m) = precisionReuse"
      unfolding precisionReuse_half using 3 by simp_all
    then have "even q \<Longrightarrow> rounds_to d q" "odd q \<Longrightarrow> rounds_to d (q + 1)"
      unfolding rounds_to_def at by simp_all
    ultimately show ?thesis by simp
  qed
qed

lemma rounds_to_minus: "rounds_to (- d) (- r) \<longleftrightarrow> rounds_to d r"
proof -
  have "\<bar>- r * precisionReuse - - d\<bar> = \<bar>r * precisionReuse - d\<bar>" by (simp add: abs_minus_commute)
  then show ?thesis by (simp add: rounds_to_def)
qed

lemma chop_rounds: "rounds_to d (chopPrecisionAndRound d)"
proof (cases "d < 0")
  case True
  then have "rounds_to (- d) (chop_round_nonneg (- d))" by (intro chop_round_nonneg_rounds) simp
  with True show ?thesis
    using rounds_to_minus [of d "- chop_round_nonneg (- d)"] by (simp add: chopPrecisionAndRound_def)
next
  case False
  then show ?thesis by (simp add: chopPrecisionAndRound_def chop_round_nonneg_rounds)
qed

lemma rounds_to_unique:
  assumes "rounds_to d r" and "rounds_to d r'"
  shows "r = r'"
proof (rule ccontr)
  assume ne: "r \<noteq> r'"
  let ?P = precisionReuse
  have "\<bar>r * ?P - r' * ?P\<bar> \<le> \<bar>r * ?P - d\<bar> + \<bar>r' * ?P - d\<bar>" by linarith
  then have le: "\<bar>r - r'\<bar> * ?P \<le> \<bar>r * ?P - d\<bar> + \<bar>r' * ?P - d\<bar>"
    by (metis abs_mult left_diff_distrib precisionReuse_abs(1))
  have "1 * ?P \<le> \<bar>r - r'\<bar> * ?P" using ne by (intro mult_right_mono) auto
  moreover have "2 * \<bar>r * ?P - d\<bar> \<le> ?P" "2 * \<bar>r' * ?P - d\<bar> \<le> ?P"
    using assms by (simp_all add: rounds_to_def)
  moreover have "2 * x = P \<and> 2 * y = P \<and> z \<le> 1 * P"
    if "1 * P \<le> z" "z \<le> x + y" "2 * x \<le> P" "2 * y \<le> P" for x y z P :: int
    using that by linarith
  ultimately have eq: "2 * \<bar>r * ?P - d\<bar> = ?P" "2 * \<bar>r' * ?P - d\<bar> = ?P" "\<bar>r - r'\<bar> * ?P \<le> 1 * ?P"
    using le by blast+
  then have "even r" "even r'" using assms by (simp_all add: rounds_to_def)
  moreover from eq(3) have "\<bar>r - r'\<bar> \<le> 1" by (simp only: mult_le_cancel_right_pos precisionReuse_pos)
  moreover from this ne have "\<bar>r - r'\<bar> = 1" by linarith
  ultimately show False by (metis dvd_abs_iff dvd_diff odd_one)
qed

lemma chop_iff: "chopPrecisionAndRound d = r \<longleftrightarrow> rounds_to d r"
  using chop_rounds rounds_to_unique by blast

lemma chop_exact: "chopPrecisionAndRound (k * precisionReuse) = k"
  unfolding chop_iff by (simp add: rounds_to_def)

lemma chop_mono:
  assumes "a \<le> b"
  shows "chopPrecisionAndRound a \<le> chopPrecisionAndRound b"
proof (rule ccontr)
  let ?P = precisionReuse and ?r = "chopPrecisionAndRound a" and ?s = "chopPrecisionAndRound b"
  assume gt: "\<not> ?r \<le> ?s"
  then have "(?s + 1) * ?P \<le> ?r * ?P" by (intro mult_right_mono) simp_all
  then have "?s * ?P + ?P \<le> ?r * ?P" by (simp add: distrib_right)
  moreover have "2 * \<bar>?r * ?P - a\<bar> \<le> ?P" "2 * \<bar>?s * ?P - b\<bar> \<le> ?P"
    using chop_rounds [of a] chop_rounds [of b] by (simp_all add: rounds_to_def)
  moreover have "?r * ?P - a \<le> \<bar>?r * ?P - a\<bar>" "b - ?s * ?P \<le> \<bar>?s * ?P - b\<bar>" by simp_all
  moreover have "b \<le> a" if "S + P \<le> R" "2 * u \<le> P" "2 * v \<le> P" "R - a \<le> u" "b - S \<le> v" for R S P u v
    using that by linarith
  ultimately have "b \<le> a" by blast
  with assms gt show False by simp
qed

lemma assertInValidRange_iff: "assertInValidRange d = Inr r \<longleftrightarrow> IsInValidRange d \<and> r = d"
  by (auto simp: assertInValidRange_def)

lemma IsInValidRange_abs: "IsInValidRange d \<longleftrightarrow> \<bar>d\<bar> < 2 ^ maxDecBitLen"
  by (simp add: IsInValidRange_def BitLen_le_iff)

lemma IsInValidRange_mono: "\<bar>a\<bar> \<le> \<bar>b\<bar> \<Longrightarrow> IsInValidRange b \<Longrightarrow> IsInValidRange a"
  by (simp add: IsInValidRange_abs)

subsection \<open>Quotients\<close>

lemma sdiv_mult_cancel:
  assumes "0 < (c :: int)" and "b \<noteq> 0"
  shows "(a * c) sdiv b sdiv c = a sdiv b"
proof -
  define q where "q = \<bar>a\<bar> * c div \<bar>b\<bar>"
  have q: "0 \<le> q" using assms by (simp add: q_def pos_imp_zdiv_nonneg_iff)
  have "q div c = \<bar>a\<bar> * c div (\<bar>b\<bar> * c)" using assms by (simp add: q_def zdiv_zmult2_eq)
  also have "\<dots> = \<bar>a\<bar> div \<bar>b\<bar>" using assms by simp
  finally have div: "q div c = \<bar>a\<bar> div \<bar>b\<bar>" .
  have ac: "(a * c) sdiv b = sgn a * sgn b * q"
    using assms by (simp add: signed_divide_int_def q_def abs_mult sgn_mult)
  show ?thesis
  proof (cases "q = 0")
    case True
    then have "a sdiv b = 0" using div by (simp add: signed_divide_int_def)
    with True show ?thesis by (simp add: ac)
  next
    case False
    then have "(sgn a * sgn b * q) sdiv c = sgn a * sgn b * (q div c)" if "a \<noteq> 0"
      using that assms q by (simp add: signed_divide_int_def abs_mult sgn_mult)
    then show ?thesis by (cases "a = 0") (simp_all add: ac div, simp add: signed_divide_int_def)
  qed
qed

lemma QuoTruncate_exact:
  assumes "d2 \<noteq> 0"
  shows "Dec_QuoTruncate d d2 = assertInValidRange ((d * precisionReuse) sdiv d2)"
  using sdiv_mult_cancel [OF precisionReuse_pos assms, of "d * precisionReuse"] assms
  by (simp add: Dec_QuoTruncate_def big_Quo_def chopPrecisionAndTruncate_def Let_def)

lemma abs_triangle_scaled:
  assumes "2 * \<bar>x\<bar> \<le> (P :: int)" and "\<bar>y\<bar> < \<bar>e\<bar>"
  shows "2 * \<bar>x * e + y\<bar> < (P + 2) * \<bar>e\<bar>"
proof -
  have "2 * \<bar>x * e\<bar> \<le> P * \<bar>e\<bar>" using mult_right_mono [OF assms(1), of "\<bar>e\<bar>"] by (simp add: abs_mult)
  moreover have "\<bar>x * e + y\<bar> \<le> \<bar>x * e\<bar> + \<bar>y\<bar>" by (rule abs_triangle_ineq)
  ultimately show ?thesis using assms(2) by (simp add: distrib_right)
qed

lemma Quo_error:
  assumes nz: "d2 \<noteq> 0"
  obtains r where "Dec_Quo d d2 = assertInValidRange r"
    and "2 * precisionReuse * \<bar>r * d2 - d * precisionReuse\<bar> < (precisionReuse + 2) * \<bar>d2\<bar>"
proof
  let ?P = precisionReuse
  define q where "q = (d * ?P * ?P) sdiv d2"
  show "Dec_Quo d d2 = assertInValidRange (chopPrecisionAndRound q)"
    using nz by (simp add: Dec_Quo_def big_Quo_def Let_def q_def)
  let ?r = "chopPrecisionAndRound q"
  have r: "rounds_to q ?r" by (rule chop_rounds)
  have "d * ?P * ?P - q * d2 = (d * ?P * ?P) smod d2"
    unfolding q_def by (rule minus_sdiv_mult_eq_smod)
  then have "\<bar>q * d2 - d * ?P * ?P\<bar> < \<bar>d2\<bar>" using abs_smod_less [OF nz] by (metis abs_minus_commute)
  with r have "2 * \<bar>(?r * ?P - q) * d2 + (q * d2 - d * ?P * ?P)\<bar> < (?P + 2) * \<bar>d2\<bar>"
    by (intro abs_triangle_scaled) (simp_all add: rounds_to_def)
  also have "(?r * ?P - q) * d2 + (q * d2 - d * ?P * ?P) = ?P * (?r * d2 - d * ?P)"
    by (simp add: algebra_simps)
  finally show "2 * ?P * \<bar>?r * d2 - d * ?P\<bar> < (?P + 2) * \<bar>d2\<bar>" by (simp add: abs_mult)
qed

lemma chopPrecisionAndRoundUp_nonneg:
  assumes "0 \<le> q"
  shows "q \<le> chopPrecisionAndRoundUp q * precisionReuse"
    and "chopPrecisionAndRoundUp q * precisionReuse < q + precisionReuse"
    and "q = chopPrecisionAndRoundUp q * precisionReuse \<longleftrightarrow> precisionReuse dvd q"
proof -
  let ?r = "chopPrecisionAndRoundUp q"
  define k m where km: "k = q div precisionReuse" "m = q mod precisionReuse"
  have q: "q = k * precisionReuse + m" by (simp add: km)
  have m: "0 \<le> m" "m < precisionReuse" by (simp_all add: km)
  have "?r = (if m = 0 then k else k + 1)"
    using assms by (simp add: chopPrecisionAndRoundUp_def Let_def km sdiv_nonneg smod_nonneg)
  then have r: "?r * precisionReuse = (if m = 0 then q else q - m + precisionReuse)"
    using q by (simp add: distrib_right)
  show "q \<le> ?r * precisionReuse" "?r * precisionReuse < q + precisionReuse" using m r by auto
  have "precisionReuse dvd q \<longleftrightarrow> m = 0" by (simp add: km dvd_eq_mod_eq_0)
  then show "q = ?r * precisionReuse \<longleftrightarrow> precisionReuse dvd q" using m r by auto
qed

lemma QuoRoundUp_error:
  assumes "0 \<le> d" and "0 < d2"
  obtains r where "Dec_QuoRoundUp d d2 = assertInValidRange r"
    and "d * precisionReuse * precisionReuse < (r * precisionReuse + 1) * d2"
    and "r * d2 < d * precisionReuse + d2"
    and "r * d2 < d * precisionReuse \<longleftrightarrow>
      \<not> d2 dvd d * precisionReuse * precisionReuse \<and> precisionReuse dvd d * precisionReuse * precisionReuse div d2"
proof
  let ?P = precisionReuse
  define N q where Nq: "N = d * ?P * ?P" "q = N div d2"
  define r where "r = chopPrecisionAndRoundUp q"
  have N: "0 \<le> N" using assms by (simp add: Nq)
  then have q: "0 \<le> q" using assms by (simp add: Nq(2) pos_imp_zdiv_nonneg_iff)
  note up = chopPrecisionAndRoundUp_nonneg [OF q, folded r_def]
  have m: "N = q * d2 + N mod d2" "0 \<le> N mod d2" "N mod d2 < d2" using assms by (simp_all add: Nq(2))
  have lo: "q * d2 \<le> N" using m by linarith
  have hi: "N < (q + 1) * d2" using m unfolding distrib_right mult_1 by linarith
  have exact: "q * d2 = N \<longleftrightarrow> d2 dvd N" using m(1) by (auto simp: dvd_eq_mod_eq_0)
  have "N sdiv d2 = q" using assms N by (simp add: Nq(2) signed_divide_int_def sgn_if)
  then show "Dec_QuoRoundUp d d2 = assertInValidRange (chopPrecisionAndRoundUp q)"
    using assms by (simp add: Dec_QuoRoundUp_def big_Quo_def Let_def Nq(1))
  have "(q + 1) * d2 \<le> (r * ?P + 1) * d2" using up(1) assms by (intro mult_right_mono) simp_all
  with hi show "d * ?P * ?P < (chopPrecisionAndRoundUp q * ?P + 1) * d2" by (simp add: Nq(1) r_def)
  have "r * ?P * d2 < (q + ?P) * d2" using up(2) assms by (intro mult_strict_right_mono) simp_all
  also have "\<dots> \<le> N + ?P * d2" using lo by (simp add: distrib_right)
  finally have "?P * (r * d2) < ?P * (d * ?P + d2)" by (simp add: Nq(1) algebra_simps)
  then show "chopPrecisionAndRoundUp q * d2 < d * ?P + d2" by (simp add: r_def)
  have scaled: "r * d2 < d * ?P \<longleftrightarrow> r * ?P * d2 < N"
    using mult_less_cancel_left_pos [of ?P "r * d2" "d * ?P"] by (simp add: Nq(1) ac_simps)
  have "r * ?P * d2 < N \<longleftrightarrow> \<not> d2 dvd N \<and> ?P dvd q"
  proof (cases "?P dvd q")
    case True
    then have "r * ?P = q" using up(3) by simp
    with True lo exact show ?thesis by auto
  next
    case False
    then have "(q + 1) * d2 \<le> r * ?P * d2" using up(1,3) assms by (intro mult_right_mono) simp_all
    with False hi show ?thesis by auto
  qed
  with scaled show "chopPrecisionAndRoundUp q * d2 < d * ?P \<longleftrightarrow> \<not> d2 dvd d * ?P * ?P \<and> ?P dvd d * ?P * ?P div d2"
    by (simp add: r_def Nq)
qed

subsection \<open>Powers of whole numbers\<close>

lemma Mul_whole:
  "Dec_Mul (a * precisionReuse) (b * precisionReuse) = assertInValidRange (a * b * precisionReuse)"
proof -
  have "a * precisionReuse * (b * precisionReuse) = (a * b * precisionReuse) * precisionReuse"
    by (simp add: algebra_simps)
  then show ?thesis unfolding Dec_Mul_def by (simp only: chop_exact)
qed

lemma in_range_factor:
  assumes "IsInValidRange (a * b * precisionReuse)" and "b \<noteq> 0"
  shows "IsInValidRange (a * precisionReuse)"
proof (rule IsInValidRange_mono [OF _ assms(1)])
  have "1 * \<bar>a\<bar> \<le> \<bar>b\<bar> * \<bar>a\<bar>" using assms(2) by (intro mult_right_mono) auto
  then have "\<bar>a\<bar> * precisionReuse \<le> \<bar>a * b\<bar> * precisionReuse"
    by (intro mult_right_mono) (simp_all add: abs_mult mult.commute)
  then show "\<bar>a * precisionReuse\<bar> \<le> \<bar>a * b * precisionReuse\<bar>" by (simp add: abs_mult)
qed

lemma power_loop_whole:
  assumes "0 < i" and "k \<noteq> 0" and "t \<noteq> 0" and "IsInValidRange (k ^ i * t * precisionReuse)"
  shows "power_loop i (k * precisionReuse) (t * precisionReuse) = Inr (k ^ i * t * precisionReuse)"
  using assms
proof (induction i arbitrary: k t rule: less_induct)
  case (less i)
  show ?case
  proof (cases "i > 1")
    case False
    with less.prems(1) have "i = 1" by simp
    with less.prems(4) show ?thesis
      by (simp add: power_loop.simps [of "Suc 0"] Mul_whole assertInValidRange_def)
  next
    case True
    define t' where "t' = (if i mod 2 \<noteq> 0 then t * k else t)"
    have t': "t' \<noteq> 0" using less.prems by (simp add: t'_def)
    have pow: "k ^ i * t = (k * k) ^ (i div 2) * t'"
    proof -
      have "k ^ i = (k ^ 2) ^ (i div 2) * k ^ (i mod 2)"
        by (metis power_add power_mult mult_div_mod_eq)
      then show ?thesis by (cases "even i") (auto simp: t'_def power2_eq_square)
    qed
    then have range: "IsInValidRange ((k * k) ^ (i div 2) * t' * precisionReuse)" using less.prems(4) by simp
    have "IsInValidRange (t' * precisionReuse)"
      by (rule in_range_factor [of _ "(k * k) ^ (i div 2)"]) (use range less.prems(2) in \<open>simp_all add: mult.commute\<close>)
    then have tmp: "(if i mod 2 \<noteq> 0 then Dec_Mul (t * precisionReuse) (k * precisionReuse)
        else Inr (t * precisionReuse)) = Inr (t' * precisionReuse)"
      by (cases "i mod 2 = 0") (simp_all add: t'_def Mul_whole assertInValidRange_def)
    obtain j where j: "i div 2 = Suc j" using True by (cases "i div 2") auto
    have "IsInValidRange (k * k * precisionReuse)"
      by (rule in_range_factor [of _ "(k * k) ^ j * t'"])
        (use range j t' less.prems(2) in \<open>simp_all add: ac_simps\<close>)
    then have sq: "Dec_Mul (k * precisionReuse) (k * precisionReuse) = Inr (k * k * precisionReuse)"
      by (simp add: Mul_whole assertInValidRange_def)
    have "power_loop (i div 2) (k * k * precisionReuse) (t' * precisionReuse) =
        Inr ((k * k) ^ (i div 2) * t' * precisionReuse)"
      by (rule less.IH) (use True t' range less.prems(2) in simp_all)
    then show ?thesis using True unfolding power_loop.simps [of i] tmp sq by (simp add: pow)
  qed
qed

lemma power_loop_zero:
  assumes "0 < i"
  shows "power_loop i 0 tmp = Inr 0"
  using assms
proof (induction i arbitrary: tmp rule: less_induct)
  case (less i)
  have zero: "Dec_Mul 0 x = Inr 0" "Dec_Mul x 0 = Inr 0" for x
    using chop_exact [of 0] by (simp_all add: Dec_Mul_def assertInValidRange_def IsInValidRange_def)
  show ?case
  proof (cases "i > 1")
    case False
    then show ?thesis by (simp add: power_loop.simps [of i] zero)
  next
    case True
    then have "power_loop (i div 2) 0 x = Inr 0" for x using less.IH by simp
    with True show ?thesis by (simp add: power_loop.simps [of i] zero)
  qed
qed

subsection \<open>Rounding up\<close>

lemma NewDecFromBigInt_eq: "NewDecFromBigInt i = assertInValidRange (i * precisionReuse)"
  by (simp add: NewDecFromBigInt_def NewDecFromBigIntWithPrec_def precisionMultiplier_def
      precisionReuse_def)

lemma NewDecFromInt_eq: "NewDecFromInt i = assertInValidRange (i * precisionReuse)"
  by (simp add: NewDecFromInt_def NewDecFromIntWithPrec_def precisionMultiplier_def precisionReuse_def)

lemma Ceil_bounds:
  fixes d :: int
  defines "q \<equiv> d sdiv precisionReuse" and "m \<equiv> d smod precisionReuse"
  defines "c \<equiv> (if 0 < m then q + 1 else q)"
  shows "d \<le> c * precisionReuse" and "c * precisionReuse < d + precisionReuse"
proof -
  have d: "d = q * precisionReuse + m" unfolding q_def m_def by (simp add: mult_sdiv_smod_eq mult.commute)
  have "\<bar>m\<bar> < precisionReuse" using abs_smod_less [of precisionReuse d] by (simp add: m_def)
  then have m: "- precisionReuse < m" "m < precisionReuse" by linarith+
  show "d \<le> c * precisionReuse" "c * precisionReuse < d + precisionReuse"
    using m by (auto simp: c_def d distrib_right)
qed

lemma Ceil_eq:
  "Dec_Ceil d = assertInValidRange
     ((if 0 < d smod precisionReuse then d sdiv precisionReuse + 1 else d sdiv precisionReuse) * precisionReuse)"
  by (auto simp: Dec_Ceil_def Let_def NewDecFromBigInt_eq assertInValidRange_def)

subsection \<open>Properties\<close>

text \<open>C16. \<open>Mul\<close> returns the decimal nearest to the exact product, the one with an even last digit
  when two are equally near, and panics exactly when that decimal is out of range.\<close>

theorem Mul_rounds_to_nearest_even:
  "Dec_Mul d d2 = Inr r \<longleftrightarrow>
     IsInValidRange r \<and>
     2 * \<bar>r * precisionReuse - d * d2\<bar> \<le> precisionReuse \<and>
     (2 * \<bar>r * precisionReuse - d * d2\<bar> = precisionReuse \<longrightarrow> even r)"
  using chop_iff [of "d * d2" r]
  by (auto simp: Dec_Mul_def assertInValidRange_iff rounds_to_def)

theorem Mul_rounds_to_nearest_even_witness:
  "Dec_Mul (5 * 10 ^ 17) 3 = Inr 2 \<and> even (2 :: int)"
  using Mul_rounds_to_nearest_even [of "5 * 10 ^ 17" 3 2]
  by (simp add: precisionReuse_def Precision_def IsInValidRange_abs maxDecBitLen_def intBitLen_def
      DecimalPrecisionBits_def)

text \<open>C30. Division by a decimal other than zero: there is one result, returned when it is in range and
  answered by the range panic otherwise. For \<open>QuoTruncate\<close> it is exactly the truncated quotient, although
  the code divides twice; for \<open>Quo\<close> it differs from the exact quotient by less than half a unit and one
  part in \<open>10 ^ 18\<close> of a unit (it rounds a quotient that was already truncated).\<close>

theorem Quo_accuracy:
  assumes "d2 \<noteq> 0"
  shows "\<exists>r t. Dec_Quo d d2 = (if IsInValidRange r then Inr r else Inl DecOutOfRange) \<and>
    2 * precisionReuse * \<bar>r * d2 - d * precisionReuse\<bar> < (precisionReuse + 2) * \<bar>d2\<bar> \<and>
    Dec_QuoTruncate d d2 = (if IsInValidRange t then Inr t else Inl DecOutOfRange) \<and>
    t = (d * precisionReuse) sdiv d2"
proof -
  obtain r where "Dec_Quo d d2 = assertInValidRange r"
    and "2 * precisionReuse * \<bar>r * d2 - d * precisionReuse\<bar> < (precisionReuse + 2) * \<bar>d2\<bar>"
    by (rule Quo_error [OF assms])
  with QuoTruncate_exact [OF assms] show ?thesis
    by (intro exI [of _ r] exI [of _ "(d * precisionReuse) sdiv d2"]) (simp add: assertInValidRange_def)
qed

theorem Quo_accuracy_witness:
  "Dec_Quo (2 * 10 ^ 18) (3 * 10 ^ 18) = Inr 666666666666666667 \<and>
   Dec_QuoTruncate (2 * 10 ^ 18) (3 * 10 ^ 18) = Inr 666666666666666666"
proof -
  obtain r t where q: "Dec_Quo (2 * 10 ^ 18) (3 * 10 ^ 18) = (if IsInValidRange r then Inr r else Inl DecOutOfRange)"
    and e: "2 * precisionReuse * \<bar>r * (3 * 10 ^ 18) - 2 * 10 ^ 18 * precisionReuse\<bar> < (precisionReuse + 2) * \<bar>3 * 10 ^ 18\<bar>"
    and tr: "Dec_QuoTruncate (2 * 10 ^ 18) (3 * 10 ^ 18) = (if IsInValidRange t then Inr t else Inl DecOutOfRange)"
    and t: "t = (2 * 10 ^ 18 * precisionReuse) sdiv (3 * 10 ^ 18)"
    using Quo_accuracy [of "3 * 10 ^ 18" "2 * 10 ^ 18"] by auto
  have "r = 666666666666666667" using e by (simp add: precisionReuse_def Precision_def abs_if split: if_splits)
  moreover have "t = 666666666666666666" using t by (simp add: precisionReuse_def Precision_def)
  ultimately show ?thesis
    using q tr by (simp add: IsInValidRange_abs maxDecBitLen_def intBitLen_def DecimalPrecisionBits_def)
qed

text \<open>C31. \<open>Power\<close> is exact on whole numbers: raising the decimal of \<open>k\<close> to the power \<open>n\<close> by repeated
  squaring gives the decimal of \<open>k ^ n\<close>, and no intermediate product panics when that is in
  range.\<close>

theorem Power_whole_exact:
  assumes "IsInValidRange (k ^ n * precisionReuse)"
  shows "Dec_Power (k * precisionReuse) n = Inr (k ^ n * precisionReuse)"
proof (cases "n = 0 \<or> k = 0")
  case True
  then show ?thesis by (auto simp: Dec_Power_def OneDec_def power_loop_zero)
next
  case False
  then show ?thesis
    using power_loop_whole [of n k 1] assms by (simp add: Dec_Power_def OneDec_def)
qed

theorem Power_whole_exact_witness:
  "Dec_Power (3 * precisionReuse) 13 = Inr (1594323 * precisionReuse)"
proof -
  have "IsInValidRange (3 ^ 13 * precisionReuse)"
    by (simp add: precisionReuse_def Precision_def IsInValidRange_abs maxDecBitLen_def intBitLen_def
        DecimalPrecisionBits_def)
  from Power_whole_exact [OF this] show ?thesis by simp
qed

text \<open>\<open>Ceil\<close> returns the least whole decimal that is not below its argument and panics exactly
  when that is out of range.\<close>

theorem Ceil_least_whole:
  "Dec_Ceil d = Inr r \<longleftrightarrow> IsInValidRange r \<and> precisionReuse dvd r \<and> d \<le> r \<and> r < d + precisionReuse"
proof -
  let ?c = "(if 0 < d smod precisionReuse then d sdiv precisionReuse + 1 else d sdiv precisionReuse)"
  have "precisionReuse dvd r \<and> d \<le> r \<and> r < d + precisionReuse \<longleftrightarrow> r = ?c * precisionReuse"
  proof
    assume r: "precisionReuse dvd r \<and> d \<le> r \<and> r < d + precisionReuse"
    then obtain k where k: "r = k * precisionReuse" by (metis dvd_def mult.commute)
    have "\<bar>k * precisionReuse - ?c * precisionReuse\<bar> < 1 * precisionReuse"
      using r Ceil_bounds [of d] by (simp add: k abs_less_iff)
    then have "\<bar>k - ?c\<bar> * precisionReuse < 1 * precisionReuse"
      by (metis abs_mult left_diff_distrib precisionReuse_abs(1))
    then have "\<bar>k - ?c\<bar> < 1" by (simp only: mult_less_cancel_right_pos precisionReuse_pos)
    then show "r = ?c * precisionReuse" by (simp add: k)
  next
    assume "r = ?c * precisionReuse"
    with Ceil_bounds [of d] show "precisionReuse dvd r \<and> d \<le> r \<and> r < d + precisionReuse" by simp
  qed
  then show ?thesis by (auto simp: Ceil_eq assertInValidRange_iff)
qed

theorem Ceil_least_whole_witness:
  "Dec_Ceil (- 15) = Inr 0 \<and> Dec_Ceil 1 = Inr (10 ^ 18)"
  using Ceil_least_whole [of "- 15" 0] Ceil_least_whole [of 1 "10 ^ 18"]
  by (simp add: precisionReuse_def Precision_def IsInValidRange_abs maxDecBitLen_def intBitLen_def
      DecimalPrecisionBits_def)

text \<open>C32. \<open>QuoRoundUp\<close> on a non-negative decimal and a positive divisor: the result, returned when it is
  in range, is less than one unit above the exact quotient and at most one part in \<open>10 ^ 18\<close> of a unit below
  it. It is below the exact quotient, so that the code does not round up, exactly when the division of the
  numerator scaled by \<open>10 ^ 36\<close> leaves a remainder and the integer part of that quotient is a multiple
  of \<open>10 ^ 18\<close>: the code rounds a quotient that was already truncated.\<close>

theorem QuoRoundUp_accuracy:
  assumes "0 \<le> d" and "0 < d2"
  shows "\<exists>r. Dec_QuoRoundUp d d2 = (if IsInValidRange r then Inr r else Inl DecOutOfRange) \<and>
    d * precisionReuse * precisionReuse < (r * precisionReuse + 1) * d2 \<and>
    r * d2 < d * precisionReuse + d2 \<and>
    (r * d2 < d * precisionReuse \<longleftrightarrow>
      \<not> d2 dvd d * precisionReuse * precisionReuse \<and> precisionReuse dvd d * precisionReuse * precisionReuse div d2)"
proof -
  obtain r where "Dec_QuoRoundUp d d2 = assertInValidRange r"
    and "d * precisionReuse * precisionReuse < (r * precisionReuse + 1) * d2" "r * d2 < d * precisionReuse + d2"
    and "r * d2 < d * precisionReuse \<longleftrightarrow>
      \<not> d2 dvd d * precisionReuse * precisionReuse \<and> precisionReuse dvd d * precisionReuse * precisionReuse div d2"
    by (rule QuoRoundUp_error [OF assms])
  then show ?thesis by (intro exI [of _ r]) (simp add: assertInValidRange_def)
qed

theorem QuoRoundUp_accuracy_witness:
  "\<exists>r. Dec_QuoRoundUp SmallestDec (2 * 10 ^ 36) = Inr r \<and> r * (2 * 10 ^ 36) < SmallestDec * precisionReuse"
proof -
  obtain r where r: "Dec_QuoRoundUp 1 (2 * 10 ^ 36) = (if IsInValidRange r then Inr r else Inl DecOutOfRange)"
    and lo: "1 * precisionReuse * precisionReuse < (r * precisionReuse + 1) * (2 * 10 ^ 36)"
    and below: "r * (2 * 10 ^ 36) < 1 * precisionReuse \<longleftrightarrow>
      \<not> 2 * 10 ^ 36 dvd 1 * precisionReuse * precisionReuse \<and>
      precisionReuse dvd 1 * precisionReuse * precisionReuse div (2 * 10 ^ 36)"
    using QuoRoundUp_accuracy [of 1 "2 * 10 ^ 36"] by auto
  have lt: "r * (2 * 10 ^ 36) < precisionReuse" using below by (simp add: precisionReuse_def Precision_def)
  with lo have "r = 0" by (simp add: precisionReuse_def Precision_def)
  with r lt show ?thesis
    by (auto simp: SmallestDec_def IsInValidRange_abs maxDecBitLen_def intBitLen_def DecimalPrecisionBits_def)
qed

text \<open>The decimal range does not hold every whole number of 256 bits: the largest \<open>Int\<close>, and even
  the largest decimal below it, are out of range, and the conversion of that \<open>Int\<close> panics.\<close>

theorem decimal_range_below_int_range:
  "int_in_range (2 ^ 256 - 1) \<and> \<not> IsInValidRange ((2 ^ 256 - 1) * precisionReuse - 1) \<and>
   NewDecFromInt (2 ^ 256 - 1) = Inl DecOutOfRange"
  by (simp add: int_in_range_iff NewDecFromInt_eq assertInValidRange_def IsInValidRange_abs
      maxDecBitLen_def intBitLen_def DecimalPrecisionBits_def precisionReuse_def Precision_def)

end
