(* ===== verification/DecCoins.thy ===== *)
theory DecCoins
  imports Coins Decimal
begin

text \<open>
  Coins with decimal amounts: \<open>src/sei-cosmos/types/dec_coin.go\<close>.

  \<open>DecCoin\<close> has the fields of \<open>Coin\<close>, and decimals are integers here, so both are one record. The
  element that \<open>make\<close> puts into a slice (an empty denomination and an uninitialised amount) is the
  coin with an empty denomination and amount 0.
\<close>

type_synonym DecCoin = Coin
type_synonym DecCoins = "DecCoin list"

subsection \<open>Single coins\<close>

definition NewDecCoin :: "string \<Rightarrow> int \<Rightarrow> sdk_panic + DecCoin" where
  "NewDecCoin denom amount =
     sum_bind (NewCoin denom amount) (\<lambda>coin.
     sum_bind (NewDecFromInt (Amount coin)) (\<lambda>d. Inr \<lparr>Denom = Denom coin, Amount = d\<rparr>))"

definition NewDecCoinFromDec :: "string \<Rightarrow> dec \<Rightarrow> sdk_panic + DecCoin" where
  "NewDecCoinFromDec denom amount =
     sum_bind (mustValidateDenom denom) (\<lambda>_.
       if amount < 0 then Inl NegativeAmount else Inr \<lparr>Denom = denom, Amount = amount\<rparr>)"

definition NewDecCoinFromCoin :: "Coin \<Rightarrow> sdk_panic + DecCoin" where
  "NewDecCoinFromCoin coin =
     (case Coin_Validate coin of
        Some e \<Rightarrow> Inl e
      | None \<Rightarrow> sum_bind (NewDecFromInt (Amount coin)) (\<lambda>d. Inr \<lparr>Denom = Denom coin, Amount = d\<rparr>))"

definition DecCoin_IsGTE :: "DecCoin \<Rightarrow> DecCoin \<Rightarrow> sdk_panic + bool" where
  "DecCoin_IsGTE coin other =
     (if Denom coin \<noteq> Denom other then Inl (DenomMismatch (Denom coin) (Denom other))
      else Inr (\<not> Amount coin < Amount other))"

definition DecCoin_IsLT :: "DecCoin \<Rightarrow> DecCoin \<Rightarrow> sdk_panic + bool" where
  "DecCoin_IsLT coin other =
     (if Denom coin \<noteq> Denom other then Inl (DenomMismatch (Denom coin) (Denom other))
      else Inr (Amount coin < Amount other))"

definition DecCoin_IsEqual :: "DecCoin \<Rightarrow> DecCoin \<Rightarrow> sdk_panic + bool" where
  "DecCoin_IsEqual coin other =
     (if Denom coin \<noteq> Denom other then Inl (DenomMismatch (Denom coin) (Denom other))
      else Inr (Amount coin = Amount other))"

definition DecCoin_Add :: "DecCoin \<Rightarrow> DecCoin \<Rightarrow> sdk_panic + DecCoin" where
  "DecCoin_Add coin coinB =
     (if Denom coin \<noteq> Denom coinB then Inl (DenomMismatch (Denom coin) (Denom coinB))
      else sum_bind (Dec_Add (Amount coin) (Amount coinB)) (\<lambda>a. Inr \<lparr>Denom = Denom coin, Amount = a\<rparr>))"

definition DecCoin_Sub :: "DecCoin \<Rightarrow> DecCoin \<Rightarrow> sdk_panic + DecCoin" where
  "DecCoin_Sub coin coinB =
     (if Denom coin \<noteq> Denom coinB then Inl (DenomMismatch (Denom coin) (Denom coinB))
      else sum_bind (Dec_Sub (Amount coin) (Amount coinB)) (\<lambda>a.
        if a < 0 then Inl NegativeCoinAmount else Inr \<lparr>Denom = Denom coin, Amount = a\<rparr>))"

definition DecCoin_TruncateDecimal :: "DecCoin \<Rightarrow> sdk_panic + Coin \<times> DecCoin" where
  "DecCoin_TruncateDecimal coin =
     sum_bind (TruncateInt (Amount coin)) (\<lambda>truncated.
     sum_bind (NewDecFromInt truncated) (\<lambda>whole.
     sum_bind (Dec_Sub (Amount coin) whole) (\<lambda>change.
     sum_bind (NewCoin (Denom coin) truncated) (\<lambda>c.
     sum_bind (NewDecCoinFromDec (Denom coin) change) (\<lambda>d. Inr (c, d))))))"

definition DecCoin_Validate :: "DecCoin \<Rightarrow> sdk_panic option" where
  "DecCoin_Validate coin =
     (case ValidateDenom (Denom coin) of
        Some e \<Rightarrow> Some e
      | None \<Rightarrow>
          if Amount coin < 0 then Some NegativeAmount
          else if \<not> IsInValidRange (Amount coin) then Some DecOutOfRange
          else None)"

subsection \<open>Construction and validation of sets\<close>

definition removeZeroDecCoins :: "DecCoins \<Rightarrow> DecCoins" where
  "removeZeroDecCoins coins = filter (\<lambda>coin. Amount coin \<noteq> 0) coins"

definition DecCoins_Sort :: "DecCoins \<Rightarrow> DecCoins" where
  "DecCoins_Sort coins = sort_key Denom coins"

definition sanitizeDecCoins :: "DecCoins \<Rightarrow> DecCoins" where
  "sanitizeDecCoins decCoins =
     (let newDecCoins = removeZeroDecCoins decCoins
      in if length newDecCoins = 0 then [] else DecCoins_Sort newDecCoins)"

definition validate_single_dec :: "DecCoin \<Rightarrow> sdk_panic option" where
  "validate_single_dec coin =
     (case ValidateDenom (Denom coin) of
        Some e \<Rightarrow> Some e
      | None \<Rightarrow>
          if \<not> Amount coin > 0 then Some (NotPositive (Denom coin))
          else if \<not> IsInValidRange (Amount coin) then Some DecOutOfRange
          else None)"

fun validate_rest_dec :: "string list \<Rightarrow> string \<Rightarrow> DecCoins \<Rightarrow> sdk_panic option" where
  "validate_rest_dec seenDenoms lowDenom [] = None"
| "validate_rest_dec seenDenoms lowDenom (coin # coins) =
     (if Denom coin \<in> set seenDenoms then Some (DuplicateDenom (Denom coin))
      else case ValidateDenom (Denom coin) of
          Some e \<Rightarrow> Some e
        | None \<Rightarrow>
            if Denom coin \<le> lowDenom then Some (UnsortedDenom (Denom coin))
            else if \<not> Amount coin > 0 then Some (NotPositive (Denom coin))
            else if \<not> IsInValidRange (Amount coin) then Some DecOutOfRange
            else validate_rest_dec (Denom coin # seenDenoms) (Denom coin) coins)"

fun DecCoins_Validate :: "DecCoins \<Rightarrow> sdk_panic option" where
  "DecCoins_Validate [] = None"
| "DecCoins_Validate (coin # coins) =
     (case validate_single_dec coin of
        Some e \<Rightarrow> Some e
      | None \<Rightarrow> validate_rest_dec [Denom coin] (Denom coin) coins)"

definition DecCoins_IsValid :: "DecCoins \<Rightarrow> bool" where
  "DecCoins_IsValid coins \<longleftrightarrow> DecCoins_Validate coins = None"

definition NewDecCoins :: "DecCoins \<Rightarrow> sdk_panic + DecCoins" where
  "NewDecCoins decCoins =
     (let newDecCoins = sanitizeDecCoins decCoins
      in case DecCoins_Validate newDecCoins of Some e \<Rightarrow> Inl e | None \<Rightarrow> Inr newDecCoins)"

text \<open>Operations applied to every coin in turn.\<close>

fun sum_map :: "('a \<Rightarrow> 'e + 'b) \<Rightarrow> 'a list \<Rightarrow> 'e + 'b list" where
  "sum_map f [] = Inr []"
| "sum_map f (x # xs) = sum_bind (f x) (\<lambda>y. sum_bind (sum_map f xs) (\<lambda>ys. Inr (y # ys)))"

text \<open>The slice is made with the length of the argument and filled from the sanitised set.\<close>

definition NewDecCoinsFromCoins :: "Coins \<Rightarrow> sdk_panic + DecCoins" where
  "NewDecCoinsFromCoins coins =
     sum_bind (NewCoins coins) (\<lambda>newCoins.
     sum_bind (sum_map NewDecCoinFromCoin newCoins) (\<lambda>decCoins.
       Inr (decCoins @ replicate (length coins - length newCoins) \<lparr>Denom = [], Amount = 0\<rparr>)))"

subsection \<open>Arithmetic\<close>

definition DecCoins_safeAdd :: "DecCoins \<Rightarrow> DecCoins \<Rightarrow> sdk_panic + DecCoins" where
  "DecCoins_safeAdd coins coinsB = safe_add_loop DecCoin_Add [] coins coinsB"

definition DecCoins_Add :: "DecCoins \<Rightarrow> DecCoins \<Rightarrow> sdk_panic + DecCoins" where
  "DecCoins_Add coins coinsB = DecCoins_safeAdd coins coinsB"

definition DecCoins_negative :: "DecCoins \<Rightarrow> DecCoins" where
  "DecCoins_negative coins = map (\<lambda>coin. \<lparr>Denom = Denom coin, Amount = Dec_Neg (Amount coin)\<rparr>) coins"

definition DecCoins_IsAnyNegative :: "DecCoins \<Rightarrow> bool" where
  "DecCoins_IsAnyNegative coins \<longleftrightarrow> list_ex (\<lambda>coin. Amount coin < 0) coins"

definition DecCoins_SafeSub :: "DecCoins \<Rightarrow> DecCoins \<Rightarrow> sdk_panic + DecCoins \<times> bool" where
  "DecCoins_SafeSub coins coinsB =
     sum_bind (DecCoins_safeAdd coins (DecCoins_negative coinsB)) (\<lambda>diff. Inr (diff, DecCoins_IsAnyNegative diff))"

definition DecCoins_Sub :: "DecCoins \<Rightarrow> DecCoins \<Rightarrow> sdk_panic + DecCoins" where
  "DecCoins_Sub coins coinsB =
     sum_bind (DecCoins_SafeSub coins coinsB) (\<lambda>(diff, hasNeg).
       if hasNeg then Inl NegativeCoinAmount else Inr diff)"

fun truncate_loop :: "Coins \<Rightarrow> DecCoins \<Rightarrow> DecCoins \<Rightarrow> sdk_panic + Coins \<times> DecCoins" where
  "truncate_loop truncatedCoins changeCoins [] = Inr (truncatedCoins, changeCoins)"
| "truncate_loop truncatedCoins changeCoins (coin # coins) =
     sum_bind (DecCoin_TruncateDecimal coin) (\<lambda>(truncated, change).
     sum_bind (if Amount truncated \<noteq> 0 then Coins_Add truncatedCoins [truncated] else Inr truncatedCoins) (\<lambda>ts.
     sum_bind (if Amount change \<noteq> 0 then DecCoins_Add changeCoins [change] else Inr changeCoins) (\<lambda>cs.
       truncate_loop ts cs coins)))"

definition DecCoins_TruncateDecimal :: "DecCoins \<Rightarrow> sdk_panic + Coins \<times> DecCoins" where
  "DecCoins_TruncateDecimal coins = truncate_loop [] [] coins"

text \<open>The loop of the four products and quotients.\<close>

fun scale_loop :: "(dec \<Rightarrow> sdk_panic + dec) \<Rightarrow> DecCoins \<Rightarrow> DecCoins \<Rightarrow> sdk_panic + DecCoins" where
  "scale_loop f res [] = Inr res"
| "scale_loop f res (coin # coins) =
     sum_bind (f (Amount coin)) (\<lambda>a.
     sum_bind (if a \<noteq> 0 then DecCoins_Add res [\<lparr>Denom = Denom coin, Amount = a\<rparr>] else Inr res) (\<lambda>res'.
       scale_loop f res' coins))"

definition MulDec :: "DecCoins \<Rightarrow> dec \<Rightarrow> sdk_panic + DecCoins" where
  "MulDec coins d = scale_loop (\<lambda>a. Dec_Mul a d) [] coins"

definition MulDecTruncate :: "DecCoins \<Rightarrow> dec \<Rightarrow> sdk_panic + DecCoins" where
  "MulDecTruncate coins d = scale_loop (\<lambda>a. Dec_MulTruncate a d) [] coins"

definition QuoDec :: "DecCoins \<Rightarrow> dec \<Rightarrow> sdk_panic + DecCoins" where
  "QuoDec coins d = (if d = 0 then Inl DivisionByZero else scale_loop (\<lambda>a. Dec_Quo a d) [] coins)"

definition QuoDecTruncate :: "DecCoins \<Rightarrow> dec \<Rightarrow> sdk_panic + DecCoins" where
  "QuoDecTruncate coins d = (if d = 0 then Inl DivisionByZero else scale_loop (\<lambda>a. Dec_QuoTruncate a d) [] coins)"

subsection \<open>Amounts, intersection and union\<close>

fun dec_amount :: "DecCoins \<Rightarrow> string \<Rightarrow> dec" where
  "dec_amount [] denom = ZeroDec"
| "dec_amount (coin # coins) denom = (if Denom coin = denom then Amount coin else dec_amount coins denom)"

definition DecCoins_AmountOf :: "DecCoins \<Rightarrow> string \<Rightarrow> sdk_panic + dec" where
  "DecCoins_AmountOf coins denom = sum_bind (mustValidateDenom denom) (\<lambda>_. Inr (dec_amount coins denom))"

definition Intersect :: "DecCoins \<Rightarrow> DecCoins \<Rightarrow> sdk_panic + DecCoins" where
  "Intersect coins coinsB =
     sum_bind (sum_map (\<lambda>coin.
       sum_bind (DecCoins_AmountOf coinsB (Denom coin)) (\<lambda>b.
         Inr \<lparr>Denom = Denom coin, Amount = MinDec (Amount coin) b\<rparr>)) coins) (\<lambda>res.
     Inr (removeZeroDecCoins res))"

definition max_amounts :: "DecCoins \<Rightarrow> DecCoins \<Rightarrow> (string, dec) gomap" where
  "max_amounts coins coinsB =
     fold (\<lambda>coin m. case gm_load m (Denom coin) of
             Some value \<Rightarrow> gm_store (Denom coin) (MaxDec value (Amount coin)) m
           | None \<Rightarrow> gm_store (Denom coin) (Amount coin) m) coinsB
       (fold (\<lambda>coin m. gm_store (Denom coin) (Amount coin) m) coins [])"

text \<open>\<open>visit\<close> is the order in which the map is iterated.\<close>

definition UnionMax :: "((string, dec) gomap \<Rightarrow> (string, dec) gomap) \<Rightarrow> DecCoins \<Rightarrow> DecCoins \<Rightarrow> sdk_panic + DecCoins" where
  "UnionMax visit coins coinsB =
     sum_map (\<lambda>(denom, amount). NewDecCoinFromDec denom amount) (visit (max_amounts coins coinsB))"

fun dec_equal_loop :: "DecCoins \<Rightarrow> DecCoins \<Rightarrow> sdk_panic + bool" where
  "dec_equal_loop (c # cs) (d # ds) =
     sum_bind (DecCoin_IsEqual c d) (\<lambda>eq. if \<not> eq then Inr False else dec_equal_loop cs ds)"
| "dec_equal_loop _ _ = Inr True"

definition DecCoins_IsEqual :: "DecCoins \<Rightarrow> DecCoins \<Rightarrow> sdk_panic + bool" where
  "DecCoins_IsEqual coins coinsB =
     (if length coins \<noteq> length coinsB then Inr False
      else dec_equal_loop (DecCoins_Sort coins) (DecCoins_Sort coinsB))"

definition DecCoins_IsZero :: "DecCoins \<Rightarrow> bool" where
  "DecCoins_IsZero coins \<longleftrightarrow> \<not> list_ex (\<lambda>coin. Amount coin \<noteq> 0) coins"

definition DecCoins_IsAllPositive :: "DecCoins \<Rightarrow> bool" where
  "DecCoins_IsAllPositive coins \<longleftrightarrow> length coins \<noteq> 0 \<and> \<not> list_ex (\<lambda>coin. \<not> Amount coin > 0) coins"

end
