(* ===== verification/DecCoinProps.thy ===== *)
theory DecCoinProps
  imports CoinProps DecCoins
begin

text \<open>
  Laws of sets of decimal coins (\<open>src/sei-cosmos/types/dec_coin.go\<close>): the facts about coin sets carry
  over through the shared record, and the loops that add single coins append them when the
  denominations ascend.
\<close>

subsection \<open>Validity\<close>

lemma dec_amount_eq: "dec_amount cs d = amt cs d"
  by (induction cs) (simp_all add: ZeroDec_def)

lemma removeZeroDecCoins_eq: "removeZeroDecCoins cs = removeZeroCoins cs"
  by (simp add: removeZeroDecCoins_def removeZeroCoins_def)

lemma DecCoins_Sort_eq: "DecCoins_Sort cs = Coins_Sort cs"
  by (simp add: DecCoins_Sort_def Coins_Sort_def)

lemma DecCoins_negative_eq: "DecCoins_negative cs = Coins_negative cs"
  by (simp add: DecCoins_negative_def Coins_negative_def Dec_Neg_def Int_Neg_def)

lemma DecCoins_IsAnyNegative_eq: "DecCoins_IsAnyNegative cs = Coins_IsAnyNegative cs"
  by (simp add: DecCoins_IsAnyNegative_def Coins_IsAnyNegative_def)

text \<open>The amounts of a set are \<open>Dec\<close>s.\<close>

definition decs_in_range :: "DecCoins \<Rightarrow> bool" where
  "decs_in_range cs \<longleftrightarrow> list_all (\<lambda>c. IsInValidRange (Amount c)) cs"

lemma validate_rest_dec_None_iff:
  "validate_rest_dec seen low cs = None \<longleftrightarrow> validate_rest seen low cs = None \<and> decs_in_range cs"
  by (induction cs arbitrary: seen low) (auto simp: decs_in_range_def split: option.splits)

lemma DecCoins_IsValid_iff: "DecCoins_IsValid cs \<longleftrightarrow> Coins_IsValid cs \<and> decs_in_range cs"
  by (cases cs)
    (auto simp: DecCoins_IsValid_def Coins_IsValid_def validate_rest_dec_None_iff validate_single_dec_def
      validate_single_def decs_in_range_def split: option.splits)

lemma IsInValidRange_0 [simp]: "IsInValidRange 0"
  by (simp add: IsInValidRange_abs)

lemma decs_in_range_amt: "decs_in_range cs \<Longrightarrow> IsInValidRange (amt cs d)"
  using amt_in_values [of cs d] by (force simp: decs_in_range_def list_all_iff)

lemma Dec_Add_iff: "Dec_Add a b = (if IsInValidRange (a + b) then Inr (a + b) else Inl DecOutOfRange)"
  by (simp add: Dec_Add_def assertInValidRange_def)

interpretation dc: coin_sum DecCoin_Add IsInValidRange DecOutOfRange
  by unfold_locales (simp_all add: DecCoin_Add_def Dec_Add_iff)

subsection \<open>Appending coins one by one\<close>

lemma safe_add_append:
  assumes "coins_nf cs" and "\<forall>x\<in>set cs. Denom x < Denom c" and "Amount c \<noteq> 0"
  shows "safe_add_loop addC acc cs [c] = Inr (acc @ cs @ [c])"
  using assms by (induction cs arbitrary: acc) (auto simp: removeZeroCoins_def)

lemma Coins_Add_append:
  assumes "coins_nf cs" and "\<forall>x\<in>set cs. Denom x < Denom c" and "Amount c \<noteq> 0"
  shows "Coins_Add cs [c] = Inr (cs @ [c])" and "DecCoins_Add cs [c] = Inr (cs @ [c])"
proof -
  have "Coins_isSorted cs" using assms(1) by (simp add: nf_isSorted coins_nf_def)
  then show "Coins_Add cs [c] = Inr (cs @ [c])"
    using safe_add_append [OF assms, of Coin_Add "[]"] by (simp add: Coins_Add_def safeAdd_def)
  show "DecCoins_Add cs [c] = Inr (cs @ [c])"
    using safe_add_append [OF assms, of DecCoin_Add "[]"] by (simp add: DecCoins_Add_def DecCoins_safeAdd_def)
qed

lemma nf_append:
  "coins_nf (a @ b) \<longleftrightarrow> coins_nf a \<and> coins_nf b \<and> (\<forall>x\<in>set a. \<forall>y\<in>set b. Denom x < Denom y)"
  by (induction a) auto

text \<open>The set with the amounts mapped, zero results dropped.\<close>

definition map_amounts :: "(int \<Rightarrow> int) \<Rightarrow> Coins \<Rightarrow> Coins" where
  "map_amounts g cs = removeZeroCoins (map (\<lambda>c. \<lparr>Denom = Denom c, Amount = g (Amount c)\<rparr>) cs)"

lemma map_amounts_simps [simp]:
  "map_amounts g [] = []"
  "map_amounts g (c # cs) = (if g (Amount c) \<noteq> 0 then \<lparr>Denom = Denom c, Amount = g (Amount c)\<rparr> # map_amounts g cs else map_amounts g cs)"
  by (simp_all add: map_amounts_def removeZeroCoins_def)

lemma map_amounts_denoms: "Denom ` set (map_amounts g cs) \<subseteq> Denom ` set cs"
  by (induction cs) auto

lemma map_amounts_nf: "coins_nf cs \<Longrightarrow> coins_nf (map_amounts g cs)"
  unfolding map_amounts_def by (rule removeZero_nf) (simp add: coins_nf_def comp_def)

lemma map_amounts_amt:
  assumes "coins_nf cs" and "g 0 = 0"
  shows "amt (map_amounts g cs) d = g (amt cs d)"
  using assms
proof (induction cs)
  case (Cons c cs)
  then have "amt cs (Denom c) = 0" by (auto simp: amt_above)
  with Cons show ?case by auto
qed simp

lemma map_amounts_valid:
  assumes "Coins_IsValid cs" and "g 0 = 0" and "\<And>x. 0 \<le> x \<Longrightarrow> 0 \<le> g x"
  shows "Coins_IsValid (map_amounts g cs)"
proof (rule nf_validI)
  show "coins_nf (map_amounts g cs)" using assms(1) by (simp add: map_amounts_nf valid_nf)
  show "0 \<le> amt (map_amounts g cs) d" for d
    using assms by (simp add: map_amounts_amt valid_nf valid_amt_nonneg)
  show "reDnm_match (Denom c)" if "c \<in> set (map_amounts g cs)" for c
  proof -
    have "Denom c \<in> Denom ` set cs" using that map_amounts_denoms by blast
    with assms(1) show ?thesis by (auto simp: Coins_IsValid_iff)
  qed
qed

lemma scale_loop_eq:
  assumes "coins_nf res" and "coins_nf cs" and "\<forall>x\<in>set res. \<forall>y\<in>set cs. Denom x < Denom y"
    and "\<forall>c\<in>set cs. f (Amount c) = Inr (g (Amount c))"
  shows "scale_loop f res cs = Inr (res @ map_amounts g cs)"
  using assms
proof (induction cs arbitrary: res)
  case (Cons c cs)
  let ?c = "\<lparr>Denom = Denom c, Amount = g (Amount c)\<rparr>"
  show ?case
  proof (cases "g (Amount c) = 0")
    case True
    with Cons show ?thesis by simp
  next
    case False
    then have "DecCoins_Add res [?c] = Inr (res @ [?c])" using Cons.prems by (intro Coins_Add_append(2)) auto
    moreover have "scale_loop f (res @ [?c]) cs = Inr ((res @ [?c]) @ map_amounts g cs)"
      using Cons.prems False by (intro Cons.IH) (auto simp: nf_append)
    ultimately show ?thesis using Cons.prems False by simp
  qed
qed simp

subsection \<open>Truncation\<close>

lemma truncated_in_range:
  assumes "IsInValidRange x" and "0 \<le> x"
  shows "int_in_range (x div precisionReuse)"
proof -
  define q where "q = x div precisionReuse"
  have "q * precisionReuse \<le> x" unfolding q_def by (metis add.commute le_add_same_cancel1 mod_div_mult_eq pos_mod_sign precisionReuse_pos)
  moreover have "0 \<le> q" using assms(2) by (simp add: q_def pos_imp_zdiv_nonneg_iff)
  moreover have "x < 2 ^ 315"
    using assms by (simp add: IsInValidRange_abs maxDecBitLen_def intBitLen_def DecimalPrecisionBits_def)
  ultimately show ?thesis
    unfolding q_def [symmetric] by (simp add: int_in_range_iff precisionReuse_def Precision_def)
qed

lemma DecCoin_Truncate_eq:
  assumes "IsInValidRange (Amount c)" and "0 \<le> Amount c" and "reDnm_match (Denom c)"
  shows "DecCoin_TruncateDecimal c =
    Inr (\<lparr>Denom = Denom c, Amount = Amount c div precisionReuse\<rparr>, \<lparr>Denom = Denom c, Amount = Amount c mod precisionReuse\<rparr>)"
proof -
  let ?q = "Amount c div precisionReuse" and ?r = "Amount c mod precisionReuse"
  have nonneg: "0 \<le> ?q" "0 \<le> ?r" using assms(2) by (simp_all add: pos_imp_zdiv_nonneg_iff)
  have split: "Amount c - ?q * precisionReuse = ?r" by (simp add: minus_div_mult_eq_mod)
  have "TruncateInt (Amount c) = Inr ?q"
    using truncated_in_range [OF assms(1,2)] assms(2)
    by (simp add: TruncateInt_def NewIntFromBigInt_def chopPrecisionAndTruncate_def sdiv_nonneg int_in_range_def)
  moreover have "\<bar>?q * precisionReuse\<bar> \<le> \<bar>Amount c\<bar>" "\<bar>?r\<bar> \<le> \<bar>Amount c\<bar>"
    using split nonneg assms(2) mult_nonneg_nonneg [OF nonneg(1) precisionReuse_abs(2)] by linarith+
  then have "IsInValidRange (?q * precisionReuse)" "IsInValidRange ?r"
    using assms(1) by (blast intro: IsInValidRange_mono)+
  ultimately show ?thesis
    using nonneg assms(3) split
    by (simp add: DecCoin_TruncateDecimal_def NewDecFromInt_eq assertInValidRange_def Dec_Sub_def NewCoin_def
        Coin_Validate_def ValidateDenom_def NewDecCoinFromDec_def mustValidateDenom_def not_less)
qed

lemma truncate_loop_eq:
  assumes "coins_nf ts" and "coins_nf chs" and "Coins_IsValid cs" and "decs_in_range cs"
    and "\<forall>x\<in>set ts \<union> set chs. \<forall>y\<in>set cs. Denom x < Denom y"
  shows "truncate_loop ts chs cs =
    Inr (ts @ map_amounts (\<lambda>x. x div precisionReuse) cs, chs @ map_amounts (\<lambda>x. x mod precisionReuse) cs)"
  using assms
proof (induction cs arbitrary: ts chs)
  case (Cons c cs)
  let ?t = "\<lparr>Denom = Denom c, Amount = Amount c div precisionReuse\<rparr>"
  let ?h = "\<lparr>Denom = Denom c, Amount = Amount c mod precisionReuse\<rparr>"
  let ?ts = "if Amount ?t \<noteq> 0 then ts @ [?t] else ts" and ?chs = "if Amount ?h \<noteq> 0 then chs @ [?h] else chs"
  have "DecCoin_TruncateDecimal c = Inr (?t, ?h)"
    using Cons.prems(3,4) by (intro DecCoin_Truncate_eq) (simp_all add: decs_in_range_def)
  moreover have "(if Amount ?t \<noteq> 0 then Coins_Add ts [?t] else Inr ts) = Inr ?ts"
    using Cons.prems by (auto intro!: Coins_Add_append(1))
  moreover have "(if Amount ?h \<noteq> 0 then DecCoins_Add chs [?h] else Inr chs) = Inr ?chs"
    using Cons.prems by (auto intro!: Coins_Add_append(2))
  ultimately have "truncate_loop ts chs (c # cs) = truncate_loop ?ts ?chs cs" by simp
  also have "\<dots> = Inr (?ts @ map_amounts (\<lambda>x. x div precisionReuse) cs, ?chs @ map_amounts (\<lambda>x. x mod precisionReuse) cs)"
    using Cons.prems by (intro Cons.IH) (auto simp: nf_append decs_in_range_def)
  finally show ?case by simp
qed simp

lemma nf_decs_in_rangeI: "coins_nf s \<Longrightarrow> (\<And>d. IsInValidRange (amt s d)) \<Longrightarrow> decs_in_range s"
  unfolding decs_in_range_def list_all_iff by (metis amt_coin nf_distinct)

subsection \<open>Intersection and union\<close>

lemma sum_map_Inr: "\<forall>x\<in>set xs. f x = Inr (g x) \<Longrightarrow> sum_map f xs = Inr (map g xs)"
  by (induction xs) simp_all

lemma amt_map_denom:
  "amt (map (\<lambda>c. \<lparr>Denom = Denom c, Amount = g (Denom c) (Amount c)\<rparr>) cs) d = (if d \<in> Denom ` set cs then g d (amt cs d) else 0)"
  by (induction cs) auto

lemma Intersect_eq:
  assumes "Coins_IsValid a"
  shows "Intersect a b = Inr (removeZeroCoins (map (\<lambda>c. \<lparr>Denom = Denom c, Amount = MinDec (Amount c) (amt b (Denom c))\<rparr>) a))"
proof -
  have "\<forall>c\<in>set a. sum_bind (DecCoins_AmountOf b (Denom c)) (\<lambda>x. Inr \<lparr>Denom = Denom c, Amount = MinDec (Amount c) x\<rparr>) =
      Inr \<lparr>Denom = Denom c, Amount = MinDec (Amount c) (amt b (Denom c))\<rparr>"
    using assms by (simp add: DecCoins_AmountOf_def mustValidateDenom_def ValidateDenom_def dec_amount_eq Coins_IsValid_iff)
  from sum_map_Inr [OF this] show ?thesis by (simp add: Intersect_def removeZeroDecCoins_eq)
qed

lemma store_coins_load:
  "distinct (denoms cs) \<Longrightarrow>
    gm_load (fold (\<lambda>coin m. gm_store (Denom coin) (Amount coin) m) cs m) d =
      (if d \<in> Denom ` set cs then Some (amt cs d) else gm_load m d)"
  by (induction cs arbitrary: m) (auto simp: gomap_simps)

lemma max_coins_load:
  "distinct (denoms cs) \<Longrightarrow>
    gm_load (fold (\<lambda>coin m. case gm_load m (Denom coin) of
             Some value \<Rightarrow> gm_store (Denom coin) (MaxDec value (Amount coin)) m
           | None \<Rightarrow> gm_store (Denom coin) (Amount coin) m) cs m) d =
      (if d \<in> Denom ` set cs
       then Some (case gm_load m d of Some v \<Rightarrow> MaxDec v (amt cs d) | None \<Rightarrow> amt cs d) else gm_load m d)"
  by (induction cs arbitrary: m) (auto simp: gomap_simps split: option.splits)

lemma fold_distinct_keys:
  assumes "\<And>x m. distinct (gm_keys m) \<Longrightarrow> distinct (gm_keys (f x m))"
  shows "distinct (gm_keys m) \<Longrightarrow> distinct (gm_keys (fold f xs m))"
  by (induction xs arbitrary: m) (simp_all add: assms)

lemma max_amounts_distinct: "distinct (gm_keys (max_amounts a b))"
  unfolding max_amounts_def by (intro fold_distinct_keys) (auto simp: distinct_update split: option.splits)

lemma max_amounts_load:
  assumes "Coins_IsValid a" and "Coins_IsValid b"
  shows "gm_load (max_amounts a b) d =
    (if d \<in> Denom ` set a \<union> Denom ` set b then Some (max (amt a d) (amt b d)) else None)"
proof -
  have "distinct (denoms a)" "distinct (denoms b)" using assms by (simp_all add: nf_distinct valid_nf)
  moreover have "0 \<le> amt a d" "0 \<le> amt b d" using assms by (simp_all add: valid_amt_nonneg)
  ultimately show ?thesis
    by (auto simp: max_amounts_def store_coins_load max_coins_load MaxDec_def max_def)
qed

text \<open>The coins of a map of amounts.\<close>

lemma entries_coins:
  assumes "distinct (gm_keys m)"
  shows "distinct (denoms (map (\<lambda>(d, x). \<lparr>Denom = d, Amount = x\<rparr>) m))"
    and "amt (map (\<lambda>(d, x). \<lparr>Denom = d, Amount = x\<rparr>) m) d = (case gm_load m d of Some x \<Rightarrow> x | None \<Rightarrow> 0)"
proof -
  have "denoms (map (\<lambda>(d, x). \<lparr>Denom = d, Amount = x\<rparr>) m) = gm_keys m" by auto
  with assms show "distinct (denoms (map (\<lambda>(d, x). \<lparr>Denom = d, Amount = x\<rparr>) m))" by (simp only:)
  show "amt (map (\<lambda>(d, x). \<lparr>Denom = d, Amount = x\<rparr>) m) d = (case gm_load m d of Some x \<Rightarrow> x | None \<Rightarrow> 0)"
    by (induction m) auto
qed

lemma Intersect_valid:
  assumes "Coins_IsValid a" and "Coins_IsValid b"
  shows "\<exists>i. Intersect a b = Inr i \<and> Coins_IsValid i \<and> (\<forall>d. amt i d = min (amt a d) (amt b d))"
proof (intro exI conjI)
  let ?m = "map (\<lambda>c. \<lparr>Denom = Denom c, Amount = MinDec (Amount c) (amt b (Denom c))\<rparr>) a"
  have sorted: "sorted_wrt (<) (denoms ?m)" using assms(1) by (simp add: Coins_IsValid_iff comp_def)
  have ge: "0 \<le> amt a d" "0 \<le> amt b d" for d using assms by (simp_all add: valid_amt_nonneg)
  have amt: "amt (removeZeroCoins ?m) d = min (amt a d) (amt b d)" for d
    using sorted ge [of d] amt_map_denom [of "\<lambda>d x. MinDec x (amt b d)" a d]
    by (auto simp: amt_removeZero strict_sorted_iff MinDec_def min_def split: if_splits)
  show "Intersect a b = Inr (removeZeroCoins ?m)" by (rule Intersect_eq [OF assms(1)])
  show "\<forall>d. amt (removeZeroCoins ?m) d = min (amt a d) (amt b d)" using amt by simp
  show "Coins_IsValid (removeZeroCoins ?m)"
  proof (rule nf_validI [OF removeZero_nf [OF sorted]])
    show "0 \<le> amt (removeZeroCoins ?m) d" for d using ge [of d] by (simp add: amt)
    show "reDnm_match (Denom c)" if "c \<in> set (removeZeroCoins ?m)" for c
      using that assms(1) by (auto simp: Coins_IsValid_iff removeZeroCoins_def)
  qed
qed

lemma UnionMax_entries:
  assumes "Coins_IsValid a" and "Coins_IsValid b" and "(d, x) \<in> set (max_amounts a b)"
  shows "x = max (amt a d) (amt b d) \<and> 0 < x \<and> reDnm_match d"
proof -
  have "gm_load (max_amounts a b) d = Some x" by (simp add: max_amounts_distinct assms(3))
  then have d: "d \<in> Denom ` set a \<union> Denom ` set b" and x: "x = max (amt a d) (amt b d)"
    unfolding max_amounts_load [OF assms(1,2)] by (metis option.distinct(1), metis option.inject option.distinct(1))
  have "0 < amt a d \<or> 0 < amt b d" using d assms(1,2) by (simp add: valid_amt_pos_iff)
  moreover have "reDnm_match d" using d assms(1,2) by (auto simp: Coins_IsValid_iff)
  ultimately show ?thesis using x by auto
qed

lemma UnionMax_valid:
  assumes "Coins_IsValid a" and "Coins_IsValid b" and "\<forall>m. mset (visit m) = mset m"
  shows "\<exists>u. UnionMax visit a b = Inr u \<and> Coins_IsValid (DecCoins_Sort u) \<and>
    (\<forall>d. amt (DecCoins_Sort u) d = max (amt a d) (amt b d))"
proof (intro exI conjI allI)
  let ?m = "max_amounts a b"
  let ?u = "map (\<lambda>(d, x). \<lparr>Denom = d, Amount = x\<rparr>) (visit ?m)"
  have set: "set (visit ?m) = set ?m" using assms(3) by (metis mset_eq_setD)
  have "mset (gm_keys (visit ?m)) = mset (gm_keys ?m)" using assms(3) by (metis mset_map)
  then have dist: "distinct (gm_keys (visit ?m))" using max_amounts_distinct by (metis mset_eq_imp_distinct_iff)
  have load: "gm_load (visit ?m) = gm_load ?m"
    using map_of_inject_set [OF dist max_amounts_distinct [of a b]] set by simp
  have entry: "x = max (amt a d) (amt b d) \<and> 0 < x \<and> reDnm_match d" if "(d, x) \<in> set (visit ?m)" for d x
    using UnionMax_entries [OF assms(1,2)] that set by blast
  then have "\<forall>p\<in>set (visit ?m). (case p of (d, x) \<Rightarrow> NewDecCoinFromDec d x) = Inr (case p of (d, x) \<Rightarrow> \<lparr>Denom = d, Amount = x\<rparr>)"
    by (fastforce simp: NewDecCoinFromDec_def mustValidateDenom_def ValidateDenom_def)
  from sum_map_Inr [OF this] show "UnionMax visit a b = Inr ?u" by (simp add: UnionMax_def)
  have "\<forall>c\<in>set ?u. 0 < Amount c \<and> reDnm_match (Denom c)" using entry by auto
  moreover have "sorted_wrt (<) (denoms (Coins_Sort ?u))" by (rule Sort_ordered(1) [OF entries_coins(1) [OF dist]])
  ultimately show "Coins_IsValid (DecCoins_Sort ?u)"
    by (simp add: Coins_IsValid_iff DecCoins_Sort_eq) (simp add: Coins_Sort_def)
  show "amt (DecCoins_Sort ?u) d = max (amt a d) (amt b d)" for d
  proof -
    have "amt (DecCoins_Sort ?u) d = (case gm_load ?m d of Some x \<Rightarrow> x | None \<Rightarrow> 0)"
      using Sort_ordered(2) [OF entries_coins(1) [OF dist]] entries_coins(2) [OF dist] load by (simp add: DecCoins_Sort_eq)
    then show ?thesis by (auto simp: max_amounts_load [OF assms(1,2)])
  qed
qed

subsection \<open>Properties\<close>

text \<open>C21. \<open>TruncateDecimal\<close> loses nothing: a valid set is split into whole coins and change, both valid,
  that together are the set, and the change of every denomination is less than one coin.\<close>

theorem TruncateDecimal_conserves:
  assumes "DecCoins_IsValid cs"
  shows "\<exists>ts chs. DecCoins_TruncateDecimal cs = Inr (ts, chs) \<and> Coins_IsValid ts \<and> DecCoins_IsValid chs \<and>
    (\<forall>d. amt cs d = amt ts d * precisionReuse + amt chs d \<and> amt chs d < precisionReuse)"
proof (intro exI conjI allI)
  let ?ts = "map_amounts (\<lambda>x. x div precisionReuse) cs" and ?chs = "map_amounts (\<lambda>x. x mod precisionReuse) cs"
  have cs: "Coins_IsValid cs" "decs_in_range cs" using assms by (simp_all add: DecCoins_IsValid_iff)
  note amt = map_amounts_amt [OF valid_nf [OF cs(1)]]
  show "DecCoins_TruncateDecimal cs = Inr (?ts, ?chs)"
    using truncate_loop_eq [of "[]" "[]" cs] cs by (simp add: DecCoins_TruncateDecimal_def)
  show "Coins_IsValid ?ts" using cs(1) by (intro map_amounts_valid) (simp_all add: pos_imp_zdiv_nonneg_iff)
  have "Coins_IsValid ?chs" using cs(1) by (intro map_amounts_valid) simp_all
  moreover have "IsInValidRange (amt ?chs d)" for d
  proof (rule IsInValidRange_mono [OF _ decs_in_range_amt [OF cs(2), of d]])
    show "\<bar>amt ?chs d\<bar> \<le> \<bar>amt cs d\<bar>"
      using valid_amt_nonneg [OF cs(1), of d] by (simp add: amt zmod_le_nonneg_dividend)
  qed
  ultimately show "DecCoins_IsValid ?chs" by (simp add: DecCoins_IsValid_iff nf_decs_in_rangeI valid_nf)
  show "amt cs d = amt ?ts d * precisionReuse + amt ?chs d" for d by (simp add: amt)
  show "amt ?chs d < precisionReuse" for d by (simp add: amt)
qed

text \<open>A set of decimal coins for the witnesses: 1.5 usei.\<close>

definition dec_coins_a :: DecCoins where
  "dec_coins_a = [\<lparr>Denom = ''usei'', Amount = 1500000000000000000\<rparr>]"

lemma dec_coins_a_valid: "DecCoins_IsValid dec_coins_a"
proof -
  have "reDnm_match ''usei''" by code_simp
  then show ?thesis
    by (simp add: DecCoins_IsValid_iff dec_coins_a_def decs_in_range_def IsInValidRange_abs maxDecBitLen_def
        intBitLen_def DecimalPrecisionBits_def)
qed

theorem TruncateDecimal_conserves_witness:
  "\<exists>ts chs. DecCoins_TruncateDecimal dec_coins_a = Inr (ts, chs) \<and>
    amt ts ''usei'' * precisionReuse + amt chs ''usei'' = 1500000000000000000"
  using TruncateDecimal_conserves [OF dec_coins_a_valid] by (auto simp: dec_coins_a_def split: if_splits)

text \<open>C36. \<open>MulDecTruncate\<close> with a fraction above 0 and at most 1 returns a valid set whose amounts are the exact
  products rounded down, so none of them exceeds its share or the amount it was taken from.\<close>

theorem MulDecTruncate_share:
  assumes "DecCoins_IsValid cs" and "0 < d" and "d \<le> OneDec"
  shows "\<exists>s. MulDecTruncate cs d = Inr s \<and> DecCoins_IsValid s \<and>
    (\<forall>e. amt s e = amt cs e * d div precisionReuse \<and> amt s e \<le> amt cs e)"
proof (intro exI conjI allI)
  let ?g = "\<lambda>x. x * d div precisionReuse"
  have cs: "Coins_IsValid cs" "decs_in_range cs" using assms(1) by (simp_all add: DecCoins_IsValid_iff)
  have d: "0 \<le> d" using assms(2) by simp
  have g_le: "0 \<le> ?g x \<and> ?g x \<le> x" if "0 \<le> x" for x
  proof -
    have "x * d \<le> x * precisionReuse" using that assms(3) by (simp add: mult_left_mono OneDec_def)
    then have "x * d div precisionReuse \<le> x * precisionReuse div precisionReuse" by (rule zdiv_mono1) simp
    with that d show ?thesis by (simp add: pos_imp_zdiv_nonneg_iff)
  qed
  have mul: "Dec_MulTruncate x d = Inr (?g x)" if "0 \<le> x" "IsInValidRange x" for x
  proof -
    have "IsInValidRange (?g x)" by (rule IsInValidRange_mono [OF _ that(2)]) (use g_le [OF that(1)] in simp)
    with that d show ?thesis
      by (simp add: Dec_MulTruncate_def chopPrecisionAndTruncate_def sdiv_nonneg assertInValidRange_def)
  qed
  note amt = map_amounts_amt [OF valid_nf [OF cs(1)], of ?g]
  show "MulDecTruncate cs d = Inr (map_amounts ?g cs)"
    unfolding MulDecTruncate_def
  proof (subst scale_loop_eq [where g = ?g])
    show "\<forall>c\<in>set cs. Dec_MulTruncate (Amount c) d = Inr (?g (Amount c))"
      using cs mul by (auto simp: Coins_IsValid_iff decs_in_range_def list_all_iff)
  qed (simp_all add: valid_nf cs(1))
  have "Coins_IsValid (map_amounts ?g cs)" using cs(1) g_le by (intro map_amounts_valid) simp_all
  moreover have "IsInValidRange (amt (map_amounts ?g cs) e)" for e
    by (rule IsInValidRange_mono [OF _ decs_in_range_amt [OF cs(2), of e]])
      (use g_le [OF valid_amt_nonneg [OF cs(1), of e]] in \<open>simp add: amt\<close>)
  ultimately show "DecCoins_IsValid (map_amounts ?g cs)" by (simp add: DecCoins_IsValid_iff nf_decs_in_rangeI valid_nf)
  show "amt (map_amounts ?g cs) e = ?g (amt cs e)" for e by (simp add: amt)
  show "amt (map_amounts ?g cs) e \<le> amt cs e" for e
    using g_le [OF valid_amt_nonneg [OF cs(1), of e]] by (simp add: amt)
qed

theorem MulDecTruncate_share_witness:
  "\<exists>s. MulDecTruncate dec_coins_a 500000000000000000 = Inr s \<and> amt s ''usei'' = 750000000000000000"
proof -
  have "(500000000000000000 :: int) \<le> OneDec" by (simp add: OneDec_def precisionReuse_def Precision_def)
  with MulDecTruncate_share [OF dec_coins_a_valid, of 500000000000000000] show ?thesis
    by (auto simp: dec_coins_a_def precisionReuse_def Precision_def)
qed

text \<open>For valid sets \<open>Intersect\<close> takes the smaller and \<open>UnionMax\<close> the larger amount of every denomination;
  \<open>UnionMax\<close> lists its coins in the order in which a Go map is iterated, and once sorted, as its caller
  does, the result is valid and the same for every order.\<close>

theorem Intersect_UnionMax:
  assumes "Coins_IsValid a" and "Coins_IsValid b" and "\<forall>m. mset (visit m) = mset m"
  shows "\<exists>i u. Intersect a b = Inr i \<and> UnionMax visit a b = Inr u \<and>
    Coins_IsValid i \<and> Coins_IsValid (DecCoins_Sort u) \<and>
    (\<forall>d. amt i d = min (amt a d) (amt b d) \<and> amt (DecCoins_Sort u) d = max (amt a d) (amt b d))"
  using Intersect_valid [OF assms(1,2)] UnionMax_valid [OF assms] by blast

theorem Intersect_UnionMax_witness:
  "\<exists>i u. Intersect coins_a coins_b = Inr i \<and> UnionMax rev coins_a coins_b = Inr u \<and>
    amt i ''usei'' = 2 \<and> amt (DecCoins_Sort u) ''usei'' = 5"
  using Intersect_UnionMax [OF coins_ab_valid(1,2), of rev] by (auto simp: coins_a_def coins_b_def)

text \<open>\<open>NewDecCoinsFromCoins\<close> makes its result with the length of its argument but fills it from the set
  without zero coins, so a zero coin in the argument leaves an entry with an empty denomination at
  the end of the result.\<close>

theorem NewDecCoinsFromCoins_zero_coin:
  "\<exists>ds. NewDecCoinsFromCoins [\<lparr>Denom = ''uatom'', Amount = 0\<rparr>, \<lparr>Denom = ''usei'', Amount = 5\<rparr>] = Inr ds \<and>
    ds = [\<lparr>Denom = ''usei'', Amount = 5 * precisionReuse\<rparr>, \<lparr>Denom = [], Amount = 0\<rparr>] \<and> \<not> DecCoins_IsValid ds"
proof -
  let ?c = "\<lparr>Denom = ''usei'', Amount = 5\<rparr>"
  have usei: "reDnm_match ''usei''" by code_simp
  then have new: "NewCoins [\<lparr>Denom = ''uatom'', Amount = 0\<rparr>, ?c] = Inr [?c]"
    by (simp add: NewCoins_Inr_iff sanitize_sort removeZeroCoins_def Coins_Sort_def)
  have "IsInValidRange (5 * precisionReuse)"
    by (simp add: IsInValidRange_abs maxDecBitLen_def intBitLen_def DecimalPrecisionBits_def precisionReuse_def Precision_def)
  with usei have "NewDecCoinFromCoin ?c = Inr \<lparr>Denom = ''usei'', Amount = 5 * precisionReuse\<rparr>"
    by (simp add: NewDecCoinFromCoin_def Coin_Validate_def ValidateDenom_def NewDecFromInt_eq assertInValidRange_def)
  with new show ?thesis by (simp add: NewDecCoinsFromCoins_def DecCoins_IsValid_iff)
qed

text \<open>\<open>MulDecTruncate\<close> by zero returns the empty set; its comment says that it panics.\<close>

theorem MulDecTruncate_zero:
  "MulDecTruncate cs 0 = Inr []"
proof -
  have "scale_loop (\<lambda>a. Dec_MulTruncate a 0) [] cs = Inr []"
    by (induction cs) (simp_all add: Dec_MulTruncate_def chopPrecisionAndTruncate_def sdiv_nonneg assertInValidRange_def)
  then show ?thesis by (simp add: MulDecTruncate_def)
qed

end
