(* ===== verification/DecimalText.thy ===== *)
theory DecimalText
  imports Decimal DigitText
begin

text \<open>
  Text of decimals: \<open>NewDecFromStr\<close>, \<open>String\<close>, \<open>SortableDecBytes\<close> and the protobuf encoding of
  \<open>src/sei-cosmos/types/decimal.go\<close> and \<open>src/sei-cosmos/types/int.go\<close>.
\<close>

datatype dec_error =
    DecStrTooLong
  | ErrEmptyDecimalStr
  | ErrInvalidDecimalLength
  | ErrInvalidDecimalStr
  | ExceedsMaxPrecision
  | NotBase10
  | NotNumber
  | DecStrOutOfRange

subsection \<open>Parsing and printing\<close>

text \<open>The whole and the fractional digits joined, and the number of fractional ones.\<close>

definition combine_parts :: "string list \<Rightarrow> dec_error + string \<times> nat" where
  "combine_parts strs =
     (case strs of
        [w] \<Rightarrow> Inr (w, 0)
      | [w, f] \<Rightarrow> if length f = 0 \<or> length w = 0 then Inl ErrInvalidDecimalLength else Inr (w @ f, length f)
      | _ \<Rightarrow> Inl ErrInvalidDecimalStr)"

definition dec_from_unsigned :: "bool \<Rightarrow> string \<Rightarrow> dec_error + dec" where
  "dec_from_unsigned neg str =
     (if length str = 0 then Inl ErrEmptyDecimalStr
      else sum_bind (combine_parts (split_on (CHR ''.'') str)) (\<lambda>(combinedStr, lenDecs).
        if lenDecs > Precision then Inl ExceedsMaxPrecision
        else case big_SetString (combinedStr @ replicate (Precision - lenDecs) (CHR ''0'')) of
            None \<Rightarrow> Inl NotBase10
          | Some combined \<Rightarrow>
              let d = (if neg then - combined else combined)
              in if \<not> IsInValidRange d then Inl DecStrOutOfRange else Inr d))"

definition NewDecFromStr :: "string \<Rightarrow> dec_error + dec" where
  "NewDecFromStr str =
     (if length str > 100 then Inl DecStrTooLong
      else case str of
          [] \<Rightarrow> Inl ErrEmptyDecimalStr
        | c # r \<Rightarrow> if c = CHR ''-'' then dec_from_unsigned True r else dec_from_unsigned False str)"

definition Dec_String :: "dec \<Rightarrow> string" where
  "Dec_String d =
     (let isNeg = d < 0;
          bzInt = big_text (if isNeg then Dec_Neg d else d);
          inputSize = length bzInt;
          bzStr = (if inputSize \<le> Precision
                   then ''0.'' @ replicate (Precision - inputSize) (CHR ''0'') @ bzInt
                   else take (inputSize - Precision) bzInt @ ''.'' @ drop (inputSize - Precision) bzInt)
      in if isNeg then ''-'' @ bzStr else bzStr)"

subsection \<open>Encoding\<close>

definition Dec_Marshal :: "dec \<Rightarrow> dec_error + string" where
  "Dec_Marshal d = (if \<not> IsInValidRange d then Inl DecStrOutOfRange else Inr (big_text d))"

definition Dec_Unmarshal :: "string \<Rightarrow> dec_error + dec" where
  "Dec_Unmarshal data =
     (if length data > 100 then Inl DecStrTooLong
      else if length data = 0 then Inr ZeroDec
      else case big_SetString0 data of
          None \<Rightarrow> Inl NotNumber
        | Some i \<Rightarrow> if \<not> IsInValidRange i then Inl DecStrOutOfRange else Inr i)"

definition newIntegerFromString :: "string \<Rightarrow> int option" where
  "newIntegerFromString s = (if length s > 300 then None else big_SetString0 s)"

definition NewIntFromString :: "string \<Rightarrow> int option" where
  "NewIntFromString s =
     (case newIntegerFromString s of
        None \<Rightarrow> None
      | Some i \<Rightarrow> if BitLen i > maxBitLen then None else Some i)"

definition unmarshalText :: "string \<Rightarrow> dec_error + int" where
  "unmarshalText text =
     (if length text > 100 then Inl DecStrTooLong
      else case big_SetString0 text of
          None \<Rightarrow> Inl NotNumber
        | Some i \<Rightarrow> if BitLen i > maxBitLen then Inl DecStrOutOfRange else Inr i)"

definition Int_Marshal :: "int \<Rightarrow> string" where
  "Int_Marshal i = big_text i"

definition Int_Unmarshal :: "string \<Rightarrow> dec_error + int" where
  "Int_Unmarshal data =
     (if length data > 100 then Inl DecStrTooLong
      else if length data = 0 then Inr 0
      else case big_SetString0 data of
          None \<Rightarrow> Inl NotNumber
        | Some i \<Rightarrow> if BitLen i > maxBitLen then Inl DecStrOutOfRange else Inr i)"

subsection \<open>Sortable bytes\<close>

definition MaxSortableDec :: dec where
  "MaxSortableDec = (case Dec_Quo OneDec SmallestDec of Inl e \<Rightarrow> 0 | Inr d \<Rightarrow> d)"

definition ValidSortableDec :: "dec \<Rightarrow> bool" where
  "ValidSortableDec d \<longleftrightarrow> Dec_Abs d \<le> MaxSortableDec"

definition pad_zeros :: "nat \<Rightarrow> string \<Rightarrow> string" where
  "pad_zeros width s = replicate (width - length s) (CHR ''0'') @ s"

definition SortableDecBytes :: "dec \<Rightarrow> sdk_panic + string" where
  "SortableDecBytes d =
     (if \<not> ValidSortableDec d then Inl OutOfBound
      else if d = MaxSortableDec then Inr ''max''
      else if d = Dec_Neg MaxSortableDec then Inr ''--''
      else if d < 0 then Inr (''-'' @ pad_zeros (Precision * 2 + 1) (Dec_String (Dec_Abs d)))
      else Inr (pad_zeros (Precision * 2 + 1) (Dec_String d)))"

subsection \<open>The shape of printed decimals\<close>

lemma big_text_nonneg: "0 \<le> i \<Longrightarrow> big_text i = nat_text (nat i)"
  by (simp add: big_text_def)

text \<open>A printed decimal: sign, whole digits, a point, 18 fractional digits.\<close>

lemma Dec_String_shape:
  obtains w f where "Dec_String d = (if d < 0 then ''-'' else []) @ w @ CHR ''.'' # f"
    and "w \<noteq> []" and "list_all is_digit w" and "list_all is_digit f" and "length f = Precision"
    and "digits_value (w @ f) = nat \<bar>d\<bar>"
    and "length w + Precision \<le> max (Suc Precision) (length (nat_text (nat \<bar>d\<bar>)))"
proof -
  define t where "t = nat_text (nat \<bar>d\<bar>)"
  have t: "big_text (if d < 0 then Dec_Neg d else d) = t"
    by (cases "d < 0") (simp_all add: Dec_Neg_def big_text_nonneg t_def)
  have str: "Dec_String d = (if d < 0 then ''-'' else []) @
      (if length t \<le> Precision then ''0.'' @ replicate (Precision - length t) (CHR ''0'') @ t
       else take (length t - Precision) t @ ''.'' @ drop (length t - Precision) t)"
    unfolding Dec_String_def Let_def t by simp
  have digits: "list_all is_digit t" and val: "digits_value t = nat \<bar>d\<bar>" and ne: "t \<noteq> []"
    by (simp_all add: t_def nat_text_digits nat_text_value)
  show thesis
  proof (cases "length t \<le> Precision")
    case True
    let ?f = "replicate (Precision - length t) (CHR ''0'') @ t"
    show thesis
    proof (rule that [of "''0''" ?f])
      show "Dec_String d = (if d < 0 then ''-'' else []) @ ''0'' @ CHR ''.'' # ?f"
        using True by (simp add: str)
      show "digits_value (''0'' @ ?f) = nat \<bar>d\<bar>"
        by (simp only: digits_value_append val digits_value_zeros)
          (simp add: digits_value_def digit_val_def)
    qed (use True digits in \<open>simp_all add: is_digit_def\<close>)
  next
    case False
    let ?k = "length t - Precision"
    show thesis
    proof (rule that [of "take ?k t" "drop ?k t"])
      show "Dec_String d = (if d < 0 then ''-'' else []) @ take ?k t @ CHR ''.'' # drop ?k t"
        using False by (simp add: str)
    qed (use False digits val ne in
        \<open>auto simp: list_all_iff t_def [symmetric] dest: in_set_takeD in_set_dropD\<close>)
  qed
qed

text \<open>Numbers in range have at most 95 digits.\<close>

lemma in_range_text_length:
  assumes "IsInValidRange d"
  shows "length (nat_text (nat \<bar>d\<bar>)) \<le> 95"
proof (rule nat_text_length)
  have "\<bar>d\<bar> < 2 ^ 315"
    using assms by (simp add: IsInValidRange_abs maxDecBitLen_def intBitLen_def DecimalPrecisionBits_def)
  also have "(2 :: int) ^ 315 < 10 ^ 95" by simp
  finally have "\<bar>d\<bar> < 10 ^ 95" .
  then show "nat \<bar>d\<bar> < 10 ^ 95" by (simp add: nat_less_iff)
qed simp

lemma int_in_range_text_length:
  assumes "int_in_range i"
  shows "length (nat_text (nat \<bar>i\<bar>)) \<le> 78"
proof (rule nat_text_length)
  have "\<bar>i\<bar> < 2 ^ 256" using assms by (simp add: int_in_range_iff)
  also have "(2 :: int) ^ 256 < 10 ^ 78" by simp
  finally have "\<bar>i\<bar> < 10 ^ 78" .
  then show "nat \<bar>i\<bar> < 10 ^ 78" by (simp add: nat_less_iff)
qed simp

lemma big_text_length: "length (big_text i) \<le> Suc (length (nat_text (nat \<bar>i\<bar>)))"
  by (simp add: big_text_def)

lemma big_text_not_Nil [simp]: "big_text i \<noteq> []"
  by (simp add: big_text_def)

lemma dec_from_unsigned_digits:
  assumes "w \<noteq> []" and "list_all is_digit w" and "list_all is_digit f" and "length f = Precision"
    and "IsInValidRange (int (digits_value (w @ f)))"
  shows "dec_from_unsigned neg (w @ CHR ''.'' # f) =
    Inr (if neg then - int (digits_value (w @ f)) else int (digits_value (w @ f)))"
proof -
  have "split_on (CHR ''.'') (w @ CHR ''.'' # f) = [w, f]"
    using assms(2,3) by (simp add: split_on_once split_on_none digits_no_dot)
  moreover have "big_SetString (w @ f) = Some (int (digits_value (w @ f)))"
    using assms(1-3) by (intro SetString_unsigned) simp_all
  moreover have "f \<noteq> []" using assms(4) by (auto simp: Precision_def)
  ultimately show ?thesis
    using assms(1,4,5) by (simp add: dec_from_unsigned_def combine_parts_def IsInValidRange_abs Let_def)
qed

text \<open>A decimal that is not negative and below \<open>MaxSortableDec\<close>: both parts have 18 digits once
  padded.\<close>

lemma MaxSortableDec_eq: "MaxSortableDec = 10 ^ 36"
proof -
  have "(10 :: int) ^ 54 = 10 ^ 36 * precisionReuse" by (simp add: precisionReuse_def Precision_def)
  then have "chopPrecisionAndRound (10 ^ 54) = 10 ^ 36" by (simp only: chop_exact)
  then show ?thesis
    by (simp add: MaxSortableDec_def Dec_Quo_def big_Quo_def OneDec_def SmallestDec_def
        precisionReuse_def Precision_def assertInValidRange_def IsInValidRange_abs maxDecBitLen_def
        intBitLen_def DecimalPrecisionBits_def)
qed

lemma Dec_String_sortable:
  assumes "0 \<le> d" and "d < 10 ^ 36"
  shows "pad_zeros (Precision * 2 + 1) (Dec_String d) =
    fixed_text Precision (nat d div 10 ^ Precision) @ CHR ''.'' # fixed_text Precision (nat d)"
proof -
  define n where "n = nat d"
  define t where "t = nat_text n"
  have n: "n < 10 ^ 36" using assms by (simp add: n_def nat_less_iff)
  then have "length t \<le> 36" unfolding t_def by (intro nat_text_length) simp_all
  have fixed: "replicate (36 - length t) (CHR ''0'') @ t =
      fixed_text Precision (n div 10 ^ Precision) @ fixed_text Precision n"
    using fixed_text_pad [of 36 n] n fixed_text_append [of 18 18 n] by (simp add: t_def Precision_def)
  have str: "Dec_String d = (if length t \<le> Precision then ''0.'' @ replicate (Precision - length t) (CHR ''0'') @ t
       else take (length t - Precision) t @ ''.'' @ drop (length t - Precision) t)"
    using assms(1) by (simp add: Dec_String_def Let_def big_text_nonneg t_def n_def)
  show ?thesis
  proof (cases "length t \<le> Precision")
    case True
    have "replicate (36 - length t) (CHR ''0'') =
        replicate Precision (CHR ''0'') @ replicate (Precision - length t) (CHR ''0'')"
      using True by (simp add: replicate_add [symmetric] Precision_def)
    with fixed have "replicate Precision (CHR ''0'') = fixed_text Precision (n div 10 ^ Precision)"
      and "replicate (Precision - length t) (CHR ''0'') @ t = fixed_text Precision n"
      by (auto simp: append_eq_append_conv)
    moreover have "replicate Precision (CHR ''0'') = replicate 17 (CHR ''0'') @ ''0''"
      by (simp add: Precision_def numeral_eq_Suc)
    ultimately show ?thesis
      using True by (simp add: str pad_zeros_def n_def) (simp add: Precision_def)
  next
    case False
    let ?k = "length t - Precision"
    have "replicate (36 - length t) (CHR ''0'') @ take ?k t @ drop ?k t =
        fixed_text Precision (n div 10 ^ Precision) @ fixed_text Precision n" using fixed by simp
    then have "(replicate (36 - length t) (CHR ''0'') @ take ?k t) @ drop ?k t =
        fixed_text Precision (n div 10 ^ Precision) @ fixed_text Precision n" by simp
    moreover have "length (drop ?k t) = Precision" using False by simp
    ultimately have "replicate (36 - length t) (CHR ''0'') @ take ?k t = fixed_text Precision (n div 10 ^ Precision)"
      and "drop ?k t = fixed_text Precision n"
      by (metis append_eq_append_conv fixed_text_length)+
    then show ?thesis
      using False \<open>length t \<le> 36\<close> by (simp add: str pad_zeros_def n_def) (simp add: Precision_def)
  qed
qed

lemma fixed_text_less_max:
  assumes "0 < k"
  shows "fixed_text k n @ x < ''max''"
proof -
  obtain c r where c: "fixed_text k n = c # r" using assms by (metis fixed_text_length length_0_conv neq_Nil_conv less_irrefl)
  have "list_all is_digit (fixed_text k n)" by (induction k arbitrary: n) simp_all
  then have "c < CHR ''m''" by (simp add: c is_digit_def less_char_def)
  then show ?thesis by (simp add: c)
qed

lemma sortable_text_mono:
  assumes "m < n" and "n < 10 ^ (k + k)"
  shows "fixed_text k (m div 10 ^ k) @ CHR ''.'' # fixed_text k m < fixed_text k (n div 10 ^ k) @ CHR ''.'' # fixed_text k n"
proof -
  have "fixed_text (k + k) m < fixed_text (k + k) n" using assms by (rule fixed_text_mono)
  then have less: "fixed_text k (m div 10 ^ k) @ fixed_text k m < fixed_text k (n div 10 ^ k) @ fixed_text k n"
    by (simp add: fixed_text_append)
  have "m div 10 ^ k \<le> n div 10 ^ k" using assms(1) by (simp add: div_le_mono)
  then consider "m div 10 ^ k = n div 10 ^ k" | "m div 10 ^ k < n div 10 ^ k" by linarith
  then show ?thesis
  proof cases
    case 1
    with less show ?thesis by (simp add: list_less_append_left)
  next
    case 2
    moreover have "n div 10 ^ k < 10 ^ k" using assms(2) by (simp add: div_less_iff_less_mult power_add)
    ultimately show ?thesis by (simp add: fixed_text_mono list_less_append_right)
  qed
qed

lemma printed_dec_parses:
  assumes "IsInValidRange d"
  shows "length (Dec_String d) \<le> 100 \<and> NewDecFromStr (Dec_String d) = Inr d"
proof -
  obtain w f where str: "Dec_String d = (if d < 0 then ''-'' else []) @ w @ CHR ''.'' # f"
    and parts: "w \<noteq> []" "list_all is_digit w" "list_all is_digit f" "length f = Precision"
    and val: "digits_value (w @ f) = nat \<bar>d\<bar>"
    and len: "length w + Precision \<le> max (Suc Precision) (length (nat_text (nat \<bar>d\<bar>)))"
    by (rule Dec_String_shape)
  have short: "length (Dec_String d) \<le> 100"
    using len in_range_text_length [OF assms] parts(4) by (auto simp: str Precision_def max_def split: if_splits)
  obtain c r where w: "w = c # r" "is_digit c" using parts(1,2) by (cases w) auto
  have read: "dec_from_unsigned neg (w @ CHR ''.'' # f) = Inr (if neg then - \<bar>d\<bar> else \<bar>d\<bar>)" for neg
    using dec_from_unsigned_digits [OF parts] assms by (simp add: val IsInValidRange_abs)
  have "NewDecFromStr (Dec_String d) = Inr d"
  proof (cases "d < 0")
    case True
    with short read [of True] show ?thesis by (simp add: NewDecFromStr_def str)
  next
    case False
    with short read [of False] w digit_not_sign [OF w(2)] show ?thesis by (simp add: NewDecFromStr_def str)
  qed
  with short show ?thesis by simp
qed

subsection \<open>Properties\<close>

text \<open>C33. Printing and parsing round trip: every decimal in range prints as text of at most 100
  characters that \<open>NewDecFromStr\<close> reads back as the same decimal.\<close>

theorem NewDecFromStr_String:
  assumes "IsInValidRange d"
  shows "length (Dec_String d) \<le> 100 \<and> NewDecFromStr (Dec_String d) = Inr d"
  by (rule printed_dec_parses [OF assms])

theorem NewDecFromStr_String_witness:
  "NewDecFromStr (Dec_String (- 1500000000000000000)) = Inr (- 1500000000000000000)"
proof -
  have "IsInValidRange (- 1500000000000000000)"
    by (simp add: IsInValidRange_abs maxDecBitLen_def intBitLen_def DecimalPrecisionBits_def)
  from NewDecFromStr_String [OF this] show ?thesis by simp
qed

text \<open>C34. The encodings round trip: every decimal and every integer in range is encoded, decoding the
  encoding gives it back, and so does reading the text of an integer with \<open>NewIntFromString\<close>.\<close>

theorem Unmarshal_Marshal:
  assumes "IsInValidRange d" and "int_in_range i"
  shows "(\<exists>bz. Dec_Marshal d = Inr bz \<and> Dec_Unmarshal bz = Inr d) \<and>
    Int_Unmarshal (Int_Marshal i) = Inr i \<and> NewIntFromString (big_text i) = Some i"
proof (intro conjI)
  have "length (big_text d) \<le> 100" using big_text_length [of d] in_range_text_length [OF assms(1)] by simp
  then show "\<exists>bz. Dec_Marshal d = Inr bz \<and> Dec_Unmarshal bz = Inr d"
    using assms(1) by (simp add: Dec_Marshal_def Dec_Unmarshal_def SetString0_big_text)
  have "length (big_text i) \<le> 100" using big_text_length [of i] int_in_range_text_length [OF assms(2)] by simp
  then show "Int_Unmarshal (Int_Marshal i) = Inr i"
    using assms(2) by (simp add: Int_Marshal_def Int_Unmarshal_def SetString0_big_text int_in_range_def)
  show "NewIntFromString (big_text i) = Some i"
    using assms(2) \<open>length (big_text i) \<le> 100\<close>
    by (simp add: NewIntFromString_def newIntegerFromString_def SetString0_big_text int_in_range_def)
qed

theorem Unmarshal_Marshal_witness:
  "(\<exists>bz. Dec_Marshal 7 = Inr bz \<and> Dec_Unmarshal bz = Inr 7) \<and> Int_Unmarshal (Int_Marshal (- 3)) = Inr (- 3)"
proof -
  have "IsInValidRange 7" "int_in_range (- 3)"
    by (simp_all add: IsInValidRange_abs int_in_range_iff maxDecBitLen_def intBitLen_def DecimalPrecisionBits_def)
  from Unmarshal_Marshal [OF this] show ?thesis by blast
qed

text \<open>C35. \<open>SortableDecBytes\<close> keeps the order: of two sortable decimals that are not negative the
  smaller has the lexicographically smaller bytes.\<close>

theorem SortableDecBytes_mono:
  assumes "0 \<le> d1" and "d1 < d2" and "ValidSortableDec d2"
  shows "\<exists>b1 b2. SortableDecBytes d1 = Inr b1 \<and> SortableDecBytes d2 = Inr b2 \<and> b1 < b2"
proof -
  have le: "d2 \<le> 10 ^ 36" using assms by (simp add: ValidSortableDec_def Dec_Abs_def MaxSortableDec_eq)
  have b1: "SortableDecBytes d1 = Inr (fixed_text Precision (nat d1 div 10 ^ Precision) @ CHR ''.'' # fixed_text Precision (nat d1))"
    using assms le Dec_String_sortable [of d1]
    by (simp add: SortableDecBytes_def ValidSortableDec_def Dec_Abs_def Dec_Neg_def MaxSortableDec_eq)
  show ?thesis
  proof (cases "d2 = 10 ^ 36")
    case True
    have "(fixed_text Precision (nat d1 div 10 ^ Precision) @ CHR ''.'' # fixed_text Precision (nat d1)) < ''max''"
      by (rule fixed_text_less_max) (simp add: Precision_def)
    with True b1 show ?thesis
      by (simp add: SortableDecBytes_def ValidSortableDec_def Dec_Abs_def MaxSortableDec_eq)
  next
    case False
    with le have b2: "SortableDecBytes d2 = Inr (fixed_text Precision (nat d2 div 10 ^ Precision) @ CHR ''.'' # fixed_text Precision (nat d2))"
      using assms Dec_String_sortable [of d2]
      by (simp add: SortableDecBytes_def ValidSortableDec_def Dec_Abs_def Dec_Neg_def MaxSortableDec_eq)
    have "nat d1 < nat d2" "nat d2 < 10 ^ (Precision + Precision)"
      using assms le False by (simp_all add: Precision_def nat_less_iff)
    from sortable_text_mono [OF this] b1 b2 show ?thesis by simp
  qed
qed

theorem SortableDecBytes_mono_witness:
  "\<exists>b1 b2. SortableDecBytes 5 = Inr b1 \<and> SortableDecBytes (10 ^ 19) = Inr b2 \<and> b1 < b2"
  by (rule SortableDecBytes_mono) (simp_all add: ValidSortableDec_def Dec_Abs_def MaxSortableDec_eq)

text \<open>\<open>NewDecFromStr\<close> accepts a second sign, which its documented format does not have: the code
  strips one minus sign and hands the rest to \<open>SetString\<close>, which reads a sign of its own.\<close>

theorem NewDecFromStr_double_sign:
  "NewDecFromStr ''--5'' = Inr (5 * 10 ^ 18) \<and> NewDecFromStr ''-+5'' = Inr (- 5 * 10 ^ 18)"
proof -
  have "digits_value (''5'' @ replicate 18 (CHR ''0'')) = 5 * 10 ^ 18"
    unfolding digits_value_append digits_value_zeros by (simp add: digits_value_def digit_val_def)
  moreover have "list_all is_digit (''5'' @ replicate 18 (CHR ''0''))"
    unfolding list_all_append by (simp add: is_digit_def)
  ultimately have "unsigned_value (''5'' @ replicate 18 (CHR ''0'')) = Some (5 * 10 ^ 18)"
    by (simp add: unsigned_value_def)
  then have set: "big_SetString (''-5'' @ replicate 18 (CHR ''0'')) = Some (- 5 * 10 ^ 18)"
    "big_SetString (''+5'' @ replicate 18 (CHR ''0'')) = Some (5 * 10 ^ 18)"
    by (simp_all add: big_SetString_def)
  have dots: "split_on (CHR ''.'') ''-5'' = [''-5'']" "split_on (CHR ''.'') ''+5'' = [''+5'']"
    by code_simp+
  have range: "IsInValidRange (5 * 10 ^ 18)" "IsInValidRange (- (5 * 10 ^ 18))"
    by (simp_all add: IsInValidRange_abs maxDecBitLen_def intBitLen_def DecimalPrecisionBits_def)
  have "dec_from_unsigned True ''-5'' = Inr (5 * 10 ^ 18)" "dec_from_unsigned True ''+5'' = Inr (- 5 * 10 ^ 18)"
    using set range unfolding dec_from_unsigned_def dots combine_parts_def by (simp_all add: Precision_def)
  then show ?thesis by (simp add: NewDecFromStr_def)
qed

end
