(* ===== verification/Denoms.thy ===== *)
theory Denoms
  imports DecCoins
begin

text \<open>
  Registered denominations and conversion between their units: \<open>src/sei-cosmos/types/denom.go\<close>.

  The package variables \<open>denomUnits\<close> and \<open>baseDenom\<close> are the record \<open>denom_registry\<close>. A conversion
  returns an error or panics in its arithmetic.
\<close>

record denom_registry =
  denomUnits :: "(string, dec) gomap"
  baseDenom :: string

datatype denom_error =
    BadDenom sdk_panic
  | AlreadyRegistered string
  | NoDenomRegistered
  | SourceNotRegistered string
  | DestinationNotRegistered string

definition no_denoms :: denom_registry where
  "no_denoms = \<lparr>denomUnits = [], baseDenom = []\<rparr>"

text \<open>A missing key of the map reads as an uninitialised decimal, but the base denomination is a key
  whenever it is not empty.\<close>

definition RegisterDenom :: "denom_registry \<Rightarrow> string \<Rightarrow> dec \<Rightarrow> denom_error + denom_registry" where
  "RegisterDenom r denom unit =
     (case ValidateDenom denom of
        Some e \<Rightarrow> Inl (BadDenom e)
      | None \<Rightarrow>
          (case gm_load (denomUnits r) denom of
             Some u \<Rightarrow> Inl (AlreadyRegistered denom)
           | None \<Rightarrow>
               let units = gm_store denom unit (denomUnits r)
               in if baseDenom r = [] \<or> (case gm_load units (baseDenom r) of Some b \<Rightarrow> unit < b | None \<Rightarrow> False)
                  then Inr \<lparr>denomUnits = units, baseDenom = denom\<rparr>
                  else Inr (r\<lparr>denomUnits := units\<rparr>)))"

definition GetDenomUnit :: "denom_registry \<Rightarrow> string \<Rightarrow> dec option" where
  "GetDenomUnit r denom =
     (case ValidateDenom denom of
        Some e \<Rightarrow> None
      | None \<Rightarrow> gm_load (denomUnits r) denom)"

definition GetBaseDenom :: "denom_registry \<Rightarrow> denom_error + string" where
  "GetBaseDenom r = (if baseDenom r = [] then Inl NoDenomRegistered else Inr (baseDenom r))"

text \<open>The outer sum is the panic of the arithmetic, the inner one the returned error.\<close>

definition ConvertCoin :: "denom_registry \<Rightarrow> Coin \<Rightarrow> string \<Rightarrow> sdk_panic + (denom_error + Coin)" where
  "ConvertCoin r coin denom =
     (case ValidateDenom denom of
        Some e \<Rightarrow> Inr (Inl (BadDenom e))
      | None \<Rightarrow>
          (case GetDenomUnit r (Denom coin) of
             None \<Rightarrow> Inr (Inl (SourceNotRegistered (Denom coin)))
           | Some srcUnit \<Rightarrow>
               (case GetDenomUnit r denom of
                  None \<Rightarrow> Inr (Inl (DestinationNotRegistered denom))
                | Some dstUnit \<Rightarrow>
                    if srcUnit = dstUnit then sum_bind (NewCoin denom (Amount coin)) (\<lambda>c. Inr (Inr c))
                    else
                      sum_bind (NewDecFromInt (Amount coin)) (\<lambda>d.
                      sum_bind (Dec_Mul d srcUnit) (\<lambda>m.
                      sum_bind (Dec_Quo m dstUnit) (\<lambda>q.
                      sum_bind (TruncateInt q) (\<lambda>t.
                      sum_bind (NewCoin denom t) (\<lambda>c. Inr (Inr c)))))))))"

definition ConvertDecCoin :: "denom_registry \<Rightarrow> DecCoin \<Rightarrow> string \<Rightarrow> sdk_panic + (denom_error + DecCoin)" where
  "ConvertDecCoin r coin denom =
     (case ValidateDenom denom of
        Some e \<Rightarrow> Inr (Inl (BadDenom e))
      | None \<Rightarrow>
          (case GetDenomUnit r (Denom coin) of
             None \<Rightarrow> Inr (Inl (SourceNotRegistered (Denom coin)))
           | Some srcUnit \<Rightarrow>
               (case GetDenomUnit r denom of
                  None \<Rightarrow> Inr (Inl (DestinationNotRegistered denom))
                | Some dstUnit \<Rightarrow>
                    if srcUnit = dstUnit then sum_bind (NewDecCoinFromDec denom (Amount coin)) (\<lambda>c. Inr (Inr c))
                    else
                      sum_bind (Dec_Mul (Amount coin) srcUnit) (\<lambda>m.
                      sum_bind (Dec_Quo m dstUnit) (\<lambda>q.
                      sum_bind (NewDecCoinFromDec denom q) (\<lambda>c. Inr (Inr c)))))))"

definition NormalizeCoin :: "denom_registry \<Rightarrow> Coin \<Rightarrow> sdk_panic + Coin" where
  "NormalizeCoin r coin =
     (case GetBaseDenom r of
        Inl e \<Rightarrow> Inr coin
      | Inr base \<Rightarrow>
          sum_bind (ConvertCoin r coin base) (\<lambda>res. case res of Inl e \<Rightarrow> Inr coin | Inr newCoin \<Rightarrow> Inr newCoin))"

definition NormalizeDecCoin :: "denom_registry \<Rightarrow> DecCoin \<Rightarrow> sdk_panic + DecCoin" where
  "NormalizeDecCoin r coin =
     (case GetBaseDenom r of
        Inl e \<Rightarrow> Inr coin
      | Inr base \<Rightarrow>
          sum_bind (ConvertDecCoin r coin base) (\<lambda>res. case res of Inl e \<Rightarrow> Inr coin | Inr newCoin \<Rightarrow> Inr newCoin))"

definition NormalizeCoins :: "denom_registry \<Rightarrow> DecCoins \<Rightarrow> sdk_panic + Coins" where
  "NormalizeCoins r coins =
     sum_map (\<lambda>coin.
       sum_bind (NormalizeDecCoin r coin) (\<lambda>n.
       sum_bind (DecCoin_TruncateDecimal n) (\<lambda>(newCoin, change). Inr newCoin))) coins"

subsection \<open>The registry\<close>

text \<open>Every sequence of registrations, failed ones included.\<close>

inductive registry_reachable :: "denom_registry \<Rightarrow> bool" where
  empty: "registry_reachable no_denoms"
| register: "registry_reachable r \<Longrightarrow> RegisterDenom r denom unit = Inr r' \<Longrightarrow> registry_reachable r'"

definition registry_ok :: "denom_registry \<Rightarrow> bool" where
  "registry_ok r \<longleftrightarrow>
     (\<forall>d u. gm_load (denomUnits r) d = Some u \<longrightarrow> reDnm_match d) \<and>
     (if baseDenom r = [] then \<forall>d. gm_load (denomUnits r) d = None
      else \<exists>b. gm_load (denomUnits r) (baseDenom r) = Some b \<and>
        (\<forall>d u. gm_load (denomUnits r) d = Some u \<longrightarrow> b \<le> u))"

lemma RegisterDenom_ok:
  assumes "registry_ok r" and "RegisterDenom r denom unit = Inr r'"
  shows "registry_ok r'"
proof -
  have valid: "reDnm_match denom" and new: "gm_load (denomUnits r) denom = None"
    using assms(2) by (auto simp: RegisterDenom_def ValidateDenom_def split: if_splits option.splits)
  have ne: "denom \<noteq> []" using valid by (auto simp: reDnm_match_def)
  show ?thesis
  proof (cases "baseDenom r = []")
    case True
    then have "r' = \<lparr>denomUnits = gm_store denom unit (denomUnits r), baseDenom = denom\<rparr>"
      using assms(2) valid new by (simp add: RegisterDenom_def ValidateDenom_def)
    then show ?thesis using True assms(1) valid ne unfolding registry_ok_def by (simp add: gomap_simps)
  next
    case False
    then obtain b where b: "gm_load (denomUnits r) (baseDenom r) = Some b"
      and least: "\<And>d u. gm_load (denomUnits r) d = Some u \<Longrightarrow> b \<le> u"
      using assms(1) by (auto simp: registry_ok_def)
    then have base: "baseDenom r \<noteq> denom" using new by auto
    then have r': "r' = (if unit < b then \<lparr>denomUnits = gm_store denom unit (denomUnits r), baseDenom = denom\<rparr>
        else r\<lparr>denomUnits := gm_store denom unit (denomUnits r)\<rparr>)"
      using assms(2) valid new b False by (auto simp: RegisterDenom_def ValidateDenom_def gomap_simps)
    show ?thesis
    proof (cases "unit < b")
      case True
      have "unit \<le> u" if "gm_load (denomUnits r) d = Some u" for d u
        using least [OF that] True by simp
      then show ?thesis
        using r' True assms(1) valid ne unfolding registry_ok_def by (simp add: gomap_simps)
    next
      case False
      then show ?thesis
        using r' assms(1) valid b base least \<open>baseDenom r \<noteq> []\<close> unfolding registry_ok_def by (simp add: gomap_simps)
    qed
  qed
qed

lemma reachable_ok: "registry_reachable r \<Longrightarrow> registry_ok r"
  by (induction rule: registry_reachable.induct) (auto simp: RegisterDenom_ok, simp add: registry_ok_def no_denoms_def)

lemma GetDenomUnit_ok: "registry_ok r \<Longrightarrow> GetDenomUnit r d = gm_load (denomUnits r) d"
  by (cases "gm_load (denomUnits r) d") (auto simp: GetDenomUnit_def ValidateDenom_def registry_ok_def)

lemma sdiv_mult_right: "0 < t \<Longrightarrow> (x * t) sdiv t = x" for x t :: int
  by (simp add: signed_divide_int_def abs_mult sgn_mult sgn_mult_abs)

subsection \<open>Properties\<close>

text \<open>After any sequence of registrations the base denomination is a registered one with the smallest
  unit, and it is missing exactly when nothing is registered.\<close>

theorem base_denom_smallest:
  assumes "registry_reachable r"
  shows "case GetBaseDenom r of
      Inl e \<Rightarrow> e = NoDenomRegistered \<and> (\<forall>d. GetDenomUnit r d = None)
    | Inr base \<Rightarrow> \<exists>b. GetDenomUnit r base = Some b \<and> (\<forall>d u. GetDenomUnit r d = Some u \<longrightarrow> b \<le> u)"
  using reachable_ok [OF assms] GetDenomUnit_ok [OF reachable_ok [OF assms]]
  by (cases "baseDenom r = []") (auto simp: GetBaseDenom_def registry_ok_def)

text \<open>A registry with two units for the witnesses.\<close>

definition sei_registry :: denom_registry where
  "sei_registry = \<lparr>denomUnits = [(''sei'', 10 ^ 18), (''usei'', 10 ^ 12)], baseDenom = ''usei''\<rparr>"

lemma sei_registry_reachable: "registry_reachable sei_registry"
proof -
  have valid: "reDnm_match ''sei''" "reDnm_match ''usei''" by code_simp+
  let ?r = "\<lparr>denomUnits = [(''sei'', 10 ^ 18)], baseDenom = ''sei''\<rparr>"
  have "RegisterDenom no_denoms ''sei'' (10 ^ 18) = Inr ?r"
    using valid by (simp add: RegisterDenom_def ValidateDenom_def no_denoms_def)
  then have "registry_reachable ?r" by (rule registry_reachable.register [OF registry_reachable.empty])
  moreover have "RegisterDenom ?r ''usei'' (10 ^ 12) = Inr sei_registry"
    using valid by (simp add: RegisterDenom_def ValidateDenom_def sei_registry_def)
  ultimately show ?thesis by (rule registry_reachable.register)
qed

theorem base_denom_smallest_witness:
  "\<exists>b. GetDenomUnit sei_registry ''usei'' = Some b \<and> (\<forall>d u. GetDenomUnit sei_registry d = Some u \<longrightarrow> b \<le> u)"
  using base_denom_smallest [OF sei_registry_reachable] by (simp add: GetBaseDenom_def sei_registry_def)

text \<open>Conversion to a unit that divides the unit of the coin is exact: when the source unit is \<open>k\<close> times
  the destination unit and the products stay in range, the amount is multiplied by \<open>k\<close>.\<close>

theorem ConvertCoin_exact:
  assumes "registry_ok r" and "gm_load (denomUnits r) (Denom c) = Some (k * t)" and "gm_load (denomUnits r) denom = Some t"
    and "0 < t" and "1 < k" and "0 \<le> Amount c"
    and "IsInValidRange (Amount c * precisionReuse)" and "IsInValidRange (Amount c * (k * t))"
    and "IsInValidRange (Amount c * k * precisionReuse)" and "int_in_range (Amount c * k)"
  shows "ConvertCoin r c denom = Inr (Inr \<lparr>Denom = denom, Amount = Amount c * k\<rparr>)"
proof -
  let ?a = "Amount c"
  have valid: "reDnm_match denom" "reDnm_match (Denom c)" using assms(1-3) by (auto simp: registry_ok_def)
  have "?a * precisionReuse * (k * t) = ?a * (k * t) * precisionReuse" by (simp add: ac_simps)
  then have mul: "Dec_Mul (?a * precisionReuse) (k * t) = Inr (?a * (k * t))"
    using assms(8) by (simp only: Dec_Mul_def chop_exact assertInValidRange_def if_True)
  have "?a * (k * t) * precisionReuse * precisionReuse = (?a * k * precisionReuse * precisionReuse) * t"
    by (simp add: ac_simps)
  then have "(?a * (k * t) * precisionReuse * precisionReuse) sdiv t = ?a * k * precisionReuse * precisionReuse"
    using assms(4) by (simp only: sdiv_mult_right)
  then have quo: "Dec_Quo (?a * (k * t)) t = Inr (?a * k * precisionReuse)"
    using assms(4,9) by (simp add: Dec_Quo_def big_Quo_def chop_exact assertInValidRange_def)
  have "chopPrecisionAndTruncate (?a * k * precisionReuse) = ?a * k"
    using assms(5,6) by (simp add: chopPrecisionAndTruncate_def sdiv_nonneg)
  then have "TruncateInt (?a * k * precisionReuse) = Inr (?a * k)"
    using assms(10) by (simp add: TruncateInt_def NewIntFromBigInt_def int_in_range_def)
  moreover have "\<not> ?a * k < 0" using assms(5,6) by (simp add: not_less)
  ultimately show ?thesis using mul quo valid assms
    by (simp add: ConvertCoin_def ValidateDenom_def GetDenomUnit_ok NewDecFromInt_eq assertInValidRange_def
        NewCoin_def Coin_Validate_def)
qed

theorem ConvertCoin_exact_witness:
  "ConvertCoin sei_registry \<lparr>Denom = ''sei'', Amount = 7\<rparr> ''usei'' = Inr (Inr \<lparr>Denom = ''usei'', Amount = 7000000\<rparr>)"
  using ConvertCoin_exact [OF reachable_ok [OF sei_registry_reachable], of "\<lparr>Denom = ''sei'', Amount = 7\<rparr>" "10 ^ 6" "10 ^ 12" "''usei''"]
  by (simp add: sei_registry_def IsInValidRange_abs int_in_range_iff maxDecBitLen_def intBitLen_def
      DecimalPrecisionBits_def precisionReuse_def Precision_def)

end
