(* ===== verification/CoinText.thy ===== *)
theory CoinText
  imports DecCoinProps DecimalText Denoms
begin

text \<open>
  Text of coins: the printing of \<open>coin.go\<close> and \<open>dec_coin.go\<close> and the parsers \<open>ParseDecCoin\<close>,
  \<open>ParseDecCoins\<close>, \<open>ParseCoinNormalized\<close> and \<open>ParseCoinsNormalized\<close> of
  \<open>src/sei-cosmos/types/\<close>.

  \<open>strings.TrimSpace\<close> is modelled for texts of one-byte characters: it removes the six ASCII
  spaces, which are also those of the class \<open>[[:space:]]\<close>.
\<close>

datatype parse_error =
    InvalidExpression
  | BadAmount dec_error
  | BadCoin sdk_panic

subsection \<open>Printing\<close>

definition Coin_String :: "Coin \<Rightarrow> string" where
  "Coin_String coin = big_text (Amount coin) @ Denom coin"

definition DecCoin_String :: "DecCoin \<Rightarrow> string" where
  "DecCoin_String coin = Dec_String (Amount coin) @ Denom coin"

fun join_comma :: "string list \<Rightarrow> string" where
  "join_comma [] = []"
| "join_comma [s] = s"
| "join_comma (s # t # ss) = s @ CHR '','' # join_comma (t # ss)"

definition Coins_String :: "Coins \<Rightarrow> string" where
  "Coins_String coins = join_comma (map Coin_String coins)"

definition DecCoins_String :: "DecCoins \<Rightarrow> string" where
  "DecCoins_String coins = join_comma (map DecCoin_String coins)"

subsection \<open>Parsing\<close>

definition is_space :: "char \<Rightarrow> bool" where
  "is_space c \<longleftrightarrow> (let n = (of_char c :: nat) in n = 32 \<or> (9 \<le> n \<and> n \<le> 13))"

definition TrimSpace :: "string \<Rightarrow> string" where
  "TrimSpace s = rev (dropWhile is_space (rev (dropWhile is_space s)))"

text \<open>The amount of the regular expression: digits with an optional fraction, or a fraction alone.\<close>

definition reDecAmt_match :: "string \<Rightarrow> bool" where
  "reDecAmt_match s \<longleftrightarrow>
     (case split_on (CHR ''.'') s of
        [w] \<Rightarrow> w \<noteq> [] \<and> list_all is_digit w
      | [w, f] \<Rightarrow> list_all is_digit w \<and> f \<noteq> [] \<and> list_all is_digit f
      | _ \<Rightarrow> False)"

text \<open>The two groups of \<open>reDecCoin\<close>: a denomination begins with a letter, so the amount is the longest
  prefix of digits and points.\<close>

definition reDecCoin_match :: "string \<Rightarrow> (string \<times> string) option" where
  "reDecCoin_match s =
     (let amountStr = takeWhile (\<lambda>c. is_digit c \<or> c = CHR ''.'') s;
          denomStr = dropWhile is_space (dropWhile (\<lambda>c. is_digit c \<or> c = CHR ''.'') s)
      in if reDecAmt_match amountStr \<and> reDnm_match denomStr then Some (amountStr, denomStr) else None)"

definition ParseDecCoin :: "string \<Rightarrow> parse_error + DecCoin" where
  "ParseDecCoin coinStr =
     (case reDecCoin_match (TrimSpace coinStr) of
        None \<Rightarrow> Inl InvalidExpression
      | Some (amountStr, denomStr) \<Rightarrow>
          (case NewDecFromStr amountStr of
             Inl e \<Rightarrow> Inl (BadAmount e)
           | Inr amount \<Rightarrow>
               (case ValidateDenom denomStr of
                  Some e \<Rightarrow> Inl (BadCoin e)
                | None \<Rightarrow> (case NewDecCoinFromDec denomStr amount of Inl e \<Rightarrow> Inl (BadCoin e) | Inr c \<Rightarrow> Inr c))))"

definition ParseDecCoins :: "string \<Rightarrow> parse_error + DecCoins" where
  "ParseDecCoins coinsStr =
     (let s = TrimSpace coinsStr
      in if length s = 0 then Inr []
         else sum_bind (sum_map ParseDecCoin (split_on (CHR '','') s)) (\<lambda>decCoins.
           let newDecCoins = sanitizeDecCoins decCoins
           in case DecCoins_Validate newDecCoins of Some e \<Rightarrow> Inl (BadCoin e) | None \<Rightarrow> Inr newDecCoins))"

text \<open>A panic of the conversion is a panic of the parser; it is listed with the errors here.\<close>

definition ParseCoinNormalized :: "denom_registry \<Rightarrow> string \<Rightarrow> parse_error + Coin" where
  "ParseCoinNormalized r coinStr =
     sum_bind (ParseDecCoin coinStr) (\<lambda>decCoin.
       case sum_bind (NormalizeDecCoin r decCoin) DecCoin_TruncateDecimal of
         Inl e \<Rightarrow> Inl (BadCoin e)
       | Inr (coin, change) \<Rightarrow> Inr coin)"

definition ParseCoinsNormalized :: "denom_registry \<Rightarrow> string \<Rightarrow> parse_error + Coins" where
  "ParseCoinsNormalized r coinStr =
     sum_bind (ParseDecCoins coinStr) (\<lambda>coins.
       case NormalizeCoins r coins of Inl e \<Rightarrow> Inl (BadCoin e) | Inr cs \<Rightarrow> Inr cs)"

subsection \<open>Reading back a printed coin\<close>

lemma denom_chars:
  assumes "reDnm_match d" and "c \<in> set d"
  shows "\<not> is_space c" and "c \<noteq> CHR '',''"
proof -
  have "denom_char c" using assms by (auto simp: reDnm_match_def denom_char_def list_all_iff split: list.splits)
  then have "\<not> is_space c \<and> c \<noteq> CHR '',''"
    by (auto simp: denom_char_def is_letter_def is_digit_def is_space_def Let_def)
  then show "\<not> is_space c" "c \<noteq> CHR '',''" by simp_all
qed

lemma digit_chars: "is_digit c \<Longrightarrow> \<not> is_space c \<and> c \<noteq> CHR '',''"
  by (auto simp: is_digit_def is_space_def Let_def)

lemma TrimSpace_id:
  assumes "s \<noteq> [] \<Longrightarrow> \<not> is_space (hd s)" and "s \<noteq> [] \<Longrightarrow> \<not> is_space (last s)"
  shows "TrimSpace s = s"
proof -
  have "dropWhile is_space s = s" using assms(1) by (cases s) simp_all
  moreover have "dropWhile is_space (rev s) = rev s"
    using assms(2) by (cases s rule: rev_cases) simp_all
  ultimately show ?thesis by (simp add: TrimSpace_def)
qed

lemma split_join:
  assumes "ss \<noteq> []" and "\<forall>s\<in>set ss. CHR '','' \<notin> set s"
  shows "split_on (CHR '','') (join_comma ss) = ss"
  using assms by (induction ss rule: join_comma.induct) (simp_all add: split_on_none split_on_once)

lemma DecCoin_String_match:
  assumes "0 \<le> Amount c" and "reDnm_match (Denom c)"
  shows "reDecCoin_match (DecCoin_String c) = Some (Dec_String (Amount c), Denom c)"
    and "TrimSpace (DecCoin_String c) = DecCoin_String c"
    and "CHR '','' \<notin> set (DecCoin_String c)"
    and "DecCoin_String c \<noteq> []" and "\<not> is_space (hd (DecCoin_String c))" and "\<not> is_space (last (DecCoin_String c))"
proof -
  obtain w f where str: "Dec_String (Amount c) = (if Amount c < 0 then ''-'' else []) @ w @ CHR ''.'' # f"
    and parts: "w \<noteq> []" "list_all is_digit w" "list_all is_digit f" "length f = Precision"
    by (rule Dec_String_shape)
  let ?p = "\<lambda>c. is_digit c \<or> c = CHR ''.''"
  have amount: "Dec_String (Amount c) = w @ CHR ''.'' # f" using str assms(1) by simp
  then have all: "\<forall>x\<in>set (Dec_String (Amount c)). ?p x" using parts by (auto simp: list_all_iff)
  obtain e r where denom: "Denom c = e # r" "is_letter e" using assms(2) by (auto simp: reDnm_match_def split: list.splits)
  then have e: "\<not> ?p e" "\<not> is_space e" by (auto simp: is_letter_def is_digit_def is_space_def Let_def)
  have take: "takeWhile ?p (DecCoin_String c) = Dec_String (Amount c)"
    using all e denom by (simp add: DecCoin_String_def takeWhile_append)
  have drop: "dropWhile ?p (DecCoin_String c) = Denom c"
    using all e denom by (simp add: DecCoin_String_def dropWhile_append)
  have "f \<noteq> []" using parts(4) by (auto simp: Precision_def)
  then have "reDecAmt_match (Dec_String (Amount c))"
    using parts by (simp add: reDecAmt_match_def amount split_on_once split_on_none digits_no_dot)
  then show "reDecCoin_match (DecCoin_String c) = Some (Dec_String (Amount c), Denom c)"
    using assms(2) denom e unfolding reDecCoin_match_def take drop by simp
  show ne: "DecCoin_String c \<noteq> []" by (simp add: DecCoin_String_def amount)
  have "hd (DecCoin_String c) = hd w" using parts(1) by (simp add: DecCoin_String_def amount)
  then show hd: "\<not> is_space (hd (DecCoin_String c))"
    using parts(1,2) digit_chars [of "hd w"] by (auto simp: list_all_iff)
  have "last (DecCoin_String c) = last (Denom c)" using denom by (simp add: DecCoin_String_def)
  then show last: "\<not> is_space (last (DecCoin_String c))"
    using denom_chars(1) [OF assms(2)] denom by simp
  show "TrimSpace (DecCoin_String c) = DecCoin_String c" using hd last by (simp add: TrimSpace_id)
  show "CHR '','' \<notin> set (DecCoin_String c)"
    using denom_chars(2) [OF assms(2)] digit_chars parts by (auto simp: DecCoin_String_def amount list_all_iff)
qed

lemma ParseDecCoin_String:
  assumes "0 \<le> Amount c" and "reDnm_match (Denom c)" and "IsInValidRange (Amount c)"
  shows "ParseDecCoin (DecCoin_String c) = Inr c"
  using printed_dec_parses [OF assms(3)] assms(1,2)
  by (simp add: ParseDecCoin_def DecCoin_String_match ValidateDenom_def NewDecCoinFromDec_def mustValidateDenom_def)

lemma join_comma_ends:
  assumes "ss \<noteq> []" and "\<forall>s\<in>set ss. s \<noteq> []"
  shows "join_comma ss \<noteq> [] \<and> hd (join_comma ss) = hd (hd ss) \<and> last (join_comma ss) = last (last ss)"
  using assms by (induction ss rule: join_comma.induct) auto

lemma sanitizeDecCoins_valid: "DecCoins_IsValid cs \<Longrightarrow> sanitizeDecCoins cs = cs"
  by (simp add: sanitizeDecCoins_def Let_def removeZeroDecCoins_eq DecCoins_Sort_eq DecCoins_IsValid_iff
      removeZero_id valid_nf) (simp add: Sort_id Coins_IsValid_iff strict_sorted_imp_sorted)

lemma printed_coins_parse:
  assumes "DecCoins_IsValid cs"
  shows "ParseDecCoins (DecCoins_String cs) = Inr cs"
proof (cases "cs = []")
  case True
  then show ?thesis by (simp add: ParseDecCoins_def DecCoins_String_def TrimSpace_def)
next
  case False
  let ?ss = "map DecCoin_String cs"
  have coin: "0 \<le> Amount c" "reDnm_match (Denom c)" "IsInValidRange (Amount c)" if "c \<in> set cs" for c
    using assms that by (force simp: DecCoins_IsValid_iff Coins_IsValid_iff decs_in_range_def list_all_iff)+
  note ends = join_comma_ends [of ?ss]
  have ne: "\<forall>s\<in>set ?ss. s \<noteq> []" using coin DecCoin_String_match(4) by auto
  have "\<not> is_space (hd (hd ?ss))" "\<not> is_space (last (last ?ss))"
    using False coin DecCoin_String_match(5,6) by (simp_all add: hd_map last_map)
  then have trim: "TrimSpace (join_comma ?ss) = join_comma ?ss" and full: "join_comma ?ss \<noteq> []"
    using ends ne False by (simp_all add: TrimSpace_id)
  have "split_on (CHR '','') (join_comma ?ss) = ?ss"
    using False coin DecCoin_String_match(3) by (intro split_join) auto
  moreover have "sum_map ParseDecCoin ?ss = Inr cs"
    using coin ParseDecCoin_String by (induction cs) simp_all
  ultimately show ?thesis
    using trim full assms by (simp add: ParseDecCoins_def DecCoins_String_def sanitizeDecCoins_valid Let_def DecCoins_IsValid_def)
qed

subsection \<open>Properties\<close>

text \<open>C20. Printing and parsing round trip: the text of a valid set of decimal coins is parsed as that set.\<close>

theorem ParseDecCoins_String:
  assumes "DecCoins_IsValid cs"
  shows "ParseDecCoins (DecCoins_String cs) = Inr cs"
  by (rule printed_coins_parse [OF assms])

theorem ParseDecCoins_String_witness:
  "ParseDecCoins (DecCoins_String dec_coins_a) = Inr dec_coins_a"
  by (rule ParseDecCoins_String [OF dec_coins_a_valid])

text \<open>\<open>ParseCoinsNormalized\<close> can return sets that are not valid, although its comment says that the
  coins are sanitised and validated: normalisation and truncation come after the validation, so an
  amount below one unit becomes a zero coin and two units of one currency become duplicates.\<close>

theorem ParseCoinsNormalized_unsanitized:
  "ParseCoinsNormalized no_denoms (DecCoins_String [\<lparr>Denom = ''usei'', Amount = 5 * 10 ^ 17\<rparr>]) =
     Inr [\<lparr>Denom = ''usei'', Amount = 0\<rparr>] \<and>
   ParseCoinsNormalized sei_registry (DecCoins_String [\<lparr>Denom = ''sei'', Amount = 10 ^ 18\<rparr>, \<lparr>Denom = ''usei'', Amount = 10 ^ 18\<rparr>]) =
     Inr [\<lparr>Denom = ''usei'', Amount = 10 ^ 6\<rparr>, \<lparr>Denom = ''usei'', Amount = 1\<rparr>] \<and>
   \<not> Coins_IsValid [\<lparr>Denom = ''usei'', Amount = 0\<rparr>] \<and>
   \<not> Coins_IsValid [\<lparr>Denom = ''usei'', Amount = 10 ^ 6\<rparr>, \<lparr>Denom = ''usei'', Amount = 1\<rparr>]"
proof -
  have names: "reDnm_match ''sei''" "reDnm_match ''usei''" by code_simp+
  have range: "IsInValidRange (5 * 10 ^ 17)" "IsInValidRange (10 ^ 18)" "IsInValidRange (10 ^ 24)"
    by (simp_all add: IsInValidRange_abs maxDecBitLen_def intBitLen_def DecimalPrecisionBits_def)
  have "DecCoins_IsValid [\<lparr>Denom = ''usei'', Amount = 5 * 10 ^ 17\<rparr>]"
    "DecCoins_IsValid [\<lparr>Denom = ''sei'', Amount = 10 ^ 18\<rparr>, \<lparr>Denom = ''usei'', Amount = 10 ^ 18\<rparr>]"
    using names range by (simp_all add: DecCoins_IsValid_iff decs_in_range_def)
  note parsed = this [THEN printed_coins_parse]
  have "(10 ^ 18 :: int) * 10 ^ 18 = 10 ^ 18 * precisionReuse" by (simp add: precisionReuse_def Precision_def)
  then have mul: "Dec_Mul (10 ^ 18) (10 ^ 18) = Inr (10 ^ 18)"
    using range by (simp only: Dec_Mul_def chop_exact assertInValidRange_def if_True)
  have "((10 ^ 18 :: int) * precisionReuse * precisionReuse) sdiv 10 ^ 12 = 10 ^ 24 * precisionReuse"
    by (simp add: precisionReuse_def Precision_def signed_divide_int_def)
  then have quo: "Dec_Quo (10 ^ 18) (10 ^ 12) = Inr (10 ^ 24)"
    using range unfolding Dec_Quo_def Let_def big_Quo_def by (simp only: chop_exact) (simp add: chop_exact assertInValidRange_def)
  have convert: "NormalizeDecCoin no_denoms \<lparr>Denom = ''usei'', Amount = 5 * 10 ^ 17\<rparr> = Inr \<lparr>Denom = ''usei'', Amount = 5 * 10 ^ 17\<rparr>"
    "NormalizeDecCoin sei_registry \<lparr>Denom = ''sei'', Amount = 10 ^ 18\<rparr> = Inr \<lparr>Denom = ''usei'', Amount = 10 ^ 24\<rparr>"
    "NormalizeDecCoin sei_registry \<lparr>Denom = ''usei'', Amount = 10 ^ 18\<rparr> = Inr \<lparr>Denom = ''usei'', Amount = 10 ^ 18\<rparr>"
    using names mul quo
    by (simp_all add: NormalizeDecCoin_def ConvertDecCoin_def GetBaseDenom_def GetDenomUnit_def ValidateDenom_def
        NewDecCoinFromDec_def mustValidateDenom_def no_denoms_def sei_registry_def)
  have truncate: "sum_bind (DecCoin_TruncateDecimal \<lparr>Denom = ''usei'', Amount = x\<rparr>) (\<lambda>(newCoin, change). Inr newCoin) =
      Inr \<lparr>Denom = ''usei'', Amount = x div 10 ^ 18\<rparr>" if "IsInValidRange x" "0 \<le> x" for x
    using that names by (simp add: DecCoin_Truncate_eq precisionReuse_def Precision_def)
  show ?thesis
    unfolding ParseCoinsNormalized_def parsed sum_bind_simps NormalizeCoins_def sum_map.simps convert
    using truncate [OF range(1)] truncate [OF range(2)] truncate [OF range(3)] by simp
qed

end
