(* ===== verification/Accounts.thy ===== *)
theory Accounts
  imports CoinProps Decimal "HOL-Library.Word"
begin

text \<open>
  Accounts: the account types of \<open>src/sei-cosmos/x/auth/types/account.go\<close>, the vesting accounts of
  \<open>src/sei-cosmos/x/auth/vesting/types/vesting_account.go\<close> and the account keeper of
  \<open>src/sei-cosmos/x/auth/keeper/\<close> (\<open>account.go\<close>, \<open>keeper.go\<close>).

  An account keeps its address decoded (the code keeps the bech32 text of it); public keys are left
  out. Times are Unix seconds, \<open>int64\<close> values whose sums and differences wrap (\<open>int64\<close>); account
  numbers are 64-bit words. The hash that gives a module its address is third-party code
  (\<open>crypto.AddressHash\<close>): a module's address is part of the table \<open>permAddrs\<close> of the keeper, which the
  application builds once.
\<close>

type_synonym addr = string

definition int64 :: "int \<Rightarrow> int" where
  "int64 x = (x + 2 ^ 63) mod 2 ^ 64 - 2 ^ 63"

record BaseAccount =
  Address :: addr
  AccountNumber :: "64 word"
  Sequence :: "64 word"

record BaseVestingAccount =
  bva_Base :: BaseAccount
  OriginalVesting :: Coins
  DelegatedFree :: Coins
  DelegatedVesting :: Coins
  EndTime :: int

record Period =
  Length :: int
  PeriodAmount :: Coins

datatype account =
    BaseAcc BaseAccount
  | ModuleAccount BaseAccount string "string list"
  | ContinuousVestingAccount BaseVestingAccount int
  | PeriodicVestingAccount BaseVestingAccount int "Period list"
  | DelayedVestingAccount BaseVestingAccount
  | PermanentLockedAccount BaseVestingAccount

datatype account_panic =
    SdkPanic sdk_panic
  | BadDelegation
  | ZeroUndelegation
  | NotAModuleAccount
  | BlankPermission

definition sdk :: "sdk_panic + 'a \<Rightarrow> account_panic + 'a" where
  "sdk r = (case r of Inl p \<Rightarrow> Inl (SdkPanic p) | Inr x \<Rightarrow> Inr x)"

subsection \<open>Base vesting account\<close>

definition NewBaseVestingAccount :: "BaseAccount \<Rightarrow> Coins \<Rightarrow> int \<Rightarrow> BaseVestingAccount" where
  "NewBaseVestingAccount baseAccount originalVesting endTime =
     \<lparr>bva_Base = baseAccount, OriginalVesting = originalVesting, DelegatedFree = [], DelegatedVesting = [],
      EndTime = endTime\<rparr>"

definition LockedCoinsFromVesting :: "BaseVestingAccount \<Rightarrow> Coins \<Rightarrow> sdk_panic + Coins" where
  "LockedCoinsFromVesting bva vestingCoins =
     sum_bind (Coins_Min vestingCoins (DelegatedVesting bva)) (\<lambda>m. Coins_Sub vestingCoins m)"

definition credit :: "string \<Rightarrow> int \<Rightarrow> Coins \<Rightarrow> sdk_panic + Coins" where
  "credit denom x cs = (if x = 0 then Inr cs else sum_bind (NewCoin denom x) (\<lambda>c. Coins_Add cs [c]))"

definition debit :: "string \<Rightarrow> int \<Rightarrow> Coins \<Rightarrow> sdk_panic + Coins" where
  "debit denom x cs = (if x = 0 then Inr cs else sum_bind (NewCoin denom x) (\<lambda>c. Coins_Sub cs [c]))"

fun bva_TrackDelegation ::
  "Coins \<Rightarrow> Coins \<Rightarrow> Coins \<Rightarrow> BaseVestingAccount \<Rightarrow> account_panic + BaseVestingAccount" where
  "bva_TrackDelegation balance vestingCoins [] bva = Inr bva"
| "bva_TrackDelegation balance vestingCoins (coin # amount) bva =
     sum_bind (sdk (AmountOf balance (Denom coin))) (\<lambda>baseAmt.
     sum_bind (sdk (AmountOf vestingCoins (Denom coin))) (\<lambda>vestingAmt.
     sum_bind (sdk (AmountOf (DelegatedVesting bva) (Denom coin))) (\<lambda>delVestingAmt.
       if Amount coin = 0 \<or> baseAmt < Amount coin then Inl BadDelegation
       else
         sum_bind (sdk (Int_Sub vestingAmt delVestingAmt)) (\<lambda>v.
         let x = MinInt (MaxInt v 0) (Amount coin) in
         sum_bind (sdk (Int_Sub (Amount coin) x)) (\<lambda>y.
         sum_bind (sdk (credit (Denom coin) x (DelegatedVesting bva))) (\<lambda>dv.
         sum_bind (sdk (credit (Denom coin) y (DelegatedFree bva))) (\<lambda>df.
           bva_TrackDelegation balance vestingCoins amount
             (bva\<lparr>DelegatedVesting := dv, DelegatedFree := df\<rparr>))))))))"

fun bva_TrackUndelegation :: "Coins \<Rightarrow> BaseVestingAccount \<Rightarrow> account_panic + BaseVestingAccount" where
  "bva_TrackUndelegation [] bva = Inr bva"
| "bva_TrackUndelegation (coin # amount) bva =
     (if Amount coin = 0 then Inl ZeroUndelegation
      else
        sum_bind (sdk (AmountOf (DelegatedFree bva) (Denom coin))) (\<lambda>delegatedFree.
        sum_bind (sdk (AmountOf (DelegatedVesting bva) (Denom coin))) (\<lambda>delegatedVesting.
        let x = MinInt delegatedFree (Amount coin) in
        sum_bind (sdk (Int_Sub (Amount coin) x)) (\<lambda>r.
        let y = MinInt delegatedVesting r in
        sum_bind (sdk (debit (Denom coin) x (DelegatedFree bva))) (\<lambda>df.
        sum_bind (sdk (debit (Denom coin) y (DelegatedVesting bva))) (\<lambda>dv.
          bva_TrackUndelegation amount (bva\<lparr>DelegatedFree := df, DelegatedVesting := dv\<rparr>)))))))"

subsection \<open>Vesting schedules\<close>

definition vested_coin :: "dec \<Rightarrow> Coin \<Rightarrow> sdk_panic + Coin" where
  "vested_coin s ovc =
     sum_bind (NewDecFromInt (Amount ovc)) (\<lambda>a.
     sum_bind (Dec_Mul a s) (\<lambda>m.
     sum_bind (RoundInt m) (\<lambda>vestedAmt. NewCoin (Denom ovc) vestedAmt)))"

fun vested_coins :: "dec \<Rightarrow> Coins \<Rightarrow> sdk_panic + Coins" where
  "vested_coins s [] = Inr []"
| "vested_coins s (c # cs) =
     sum_bind (vested_coin s c) (\<lambda>v. sum_bind (vested_coins s cs) (\<lambda>vs. Inr (v # vs)))"

definition continuous_vested :: "BaseVestingAccount \<Rightarrow> int \<Rightarrow> int \<Rightarrow> sdk_panic + Coins" where
  "continuous_vested bva startTime blockTime =
     (if blockTime \<le> startTime then Inr []
      else if EndTime bva \<le> blockTime then Inr (OriginalVesting bva)
      else
        sum_bind (NewDec (int64 (blockTime - startTime))) (\<lambda>x.
        sum_bind (NewDec (int64 (EndTime bva - startTime))) (\<lambda>y.
        sum_bind (Dec_Quo x y) (\<lambda>s. vested_coins s (OriginalVesting bva)))))"

fun periods_vested :: "int \<Rightarrow> int \<Rightarrow> Period list \<Rightarrow> Coins \<Rightarrow> sdk_panic + Coins" where
  "periods_vested blockTime currentPeriodStartTime [] vested = Inr vested"
| "periods_vested blockTime currentPeriodStartTime (p # ps) vested =
     (if int64 (blockTime - currentPeriodStartTime) < Length p then Inr vested
      else sum_bind (Coins_Add vested (PeriodAmount p)) (\<lambda>vested'.
        periods_vested blockTime (int64 (currentPeriodStartTime + Length p)) ps vested'))"

definition periodic_vested :: "BaseVestingAccount \<Rightarrow> int \<Rightarrow> Period list \<Rightarrow> int \<Rightarrow> sdk_panic + Coins" where
  "periodic_vested bva startTime periods blockTime =
     (if blockTime \<le> startTime then Inr []
      else if EndTime bva \<le> blockTime then Inr (OriginalVesting bva)
      else periods_vested blockTime startTime periods [])"

definition delayed_vested :: "BaseVestingAccount \<Rightarrow> int \<Rightarrow> sdk_panic + Coins" where
  "delayed_vested bva blockTime = Inr (if EndTime bva \<le> blockTime then OriginalVesting bva else [])"

subsection \<open>The interface of a vesting account\<close>

fun vesting_base :: "account \<Rightarrow> BaseVestingAccount option" where
  "vesting_base (ContinuousVestingAccount bva st) = Some bva"
| "vesting_base (PeriodicVestingAccount bva st ps) = Some bva"
| "vesting_base (DelayedVestingAccount bva) = Some bva"
| "vesting_base (PermanentLockedAccount bva) = Some bva"
| "vesting_base (BaseAcc ba) = None"
| "vesting_base (ModuleAccount ba name perms) = None"

fun set_vesting_base :: "account \<Rightarrow> BaseVestingAccount \<Rightarrow> account" where
  "set_vesting_base (ContinuousVestingAccount _ st) bva = ContinuousVestingAccount bva st"
| "set_vesting_base (PeriodicVestingAccount _ st ps) bva = PeriodicVestingAccount bva st ps"
| "set_vesting_base (DelayedVestingAccount _) bva = DelayedVestingAccount bva"
| "set_vesting_base (PermanentLockedAccount _) bva = PermanentLockedAccount bva"
| "set_vesting_base acc bva = acc"

fun GetVestedCoins :: "account \<Rightarrow> int \<Rightarrow> sdk_panic + Coins" where
  "GetVestedCoins (ContinuousVestingAccount bva st) blockTime = continuous_vested bva st blockTime"
| "GetVestedCoins (PeriodicVestingAccount bva st ps) blockTime = periodic_vested bva st ps blockTime"
| "GetVestedCoins (DelayedVestingAccount bva) blockTime = delayed_vested bva blockTime"
| "GetVestedCoins _ blockTime = Inr []"

fun GetVestingCoins :: "account \<Rightarrow> int \<Rightarrow> sdk_panic + Coins" where
  "GetVestingCoins (ContinuousVestingAccount bva st) blockTime =
     sum_bind (continuous_vested bva st blockTime) (Coins_Sub (OriginalVesting bva))"
| "GetVestingCoins (PeriodicVestingAccount bva st ps) blockTime =
     sum_bind (periodic_vested bva st ps blockTime) (Coins_Sub (OriginalVesting bva))"
| "GetVestingCoins (DelayedVestingAccount bva) blockTime =
     sum_bind (delayed_vested bva blockTime) (Coins_Sub (OriginalVesting bva))"
| "GetVestingCoins (PermanentLockedAccount bva) blockTime = Inr (OriginalVesting bva)"
| "GetVestingCoins _ blockTime = Inr []"

definition acc_LockedCoins :: "account \<Rightarrow> int \<Rightarrow> sdk_panic + Coins" where
  "acc_LockedCoins acc blockTime =
     (case vesting_base acc of
        None \<Rightarrow> Inr []
      | Some bva \<Rightarrow> sum_bind (GetVestingCoins acc blockTime) (LockedCoinsFromVesting bva))"

definition acc_TrackDelegation :: "account \<Rightarrow> int \<Rightarrow> Coins \<Rightarrow> Coins \<Rightarrow> account_panic + account" where
  "acc_TrackDelegation acc blockTime balance amount =
     (case vesting_base acc of
        None \<Rightarrow> Inr acc
      | Some bva \<Rightarrow>
          sum_bind (sdk (GetVestingCoins acc blockTime)) (\<lambda>v.
          sum_bind (bva_TrackDelegation balance v amount bva) (\<lambda>bva'. Inr (set_vesting_base acc bva'))))"

definition acc_TrackUndelegation :: "account \<Rightarrow> Coins \<Rightarrow> account_panic + account" where
  "acc_TrackUndelegation acc amount =
     (case vesting_base acc of
        None \<Rightarrow> Inr acc
      | Some bva \<Rightarrow>
          sum_bind (bva_TrackUndelegation amount bva) (\<lambda>bva'. Inr (set_vesting_base acc bva')))"

subsection \<open>The account keeper\<close>

record auth =
  acc_store :: "(addr, account) gomap"
  globalAccountNumber :: "64 word option"

type_synonym perm_table = "(string, addr \<times> string list) gomap"

fun base_account :: "account \<Rightarrow> BaseAccount" where
  "base_account (BaseAcc ba) = ba"
| "base_account (ModuleAccount ba name perms) = ba"
| "base_account (ContinuousVestingAccount bva st) = bva_Base bva"
| "base_account (PeriodicVestingAccount bva st ps) = bva_Base bva"
| "base_account (DelayedVestingAccount bva) = bva_Base bva"
| "base_account (PermanentLockedAccount bva) = bva_Base bva"

definition GetAccount :: "auth \<Rightarrow> addr \<Rightarrow> account option" where
  "GetAccount ak addr = gm_load (acc_store ak) addr"

definition HasAccount :: "auth \<Rightarrow> addr \<Rightarrow> bool" where
  "HasAccount ak addr \<longleftrightarrow> gm_load (acc_store ak) addr \<noteq> None"

definition SetAccount :: "account \<Rightarrow> auth \<Rightarrow> auth" where
  "SetAccount acc ak = ak\<lparr>acc_store := gm_store (Address (base_account acc)) acc (acc_store ak)\<rparr>"

definition RemoveAccount :: "account \<Rightarrow> auth \<Rightarrow> auth" where
  "RemoveAccount acc ak = ak\<lparr>acc_store := gm_delete (Address (base_account acc)) (acc_store ak)\<rparr>"

definition GetNextAccountNumber :: "auth \<Rightarrow> 64 word \<times> auth" where
  "GetNextAccountNumber ak =
     (let accNumber = (case globalAccountNumber ak of None \<Rightarrow> 0 | Some n \<Rightarrow> n)
      in (accNumber, ak\<lparr>globalAccountNumber := Some (accNumber + 1)\<rparr>))"

definition GetModuleAddress :: "perm_table \<Rightarrow> string \<Rightarrow> addr option" where
  "GetModuleAddress permAddrs moduleName = map_option fst (gm_load permAddrs moduleName)"

text \<open>\<open>strings.TrimSpace(perm) == ""\<close>, for one-byte characters.\<close>

definition blank_permission :: "string \<Rightarrow> bool" where
  "blank_permission perm \<longleftrightarrow> list_all (\<lambda>c. let n = (of_char c :: nat) in n = 32 \<or> (9 \<le> n \<and> n \<le> 13)) perm"

definition NewEmptyModuleAccount :: "addr \<Rightarrow> string \<Rightarrow> string list \<Rightarrow> account_panic + account" where
  "NewEmptyModuleAccount moduleAddress name permissions =
     (if list_ex blank_permission permissions then Inl BlankPermission
      else Inr (ModuleAccount \<lparr>Address = moduleAddress, AccountNumber = 0, Sequence = 0\<rparr> name permissions))"

fun set_account_number :: "64 word \<Rightarrow> account \<Rightarrow> account" where
  "set_account_number n (ModuleAccount ba name perms) = ModuleAccount (ba\<lparr>AccountNumber := n\<rparr>) name perms"
| "set_account_number n (BaseAcc ba) = BaseAcc (ba\<lparr>AccountNumber := n\<rparr>)"
| "set_account_number n acc =
     (case vesting_base acc of
        None \<Rightarrow> acc
      | Some bva \<Rightarrow> set_vesting_base acc (bva\<lparr>bva_Base := (bva_Base bva)\<lparr>AccountNumber := n\<rparr>\<rparr>))"

definition NewAccount :: "account \<Rightarrow> auth \<Rightarrow> account \<times> auth" where
  "NewAccount acc ak = (let (n, ak') = GetNextAccountNumber ak in (set_account_number n acc, ak'))"

definition NewAccountWithAddress :: "addr \<Rightarrow> auth \<Rightarrow> account \<times> auth" where
  "NewAccountWithAddress addr ak = NewAccount (BaseAcc \<lparr>Address = addr, AccountNumber = 0, Sequence = 0\<rparr>) ak"

fun is_module_account :: "account \<Rightarrow> bool" where
  "is_module_account (ModuleAccount ba name perms) = True"
| "is_module_account _ = False"

definition GetModuleAccount :: "perm_table \<Rightarrow> string \<Rightarrow> auth \<Rightarrow> account_panic + (account option \<times> auth)" where
  "GetModuleAccount permAddrs moduleName ak =
     (case gm_load permAddrs moduleName of
        None \<Rightarrow> Inr (None, ak)
      | Some (addr, perms) \<Rightarrow>
          (case GetAccount ak addr of
             Some acc \<Rightarrow> if is_module_account acc then Inr (Some acc, ak) else Inl NotAModuleAccount
           | None \<Rightarrow>
               sum_bind (NewEmptyModuleAccount addr moduleName perms) (\<lambda>macc.
               let (maccI, ak') = NewAccount macc ak
               in Inr (Some maccI, SetAccount maccI ak'))))"

fun HasPermission :: "account \<Rightarrow> string \<Rightarrow> bool" where
  "HasPermission (ModuleAccount ba name perms) permission \<longleftrightarrow> permission \<in> set perms"
| "HasPermission _ permission \<longleftrightarrow> False"

end
