(* ===== verification/Bank.thy ===== *)
theory Bank
  imports Accounts Denoms
begin

text \<open>
  The bank module, views and transfers: \<open>view.go\<close> and \<open>send.go\<close> of \<open>src/sei-cosmos/x/bank/keeper/\<close>,
  with \<open>types/params.go\<close>.

  The state holds what the module keeps in its stores, decoded: the coin stored for an account and a
  denomination, the wei of an account, the supply of a denomination, the coins deferred for a module
  account and a transaction, the allow lists and the parameters; and the accounts of the auth module.
  Addresses are those the stores can keep apart, of 1 to 255 bytes. An operation returns an error or
  the new state; the state after an error is not represented, since the writes of a failed message are
  discarded. Events, metrics and logs are left out.

  The record \<open>bank_env\<close> holds what the keeper is built with and reads from the context: the table of
  module accounts, the registered denominations, the recipient checkers, the blocked addresses, the
  restrictions on minting, the time of the block and the index of the transaction. The bech32 text of an
  address is third-party code, the functions \<open>be_AccAddressFromBech32\<close> and \<open>be_String\<close>.
\<close>

datatype bank_error =
    BankPanic account_panic
  | ErrInvalidCoins
  | ErrInsufficientFunds
  | ErrInvalidRecipient
  | ErrInvalidAddress
  | ErrUnknownAddress
  | ErrUnauthorized
  | ErrSendDisabled
  | ErrNoInputs
  | ErrNoOutputs
  | ErrInputOutputMismatch
  | ErrMintRestricted
  | ErrNegativeTxIndex
  | AccountBalanceInvalid
  | ErrVestingAboveBalance
  | MissingModuleBalance
  | NoBaseDenom
  | NoDeferredCache
  | UnknownModuleAccount
  | MissingPermission

record bank_params =
  SendEnabled :: "(string \<times> bool) list"
  DefaultSendEnabled :: bool

record bank =
  balances :: "(addr \<times> string, Coin) gomap"
  weiBalances :: "(addr, int) gomap"
  supplies :: "(string, int) gomap"
  deferred :: "((addr \<times> 64 word) \<times> string, Coin) gomap"
  allowLists :: "(string, string list) gomap"
  params :: bank_params
  accounts :: auth

record bank_env =
  be_permAddrs :: perm_table
  be_denoms :: denom_registry
  be_recipientCheckers :: "(addr \<Rightarrow> bool) list"
  be_blockedAddrs :: "(string, bool) gomap"
  be_mintCoinsRestrictions :: "(Coins \<Rightarrow> bool) list"
  be_AccAddressFromBech32 :: "string \<Rightarrow> addr option"
  be_String :: "addr \<Rightarrow> string"
  be_BlockTime :: int
  be_TxIndex :: int
  be_hasDeferredCache :: bool

type_synonym 'a bres = "bank_error + 'a"

definition lift_acc :: "account_panic + 'a \<Rightarrow> 'a bres" where
  "lift_acc r = (case r of Inl p \<Rightarrow> Inl (BankPanic p) | Inr x \<Rightarrow> Inr x)"

definition lift_panic :: "sdk_panic + 'a \<Rightarrow> 'a bres" where
  "lift_panic r = lift_acc (sdk r)"

definition require :: "bool \<Rightarrow> bank_error \<Rightarrow> unit bres" where
  "require c e = (if c then Inr () else Inl e)"

subsection \<open>Balances\<close>

definition GetBalance :: "bank \<Rightarrow> addr \<Rightarrow> string \<Rightarrow> Coin bres" where
  "GetBalance st addr denom =
     (case gm_load (balances st) (addr, denom) of
        None \<Rightarrow> lift_panic (NewCoin denom 0)
      | Some balance \<Rightarrow> Inr balance)"

definition GetWeiBalance :: "bank \<Rightarrow> addr \<Rightarrow> int" where
  "GetWeiBalance st addr = (case gm_load (weiBalances st) addr of None \<Rightarrow> 0 | Some v \<Rightarrow> v)"

definition LockedCoins :: "bank_env \<Rightarrow> bank \<Rightarrow> addr \<Rightarrow> Coins bres" where
  "LockedCoins env st addr =
     (case GetAccount (accounts st) addr of
        None \<Rightarrow> Inr []
      | Some acc \<Rightarrow> lift_panic (acc_LockedCoins acc (be_BlockTime env)))"

definition HasBalance :: "bank \<Rightarrow> addr \<Rightarrow> Coin \<Rightarrow> bool bres" where
  "HasBalance st addr amount =
     sum_bind (GetBalance st addr (Denom amount)) (\<lambda>b. lift_panic (Coin_IsGTE b amount))"

text \<open>The store keeps the balances of an account in the order of the denominations.\<close>

definition IterateAccountBalances :: "bank \<Rightarrow> addr \<Rightarrow> Coins" where
  "IterateAccountBalances st addr =
     map snd (sort_key (snd \<circ> fst) (filter (\<lambda>e. fst (fst e) = addr) (balances st)))"

definition GetAllBalances :: "bank \<Rightarrow> addr \<Rightarrow> Coins" where
  "GetAllBalances st addr = Coins_Sort (IterateAccountBalances st addr)"

definition spendableCoins :: "bank_env \<Rightarrow> bank \<Rightarrow> addr \<Rightarrow> (Coins \<times> Coins) bres" where
  "spendableCoins env st addr =
     (let total = GetAllBalances st addr in
      sum_bind (LockedCoins env st addr) (\<lambda>locked.
      sum_bind (lift_panic (Coins_SafeSub total locked)) (\<lambda>(spendable, hasNeg).
        if hasNeg then Inr ([], total) else Inr (spendable, total))))"

definition SpendableCoins :: "bank_env \<Rightarrow> bank \<Rightarrow> addr \<Rightarrow> Coins bres" where
  "SpendableCoins env st addr = sum_bind (spendableCoins env st addr) (\<lambda>(spendable, total). Inr spendable)"

definition ValidateBalance :: "bank \<Rightarrow> addr \<Rightarrow> unit bres" where
  "ValidateBalance st addr =
     (case GetAccount (accounts st) addr of
        None \<Rightarrow> Inl ErrUnknownAddress
      | Some acc \<Rightarrow>
          let bals = GetAllBalances st addr in
          if \<not> Coins_IsValid bals then Inl AccountBalanceInvalid
          else case vesting_base acc of
            None \<Rightarrow> Inr ()
          | Some bva \<Rightarrow>
              sum_bind (lift_panic (IsAnyGT (OriginalVesting bva) bals)) (\<lambda>gt.
                require (\<not> gt) ErrVestingAboveBalance))"

definition setBalance :: "addr \<Rightarrow> Coin \<Rightarrow> bool \<Rightarrow> bank \<Rightarrow> bank bres" where
  "setBalance addr balance checkNeg st =
     (if checkNeg \<and> Coin_Validate balance \<noteq> None then Inl ErrInvalidCoins
      else if Amount balance = 0
        then Inr (st\<lparr>balances := gm_delete (addr, Denom balance) (balances st)\<rparr>)
        else Inr (st\<lparr>balances := gm_store (addr, Denom balance) balance (balances st)\<rparr>))"

definition setWeiBalance :: "addr \<Rightarrow> int \<Rightarrow> bank \<Rightarrow> bank" where
  "setWeiBalance addr amount st =
     (if amount = 0 then st\<lparr>weiBalances := gm_delete addr (weiBalances st)\<rparr>
      else st\<lparr>weiBalances := gm_store addr amount (weiBalances st)\<rparr>)"

definition init_balance :: "addr \<Rightarrow> Coin \<Rightarrow> bank \<Rightarrow> bank bres" where
  "init_balance addr balance st =
     (if Coin_Validate balance \<noteq> None then Inl ErrInvalidCoins
      else if Amount balance \<noteq> 0
        then Inr (st\<lparr>balances := gm_store (addr, Denom balance) balance (balances st)\<rparr>)
        else Inr st)"

definition initBalances :: "addr \<Rightarrow> Coins \<Rightarrow> bank \<Rightarrow> bank bres" where
  "initBalances addr bals = each (init_balance addr) bals"

subsection \<open>Transfers\<close>

definition sub_unlocked_coin :: "Coins \<Rightarrow> addr \<Rightarrow> bool \<Rightarrow> Coin \<Rightarrow> bank \<Rightarrow> bank bres" where
  "sub_unlocked_coin lockedCoins addr checkNeg coin st =
     sum_bind (GetBalance st addr (Denom coin)) (\<lambda>balance.
     sum_bind
       (if checkNeg then
          sum_bind (lift_panic (AmountOf lockedCoins (Denom coin))) (\<lambda>l.
          sum_bind (lift_panic (NewCoin (Denom coin) l)) (\<lambda>locked.
          sum_bind (lift_panic (Coin_Sub balance locked)) (\<lambda>spendable.
          sum_bind (lift_panic (Coins_SafeSub [spendable] [coin])) (\<lambda>(diff, hasNeg).
            require (\<not> hasNeg) ErrInsufficientFunds))))
        else Inr ()) (\<lambda>_.
     sum_bind (lift_panic (if checkNeg then Coin_Sub balance coin else Coin_SubUnsafe balance coin)) (\<lambda>newBalance.
       setBalance addr newBalance checkNeg st)))"

definition SubUnlockedCoins :: "bank_env \<Rightarrow> addr \<Rightarrow> Coins \<Rightarrow> bool \<Rightarrow> bank \<Rightarrow> bank bres" where
  "SubUnlockedCoins env addr amount checkNeg st =
     (if \<not> Coins_IsValid amount then Inl ErrInvalidCoins
      else sum_bind (LockedCoins env st addr) (\<lambda>lockedCoins.
        each (sub_unlocked_coin lockedCoins addr checkNeg) amount st))"

definition CanSendTo :: "bank_env \<Rightarrow> addr \<Rightarrow> bool" where
  "CanSendTo env recipient \<longleftrightarrow> list_all (\<lambda>rc. rc recipient) (be_recipientCheckers env)"

definition add_coin :: "addr \<Rightarrow> bool \<Rightarrow> Coin \<Rightarrow> bank \<Rightarrow> bank bres" where
  "add_coin addr checkNeg coin st =
     sum_bind (GetBalance st addr (Denom coin)) (\<lambda>balance.
     sum_bind (lift_panic (Coin_Add balance coin)) (\<lambda>newBalance.
       setBalance addr newBalance checkNeg st))"

definition AddCoins :: "bank_env \<Rightarrow> addr \<Rightarrow> Coins \<Rightarrow> bool \<Rightarrow> bank \<Rightarrow> bank bres" where
  "AddCoins env addr amount checkNeg st =
     (if \<not> CanSendTo env addr then Inl ErrInvalidRecipient
      else if \<not> Coins_IsValid amount then Inl ErrInvalidCoins
      else each (add_coin addr checkNeg) amount st)"

definition sendCoinsWithoutAccCreation ::
  "bank_env \<Rightarrow> addr \<Rightarrow> addr \<Rightarrow> Coins \<Rightarrow> bool \<Rightarrow> bank \<Rightarrow> bank bres" where
  "sendCoinsWithoutAccCreation env fromAddr toAddr amount checkNeg st =
     sum_bind (SubUnlockedCoins env fromAddr amount checkNeg st) (AddCoins env toAddr amount checkNeg)"

definition SendCoinsWithoutAccCreation ::
  "bank_env \<Rightarrow> addr \<Rightarrow> addr \<Rightarrow> Coins \<Rightarrow> bank \<Rightarrow> bank bres" where
  "SendCoinsWithoutAccCreation env fromAddr toAddr amount st =
     sendCoinsWithoutAccCreation env fromAddr toAddr amount True st"

definition create_account :: "addr \<Rightarrow> bank \<Rightarrow> bank" where
  "create_account addr st =
     (if HasAccount (accounts st) addr then st
      else let (acc, ak) = NewAccountWithAddress addr (accounts st) in st\<lparr>accounts := SetAccount acc ak\<rparr>)"

definition SendCoins :: "bank_env \<Rightarrow> addr \<Rightarrow> addr \<Rightarrow> Coins \<Rightarrow> bank \<Rightarrow> bank bres" where
  "SendCoins env fromAddr toAddr amount st =
     sum_bind (SendCoinsWithoutAccCreation env fromAddr toAddr amount st) (\<lambda>st'.
       Inr (create_account toAddr st'))"

subsection \<open>Wei\<close>

definition OneUseiInWei :: int where
  "OneUseiInWei = 1000000000000"

definition SplitUseiWeiAmount :: "int \<Rightarrow> sdk_panic + int \<times> int" where
  "SplitUseiWeiAmount amount =
     sum_bind (Int_Quo amount OneUseiInWei) (\<lambda>q. sum_bind (Int_Mod amount OneUseiInWei) (\<lambda>r. Inr (q, r)))"

definition MustGetBaseDenom :: "bank_env \<Rightarrow> string bres" where
  "MustGetBaseDenom env = (case GetBaseDenom (be_denoms env) of Inl e \<Rightarrow> Inl NoBaseDenom | Inr d \<Rightarrow> Inr d)"

definition SubWei :: "bank_env \<Rightarrow> addr \<Rightarrow> int \<Rightarrow> bank \<Rightarrow> bank bres" where
  "SubWei env addr amount st =
     (if amount = 0 then Inr st
      else let currentWeiBalance = GetWeiBalance st addr in
        if amount \<le> currentWeiBalance
        then sum_bind (lift_panic (Int_Sub currentWeiBalance amount)) (\<lambda>w. Inr (setWeiBalance addr w st))
        else
          sum_bind (MustGetBaseDenom env) (\<lambda>base.
          sum_bind (GetBalance st addr base) (\<lambda>b.
          sum_bind (lift_panic (Int_Mul (Amount b) OneUseiInWei)) (\<lambda>m.
          sum_bind (lift_panic (Int_Add m currentWeiBalance)) (\<lambda>currentAggregatedBalance.
          sum_bind (lift_panic (Int_Sub currentAggregatedBalance amount)) (\<lambda>postAggregatedbalance.
            if postAggregatedbalance < 0 then Inl ErrInsufficientFunds
            else
              sum_bind (lift_panic (SplitUseiWeiAmount postAggregatedbalance)) (\<lambda>(useiBalance, weiBalance).
              sum_bind (lift_panic (NewCoin base useiBalance)) (\<lambda>c.
              sum_bind (setBalance addr c True st) (\<lambda>st'.
                Inr (setWeiBalance addr weiBalance st'))))))))))"

definition AddWei :: "bank_env \<Rightarrow> addr \<Rightarrow> int \<Rightarrow> bank \<Rightarrow> bank bres" where
  "AddWei env addr amount st =
     (if \<not> CanSendTo env addr then Inl ErrInvalidRecipient
      else if amount = 0 then Inr st
      else let currentWeiBalance = GetWeiBalance st addr in
        sum_bind (lift_panic (Int_Add currentWeiBalance amount)) (\<lambda>postWeiBalance.
          if postWeiBalance < OneUseiInWei then Inr (setWeiBalance addr postWeiBalance st)
          else
            sum_bind (MustGetBaseDenom env) (\<lambda>base.
            sum_bind (GetBalance st addr base) (\<lambda>b.
            sum_bind (lift_panic (SplitUseiWeiAmount postWeiBalance)) (\<lambda>(useiCredit, weiBalance).
            sum_bind (lift_panic (Int_Add (Amount b) useiCredit)) (\<lambda>u.
            sum_bind (lift_panic (NewCoin base u)) (\<lambda>c.
            sum_bind (setBalance addr c True st) (\<lambda>st'.
              Inr (setWeiBalance addr weiBalance st')))))))))"

definition SendCoinsAndWei :: "bank_env \<Rightarrow> addr \<Rightarrow> addr \<Rightarrow> int \<Rightarrow> int \<Rightarrow> bank \<Rightarrow> bank bres" where
  "SendCoinsAndWei env from to amount wei st =
     sum_bind (SubWei env from wei st) (\<lambda>st1.
     sum_bind (AddWei env to wei st1) (\<lambda>st2.
       if amount > 0 then
         sum_bind (MustGetBaseDenom env) (\<lambda>base.
         sum_bind (lift_panic (NewCoin base amount)) (\<lambda>c.
         sum_bind (lift_panic (NewCoins [c])) (\<lambda>cs.
           SendCoinsWithoutAccCreation env from to cs st2)))
       else Inr st2))"

end
