(* ===== verification/BankKeeper.thy ===== *)
theory BankKeeper
  imports Bank
begin

text \<open>
  The bank module, the rest of its operations: allow lists, multi-party transfers and messages
  (\<open>send.go\<close>, \<open>msg_server.go\<close>, \<open>types/msgs.go\<close>), supply, minting and burning, transfers of module
  accounts, delegation and deferred deposits (\<open>keeper.go\<close>, \<open>deferred_cache.go\<close>), and the invariant of the
  supply (\<open>invariants.go\<close>), all of \<open>src/sei-cosmos/x/bank/\<close>.

  A panic with an error is the value of that error.
\<close>

subsection \<open>Who may send and receive\<close>

fun send_enabled :: "(string \<times> bool) list \<Rightarrow> bool \<Rightarrow> string \<Rightarrow> bool" where
  "send_enabled [] dflt denom = dflt"
| "send_enabled ((d, enabled) # ps) dflt denom = (if d = denom then enabled else send_enabled ps dflt denom)"

definition SendEnabledDenom :: "bank_params \<Rightarrow> string \<Rightarrow> bool" where
  "SendEnabledDenom p denom = send_enabled (SendEnabled p) (DefaultSendEnabled p) denom"

definition SetSendEnabledParam :: "bank_params \<Rightarrow> string \<Rightarrow> bool \<Rightarrow> bank_params" where
  "SetSendEnabledParam p denom sendEnabled =
     \<lparr>SendEnabled = filter (\<lambda>e. fst e \<noteq> denom) (SendEnabled p) @ [(denom, sendEnabled)],
      DefaultSendEnabled = DefaultSendEnabled p\<rparr>"

definition IsSendEnabledCoin :: "bank \<Rightarrow> Coin \<Rightarrow> bool" where
  "IsSendEnabledCoin st coin = SendEnabledDenom (params st) (Denom coin)"

definition IsSendEnabledCoins :: "bank \<Rightarrow> Coins \<Rightarrow> unit bres" where
  "IsSendEnabledCoins st coins = require (list_all (IsSendEnabledCoin st) coins) ErrSendDisabled"

definition CoinbaseAddressPrefix :: bytes where
  "CoinbaseAddressPrefix = ''evm_coinbase''"

definition BlockedAddr :: "bank_env \<Rightarrow> addr \<Rightarrow> bool" where
  "BlockedAddr env addr \<longleftrightarrow>
     length addr = length CoinbaseAddressPrefix + 8 \<and>
       CoinbaseAddressPrefix = take (length CoinbaseAddressPrefix) addr \<or>
     gm_load (be_blockedAddrs env) (be_String env addr) = Some True"

definition SetDenomAllowList :: "string \<Rightarrow> string list \<Rightarrow> bank \<Rightarrow> bank" where
  "SetDenomAllowList denom allowList st = st\<lparr>allowLists := gm_store denom allowList (allowLists st)\<rparr>"

definition GetDenomAllowList :: "bank \<Rightarrow> string \<Rightarrow> string list" where
  "GetDenomAllowList st denom = (case gm_load (allowLists st) denom of None \<Rightarrow> [] | Some l \<Rightarrow> l)"

type_synonym allow_cache = "(string, string list) gomap"

definition getAllowedAddresses :: "bank \<Rightarrow> allow_cache \<Rightarrow> string \<Rightarrow> string list \<times> allow_cache" where
  "getAllowedAddresses st cache denom =
     (case gm_load cache denom of
        Some a \<Rightarrow> (a, cache)
      | None \<Rightarrow> let a = remdups (GetDenomAllowList st denom) in (a, gm_store denom a cache))"

definition TokenFactoryPrefix :: string where
  "TokenFactoryPrefix = ''factory''"

fun IsInDenomAllowList :: "bank_env \<Rightarrow> bank \<Rightarrow> addr \<Rightarrow> Coins \<Rightarrow> allow_cache \<Rightarrow> bool \<times> allow_cache" where
  "IsInDenomAllowList env st addr [] cache = (True, cache)"
| "IsInDenomAllowList env st addr (coin # coins) cache =
     (if take (length TokenFactoryPrefix) (Denom coin) \<noteq> TokenFactoryPrefix
      then IsInDenomAllowList env st addr coins cache
      else let (allowed, cache') = getAllowedAddresses st cache (Denom coin) in
        if length allowed = 0 then IsInDenomAllowList env st addr coins cache'
        else if be_String env addr \<notin> set allowed then (False, cache')
        else IsInDenomAllowList env st addr coins cache')"

subsection \<open>Transfers between several parties\<close>

record party =
  pAddress :: string
  pCoins :: Coins

definition party_ValidateBasic :: "bank_env \<Rightarrow> party \<Rightarrow> unit bres" where
  "party_ValidateBasic env p =
     (if be_AccAddressFromBech32 env (pAddress p) = None then Inl ErrInvalidAddress
      else if \<not> Coins_IsValid (pCoins p) then Inl ErrInvalidCoins
      else if \<not> Coins_IsAllPositive (pCoins p) then Inl ErrInvalidCoins
      else Inr ())"

definition sum_party :: "bank_env \<Rightarrow> party \<Rightarrow> Coins \<Rightarrow> Coins bres" where
  "sum_party env p acc =
     sum_bind (party_ValidateBasic env p) (\<lambda>_. lift_panic (Coins_Add acc (pCoins p)))"

definition ValidateInputsOutputs :: "bank_env \<Rightarrow> party list \<Rightarrow> party list \<Rightarrow> unit bres" where
  "ValidateInputsOutputs env inputs outputs =
     sum_bind (each (sum_party env) inputs []) (\<lambda>totalIn.
     sum_bind (each (sum_party env) outputs []) (\<lambda>totalOut.
     sum_bind (lift_panic (Coins_IsEqual totalIn totalOut)) (\<lambda>eq.
       require eq ErrInputOutputMismatch)))"

definition fromBech32 :: "bank_env \<Rightarrow> string \<Rightarrow> addr bres" where
  "fromBech32 env s = (case be_AccAddressFromBech32 env s of None \<Rightarrow> Inl ErrInvalidAddress | Some a \<Rightarrow> Inr a)"

definition input_step :: "bank_env \<Rightarrow> party \<Rightarrow> bank \<Rightarrow> bank bres" where
  "input_step env p st =
     sum_bind (fromBech32 env (pAddress p)) (\<lambda>inAddress. SubUnlockedCoins env inAddress (pCoins p) True st)"

definition output_step :: "bank_env \<Rightarrow> party \<Rightarrow> bank \<Rightarrow> bank bres" where
  "output_step env p st =
     sum_bind (fromBech32 env (pAddress p)) (\<lambda>outAddress.
     sum_bind (AddCoins env outAddress (pCoins p) True st) (\<lambda>st'. Inr (create_account outAddress st')))"

definition InputOutputCoins :: "bank_env \<Rightarrow> party list \<Rightarrow> party list \<Rightarrow> bank \<Rightarrow> bank bres" where
  "InputOutputCoins env inputs outputs st =
     sum_bind (ValidateInputsOutputs env inputs outputs) (\<lambda>_.
     sum_bind (each (input_step env) inputs st) (each (output_step env) outputs))"

subsection \<open>Messages\<close>

record MsgSend =
  FromAddress :: string
  ToAddress :: string
  MsgAmount :: Coins

definition MsgSend_ValidateBasic :: "bank_env \<Rightarrow> MsgSend \<Rightarrow> unit bres" where
  "MsgSend_ValidateBasic env msg =
     (if be_AccAddressFromBech32 env (FromAddress msg) = None then Inl ErrInvalidAddress
      else if be_AccAddressFromBech32 env (ToAddress msg) = None then Inl ErrInvalidAddress
      else if \<not> Coins_IsValid (MsgAmount msg) then Inl ErrInvalidCoins
      else if \<not> Coins_IsAllPositive (MsgAmount msg) then Inl ErrInvalidCoins
      else Inr ())"

definition msg_Send :: "bank_env \<Rightarrow> MsgSend \<Rightarrow> bank \<Rightarrow> bank bres" where
  "msg_Send env msg st =
     sum_bind (IsSendEnabledCoins st (MsgAmount msg)) (\<lambda>_.
     sum_bind (fromBech32 env (FromAddress msg)) (\<lambda>from.
     sum_bind (fromBech32 env (ToAddress msg)) (\<lambda>to.
     let (fromAllowed, cache) = IsInDenomAllowList env st from (MsgAmount msg) [] in
     if \<not> fromAllowed then Inl ErrUnauthorized
     else if BlockedAddr env to \<or> \<not> fst (IsInDenomAllowList env st to (MsgAmount msg) cache) then Inl ErrUnauthorized
     else SendCoins env from to (MsgAmount msg) st)))"

definition check_input :: "bank_env \<Rightarrow> bank \<Rightarrow> party \<Rightarrow> allow_cache \<Rightarrow> allow_cache bres" where
  "check_input env st p cache =
     sum_bind (IsSendEnabledCoins st (pCoins p)) (\<lambda>_.
     sum_bind (fromBech32 env (pAddress p)) (\<lambda>accAddr.
     let (allowed, cache') = IsInDenomAllowList env st accAddr (pCoins p) cache in
     if \<not> allowed then Inl ErrUnauthorized else Inr cache'))"

definition check_output :: "bank_env \<Rightarrow> bank \<Rightarrow> party \<Rightarrow> allow_cache \<Rightarrow> allow_cache bres" where
  "check_output env st p cache =
     sum_bind (fromBech32 env (pAddress p)) (\<lambda>accAddr.
     if BlockedAddr env accAddr then Inl ErrUnauthorized
     else let (allowed, cache') = IsInDenomAllowList env st accAddr (pCoins p) cache in
       if \<not> allowed then Inl ErrUnauthorized else Inr cache')"

definition msg_MultiSend :: "bank_env \<Rightarrow> party list \<Rightarrow> party list \<Rightarrow> bank \<Rightarrow> bank bres" where
  "msg_MultiSend env inputs outputs st =
     sum_bind (each (check_input env st) inputs []) (\<lambda>cache.
     sum_bind (each (check_output env st) outputs cache) (\<lambda>_.
       InputOutputCoins env inputs outputs st))"

definition MsgMultiSend_ValidateBasic :: "bank_env \<Rightarrow> party list \<Rightarrow> party list \<Rightarrow> unit bres" where
  "MsgMultiSend_ValidateBasic env inputs outputs =
     (if length inputs = 0 then Inl ErrNoInputs
      else if length outputs = 0 then Inl ErrNoOutputs
      else ValidateInputsOutputs env inputs outputs)"

subsection \<open>Supply\<close>

definition GetSupply :: "bank \<Rightarrow> string \<Rightarrow> Coin" where
  "GetSupply st denom =
     \<lparr>Denom = denom, Amount = (case gm_load (supplies st) denom of None \<Rightarrow> 0 | Some a \<Rightarrow> a)\<rparr>"

definition HasSupply :: "bank \<Rightarrow> string \<Rightarrow> bool" where
  "HasSupply st denom \<longleftrightarrow> gm_load (supplies st) denom \<noteq> None"

definition SetSupply :: "Coin \<Rightarrow> bank \<Rightarrow> bank" where
  "SetSupply coin st =
     (if Amount coin = 0 then st\<lparr>supplies := gm_delete (Denom coin) (supplies st)\<rparr>
      else st\<lparr>supplies := gm_store (Denom coin) (Amount coin) (supplies st)\<rparr>)"

definition add_supply :: "Coin \<Rightarrow> bank \<Rightarrow> bank bres" where
  "add_supply coin st =
     sum_bind (lift_panic (Coin_Add (GetSupply st (Denom coin)) coin)) (\<lambda>s. Inr (SetSupply s st))"

definition sub_supply :: "Coin \<Rightarrow> bank \<Rightarrow> bank bres" where
  "sub_supply coin st =
     sum_bind (lift_panic (Coin_Sub (GetSupply st (Denom coin)) coin)) (\<lambda>s. Inr (SetSupply s st))"

subsection \<open>Module accounts\<close>

definition module_account :: "bank_env \<Rightarrow> string \<Rightarrow> bank \<Rightarrow> (account \<times> bank) bres" where
  "module_account env name st =
     sum_bind (lift_acc (GetModuleAccount (be_permAddrs env) name (accounts st))) (\<lambda>(acc, ak).
       case acc of None \<Rightarrow> Inl UnknownModuleAccount | Some a \<Rightarrow> Inr (a, st\<lparr>accounts := ak\<rparr>))"

definition acc_address :: "account \<Rightarrow> addr" where
  "acc_address acc = Address (base_account acc)"

definition createCoins ::
  "bank_env \<Rightarrow> string \<Rightarrow> Coins \<Rightarrow> (string \<Rightarrow> Coins \<Rightarrow> bank \<Rightarrow> bank bres) \<Rightarrow> bank \<Rightarrow> bank bres" where
  "createCoins env moduleName amounts addFn st =
     (if \<not> list_all (\<lambda>check. check amounts) (be_mintCoinsRestrictions env) then Inl ErrMintRestricted
      else
        sum_bind (module_account env moduleName st) (\<lambda>(acc, st1).
        if \<not> HasPermission acc ''minter'' then Inl MissingPermission
        else sum_bind (addFn moduleName amounts st1) (each add_supply amounts)))"

definition MintCoins :: "bank_env \<Rightarrow> string \<Rightarrow> Coins \<Rightarrow> bank \<Rightarrow> bank bres" where
  "MintCoins env moduleName amounts st =
     createCoins env moduleName amounts (\<lambda>name cs s.
       sum_bind (module_account env name s) (\<lambda>(acc, s'). AddCoins env (acc_address acc) cs True s')) st"

definition destroyCoins ::
  "bank_env \<Rightarrow> string \<Rightarrow> Coins \<Rightarrow> (string \<Rightarrow> Coins \<Rightarrow> bank \<Rightarrow> bank bres) \<Rightarrow> bank \<Rightarrow> bank bres" where
  "destroyCoins env moduleName amounts subFn st =
     sum_bind (module_account env moduleName st) (\<lambda>(acc, st1).
     if \<not> HasPermission acc ''burner'' then Inl MissingPermission
     else sum_bind (subFn moduleName amounts st1) (each sub_supply amounts))"

definition BurnCoins :: "bank_env \<Rightarrow> string \<Rightarrow> Coins \<Rightarrow> bank \<Rightarrow> bank bres" where
  "BurnCoins env moduleName amounts st =
     destroyCoins env moduleName amounts (\<lambda>name cs s.
       sum_bind (module_account env name s) (\<lambda>(acc, s'). SubUnlockedCoins env (acc_address acc) cs True s')) st"

definition SendCoinsFromModuleToAccount :: "bank_env \<Rightarrow> string \<Rightarrow> addr \<Rightarrow> Coins \<Rightarrow> bank \<Rightarrow> bank bres" where
  "SendCoinsFromModuleToAccount env senderModule recipientAddr amount st =
     (case GetModuleAddress (be_permAddrs env) senderModule of
        None \<Rightarrow> Inl UnknownModuleAccount
      | Some senderAddr \<Rightarrow>
          if BlockedAddr env recipientAddr then Inl ErrUnauthorized
          else SendCoins env senderAddr recipientAddr amount st)"

definition SendCoinsFromModuleToModule :: "bank_env \<Rightarrow> string \<Rightarrow> string \<Rightarrow> Coins \<Rightarrow> bank \<Rightarrow> bank bres" where
  "SendCoinsFromModuleToModule env senderModule recipientModule amount st =
     (case GetModuleAddress (be_permAddrs env) senderModule of
        None \<Rightarrow> Inl UnknownModuleAccount
      | Some senderAddr \<Rightarrow>
          sum_bind (module_account env recipientModule st) (\<lambda>(recipientAcc, st1).
          if Coins_IsZero amount then Inr st1
          else SendCoins env senderAddr (acc_address recipientAcc) amount st1))"

definition SendCoinsFromAccountToModule :: "bank_env \<Rightarrow> addr \<Rightarrow> string \<Rightarrow> Coins \<Rightarrow> bank \<Rightarrow> bank bres" where
  "SendCoinsFromAccountToModule env senderAddr recipientModule amount st =
     sum_bind (module_account env recipientModule st) (\<lambda>(recipientAcc, st1).
       SendCoins env senderAddr (acc_address recipientAcc) amount st1)"

subsection \<open>Delegation\<close>

definition delegate_coin :: "addr \<Rightarrow> Coin \<Rightarrow> Coins \<times> bank \<Rightarrow> (Coins \<times> bank) bres" where
  "delegate_coin delegatorAddr coin bs =
     (case bs of (bals, st) \<Rightarrow>
        sum_bind (GetBalance st delegatorAddr (Denom coin)) (\<lambda>balance.
        sum_bind (lift_panic (Coin_IsLT balance coin)) (\<lambda>lt.
        if lt then Inl ErrInsufficientFunds
        else
          sum_bind (lift_panic (Coins_Add bals [balance])) (\<lambda>bals'.
          sum_bind (lift_panic (Coin_Sub balance coin)) (\<lambda>rest.
          sum_bind (setBalance delegatorAddr rest True st) (\<lambda>st'. Inr (bals', st')))))))"

definition trackDelegation :: "bank_env \<Rightarrow> addr \<Rightarrow> Coins \<Rightarrow> Coins \<Rightarrow> bank \<Rightarrow> bank bres" where
  "trackDelegation env addr balance amount st =
     (case GetAccount (accounts st) addr of
        None \<Rightarrow> Inl ErrUnknownAddress
      | Some acc \<Rightarrow>
          if vesting_base acc = None then Inr st
          else sum_bind (lift_acc (acc_TrackDelegation acc (be_BlockTime env) balance amount)) (\<lambda>acc'.
            Inr (st\<lparr>accounts := SetAccount acc' (accounts st)\<rparr>)))"

definition trackUndelegation :: "addr \<Rightarrow> Coins \<Rightarrow> bank \<Rightarrow> bank bres" where
  "trackUndelegation addr amount st =
     (case GetAccount (accounts st) addr of
        None \<Rightarrow> Inl ErrUnknownAddress
      | Some acc \<Rightarrow>
          if vesting_base acc = None then Inr st
          else sum_bind (lift_acc (acc_TrackUndelegation acc amount)) (\<lambda>acc'.
            Inr (st\<lparr>accounts := SetAccount acc' (accounts st)\<rparr>)))"

definition DelegateCoins :: "bank_env \<Rightarrow> addr \<Rightarrow> addr \<Rightarrow> Coins \<Rightarrow> bank \<Rightarrow> bank bres" where
  "DelegateCoins env delegatorAddr moduleAccAddr amount st =
     (if GetAccount (accounts st) moduleAccAddr = None then Inl ErrUnknownAddress
      else if \<not> Coins_IsValid amount then Inl ErrInvalidCoins
      else
        sum_bind (each (delegate_coin delegatorAddr) amount ([], st)) (\<lambda>(bals, st1).
        sum_bind (trackDelegation env delegatorAddr bals amount st1) (AddCoins env moduleAccAddr amount True)))"

definition UndelegateCoins :: "bank_env \<Rightarrow> addr \<Rightarrow> addr \<Rightarrow> Coins \<Rightarrow> bank \<Rightarrow> bank bres" where
  "UndelegateCoins env moduleAccAddr delegatorAddr amount st =
     (if GetAccount (accounts st) moduleAccAddr = None then Inl ErrUnknownAddress
      else if \<not> Coins_IsValid amount then Inl ErrInvalidCoins
      else
        sum_bind (SubUnlockedCoins env moduleAccAddr amount True st) (\<lambda>st1.
        sum_bind (trackUndelegation delegatorAddr amount st1) (AddCoins env delegatorAddr amount True)))"

definition DelegateCoinsFromAccountToModule :: "bank_env \<Rightarrow> addr \<Rightarrow> string \<Rightarrow> Coins \<Rightarrow> bank \<Rightarrow> bank bres" where
  "DelegateCoinsFromAccountToModule env senderAddr recipientModule amount st =
     sum_bind (module_account env recipientModule st) (\<lambda>(acc, st1).
     if \<not> HasPermission acc ''staking'' then Inl MissingPermission
     else DelegateCoins env senderAddr (acc_address acc) amount st1)"

definition UndelegateCoinsFromModuleToAccount :: "bank_env \<Rightarrow> string \<Rightarrow> addr \<Rightarrow> Coins \<Rightarrow> bank \<Rightarrow> bank bres" where
  "UndelegateCoinsFromModuleToAccount env senderModule recipientAddr amount st =
     sum_bind (module_account env senderModule st) (\<lambda>(acc, st1).
     if \<not> HasPermission acc ''staking'' then Inl MissingPermission
     else UndelegateCoins env (acc_address acc) recipientAddr amount st1)"

subsection \<open>Deferred deposits\<close>

definition dc_GetBalance :: "bank \<Rightarrow> addr \<Rightarrow> 64 word \<Rightarrow> string \<Rightarrow> Coin bres" where
  "dc_GetBalance st moduleAddr txIndex denom =
     (case gm_load (deferred st) ((moduleAddr, txIndex), denom) of
        None \<Rightarrow> lift_panic (NewCoin denom 0)
      | Some balance \<Rightarrow> Inr balance)"

definition dc_setBalance :: "addr \<Rightarrow> 64 word \<Rightarrow> Coin \<Rightarrow> bank \<Rightarrow> bank bres" where
  "dc_setBalance moduleAddr txIndex balance st =
     (let key = ((moduleAddr, txIndex), Denom balance) in
      if Coin_Validate balance \<noteq> None then Inl ErrInvalidCoins
      else if Amount balance = 0 then Inr (st\<lparr>deferred := gm_delete key (deferred st)\<rparr>)
      else Inr (st\<lparr>deferred := gm_store key balance (deferred st)\<rparr>))"

definition upsertBalance :: "addr \<Rightarrow> 64 word \<Rightarrow> Coin \<Rightarrow> bank \<Rightarrow> bank bres" where
  "upsertBalance moduleAddr txIndex balance st =
     (if Coin_Validate balance \<noteq> None then Inl ErrInvalidCoins
      else
        sum_bind (dc_GetBalance st moduleAddr txIndex (Denom balance)) (\<lambda>currBalance.
        sum_bind (lift_panic (Coin_Add currBalance balance)) (\<lambda>newBalance.
          dc_setBalance moduleAddr txIndex newBalance st)))"

definition UpsertBalances :: "addr \<Rightarrow> 64 word \<Rightarrow> Coins \<Rightarrow> bank \<Rightarrow> bank bres" where
  "UpsertBalances moduleAddr txIndex bals st =
     (if \<not> Coins_IsValid bals then Inl ErrInvalidCoins
      else each (upsertBalance moduleAddr txIndex) bals st)"

definition DeferredSendCoinsFromAccountToModule :: "bank_env \<Rightarrow> addr \<Rightarrow> string \<Rightarrow> Coins \<Rightarrow> bank \<Rightarrow> bank bres" where
  "DeferredSendCoinsFromAccountToModule env senderAddr recipientModule amount st =
     (if \<not> be_hasDeferredCache env then Inl NoDeferredCache
      else
        sum_bind (SubUnlockedCoins env senderAddr amount True st) (\<lambda>st1.
        sum_bind (module_account env recipientModule st1) (\<lambda>(moduleAcc, st2).
        if be_TxIndex env < 0 then Inl ErrNegativeTxIndex
        else UpsertBalances (acc_address moduleAcc) (word_of_int (be_TxIndex env)) amount st2)))"

text \<open>The keys of the deferred cache, in whose order the store iterates.\<close>

definition LengthPrefix :: "bytes \<Rightarrow> bytes" where
  "LengthPrefix bz = (if length bz = 0 then bz else char_of (length bz) # bz)"

definition Uint64ToBigEndian :: "64 word \<Rightarrow> bytes" where
  "Uint64ToBigEndian i = map (\<lambda>j. char_of (unat i div 256 ^ (7 - j) mod 256)) [0..<8]"

definition deferred_key :: "(addr \<times> 64 word) \<times> string \<Rightarrow> bytes" where
  "deferred_key k = (case k of ((moduleAddr, index), denom) \<Rightarrow> LengthPrefix moduleAddr @ Uint64ToBigEndian index @ denom)"

definition IterateDeferredBalances :: "bank \<Rightarrow> (addr \<times> Coin) list" where
  "IterateDeferredBalances st =
     map (\<lambda>(k, coin). (fst (fst k), coin)) (sort_key (deferred_key \<circ> fst) (deferred st))"

definition collect_deferred ::
  "bank_env \<Rightarrow> addr \<times> Coin \<Rightarrow> (string, Coins) gomap \<times> string list \<Rightarrow> ((string, Coins) gomap \<times> string list) bres" where
  "collect_deferred env e acc =
     (case (e, acc) of ((moduleAddr, amount), (m, moduleList)) \<Rightarrow>
        let s = be_String env moduleAddr in
        (case gm_load m s of
           None \<Rightarrow> sum_bind (lift_panic (NewCoins [amount])) (\<lambda>cs. Inr (gm_store s cs m, moduleList @ [s]))
         | Some currCoins \<Rightarrow>
             sum_bind (lift_panic (Coins_Add currCoins [amount])) (\<lambda>cs. Inr (gm_store s cs m, moduleList))))"

definition deposit_module :: "bank_env \<Rightarrow> (string, Coins) gomap \<Rightarrow> string \<Rightarrow> bank \<Rightarrow> bank bres" where
  "deposit_module env m s st =
     (case gm_load m s of
        None \<Rightarrow> Inl MissingModuleBalance
      | Some amount \<Rightarrow> sum_bind (fromBech32 env s) (\<lambda>a. AddCoins env a amount True st))"

definition dc_delete :: "(addr \<times> 64 word) \<times> string \<Rightarrow> bank \<Rightarrow> bank" where
  "dc_delete key st = st\<lparr>deferred := gm_delete key (deferred st)\<rparr>"

definition dc_Clear :: "bank \<Rightarrow> bank" where
  "dc_Clear st = fold dc_delete (map fst (sort_key (deferred_key \<circ> fst) (deferred st))) st"

definition WriteDeferredBalances :: "bank_env \<Rightarrow> bank \<Rightarrow> bank bres" where
  "WriteDeferredBalances env st =
     (if \<not> be_hasDeferredCache env then Inl NoDeferredCache
      else
        sum_bind (each (collect_deferred env) (IterateDeferredBalances st) ([], [])) (\<lambda>(m, moduleList).
        sum_bind (each (deposit_module env m) (sort moduleList) st) (\<lambda>st'. Inr (dc_Clear st'))))"

subsection \<open>The invariant of the supply\<close>

definition balances_key :: "addr \<times> string \<Rightarrow> bytes" where
  "balances_key k = LengthPrefix (fst k) @ snd k"

definition IterateAllBalances :: "bank \<Rightarrow> (addr \<times> Coin) list" where
  "IterateAllBalances st = map (\<lambda>(k, coin). (fst k, coin)) (sort_key (balances_key \<circ> fst) (balances st))"

definition IterateAllWeiBalances :: "bank \<Rightarrow> (addr \<times> int) list" where
  "IterateAllWeiBalances st = sort_key fst (weiBalances st)"

text \<open>A page of the supply: at most \<open>limit\<close> entries from \<open>key\<close> on, and the key of the next entry, empty
  when there is none. This is \<open>query.Paginate\<close> for a forward request without an offset.\<close>

definition supply_coin :: "string \<times> int \<Rightarrow> Coins \<Rightarrow> Coins bres" where
  "supply_coin e supply =
     sum_bind (lift_panic (NewCoin (fst e) (snd e))) (\<lambda>c. lift_panic (Coins_Add supply [c]))"

definition GetPaginatedTotalSupply :: "bank \<Rightarrow> bytes \<Rightarrow> nat \<Rightarrow> (Coins \<times> bytes) bres" where
  "GetPaginatedTotalSupply st key limit =
     (let es = dropWhile (\<lambda>e. fst e < key) (sort_key fst (supplies st));
          nextKey = (case drop limit es of [] \<Rightarrow> [] | e # r \<Rightarrow> fst e)
      in sum_bind (each supply_coin (take limit es) []) (\<lambda>supply. Inr (supply, nextKey)))"

definition supplyPageSize :: nat where
  "supplyPageSize = 1000"

fun collect_supply :: "nat \<Rightarrow> bank \<Rightarrow> bytes \<Rightarrow> Coins \<Rightarrow> Coins bres option" where
  "collect_supply 0 st key totalSupply = None"
| "collect_supply (Suc fuel) st key totalSupply =
     (case GetPaginatedTotalSupply st key supplyPageSize of
        Inl e \<Rightarrow> Some (Inl e)
      | Inr (page, nextKey) \<Rightarrow>
          (case lift_panic (Coins_Add totalSupply page) of
             Inl e \<Rightarrow> Some (Inl e)
           | Inr totalSupply' \<Rightarrow>
               if nextKey = [] then Some (Inr totalSupply') else collect_supply fuel st nextKey totalSupply'))"

text \<open>Each page but the last consumes entries, so there are at most as many pages as entries, and one.\<close>

definition CollectAllTotalSupply :: "bank \<Rightarrow> Coins bres option" where
  "CollectAllTotalSupply st = collect_supply (Suc (length (supplies st))) st [] []"

definition total_coin :: "addr \<times> Coin \<Rightarrow> Coins \<Rightarrow> Coins bres" where
  "total_coin e expectedTotal = lift_panic (Coins_Add expectedTotal [snd e])"

definition total_wei :: "addr \<times> int \<Rightarrow> int \<Rightarrow> int bres" where
  "total_wei e weiTotal = lift_panic (Int_Add weiTotal (snd e))"

text \<open>Whether the invariant is broken, given the collected supply.\<close>

definition total_supply_broken :: "bank_env \<Rightarrow> bank \<Rightarrow> Coins \<Rightarrow> bool bres" where
  "total_supply_broken env st supply =
     sum_bind (each total_coin (IterateAllBalances st) []) (\<lambda>accountsTotal.
     if \<not> be_hasDeferredCache env then Inl NoDeferredCache
     else
       sum_bind (each total_coin (IterateDeferredBalances st) accountsTotal) (\<lambda>expectedTotal.
       sum_bind (each total_wei (IterateAllWeiBalances st) 0) (\<lambda>weiTotal.
       sum_bind (lift_panic (SplitUseiWeiAmount weiTotal)) (\<lambda>(weiInUsei, weiRemainder).
       if weiRemainder \<noteq> 0 then Inr True
       else
         case GetBaseDenom (be_denoms env) of
           Inr base \<Rightarrow>
             sum_bind (lift_panic (NewCoin base weiInUsei)) (\<lambda>c.
             sum_bind (lift_panic (Coins_Add expectedTotal [c])) (\<lambda>expectedTotal'.
             sum_bind (lift_panic (Coins_IsEqual expectedTotal' supply)) (\<lambda>eq. Inr (\<not> eq))))
         | Inl e \<Rightarrow>
             if weiInUsei \<noteq> 0 then Inr True
             else sum_bind (lift_panic (Coins_IsEqual expectedTotal supply)) (\<lambda>eq. Inr (\<not> eq))))))"

definition TotalSupply :: "bank_env \<Rightarrow> bank \<Rightarrow> bool bres option" where
  "TotalSupply env st =
     (case CollectAllTotalSupply st of
        None \<Rightarrow> None
      | Some (Inl (BankPanic p)) \<Rightarrow> Some (Inl (BankPanic p))
      | Some (Inl err) \<Rightarrow> Some (Inr False)
      | Some (Inr supply) \<Rightarrow> Some (total_supply_broken env st supply))"

end
