(* ===== verification/TokenFactory.thy ===== *)
theory TokenFactory
  imports BankKeeper
begin

text \<open>
  The token factory (\<open>src/x/tokenfactory\<close>): anyone may create denominations of the form
  \<open>factory/{creator}/{subdenom}\<close>, and the administrator of such a denomination mints and burns it through
  the bank module.

  The state holds the bank module, the metadata of denominations that the bank module stores, and the
  two stores of the token factory: the administrator of a denomination, and the denominations of a
  creator. The keys of the stores join their parts with a vertical bar, which no denomination contains;
  the stores are modelled as maps from the parts. The metadata holds what the code checks or sets.
\<close>

subsection \<open>Metadata of denominations\<close>

record DenomUnit =
  du_Denom :: string
  Exponent :: "32 word"
  Aliases :: "string list"

record Metadata =
  DenomUnits :: "DenomUnit list"
  Base :: string
  Display :: string
  Name :: string
  Symbol :: string

datatype factory_error =
    BankErr bank_error
  | DenomErr sdk_panic
  | ErrDenomExists
  | TfUnauthorized
  | ErrInvalidDenom
  | ErrInvalidCreator
  | ErrSubdenomTooLong
  | ErrCreatorTooLong
  | ErrDenomDoesNotExist
  | ErrAdminAlreadyExists
  | ErrAllowListTooLarge
  | ErrAllowListUndefined
  | NativeSubdenom
  | InvalidBech32
  | InvalidMetadata
  | TfInvalidCoins

type_synonym 'a fres = "factory_error + 'a"

definition lift_bank :: "'a bres \<Rightarrow> 'a fres" where
  "lift_bank r = (case r of Inl e \<Rightarrow> Inl (BankErr e) | Inr x \<Rightarrow> Inr x)"

definition ensure :: "bool \<Rightarrow> factory_error \<Rightarrow> unit fres" where
  "ensure c e = (if c then Inr () else Inl e)"

definition valid_denom :: "string \<Rightarrow> unit fres" where
  "valid_denom denom = (case ValidateDenom denom of None \<Rightarrow> Inr () | Some e \<Rightarrow> Inl (DenomErr e))"

fun aliases_ok :: "string list \<Rightarrow> string list \<Rightarrow> bool" where
  "aliases_ok seenAliases [] \<longleftrightarrow> True"
| "aliases_ok seenAliases (a # as) \<longleftrightarrow>
     a \<notin> set seenAliases \<and> \<not> blank_permission a \<and> aliases_ok (a # seenAliases) as"

definition DenomUnit_Validate :: "DenomUnit \<Rightarrow> unit fres" where
  "DenomUnit_Validate du =
     sum_bind (valid_denom (du_Denom du)) (\<lambda>_. ensure (aliases_ok [] (Aliases du)) InvalidMetadata)"

text \<open>The loop over the units; the result is \<open>hasDisplay\<close>.\<close>

fun units_ok :: "Metadata \<Rightarrow> bool \<Rightarrow> 32 word \<Rightarrow> string list \<Rightarrow> bool \<Rightarrow> DenomUnit list \<Rightarrow> bool fres" where
  "units_ok m isFirst currentExponent seenUnits hasDisplay [] = Inr hasDisplay"
| "units_ok m isFirst currentExponent seenUnits hasDisplay (du # dus) =
     (if isFirst \<and> (du_Denom du \<noteq> Base m \<or> Exponent du \<noteq> 0) then Inl InvalidMetadata
      else if \<not> isFirst \<and> currentExponent \<ge> Exponent du then Inl InvalidMetadata
      else if du_Denom du \<in> set seenUnits then Inl InvalidMetadata
      else sum_bind (DenomUnit_Validate du) (\<lambda>_.
        units_ok m False (Exponent du) (du_Denom du # seenUnits) (hasDisplay \<or> du_Denom du = Display m) dus))"

definition Metadata_Validate :: "Metadata \<Rightarrow> unit fres" where
  "Metadata_Validate m =
     sum_bind (ensure (\<not> blank_permission (Name m)) InvalidMetadata) (\<lambda>_.
     sum_bind (ensure (\<not> blank_permission (Symbol m)) InvalidMetadata) (\<lambda>_.
     sum_bind (valid_denom (Base m)) (\<lambda>_.
     sum_bind (valid_denom (Display m)) (\<lambda>_.
     sum_bind (units_ok m True 0 [] False (DenomUnits m)) (\<lambda>hasDisplay.
       ensure hasDisplay InvalidMetadata)))))"

subsection \<open>Names\<close>

definition ModuleDenomPrefix :: string where
  "ModuleDenomPrefix = ''factory''"

definition MaxSubdenomLength :: nat where
  "MaxSubdenomLength = 44"

definition MaxHrpLength :: nat where
  "MaxHrpLength = 16"

definition MaxCreatorLength :: nat where
  "MaxCreatorLength = 59 + MaxHrpLength"

text \<open>\<open>strings.Join\<close> with a slash.\<close>

fun join_slash :: "string list \<Rightarrow> string" where
  "join_slash [] = []"
| "join_slash [s] = s"
| "join_slash (s # t # ss) = s @ CHR ''/'' # join_slash (t # ss)"

definition GetTokenDenom :: "string \<Rightarrow> string \<Rightarrow> string fres" where
  "GetTokenDenom creator subdenom =
     (if length subdenom > MaxSubdenomLength then Inl ErrSubdenomTooLong
      else if length creator > MaxCreatorLength then Inl ErrCreatorTooLong
      else if CHR ''/'' \<in> set creator then Inl ErrInvalidCreator
      else let denom = join_slash [ModuleDenomPrefix, creator, subdenom] in
        sum_bind (valid_denom denom) (\<lambda>_. Inr denom))"

definition DeconstructDenom :: "bank_env \<Rightarrow> string \<Rightarrow> (string \<times> string) fres" where
  "DeconstructDenom env denom =
     sum_bind (valid_denom denom) (\<lambda>_.
     let strParts = split_on (CHR ''/'') denom in
     if length strParts < 3 then Inl ErrInvalidDenom
     else if strParts ! 0 \<noteq> ModuleDenomPrefix then Inl ErrInvalidDenom
     else if be_AccAddressFromBech32 env (strParts ! 1) = None then Inl ErrInvalidDenom
     else Inr (strParts ! 1, join_slash (drop 2 strParts)))"

definition NewTokenFactoryDenomMintCoinsRestriction :: "bank_env \<Rightarrow> Coins \<Rightarrow> bool" where
  "NewTokenFactoryDenomMintCoinsRestriction env coinsToMint \<longleftrightarrow>
     list_all (\<lambda>coin. \<not> isl (DeconstructDenom env (Denom coin))) coinsToMint"


text \<open>The bank keeper that the application gives to the token factory.\<close>

definition WithMintCoinsRestriction :: "(Coins \<Rightarrow> bool) \<Rightarrow> bank_env \<Rightarrow> bank_env" where
  "WithMintCoinsRestriction check env =
     env\<lparr>be_mintCoinsRestrictions := check # be_mintCoinsRestrictions env\<rparr>"

definition factory_bank :: "bank_env \<Rightarrow> bank_env" where
  "factory_bank env = WithMintCoinsRestriction (NewTokenFactoryDenomMintCoinsRestriction env) env"

subsection \<open>The keeper\<close>

record factory =
  tf_bank :: bank
  tf_metadata :: "(string, Metadata) gomap"
  tf_admins :: "(string, string) gomap"
  tf_creators :: "(string \<times> string, string) gomap"
  tf_DenomAllowListMaxSize :: "32 word"

definition ModuleName :: string where
  "ModuleName = ''tokenfactory''"

definition GetDenomMetaData :: "factory \<Rightarrow> string \<Rightarrow> Metadata option" where
  "GetDenomMetaData st denom = gm_load (tf_metadata st) denom"

definition SetDenomMetaData :: "Metadata \<Rightarrow> factory \<Rightarrow> factory" where
  "SetDenomMetaData m st = st\<lparr>tf_metadata := gm_store (Base m) m (tf_metadata st)\<rparr>"

text \<open>Without an entry the empty bytes are decoded, which gives the empty administrator.\<close>

definition GetAuthorityMetadata :: "factory \<Rightarrow> string \<Rightarrow> string" where
  "GetAuthorityMetadata st denom = (case gm_load (tf_admins st) denom of None \<Rightarrow> [] | Some admin \<Rightarrow> admin)"

definition AuthorityMetadata_Validate :: "bank_env \<Rightarrow> string \<Rightarrow> unit fres" where
  "AuthorityMetadata_Validate env admin =
     (if admin \<noteq> [] \<and> be_AccAddressFromBech32 env admin = None then Inl InvalidBech32 else Inr ())"

definition setAuthorityMetadata :: "bank_env \<Rightarrow> string \<Rightarrow> string \<Rightarrow> factory \<Rightarrow> factory fres" where
  "setAuthorityMetadata env denom admin st =
     sum_bind (AuthorityMetadata_Validate env admin) (\<lambda>_.
       Inr (st\<lparr>tf_admins := gm_store denom admin (tf_admins st)\<rparr>))"

definition setAdmin :: "bank_env \<Rightarrow> string \<Rightarrow> string \<Rightarrow> factory \<Rightarrow> factory fres" where
  "setAdmin env denom admin st = setAuthorityMetadata env denom admin st"

definition addDenomFromCreator :: "string \<Rightarrow> string \<Rightarrow> factory \<Rightarrow> factory" where
  "addDenomFromCreator creator denom st = st\<lparr>tf_creators := gm_store (creator, denom) denom (tf_creators st)\<rparr>"

definition GetAllDenomsFromCreator :: "factory \<Rightarrow> string \<Rightarrow> string list" where
  "GetAllDenomsFromCreator st creator =
     sort (map (snd \<circ> fst) (filter (\<lambda>e. fst (fst e) = creator) (tf_creators st)))"

definition denom_metadata :: "string \<Rightarrow> Metadata" where
  "denom_metadata denom =
     \<lparr>DenomUnits = [\<lparr>du_Denom = denom, Exponent = 0, Aliases = []\<rparr>], Base = denom, Display = denom, Name = denom, Symbol = denom\<rparr>"

definition createDenomAfterValidation :: "bank_env \<Rightarrow> string \<Rightarrow> string \<Rightarrow> factory \<Rightarrow> factory fres" where
  "createDenomAfterValidation env creatorAddr denom st =
     sum_bind (setAuthorityMetadata env denom creatorAddr (SetDenomMetaData (denom_metadata denom) st)) (\<lambda>st'.
       Inr (addDenomFromCreator creatorAddr denom st'))"

definition validateCreateDenom :: "string \<Rightarrow> string \<Rightarrow> factory \<Rightarrow> string fres" where
  "validateCreateDenom creatorAddr subdenom st =
     (if HasSupply (tf_bank st) subdenom then Inl NativeSubdenom
      else sum_bind (GetTokenDenom creatorAddr subdenom) (\<lambda>denom.
        if GetDenomMetaData st denom \<noteq> None then Inl ErrDenomExists else Inr denom))"

definition CreateDenom :: "bank_env \<Rightarrow> string \<Rightarrow> string \<Rightarrow> factory \<Rightarrow> (string \<times> factory) fres" where
  "CreateDenom env creatorAddr subdenom st =
     sum_bind (validateCreateDenom creatorAddr subdenom st) (\<lambda>denom.
     sum_bind (createDenomAfterValidation env creatorAddr denom st) (\<lambda>st'. Inr (denom, st')))"

definition validateAllowListSize :: "string list option \<Rightarrow> factory \<Rightarrow> string list fres" where
  "validateAllowListSize allowList st =
     (case allowList of
        None \<Rightarrow> Inl ErrAllowListUndefined
      | Some l \<Rightarrow> if length l > unat (tf_DenomAllowListMaxSize st) then Inl ErrAllowListTooLarge else Inr l)"

definition validateAllowList :: "bank_env \<Rightarrow> string list option \<Rightarrow> factory \<Rightarrow> string list fres" where
  "validateAllowList env allowList st =
     sum_bind (validateAllowListSize allowList st) (\<lambda>l.
       if list_all (\<lambda>a. be_AccAddressFromBech32 env a \<noteq> None) l then Inr l else Inl InvalidBech32)"

definition validateUpdateDenom :: "bank_env \<Rightarrow> string \<Rightarrow> string list option \<Rightarrow> factory \<Rightarrow> string fres" where
  "validateUpdateDenom env denom allowList st =
     sum_bind (DeconstructDenom env denom) (\<lambda>_.
     if GetDenomMetaData st denom = None then Inl ErrDenomDoesNotExist
     else sum_bind (validateAllowList env allowList st) (\<lambda>_. Inr denom))"

definition mintTo :: "bank_env \<Rightarrow> Coin \<Rightarrow> string \<Rightarrow> factory \<Rightarrow> factory fres" where
  "mintTo env amount to st =
     sum_bind (DeconstructDenom env (Denom amount)) (\<lambda>_.
     sum_bind (lift_bank (lift_panic (NewCoins [amount]))) (\<lambda>coins.
     sum_bind (lift_bank (MintCoins (factory_bank env) ModuleName coins (tf_bank st))) (\<lambda>bk.
     case be_AccAddressFromBech32 env to of
       None \<Rightarrow> Inl InvalidBech32
     | Some addr \<Rightarrow>
         sum_bind (lift_bank (SendCoinsFromModuleToAccount (factory_bank env) ModuleName addr coins bk)) (\<lambda>bk'.
           Inr (st\<lparr>tf_bank := bk'\<rparr>)))))"

definition burnFrom :: "bank_env \<Rightarrow> Coin \<Rightarrow> string \<Rightarrow> factory \<Rightarrow> factory fres" where
  "burnFrom env amount from st =
     sum_bind (DeconstructDenom env (Denom amount)) (\<lambda>_.
     case be_AccAddressFromBech32 env from of
       None \<Rightarrow> Inl InvalidBech32
     | Some addr \<Rightarrow>
         sum_bind (lift_bank (lift_panic (NewCoins [amount]))) (\<lambda>coins.
         sum_bind (lift_bank (SendCoinsFromAccountToModule (factory_bank env) addr ModuleName coins (tf_bank st))) (\<lambda>bk.
         sum_bind (lift_bank (BurnCoins (factory_bank env) ModuleName coins bk)) (\<lambda>bk'.
           Inr (st\<lparr>tf_bank := bk'\<rparr>)))))"

subsection \<open>Messages\<close>

datatype factory_msg =
    MsgCreateDenom string string "string list option"
  | MsgUpdateDenom string string "string list option"
  | MsgMint string Coin
  | MsgBurn string Coin
  | MsgChangeAdmin string string string
  | MsgSetDenomMetadata string Metadata

fun Sender :: "factory_msg \<Rightarrow> string" where
  "Sender (MsgCreateDenom sender subdenom allowList) = sender"
| "Sender (MsgUpdateDenom sender denom allowList) = sender"
| "Sender (MsgMint sender amount) = sender"
| "Sender (MsgBurn sender amount) = sender"
| "Sender (MsgChangeAdmin sender denom newAdmin) = sender"
| "Sender (MsgSetDenomMetadata sender metadata) = sender"

definition positive_coin :: "Coin \<Rightarrow> bool" where
  "positive_coin c \<longleftrightarrow> Coin_Validate c = None \<and> Amount c \<noteq> 0"

fun tf_ValidateBasic :: "bank_env \<Rightarrow> factory_msg \<Rightarrow> unit fres" where
  "tf_ValidateBasic env msg =
     (if be_AccAddressFromBech32 env (Sender msg) = None then Inl InvalidBech32
      else case msg of
        MsgCreateDenom sender subdenom allowList \<Rightarrow> ensure (\<not> isl (GetTokenDenom sender subdenom)) ErrInvalidDenom
      | MsgUpdateDenom sender denom allowList \<Rightarrow> ensure (\<not> isl (DeconstructDenom env denom)) ErrInvalidDenom
      | MsgMint sender amount \<Rightarrow> ensure (positive_coin amount) TfInvalidCoins
      | MsgBurn sender amount \<Rightarrow> ensure (positive_coin amount) TfInvalidCoins
      | MsgChangeAdmin sender denom newAdmin \<Rightarrow>
          if be_AccAddressFromBech32 env newAdmin = None then Inl InvalidBech32
          else sum_bind (DeconstructDenom env denom) (\<lambda>_. Inr ())
      | MsgSetDenomMetadata sender m \<Rightarrow>
          sum_bind (Metadata_Validate m) (\<lambda>_. sum_bind (DeconstructDenom env (Base m)) (\<lambda>_. Inr ())))"

definition srv_CreateDenom :: "bank_env \<Rightarrow> string \<Rightarrow> string \<Rightarrow> string list option \<Rightarrow> factory \<Rightarrow> factory fres" where
  "srv_CreateDenom env sender subdenom allowList st =
     sum_bind (CreateDenom env sender subdenom st) (\<lambda>(denom, st1).
     if allowList = None then Inr st1
     else sum_bind (validateAllowList env allowList st1) (\<lambda>l.
       Inr (st1\<lparr>tf_bank := SetDenomAllowList denom l (tf_bank st1)\<rparr>)))"

definition srv_UpdateDenom :: "bank_env \<Rightarrow> string \<Rightarrow> string \<Rightarrow> string list option \<Rightarrow> factory \<Rightarrow> factory fres" where
  "srv_UpdateDenom env sender d allowList st =
     sum_bind (validateUpdateDenom env d allowList st) (\<lambda>denom.
     if sender \<noteq> GetAuthorityMetadata st denom then Inl TfUnauthorized
     else case allowList of
       None \<Rightarrow> Inr st
     | Some l \<Rightarrow> Inr (st\<lparr>tf_bank := SetDenomAllowList denom l (tf_bank st)\<rparr>))"

definition srv_Mint :: "bank_env \<Rightarrow> string \<Rightarrow> Coin \<Rightarrow> factory \<Rightarrow> factory fres" where
  "srv_Mint env sender amount st =
     (if GetDenomMetaData st (Denom amount) = None then Inl ErrDenomDoesNotExist
      else if sender \<noteq> GetAuthorityMetadata st (Denom amount) then Inl TfUnauthorized
      else mintTo env amount sender st)"

definition srv_Burn :: "bank_env \<Rightarrow> string \<Rightarrow> Coin \<Rightarrow> factory \<Rightarrow> factory fres" where
  "srv_Burn env sender amount st =
     (if sender \<noteq> GetAuthorityMetadata st (Denom amount) then Inl TfUnauthorized
      else burnFrom env amount sender st)"

definition srv_ChangeAdmin :: "bank_env \<Rightarrow> string \<Rightarrow> string \<Rightarrow> string \<Rightarrow> factory \<Rightarrow> factory fres" where
  "srv_ChangeAdmin env sender denom newAdmin st =
     (if sender \<noteq> GetAuthorityMetadata st denom then Inl TfUnauthorized
      else if newAdmin = GetAuthorityMetadata st denom then Inl ErrAdminAlreadyExists
      else setAdmin env denom newAdmin st)"

definition srv_SetDenomMetadata :: "string \<Rightarrow> Metadata \<Rightarrow> factory \<Rightarrow> factory fres" where
  "srv_SetDenomMetadata sender m st =
     sum_bind (Metadata_Validate m) (\<lambda>_.
     if sender \<noteq> GetAuthorityMetadata st (Base m) then Inl TfUnauthorized
     else Inr (SetDenomMetaData m st))"

fun tf_handle :: "bank_env \<Rightarrow> factory_msg \<Rightarrow> factory \<Rightarrow> factory fres" where
  "tf_handle env (MsgCreateDenom sender subdenom allowList) st = srv_CreateDenom env sender subdenom allowList st"
| "tf_handle env (MsgUpdateDenom sender denom allowList) st = srv_UpdateDenom env sender denom allowList st"
| "tf_handle env (MsgMint sender amount) st = srv_Mint env sender amount st"
| "tf_handle env (MsgBurn sender amount) st = srv_Burn env sender amount st"
| "tf_handle env (MsgChangeAdmin sender denom newAdmin) st = srv_ChangeAdmin env sender denom newAdmin st"
| "tf_handle env (MsgSetDenomMetadata sender m) st = srv_SetDenomMetadata sender m st"

text \<open>A message is checked before it is handled.\<close>

definition tf_deliver :: "bank_env \<Rightarrow> factory_msg \<Rightarrow> factory \<Rightarrow> factory fres" where
  "tf_deliver env msg st = sum_bind (tf_ValidateBasic env msg) (\<lambda>_. tf_handle env msg st)"

subsection \<open>Genesis\<close>

record GenesisState =
  gs_FactoryDenoms :: "(string \<times> string) list"
  gs_DenomAllowListMaxSize :: "32 word"

definition CreateModuleAccount :: "bank_env \<Rightarrow> factory \<Rightarrow> factory fres" where
  "CreateModuleAccount env st =
     (case GetModuleAddress (be_permAddrs env) ModuleName of
        None \<Rightarrow> Inl (BankErr UnknownModuleAccount)
      | Some a \<Rightarrow>
          sum_bind (lift_bank (lift_acc (NewEmptyModuleAccount a ModuleName [''minter'', ''burner'']))) (\<lambda>acc.
            Inr (st\<lparr>tf_bank := (tf_bank st)\<lparr>accounts := SetAccount acc (accounts (tf_bank st))\<rparr>\<rparr>)))"

definition init_denom :: "bank_env \<Rightarrow> string \<times> string \<Rightarrow> factory \<Rightarrow> factory fres" where
  "init_denom env genDenom st =
     sum_bind (DeconstructDenom env (fst genDenom)) (\<lambda>(creator, _).
     sum_bind (createDenomAfterValidation env creator (fst genDenom) st) (\<lambda>st1.
       setAuthorityMetadata env (fst genDenom) (snd genDenom) st1))"

definition tf_InitGenesis :: "bank_env \<Rightarrow> GenesisState \<Rightarrow> factory \<Rightarrow> factory fres" where
  "tf_InitGenesis env gs st =
     sum_bind (CreateModuleAccount env st) (\<lambda>st1.
       each (init_denom env) (gs_FactoryDenoms gs) (st1\<lparr>tf_DenomAllowListMaxSize := gs_DenomAllowListMaxSize gs\<rparr>))"

text \<open>The iteration is in the order of the store keys, \<open>creator|denom\<close>.\<close>

definition creator_key :: "string \<times> string \<Rightarrow> string" where
  "creator_key k = fst k @ CHR ''|'' # snd k"

definition GetAllDenomsIterator :: "factory \<Rightarrow> string list" where
  "GetAllDenomsIterator st = map snd (sort_key (creator_key \<circ> fst) (tf_creators st))"

definition tf_ExportGenesis :: "factory \<Rightarrow> GenesisState" where
  "tf_ExportGenesis st =
     \<lparr>gs_FactoryDenoms = map (\<lambda>denom. (denom, GetAuthorityMetadata st denom)) (GetAllDenomsIterator st),
      gs_DenomAllowListMaxSize = tf_DenomAllowListMaxSize st\<rparr>"

end
