(* ===== verification/BankLedger.thy ===== *)
theory BankLedger
  imports BankKeeper
begin

text \<open>
  The laws of the two stores of coins of the bank module, the balances of the accounts and the deferred
  cache. Both are read and written with the same contract, the locale \<open>coin_ledger\<close>; its lemmas say what
  adding coins to a holder and taking coins from a holder do to the amounts and to their total.
\<close>

subsection \<open>Sums over a Go map\<close>

definition gm_sum :: "('k \<Rightarrow> 'v \<Rightarrow> int) \<Rightarrow> ('k, 'v) gomap \<Rightarrow> int" where
  "gm_sum f m = (\<Sum>(k, v)\<leftarrow>m. f k v)"

definition gm_at :: "('k \<Rightarrow> 'v \<Rightarrow> int) \<Rightarrow> ('k, 'v) gomap \<Rightarrow> 'k \<Rightarrow> int" where
  "gm_at f m k = (case gm_load m k of None \<Rightarrow> 0 | Some v \<Rightarrow> f k v)"

lemma gm_sum_simps [simp]: "gm_sum f [] = 0" "gm_sum f ((k, v) # m) = f k v + gm_sum f m"
  by (simp_all add: gm_sum_def)

lemma gm_delete_notin: "k \<notin> set (gm_keys m) \<Longrightarrow> gm_delete k m = m"
  by (induction m) (auto simp: AList.delete_eq)

lemma gm_sum_delete: "distinct (gm_keys m) \<Longrightarrow> gm_sum f (gm_delete k m) = gm_sum f m - gm_at f m k"
  by (induction m) (auto simp: gm_at_def AList.delete_eq gm_delete_notin [unfolded AList.delete_eq] gm_load_None_key)

lemma gm_sum_store: "distinct (gm_keys m) \<Longrightarrow> gm_sum f (gm_store k v m) = gm_sum f m - gm_at f m k + f k v"
  by (induction m) (auto simp: gm_at_def)

lemma gm_at_le_sum:
  assumes "distinct (gm_keys m)" and "\<And>k v. (k, v) \<in> set m \<Longrightarrow> 0 \<le> f k v"
  shows "gm_at f m k \<le> gm_sum f m"
  using assms
proof (induction m)
  case (Cons e m)
  have "0 \<le> gm_sum f m" using Cons.prems(2) by (auto simp: gm_sum_def intro!: sum_list_nonneg)
  with Cons show ?case by (cases e) (force simp: gm_at_def)
qed (simp add: gm_at_def)

lemma gm_sum_nonneg: "(\<And>k v. (k, v) \<in> set m \<Longrightarrow> 0 \<le> f k v) \<Longrightarrow> 0 \<le> gm_sum f m"
  by (auto simp: gm_sum_def intro!: sum_list_nonneg)

lemma gm_list_all:
  "list_all P m \<Longrightarrow> P (k, v) \<Longrightarrow> list_all P (gm_store k v m)"
  "list_all P m \<Longrightarrow> list_all P (gm_delete k m)"
  by (induction m) (auto simp: AList.delete_eq)

lemma gm_distinct [simp]:
  "distinct (gm_keys m) \<Longrightarrow> distinct (gm_keys (gm_store k v m))"
  "distinct (gm_keys m) \<Longrightarrow> distinct (gm_keys (gm_delete k m))"
  by (simp_all add: distinct_update distinct_delete)

subsection \<open>Lifting\<close>

lemma lift_panic_simps [simp]: "lift_panic (Inl p) = Inl (BankPanic (SdkPanic p))" "lift_panic (Inr x) = Inr x"
  by (simp_all add: lift_panic_def lift_acc_def sdk_def)

lemma lift_acc_simps [simp]: "lift_acc (Inl p) = Inl (BankPanic p)" "lift_acc (Inr x) = Inr x"
  by (simp_all add: lift_acc_def)

lemma lift_panic_Inr [simp]: "lift_panic r = Inr x \<longleftrightarrow> r = Inr x"
  by (cases r) simp_all

abbreviation overflow_panic :: bank_error where
  "overflow_panic \<equiv> BankPanic (SdkPanic IntOverflow)"

abbreviation negative_panic :: bank_error where
  "negative_panic \<equiv> BankPanic (SdkPanic NegativeCoinAmount)"

subsection \<open>Stores of coins\<close>

text \<open>The entries of a store in normal form.\<close>

definition entry_ok :: "('k \<times> string) \<times> Coin \<Rightarrow> bool" where
  "entry_ok e \<longleftrightarrow> snd (fst e) = Denom (snd e) \<and> 0 < Amount (snd e) \<and> int_in_range (Amount (snd e)) \<and> reDnm_match (Denom (snd e))"

definition entries_ok :: "('k \<times> string, Coin) gomap \<Rightarrow> bool" where
  "entries_ok m \<longleftrightarrow> distinct (gm_keys m) \<and> list_all entry_ok m"

definition coin_of :: "string \<Rightarrow> 'k \<times> string \<Rightarrow> Coin \<Rightarrow> int" where
  "coin_of d k c = (if Denom c = d then Amount c else 0)"

locale coin_ledger =
  fixes entries :: "'s \<Rightarrow> ('k \<times> string, Coin) gomap"
    and upd :: "('k \<times> string, Coin) gomap \<Rightarrow> 's \<Rightarrow> 's"
    and getB :: "'s \<Rightarrow> 'k \<Rightarrow> string \<Rightarrow> Coin bres"
    and setB :: "'k \<Rightarrow> Coin \<Rightarrow> 's \<Rightarrow> 's bres"
  assumes entries_upd: "entries (upd m s) = m"
    and upd_upd: "upd m (upd m' s) = upd m s"
    and upd_entries: "upd (entries s) s = s"
    and getB: "getB s k d = (case gm_load (entries s) (k, d) of None \<Rightarrow> lift_panic (NewCoin d 0) | Some c \<Rightarrow> Inr c)"
    and setB: "setB k c s =
      (if Coin_Validate c \<noteq> None then Inl ErrInvalidCoins
       else Inr (upd (if Amount c = 0 then gm_delete (k, Denom c) (entries s) else gm_store (k, Denom c) c (entries s)) s))"
begin

definition held :: "'s \<Rightarrow> 'k \<Rightarrow> string \<Rightarrow> int" where
  "held s k d = (case gm_load (entries s) (k, d) of None \<Rightarrow> 0 | Some c \<Rightarrow> Amount c)"

definition held_total :: "'s \<Rightarrow> string \<Rightarrow> int" where
  "held_total s d = gm_sum (coin_of d) (entries s)"

text \<open>The new state differs from the old one in the store only, and there by the amounts \<open>g\<close> of one holder.\<close>

definition changes :: "'s \<Rightarrow> 'k \<Rightarrow> (string \<Rightarrow> int) \<Rightarrow> 's \<Rightarrow> bool" where
  "changes s k g s' \<longleftrightarrow> entries_ok (entries s') \<and> s' = upd (entries s') s \<and>
     (\<forall>k' d. held s' k' d = held s k' d + (if k' = k then g d else 0)) \<and>
     (\<forall>d. held_total s' d = held_total s d + g d)"

lemma changes_trans:
  assumes "changes s k g s1" and "changes s1 k h s2" and "\<And>d. f d = g d + h d"
  shows "changes s k f s2"
proof -
  have "s2 = upd (entries s2) s" using assms(1,2) upd_upd unfolding changes_def by metis
  with assms show ?thesis by (simp add: changes_def)
qed

lemma changes_refl: "entries_ok (entries s) \<Longrightarrow> (\<And>d. g d = 0) \<Longrightarrow> changes s k g s"
  by (simp add: changes_def upd_entries)

lemma changes_cong: "changes s k g s' \<Longrightarrow> (\<And>d. h d = g d) \<Longrightarrow> changes s k h s'"
  by (simp add: changes_def)

lemma ok_load:
  assumes "entries_ok (entries s)" and "gm_load (entries s) (k, d) = Some c"
  shows "Denom c = d" and "0 < Amount c" and "int_in_range (Amount c)" and "reDnm_match d"
proof -
  from assms(2) have "((k, d), c) \<in> set (entries s)" by (rule map_of_SomeD)
  with assms(1) have "entry_ok ((k, d), c)" by (auto simp: entries_ok_def list_all_iff)
  then show "Denom c = d" "0 < Amount c" "int_in_range (Amount c)" "reDnm_match d" by (auto simp: entry_ok_def)
qed

lemma held_nonneg: "entries_ok (entries s) \<Longrightarrow> 0 \<le> held s k d"
  using ok_load(2) by (fastforce simp: held_def split: option.splits)

lemma held_in_range: "entries_ok (entries s) \<Longrightarrow> int_in_range (held s k d)"
  using ok_load(3) by (fastforce simp: held_def split: option.splits)

lemma getB_ok:
  assumes "entries_ok (entries s)" and "reDnm_match d"
  shows "getB s k d = Inr \<lparr>Denom = d, Amount = held s k d\<rparr>"
  using assms ok_load(1) [OF assms(1)]
  by (auto simp: getB held_def NewCoin_def Coin_Validate_def ValidateDenom_def split: option.splits)

lemma held_at: "entries_ok (entries s) \<Longrightarrow> gm_at (coin_of d) (entries s) (k, e) = (if e = d then held s k e else 0)"
  using ok_load(1) by (fastforce simp: gm_at_def held_def coin_of_def split: option.splits)

lemma held_le_total: "entries_ok (entries s) \<Longrightarrow> held s k d \<le> held_total s d"
  using gm_at_le_sum [of "entries s" "coin_of d" "(k, d)"] held_at [of s d k d]
  by (force simp: held_total_def entries_ok_def entry_ok_def coin_of_def list_all_iff)

lemma setB_ok:
  assumes "entries_ok (entries s)" and "reDnm_match d" and "0 \<le> a" and "int_in_range a"
  shows "\<exists>s'. setB k \<lparr>Denom = d, Amount = a\<rparr> s = Inr s' \<and> changes s k (\<lambda>e. if e = d then a - held s k d else 0) s'"
proof -
  let ?c = "\<lparr>Denom = d, Amount = a\<rparr>" and ?m = "entries s"
  let ?m' = "if a = 0 then gm_delete (k, d) ?m else gm_store (k, d) ?c ?m"
  have dist: "distinct (gm_keys ?m)" using assms(1) by (simp add: entries_ok_def)
  have "list_all entry_ok ?m'"
    using assms by (auto simp: entries_ok_def entry_ok_def intro!: gm_list_all)
  then have ok: "entries_ok ?m'" using dist by (simp add: entries_ok_def)
  have "held_total (upd ?m' s) e = held_total s e + (if e = d then a - held s k d else 0)" for e
    using dist held_at [OF assms(1), of e k d]
    by (auto simp: held_total_def entries_upd gm_sum_store gm_sum_delete coin_of_def)
  moreover have "held (upd ?m' s) k' e = held s k' e + (if k' = k then if e = d then a - held s k d else 0 else 0)" for k' e
    by (auto simp: held_def entries_upd gomap_simps)
  ultimately have "changes s k (\<lambda>e. if e = d then a - held s k d else 0) (upd ?m' s)"
    using ok by (simp add: changes_def entries_upd)
  moreover have "setB k ?c s = Inr (upd ?m' s)"
    using assms by (simp add: setB Coin_Validate_def ValidateDenom_def)
  ultimately show ?thesis by blast
qed

text \<open>Crediting one coin.\<close>

definition credit_one :: "'k \<Rightarrow> Coin \<Rightarrow> 's \<Rightarrow> 's bres" where
  "credit_one k c s = sum_bind (getB s k (Denom c)) (\<lambda>b. sum_bind (lift_panic (Coin_Add b c)) (\<lambda>n. setB k n s))"

lemma credit_one_ok:
  assumes "entries_ok (entries s)" and "reDnm_match (Denom c)" and "0 \<le> Amount c"
  shows "case credit_one k c s of
      Inl e \<Rightarrow> e = overflow_panic \<and> \<not> int_in_range (held s k (Denom c) + Amount c)
    | Inr s' \<Rightarrow> changes s k (\<lambda>e. if e = Denom c then Amount c else 0) s'"
proof (cases "int_in_range (held s k (Denom c) + Amount c)")
  case True
  have "0 \<le> held s k (Denom c) + Amount c" using held_nonneg [OF assms(1)] assms(3) by simp
  from setB_ok [OF assms(1,2) this True, of k] True show ?thesis
    by (auto simp: credit_one_def getB_ok [OF assms(1,2)] Coin_Add_def Int_Add_iff elim!: changes_cong)
next
  case False
  then show ?thesis by (simp add: credit_one_def getB_ok [OF assms(1,2)] Coin_Add_def Int_Add_iff)
qed

text \<open>Crediting a set of coins: every amount is added, or some sum does not fit.\<close>

lemma credit_all_ok:
  assumes "entries_ok (entries s)" and "Coins_IsValid cs"
  shows "case each (credit_one k) cs s of
      Inl e \<Rightarrow> e = overflow_panic \<and> (\<exists>d. \<not> int_in_range (held s k d + amt cs d))
    | Inr s' \<Rightarrow> changes s k (amt cs) s'"
  using assms
proof (induction cs arbitrary: s)
  case Nil
  then show ?case by (simp add: changes_refl)
next
  case (Cons c cs)
  have c: "reDnm_match (Denom c)" "0 \<le> Amount c" "Coins_IsValid cs" using Cons.prems(2) by simp_all
  have zero: "amt cs (Denom c) = 0" using Cons.prems(2) by (intro amt_above) simp
  note one = credit_one_ok [OF Cons.prems(1) c(1,2), of k]
  show ?case
  proof (cases "credit_one k c s")
    case (Inl e)
    with one show ?thesis by (auto intro!: exI [of _ "Denom c"])
  next
    case (Inr s1)
    with one have ch: "changes s k (\<lambda>e. if e = Denom c then Amount c else 0) s1" by simp
    then have "entries_ok (entries s1)" by (simp add: changes_def)
    note IH = Cons.IH [OF this c(3)]
    have held: "held s1 k d + amt cs d = held s k d + amt (c # cs) d" for d using ch zero by (auto simp: changes_def)
    show ?thesis
    proof (cases "each (credit_one k) cs s1")
      case (Inl e)
      with IH held Inr show ?thesis by simp
    next
      case tail: (Inr s2)
      with IH have "changes s1 k (amt cs) s2" by simp
      then have "changes s k (amt (c # cs)) s2" by (rule changes_trans [OF ch]) (use zero in auto)
      with Inr tail show ?thesis by simp
    qed
  qed
qed

text \<open>Debiting one coin from a holder that has it.\<close>

lemma debit_one_ok:
  assumes "entries_ok (entries s)" and "reDnm_match d" and "0 \<le> a" and "a \<le> held s k d"
  shows "\<exists>s'. setB k \<lparr>Denom = d, Amount = held s k d - a\<rparr> s = Inr s' \<and> changes s k (\<lambda>e. if e = d then - a else 0) s'"
proof -
  have "int_in_range (held s k d - a)"
    using assms(3,4) by (intro int_in_range_mono [OF _ held_in_range [OF assms(1), of k d]]) simp
  from setB_ok [OF assms(1,2) _ this, of k] assms(4) show ?thesis by (auto elim!: changes_cong)
qed

end

interpretation ab: coin_ledger balances "\<lambda>m. balances_update (\<lambda>_. m)" GetBalance "\<lambda>a c. setBalance a c True"
  by unfold_locales (simp_all add: GetBalance_def setBalance_def)

interpretation db: coin_ledger deferred "\<lambda>m. deferred_update (\<lambda>_. m)"
    "\<lambda>s k. dc_GetBalance s (fst k) (snd k)" "\<lambda>k. dc_setBalance (fst k) (snd k)"
  by unfold_locales (simp_all add: dc_GetBalance_def dc_setBalance_def Let_def)

end
