(* ===== verification/VestingProps.thy ===== *)
theory VestingProps
  imports Accounts
begin

text \<open>
  The schedules and the delegation tracking of the vesting accounts: what has vested at a time, what
  is locked, and how a delegation and an undelegation change the tracked amounts.
\<close>

subsection \<open>Subtraction of a list that may hold zero coins\<close>

lemma Coins_Sub_le:
  assumes "Coins_IsValid a" and "coins_in_range a" and "sorted_wrt (<) (denoms b)"
    and "Denom ` set b \<subseteq> Denom ` set a" and "\<And>d. 0 \<le> amt b d" and "\<And>d. amt b d \<le> amt a d"
  shows "\<exists>s. Coins_Sub a b = Inr s \<and> Coins_IsValid s \<and> coins_in_range s \<and> (\<forall>d. amt s d = amt a d - amt b d)"
proof -
  have range: "int_in_range (amt a d)" "int_in_range (- amt b d)" "int_in_range (amt a d - amt b d)" for d
  proof -
    show a: "int_in_range (amt a d)" by (rule coins_in_range_amt [OF assms(2)])
    show "int_in_range (- amt b d)" "int_in_range (amt a d - amt b d)"
      using assms(5) [of d] assms(6) [of d] by (auto intro!: int_in_range_mono [OF _ a])
  qed
  have neg: "sorted_wrt (<) (denoms (Coins_negative b))"
    using assms(3) by (simp add: Coins_negative_def comp_def)
  have sorted: "sorted_wrt (<) (denoms a)" using assms(1) by (simp add: Coins_IsValid_iff)
  have "safeAdd a (Coins_negative b) = safe_add_loop Coin_Add [] a (Coins_negative b)"
    using sorted neg by (simp add: safeAdd_def nf_isSorted)
  with ic.safe_add_loop_spec [OF sorted neg] range
  obtain s where s: "safeAdd a (Coins_negative b) = Inr s" "coins_nf s"
      "\<And>d. amt s d = amt a d - amt b d" "Denom ` set s \<subseteq> Denom ` set a \<union> Denom ` set b"
    by (auto split: sum.splits)
  have "Denom ` set s \<subseteq> Denom ` set a \<union> Denom ` set a" using s(4) assms(4) by blast
  then have "reDnm_match (Denom c)" if "c \<in> set s" for c
    using subset_denoms_match [OF assms(1,1) _ that] by blast
  then have "Coins_IsValid s" using s(2,3) assms(6) by (intro nf_validI) simp_all
  moreover have "coins_in_range s" using s(2,3) range(3) by (intro nf_in_rangeI) simp_all
  moreover have "\<not> Coins_IsAnyNegative s" using s(2,3) assms(6) by (simp add: IsAnyNegative_iff not_less)
  ultimately show ?thesis using s by (simp add: Coins_Sub_def Coins_SafeSub_def)
qed

subsection \<open>Continuous vesting\<close>

lemma NewDec_eq: "NewDec i = Inr (i * precisionReuse)"
  by (simp add: NewDec_def NewDecWithPrec_def precisionMultiplier_def precisionReuse_def)

lemma int64_id: "- (2 ^ 63) \<le> x \<Longrightarrow> x < 2 ^ 63 \<Longrightarrow> int64 x = x"
  by (simp add: int64_def)

text \<open>The scalar \<open>x / y\<close> of the schedule, as \<open>Quo\<close> rounds it.\<close>

definition scalar :: "int \<Rightarrow> int \<Rightarrow> dec" where
  "scalar x y = chopPrecisionAndRound ((x * precisionReuse * precisionReuse) div y)"

lemma scalar_mono: "0 < y \<Longrightarrow> x \<le> x' \<Longrightarrow> scalar x y \<le> scalar x' y"
  unfolding scalar_def by (intro chop_mono zdiv_mono1 mult_right_mono) simp_all

lemma scalar_full: "0 < y \<Longrightarrow> scalar y y = precisionReuse"
  using chop_exact [of precisionReuse] by (simp add: scalar_def mult.assoc)

lemma scalar_zero: "scalar 0 y = 0"
  using chop_exact [of 0] by (simp add: scalar_def)

lemma scalar_bounds:
  assumes "0 \<le> x" and "x \<le> y" and "0 < y"
  shows "0 \<le> scalar x y" and "scalar x y \<le> precisionReuse"
  using scalar_mono [of y 0 x] scalar_mono [of y x y] assms by (simp_all add: scalar_zero scalar_full)

lemma precisionReuse_in_range: "IsInValidRange precisionReuse"
  by (simp add: IsInValidRange_abs precisionReuse_def maxDecBitLen_def intBitLen_def DecimalPrecisionBits_def Precision_def)

lemma Quo_scalar:
  assumes "0 \<le> x" and "x \<le> y" and "0 < y"
  shows "Dec_Quo (x * precisionReuse) (y * precisionReuse) = Inr (scalar x y)"
proof -
  let ?P = precisionReuse
  have "(x * ?P * ?P * ?P) sdiv (y * ?P) = (x * ?P * ?P) div y"
    using assms by (simp add: signed_divide_int_def sgn_mult sgn_if abs_mult)
  moreover have "IsInValidRange (scalar x y)"
    using scalar_bounds [OF assms] by (intro IsInValidRange_mono [OF _ precisionReuse_in_range]) simp
  ultimately show ?thesis
    using assms by (simp add: Dec_Quo_def big_Quo_def assertInValidRange_def scalar_def)
qed

text \<open>The share of an amount.\<close>

definition share :: "dec \<Rightarrow> int \<Rightarrow> int" where
  "share s a = chopPrecisionAndRound (a * s)"

lemma share_mono: "0 \<le> a \<Longrightarrow> s \<le> s' \<Longrightarrow> share s a \<le> share s' a"
  unfolding share_def by (intro chop_mono mult_left_mono)

lemma share_ends [simp]: "share 0 a = 0" "share precisionReuse a = a"
  using chop_exact [of 0] chop_exact [of a] by (simp_all add: share_def)

lemma share_bounds: "0 \<le> a \<Longrightarrow> 0 \<le> s \<Longrightarrow> s \<le> precisionReuse \<Longrightarrow> 0 \<le> share s a \<and> share s a \<le> a"
  using share_mono [of a 0 s] share_mono [of a s precisionReuse] by simp

text \<open>Amounts that a decimal can hold.\<close>

definition dec_amounts :: "Coins \<Rightarrow> bool" where
  "dec_amounts cs \<longleftrightarrow> list_all (\<lambda>c. IsInValidRange (Amount c * precisionReuse)) cs"

lemma dec_amount_in_range:
  assumes "IsInValidRange (a * precisionReuse)"
  shows "int_in_range a"
proof -
  have "\<bar>a\<bar> * precisionReuse < 2 ^ maxDecBitLen" using assms by (simp add: IsInValidRange_abs abs_mult)
  then show ?thesis
    by (simp add: int_in_range_iff precisionReuse_def maxDecBitLen_def intBitLen_def DecimalPrecisionBits_def Precision_def)
qed

lemma dec_amounts_in_range: "dec_amounts cs \<Longrightarrow> coins_in_range cs"
  by (auto simp: dec_amounts_def coins_in_range_def list_all_iff dec_amount_in_range)

lemma vested_coin_eq:
  assumes "0 \<le> s" and "s \<le> precisionReuse" and "0 < Amount c" and "reDnm_match (Denom c)"
    and "IsInValidRange (Amount c * precisionReuse)"
  shows "vested_coin s c = Inr \<lparr>Denom = Denom c, Amount = share s (Amount c)\<rparr>"
proof -
  let ?a = "Amount c"
  have "?a * precisionReuse * s = (?a * s) * precisionReuse" by simp
  then have chop: "chopPrecisionAndRound (?a * precisionReuse * s) = ?a * s" by (simp only: chop_exact)
  have "?a * s \<le> ?a * precisionReuse" using assms by (intro mult_left_mono) simp_all
  then have "IsInValidRange (?a * s)"
    using assms by (intro IsInValidRange_mono [OF _ assms(5)]) (simp add: abs_mult)
  moreover have b: "0 \<le> share s ?a" "share s ?a \<le> ?a" using share_bounds [of ?a s] assms by simp_all
  then have "int_in_range (share s ?a)"
    by (intro int_in_range_mono [OF _ dec_amount_in_range [OF assms(5)]]) simp
  ultimately show ?thesis
    using assms b chop
    by (simp add: vested_coin_def NewDecFromInt_eq assertInValidRange_def Dec_Mul_def RoundInt_def
        NewIntFromBigInt_def int_in_range_def NewCoin_def Coin_Validate_def ValidateDenom_def share_def not_less)
qed

lemma vested_coins_eq:
  assumes "0 \<le> s" and "s \<le> precisionReuse" and "Coins_IsValid cs" and "dec_amounts cs"
  shows "vested_coins s cs = Inr (map (\<lambda>c. \<lparr>Denom = Denom c, Amount = share s (Amount c)\<rparr>) cs)"
  using assms(3,4)
  by (induction cs) (simp_all add: vested_coin_eq assms(1,2) dec_amounts_def)

lemma amt_shares: "amt (map (\<lambda>c. \<lparr>Denom = Denom c, Amount = share s (Amount c)\<rparr>) cs) d =
    (if d \<in> Denom ` set cs then share s (amt cs d) else 0)"
  by (induction cs) auto

text \<open>The scalar at a time of the block: nothing before the start, everything from the end on.\<close>

definition scalar_at :: "int \<Rightarrow> int \<Rightarrow> int \<Rightarrow> dec" where
  "scalar_at start stop t =
     (if t \<le> start then 0 else if stop \<le> t then precisionReuse else scalar (t - start) (stop - start))"

lemma scalar_at_bounds:
  assumes "start < stop"
  shows "0 \<le> scalar_at start stop t \<and> scalar_at start stop t \<le> precisionReuse"
  using scalar_bounds [of "t - start" "stop - start"] assms by (simp add: scalar_at_def)

lemma scalar_at_mono:
  assumes "start < stop" and "t \<le> t'"
  shows "scalar_at start stop t \<le> scalar_at start stop t'"
proof -
  consider "t \<le> start" | "stop \<le> t'" | "start < t" "t' < stop" by linarith
  then show ?thesis
  proof cases
    case 3
    with assms scalar_mono [of "stop - start" "t - start" "t' - start"] show ?thesis by (simp add: scalar_at_def)
  qed (use scalar_at_bounds [OF assms(1)] assms in \<open>auto simp: scalar_at_def\<close>)
qed

lemma continuous_vested_spec:
  fixes t :: int
  assumes "Coins_IsValid (OriginalVesting bva)" and "dec_amounts (OriginalVesting bva)"
    and "0 \<le> start" and "start < EndTime bva" and "EndTime bva < 2 ^ 63"
  defines "s \<equiv> scalar_at start (EndTime bva) t"
  shows "\<exists>v. continuous_vested bva start t = Inr v \<and> sorted_wrt (<) (denoms v) \<and>
    Denom ` set v \<subseteq> Denom ` set (OriginalVesting bva) \<and> (\<forall>d. amt v d = share s (amt (OriginalVesting bva) d))"
proof -
  let ?ov = "OriginalVesting bva"
  have sorted: "sorted_wrt (<) (denoms ?ov)" using assms(1) by (simp add: Coins_IsValid_iff)
  have zero: "share r 0 = 0" for r using share_ends(1) [of r] by (simp add: share_def)
  consider "t \<le> start" | "start < t" "EndTime bva \<le> t" | "start < t" "t < EndTime bva" by linarith
  then show ?thesis
  proof cases
    case 3
    have "int64 (t - start) = t - start" "int64 (EndTime bva - start) = EndTime bva - start"
      using 3 assms(3-5) by (intro int64_id; simp)+
    with 3 have "continuous_vested bva start t = vested_coins s ?ov"
      by (simp add: continuous_vested_def NewDec_eq Quo_scalar s_def scalar_at_def)
    moreover have "0 \<le> s \<and> s \<le> precisionReuse" unfolding s_def by (rule scalar_at_bounds [OF assms(4)])
    ultimately show ?thesis
      using vested_coins_eq [OF _ _ assms(1,2)] sorted by (auto simp: amt_shares zero comp_def image_image)
  qed (use sorted assms(4) in \<open>auto simp: continuous_vested_def s_def scalar_at_def\<close>)
qed

subsection \<open>Locked coins\<close>

lemma LockedCoinsFromVesting_spec:
  assumes "Coins_IsValid v" and "coins_in_range v" and "Coins_IsValid (DelegatedVesting bva)"
  shows "\<exists>l. LockedCoinsFromVesting bva v = Inr l \<and> Coins_IsValid l \<and> coins_in_range l \<and>
    (\<forall>d. amt l d = max (amt v d - amt (DelegatedVesting bva) d) 0)"
proof -
  let ?m = "min_merge v (DelegatedVesting bva)"
  have m: "Coins_IsValid ?m" "\<And>d. amt ?m d = min (amt v d) (amt (DelegatedVesting bva) d)"
    using min_merge_spec [OF assms(1,3)] by simp_all
  have "Denom ` set ?m \<subseteq> Denom ` set v"
  proof
    fix d assume "d \<in> Denom ` set ?m"
    then have "0 < amt ?m d" using valid_amt_pos_iff [OF m(1)] by simp
    then show "d \<in> Denom ` set v" using valid_amt_pos_iff [OF assms(1)] m(2) by simp
  qed
  then have "\<exists>l. Coins_Sub v ?m = Inr l \<and> Coins_IsValid l \<and> coins_in_range l \<and> (\<forall>d. amt l d = amt v d - amt ?m d)"
    using m valid_amt_nonneg [OF m(1)] assms(1,2) by (intro Coins_Sub_le) (simp_all add: Coins_IsValid_iff)
  then show ?thesis using m(2) by (auto simp: LockedCoinsFromVesting_def Coins_Min_spec [OF assms(1,3)] min_def max_def)
qed

subsection \<open>Tracking\<close>

lemma single_coin:
  assumes "reDnm_match d" and "0 < x" and "int_in_range x"
  shows "NewCoin d x = Inr \<lparr>Denom = d, Amount = x\<rparr>" and "Coins_IsValid [\<lparr>Denom = d, Amount = x\<rparr>]"
    and "coins_in_range [\<lparr>Denom = d, Amount = x\<rparr>]"
  using assms by (simp_all add: NewCoin_def Coin_Validate_def ValidateDenom_def coins_in_range_def)

definition coins_ok :: "Coins \<Rightarrow> bool" where
  "coins_ok cs \<longleftrightarrow> Coins_IsValid cs \<and> coins_in_range cs"

lemma credit_spec:
  assumes "coins_ok cs" and "reDnm_match d" and "0 \<le> x" and "int_in_range (amt cs d + x)"
  shows "\<exists>s. credit d x cs = Inr s \<and> coins_ok s \<and> (\<forall>e. amt s e = amt cs e + (if e = d then x else 0))"
proof (cases "x = 0")
  case False
  have "0 \<le> amt cs d" using assms(1) by (simp add: coins_ok_def valid_amt_nonneg)
  with assms(3,4) have "int_in_range x" by (intro int_in_range_mono [OF _ assms(4)]) simp
  with False assms(2,3) have one: "NewCoin d x = Inr \<lparr>Denom = d, Amount = x\<rparr>"
      "Coins_IsValid [\<lparr>Denom = d, Amount = x\<rparr>]" "coins_in_range [\<lparr>Denom = d, Amount = x\<rparr>]"
    using single_coin [of d x] by simp_all
  have "int_in_range (amt cs e + amt [\<lparr>Denom = d, Amount = x\<rparr>] e)" for e
    using assms(1,4) coins_in_range_amt [of cs e] by (auto simp: coins_ok_def)
  with Coins_Add_spec [of cs "[\<lparr>Denom = d, Amount = x\<rparr>]"] assms(1) one False show ?thesis
    by (auto simp: credit_def coins_ok_def split: sum.splits)
qed (use assms in \<open>auto simp: credit_def\<close>)

lemma debit_spec:
  assumes "coins_ok cs" and "reDnm_match d" and "0 \<le> x" and "x \<le> amt cs d"
  shows "\<exists>s. debit d x cs = Inr s \<and> coins_ok s \<and> (\<forall>e. amt s e = amt cs e - (if e = d then x else 0))"
proof (cases "x = 0")
  case False
  have "int_in_range x"
    using assms coins_in_range_amt [of cs d] by (intro int_in_range_mono [of x "amt cs d"]) (simp_all add: coins_ok_def)
  with False assms(2,3) have one: "NewCoin d x = Inr \<lparr>Denom = d, Amount = x\<rparr>"
      "Coins_IsValid [\<lparr>Denom = d, Amount = x\<rparr>]" "coins_in_range [\<lparr>Denom = d, Amount = x\<rparr>]"
    using single_coin [of d x] by simp_all
  have "\<not> amt cs e < amt [\<lparr>Denom = d, Amount = x\<rparr>] e" for e
    using assms by (auto simp: coins_ok_def valid_amt_nonneg not_less)
  with Coins_Sub_spec [of cs "[\<lparr>Denom = d, Amount = x\<rparr>]"] assms(1) one False show ?thesis
    by (auto simp: debit_def coins_ok_def split: sum.splits)
qed (use assms in \<open>auto simp: debit_def\<close>)

text \<open>The delegated part of a coin that counts as vesting, and the tracked amounts afterwards.\<close>

definition bva_ok :: "BaseVestingAccount \<Rightarrow> bool" where
  "bva_ok bva \<longleftrightarrow> coins_ok (OriginalVesting bva) \<and> coins_ok (DelegatedFree bva) \<and> coins_ok (DelegatedVesting bva)"

definition from_vesting :: "BaseVestingAccount \<Rightarrow> Coins \<Rightarrow> Coins \<Rightarrow> string \<Rightarrow> int" where
  "from_vesting bva v amount d = min (max (amt v d - amt (DelegatedVesting bva) d) 0) (amt amount d)"

definition tracks_delegation :: "BaseVestingAccount \<Rightarrow> Coins \<Rightarrow> Coins \<Rightarrow> BaseVestingAccount \<Rightarrow> bool" where
  "tracks_delegation bva v amount bva' \<longleftrightarrow>
     bva_ok bva' \<and> OriginalVesting bva' = OriginalVesting bva \<and> EndTime bva' = EndTime bva \<and> bva_Base bva' = bva_Base bva \<and>
     (\<forall>d. amt (DelegatedVesting bva') d = amt (DelegatedVesting bva) d + from_vesting bva v amount d \<and>
          amt (DelegatedFree bva') d = amt (DelegatedFree bva) d + (amt amount d - from_vesting bva v amount d))"

lemma tracks_delegation_Cons:
  assumes "Coins_IsValid (c # cs)" and "bva1 = bva\<lparr>DelegatedVesting := dv, DelegatedFree := df\<rparr>"
    and "\<And>e. amt dv e = amt (DelegatedVesting bva) e + (if e = Denom c then from_vesting bva v (c # cs) e else 0)"
    and "\<And>e. amt df e = amt (DelegatedFree bva) e + (if e = Denom c then Amount c - from_vesting bva v (c # cs) e else 0)"
    and "tracks_delegation bva1 v cs bva'"
  shows "tracks_delegation bva v (c # cs) bva'"
proof -
  have zero: "amt cs (Denom c) = 0" using assms(1) by (intro amt_above) simp
  then have "from_vesting bva1 v cs (Denom c) = 0" by (simp add: from_vesting_def)
  moreover have "from_vesting bva1 v cs e = from_vesting bva v (c # cs) e" if "e \<noteq> Denom c" for e
    using that assms(2,3) by (simp add: from_vesting_def)
  ultimately show ?thesis using assms(2-5) zero unfolding tracks_delegation_def by auto
qed

lemma TrackDelegation_spec:
  assumes "bva_ok bva" and "coins_ok v" and "Coins_IsValid amount" and "\<And>d. amt amount d \<le> amt balance d"
    and "\<And>d. int_in_range (amt (DelegatedVesting bva) d + amt (DelegatedFree bva) d + amt amount d)"
  shows "\<exists>bva'. bva_TrackDelegation balance v amount bva = Inr bva' \<and> tracks_delegation bva v amount bva'"
  using assms
proof (induction amount arbitrary: bva)
  case Nil
  then show ?case by (simp add: tracks_delegation_def from_vesting_def)
next
  case (Cons c cs)
  let ?d = "Denom c" and ?dv = "DelegatedVesting bva" and ?df = "DelegatedFree bva"
  let ?x = "from_vesting bva v (c # cs) ?d"
  have ok: "coins_ok ?dv" "coins_ok ?df" using Cons.prems(1) by (simp_all add: bva_ok_def)
  have c: "0 < Amount c" "reDnm_match ?d" "Coins_IsValid cs" using Cons.prems(3) by simp_all
  have x: "0 \<le> ?x" "?x \<le> Amount c" using c by (simp_all add: from_vesting_def)
  have nonneg: "0 \<le> amt ?dv d" "0 \<le> amt ?df d" "0 \<le> amt v d" for d
    using ok Cons.prems(2) by (simp_all add: coins_ok_def valid_amt_nonneg)
  have "\<bar>amt ?dv ?d + ?x\<bar> \<le> \<bar>amt ?dv ?d + amt ?df ?d + Amount c\<bar>"
    "\<bar>amt ?df ?d + (Amount c - ?x)\<bar> \<le> \<bar>amt ?dv ?d + amt ?df ?d + Amount c\<bar>"
    "\<bar>Amount c - ?x\<bar> \<le> \<bar>amt ?dv ?d + amt ?df ?d + Amount c\<bar>"
    using nonneg [of ?d] x c(1) by linarith+
  moreover have "int_in_range (amt ?dv ?d + amt ?df ?d + Amount c)" using Cons.prems(5) [of ?d] by simp
  ultimately have range: "int_in_range (amt ?dv ?d + ?x)" "int_in_range (amt ?df ?d + (Amount c - ?x))"
      "int_in_range (Amount c - ?x)"
    by (blast intro: int_in_range_mono)+
  obtain dv where dv: "credit ?d ?x ?dv = Inr dv" "coins_ok dv" "\<And>e. amt dv e = amt ?dv e + (if e = ?d then ?x else 0)"
    using credit_spec [OF ok(1) c(2) x(1) range(1)] by blast
  obtain df where df: "credit ?d (Amount c - ?x) ?df = Inr df" "coins_ok df"
      "\<And>e. amt df e = amt ?df e + (if e = ?d then Amount c - ?x else 0)"
    using credit_spec [OF ok(2) c(2) _ range(2)] x by auto
  let ?bva = "bva\<lparr>DelegatedVesting := dv, DelegatedFree := df\<rparr>"
  have sub: "int_in_range (amt v ?d - amt ?dv ?d)"
    using ok Cons.prems(2) nonneg by (intro in_range_diff) (simp_all add: coins_ok_def coins_in_range_amt)
  have "\<not> amt balance ?d < Amount c" using Cons.prems(4) [of ?d] by simp
  moreover have "MinInt (MaxInt (amt v ?d - amt ?dv ?d) 0) (Amount c) = ?x"
    by (auto simp: from_vesting_def MinInt_def MaxInt_def)
  ultimately have step: "bva_TrackDelegation balance v (c # cs) bva = bva_TrackDelegation balance v cs ?bva"
    using c dv(1) df(1) sub range(3) by (simp add: AmountOf_valid sdk_def Int_Sub_iff Let_def)
  have rest: "amt cs d \<le> amt balance d" "amt cs ?d = 0" for d
    using Cons.prems(3) Cons.prems(4) [of d] c(1) amt_above [of cs ?d] by (auto split: if_splits)
  have "bva_ok ?bva" using Cons.prems(1) dv(2) df(2) by (simp add: bva_ok_def)
  moreover have "int_in_range (amt (DelegatedVesting ?bva) d + amt (DelegatedFree ?bva) d + amt cs d)" for d
    using Cons.prems(5) [of d] dv(3) df(3) rest(2) by (auto simp: algebra_simps split: if_splits)
  ultimately obtain bva' where t: "bva_TrackDelegation balance v cs ?bva = Inr bva'" "tracks_delegation ?bva v cs bva'"
    using Cons.IH [of ?bva] Cons.prems(2) c(3) rest(1) by blast
  have "tracks_delegation bva v (c # cs) bva'"
    by (rule tracks_delegation_Cons [OF Cons.prems(3) refl _ _ t(2)]) (simp_all add: dv(3) df(3))
  with step t(1) show ?case by metis
qed

text \<open>An undelegation first releases the free part, then the vesting part.\<close>

definition to_free :: "BaseVestingAccount \<Rightarrow> Coins \<Rightarrow> string \<Rightarrow> int" where
  "to_free bva amount d = min (amt (DelegatedFree bva) d) (amt amount d)"

definition tracks_undelegation :: "BaseVestingAccount \<Rightarrow> Coins \<Rightarrow> BaseVestingAccount \<Rightarrow> bool" where
  "tracks_undelegation bva amount bva' \<longleftrightarrow>
     bva_ok bva' \<and> OriginalVesting bva' = OriginalVesting bva \<and> EndTime bva' = EndTime bva \<and> bva_Base bva' = bva_Base bva \<and>
     (\<forall>d. amt (DelegatedFree bva') d = amt (DelegatedFree bva) d - to_free bva amount d \<and>
          amt (DelegatedVesting bva') d = amt (DelegatedVesting bva) d -
            min (amt (DelegatedVesting bva) d) (amt amount d - to_free bva amount d))"

lemma tracks_undelegation_Cons:
  assumes "Coins_IsValid (c # cs)" and "bva1 = bva\<lparr>DelegatedFree := df, DelegatedVesting := dv\<rparr>"
    and "\<And>e. amt df e = amt (DelegatedFree bva) e - (if e = Denom c then to_free bva (c # cs) e else 0)"
    and "\<And>e. amt dv e = amt (DelegatedVesting bva) e -
      (if e = Denom c then min (amt (DelegatedVesting bva) e) (Amount c - to_free bva (c # cs) e) else 0)"
    and "bva_ok bva1" and "tracks_undelegation bva1 cs bva'"
  shows "tracks_undelegation bva (c # cs) bva'"
proof -
  have zero: "amt cs (Denom c) = 0" using assms(1) by (intro amt_above) simp
  have "0 \<le> amt df (Denom c)" "0 \<le> amt dv (Denom c)"
    using assms(2,5) by (simp_all add: bva_ok_def coins_ok_def valid_amt_nonneg)
  with zero have "to_free bva1 cs (Denom c) = 0" "min (amt dv (Denom c)) 0 = 0"
    using assms(2) by (simp_all add: to_free_def)
  moreover have "to_free bva1 cs e = to_free bva (c # cs) e" if "e \<noteq> Denom c" for e
    using that assms(2,3) by (simp add: to_free_def)
  ultimately show ?thesis using assms(2-4,6) zero unfolding tracks_undelegation_def by auto
qed

lemma TrackUndelegation_spec:
  assumes "bva_ok bva" and "Coins_IsValid amount" and "coins_in_range amount"
  shows "\<exists>bva'. bva_TrackUndelegation amount bva = Inr bva' \<and> tracks_undelegation bva amount bva'"
  using assms
proof (induction amount arbitrary: bva)
  case Nil
  then have "0 \<le> amt (DelegatedFree bva) d" "0 \<le> amt (DelegatedVesting bva) d" for d
    by (simp_all add: bva_ok_def coins_ok_def valid_amt_nonneg)
  with Nil show ?case by (simp add: tracks_undelegation_def to_free_def)
next
  case (Cons c cs)
  let ?d = "Denom c" and ?dv = "DelegatedVesting bva" and ?df = "DelegatedFree bva"
  let ?x = "to_free bva (c # cs) ?d"
  let ?y = "min (amt ?dv ?d) (Amount c - ?x)"
  have ok: "coins_ok ?dv" "coins_ok ?df" using Cons.prems(1) by (simp_all add: bva_ok_def)
  then have nonneg: "0 \<le> amt ?dv ?d" "0 \<le> amt ?df ?d" by (simp_all add: coins_ok_def valid_amt_nonneg)
  have c: "0 < Amount c" "reDnm_match ?d" "Coins_IsValid cs" "int_in_range (Amount c)" "coins_in_range cs"
    using Cons.prems(2,3) by (simp_all add: coins_in_range_def)
  have x: "0 \<le> ?x" "?x \<le> amt ?df ?d" "?x \<le> Amount c" "0 \<le> ?y" "?y \<le> amt ?dv ?d"
    using c nonneg by (auto simp: to_free_def)
  then have range: "int_in_range (Amount c - ?x)" by (intro int_in_range_mono [OF _ c(4)]) simp
  obtain df where df: "debit ?d ?x ?df = Inr df" "coins_ok df" "\<And>e. amt df e = amt ?df e - (if e = ?d then ?x else 0)"
    using debit_spec [OF ok(2) c(2) x(1,2)] by blast
  obtain dv where dv: "debit ?d ?y ?dv = Inr dv" "coins_ok dv" "\<And>e. amt dv e = amt ?dv e - (if e = ?d then ?y else 0)"
    using debit_spec [OF ok(1) c(2) x(4,5)] by blast
  let ?bva = "bva\<lparr>DelegatedFree := df, DelegatedVesting := dv\<rparr>"
  have "MinInt (amt ?df ?d) (Amount c) = ?x" "MinInt (amt ?dv ?d) (Amount c - ?x) = ?y"
    by (auto simp: to_free_def MinInt_def)
  then have step: "bva_TrackUndelegation (c # cs) bva = bva_TrackUndelegation cs ?bva"
    using c dv(1) df(1) range by (simp add: AmountOf_valid sdk_def Int_Sub_iff Let_def)
  have bva: "bva_ok ?bva" using Cons.prems(1) dv(2) df(2) by (simp add: bva_ok_def)
  then obtain bva' where t: "bva_TrackUndelegation cs ?bva = Inr bva'" "tracks_undelegation ?bva cs bva'"
    using Cons.IH [of ?bva] c by blast
  have "tracks_undelegation bva (c # cs) bva'"
    by (rule tracks_undelegation_Cons [OF Cons.prems(2) refl _ _ bva t(2)]) (simp_all add: dv(3) df(3))
  with step t(1) show ?case by metis
qed

lemma vesting_base_set: "vesting_base acc = Some bva \<Longrightarrow> vesting_base (set_vesting_base acc bva') = Some bva'"
  by (cases acc) simp_all

lemma GetVestingCoins_schedule:
  assumes "vesting_base acc = Some bva" and "OriginalVesting bva' = OriginalVesting bva" and "EndTime bva' = EndTime bva"
  shows "GetVestingCoins (set_vesting_base acc bva') t = GetVestingCoins acc t"
  using assms by (cases acc) (simp_all add: continuous_vested_def periodic_vested_def delayed_vested_def)

lemma acc_LockedCoins_spec:
  assumes "vesting_base acc = Some bva" and "bva_ok bva" and "GetVestingCoins acc t = Inr v" and "coins_ok v"
  shows "\<exists>l. acc_LockedCoins acc t = Inr l \<and> coins_ok l \<and>
    (\<forall>d. amt l d = max (amt v d - amt (DelegatedVesting bva) d) 0)"
  using LockedCoinsFromVesting_spec [of v bva] assms by (auto simp: acc_LockedCoins_def bva_ok_def coins_ok_def)

lemma locked_after: "0 \<le> a \<Longrightarrow> max (v - (b + min (max (v - b) 0) a)) 0 = max (max (v - b) 0 - a) (0 :: int)"
  by (auto simp: max_def min_def)

lemma tracked_after:
  fixes b f a x :: int
  assumes "0 \<le> b" and "0 \<le> f" and "0 \<le> x" and "x \<le> a"
  defines "k \<equiv> min (f + (a - x)) a"
  shows "(b + x - min (b + x) (a - k)) + (f + (a - x) - k) = b + f"
  using assms(1-4) by (cases "f \<le> x") (simp_all add: k_def)

subsection \<open>Properties\<close>

text \<open>C28. The schedule of a continuous vesting account: at every time the vested coins are computed
  without a panic, no denomination has vested below zero or above its original amount, nothing that has
  vested is locked again later, and the vesting coins are exactly the rest. Nothing has vested up to the
  start and everything has from the end on.\<close>

theorem continuous_vesting_schedule:
  assumes "Coins_IsValid (OriginalVesting bva)" and "dec_amounts (OriginalVesting bva)"
    and "0 \<le> start" and "start < EndTime bva" and "EndTime bva < 2 ^ 63" and "t \<le> t'"
  shows "\<exists>v v' w.
    GetVestedCoins (ContinuousVestingAccount bva start) t = Inr v \<and>
    GetVestedCoins (ContinuousVestingAccount bva start) t' = Inr v' \<and>
    GetVestingCoins (ContinuousVestingAccount bva start) t = Inr w \<and> Coins_IsValid w \<and>
    (\<forall>d. 0 \<le> amt v d \<and> amt v d \<le> amt v' d \<and> amt v' d \<le> amt (OriginalVesting bva) d \<and>
      amt w d = amt (OriginalVesting bva) d - amt v d \<and>
      (t \<le> start \<longrightarrow> amt v d = 0) \<and> (EndTime bva \<le> t \<longrightarrow> amt w d = 0))"
proof -
  let ?ov = "OriginalVesting bva" and ?s = "scalar_at start (EndTime bva)"
  obtain v where v: "continuous_vested bva start t = Inr v" "sorted_wrt (<) (denoms v)"
      "Denom ` set v \<subseteq> Denom ` set ?ov" "\<And>d. amt v d = share (?s t) (amt ?ov d)"
    using continuous_vested_spec [OF assms(1-5), of t] by blast
  obtain v' where v': "continuous_vested bva start t' = Inr v'" "\<And>d. amt v' d = share (?s t') (amt ?ov d)"
    using continuous_vested_spec [OF assms(1-5), of t'] by blast
  have ov: "0 \<le> amt ?ov d" for d by (rule valid_amt_nonneg [OF assms(1)])
  have b: "0 \<le> amt v d \<and> amt v d \<le> amt ?ov d" "amt v' d \<le> amt ?ov d" for d
    using share_bounds [OF ov] scalar_at_bounds [OF assms(4)] by (simp_all add: v(4) v'(2))
  have mono: "amt v d \<le> amt v' d" for d
    using share_mono [OF ov scalar_at_mono [OF assms(4,6)]] by (simp add: v(4) v'(2))
  obtain w where w: "Coins_Sub ?ov v = Inr w" "Coins_IsValid w" "\<And>d. amt w d = amt ?ov d - amt v d"
    using Coins_Sub_le [OF assms(1) dec_amounts_in_range [OF assms(2)] v(2,3)] b by blast
  have ends: "t \<le> start \<longrightarrow> amt v d = 0" "EndTime bva \<le> t \<longrightarrow> amt v d = amt ?ov d" for d
    using assms(4) by (auto simp: v(4) scalar_at_def)
  from v(1) v'(1) w b mono ends show ?thesis by simp
qed

definition team_vesting :: BaseVestingAccount where
  "team_vesting = NewBaseVestingAccount \<lparr>Address = ''team'', AccountNumber = 1, Sequence = 0\<rparr>
     [\<lparr>Denom = ''usei'', Amount = 1000\<rparr>] 200"

lemma team_vesting_ok:
  "Coins_IsValid (OriginalVesting team_vesting)" "dec_amounts (OriginalVesting team_vesting)" "EndTime team_vesting = 200"
  by (simp_all add: team_vesting_def NewBaseVestingAccount_def dec_amounts_def reDnm_match_def is_letter_def denom_char_def
      IsInValidRange_abs precisionReuse_def maxDecBitLen_def intBitLen_def DecimalPrecisionBits_def Precision_def)

theorem continuous_vesting_schedule_witness:
  "\<exists>v v'. GetVestedCoins (ContinuousVestingAccount team_vesting 100) 130 = Inr v \<and>
    GetVestedCoins (ContinuousVestingAccount team_vesting 100) 170 = Inr v' \<and> amt v ''usei'' \<le> amt v' ''usei''"
  using continuous_vesting_schedule [of team_vesting 100 130 170] team_vesting_ok by auto

text \<open>C27. A delegation of a vesting account is taken from its locked coins first: afterwards the locked
  amount of each denomination is lower by the delegated amount, or zero, and the two tracked amounts
  together have grown by the delegated amount. When the same amount is undelegated, the tracked amounts
  together are what they were.\<close>

theorem delegation_tracking:
  assumes "vesting_base acc = Some bva" and "bva_ok bva" and "GetVestingCoins acc t = Inr v" and "coins_ok v"
    and "coins_ok amount" and "\<And>d. amt amount d \<le> amt balance d"
    and "\<And>d. int_in_range (amt (DelegatedVesting bva) d + amt (DelegatedFree bva) d + amt amount d)"
  shows "\<exists>acc' acc'' bva' bva'' l l'.
    acc_TrackDelegation acc t balance amount = Inr acc' \<and> vesting_base acc' = Some bva' \<and>
    acc_TrackUndelegation acc' amount = Inr acc'' \<and> vesting_base acc'' = Some bva'' \<and>
    acc_LockedCoins acc t = Inr l \<and> acc_LockedCoins acc' t = Inr l' \<and>
    (\<forall>d. amt l' d = max (amt l d - amt amount d) 0 \<and>
      amt (DelegatedVesting bva') d + amt (DelegatedFree bva') d =
        amt (DelegatedVesting bva) d + amt (DelegatedFree bva) d + amt amount d \<and>
      amt (DelegatedVesting bva'') d + amt (DelegatedFree bva'') d =
        amt (DelegatedVesting bva) d + amt (DelegatedFree bva) d)"
proof -
  have amount: "Coins_IsValid amount" "coins_in_range amount" "\<And>d. 0 \<le> amt amount d"
    using assms(5) by (simp_all add: coins_ok_def valid_amt_nonneg)
  obtain bva' where d: "bva_TrackDelegation balance v amount bva = Inr bva'" "tracks_delegation bva v amount bva'"
    using TrackDelegation_spec [OF assms(2,4) amount(1) assms(6,7)] by blast
  then have ok': "bva_ok bva'" "OriginalVesting bva' = OriginalVesting bva" "EndTime bva' = EndTime bva"
    by (simp_all add: tracks_delegation_def)
  obtain bva'' where u: "bva_TrackUndelegation amount bva' = Inr bva''" "tracks_undelegation bva' amount bva''"
    using TrackUndelegation_spec [OF ok'(1) amount(1,2)] by blast
  let ?acc = "set_vesting_base acc bva'"
  note vb' = vesting_base_set [OF assms(1), of bva'] and vb'' = vesting_base_set [OF vesting_base_set [OF assms(1)], of bva' bva'']
  have v': "GetVestingCoins ?acc t = Inr v" using GetVestingCoins_schedule [OF assms(1) ok'(2,3)] assms(3) by simp
  obtain l where l: "acc_LockedCoins acc t = Inr l" "\<And>d. amt l d = max (amt v d - amt (DelegatedVesting bva) d) 0"
    using acc_LockedCoins_spec [OF assms(1-4)] by blast
  obtain l' where l': "acc_LockedCoins ?acc t = Inr l'" "\<And>d. amt l' d = max (amt v d - amt (DelegatedVesting bva') d) 0"
    using acc_LockedCoins_spec [OF vb' ok'(1) v' assms(4)] by blast
  have dv: "amt (DelegatedVesting bva') d = amt (DelegatedVesting bva) d + from_vesting bva v amount d"
      "amt (DelegatedFree bva') d = amt (DelegatedFree bva) d + (amt amount d - from_vesting bva v amount d)" for d
    using d(2) by (simp_all add: tracks_delegation_def)
  have nonneg: "0 \<le> amt (DelegatedVesting bva) d" "0 \<le> amt (DelegatedFree bva) d" for d
    using assms(2) by (simp_all add: bva_ok_def coins_ok_def valid_amt_nonneg)
  have fv: "0 \<le> from_vesting bva v amount d" "from_vesting bva v amount d \<le> amt amount d" for d
    using amount(3) [of d] by (simp_all add: from_vesting_def)
  have "amt l' d = max (amt l d - amt amount d) 0" for d
    unfolding l(2) l'(2) dv(1) from_vesting_def by (rule locked_after [OF amount(3)])
  moreover have "amt (DelegatedVesting bva'') d + amt (DelegatedFree bva'') d =
      amt (DelegatedVesting bva) d + amt (DelegatedFree bva) d" for d
    using u(2) tracked_after [OF nonneg fv] by (simp add: tracks_undelegation_def to_free_def dv)
  ultimately show ?thesis
    using d(1) u(1) l(1) l'(1) assms(1,3) vb' vb'' dv
    by (intro exI [of _ ?acc] exI [of _ "set_vesting_base ?acc bva''"] exI [of _ bva'] exI [of _ bva''] exI [of _ l] exI [of _ l'])
      (simp add: acc_TrackDelegation_def acc_TrackUndelegation_def sdk_def)
qed

lemma team_coins_ok: "bva_ok team_vesting" "coins_ok [\<lparr>Denom = ''usei'', Amount = 1000\<rparr>]" "coins_ok [\<lparr>Denom = ''usei'', Amount = 300\<rparr>]"
  by (simp_all add: team_vesting_def NewBaseVestingAccount_def bva_ok_def coins_ok_def coins_in_range_def
      reDnm_match_def is_letter_def denom_char_def int_in_range_iff)

theorem delegation_tracking_witness:
  "\<exists>acc'. acc_TrackDelegation (PermanentLockedAccount team_vesting) 5
     [\<lparr>Denom = ''usei'', Amount = 1000\<rparr>] [\<lparr>Denom = ''usei'', Amount = 300\<rparr>] = Inr acc'"
  using delegation_tracking [of "PermanentLockedAccount team_vesting" team_vesting 5 "[\<lparr>Denom = ''usei'', Amount = 1000\<rparr>]"
      "[\<lparr>Denom = ''usei'', Amount = 300\<rparr>]" "[\<lparr>Denom = ''usei'', Amount = 1000\<rparr>]"] team_coins_ok
  by (force simp: team_vesting_def NewBaseVestingAccount_def int_in_range_iff)

end
