(* ===== verification/BankLaws.thy ===== *)
theory BankLaws
  imports BankLedger VestingProps
begin

text \<open>
  What each operation of the bank module does to the amounts: of an account, of the deferred cache, of
  the supply and of the wei.
\<close>

abbreviation bal :: "bank \<Rightarrow> addr \<Rightarrow> string \<Rightarrow> int" where
  "bal \<equiv> ab.held"

abbreviation bal_total :: "bank \<Rightarrow> string \<Rightarrow> int" where
  "bal_total \<equiv> ab.held_total"

abbreviation dfr_total :: "bank \<Rightarrow> string \<Rightarrow> int" where
  "dfr_total \<equiv> db.held_total"

abbreviation balances_ok :: "bank \<Rightarrow> bool" where
  "balances_ok st \<equiv> entries_ok (balances st)"

subsection \<open>Loops\<close>

subsection \<open>Crediting\<close>

lemma add_coin_credit: "add_coin addr True = ab.credit_one addr"
  by (intro ext) (simp add: add_coin_def ab.credit_one_def)

lemma AddCoins_spec:
  assumes "balances_ok st" and "CanSendTo env addr" and "Coins_IsValid amount"
  shows "case AddCoins env addr amount True st of
      Inl e \<Rightarrow> e = overflow_panic \<and> (\<exists>d. \<not> int_in_range (bal st addr d + amt amount d))
    | Inr st' \<Rightarrow> ab.changes st addr (amt amount) st'"
  using ab.credit_all_ok [OF assms(1,3), of addr] assms by (simp add: AddCoins_def add_coin_credit)

lemma AddCoins_changes:
  assumes "balances_ok st" and "AddCoins env addr amount True st = Inr st'"
  shows "ab.changes st addr (amt amount) st'" and "CanSendTo env addr" and "Coins_IsValid amount"
proof -
  show c: "CanSendTo env addr" "Coins_IsValid amount"
    using assms(2) by (auto simp: AddCoins_def split: if_splits)
  show "ab.changes st addr (amt amount) st'" using AddCoins_spec [OF assms(1) c] assms(2) by simp
qed

subsection \<open>Debiting\<close>

lemma Coin_Sub_same:
  assumes "int_in_range a" and "int_in_range b" and "0 \<le> a" and "0 \<le> b"
  shows "Coin_Sub \<lparr>Denom = d, Amount = a\<rparr> \<lparr>Denom = d, Amount = b\<rparr> =
    (if a < b then Inl NegativeCoinAmount else Inr \<lparr>Denom = d, Amount = a - b\<rparr>)"
  using in_range_diff [OF assms] by (simp add: Coin_Sub_def Int_Sub_iff)

lemma SafeSub_single:
  assumes "int_in_range a" and "int_in_range b" and "0 \<le> a" and "0 \<le> b"
  shows "\<exists>diff. Coins_SafeSub [\<lparr>Denom = d, Amount = a\<rparr>] [\<lparr>Denom = d, Amount = b\<rparr>] = Inr (diff, a < b)"
  using in_range_diff [OF assms]
  by (simp add: Coins_SafeSub_def safeAdd_def Coins_negative_def Int_Neg_def Coin_Add_def Int_Add_iff removeZeroCoins_def
      Coins_IsAnyNegative_def)

text \<open>One coin of \<open>SubUnlockedCoins\<close>: it needs the amount on top of the locked one.\<close>

lemma sub_unlocked_coin_spec:
  fixes addr :: addr
  assumes "balances_ok st" and "reDnm_match (Denom c)" and "0 < Amount c" and "int_in_range (Amount c)" and "coins_ok l"
  defines "b \<equiv> bal st addr (Denom c)" and "k \<equiv> amt l (Denom c)"
  shows "case sub_unlocked_coin l addr True c st of
      Inl e \<Rightarrow> b < k + Amount c \<and> e = (if b < k then negative_panic else ErrInsufficientFunds)
    | Inr st' \<Rightarrow> k + Amount c \<le> b \<and> ab.changes st addr (\<lambda>e. if e = Denom c then - Amount c else 0) st'"
proof -
  let ?d = "Denom c"
  have c: "c = \<lparr>Denom = ?d, Amount = Amount c\<rparr>" by simp
  have b: "0 \<le> b" "int_in_range b" unfolding b_def by (rule ab.held_nonneg [OF assms(1)], rule ab.held_in_range [OF assms(1)])
  have k: "0 \<le> k" "int_in_range k" using assms(5) by (simp_all add: k_def coins_ok_def valid_amt_nonneg coins_in_range_amt)
  have get: "GetBalance st addr ?d = Inr \<lparr>Denom = ?d, Amount = b\<rparr>"
    unfolding b_def by (rule ab.getB_ok [OF assms(1,2)])
  have locked: "AmountOf l ?d = Inr k" "NewCoin ?d k = Inr \<lparr>Denom = ?d, Amount = k\<rparr>"
    using k(1) assms(2) by (simp_all add: AmountOf_valid k_def NewCoin_def Coin_Validate_def ValidateDenom_def not_less)
  note lock = Coin_Sub_same [OF b(2) k(2) b(1) k(1), of ?d]
  show ?thesis
  proof (cases "b < k")
    case True
    with get locked lock assms(3) show ?thesis by (simp add: sub_unlocked_coin_def)
  next
    case False
    then have s: "0 \<le> b - k" "int_in_range (b - k)" using in_range_diff [OF b(2) k(2) b(1) k(1)] by simp_all
    obtain diff where safe: "Coins_SafeSub [\<lparr>Denom = ?d, Amount = b - k\<rparr>] [c] = Inr (diff, b - k < Amount c)"
      using SafeSub_single [OF s(2) assms(4) s(1), of ?d] assms(3) c by (metis less_imp_le)
    show ?thesis
    proof (cases "b - k < Amount c")
      case True
      with False get locked lock safe show ?thesis by (simp add: sub_unlocked_coin_def require_def)
    next
      case enough: False
      with k(1) have le: "Amount c \<le> b" by simp
      then have sub: "Coin_Sub \<lparr>Denom = ?d, Amount = b\<rparr> c = Inr \<lparr>Denom = ?d, Amount = b - Amount c\<rparr>"
        using Coin_Sub_same [OF b(2) assms(4) b(1), of ?d] assms(3) c by (metis less_imp_le not_less)
      obtain st' where "setBalance addr \<lparr>Denom = ?d, Amount = b - Amount c\<rparr> True st = Inr st'"
          "ab.changes st addr (\<lambda>e. if e = ?d then - Amount c else 0) st'"
        using ab.debit_one_ok [OF assms(1,2), of "Amount c" addr] le assms(3) by (auto simp: b_def)
      with False enough get locked lock safe sub show ?thesis by (simp add: sub_unlocked_coin_def require_def)
    qed
  qed
qed

text \<open>Whatever is locked, a coin that is taken was held.\<close>

lemma sub_unlocked_coin_changes:
  assumes "balances_ok st" and "reDnm_match (Denom c)" and "0 < Amount c" and "sub_unlocked_coin l addr True c st = Inr st'"
  shows "ab.changes st addr (\<lambda>e. if e = Denom c then - Amount c else 0) st'"
proof -
  let ?d = "Denom c" and ?b = "bal st addr (Denom c)"
  have "GetBalance st addr ?d = Inr \<lparr>Denom = ?d, Amount = ?b\<rparr>" by (rule ab.getB_ok [OF assms(1,2)])
  with assms(4) obtain n where n: "Coin_Sub \<lparr>Denom = ?d, Amount = ?b\<rparr> c = Inr n" "setBalance addr n True st = Inr st'"
    by (auto simp: sub_unlocked_coin_def sum_bind_Inr_iff)
  then have "n = \<lparr>Denom = ?d, Amount = ?b - Amount c\<rparr>" "Amount c \<le> ?b"
    by (auto simp: Coin_Sub_def Int_Sub_iff split: if_splits)
  with n(2) ab.debit_one_ok [OF assms(1,2), of "Amount c" addr] assms(3) show ?thesis by simp
qed

lemma sub_unlocked_changes:
  assumes "balances_ok st" and "Coins_IsValid cs" and "each (sub_unlocked_coin l addr True) cs st = Inr st'"
  shows "ab.changes st addr (\<lambda>d. - amt cs d) st'"
  using assms
proof (induction cs arbitrary: st)
  case Nil
  then show ?case by (simp add: ab.changes_refl)
next
  case (Cons c cs)
  then obtain st1 where st1: "sub_unlocked_coin l addr True c st = Inr st1" "each (sub_unlocked_coin l addr True) cs st1 = Inr st'"
    by (auto simp: sum_bind_Inr_iff)
  have zero: "amt cs (Denom c) = 0" using Cons.prems(2) by (intro amt_above) simp
  have one: "ab.changes st addr (\<lambda>e. if e = Denom c then - Amount c else 0) st1"
    using sub_unlocked_coin_changes [OF Cons.prems(1) _ _ st1(1)] Cons.prems(2) by simp
  then have "balances_ok st1" by (simp add: ab.changes_def)
  with Cons.IH st1(2) Cons.prems(2) have "ab.changes st1 addr (\<lambda>d. - amt cs d) st'" by simp
  then show ?case by (rule ab.changes_trans [OF one]) (use zero in auto)
qed

lemma SubUnlockedCoins_changes:
  assumes "balances_ok st" and "SubUnlockedCoins env addr amount True st = Inr st'"
  shows "ab.changes st addr (\<lambda>d. - amt amount d) st'" and "Coins_IsValid amount"
  using assms sub_unlocked_changes [of st amount _ addr st']
  by (auto simp: SubUnlockedCoins_def sum_bind_Inr_iff split: if_splits)

text \<open>With well-formed locked coins, \<open>SubUnlockedCoins\<close> succeeds exactly when every denomination has the
  amount on top of the locked one.\<close>

lemma sub_unlocked_spec:
  assumes "balances_ok st" and "Coins_IsValid cs" and "coins_in_range cs" and "coins_ok l"
  shows "case each (sub_unlocked_coin l addr True) cs st of
      Inl e \<Rightarrow> (\<exists>d. 0 < amt cs d \<and> bal st addr d < amt l d + amt cs d \<and>
        e = (if bal st addr d < amt l d then negative_panic else ErrInsufficientFunds))
    | Inr st' \<Rightarrow> (\<forall>d. 0 < amt cs d \<longrightarrow> amt l d + amt cs d \<le> bal st addr d)"
  using assms
proof (induction cs arbitrary: st)
  case Nil
  then show ?case by simp
next
  case (Cons c cs)
  have c: "reDnm_match (Denom c)" "0 < Amount c" "int_in_range (Amount c)" "Coins_IsValid cs" "coins_in_range cs"
    using Cons.prems(2,3) by (simp_all add: coins_in_range_def)
  have zero: "amt cs (Denom c) = 0" using Cons.prems(2) by (intro amt_above) simp
  note one = sub_unlocked_coin_spec [OF Cons.prems(1) c(1-3) Cons.prems(4), of addr]
  show ?case
  proof (cases "sub_unlocked_coin l addr True c st")
    case (Inl e)
    with one c(2) show ?thesis by (auto intro!: exI [of _ "Denom c"])
  next
    case (Inr st1)
    with one have ch: "ab.changes st addr (\<lambda>e. if e = Denom c then - Amount c else 0) st1"
      and le: "amt l (Denom c) + Amount c \<le> bal st addr (Denom c)" by simp_all
    then have ok: "balances_ok st1" by (simp add: ab.changes_def)
    have other: "bal st1 addr d = bal st addr d" "amt (c # cs) d = amt cs d" if "0 < amt cs d" for d
      using ch zero that by (auto simp: ab.changes_def)
    note IH = Cons.IH [OF ok c(4,5) Cons.prems(4)]
    show ?thesis
    proof (cases "each (sub_unlocked_coin l addr True) cs st1")
      case (Inl e)
      with IH obtain d where "0 < amt cs d" "bal st1 addr d < amt l d + amt cs d"
          "e = (if bal st1 addr d < amt l d then negative_panic else ErrInsufficientFunds)" by auto
      with other [of d] Inr Inl show ?thesis by (auto intro!: exI [of _ d])
    next
      case tail: (Inr st2)
      with IH have "\<forall>d. 0 < amt cs d \<longrightarrow> amt l d + amt cs d \<le> bal st addr d" using other(1) by auto
      with le Inr tail show ?thesis by auto
    qed
  qed
qed

lemma SubUnlockedCoins_spec:
  assumes "balances_ok st" and "Coins_IsValid amount" and "coins_in_range amount"
    and "LockedCoins env st addr = Inr l" and "coins_ok l"
  shows "case SubUnlockedCoins env addr amount True st of
      Inl e \<Rightarrow> (\<exists>d. 0 < amt amount d \<and> bal st addr d < amt l d + amt amount d \<and>
        e = (if bal st addr d < amt l d then negative_panic else ErrInsufficientFunds))
    | Inr st' \<Rightarrow> (\<forall>d. 0 < amt amount d \<longrightarrow> amt l d + amt amount d \<le> bal st addr d) \<and>
        ab.changes st addr (\<lambda>d. - amt amount d) st'"
  using sub_unlocked_spec [OF assms(1-3,5), of addr] sub_unlocked_changes [OF assms(1,2), of l addr] assms(2,4)
  by (auto simp: SubUnlockedCoins_def split: sum.splits)

subsection \<open>What an operation leaves alone\<close>

lemma changes_frame:
  assumes "ab.changes st addr g st'"
  shows "weiBalances st' = weiBalances st" and "supplies st' = supplies st" and "deferred st' = deferred st"
    and "allowLists st' = allowLists st" and "params st' = params st" and "accounts st' = accounts st"
    and "balances_ok st'"
proof -
  have "st' = st\<lparr>balances := balances st'\<rparr>" using assms by (simp add: ab.changes_def)
  then show "weiBalances st' = weiBalances st" "supplies st' = supplies st" "deferred st' = deferred st"
    "allowLists st' = allowLists st" "params st' = params st" "accounts st' = accounts st"
    by (metis bank.select_convs bank.surjective bank.update_convs(1))+
  show "balances_ok st'" using assms by (simp add: ab.changes_def)
qed

end
