(* ===== verification/BankOps.thy ===== *)
theory BankOps
  imports BankLaws
begin

text \<open>
  The worth of the bank: per denomination, what the accounts, the deferred cache and the wei add up to,
  counted in wei. Every operation keeps the state well-formed and changes the worth and the supply by a
  known amount.
\<close>

subsection \<open>Well-formed states\<close>

definition wei_total :: "bank \<Rightarrow> int" where
  "wei_total st = gm_sum (\<lambda>_ w. w) (weiBalances st)"

definition wei_ok :: "bank \<Rightarrow> bool" where
  "wei_ok st \<longleftrightarrow> distinct (gm_keys (weiBalances st)) \<and> list_all (\<lambda>(a, w). 0 < w \<and> w < OneUseiInWei) (weiBalances st)"

definition supply_of :: "bank \<Rightarrow> string \<Rightarrow> int" where
  "supply_of st d = Amount (GetSupply st d)"

definition supply_ok :: "bank \<Rightarrow> bool" where
  "supply_ok st \<longleftrightarrow> distinct (gm_keys (supplies st)) \<and>
     list_all (\<lambda>(d, a). 0 < a \<and> int_in_range a \<and> reDnm_match d) (supplies st)"

definition bank_ok :: "bank \<Rightarrow> bool" where
  "bank_ok st \<longleftrightarrow> balances_ok st \<and> entries_ok (deferred st) \<and> wei_ok st \<and> supply_ok st"

definition worth :: "string \<Rightarrow> bank \<Rightarrow> string \<Rightarrow> int" where
  "worth base st d = (bal_total st d + dfr_total st d) * OneUseiInWei + (if d = base then wei_total st else 0)"

text \<open>The amount of the base denomination of an account, in wei.\<close>

definition aggregated :: "string \<Rightarrow> bank \<Rightarrow> addr \<Rightarrow> int" where
  "aggregated base st a = bal st a base * OneUseiInWei + GetWeiBalance st a"

definition supply_matches :: "string \<Rightarrow> bank \<Rightarrow> bool" where
  "supply_matches base st \<longleftrightarrow> (\<forall>d. worth base st d = supply_of st d * OneUseiInWei)"

lemma OneUseiInWei_pos [simp]: "0 < OneUseiInWei" "OneUseiInWei \<noteq> 0"
  by (simp_all add: OneUseiInWei_def)

text \<open>An operation changes the worth by \<open>g\<close> and the supply by \<open>h\<close>.\<close>

definition shifts :: "string \<Rightarrow> bank \<Rightarrow> (string \<Rightarrow> int) \<Rightarrow> (string \<Rightarrow> int) \<Rightarrow> bank \<Rightarrow> bool" where
  "shifts base st g h st' \<longleftrightarrow> bank_ok st' \<and>
     (\<forall>d. worth base st' d = worth base st d + g d) \<and> (\<forall>d. supply_of st' d = supply_of st d + h d)"

lemma shifts_trans:
  "shifts base st g h st1 \<Longrightarrow> shifts base st1 g' h' st2 \<Longrightarrow>
    shifts base st (\<lambda>d. g d + g' d) (\<lambda>d. h d + h' d) st2"
  by (simp add: shifts_def)

lemma shifts_cong:
  "shifts base st g h st' \<Longrightarrow> (\<And>d. g' d = g d) \<Longrightarrow> (\<And>d. h' d = h d) \<Longrightarrow> shifts base st g' h' st'"
  by (simp add: shifts_def)

lemma shifts_keeps:
  assumes "shifts base st g h st'" and "supply_matches base st" and "\<And>d. g d = h d * OneUseiInWei"
  shows "bank_ok st'" and "supply_matches base st'"
  using assms by (simp_all add: shifts_def supply_matches_def distrib_right)

subsection \<open>Changes of the stores\<close>

lemma ab_shifts:
  assumes "bank_ok st" and "ab.changes st a g st'"
  shows "shifts base st (\<lambda>d. g d * OneUseiInWei) (\<lambda>_. 0) st'"
proof -
  note frame = changes_frame [OF assms(2)]
  have "bal_total st' d = bal_total st d + g d" for d using assms(2) by (simp add: ab.changes_def)
  then have "worth base st' d = worth base st d + g d * OneUseiInWei" for d
    using frame(1,3) by (simp add: worth_def wei_total_def db.held_total_def distrib_right)
  then show ?thesis
    using assms(1) frame by (simp add: shifts_def bank_ok_def wei_ok_def supply_ok_def supply_of_def GetSupply_def)
qed

lemma db_frame:
  assumes "db.changes st k g st'"
  shows "weiBalances st' = weiBalances st" and "supplies st' = supplies st" and "balances st' = balances st"
    and "accounts st' = accounts st" and "entries_ok (deferred st')"
proof -
  have "st' = st\<lparr>deferred := deferred st'\<rparr>" using assms by (simp add: db.changes_def)
  then show "weiBalances st' = weiBalances st" "supplies st' = supplies st" "balances st' = balances st"
    "accounts st' = accounts st"
    by (metis bank.select_convs bank.surjective bank.update_convs(4))+
  show "entries_ok (deferred st')" using assms by (simp add: db.changes_def)
qed

lemma db_shifts:
  assumes "bank_ok st" and "db.changes st k g st'"
  shows "shifts base st (\<lambda>d. g d * OneUseiInWei) (\<lambda>_. 0) st'"
proof -
  note frame = db_frame [OF assms(2)]
  have "dfr_total st' d = dfr_total st d + g d" for d using assms(2) by (simp add: db.changes_def)
  then have "worth base st' d = worth base st d + g d * OneUseiInWei" for d
    using frame(1,3) by (simp add: worth_def wei_total_def ab.held_total_def distrib_right)
  then show ?thesis
    using assms(1) frame by (simp add: shifts_def bank_ok_def wei_ok_def supply_ok_def supply_of_def GetSupply_def)
qed

lemma accounts_shifts [simp]:
  "bank_ok (st\<lparr>accounts := ak\<rparr>) \<longleftrightarrow> bank_ok st"
  "worth base (st\<lparr>accounts := ak\<rparr>) d = worth base st d"
  "supply_of (st\<lparr>accounts := ak\<rparr>) d = supply_of st d"
  "bal (st\<lparr>accounts := ak\<rparr>) a d = bal st a d"
  "GetWeiBalance (st\<lparr>accounts := ak\<rparr>) a = GetWeiBalance st a"
  by (simp_all add: bank_ok_def wei_ok_def supply_ok_def worth_def wei_total_def ab.held_total_def db.held_total_def
      supply_of_def GetSupply_def ab.held_def GetWeiBalance_def)

lemma shifts_accounts: "bank_ok st \<Longrightarrow> shifts base st (\<lambda>_. 0) (\<lambda>_. 0) (st\<lparr>accounts := ak\<rparr>)"
  by (simp add: shifts_def)

lemma create_account_shifts: "bank_ok st \<Longrightarrow> shifts base st (\<lambda>_. 0) (\<lambda>_. 0) (create_account a st)"
  by (simp add: create_account_def shifts_def split: prod.splits)

lemma create_account_views [simp]:
  "bal (create_account a st) = bal st" "GetWeiBalance (create_account a st) = GetWeiBalance st"
  by (auto simp: create_account_def ab.held_def fun_eq_iff GetWeiBalance_def split: prod.splits)

subsection \<open>Wei\<close>

lemma GetWeiBalance_bounds:
  assumes "wei_ok st"
  shows "0 \<le> GetWeiBalance st a" and "GetWeiBalance st a < OneUseiInWei"
proof -
  have "0 < w \<and> w < OneUseiInWei" if "gm_load (weiBalances st) a = Some w" for w
    using assms map_of_SomeD [OF that] by (auto simp: wei_ok_def list_all_iff)
  then show "0 \<le> GetWeiBalance st a" "GetWeiBalance st a < OneUseiInWei"
    by (auto simp: GetWeiBalance_def split: option.splits)
qed

lemma setWeiBalance_views:
  "GetWeiBalance (setWeiBalance a w st) a' = (if a' = a then w else GetWeiBalance st a')"
  "bal (setWeiBalance a w st) a' d = bal st a' d"
  by (simp_all add: setWeiBalance_def GetWeiBalance_def gomap_simps ab.held_def)

lemma setWeiBalance_shifts:
  assumes "bank_ok st" and "0 \<le> w" and "w < OneUseiInWei"
  shows "shifts base st (\<lambda>d. if d = base then w - GetWeiBalance st a else 0) (\<lambda>_. 0) (setWeiBalance a w st)"
proof -
  let ?m = "weiBalances st"
  have dist: "distinct (gm_keys ?m)" and all: "list_all (\<lambda>(a, w). 0 < w \<and> w < OneUseiInWei) ?m"
    using assms(1) by (simp_all add: bank_ok_def wei_ok_def)
  have "gm_at (\<lambda>_ w. w) ?m a = GetWeiBalance st a"
    by (simp add: gm_at_def GetWeiBalance_def split: option.splits)
  then have "wei_total (setWeiBalance a w st) = wei_total st + (w - GetWeiBalance st a)"
    using dist by (simp add: wei_total_def setWeiBalance_def gm_sum_store gm_sum_delete)
  moreover have "wei_ok (setWeiBalance a w st)"
    using dist all assms(2,3) by (auto simp: wei_ok_def setWeiBalance_def gm_list_all)
  ultimately show ?thesis
    using assms(1)
    by (auto simp: shifts_def bank_ok_def worth_def supply_ok_def supply_of_def GetSupply_def setWeiBalance_def
        ab.held_total_def db.held_total_def)
qed

lemma Split_nonneg:
  assumes "0 \<le> x"
  shows "SplitUseiWeiAmount x = Inr (x div OneUseiInWei, x mod OneUseiInWei)"
  using assms by (simp add: SplitUseiWeiAmount_def Int_Quo_def Int_Mod_def signed_divide_int_def sgn_if OneUseiInWei_def)

text \<open>The base denomination of one account changes by \<open>x\<close> wei, and nothing else does.\<close>

definition base_moves :: "string \<Rightarrow> bank \<Rightarrow> addr \<Rightarrow> int \<Rightarrow> bank \<Rightarrow> bool" where
  "base_moves base st addr x st' \<longleftrightarrow>
     shifts base st (\<lambda>d. if d = base then x else 0) (\<lambda>_. 0) st' \<and>
     (\<forall>a. aggregated base st' a = aggregated base st a + (if a = addr then x else 0)) \<and>
     (\<forall>a d. d \<noteq> base \<longrightarrow> bal st' a d = bal st a d)"

lemma base_moves_refl: "bank_ok st \<Longrightarrow> base_moves base st addr 0 st"
  by (simp add: base_moves_def shifts_def)

lemma base_moves_bank_ok: "base_moves base st addr x st' \<Longrightarrow> bank_ok st'"
  by (simp add: base_moves_def shifts_def)

lemma set_wei_moves:
  assumes "bank_ok st" and "0 \<le> w" and "w < OneUseiInWei"
  shows "base_moves base st addr (w - GetWeiBalance st addr) (setWeiBalance addr w st)"
  using setWeiBalance_shifts [OF assms] by (simp add: base_moves_def aggregated_def setWeiBalance_views)

lemma set_aggregated:
  assumes "bank_ok st" and "reDnm_match base" and "0 \<le> u" and "int_in_range u" and "0 \<le> w" and "w < OneUseiInWei"
  shows "\<exists>st1. setBalance addr \<lparr>Denom = base, Amount = u\<rparr> True st = Inr st1 \<and>
    base_moves base st addr (u * OneUseiInWei + w - aggregated base st addr) (setWeiBalance addr w st1)"
proof -
  let ?g = "\<lambda>e. if e = base then u - bal st addr base else 0"
  have "balances_ok st" using assms(1) by (simp add: bank_ok_def)
  from ab.setB_ok [OF this assms(2-4)] obtain st1 where
    st1: "setBalance addr \<lparr>Denom = base, Amount = u\<rparr> True st = Inr st1" "ab.changes st addr ?g st1" by blast
  have wei: "GetWeiBalance st1 = GetWeiBalance st"
    using changes_frame(1) [OF st1(2)] by (simp add: GetWeiBalance_def fun_eq_iff)
  note usei = ab_shifts [OF assms(1) st1(2), of base]
  then have "bank_ok st1" by (simp add: shifts_def)
  from shifts_trans [OF usei setWeiBalance_shifts [OF this assms(5,6), of base addr]]
  have "shifts base st (\<lambda>d. if d = base then u * OneUseiInWei + w - aggregated base st addr else 0) (\<lambda>_. 0)
      (setWeiBalance addr w st1)"
    by (rule shifts_cong) (simp_all add: wei aggregated_def left_diff_distrib)
  moreover have "aggregated base (setWeiBalance addr w st1) a =
      aggregated base st a + (if a = addr then u * OneUseiInWei + w - aggregated base st addr else 0)" for a
    using st1(2) wei by (simp add: aggregated_def setWeiBalance_views ab.changes_def)
  moreover have "bal (setWeiBalance addr w st1) a d = bal st a d" if "d \<noteq> base" for a d
    using st1(2) that by (simp add: setWeiBalance_views ab.changes_def)
  ultimately show ?thesis using st1(1) by (auto simp: base_moves_def)
qed

lemma aggregated_nonneg:
  assumes "bank_ok st"
  shows "0 \<le> aggregated base st a"
proof -
  have "0 \<le> bal st a base" "0 \<le> GetWeiBalance st a"
    using assms by (simp_all add: bank_ok_def ab.held_nonneg GetWeiBalance_bounds)
  then show ?thesis by (simp add: aggregated_def less_imp_le)
qed

lemma div_in_range:
  assumes "0 \<le> x" and "int_in_range x"
  shows "int_in_range (x div OneUseiInWei)"
proof (rule int_in_range_mono [OF _ assms(2)])
  have "x div OneUseiInWei \<le> x div 1" using assms(1) by (intro zdiv_mono2) (simp_all add: OneUseiInWei_def)
  moreover have "0 \<le> x div OneUseiInWei" using assms(1) by (simp add: pos_imp_zdiv_nonneg_iff)
  ultimately show "\<bar>x div OneUseiInWei\<bar> \<le> \<bar>x\<bar>" using assms(1) by simp
qed

lemma OneUseiInWei_in_range: "int_in_range OneUseiInWei"
  by (simp add: int_in_range_iff OneUseiInWei_def)

text \<open>\<open>SubWei\<close> takes the wei from the wei balance, or from both balances together; it fails exactly
  when the account does not have them. Locked coins do not matter.\<close>

lemma aggregated_parts:
  assumes "bank_ok st"
  shows "0 \<le> GetWeiBalance st a" and "GetWeiBalance st a < OneUseiInWei" and "0 \<le> bal st a base"
    and "int_in_range (bal st a base)" and "0 \<le> bal st a base * OneUseiInWei" and "balances_ok st"
  using assms by (simp_all add: bank_ok_def GetWeiBalance_bounds ab.held_nonneg ab.held_in_range less_imp_le)

lemma SubWei_small:
  assumes "bank_ok st" and "0 \<le> x" and "x = 0 \<or> x \<le> GetWeiBalance st addr"
  shows "\<exists>st'. SubWei env addr x st = Inr st' \<and> x \<le> aggregated base st addr \<and> base_moves base st addr (- x) st'"
proof (cases "x = 0")
  case True
  then show ?thesis
    using base_moves_refl [OF assms(1), of base addr] aggregated_nonneg [OF assms(1)] by (simp add: SubWei_def)
next
  case False
  let ?w = "GetWeiBalance st addr"
  have le: "x \<le> ?w" using False assms(3) by simp
  have "int_in_range (?w - x)"
    using le assms(2) aggregated_parts(1,2) [OF assms(1), of addr]
    by (intro int_in_range_mono [OF _ OneUseiInWei_in_range]) simp
  moreover have "base_moves base st addr (- x) (setWeiBalance addr (?w - x) st)"
    using set_wei_moves [OF assms(1), of "?w - x" base addr] le False assms(2) aggregated_parts(2) [OF assms(1), of addr] by simp
  moreover have "x \<le> aggregated base st addr"
    using le aggregated_parts(5) [OF assms(1), of addr base] by (simp add: aggregated_def)
  ultimately show ?thesis using False le by (simp add: SubWei_def Let_def Int_Sub_iff)
qed

lemma NewCoin_nonneg: "reDnm_match d \<Longrightarrow> 0 \<le> a \<Longrightarrow> NewCoin d a = Inr \<lparr>Denom = d, Amount = a\<rparr>"
  by (simp add: NewCoin_def Coin_Validate_def ValidateDenom_def not_less)

lemma SubWei_spec:
  assumes "bank_ok st" and "MustGetBaseDenom env = Inr base" and "reDnm_match base"
    and "0 \<le> x" and "int_in_range x" and "int_in_range (aggregated base st addr)"
  shows "case SubWei env addr x st of
      Inl e \<Rightarrow> e = ErrInsufficientFunds \<and> aggregated base st addr < x
    | Inr st' \<Rightarrow> x \<le> aggregated base st addr \<and> base_moves base st addr (- x) st'"
proof (cases "x = 0 \<or> x \<le> GetWeiBalance st addr")
  case True
  from SubWei_small [OF assms(1,4) True, of env base] show ?thesis by auto
next
  case False
  let ?w = "GetWeiBalance st addr" and ?u = "bal st addr base" and ?a = "aggregated base st addr"
  note parts = aggregated_parts(1,2) [OF assms(1), of addr] aggregated_parts(3-5) [OF assms(1), of addr base]
    aggregated_parts(6) [OF assms(1)]
  have a: "?a = ?u * OneUseiInWei + ?w" "0 \<le> ?a" by (simp add: aggregated_def, rule aggregated_nonneg [OF assms(1)])
  have get: "GetBalance st addr base = Inr \<lparr>Denom = base, Amount = ?u\<rparr>" by (rule ab.getB_ok [OF parts(6) assms(3)])
  have "int_in_range (?u * OneUseiInWei)"
    using a parts by (intro int_in_range_mono [OF _ assms(6)]) simp
  then have mul: "Int_Mul ?u OneUseiInWei = Inr (?u * OneUseiInWei)"
    using Int_Mul_iff [OF parts(4) OneUseiInWei_in_range] by simp
  have add: "Int_Add (?u * OneUseiInWei) ?w = Inr ?a" using assms(6) a(1) by (simp add: Int_Add_iff)
  have r: "int_in_range (?a - x)" by (rule in_range_diff [OF assms(6,5) a(2) assms(4)])
  then have sub: "Int_Sub ?a x = Inr (?a - x)" by (simp add: Int_Sub_iff)
  note step = False assms(2) get mul add sub
  show ?thesis
  proof (cases "?a < x")
    case True
    with step show ?thesis by (simp add: SubWei_def Let_def)
  next
    case enough: False
    let ?p = "?a - x"
    have p: "0 \<le> ?p" "0 \<le> ?p div OneUseiInWei" using enough by (simp_all add: pos_imp_zdiv_nonneg_iff)
    obtain st1 where st1: "setBalance addr \<lparr>Denom = base, Amount = ?p div OneUseiInWei\<rparr> True st = Inr st1"
        "base_moves base st addr (?p div OneUseiInWei * OneUseiInWei + ?p mod OneUseiInWei - ?a)
           (setWeiBalance addr (?p mod OneUseiInWei) st1)"
      using set_aggregated [OF assms(1,3) p(2) div_in_range [OF p(1) r], of "?p mod OneUseiInWei" addr] by auto
    have "base_moves base st addr (- x) (setWeiBalance addr (?p mod OneUseiInWei) st1)" using st1(2) by simp
    moreover have "SubWei env addr x st = Inr (setWeiBalance addr (?p mod OneUseiInWei) st1)"
      using step enough p Split_nonneg [OF p(1)] NewCoin_nonneg [OF assms(3) p(2)] st1(1) by (simp add: SubWei_def Let_def)
    ultimately show ?thesis using enough by simp
  qed
qed

lemma Int_Mul_Inr: "Int_Mul a b = Inr c \<Longrightarrow> c = a * b"
  by (auto simp: Int_Mul_def Let_def split: if_splits)

lemma SubWei_moves:
  assumes "bank_ok st" and "MustGetBaseDenom env = Inr base" and "reDnm_match base" and "0 \<le> x"
    and "SubWei env addr x st = Inr st'"
  shows "base_moves base st addr (- x) st'"
proof (cases "x = 0 \<or> x \<le> GetWeiBalance st addr")
  case True
  with SubWei_small [OF assms(1,4) True, of env base] assms(5) show ?thesis by auto
next
  case False
  let ?a = "aggregated base st addr"
  have get: "GetBalance st addr base = Inr \<lparr>Denom = base, Amount = bal st addr base\<rparr>"
    using ab.getB_ok [OF aggregated_parts(6) [OF assms(1)] assms(3)] by simp
  have r: "int_in_range ?a" "int_in_range (?a - x)" "x \<le> ?a"
    using assms(5) False assms(2) get
    by (auto simp: SubWei_def Let_def sum_bind_Inr_iff Int_Add_iff Int_Sub_iff aggregated_def dest!: Int_Mul_Inr split: if_splits)
  then have "int_in_range x" using assms(4) by (intro int_in_range_mono [OF _ r(1)]) simp
  from SubWei_spec [OF assms(1-4) this r(1)] assms(5) show ?thesis by simp
qed

lemma AddWei_moves:
  assumes "bank_ok st" and "MustGetBaseDenom env = Inr base" and "reDnm_match base" and "0 \<le> x"
    and "AddWei env addr x st = Inr st'"
  shows "base_moves base st addr x st'"
proof -
  let ?w = "GetWeiBalance st addr" and ?u = "bal st addr base"
  let ?p = "?w + x"
  note parts = aggregated_parts(1,2) [OF assms(1), of addr] aggregated_parts(3-5) [OF assms(1), of addr base]
    aggregated_parts(6) [OF assms(1)]
  have get: "GetBalance st addr base = Inr \<lparr>Denom = base, Amount = ?u\<rparr>" by (rule ab.getB_ok [OF parts(6) assms(3)])
  have p: "0 \<le> ?p" "0 \<le> ?u + ?p div OneUseiInWei"
    using parts assms(4) by (simp_all add: pos_imp_zdiv_nonneg_iff)
  consider "x = 0" | "x \<noteq> 0" "?p < OneUseiInWei" | "x \<noteq> 0" "\<not> ?p < OneUseiInWei" by blast
  then show ?thesis
  proof cases
    case 1
    with assms(5) base_moves_refl [OF assms(1), of base addr] show ?thesis by (simp add: AddWei_def split: if_splits)
  next
    case 2
    then have "st' = setWeiBalance addr ?p st"
      using assms(5) by (auto simp: AddWei_def Let_def sum_bind_Inr_iff Int_Add_iff split: if_splits)
    with set_wei_moves [OF assms(1) p(1) 2(2), of base addr] show ?thesis by simp
  next
    case 3
    let ?n = "\<lparr>Denom = base, Amount = ?u + ?p div OneUseiInWei\<rparr>"
    have r: "int_in_range (?u + ?p div OneUseiInWei)"
      and st': "sum_bind (setBalance addr ?n True st) (\<lambda>s. Inr (setWeiBalance addr (?p mod OneUseiInWei) s)) = Inr st'"
      using assms(5) 3 assms(2) get p Split_nonneg [OF p(1)] NewCoin_nonneg [OF assms(3) p(2)]
      by (auto simp: AddWei_def Let_def sum_bind_Inr_iff Int_Add_iff split: if_splits)
    obtain st1 where st1: "setBalance addr ?n True st = Inr st1"
        "base_moves base st addr ((?u + ?p div OneUseiInWei) * OneUseiInWei + ?p mod OneUseiInWei - aggregated base st addr)
           (setWeiBalance addr (?p mod OneUseiInWei) st1)"
      using set_aggregated [OF assms(1,3) p(2) r, of "?p mod OneUseiInWei" addr] by auto
    have "(?u + ?p div OneUseiInWei) * OneUseiInWei + ?p mod OneUseiInWei - aggregated base st addr = x"
      using div_mult_mod_eq [of ?p OneUseiInWei] by (simp add: aggregated_def distrib_right)
    with st1 st' show ?thesis by simp
  qed
qed

lemma AddWei_succeeds:
  assumes "bank_ok st" and "MustGetBaseDenom env = Inr base" and "reDnm_match base" and "CanSendTo env addr"
    and "0 \<le> x" and "int_in_range (aggregated base st addr + x)"
  shows "\<exists>st'. AddWei env addr x st = Inr st'"
proof -
  let ?w = "GetWeiBalance st addr" and ?u = "bal st addr base"
  let ?p = "?w + x" and ?n = "aggregated base st addr + x"
  note parts = aggregated_parts(1,2) [OF assms(1), of addr] aggregated_parts(3-5) [OF assms(1), of addr base]
    aggregated_parts(6) [OF assms(1)]
  have get: "GetBalance st addr base = Inr \<lparr>Denom = base, Amount = ?u\<rparr>" by (rule ab.getB_ok [OF parts(6) assms(3)])
  have p: "0 \<le> ?p" "0 \<le> ?u + ?p div OneUseiInWei"
    using parts assms(5) by (simp_all add: pos_imp_zdiv_nonneg_iff)
  have n: "?n = ?u * OneUseiInWei + ?p" by (simp add: aggregated_def)
  have "?n div OneUseiInWei = ?u + ?p div OneUseiInWei"
    unfolding n by (rule div_mult_self3 [OF OneUseiInWei_pos(2)])
  moreover have le: "?p \<le> ?n" "0 \<le> ?n" using n parts(5) p(1) by linarith+
  ultimately have r: "int_in_range (?u + ?p div OneUseiInWei)" using div_in_range [OF _ assms(6)] by simp
  moreover have "int_in_range ?p" using le p(1) by (intro int_in_range_mono [OF _ assms(6)]) simp
  moreover obtain st1 where "setBalance addr \<lparr>Denom = base, Amount = ?u + ?p div OneUseiInWei\<rparr> True st = Inr st1"
    using set_aggregated [OF assms(1,3) p(2) r, of 0 addr] by auto
  ultimately show ?thesis
    using assms(2,4) get Split_nonneg [OF p(1)] NewCoin_nonneg [OF assms(3) p(2)]
    by (simp add: AddWei_def Let_def Int_Add_iff)
qed

subsection \<open>Transfers\<close>

text \<open>Coins move from one account to another, which may be the same.\<close>

definition moved :: "bank \<Rightarrow> addr \<Rightarrow> addr \<Rightarrow> (string \<Rightarrow> int) \<Rightarrow> bank \<Rightarrow> bool" where
  "moved st from to g st' \<longleftrightarrow>
     (\<forall>a d. bal st' a d = bal st a d - (if a = from then g d else 0) + (if a = to then g d else 0)) \<and>
     GetWeiBalance st' = GetWeiBalance st"

abbreviation neutral :: "string \<Rightarrow> bank \<Rightarrow> bank \<Rightarrow> bool" where
  "neutral base st st' \<equiv> shifts base st (\<lambda>_. 0) (\<lambda>_. 0) st'"

lemma neutral_refl: "bank_ok st \<Longrightarrow> neutral base st st"
  by (simp add: shifts_def)

lemma neutral_trans: "neutral base st st1 \<Longrightarrow> neutral base st1 st2 \<Longrightarrow> neutral base st st2"
  by (simp add: shifts_def)

lemma neutral_bank_ok: "neutral base st st' \<Longrightarrow> bank_ok st'"
  by (simp add: shifts_def)

lemma AddCoins_shifts:
  assumes "bank_ok st" and "AddCoins env a amount True st = Inr st'"
  shows "shifts base st (\<lambda>d. amt amount d * OneUseiInWei) (\<lambda>_. 0) st'"
  using ab_shifts [OF assms(1) AddCoins_changes(1) [OF _ assms(2)]] assms(1) by (simp add: bank_ok_def)

lemma SubUnlockedCoins_shifts:
  assumes "bank_ok st" and "SubUnlockedCoins env a amount True st = Inr st'"
  shows "shifts base st (\<lambda>d. - amt amount d * OneUseiInWei) (\<lambda>_. 0) st'"
  using ab_shifts [OF assms(1) SubUnlockedCoins_changes(1) [OF _ assms(2)]] assms(1) by (simp add: bank_ok_def)

lemma send_neutral:
  assumes "bank_ok st" and "SendCoinsWithoutAccCreation env from to amount st = Inr st'"
  shows "neutral base st st'" and "moved st from to (amt amount) st'" and "accounts st' = accounts st"
proof -
  obtain st1 where st1: "SubUnlockedCoins env from amount True st = Inr st1" "AddCoins env to amount True st1 = Inr st'"
    using assms(2) by (auto simp: SendCoinsWithoutAccCreation_def sendCoinsWithoutAccCreation_def sum_bind_Inr_iff)
  have s1: "shifts base st (\<lambda>d. - amt amount d * OneUseiInWei) (\<lambda>_. 0) st1"
    by (rule SubUnlockedCoins_shifts [OF assms(1) st1(1)])
  then have ok1: "bank_ok st1" by (simp add: shifts_def)
  from shifts_trans [OF s1 AddCoins_shifts [OF ok1 st1(2)]] show "neutral base st st'" by simp
  have c1: "ab.changes st from (\<lambda>d. - amt amount d) st1"
    using SubUnlockedCoins_changes(1) [OF _ st1(1)] assms(1) by (simp add: bank_ok_def)
  have c2: "ab.changes st1 to (amt amount) st'" using AddCoins_changes(1) [OF _ st1(2)] ok1 by (simp add: bank_ok_def)
  show "accounts st' = accounts st" using changes_frame(6) [OF c1] changes_frame(6) [OF c2] by simp
  have "GetWeiBalance st' = GetWeiBalance st"
    using changes_frame(1) [OF c1] changes_frame(1) [OF c2] by (simp add: GetWeiBalance_def fun_eq_iff)
  then show "moved st from to (amt amount) st'" using c1 c2 by (simp add: moved_def ab.changes_def)
qed

lemma SendCoins_neutral:
  assumes "bank_ok st" and "SendCoins env from to amount st = Inr st'"
  shows "neutral base st st'" and "moved st from to (amt amount) st'"
proof -
  obtain st1 where st1: "SendCoinsWithoutAccCreation env from to amount st = Inr st1" "st' = create_account to st1"
    using assms(2) by (auto simp: SendCoins_def sum_bind_Inr_iff)
  note n = send_neutral(1,2) [OF assms(1) st1(1)]
  show "neutral base st st'"
    using neutral_trans [OF n(1) create_account_shifts] neutral_bank_ok [OF n(1)] st1(2) by blast
  show "moved st from to (amt amount) st'" using n(2) st1(2) by (simp add: moved_def)
qed

lemma SendCoinsAndWei_effect:
  assumes "bank_ok st" and "MustGetBaseDenom env = Inr base" and "reDnm_match base" and "0 \<le> amount" and "0 \<le> wei"
    and "SendCoinsAndWei env from to amount wei st = Inr st'"
  shows "neutral base st st'"
    and "aggregated base st' a = aggregated base st a
      - (if a = from then amount * OneUseiInWei + wei else 0) + (if a = to then amount * OneUseiInWei + wei else 0)"
    and "d \<noteq> base \<Longrightarrow> bal st' a d = bal st a d"
proof -
  obtain st1 st2 where s: "SubWei env from wei st = Inr st1" "AddWei env to wei st1 = Inr st2"
    using assms(6) by (auto simp: SendCoinsAndWei_def sum_bind_Inr_iff)
  have m1: "base_moves base st from (- wei) st1" by (rule SubWei_moves [OF assms(1-3,5) s(1)])
  have m2: "base_moves base st1 to wei st2" by (rule AddWei_moves [OF base_moves_bank_ok [OF m1] assms(2,3,5) s(2)])
  have n2: "neutral base st st2" using m1 m2 by (auto simp: base_moves_def shifts_def)
  have "neutral base st2 st' \<and> moved st2 from to (\<lambda>d. if d = base then amount else 0) st'"
  proof (cases "amount > 0")
    case True
    let ?c = "[\<lparr>Denom = base, Amount = amount\<rparr>]"
    have "NewCoins ?c = Inr ?c" using True assms(3) by (intro NewCoins_valid) simp
    then have send: "SendCoinsWithoutAccCreation env from to ?c st2 = Inr st'"
      using assms(6) s True assms(2) NewCoin_nonneg [OF assms(3,4)] by (simp add: SendCoinsAndWei_def)
    have "(\<lambda>d. if d = base then amount else 0) = amt ?c" by auto
    with send_neutral(1,2) [OF neutral_bank_ok [OF n2] send] show ?thesis by simp
  next
    case False
    with assms(4,6) s neutral_refl [OF neutral_bank_ok [OF n2]] show ?thesis by (simp add: SendCoinsAndWei_def moved_def)
  qed
  note last = conjunct1 [OF this] conjunct2 [OF this]
  have usei: "aggregated base st' a = aggregated base st2 a
      - (if a = from then amount * OneUseiInWei else 0) + (if a = to then amount * OneUseiInWei else 0)"
    using last(2) by (simp add: moved_def aggregated_def left_diff_distrib distrib_right)
  show "neutral base st st'" by (rule neutral_trans [OF n2 last(1)])
  show "aggregated base st' a = aggregated base st a
      - (if a = from then amount * OneUseiInWei + wei else 0) + (if a = to then amount * OneUseiInWei + wei else 0)"
    using m1 m2 usei by (simp add: base_moves_def)
  show "bal st' a d = bal st a d" if "d \<noteq> base" using m1 m2 last(2) that by (simp add: base_moves_def moved_def)
qed

end
