(* ===== verification/BankFlows.thy ===== *)
theory BankFlows
  imports BankOps
begin

text \<open>
  The remaining operations of the bank module: multi-party transfers, minting and burning, transfers of
  module accounts, delegation and deferred deposits, each with the change of worth and supply it makes.
\<close>

subsection \<open>Multi-party transfers\<close>

lemma Coins_Add_effect:
  assumes "Coins_IsValid a" and "Coins_IsValid b" and "Coins_Add a b = Inr s"
  shows "Coins_IsValid s" and "amt s d = amt a d + amt b d"
proof -
  have sorted: "sorted_wrt (<) (denoms a)" "sorted_wrt (<) (denoms b)" using assms(1,2) by (simp_all add: Coins_IsValid_iff)
  then have "safe_add_loop Coin_Add [] a b = Inr s"
    using assms(3) by (simp add: Coins_Add_def safeAdd_def nf_isSorted)
  with ic.safe_add_loop_sum [OF sorted, of "[]"] have s: "ic.is_sum a b s" by (auto split: if_splits)
  then show sum: "amt s d = amt a d + amt b d" for d by (simp add: ic.is_sum_def)
  show "Coins_IsValid s"
  proof (rule nf_validI)
    show "coins_nf s" using s by (simp add: ic.is_sum_def)
    show "0 \<le> amt s d" for d using assms(1,2) by (simp add: sum valid_amt_nonneg)
    show "reDnm_match (Denom c)" if "c \<in> set s" for c
      using subset_denoms_match [OF assms(1,2) _ that] s by (simp add: ic.is_sum_def)
  qed
qed

definition parties_amt :: "party list \<Rightarrow> string \<Rightarrow> int" where
  "parties_amt ps d = (\<Sum>p\<leftarrow>ps. amt (pCoins p) d)"

lemma parties_amt_simps [simp]:
  "parties_amt [] d = 0" "parties_amt (p # ps) d = amt (pCoins p) d + parties_amt ps d"
  by (simp_all add: parties_amt_def)

lemma sum_parties:
  assumes "Coins_IsValid acc" and "each (sum_party env) ps acc = Inr s"
  shows "Coins_IsValid s \<and> (\<forall>d. amt s d = amt acc d + parties_amt ps d)"
  using assms
proof (induction ps arbitrary: acc)
  case (Cons p ps)
  then obtain acc1 where acc1: "sum_party env p acc = Inr acc1" "each (sum_party env) ps acc1 = Inr s"
    by (auto simp: sum_bind_Inr_iff)
  from acc1(1) have add: "Coins_IsValid (pCoins p)" "Coins_Add acc (pCoins p) = Inr acc1"
    by (auto simp: sum_bind_Inr_iff sum_party_def party_ValidateBasic_def split: if_splits)
  from Cons.IH [OF Coins_Add_effect(1) [OF Cons.prems(1) add] acc1(2)] Coins_Add_effect(2) [OF Cons.prems(1) add]
  show ?case by simp
qed simp

lemma ValidateInputsOutputs_amt:
  assumes "ValidateInputsOutputs env inputs outputs = Inr u"
  shows "parties_amt inputs d = parties_amt outputs d"
proof -
  obtain i out where s: "each (sum_party env) inputs [] = Inr i" "each (sum_party env) outputs [] = Inr out"
      "Coins_IsEqual i out = Inr True"
    using assms by (auto simp: ValidateInputsOutputs_def sum_bind_Inr_iff require_def split: if_splits)
  then have "Coins_IsValid i" "Coins_IsValid out" "\<And>d. amt i d = parties_amt inputs d" "\<And>d. amt out d = parties_amt outputs d"
    using sum_parties [of "[]" env] by auto
  with s(3) show ?thesis using IsEqual_valid by metis
qed

lemma inputs_shift:
  assumes "bank_ok st" and "each (input_step env) ps st = Inr st'"
  shows "shifts base st (\<lambda>d. - parties_amt ps d * OneUseiInWei) (\<lambda>_. 0) st'"
  using assms
proof (induction ps arbitrary: st)
  case Nil
  then show ?case by (simp add: shifts_def)
next
  case (Cons p ps)
  then obtain st1 where st1: "input_step env p st = Inr st1" "each (input_step env) ps st1 = Inr st'"
    by (auto simp: sum_bind_Inr_iff)
  from st1(1) obtain a where "SubUnlockedCoins env a (pCoins p) True st = Inr st1"
    by (auto simp: sum_bind_Inr_iff input_step_def)
  note one = SubUnlockedCoins_shifts [OF Cons.prems(1) this, of base]
  then have "bank_ok st1" by (simp add: shifts_def)
  from shifts_trans [OF one Cons.IH [OF this st1(2)]] show ?case by (rule shifts_cong) (simp_all add: left_diff_distrib)
qed

lemma outputs_shift:
  assumes "bank_ok st" and "each (output_step env) ps st = Inr st'"
  shows "shifts base st (\<lambda>d. parties_amt ps d * OneUseiInWei) (\<lambda>_. 0) st'"
  using assms
proof (induction ps arbitrary: st)
  case Nil
  then show ?case by (simp add: shifts_def)
next
  case (Cons p ps)
  then obtain st2 where st2: "output_step env p st = Inr st2" "each (output_step env) ps st2 = Inr st'"
    by (auto simp: sum_bind_Inr_iff)
  from st2(1) obtain a st1 where st1: "AddCoins env a (pCoins p) True st = Inr st1" "st2 = create_account a st1"
    by (auto simp: sum_bind_Inr_iff output_step_def)
  note one = AddCoins_shifts [OF Cons.prems(1) st1(1), of base]
  then have "bank_ok st1" by (simp add: shifts_def)
  note two = shifts_trans [OF one create_account_shifts [OF this, of base a], folded st1(2)]
  then have "bank_ok st2" by (simp add: shifts_def)
  from shifts_trans [OF two Cons.IH [OF this st2(2)]] show ?case by (rule shifts_cong) (simp_all add: distrib_right)
qed

lemma InputOutputCoins_neutral:
  assumes "bank_ok st" and "InputOutputCoins env inputs outputs st = Inr st'"
  shows "neutral base st st'"
proof -
  obtain u st1 where st1: "ValidateInputsOutputs env inputs outputs = Inr u" "each (input_step env) inputs st = Inr st1"
      "each (output_step env) outputs st1 = Inr st'"
    using assms(2) by (auto simp: InputOutputCoins_def sum_bind_Inr_iff)
  note one = inputs_shift [OF assms(1) st1(2), of base]
  then have "bank_ok st1" by (simp add: shifts_def)
  from shifts_trans [OF one outputs_shift [OF this st1(3)]] show ?thesis
    by (rule shifts_cong) (simp_all add: ValidateInputsOutputs_amt [OF st1(1)])
qed

subsection \<open>Supply\<close>

lemma SetSupply_shifts:
  assumes "bank_ok st" and "reDnm_match d" and "0 \<le> a" and "int_in_range a"
  shows "shifts base st (\<lambda>_. 0) (\<lambda>e. if e = d then a - supply_of st d else 0) (SetSupply \<lparr>Denom = d, Amount = a\<rparr> st)"
proof -
  have "supply_ok (SetSupply \<lparr>Denom = d, Amount = a\<rparr> st)"
    using assms by (auto simp: bank_ok_def supply_ok_def SetSupply_def gm_list_all)
  moreover have "supply_of (SetSupply \<lparr>Denom = d, Amount = a\<rparr> st) e = supply_of st e + (if e = d then a - supply_of st d else 0)" for e
    by (auto simp: supply_of_def GetSupply_def SetSupply_def gomap_simps)
  ultimately show ?thesis
    using assms(1)
    by (auto simp: shifts_def bank_ok_def wei_ok_def worth_def wei_total_def SetSupply_def ab.held_total_def db.held_total_def)
qed

lemma supply_of_nonneg: "bank_ok st \<Longrightarrow> 0 \<le> supply_of st d"
  by (auto simp: supply_of_def GetSupply_def bank_ok_def supply_ok_def list_all_iff dest!: map_of_SomeD split: option.splits)

lemma add_supply_shifts:
  assumes "bank_ok st" and "reDnm_match (Denom c)" and "0 \<le> Amount c" and "add_supply c st = Inr st'"
  shows "shifts base st (\<lambda>_. 0) (\<lambda>e. if e = Denom c then Amount c else 0) st'"
proof -
  have g: "GetSupply st (Denom c) = \<lparr>Denom = Denom c, Amount = supply_of st (Denom c)\<rparr>" by (simp add: GetSupply_def supply_of_def)
  have r: "int_in_range (supply_of st (Denom c) + Amount c)"
    and st': "st' = SetSupply \<lparr>Denom = Denom c, Amount = supply_of st (Denom c) + Amount c\<rparr> st"
    using assms(4) by (auto simp: add_supply_def g sum_bind_Inr_iff Coin_Add_def Int_Add_iff split: if_splits)
  have "0 \<le> supply_of st (Denom c) + Amount c" using supply_of_nonneg [OF assms(1)] assms(3) by simp
  from SetSupply_shifts [OF assms(1,2) this r, of base] show ?thesis unfolding st' by (rule shifts_cong) simp_all
qed

lemma sub_supply_shifts:
  assumes "bank_ok st" and "reDnm_match (Denom c)" and "sub_supply c st = Inr st'"
  shows "shifts base st (\<lambda>_. 0) (\<lambda>e. if e = Denom c then - Amount c else 0) st'"
proof -
  have g: "GetSupply st (Denom c) = \<lparr>Denom = Denom c, Amount = supply_of st (Denom c)\<rparr>" by (simp add: GetSupply_def supply_of_def)
  have r: "int_in_range (supply_of st (Denom c) - Amount c)" "0 \<le> supply_of st (Denom c) - Amount c"
    and st': "st' = SetSupply \<lparr>Denom = Denom c, Amount = supply_of st (Denom c) - Amount c\<rparr> st"
    using assms(3) by (auto simp: sub_supply_def g sum_bind_Inr_iff Coin_Sub_def Int_Sub_iff split: if_splits)
  from SetSupply_shifts [OF assms(1,2) r(2,1), of base] show ?thesis unfolding st' by (rule shifts_cong) simp_all
qed

text \<open>A loop over a valid set of coins that shifts the supply coin by coin.\<close>

lemma each_supply_shifts:
  assumes "\<And>c st st'. bank_ok st \<Longrightarrow> reDnm_match (Denom c) \<Longrightarrow> 0 < Amount c \<Longrightarrow> f c st = Inr st' \<Longrightarrow>
      shifts base st (\<lambda>_. 0) (\<lambda>e. if e = Denom c then k * Amount c else 0) st'"
    and "bank_ok st" and "Coins_IsValid cs" and "each f cs st = Inr st'"
  shows "shifts base st (\<lambda>_. 0) (\<lambda>d. k * amt cs d) st'"
  using assms(2-4)
proof (induction cs arbitrary: st)
  case Nil
  then show ?case by (simp add: shifts_def)
next
  case (Cons c cs)
  then obtain st1 where st1: "f c st = Inr st1" "each f cs st1 = Inr st'" by (auto simp: sum_bind_Inr_iff)
  have zero: "amt cs (Denom c) = 0" using Cons.prems(2) by (intro amt_above) simp
  have one: "shifts base st (\<lambda>_. 0) (\<lambda>e. if e = Denom c then k * Amount c else 0) st1"
    using assms(1) [OF Cons.prems(1) _ _ st1(1)] Cons.prems(2) by simp
  then have "bank_ok st1" by (simp add: shifts_def)
  with Cons.IH [OF this] Cons.prems(2) st1(2) have "shifts base st1 (\<lambda>_. 0) (\<lambda>d. k * amt cs d) st'" by simp
  from shifts_trans [OF one this] show ?case by (rule shifts_cong) (use zero in auto)
qed

lemma add_supplies_shifts:
  "bank_ok st \<Longrightarrow> Coins_IsValid cs \<Longrightarrow> each add_supply cs st = Inr st' \<Longrightarrow> shifts base st (\<lambda>_. 0) (amt cs) st'"
  by (rule shifts_cong [OF each_supply_shifts [where f = add_supply and k = 1]])
    (auto intro: shifts_cong [OF add_supply_shifts])

lemma sub_supplies_shifts:
  "bank_ok st \<Longrightarrow> Coins_IsValid cs \<Longrightarrow> each sub_supply cs st = Inr st' \<Longrightarrow> shifts base st (\<lambda>_. 0) (\<lambda>d. - amt cs d) st'"
  by (rule shifts_cong [OF each_supply_shifts [where f = sub_supply and k = "- 1"]])
    (auto intro: shifts_cong [OF sub_supply_shifts])

subsection \<open>Module accounts\<close>

lemma module_account_Inr:
  assumes "module_account env name st = Inr (acc, st')"
  shows "\<exists>ak. st' = st\<lparr>accounts := ak\<rparr>"
  using assms by (auto simp: module_account_def sum_bind_Inr_iff split: option.splits)

lemma module_account_neutral: "bank_ok st \<Longrightarrow> module_account env name st = Inr (acc, st') \<Longrightarrow> neutral base st st'"
  using module_account_Inr [of env name st acc st'] by (auto simp: shifts_accounts)

lemma MintCoins_shifts:
  assumes "bank_ok st" and "MintCoins env name amounts st = Inr st'"
  shows "shifts base st (\<lambda>d. amt amounts d * OneUseiInWei) (amt amounts) st'"
proof -
  obtain acc st1 acc' st2 st3 where s: "module_account env name st = Inr (acc, st1)" "module_account env name st1 = Inr (acc', st2)"
      "AddCoins env (acc_address acc') amounts True st2 = Inr st3" "each add_supply amounts st3 = Inr st'"
    using assms(2) by (auto simp: MintCoins_def createCoins_def sum_bind_Inr_iff split: if_splits)
  note n1 = module_account_neutral [OF assms(1) s(1), of base]
  note n2 = module_account_neutral [OF neutral_bank_ok [OF n1] s(2), of base]
  note n3 = AddCoins_shifts [OF neutral_bank_ok [OF n2] s(3), of base]
  have "balances_ok st2" using neutral_bank_ok [OF n2] by (simp add: bank_ok_def)
  then have valid: "Coins_IsValid amounts" by (rule AddCoins_changes(3) [OF _ s(3)])
  have "bank_ok st3" using n3 by (simp add: shifts_def)
  then have "shifts base st3 (\<lambda>_. 0) (amt amounts) st'" by (rule add_supplies_shifts [OF _ valid s(4)])
  from shifts_trans [OF shifts_trans [OF neutral_trans [OF n1 n2] n3] this] show ?thesis by simp
qed

lemma BurnCoins_shifts:
  assumes "bank_ok st" and "BurnCoins env name amounts st = Inr st'"
  shows "shifts base st (\<lambda>d. - amt amounts d * OneUseiInWei) (\<lambda>d. - amt amounts d) st'"
proof -
  obtain acc st1 acc' st2 st3 where s: "module_account env name st = Inr (acc, st1)" "module_account env name st1 = Inr (acc', st2)"
      "SubUnlockedCoins env (acc_address acc') amounts True st2 = Inr st3" "each sub_supply amounts st3 = Inr st'"
    using assms(2) by (auto simp: BurnCoins_def destroyCoins_def sum_bind_Inr_iff split: if_splits)
  note n1 = module_account_neutral [OF assms(1) s(1), of base]
  note n2 = module_account_neutral [OF neutral_bank_ok [OF n1] s(2), of base]
  note n3 = SubUnlockedCoins_shifts [OF neutral_bank_ok [OF n2] s(3), of base]
  have "balances_ok st2" using neutral_bank_ok [OF n2] by (simp add: bank_ok_def)
  then have valid: "Coins_IsValid amounts" by (rule SubUnlockedCoins_changes(2) [OF _ s(3)])
  have "bank_ok st3" using n3 by (simp add: shifts_def)
  then have "shifts base st3 (\<lambda>_. 0) (\<lambda>d. - amt amounts d) st'" by (rule sub_supplies_shifts [OF _ valid s(4)])
  from shifts_trans [OF shifts_trans [OF neutral_trans [OF n1 n2] n3] this] show ?thesis by simp
qed

lemma module_sends_neutral:
  assumes "bank_ok st"
  shows "SendCoinsFromModuleToAccount env m a amount st = Inr st' \<Longrightarrow> neutral base st st'"
    and "SendCoinsFromModuleToModule env m n amount st = Inr st' \<Longrightarrow> neutral base st st'"
    and "SendCoinsFromAccountToModule env a n amount st = Inr st' \<Longrightarrow> neutral base st st'"
proof -
  have step: "neutral base st st'" if "module_account env n st = Inr (acc, st1)" "SendCoins env a b amount st1 = Inr st'" for acc st1 a b
    using module_account_neutral [OF assms that(1), of base] SendCoins_neutral(1) [OF _ that(2), of base]
    by (blast intro: neutral_trans dest: neutral_bank_ok)
  show "SendCoinsFromModuleToAccount env m a amount st = Inr st' \<Longrightarrow> neutral base st st'"
    using SendCoins_neutral(1) [OF assms, of env _ a amount st' base]
    by (auto simp: SendCoinsFromModuleToAccount_def split: option.splits if_splits)
  show "SendCoinsFromModuleToModule env m n amount st = Inr st' \<Longrightarrow> neutral base st st'"
    using step module_account_neutral [OF assms, of env n _ _ base]
    by (auto simp: SendCoinsFromModuleToModule_def sum_bind_Inr_iff split: option.splits if_splits)
  show "SendCoinsFromAccountToModule env a n amount st = Inr st' \<Longrightarrow> neutral base st st'"
    using step by (auto simp: SendCoinsFromAccountToModule_def sum_bind_Inr_iff)
qed

subsection \<open>Delegation\<close>

lemma delegate_coin_changes:
  assumes "balances_ok st" and "reDnm_match (Denom c)" and "0 < Amount c" and "delegate_coin a c (bals, st) = Inr (bals', st')"
  shows "ab.changes st a (\<lambda>e. if e = Denom c then - Amount c else 0) st'"
    and "Coins_Add bals [\<lparr>Denom = Denom c, Amount = bal st a (Denom c)\<rparr>] = Inr bals'"
    and "Amount c \<le> bal st a (Denom c)"
proof -
  let ?d = "Denom c" and ?b = "bal st a (Denom c)"
  have "GetBalance st a ?d = Inr \<lparr>Denom = ?d, Amount = ?b\<rparr>" by (rule ab.getB_ok [OF assms(1,2)])
  with assms(4) obtain n where n: "Coin_Sub \<lparr>Denom = ?d, Amount = ?b\<rparr> c = Inr n" "setBalance a n True st = Inr st'"
      and add: "Coins_Add bals [\<lparr>Denom = ?d, Amount = ?b\<rparr>] = Inr bals'"
    by (auto simp: delegate_coin_def sum_bind_Inr_iff split: if_splits)
  then have "n = \<lparr>Denom = ?d, Amount = ?b - Amount c\<rparr>" and le: "Amount c \<le> ?b"
    by (auto simp: Coin_Sub_def Int_Sub_iff split: if_splits)
  with n(2) ab.debit_one_ok [OF assms(1,2), of "Amount c" a] assms(3)
  show "ab.changes st a (\<lambda>e. if e = ?d then - Amount c else 0) st'" by simp
  show "Coins_Add bals [\<lparr>Denom = ?d, Amount = ?b\<rparr>] = Inr bals'" by (rule add)
  show "Amount c \<le> ?b" by (rule le)
qed

lemma delegate_coins_changes:
  assumes "balances_ok st" and "Coins_IsValid cs" and "each (delegate_coin a) cs (bals, st) = Inr (bals', st')"
  shows "ab.changes st a (\<lambda>d. - amt cs d) st'"
  using assms
proof (induction cs arbitrary: bals st)
  case Nil
  then show ?case by (simp add: ab.changes_refl)
next
  case (Cons c cs)
  then obtain bals1 st1 where st1: "delegate_coin a c (bals, st) = Inr (bals1, st1)" "each (delegate_coin a) cs (bals1, st1) = Inr (bals', st')"
    by (auto simp: sum_bind_Inr_iff)
  have zero: "amt cs (Denom c) = 0" using Cons.prems(2) by (intro amt_above) simp
  have one: "ab.changes st a (\<lambda>e. if e = Denom c then - Amount c else 0) st1"
    using delegate_coin_changes(1) [OF Cons.prems(1) _ _ st1(1)] Cons.prems(2) by simp
  then have "balances_ok st1" by (simp add: ab.changes_def)
  with Cons.IH st1(2) Cons.prems(2) have "ab.changes st1 a (\<lambda>d. - amt cs d) st'" by simp
  then show ?case by (rule ab.changes_trans [OF one]) (use zero in auto)
qed

lemma track_accounts:
  "trackDelegation env a b amount st = Inr st' \<Longrightarrow> \<exists>ak. st' = st\<lparr>accounts := ak\<rparr>"
  "trackUndelegation a amount st = Inr st' \<Longrightarrow> \<exists>ak. st' = st\<lparr>accounts := ak\<rparr>"
  by (auto simp: trackDelegation_def trackUndelegation_def sum_bind_Inr_iff split: option.splits if_splits
      intro: exI [of _ "accounts st"])

lemma DelegateCoins_neutral:
  assumes "bank_ok st" and "DelegateCoins env a m amount st = Inr st'"
  shows "neutral base st st'"
proof -
  obtain bals st1 st2 where s: "Coins_IsValid amount" "each (delegate_coin a) amount ([], st) = Inr (bals, st1)"
      "trackDelegation env a bals amount st1 = Inr st2" "AddCoins env m amount True st2 = Inr st'"
    using assms(2) by (auto simp: DelegateCoins_def sum_bind_Inr_iff split: if_splits)
  have "balances_ok st" using assms(1) by (simp add: bank_ok_def)
  note one = ab_shifts [OF assms(1) delegate_coins_changes [OF this s(1,2)], of base]
  then have "bank_ok st1" by (simp add: shifts_def)
  with track_accounts(1) [OF s(3)] have two: "neutral base st1 st2" by (auto simp: shifts_accounts)
  from shifts_trans [OF shifts_trans [OF one two] AddCoins_shifts [OF neutral_bank_ok [OF two] s(4)]] show ?thesis by simp
qed

lemma UndelegateCoins_neutral:
  assumes "bank_ok st" and "UndelegateCoins env m a amount st = Inr st'"
  shows "neutral base st st'"
proof -
  obtain st1 st2 where s: "SubUnlockedCoins env m amount True st = Inr st1"
      "trackUndelegation a amount st1 = Inr st2" "AddCoins env a amount True st2 = Inr st'"
    using assms(2) by (auto simp: UndelegateCoins_def sum_bind_Inr_iff split: if_splits)
  note one = SubUnlockedCoins_shifts [OF assms(1) s(1), of base]
  then have "bank_ok st1" by (simp add: shifts_def)
  with track_accounts(2) [OF s(2)] have two: "neutral base st1 st2" by (auto simp: shifts_accounts)
  from shifts_trans [OF shifts_trans [OF one two] AddCoins_shifts [OF neutral_bank_ok [OF two] s(3)]] show ?thesis by simp
qed

lemma module_delegation_neutral:
  assumes "bank_ok st"
  shows "DelegateCoinsFromAccountToModule env a m amount st = Inr st' \<Longrightarrow> neutral base st st'"
    and "UndelegateCoinsFromModuleToAccount env m a amount st = Inr st' \<Longrightarrow> neutral base st st'"
proof -
  have step: "neutral base st st'" if "module_account env m st = Inr (acc, st1)"
      "DelegateCoins env a b amount st1 = Inr st' \<or> UndelegateCoins env b a amount st1 = Inr st'" for acc st1 b
  proof -
    note n = module_account_neutral [OF assms that(1), of base]
    with that(2) DelegateCoins_neutral [OF neutral_bank_ok [OF n]] UndelegateCoins_neutral [OF neutral_bank_ok [OF n]]
    have "neutral base st1 st'" by blast
    with n show ?thesis by (rule neutral_trans)
  qed
  show "DelegateCoinsFromAccountToModule env a m amount st = Inr st' \<Longrightarrow> neutral base st st'"
    "UndelegateCoinsFromModuleToAccount env m a amount st = Inr st' \<Longrightarrow> neutral base st st'"
    using step by (auto simp: DelegateCoinsFromAccountToModule_def UndelegateCoinsFromModuleToAccount_def sum_bind_Inr_iff split: if_splits)
qed

end
