(* ===== verification/BankDeferred.thy ===== *)
theory BankDeferred
  imports BankFlows
begin

text \<open>
  Deferred deposits: what a transaction puts into the deferred cache, and what
  \<open>WriteDeferredBalances\<close> of \<open>src/sei-cosmos/x/bank/keeper/keeper.go\<close> moves to the module accounts at
  the end of a block.
\<close>

subsection \<open>Into the cache\<close>

lemma upsert_credit:
  assumes "reDnm_match (Denom c)" and "0 < Amount c"
  shows "upsertBalance a i c st = db.credit_one (a, i) c st"
  using assms by (simp add: upsertBalance_def db.credit_one_def Coin_Validate_def ValidateDenom_def)

lemma UpsertBalances_changes:
  assumes "entries_ok (deferred st)" and "UpsertBalances a i cs st = Inr st'"
  shows "db.changes st (a, i) (amt cs) st'"
proof -
  have valid: "Coins_IsValid cs" using assms(2) by (auto simp: UpsertBalances_def split: if_splits)
  then have "each (upsertBalance a i) cs st = each (db.credit_one (a, i)) cs st"
    by (intro each_cong upsert_credit) (auto simp: Coins_IsValid_iff)
  with valid assms(2) have "each (db.credit_one (a, i)) cs st = Inr st'" by (simp add: UpsertBalances_def)
  with db.credit_all_ok [OF assms(1) valid, of "(a, i)"] show ?thesis by simp
qed

lemma DeferredSend_neutral:
  assumes "bank_ok st" and "DeferredSendCoinsFromAccountToModule env a m amount st = Inr st'"
  shows "neutral base st st'"
proof -
  obtain st1 acc st2 where s: "SubUnlockedCoins env a amount True st = Inr st1" "module_account env m st1 = Inr (acc, st2)"
      "UpsertBalances (acc_address acc) (word_of_int (be_TxIndex env)) amount st2 = Inr st'"
    using assms(2) by (auto simp: DeferredSendCoinsFromAccountToModule_def sum_bind_Inr_iff split: if_splits)
  note one = SubUnlockedCoins_shifts [OF assms(1) s(1), of base]
  then have "bank_ok st1" by (simp add: shifts_def)
  note two = module_account_neutral [OF this s(2), of base]
  then have ok: "bank_ok st2" by (rule neutral_bank_ok)
  then have "entries_ok (deferred st2)" by (simp add: bank_ok_def)
  from shifts_trans [OF shifts_trans [OF one two] db_shifts [OF ok UpsertBalances_changes [OF this s(3)]]]
  show ?thesis by simp
qed

subsection \<open>Grouping by module\<close>

definition grp :: "(addr \<times> Coin) list \<Rightarrow> (addr \<Rightarrow> bool) \<Rightarrow> string \<Rightarrow> int" where
  "grp es P d = (\<Sum>(a, c)\<leftarrow>es. if P a \<and> Denom c = d then Amount c else 0)"

lemma grp_simps [simp]:
  "grp [] P d = 0"
  "grp ((a, c) # es) P d = (if P a \<and> Denom c = d then Amount c else 0) + grp es P d"
  "grp (es @ es') P d = grp es P d + grp es' P d"
  by (simp_all add: grp_def)

lemma grp_none: "(\<And>a. a \<in> fst ` set es \<Longrightarrow> \<not> P a) \<Longrightarrow> grp es P d = 0"
  by (induction es) auto

lemma grp_cong: "(\<And>a. a \<in> fst ` set es \<Longrightarrow> P a = Q a) \<Longrightarrow> grp es P d = grp es Q d"
  by (induction es) auto

lemma grp_partition:
  assumes "finite S" and "f ` fst ` set es \<subseteq> S"
  shows "(\<Sum>s\<in>S. grp es (\<lambda>a. f a = s) d) = grp es (\<lambda>_. True) d"
  using assms(2)
proof (induction es)
  case (Cons e es)
  obtain a c where e: "e = (a, c)" by (cases e)
  have "(\<Sum>s\<in>S. if f a = s \<and> Denom c = d then Amount c else 0) = (\<Sum>s\<in>S. if s = f a then (if Denom c = d then Amount c else 0) else 0)"
    by (intro sum.cong) auto
  also have "\<dots> = (if Denom c = d then Amount c else 0)" using assms(1) Cons.prems e by (simp add: sum.delta)
  finally show ?case using Cons e by (simp add: sum.distrib)
qed simp

text \<open>What the first loop of \<open>WriteDeferredBalances\<close> has collected from the entries seen so far.\<close>

definition collected :: "bank_env \<Rightarrow> (addr \<times> Coin) list \<Rightarrow> (string, Coins) gomap \<times> string list \<Rightarrow> bool" where
  "collected env es acc \<longleftrightarrow>
     distinct (snd acc) \<and> set (snd acc) = be_String env ` fst ` set es \<and>
     (\<forall>s. case gm_load (fst acc) s of
        None \<Rightarrow> s \<notin> set (snd acc)
      | Some cs \<Rightarrow> s \<in> set (snd acc) \<and> Coins_IsValid cs \<and> (\<forall>d. amt cs d = grp es (\<lambda>a. be_String env a = s) d))"

lemma collect_step:
  assumes "collected env es acc" and "0 < Amount c" and "reDnm_match (Denom c)" and "collect_deferred env (a, c) acc = Inr acc'"
  shows "collected env (es @ [(a, c)]) acc'"
proof -
  obtain m l where acc: "acc = (m, l)" by (cases acc)
  let ?s = "be_String env a"
  have one: "Coins_IsValid [c]" using assms(2,3) by simp
  have dist: "distinct l" and old_set: "set l = be_String env ` fst ` set es"
    and old: "case gm_load m s of
        None \<Rightarrow> s \<notin> set l
      | Some cs \<Rightarrow> s \<in> set l \<and> Coins_IsValid cs \<and> (\<forall>d. amt cs d = grp es (\<lambda>a. be_String env a = s) d)" for s
    using assms(1) unfolding acc collected_def fst_conv snd_conv by blast+
  have new: "collected env (es @ [(a, c)]) (gm_store ?s cs m, l')"
    if "Coins_IsValid cs" "\<And>d. amt cs d = grp es (\<lambda>x. be_String env x = ?s) d + amt [c] d"
      "distinct l'" "set l' = insert ?s (set l)" for cs l'
  proof -
    have now: "case gm_load (gm_store ?s cs m) s of
        None \<Rightarrow> s \<notin> set l'
      | Some cs \<Rightarrow> s \<in> set l' \<and> Coins_IsValid cs \<and> (\<forall>d. amt cs d = grp (es @ [(a, c)]) (\<lambda>a. be_String env a = s) d)" for s
      using old [of s] that by (cases "s = ?s") (auto simp: gomap_simps split: option.splits)
    show ?thesis unfolding collected_def fst_conv snd_conv
      by (intro conjI allI now that(3)) (simp add: that(4) old_set)
  qed
  show ?thesis
  proof (cases "gm_load m ?s")
    case None
    then have notin: "?s \<notin> set l" using old [of ?s] by simp
    then have "grp es (\<lambda>x. be_String env x = ?s) d = 0" for d
      unfolding old_set by (intro grp_none) (metis image_eqI)
    moreover have "acc' = (gm_store ?s [c] m, l @ [?s])"
      using assms(4) None NewCoins_valid [OF one] by (simp add: acc collect_deferred_def Let_def)
    ultimately show ?thesis using new [of "[c]" "l @ [?s]"] one notin dist by simp
  next
    case (Some cs)
    then have cs: "Coins_IsValid cs" "\<And>d. amt cs d = grp es (\<lambda>x. be_String env x = ?s) d" "?s \<in> set l"
      using old [of ?s] by simp_all
    obtain cs' where "Coins_Add cs [c] = Inr cs'" "acc' = (gm_store ?s cs' m, l)"
      using assms(4) Some by (auto simp: acc collect_deferred_def Let_def sum_bind_Inr_iff)
    with Coins_Add_effect [OF cs(1) one] cs dist new [of cs' l] show ?thesis by (simp add: insert_absorb)
  qed
qed

lemma collect_all:
  assumes "\<forall>(a, c)\<in>set es. 0 < Amount c \<and> reDnm_match (Denom c)" and "each (collect_deferred env) es ([], []) = Inr acc"
  shows "collected env es acc"
  using assms
proof (induction es arbitrary: acc rule: rev_induct)
  case Nil
  then show ?case by (auto simp: collected_def)
next
  case (snoc e es)
  obtain a c where e: "e = (a, c)" by (cases e)
  from snoc.prems(2) obtain acc1 where "each (collect_deferred env) es ([], []) = Inr acc1" "collect_deferred env e acc1 = Inr acc"
    by (auto simp: each_append sum_bind_Inr_iff)
  with snoc.IH snoc.prems(1) collect_step show ?case unfolding e by auto
qed

subsection \<open>Out of the cache\<close>

text \<open>What the deposits of the texts \<open>ls\<close> add to an account.\<close>

definition deposits :: "bank_env \<Rightarrow> (addr \<times> Coin) list \<Rightarrow> string list \<Rightarrow> addr \<Rightarrow> string \<Rightarrow> int" where
  "deposits env es ls a d =
     (\<Sum>s\<leftarrow>ls. if be_AccAddressFromBech32 env s = Some a then grp es (\<lambda>x. be_String env x = s) d else 0)"

lemma collected_at:
  assumes "collected env es (m, l)" and "s \<in> set l"
  obtains cs where "gm_load m s = Some cs" and "\<And>d. amt cs d = grp es (\<lambda>x. be_String env x = s) d"
proof -
  have "case gm_load m s of
      None \<Rightarrow> s \<notin> set l
    | Some cs \<Rightarrow> s \<in> set l \<and> Coins_IsValid cs \<and> (\<forall>d. amt cs d = grp es (\<lambda>a. be_String env a = s) d)"
    using assms(1) unfolding collected_def fst_conv snd_conv by blast
  with assms(2) that show ?thesis by (cases "gm_load m s") simp_all
qed

lemma deposit_all:
  assumes "collected env es (m, l)" and "bank_ok st" and "set ls \<subseteq> set l" and "each (deposit_module env m) ls st = Inr st'"
  shows "shifts base st (\<lambda>d. (\<Sum>s\<leftarrow>ls. grp es (\<lambda>x. be_String env x = s) d) * OneUseiInWei) (\<lambda>_. 0) st' \<and>
    (\<forall>a d. bal st' a d = bal st a d + deposits env es ls a d) \<and> deferred st' = deferred st \<and>
    weiBalances st' = weiBalances st \<and> supplies st' = supplies st"
  using assms(2-4)
proof (induction ls arbitrary: st)
  case Nil
  then show ?case by (simp add: shifts_def deposits_def)
next
  case (Cons s ls)
  then obtain st1 where st1: "deposit_module env m s st = Inr st1" "each (deposit_module env m) ls st1 = Inr st'"
    by (auto simp: sum_bind_Inr_iff)
  have "s \<in> set l" using Cons.prems(2) by simp
  then obtain cs where cs: "gm_load m s = Some cs" "\<And>d. amt cs d = grp es (\<lambda>x. be_String env x = s) d"
    using collected_at [OF assms(1)] by metis
  from st1(1) cs(1) obtain b where b: "be_AccAddressFromBech32 env s = Some b" "AddCoins env b cs True st = Inr st1"
    by (auto simp: deposit_module_def fromBech32_def sum_bind_Inr_iff split: option.splits)
  have "balances_ok st" using Cons.prems(1) by (simp add: bank_ok_def)
  note ch = AddCoins_changes(1) [OF this b(2)]
  have one: "shifts base st (\<lambda>d. grp es (\<lambda>x. be_String env x = s) d * OneUseiInWei) (\<lambda>_. 0) st1"
    using AddCoins_shifts [OF Cons.prems(1) b(2), of base] by (simp add: cs(2))
  then have "bank_ok st1" by (simp add: shifts_def)
  note rest = Cons.IH [OF this _ st1(2)]
  have "shifts base st (\<lambda>d. (\<Sum>s\<leftarrow>s # ls. grp es (\<lambda>x. be_String env x = s) d) * OneUseiInWei) (\<lambda>_. 0) st'"
    using rest Cons.prems(2) by (intro shifts_cong [OF shifts_trans [OF one]]) (auto simp: distrib_right)
  moreover have "bal st' a d = bal st a d + deposits env es (s # ls) a d" for a d
    using rest Cons.prems(2) ch b(1) cs(2) by (auto simp: ab.changes_def deposits_def)
  ultimately show ?case using rest Cons.prems(2) changes_frame [OF ch] by simp
qed

text \<open>Deleting the keys one by one empties the cache.\<close>

lemma deferred_delete_all: "set (gm_keys (deferred st)) \<subseteq> set ks \<Longrightarrow> fold dc_delete ks st = st\<lparr>deferred := []\<rparr>"
proof (induction ks arbitrary: st)
  case (Cons k ks)
  then have "set (gm_keys (deferred (dc_delete k st))) \<subseteq> set ks"
    by (auto simp: dc_delete_def AList.delete_eq)
  with Cons.IH show ?case by (simp add: dc_delete_def)
qed simp

lemma dc_Clear_eq: "dc_Clear st = st\<lparr>deferred := []\<rparr>"
  unfolding dc_Clear_def by (rule deferred_delete_all) simp

lemma dc_Clear_shifts:
  assumes "bank_ok st"
  shows "shifts base st (\<lambda>d. - dfr_total st d * OneUseiInWei) (\<lambda>_. 0) (dc_Clear st)"
  using assms
  by (auto simp: shifts_def bank_ok_def dc_Clear_eq wei_ok_def supply_ok_def entries_ok_def worth_def wei_total_def
      ab.held_total_def db.held_total_def supply_of_def GetSupply_def algebra_simps)

text \<open>The entries of the cache, in whatever order they are visited.\<close>

definition deferred_of :: "bank \<Rightarrow> addr \<Rightarrow> string \<Rightarrow> int" where
  "deferred_of st a d = gm_sum (\<lambda>k c. if fst (fst k) = a \<and> Denom c = d then Amount c else 0) (deferred st)"

lemma sum_list_sort_key: "(\<Sum>x\<leftarrow>sort_key k xs. f x) = (\<Sum>x\<leftarrow>xs. f x :: int)"
  by (metis mset_map mset_sort sum_mset_sum_list)

lemma grp_iterate:
  "grp (IterateDeferredBalances st) P d = gm_sum (\<lambda>k c. if P (fst (fst k)) \<and> Denom c = d then Amount c else 0) (deferred st)"
proof -
  have "grp (IterateDeferredBalances st) P d =
      (\<Sum>e\<leftarrow>sort_key (deferred_key \<circ> fst) (deferred st). if P (fst (fst (fst e))) \<and> Denom (snd e) = d then Amount (snd e) else 0)"
    by (simp add: grp_def IterateDeferredBalances_def comp_def case_prod_beta)
  then show ?thesis by (simp only: sum_list_sort_key gm_sum_def case_prod_unfold)
qed

lemma coin_of_entries: "coin_of d = (\<lambda>k c. if Denom c = d then Amount c else 0)"
  by (simp add: fun_eq_iff coin_of_def)

lemma iterate_entries:
  assumes "entries_ok (deferred st)"
  shows "\<forall>(a, c)\<in>set (IterateDeferredBalances st). 0 < Amount c \<and> reDnm_match (Denom c)"
  using assms by (auto simp: IterateDeferredBalances_def entries_ok_def entry_ok_def list_all_iff)

lemma WriteDeferred_parts:
  assumes "bank_ok st" and "WriteDeferredBalances env st = Inr st'"
  obtains m l st1 where "collected env (IterateDeferredBalances st) (m, l)"
    and "each (deposit_module env m) (sort l) st = Inr st1" and "st' = dc_Clear st1"
proof -
  obtain m l st1 where s: "each (collect_deferred env) (IterateDeferredBalances st) ([], []) = Inr (m, l)"
      "each (deposit_module env m) (sort l) st = Inr st1" "st' = dc_Clear st1"
    using assms(2) by (auto simp: WriteDeferredBalances_def sum_bind_Inr_iff split: if_splits)
  have "entries_ok (deferred st)" using assms(1) by (simp add: bank_ok_def)
  with that collect_all [OF iterate_entries s(1)] s(2,3) show ?thesis by blast
qed

lemma sum_sort_distinct: "distinct l \<Longrightarrow> (\<Sum>s\<leftarrow>sort l. f s) = (\<Sum>s\<in>set l. f s :: int)"
  by (metis distinct_sort set_sort sum_list_distinct_conv_sum_set)

lemma WriteDeferred_neutral:
  assumes "bank_ok st" and "WriteDeferredBalances env st = Inr st'"
  shows "neutral base st st'"
proof -
  let ?es = "IterateDeferredBalances st"
  obtain m l st1 where s: "collected env ?es (m, l)" "each (deposit_module env m) (sort l) st = Inr st1" "st' = dc_Clear st1"
    by (rule WriteDeferred_parts [OF assms])
  have l: "distinct l" "set l = be_String env ` fst ` set ?es" using s(1) by (simp_all add: collected_def)
  have dep: "shifts base st (\<lambda>d. (\<Sum>s\<leftarrow>sort l. grp ?es (\<lambda>x. be_String env x = s) d) * OneUseiInWei) (\<lambda>_. 0) st1"
    and same: "deferred st1 = deferred st"
    using deposit_all [OF s(1) assms(1) _ s(2), of base] by simp_all
  have "(\<Sum>s\<leftarrow>sort l. grp ?es (\<lambda>x. be_String env x = s) d) = dfr_total st1 d" for d
    using grp_partition [of "set l" "be_String env" ?es d] l same
    by (simp add: sum_sort_distinct grp_iterate db.held_total_def coin_of_entries)
  moreover have "bank_ok st1" using dep by (simp add: shifts_def)
  ultimately show ?thesis
    using shifts_trans [OF dep dc_Clear_shifts] s(3) by (simp add: shifts_def)
qed

text \<open>Each module account receives what was deferred for it, if its address is read back from its text.\<close>

lemma WriteDeferred_credits:
  assumes "bank_ok st" and "WriteDeferredBalances env st = Inr st'"
    and "\<And>a. a \<in> fst ` fst ` fst ` set (deferred st) \<Longrightarrow> be_AccAddressFromBech32 env (be_String env a) = Some a"
  shows "bal st' a d = bal st a d + deferred_of st a d" and "deferred st' = []"
    and "GetWeiBalance st' = GetWeiBalance st" and "supplies st' = supplies st"
proof -
  let ?es = "IterateDeferredBalances st" and ?str = "be_String env"
  obtain m l st1 where s: "collected env ?es (m, l)" "each (deposit_module env m) (sort l) st = Inr st1" "st' = dc_Clear st1"
    by (rule WriteDeferred_parts [OF assms(1,2)])
  have l: "distinct l" "set l = ?str ` fst ` set ?es" using s(1) by (simp_all add: collected_def)
  have "fst ` set ?es = fst ` fst ` fst ` set (deferred st)"
    by (simp add: IterateDeferredBalances_def image_image case_prod_beta)
  with assms(3) have decode: "be_AccAddressFromBech32 env (?str b) = Some b" if "b \<in> fst ` set ?es" for b using that by simp
  then have inj: "?str b = ?str a \<longleftrightarrow> b = a" if "b \<in> fst ` set ?es" "a \<in> fst ` set ?es" for a b
    using that by (metis option.inject)
  have "deposits env ?es (sort l) a d = (\<Sum>s\<in>set l. if be_AccAddressFromBech32 env s = Some a then grp ?es (\<lambda>x. ?str x = s) d else 0)"
    using l(1) by (simp add: deposits_def sum_sort_distinct)
  also have "\<dots> = (\<Sum>s\<in>set l. if s = ?str a \<and> a \<in> fst ` set ?es then grp ?es (\<lambda>x. x = a) d else 0)"
  proof (intro sum.cong refl)
    fix s assume "s \<in> set l"
    then obtain b where b: "b \<in> fst ` set ?es" "s = ?str b" using l(2) by auto
    then have "be_AccAddressFromBech32 env s = Some a \<longleftrightarrow> s = ?str a \<and> a \<in> fst ` set ?es" using decode inj by (metis option.inject)
    moreover have "grp ?es (\<lambda>x. ?str x = ?str a) d = grp ?es (\<lambda>x. x = a) d" if "a \<in> fst ` set ?es"
      using that inj by (intro grp_cong) blast
    ultimately show "(if be_AccAddressFromBech32 env s = Some a then grp ?es (\<lambda>x. ?str x = s) d else 0) =
        (if s = ?str a \<and> a \<in> fst ` set ?es then grp ?es (\<lambda>x. x = a) d else 0)" by auto
  qed
  also have "\<dots> = grp ?es (\<lambda>x. x = a) d"
  proof (cases "a \<in> fst ` set ?es")
    case True
    then have "?str a \<in> set l" using l(2) by blast
    with True show ?thesis by (simp add: sum.delta)
  next
    case False
    then have "grp ?es (\<lambda>x. x = a) d = 0" by (intro grp_none) blast
    then show ?thesis by (simp cong: if_cong)
  qed
  finally have dep: "deposits env ?es (sort l) a d = deferred_of st a d" by (simp add: grp_iterate deferred_of_def)
  note all = deposit_all [OF s(1) assms(1) _ s(2)]
  show "bal st' a d = bal st a d + deferred_of st a d" using all dep s(3) by (simp add: dc_Clear_eq ab.held_def)
  show "deferred st' = []" "supplies st' = supplies st" using all s(3) by (simp_all add: dc_Clear_eq)
  show "GetWeiBalance st' = GetWeiBalance st" using all s(3) by (simp add: dc_Clear_eq GetWeiBalance_def fun_eq_iff)
qed

end
