(* ===== verification/BankSupply.thy ===== *)
theory BankSupply
  imports BankDeferred
begin

text \<open>
  The supply of the bank module over all its operations: the states that its operations reach, the
  invariant of \<open>src/sei-cosmos/x/bank/keeper/invariants.go\<close> in them, and the properties of the transfers.
\<close>

subsection \<open>Steps\<close>

text \<open>The operations that other modules and messages call on the keeper. \<open>SubWei\<close>, \<open>AddWei\<close>,
  \<open>SubUnlockedCoins\<close> and \<open>AddCoins\<close> alone change the worth of the bank and are left to their callers.\<close>

inductive bank_step :: "bank_env \<Rightarrow> bank \<Rightarrow> bank \<Rightarrow> bool" for env where
  send: "msg_Send env msg st = Inr st' \<Longrightarrow> bank_step env st st'"
| multi_send: "msg_MultiSend env inputs outputs st = Inr st' \<Longrightarrow> bank_step env st st'"
| transfer: "SendCoins env from to amount st = Inr st' \<Longrightarrow> bank_step env st st'"
| evm_transfer: "0 \<le> amt' \<Longrightarrow> 0 \<le> wei \<Longrightarrow> SendCoinsAndWei env from to amt' wei st = Inr st' \<Longrightarrow> bank_step env st st'"
| from_module: "SendCoinsFromModuleToAccount env m to amount st = Inr st' \<Longrightarrow> bank_step env st st'"
| between_modules: "SendCoinsFromModuleToModule env m n amount st = Inr st' \<Longrightarrow> bank_step env st st'"
| to_module: "SendCoinsFromAccountToModule env from n amount st = Inr st' \<Longrightarrow> bank_step env st st'"
| mint: "MintCoins env m amount st = Inr st' \<Longrightarrow> bank_step env st st'"
| burn: "BurnCoins env m amount st = Inr st' \<Longrightarrow> bank_step env st st'"
| delegate: "DelegateCoinsFromAccountToModule env from m amount st = Inr st' \<Longrightarrow> bank_step env st st'"
| undelegate: "UndelegateCoinsFromModuleToAccount env m to amount st = Inr st' \<Longrightarrow> bank_step env st st'"
| defer_send: "DeferredSendCoinsFromAccountToModule env from m amount st = Inr st' \<Longrightarrow> bank_step env st st'"
| write_deferred: "WriteDeferredBalances env st = Inr st' \<Longrightarrow> bank_step env st st'"
| allow_list: "bank_step env st (SetDenomAllowList denom l st)"
| set_params: "bank_step env st (st\<lparr>params := p\<rparr>)"
| other_accounts: "bank_step env st (st\<lparr>accounts := ak\<rparr>)"

definition empty_bank :: "bank_params \<Rightarrow> auth \<Rightarrow> bank" where
  "empty_bank p ak = \<lparr>balances = [], weiBalances = [], supplies = [], deferred = [], allowLists = [], params = p, accounts = ak\<rparr>"

text \<open>Blocks and transactions differ in their environment, not in the registered denominations.\<close>

inductive bank_reachable :: "denom_registry \<Rightarrow> bank \<Rightarrow> bool" for reg where
  start: "bank_reachable reg (empty_bank p ak)"
| step: "bank_reachable reg st \<Longrightarrow> be_denoms env = reg \<Longrightarrow> bank_step env st st' \<Longrightarrow> bank_reachable reg st'"

inductive_cases bank_stepE: "bank_step env st st'"

lemma msg_neutral:
  assumes "bank_ok st"
  shows "msg_Send env msg st = Inr st' \<Longrightarrow> neutral base st st'"
    and "msg_MultiSend env inputs outputs st = Inr st' \<Longrightarrow> neutral base st st'"
proof -
  show "msg_Send env msg st = Inr st' \<Longrightarrow> neutral base st st'"
    using SendCoins_neutral(1) [OF assms]
    by (auto simp: msg_Send_def sum_bind_Inr_iff Let_def case_prod_beta split: if_splits)
  show "msg_MultiSend env inputs outputs st = Inr st' \<Longrightarrow> neutral base st st'"
    using InputOutputCoins_neutral [OF assms] by (auto simp: msg_MultiSend_def sum_bind_Inr_iff)
qed

lemma settings_neutral:
  assumes "bank_ok st"
  shows "neutral base st (SetDenomAllowList denom l st)" and "neutral base st (st\<lparr>params := p\<rparr>)"
  using assms
  by (simp_all add: shifts_def SetDenomAllowList_def bank_ok_def wei_ok_def supply_ok_def worth_def wei_total_def
      ab.held_total_def db.held_total_def supply_of_def GetSupply_def)

lemma bank_step_supply:
  assumes "bank_step env st st'" and "bank_ok st" and "supply_matches base st"
    and "MustGetBaseDenom env = Inr base" and "reDnm_match base"
  shows "bank_ok st' \<and> supply_matches base st'"
proof -
  have neutral: "bank_ok st' \<and> supply_matches base st'" if "neutral base st st'"
    using shifts_keeps [OF that assms(3)] by simp
  from assms(1) show ?thesis
  proof cases
    case mint
    from shifts_keeps [OF MintCoins_shifts [OF assms(2) mint] assms(3)] show ?thesis by simp
  next
    case burn
    from shifts_keeps [OF BurnCoins_shifts [OF assms(2) burn] assms(3)] show ?thesis by simp
  next
    case evm_transfer
    then show ?thesis by (intro neutral SendCoinsAndWei_effect(1) [OF assms(2,4,5)])
  next
    case allow_list
    with neutral settings_neutral(1) [OF assms(2)] show ?thesis by simp
  next
    case set_params
    with neutral settings_neutral(2) [OF assms(2)] show ?thesis by simp
  next
    case other_accounts
    with neutral shifts_accounts [OF assms(2)] show ?thesis by simp
  qed (use assms(2) in \<open>auto intro!: neutral intro: msg_neutral SendCoins_neutral module_sends_neutral
      module_delegation_neutral DeferredSend_neutral WriteDeferred_neutral\<close>)
qed

lemma empty_bank_ok: "bank_ok (empty_bank p ak)" "supply_matches base (empty_bank p ak)"
  by (simp_all add: empty_bank_def bank_ok_def entries_ok_def wei_ok_def supply_ok_def supply_matches_def worth_def wei_total_def
      ab.held_total_def db.held_total_def supply_of_def GetSupply_def)

lemma reachable_supply:
  assumes "bank_reachable reg st" and "GetBaseDenom reg = Inr base" and "reDnm_match base"
  shows "bank_ok st \<and> supply_matches base st"
  using assms(1)
proof induction
  case (start p ak)
  then show ?case by (simp add: empty_bank_ok)
next
  case (step st env st')
  then have "MustGetBaseDenom env = Inr base" using assms(2) by (simp add: MustGetBaseDenom_def)
  with step bank_step_supply [OF step.hyps(3)] assms(3) show ?case by blast
qed

subsection \<open>The totals of the invariant\<close>

lemma Coins_Add_one:
  assumes "coins_ok acc" and "reDnm_match d" and "0 \<le> a" and "int_in_range (amt acc d + a)"
  shows "\<exists>s. Coins_Add acc [\<lparr>Denom = d, Amount = a\<rparr>] = Inr s \<and> coins_ok s \<and>
    (\<forall>e. amt s e = amt acc e + (if e = d then a else 0))"
proof -
  let ?c = "[\<lparr>Denom = d, Amount = a\<rparr>]"
  have valid: "Coins_IsValid acc" and range: "\<And>e. int_in_range (amt acc e)"
    using assms(1) by (simp_all add: coins_ok_def coins_in_range_amt)
  have nonneg: "0 \<le> amt acc e" for e by (rule valid_amt_nonneg [OF valid])
  have sorted: "sorted_wrt (<) (denoms acc)" "sorted_wrt (<) (denoms ?c)" using valid by (simp_all add: Coins_IsValid_iff)
  have "int_in_range a" using nonneg [of d] assms(3) by (intro int_in_range_mono [OF _ assms(4)]) simp
  then have c: "\<forall>e. int_in_range (amt ?c e)" by simp
  have "int_in_range (amt acc e + amt ?c e)" for e using assms(4) range by auto
  with ic.safe_add_loop_spec [OF sorted _ c] range
  obtain s where s: "safe_add_loop Coin_Add [] acc ?c = Inr s" "coins_nf s" "\<And>e. amt s e = amt acc e + amt ?c e"
      "\<And>e. int_in_range (amt s e)" "Denom ` set s \<subseteq> Denom ` set acc \<union> {d}"
    by (auto split: sum.splits)
  have "reDnm_match (Denom x)" if "x \<in> set s" for x
    using s(5) that assms(2) valid by (auto simp: Coins_IsValid_iff)
  then have "Coins_IsValid s" using s(2,3) nonneg assms(3) by (intro nf_validI) simp_all
  moreover have "Coins_Add acc ?c = Inr s" using s(1) sorted by (simp add: Coins_Add_def safeAdd_def nf_isSorted)
  ultimately show ?thesis using s nf_in_rangeI [OF s(2,4)] by (auto simp: coins_ok_def)
qed

lemma total_coins:
  assumes "coins_ok acc" and "\<forall>(a, c)\<in>set es. 0 < Amount c \<and> reDnm_match (Denom c)"
    and "\<And>d. int_in_range (amt acc d + grp es (\<lambda>_. True) d)"
  shows "\<exists>s. each total_coin es acc = Inr s \<and> coins_ok s \<and> (\<forall>d. amt s d = amt acc d + grp es (\<lambda>_. True) d)"
  using assms
proof (induction es arbitrary: acc)
  case (Cons e es)
  obtain a c where e: "e = (a, c)" by (cases e)
  have c: "0 < Amount c" "reDnm_match (Denom c)" using Cons.prems(2) e by auto
  have eta: "\<lparr>Denom = Denom c, Amount = Amount c\<rparr> = c" by simp
  have acc: "0 \<le> amt acc d" for d using Cons.prems(1) by (simp add: coins_ok_def valid_amt_nonneg)
  have rest: "0 \<le> grp es (\<lambda>_. True) d" for d
    unfolding grp_def by (rule sum_list_nonneg) (use Cons.prems(2) in \<open>fastforce\<close>)
  have "int_in_range (amt acc (Denom c) + Amount c)"
    using Cons.prems(3) [of "Denom c"] acc [of "Denom c"] rest [of "Denom c"] c(1) e
    by (intro int_in_range_mono [of "amt acc (Denom c) + Amount c" "amt acc (Denom c) + grp (e # es) (\<lambda>_. True) (Denom c)"]) simp_all
  then obtain s where s: "Coins_Add acc [c] = Inr s" "coins_ok s" "\<And>d. amt s d = amt acc d + (if d = Denom c then Amount c else 0)"
    using Coins_Add_one [OF Cons.prems(1) c(2), of "Amount c"] c(1) by (auto simp: eta)
  have "int_in_range (amt s d + grp es (\<lambda>_. True) d)" for d
    using Cons.prems(3) [of d] e by (auto simp: s(3) add.assoc)
  then obtain s' where "each total_coin es s = Inr s'" "coins_ok s'" "\<And>d. amt s' d = amt s d + grp es (\<lambda>_. True) d"
    using Cons.IH [OF s(2)] Cons.prems(2) by auto
  moreover have "total_coin e acc = Inr s" using s(1) e by (simp add: total_coin_def)
  ultimately show ?case using s(3) e by (auto simp: add.assoc)
qed simp

lemma total_weis:
  assumes "\<forall>(a, w)\<in>set es. 0 \<le> w" and "0 \<le> acc" and "int_in_range (acc + (\<Sum>(a, w)\<leftarrow>es. w))"
  shows "each total_wei es acc = Inr (acc + (\<Sum>(a, w)\<leftarrow>es. w))"
  using assms
proof (induction es arbitrary: acc)
  case (Cons e es)
  obtain a w where e: "e = (a, w)" by (cases e)
  have "0 \<le> (\<Sum>(a, w)\<leftarrow>es. w)" using Cons.prems(1) by (auto intro!: sum_list_nonneg)
  then have "int_in_range (acc + w)"
    using Cons.prems e by (intro int_in_range_mono [OF _ Cons.prems(3)]) auto
  with Cons e show ?case by (simp add: total_wei_def Int_Add_iff add.assoc)
qed simp

text \<open>The pages of the supply, from the entry of a key on.\<close>

definition entry_val :: "(string \<times> int) list \<Rightarrow> string \<Rightarrow> int" where
  "entry_val es d = (case map_of es d of None \<Rightarrow> 0 | Some v \<Rightarrow> v)"

lemma supply_page_coins:
  assumes "coins_ok acc" and "\<forall>(k, v)\<in>set es. 0 < v \<and> int_in_range v \<and> reDnm_match k"
    and "distinct (map fst es)" and "\<forall>(k, v)\<in>set es. amt acc k = 0"
  shows "\<exists>s. each supply_coin es acc = Inr s \<and> coins_ok s \<and>
    (\<forall>d. amt s d = amt acc d + entry_val es d)"
  using assms
proof (induction es arbitrary: acc)
  case (Cons e es)
  obtain k v where e: "e = (k, v)" by (cases e)
  have kv: "0 < v" "int_in_range v" "reDnm_match k" "amt acc k = 0" "k \<notin> fst ` set es" using Cons.prems e by auto
  then obtain s where s: "Coins_Add acc [\<lparr>Denom = k, Amount = v\<rparr>] = Inr s" "coins_ok s"
      "\<And>d. amt s d = amt acc d + (if d = k then v else 0)"
    using Coins_Add_one [OF Cons.prems(1) kv(3), of v] by auto
  have "\<forall>(k', v')\<in>set es. amt s k' = 0" using Cons.prems(4) kv(5) by (force simp: s(3))
  then obtain s' where s': "each supply_coin es s = Inr s'" "coins_ok s'"
      "\<And>d. amt s' d = amt s d + entry_val es d"
    using Cons.IH [OF s(2)] Cons.prems(2,3) by auto
  have "map_of es k = None" using kv(5) by (simp add: map_of_eq_None_iff)
  then have "amt s' d = amt acc d + entry_val (e # es) d" for d
    using e by (simp add: s'(3) s(3) entry_val_def)
  moreover have "supply_coin e acc = Inr s" using s(1) e kv by (simp add: supply_coin_def NewCoin_nonneg)
  ultimately show ?case using s'(1,2) by simp
qed (simp add: entry_val_def)

lemma entry_val_append:
  assumes "distinct (map fst (ys @ zs))"
  shows "entry_val (ys @ zs) d = entry_val ys d + entry_val zs d"
proof (cases "map_of zs d")
  case None
  then show ?thesis by (simp add: entry_val_def map_add_def split: option.splits)
next
  case (Some v)
  then have "d \<in> fst ` set zs" by (force dest: map_of_SomeD)
  then have "map_of ys d = None" using assms by (auto simp: map_of_eq_None_iff)
  with Some show ?thesis by (simp add: entry_val_def map_add_def)
qed

lemma entry_val_in_range: "\<forall>(k, v)\<in>set es. 0 < v \<and> int_in_range v \<and> reDnm_match k \<Longrightarrow> int_in_range (entry_val es d)"
  by (auto simp: entry_val_def dest!: map_of_SomeD split: option.splits)

lemma sorted_supplies:
  assumes "supply_ok st"
  shows "\<forall>(k, v)\<in>set (sort_key fst (supplies st)). 0 < v \<and> int_in_range v \<and> reDnm_match k"
    and "distinct (map fst (sort_key fst (supplies st)))" and "sorted (map fst (sort_key fst (supplies st)))"
proof -
  have "mset (map fst (sort_key fst (supplies st))) = mset (map fst (supplies st))" by simp
  with assms show "distinct (map fst (sort_key fst (supplies st)))"
    unfolding supply_ok_def by (metis mset_eq_imp_distinct_iff)
  show "\<forall>(k, v)\<in>set (sort_key fst (supplies st)). 0 < v \<and> int_in_range v \<and> reDnm_match k"
    using assms by (auto simp: supply_ok_def list_all_iff)
  show "sorted (map fst (sort_key fst (supplies st)))" by simp
qed

lemma add_page:
  assumes "coins_ok acc" and "\<And>d. amt acc d = entry_val ys d"
    and "\<forall>(k, v)\<in>set (ys @ p). 0 < v \<and> int_in_range v \<and> reDnm_match k" and "distinct (map fst (ys @ p))"
  shows "\<exists>page s. each supply_coin p [] = Inr page \<and> Coins_Add acc page = Inr s \<and> coins_ok s \<and>
    (\<forall>d. amt s d = entry_val (ys @ p) d)"
proof -
  obtain page where page: "each supply_coin p [] = Inr page" "coins_ok page" "\<And>d. amt page d = entry_val p d"
    using supply_page_coins [of "[]" p] assms(3,4) by (auto simp: coins_ok_def coins_in_range_def)
  have total: "amt acc d + amt page d = entry_val (ys @ p) d" for d
    by (simp add: assms(2) page(3) entry_val_append [OF assms(4)])
  then have "int_in_range (amt acc d + amt page d)" for d using entry_val_in_range [OF assms(3)] by simp
  with Coins_Add_spec [of acc page] assms(1) page total show ?thesis
    by (auto simp: coins_ok_def split: sum.splits)
qed

lemma collect_pages:
  assumes "supply_ok st" and "sort_key fst (supplies st) = ys @ xs" and "dropWhile (\<lambda>e. fst e < key) (ys @ xs) = xs"
    and "coins_ok acc" and "\<And>d. amt acc d = entry_val ys d" and "length xs < fuel"
  shows "\<exists>s. collect_supply fuel st key acc = Some (Inr s) \<and> coins_ok s \<and> (\<forall>d. amt s d = entry_val (ys @ xs) d)"
  using assms
proof (induction fuel arbitrary: key ys xs acc)
  case (Suc fuel)
  let ?p = "take supplyPageSize xs" and ?r = "drop supplyPageSize xs" and ?es = "ys @ xs"
  have es: "\<forall>(k, v)\<in>set ?es. 0 < v \<and> int_in_range v \<and> reDnm_match k" and dist: "distinct (map fst ?es)"
    and sorted: "sorted (map fst ?es)"
    using sorted_supplies [OF Suc.prems(1), unfolded Suc.prems(2)] by simp_all
  have split: "?es = (ys @ ?p) @ ?r" by simp
  have sub: "set ?p \<subseteq> set ?es" by (auto dest: in_set_takeD)
  have "distinct (map fst ((ys @ ?p) @ ?r))" using dist by (simp only: split [symmetric])
  then have distp: "distinct (map fst (ys @ ?p))" by (simp only: map_append distinct_append)
  have "\<forall>(k, v)\<in>set (ys @ ?p). 0 < v \<and> int_in_range v \<and> reDnm_match k" using es sub by auto
  then obtain page s where page: "each supply_coin ?p [] = Inr page" "Coins_Add acc page = Inr s"
      and s: "coins_ok s" "\<And>d. amt s d = entry_val (ys @ ?p) d"
    using add_page [OF Suc.prems(4,5) _ distp] by blast
  let ?next = "case ?r of [] \<Rightarrow> [] | e # r \<Rightarrow> fst e"
  have get: "GetPaginatedTotalSupply st key supplyPageSize = Inr (page, ?next)"
    using Suc.prems(2,3) page(1) by (simp add: GetPaginatedTotalSupply_def Let_def)
  show ?case
  proof (cases ?r)
    case Nil
    then have "ys @ ?p = ?es" by (metis append_Nil2 append_take_drop_id)
    with get page s Nil show ?thesis by simp
  next
    case (Cons e r)
    have "e \<in> set ?r" using Cons by simp
    then have "e \<in> set xs" by (rule in_set_dropD)
    then have "e \<in> set ?es" by simp
    from bspec [OF es this] have "reDnm_match (fst e)" by (simp add: case_prod_beta)
    then have "fst e \<noteq> []" by (auto simp: reDnm_match_def)
    have eq: "map fst ?es = map fst (ys @ ?p) @ fst e # map fst r"
      by (subst split) (simp only: Cons map_append list.map)
    have le: "\<forall>a\<in>set (map fst (ys @ ?p)). a \<le> fst e" using sorted unfolding eq by (simp add: sorted_append del: map_append)
    have ne: "fst e \<notin> set (map fst (ys @ ?p))" using dist unfolding eq by (simp del: map_append)
    have below: "fst x < fst e" if "x \<in> set (ys @ ?p)" for x
    proof -
      from that have "fst x \<in> set (map fst (ys @ ?p))" unfolding set_map by (rule imageI)
      with le ne show ?thesis by (metis order_le_less)
    qed
    then have "dropWhile (\<lambda>x. fst x < fst e) ((ys @ ?p) @ ?r) = ?r"
      using Cons dropWhile_append2 [of "ys @ ?p" "\<lambda>x. fst x < fst e" ?r] by simp
    moreover have "0 < length ?r" using Cons by simp
    then have "length ?r < fuel" using Suc.prems(6) by (simp add: supplyPageSize_def)
    ultimately obtain s' where "collect_supply fuel st (fst e) s = Some (Inr s')" "coins_ok s'" "\<And>d. amt s' d = entry_val ((ys @ ?p) @ ?r) d"
      using Suc.IH [OF Suc.prems(1), of "ys @ ?p" ?r "fst e" s] Suc.prems(2) s by auto
    with get page(2) Cons \<open>fst e \<noteq> []\<close> split show ?thesis by auto
  qed
qed simp

lemma CollectAllTotalSupply_spec:
  assumes "bank_ok st"
  shows "\<exists>s. CollectAllTotalSupply st = Some (Inr s) \<and> coins_ok s \<and> (\<forall>d. amt s d = supply_of st d)"
proof -
  let ?es = "sort_key fst (supplies st)"
  have ok: "supply_ok st" using assms by (simp add: bank_ok_def)
  have "dropWhile (\<lambda>e. fst e < []) ([] @ ?es) = ?es" by (cases ?es) simp_all
  then obtain s where "CollectAllTotalSupply st = Some (Inr s)" "coins_ok s" "\<And>d. amt s d = entry_val ?es d"
    using collect_pages [OF ok, of "[]" ?es "[]" "[]" "Suc (length (supplies st))"]
    by (auto simp: CollectAllTotalSupply_def coins_ok_def coins_in_range_def entry_val_def)
  moreover have "map_of ?es = map_of (supplies st)"
    using sorted_supplies(2) [OF ok] ok by (subst map_of_inject_set) (simp_all add: supply_ok_def)
  ultimately show ?thesis by (simp add: entry_val_def supply_of_def GetSupply_def)
qed

lemma supply_split:
  assumes "bank_ok st" and "supply_matches base st"
  shows "wei_total st = (supply_of st base - (bal_total st base + dfr_total st base)) * OneUseiInWei"
    and "d \<noteq> base \<Longrightarrow> bal_total st d + dfr_total st d = supply_of st d"
    and "0 \<le> wei_total st"
proof -
  have m: "worth base st d = supply_of st d * OneUseiInWei" for d using assms(2) by (simp add: supply_matches_def)
  from m [of base] show "wei_total st = (supply_of st base - (bal_total st base + dfr_total st base)) * OneUseiInWei"
    by (simp add: worth_def left_diff_distrib)
  show "bal_total st d + dfr_total st d = supply_of st d" if "d \<noteq> base" using m [of d] that by (simp add: worth_def)
  show "0 \<le> wei_total st"
    using assms(1) by (auto simp: wei_total_def bank_ok_def wei_ok_def list_all_iff intro!: gm_sum_nonneg)
qed

lemma holdings_le_supply:
  assumes "bank_ok st" and "supply_matches base st"
  shows "bal_total st d + dfr_total st d \<le> supply_of st d"
proof (cases "d = base")
  case True
  have "0 \<le> (supply_of st base - (bal_total st base + dfr_total st base)) * OneUseiInWei"
    using supply_split(1,3) [OF assms] by simp
  with True show ?thesis by (simp add: zero_le_mult_iff OneUseiInWei_def)
qed (simp add: supply_split(2) [OF assms])

lemma totals_nonneg: "bank_ok st \<Longrightarrow> 0 \<le> bal_total st d" "bank_ok st \<Longrightarrow> 0 \<le> dfr_total st d"
  by (auto simp: ab.held_total_def db.held_total_def bank_ok_def entries_ok_def entry_ok_def list_all_iff coin_of_def
      intro!: gm_sum_nonneg)

lemma supply_of_in_range: "bank_ok st \<Longrightarrow> int_in_range (supply_of st d)"
  by (auto simp: supply_of_def GetSupply_def bank_ok_def supply_ok_def list_all_iff dest!: map_of_SomeD split: option.splits)

lemma grp_all_balances: "grp (IterateAllBalances st) (\<lambda>_. True) d = bal_total st d"
proof -
  have "grp (IterateAllBalances st) (\<lambda>_. True) d =
      (\<Sum>e\<leftarrow>sort_key (balances_key \<circ> fst) (balances st). if Denom (snd e) = d then Amount (snd e) else 0)"
    by (simp add: grp_def IterateAllBalances_def comp_def case_prod_beta)
  then show ?thesis by (simp only: sum_list_sort_key ab.held_total_def gm_sum_def case_prod_unfold coin_of_def)
qed

lemma all_balances_entries:
  assumes "balances_ok st"
  shows "\<forall>(a, c)\<in>set (IterateAllBalances st). 0 < Amount c \<and> reDnm_match (Denom c)"
  using assms by (auto simp: IterateAllBalances_def entries_ok_def entry_ok_def list_all_iff)

lemma wei_sum: "(\<Sum>(a, w)\<leftarrow>IterateAllWeiBalances st. w) = wei_total st"
  by (simp add: IterateAllWeiBalances_def sum_list_sort_key wei_total_def gm_sum_def)

lemma wei_entries: "bank_ok st \<Longrightarrow> \<forall>(a, w)\<in>set (IterateAllWeiBalances st). 0 \<le> w"
  by (auto simp: IterateAllWeiBalances_def bank_ok_def wei_ok_def list_all_iff)

lemma TotalSupply_not_broken:
  assumes "bank_ok st" and "supply_matches base st" and "GetBaseDenom (be_denoms env) = Inr base" and "reDnm_match base"
    and "be_hasDeferredCache env" and "int_in_range (supply_of st base * OneUseiInWei)"
  shows "TotalSupply env st = Some (Inr False)"
proof -
  obtain cs where sp: "CollectAllTotalSupply st = Some (Inr cs)" "coins_ok cs" "\<And>d. amt cs d = supply_of st d"
    using CollectAllTotalSupply_spec [OF assms(1)] by blast
  note le = holdings_le_supply [OF assms(1,2)] and nn = totals_nonneg [OF assms(1)] and wei = supply_split [OF assms(1,2)]
  have range: "int_in_range (bal_total st d)" "int_in_range (bal_total st d + dfr_total st d)" for d
    using le [of d] nn(1) [of d] nn(2) [of d] by (auto intro!: int_in_range_mono [OF _ supply_of_in_range [OF assms(1), of d]])
  have entries: "balances_ok st" "entries_ok (deferred st)" using assms(1) by (simp_all add: bank_ok_def)
  obtain t1 where t1: "each total_coin (IterateAllBalances st) [] = Inr t1" "coins_ok t1" "\<And>d. amt t1 d = bal_total st d"
    using total_coins [OF _ all_balances_entries [OF entries(1)], of "[]"] range(1)
    by (auto simp: grp_all_balances coins_ok_def coins_in_range_def)
  have dfr: "grp (IterateDeferredBalances st) (\<lambda>_. True) d = dfr_total st d" for d
    by (simp add: grp_iterate db.held_total_def coin_of_entries)
  obtain t2 where t2: "each total_coin (IterateDeferredBalances st) t1 = Inr t2" "coins_ok t2"
      "\<And>d. amt t2 d = bal_total st d + dfr_total st d"
    using total_coins [OF t1(2) iterate_entries [OF entries(2)]] range(2) by (auto simp: dfr t1(3))
  let ?k = "supply_of st base - (bal_total st base + dfr_total st base)"
  have k: "0 \<le> ?k" "?k \<le> supply_of st base" using le [of base] nn(1) [of base] nn(2) [of base] by simp_all
  have "?k * OneUseiInWei \<le> supply_of st base * OneUseiInWei" using k by (intro mult_right_mono) (simp_all add: less_imp_le)
  then have "wei_total st \<le> supply_of st base * OneUseiInWei" by (simp only: wei(1))
  then have "\<bar>wei_total st\<bar> \<le> \<bar>supply_of st base * OneUseiInWei\<bar>" using wei(3) by linarith
  then have "int_in_range (wei_total st)" by (rule int_in_range_mono [OF _ assms(6)])
  then have w: "each total_wei (IterateAllWeiBalances st) 0 = Inr (wei_total st)"
    using total_weis [OF wei_entries [OF assms(1)], of 0] by (simp add: wei_sum)
  have split: "SplitUseiWeiAmount (wei_total st) = Inr (?k, 0)" using Split_nonneg [OF wei(3)] wei(1) by simp
  have "int_in_range (amt t2 base + ?k)" using supply_of_in_range [OF assms(1), of base] by (simp add: t2(3))
  then obtain t3 where t3: "Coins_Add t2 [\<lparr>Denom = base, Amount = ?k\<rparr>] = Inr t3" "coins_ok t3"
      "\<And>d. amt t3 d = amt t2 d + (if d = base then ?k else 0)"
    using Coins_Add_one [OF t2(2) assms(4) k(1)] by blast
  have "t3 = cs"
    using t3(2) sp(2) wei(2) by (intro nf_ext) (auto simp: coins_ok_def valid_nf t3(3) t2(3) sp(3))
  then have "Coins_IsEqual t3 cs = Inr True" using IsEqual_valid [of t3 cs] t3(2) sp(2) by (simp add: coins_ok_def)
  with sp(1) t1(1) t2(1) w split t3(1) assms(3,5) NewCoin_nonneg [OF assms(4) k(1)] show ?thesis
    by (simp add: TotalSupply_def total_supply_broken_def)
qed

end
