(* ===== verification/BankTransfers.thy ===== *)
theory BankTransfers
  imports BankSupply
begin

text \<open>
  When the operations of the bank module succeed, and that they then do what they promise: a transfer of
  coins, a transfer of coins and wei, the settlement of the deferred balances, and the coins that a
  vesting schedule locks.
\<close>

subsection \<open>Transfers succeed when the funds suffice\<close>

text \<open>No credit overflows: what an account holds afterwards is at most the supply.\<close>

lemma credit_in_range:
  assumes "bank_ok st" and "supply_matches base st" and "ab.changes st from (\<lambda>d. - amt amount d) st1"
    and "\<And>d. 0 \<le> amt amount d"
  shows "int_in_range (bal st1 to d + amt amount d)"
proof (rule int_in_range_mono [OF _ supply_of_in_range [OF assms(1), of d]])
  have ok: "balances_ok st1" by (rule changes_frame(7) [OF assms(3)])
  have "bal st1 to d + amt amount d \<le> bal_total st1 d + amt amount d" using ab.held_le_total [OF ok] by simp
  also have "\<dots> = bal_total st d" using assms(3) by (simp add: ab.changes_def)
  also have "\<dots> \<le> supply_of st d"
    using holdings_le_supply [OF assms(1,2), of d] totals_nonneg(2) [OF assms(1), of d] by simp
  finally show "\<bar>bal st1 to d + amt amount d\<bar> \<le> \<bar>supply_of st d\<bar>"
    using ab.held_nonneg [OF ok, of to d] assms(4) [of d] by simp
qed

lemma create_account_has: "HasAccount (accounts (create_account a st)) a"
  by (simp add: create_account_def HasAccount_def NewAccountWithAddress_def NewAccount_def SetAccount_def Let_def
      gomap_simps split: prod.splits)


lemma SendCoins_spec:
  assumes "bank_ok st" and "supply_matches base st" and "coins_ok amount" and "LockedCoins env st from = Inr l" and "coins_ok l"
  shows "case SendCoins env from to amount st of
      Inl e \<Rightarrow> (\<exists>d. 0 < amt amount d \<and> bal st from d < amt l d + amt amount d \<and>
          e = (if bal st from d < amt l d then negative_panic else ErrInsufficientFunds)) \<or>
        (\<not> CanSendTo env to \<and> e = ErrInvalidRecipient)
    | Inr st' \<Rightarrow> CanSendTo env to \<and> (\<forall>d. 0 < amt amount d \<longrightarrow> amt l d + amt amount d \<le> bal st from d) \<and>
        moved st from to (amt amount) st' \<and> HasAccount (accounts st') to"
proof -
  have ok: "balances_ok st" using assms(1) by (simp add: bank_ok_def)
  have valid: "Coins_IsValid amount" "coins_in_range amount" using assms(3) by (simp_all add: coins_ok_def)
  note sub = SubUnlockedCoins_spec [OF ok valid assms(4,5)]
  show ?thesis
  proof (cases "SubUnlockedCoins env from amount True st")
    case (Inl e)
    then show ?thesis
      using sub by (simp add: SendCoins_def SendCoinsWithoutAccCreation_def sendCoinsWithoutAccCreation_def)
  next
    case (Inr st1)
    with sub have fits: "\<forall>d. 0 < amt amount d \<longrightarrow> amt l d + amt amount d \<le> bal st from d"
      and c1: "ab.changes st from (\<lambda>d. - amt amount d) st1" by simp_all
    have add: "SendCoins env from to amount st = sum_bind (AddCoins env to amount True st1) (\<lambda>st'. Inr (create_account to st'))"
      using Inr by (simp add: SendCoins_def SendCoinsWithoutAccCreation_def sendCoinsWithoutAccCreation_def)
    have range: "int_in_range (bal st1 to d + amt amount d)" for d
      by (rule credit_in_range [OF assms(1,2) c1 valid_amt_nonneg [OF valid(1)]])
    show ?thesis
    proof (cases "CanSendTo env to")
      case True
      with AddCoins_spec [OF changes_frame(7) [OF c1] True valid(1)] range obtain st2 where
        "AddCoins env to amount True st1 = Inr st2" by (auto split: sum.splits)
      with add have "SendCoins env from to amount st = Inr (create_account to st2)" by simp
      with SendCoins_neutral(2) [OF assms(1) this] fits True create_account_has show ?thesis by simp
    qed (simp add: add AddCoins_def)
  qed
qed

subsection \<open>Locked coins\<close>

text \<open>Every account holds at least its locked coins.\<close>

definition locked_covered :: "bank_env \<Rightarrow> bank \<Rightarrow> bool" where
  "locked_covered env st \<longleftrightarrow>
     (\<forall>a. \<exists>l. LockedCoins env st a = Inr l \<and> coins_ok l \<and> (\<forall>d. amt l d \<le> bal st a d))"

lemma locked_create_account: "LockedCoins env (create_account b st) a = LockedCoins env st a"
  by (auto simp: LockedCoins_def create_account_def HasAccount_def GetAccount_def NewAccountWithAddress_def NewAccount_def
      SetAccount_def GetNextAccountNumber_def Let_def gomap_simps acc_LockedCoins_def split: prod.splits option.splits)

lemma SendCoins_accounts:
  assumes "bank_ok st" and "SendCoins env from to amount st = Inr st'"
  shows "LockedCoins env st' a = LockedCoins env st a"
proof -
  obtain st1 where st1: "SendCoinsWithoutAccCreation env from to amount st = Inr st1" "st' = create_account to st1"
    using assms(2) by (auto simp: SendCoins_def sum_bind_Inr_iff)
  with send_neutral(3) [OF assms(1) st1(1)] show ?thesis by (simp add: locked_create_account) (simp add: LockedCoins_def)
qed

lemma SendCoins_covered:
  assumes "bank_ok st" and "locked_covered env st" and "coins_in_range amount"
    and "SendCoins env from to amount st = Inr st'"
  shows "locked_covered env st'"
  unfolding locked_covered_def
proof
  fix a
  have ok: "balances_ok st" using assms(1) by (simp add: bank_ok_def)
  obtain st1 where st1: "SubUnlockedCoins env from amount True st = Inr st1"
    using assms(4) by (auto simp: SendCoins_def SendCoinsWithoutAccCreation_def sendCoinsWithoutAccCreation_def sum_bind_Inr_iff)
  note valid = SubUnlockedCoins_changes(2) [OF ok st1]
  obtain l where l: "LockedCoins env st a = Inr l" "coins_ok l" "\<And>d. amt l d \<le> bal st a d"
    using assms(2) by (auto simp: locked_covered_def)
  have b: "bal st' a d = bal st a d - (if a = from then amt amount d else 0) + (if a = to then amt amount d else 0)" for d
    using SendCoins_neutral(2) [OF assms(1,4)] by (simp add: moved_def)
  have nn: "0 \<le> amt amount d" for d by (rule valid_amt_nonneg [OF valid])
  have "amt l d \<le> bal st' a d" for d
  proof (cases "a = from \<and> 0 < amt amount d")
    case True
    then have "amt l d + amt amount d \<le> bal st a d"
      using SubUnlockedCoins_spec [OF ok valid assms(3)] l(1,2) st1 by fastforce
    with True b [of d] nn [of d] show ?thesis by (auto split: if_splits)
  qed (use l(3) [of d] b [of d] nn [of d] in auto)
  with l SendCoins_accounts [OF assms(1,4)] show "\<exists>l. LockedCoins env st' a = Inr l \<and> coins_ok l \<and> (\<forall>d. amt l d \<le> bal st' a d)"
    by auto
qed


text \<open>The send messages of a block, in order; a message that fails leaves the state as it was.\<close>

definition deliver_send :: "bank_env \<Rightarrow> MsgSend \<Rightarrow> bank \<Rightarrow> bank" where
  "deliver_send env msg st = (case msg_Send env msg st of Inl e \<Rightarrow> st | Inr st' \<Rightarrow> st')"

lemma msg_Send_Inr:
  assumes "msg_Send env msg st = Inr st'"
  obtains a b where "SendCoins env a b (MsgAmount msg) st = Inr st'"
  using assms by (auto simp: msg_Send_def sum_bind_Inr_iff Let_def case_prod_beta split: if_splits)

lemma deliver_send_covered:
  assumes "bank_ok st" and "locked_covered env st" and "coins_in_range (MsgAmount msg)"
  shows "bank_ok (deliver_send env msg st)" and "locked_covered env (deliver_send env msg st)"
proof -
  have "bank_ok (deliver_send env msg st) \<and> locked_covered env (deliver_send env msg st)"
  proof (cases "msg_Send env msg st")
    case (Inr st')
    then obtain a b where "SendCoins env a b (MsgAmount msg) st = Inr st'" by (rule msg_Send_Inr)
    with Inr SendCoins_covered [OF assms] neutral_bank_ok [OF SendCoins_neutral(1) [OF assms(1)]] show ?thesis
      by (simp add: deliver_send_def)
  qed (simp add: deliver_send_def assms)
  then show "bank_ok (deliver_send env msg st)" "locked_covered env (deliver_send env msg st)" by simp_all
qed


subsection \<open>Transfers of wei\<close>

text \<open>An account holds at most what the bank is worth.\<close>

lemma aggregated_le_worth:
  assumes "bank_ok st"
  shows "aggregated base st a \<le> worth base st base"
proof -
  have "GetWeiBalance st a \<le> wei_total st"
    using gm_at_le_sum [of "weiBalances st" "\<lambda>_ w. w" a] assms
    by (fastforce simp: GetWeiBalance_def gm_at_def wei_total_def bank_ok_def wei_ok_def list_all_iff split: option.splits)
  moreover have "bal st a base \<le> bal_total st base + dfr_total st base"
    using ab.held_le_total [of st a base] totals_nonneg(2) [OF assms, of base] assms by (simp add: bank_ok_def)
  then have "bal st a base * OneUseiInWei \<le> (bal_total st base + dfr_total st base) * OneUseiInWei"
    by (intro mult_right_mono) (simp_all add: less_imp_le)
  ultimately show ?thesis unfolding aggregated_def worth_def if_P [OF refl] by (intro add_mono)
qed

lemma aggregated_ge_iff:
  assumes "bank_ok st"
  shows "n * OneUseiInWei \<le> aggregated base st a \<longleftrightarrow> n \<le> bal st a base"
proof
  let ?b = "bal st a base" and ?w = "GetWeiBalance st a"
  note w = aggregated_parts(1,2) [OF assms, of a]
  show "n \<le> ?b" if "n * OneUseiInWei \<le> aggregated base st a"
  proof (rule ccontr)
    assume "\<not> n \<le> ?b"
    then have "(?b + 1) * OneUseiInWei \<le> n * OneUseiInWei" by (intro mult_right_mono) (simp_all add: less_imp_le)
    with that w show False by (simp add: aggregated_def distrib_right)
  qed
  assume "n \<le> ?b"
  then have "n * OneUseiInWei \<le> ?b * OneUseiInWei" by (intro mult_right_mono) (simp_all add: less_imp_le)
  with w show "n * OneUseiInWei \<le> aggregated base st a" unfolding aggregated_def by linarith
qed

lemma send_nothing_locked:
  assumes "bank_ok st" and "supply_matches base st" and "reDnm_match base" and "0 < amount" and "int_in_range amount"
    and "LockedCoins env st from = Inr []" and "CanSendTo env to"
  shows "case SendCoinsWithoutAccCreation env from to [\<lparr>Denom = base, Amount = amount\<rparr>] st of
      Inl e \<Rightarrow> e = ErrInsufficientFunds \<and> bal st from base < amount
    | Inr st' \<Rightarrow> amount \<le> bal st from base"
proof -
  let ?c = "[\<lparr>Denom = base, Amount = amount\<rparr>]"
  have "coins_ok ?c" using single_coin(2,3) [OF assms(3-5)] by (simp add: coins_ok_def)
  moreover have "coins_ok []" by (simp add: coins_ok_def coins_in_range_def)
  ultimately have send: "case SendCoins env from to ?c st of
      Inl e \<Rightarrow> (\<exists>d. 0 < amt ?c d \<and> bal st from d < amt [] d + amt ?c d \<and>
          e = (if bal st from d < amt [] d then negative_panic else ErrInsufficientFunds)) \<or>
        (\<not> CanSendTo env to \<and> e = ErrInvalidRecipient)
    | Inr st' \<Rightarrow> CanSendTo env to \<and> (\<forall>d. 0 < amt ?c d \<longrightarrow> amt [] d + amt ?c d \<le> bal st from d) \<and>
        moved st from to (amt ?c) st' \<and> HasAccount (accounts st') to"
    using SendCoins_spec [OF assms(1,2) _ assms(6)] by blast
  have nn: "0 \<le> bal st from d" for d using assms(1) by (simp add: bank_ok_def ab.held_nonneg)
  show ?thesis
  proof (cases "SendCoinsWithoutAccCreation env from to ?c st")
    case (Inl e)
    with send nn assms(7) show ?thesis by (auto simp: SendCoins_def not_less split: if_splits)
  next
    case (Inr st')
    with send assms(4) show ?thesis by (auto simp: SendCoins_def dest: spec [of _ base])
  qed
qed


lemma wei_accounts:
  "SubWei env a x st = Inr st' \<Longrightarrow> accounts st' = accounts st"
  "AddWei env a x st = Inr st' \<Longrightarrow> accounts st' = accounts st"
  by (auto simp: SubWei_def AddWei_def sum_bind_Inr_iff Let_def setBalance_def setWeiBalance_def split: if_splits)

lemma aggregated_in_range:
  assumes "bank_ok st" and "0 \<le> x" and "worth base st base + x = y" and "int_in_range y"
  shows "int_in_range (aggregated base st a + x)"
  using aggregated_le_worth [OF assms(1), of base a] aggregated_nonneg [OF assms(1), of base a] assms(2,3)
  by (intro int_in_range_mono [OF _ assms(4)]) simp

lemma wei_leg:
  assumes "bank_ok st" and "supply_matches base st" and "MustGetBaseDenom env = Inr base" and "reDnm_match base"
    and "int_in_range (supply_of st base * OneUseiInWei)" and "0 \<le> wei" and "int_in_range wei"
  shows "(SubWei env from wei st = Inl ErrInsufficientFunds \<and> aggregated base st from < wei) \<or>
    (\<exists>st1. SubWei env from wei st = Inr st1 \<and>
      (\<not> CanSendTo env to \<and> AddWei env to wei st1 = Inl ErrInvalidRecipient \<or>
       (\<exists>st2. CanSendTo env to \<and> AddWei env to wei st1 = Inr st2 \<and> bank_ok st2 \<and> supply_matches base st2 \<and> accounts st2 = accounts st \<and>
          (\<forall>a. aggregated base st2 a = aggregated base st a - (if a = from then wei else 0) + (if a = to then wei else 0)))))"
proof -
  have worth: "worth base st base = supply_of st base * OneUseiInWei" using assms(2) by (simp add: supply_matches_def)
  have "int_in_range (aggregated base st from)" using aggregated_in_range [OF assms(1), of 0 base] assms(5) worth by simp
  note sub = SubWei_spec [OF assms(1,3,4,6,7) this]
  show ?thesis
  proof (cases "SubWei env from wei st")
    case (Inl e)
    with sub show ?thesis by simp
  next
    case (Inr st1)
    with sub have m1: "base_moves base st from (- wei) st1" by simp
    note ok1 = base_moves_bank_ok [OF m1]
    have w1: "worth base st1 base + wei = supply_of st base * OneUseiInWei"
      using m1 worth by (simp add: base_moves_def shifts_def)
    show ?thesis
    proof (cases "CanSendTo env to")
      case True
      with AddWei_succeeds [OF ok1 assms(3,4) True assms(6) aggregated_in_range [OF ok1 assms(6) w1 assms(5)]]
      obtain st2 where st2: "AddWei env to wei st1 = Inr st2" by blast
      have m2: "base_moves base st1 to wei st2" by (rule AddWei_moves [OF ok1 assms(3,4,6) st2])
      have "neutral base st st2" using m1 m2 by (auto simp: base_moves_def shifts_def)
      then have "bank_ok st2 \<and> supply_matches base st2" using shifts_keeps [OF _ assms(2)] by simp
      with Inr st2 True m1 m2 wei_accounts(1) [OF Inr] wei_accounts(2) [OF st2] show ?thesis by (auto simp: base_moves_def)
    qed (use Inr in \<open>simp add: AddWei_def\<close>)
  qed
qed

lemma SendCoinsAndWei_spec:
  assumes "bank_ok st" and "supply_matches base st" and "MustGetBaseDenom env = Inr base" and "reDnm_match base"
    and "int_in_range (supply_of st base * OneUseiInWei)" and "0 \<le> amount" and "int_in_range amount"
    and "0 \<le> wei" and "int_in_range wei" and "LockedCoins env st from = Inr []" and "from \<noteq> to"
  shows "case SendCoinsAndWei env from to amount wei st of
      Inl e \<Rightarrow> e = ErrInsufficientFunds \<and> aggregated base st from < amount * OneUseiInWei + wei \<or>
        e = ErrInvalidRecipient \<and> \<not> CanSendTo env to
    | Inr st' \<Rightarrow> CanSendTo env to \<and> amount * OneUseiInWei + wei \<le> aggregated base st from"
proof -
  let ?send = "SendCoinsAndWei env from to amount wei st"
  have usei: "0 \<le> amount * OneUseiInWei" using assms(6) by (simp add: less_imp_le)
  from wei_leg [OF assms(1-5,8,9), of "from" to] show ?thesis
  proof (elim disjE exE conjE)
    assume "SubWei env from wei st = Inl ErrInsufficientFunds" "aggregated base st from < wei"
    with usei show ?thesis by (simp add: SendCoinsAndWei_def)
  next
    fix st1 assume "SubWei env from wei st = Inr st1" "\<not> CanSendTo env to" "AddWei env to wei st1 = Inl ErrInvalidRecipient"
    then show ?thesis by (simp add: SendCoinsAndWei_def)
  next
    fix st1 st2
    assume s: "SubWei env from wei st = Inr st1" "CanSendTo env to" "AddWei env to wei st1 = Inr st2" "bank_ok st2"
        "supply_matches base st2" "accounts st2 = accounts st"
      and agg: "\<forall>a. aggregated base st2 a = aggregated base st a - (if a = from then wei else 0) + (if a = to then wei else 0)"
    from agg assms(11) have left: "aggregated base st2 from = aggregated base st from - wei" by simp
    show ?thesis
    proof (cases "amount > 0")
      case True
      let ?c = "[\<lparr>Denom = base, Amount = amount\<rparr>]"
      have "NewCoins ?c = Inr ?c" using True assms(4) by (intro NewCoins_valid) simp
      then have send: "?send = SendCoinsWithoutAccCreation env from to ?c st2"
        using s(1,3) True assms(3) NewCoin_nonneg [OF assms(4,6)] by (simp add: SendCoinsAndWei_def)
      have "LockedCoins env st2 from = Inr []" using assms(10) s(6) by (simp add: LockedCoins_def)
      from send_nothing_locked [OF s(4,5) assms(4) True assms(7) this s(2)] show ?thesis
        unfolding send using aggregated_ge_iff [OF s(4), of amount base "from"] left s(2) by (auto split: sum.splits)
    next
      case False
      then have "amount = 0" using assms(6) by simp
      with s left aggregated_nonneg [OF s(4), of base "from"] show ?thesis by (simp add: SendCoinsAndWei_def)
    qed
  qed
qed


text \<open>Below the locked amount, even a small transfer panics.\<close>

lemma SendCoins_below_lock:
  assumes "bank_ok st" and "supply_matches base st" and "reDnm_match d" and "0 < x" and "int_in_range x"
    and "LockedCoins env st from = Inr l" and "coins_ok l" and "CanSendTo env to" and "bal st from d < amt l d"
  shows "SendCoins env from to [\<lparr>Denom = d, Amount = x\<rparr>] st = Inl negative_panic"
proof -
  have c: "coins_ok [\<lparr>Denom = d, Amount = x\<rparr>]" using single_coin(2,3) [OF assms(3-5)] by (simp add: coins_ok_def)
  from SendCoins_spec [OF assms(1,2) c assms(6,7), of to] assms(4,8,9) show ?thesis
    by (auto split: sum.splits if_splits dest: spec [of _ d])
qed

subsection \<open>The settlement of the deferred balances\<close>

lemma grp_nonneg: "\<forall>(a, c)\<in>set es. 0 < Amount c \<Longrightarrow> 0 \<le> grp es P d"
  by (induction es) auto

lemma grp_le: "\<forall>(a, c)\<in>set es. 0 < Amount c \<Longrightarrow> grp es P d \<le> grp es (\<lambda>_. True) d"
  by (induction es) auto

lemma collected_valid:
  assumes "collected env es (m, l)" and "gm_load m s = Some cs"
  shows "Coins_IsValid cs" and "amt cs d = grp es (\<lambda>x. be_String env x = s) d"
proof -
  have "case gm_load m s of
      None \<Rightarrow> s \<notin> set l
    | Some cs \<Rightarrow> s \<in> set l \<and> Coins_IsValid cs \<and> (\<forall>d. amt cs d = grp es (\<lambda>a. be_String env a = s) d)"
    using assms(1) unfolding collected_def fst_conv snd_conv by blast
  with assms(2) show "Coins_IsValid cs" "amt cs d = grp es (\<lambda>x. be_String env x = s) d" by simp_all
qed

lemma collect_deferred_succeeds:
  assumes "collected env es acc" and "0 < Amount c" and "reDnm_match (Denom c)"
    and "\<And>d. int_in_range (grp es (\<lambda>x. be_String env x = be_String env a) d)"
    and "int_in_range (grp es (\<lambda>x. be_String env x = be_String env a) (Denom c) + Amount c)"
  shows "\<exists>acc'. collect_deferred env (a, c) acc = Inr acc'"
proof -
  obtain m l where acc: "acc = (m, l)" by (cases acc)
  let ?s = "be_String env a"
  show ?thesis
  proof (cases "gm_load m ?s")
    case None
    then show ?thesis
      using NewCoins_valid [of "[c]"] assms(2,3) by (simp add: acc collect_deferred_def Let_def)
  next
    case (Some cs)
    note cs = collected_valid [OF assms(1) [unfolded acc] Some]
    have "coins_ok cs" using assms(4) cs(1) by (simp add: coins_ok_def nf_in_rangeI valid_nf cs(2))
    then obtain cs' where "Coins_Add cs [\<lparr>Denom = Denom c, Amount = Amount c\<rparr>] = Inr cs'"
      using Coins_Add_one [OF _ assms(3), of cs "Amount c"] assms(2,5) by (auto simp: cs(2))
    moreover have "\<lparr>Denom = Denom c, Amount = Amount c\<rparr> = c" by simp
    ultimately have "Coins_Add cs [c] = Inr cs'" by (simp only:)
    with Some show ?thesis by (simp add: acc collect_deferred_def Let_def)
  qed
qed

lemma collect_all_succeeds:
  assumes "\<forall>(a, c)\<in>set es. 0 < Amount c \<and> reDnm_match (Denom c)" and "\<And>d. int_in_range (grp es (\<lambda>_. True) d)"
  shows "\<exists>acc. each (collect_deferred env) es ([], []) = Inr acc"
  using assms
proof (induction es rule: rev_induct)
  case (snoc e es)
  obtain a c where e: "e = (a, c)" by (cases e)
  have pos: "\<forall>(a, c)\<in>set es. 0 < Amount c" and ok: "\<forall>(a, c)\<in>set es. 0 < Amount c \<and> reDnm_match (Denom c)"
    and c: "0 < Amount c" "reDnm_match (Denom c)" using snoc.prems(1) e by auto
  note bounds = grp_nonneg [OF pos] grp_le [OF pos]
  have range: "int_in_range (grp es P d)" "int_in_range (grp es P (Denom c) + Amount c)" for P d
  proof -
    show "int_in_range (grp es P d)"
      using bounds [of P d] c(1) by (intro int_in_range_mono [OF _ snoc.prems(2) [of d]]) (auto simp: e)
    show "int_in_range (grp es P (Denom c) + Amount c)"
      using bounds [of P "Denom c"] c(1) by (intro int_in_range_mono [OF _ snoc.prems(2) [of "Denom c"]]) (auto simp: e)
  qed
  from snoc.IH [OF ok range(1)] obtain acc where acc: "each (collect_deferred env) es ([], []) = Inr acc" by blast
  from collect_deferred_succeeds [OF collect_all [OF ok acc] c range]
  obtain acc' where "collect_deferred env e acc = Inr acc'" unfolding e by blast
  with acc have "each (collect_deferred env) (es @ [e]) ([], []) = Inr acc'" by (simp add: each_append)
  then show ?case by blast
qed simp

lemma deposit_all_succeeds:
  assumes "collected env es (m, l)" and "set ls \<subseteq> set l" and "balances_ok st"
    and "\<forall>(a, c)\<in>set es. 0 < Amount c"
    and "\<And>s. s \<in> set ls \<Longrightarrow> \<exists>a. be_AccAddressFromBech32 env s = Some a \<and> CanSendTo env a"
    and "\<And>d. int_in_range (bal_total st d + (\<Sum>s\<leftarrow>ls. grp es (\<lambda>x. be_String env x = s) d))"
  shows "\<exists>st'. each (deposit_module env m) ls st = Inr st'"
  using assms(2,3,5,6)
proof (induction ls arbitrary: st)
  case (Cons s ls)
  let ?g = "\<lambda>s d. grp es (\<lambda>x. be_String env x = s) d"
  note nn = grp_nonneg [OF assms(4)]
  obtain a where a: "be_AccAddressFromBech32 env s = Some a" "CanSendTo env a" using Cons.prems(3) by auto
  have "s \<in> set l" using Cons.prems(1) by simp
  with collected_at [OF assms(1)] obtain cs where load: "gm_load m s = Some cs" by blast
  note cs = collected_valid [OF assms(1) load]
  have "int_in_range (bal st a d + amt cs d)" for d
  proof (rule int_in_range_mono [OF _ Cons.prems(4) [of d]])
    have "0 \<le> (\<Sum>s\<leftarrow>ls. ?g s d)" by (auto intro!: sum_list_nonneg nn)
    with ab.held_le_total [OF Cons.prems(2), of a d] ab.held_nonneg [OF Cons.prems(2), of a d] nn [of _ d]
    show "\<bar>bal st a d + amt cs d\<bar> \<le> \<bar>bal_total st d + (\<Sum>s\<leftarrow>s # ls. ?g s d)\<bar>" by (simp add: cs(2))
  qed
  with AddCoins_spec [OF Cons.prems(2) a(2) cs(1)] obtain st1 where
    st1: "AddCoins env a cs True st = Inr st1" "ab.changes st a (amt cs) st1" by (auto split: sum.splits)
  have "bal_total st1 d + (\<Sum>s\<leftarrow>ls. ?g s d) = bal_total st d + (\<Sum>s\<leftarrow>s # ls. ?g s d)" for d
    using st1(2) cs(2) by (simp add: ab.changes_def)
  with Cons.IH [OF _ changes_frame(7) [OF st1(2)]] Cons.prems show ?case
    using st1(1) a load by (simp add: deposit_module_def fromBech32_def)
qed simp

lemma WriteDeferred_succeeds:
  assumes "bank_ok st" and "supply_matches base st" and "be_hasDeferredCache env"
    and "\<And>a. a \<in> fst ` fst ` fst ` set (deferred st) \<Longrightarrow>
      be_AccAddressFromBech32 env (be_String env a) = Some a \<and> CanSendTo env a"
  shows "\<exists>st'. WriteDeferredBalances env st = Inr st'"
proof -
  let ?es = "IterateDeferredBalances st"
  have ok: "balances_ok st" "entries_ok (deferred st)" using assms(1) by (simp_all add: bank_ok_def)
  note es = iterate_entries [OF ok(2)]
  then have pos: "\<forall>(a, c)\<in>set ?es. 0 < Amount c" by auto
  have dfr: "grp ?es (\<lambda>_. True) d = dfr_total st d" for d
    by (simp add: grp_iterate db.held_total_def coin_of_entries)
  have range: "int_in_range (dfr_total st d)" "int_in_range (bal_total st d + dfr_total st d)" for d
    using holdings_le_supply [OF assms(1,2), of d] totals_nonneg [OF assms(1), of d]
    by (auto intro!: int_in_range_mono [OF _ supply_of_in_range [OF assms(1), of d]])
  obtain m l where ml: "each (collect_deferred env) ?es ([], []) = Inr (m, l)"
    using collect_all_succeeds [OF es, of env] range(1) by (auto simp: dfr)
  note col = collect_all [OF es ml]
  have l: "distinct l" "set l = be_String env ` fst ` set ?es" using col by (simp_all add: collected_def)
  have keys: "fst ` set ?es = fst ` fst ` fst ` set (deferred st)"
    by (simp add: IterateDeferredBalances_def image_image case_prod_beta)
  have "(\<Sum>s\<leftarrow>sort l. grp ?es (\<lambda>x. be_String env x = s) d) = dfr_total st d" for d
    using grp_partition [of "set l" "be_String env" ?es d] l by (simp add: sum_sort_distinct dfr)
  then have "int_in_range (bal_total st d + (\<Sum>s\<leftarrow>sort l. grp ?es (\<lambda>x. be_String env x = s) d))" for d using range(2) by simp
  moreover have "\<exists>a. be_AccAddressFromBech32 env s = Some a \<and> CanSendTo env a" if "s \<in> set (sort l)" for s
    using that assms(4) unfolding set_sort l(2) keys by blast
  ultimately have "\<exists>st'. each (deposit_module env m) (sort l) st = Inr st'"
    by (intro deposit_all_succeeds [OF col _ ok(1) pos]) simp_all
  with assms(3) ml show ?thesis by (auto simp: WriteDeferredBalances_def)
qed

end
