(* ===== verification/BankProps.thy ===== *)
theory BankProps
  imports BankTransfers
begin

text \<open>
  The properties of the bank module, over the states that its operations reach.
\<close>

subsection \<open>A small chain\<close>

text \<open>A module that may mint and burn, a module that stakes, and an account \<open>v\<close> whose 1000 usei are locked for ever.\<close>

definition sei_env :: bank_env where
  "sei_env = \<lparr>be_permAddrs = [(''mint'', (''m'', [''minter'', ''burner''])), (''bonded'', (''b'', [''staking'']))],
     be_denoms = sei_registry, be_recipientCheckers = [\<lambda>a. a \<noteq> ''x''], be_blockedAddrs = [],
     be_mintCoinsRestrictions = [], be_AccAddressFromBech32 = (\<lambda>s. if s = [] then None else Some s), be_String = (\<lambda>a. a),
     be_BlockTime = 50, be_TxIndex = 3, be_hasDeferredCache = True\<rparr>"

definition sei_params :: bank_params where
  "sei_params = \<lparr>SendEnabled = [], DefaultSendEnabled = True\<rparr>"

definition usei :: "int \<Rightarrow> Coins" where
  "usei a = [\<lparr>Denom = ''usei'', Amount = a\<rparr>]"

definition locked_account :: account where
  "locked_account = PermanentLockedAccount (NewBaseVestingAccount \<lparr>Address = ''v'', AccountNumber = 1, Sequence = 0\<rparr> (usei 1000) 0)"

definition sei_auth :: auth where
  "sei_auth = \<lparr>acc_store = [(''v'', locked_account)], globalAccountNumber = Some 2\<rparr>"

lemmas denom_eval = reDnm_match_def is_letter_def denom_char_def

lemmas bank_eval = sei_env_def sei_params_def sei_auth_def usei_def empty_bank_def MintCoins_def createCoins_def
  module_account_def GetModuleAccount_def GetAccount_def NewEmptyModuleAccount_def blank_permission_def NewAccount_def
  GetNextAccountNumber_def SetAccount_def AddCoins_def CanSendTo_def add_coin_def GetBalance_def NewCoin_def Coin_Validate_def
  ValidateDenom_def denom_eval Coin_Add_def Int_Add_iff int_in_range_iff setBalance_def
  acc_address_def add_supply_def GetSupply_def SetSupply_def

lemmas debit_eval = SubUnlockedCoins_def sub_unlocked_coin_def LockedCoins_def acc_LockedCoins_def AmountOf_def
  mustValidateDenom_def Coin_Sub_def Int_Sub_iff Coins_SafeSub_def safeAdd_def Coins_negative_def Int_Neg_def removeZeroCoins_def
  Coins_IsAnyNegative_def require_def

lemma usei_ok: "reDnm_match ''usei''" "GetBaseDenom sei_registry = Inr ''usei''" "be_denoms sei_env = sei_registry"
  by (simp_all add: denom_eval GetBaseDenom_def sei_registry_def sei_env_def)

text \<open>1000 usei are minted and held by the module account, then sent to \<open>v\<close>.\<close>

definition minted_bank :: bank where
  "minted_bank = (case MintCoins sei_env ''mint'' (usei 1000) (empty_bank sei_params sei_auth) of Inr st \<Rightarrow> st)"

definition funded_bank :: bank where
  "funded_bank = (case SendCoins sei_env ''m'' ''v'' (usei 1000) minted_bank of Inr st \<Rightarrow> st)"

lemma minted: "MintCoins sei_env ''mint'' (usei 1000) (empty_bank sei_params sei_auth) = Inr minted_bank"
  by (simp add: minted_bank_def bank_eval)

lemma minted_views: "balances minted_bank = [((''m'', ''usei''), \<lparr>Denom = ''usei'', Amount = 1000\<rparr>)]"
  "weiBalances minted_bank = []" "supplies minted_bank = [(''usei'', 1000)]" "deferred minted_bank = []"
  "GetAccount (accounts minted_bank) ''v'' = Some locked_account"
  "GetAccount (accounts minted_bank) ''m'' = Some (ModuleAccount \<lparr>Address = ''m'', AccountNumber = 2, Sequence = 0\<rparr> ''mint'' [''minter'', ''burner''])"
  by (simp_all add: minted_bank_def bank_eval)


lemma minted_reachable: "bank_reachable sei_registry minted_bank"
  by (rule bank_reachable.step [OF bank_reachable.start usei_ok(3) bank_step.mint [OF minted]])

lemmas minted_ok = reachable_supply [OF minted_reachable usei_ok(2,1)]

lemma minted_locked: "LockedCoins sei_env minted_bank ''m'' = Inr []"
  by (simp add: LockedCoins_def minted_views acc_LockedCoins_def)

lemma coins_ok_usei [simp]: "coins_ok (usei 1)" "coins_ok (usei 5)" "coins_ok (usei 1000)" "coins_ok []"
  by (simp_all add: coins_ok_def coins_in_range_def usei_def denom_eval int_in_range_iff)

lemma funded: "SendCoins sei_env ''m'' ''v'' (usei 1000) minted_bank = Inr funded_bank"
  and funded_bal: "bal funded_bank a d = (if a = ''v'' \<and> d = ''usei'' then 1000 else 0)"
proof -
  have bal: "bal minted_bank a d = (if a = ''m'' \<and> d = ''usei'' then 1000 else 0)" for a d
    by (simp add: ab.held_def minted_views)
  have "amt (usei 1000) d = (if d = ''usei'' then 1000 else 0)" for d by (simp add: usei_def)
  with SendCoins_spec [of minted_bank "''usei''" "usei 1000" sei_env "''m''" "[]" "''v''"] minted_ok minted_locked bal
  have "\<exists>st. SendCoins sei_env ''m'' ''v'' (usei 1000) minted_bank = Inr st \<and> moved minted_bank ''m'' ''v'' (amt (usei 1000)) st"
    by (auto simp: CanSendTo_def sei_env_def split: sum.splits if_splits)
  then show *: "SendCoins sei_env ''m'' ''v'' (usei 1000) minted_bank = Inr funded_bank" by (auto simp: funded_bank_def)
  from SendCoins_neutral(2) [OF conjunct1 [OF minted_ok] this] bal
  show "bal funded_bank a d = (if a = ''v'' \<and> d = ''usei'' then 1000 else 0)"
    by (auto simp: moved_def usei_def)
qed

lemma funded_reachable: "bank_reachable sei_registry funded_bank"
  by (rule bank_reachable.step [OF minted_reachable usei_ok(3) bank_step.transfer [OF funded]])

lemmas funded_ok = reachable_supply [OF funded_reachable usei_ok(2,1)]

lemma locked_account_coins: "acc_LockedCoins locked_account t = Inr (usei 1000)"
proof -
  have "Coins_Min (usei 1000) [] = Inr []" using NewCoins_valid [of "[]"] by (simp add: Coins_Min_def usei_def)
  moreover have "Coins_Sub (usei 1000) [] = Inr (usei 1000)"
    by (simp add: Coins_Sub_def Coins_SafeSub_def safeAdd_def Coins_negative_def usei_def Coins_IsAnyNegative_def removeZeroCoins_def)
  ultimately show ?thesis
    by (simp add: acc_LockedCoins_def locked_account_def NewBaseVestingAccount_def LockedCoinsFromVesting_def sdk_def)
qed

lemma funded_locked: "LockedCoins sei_env funded_bank a = Inr (if a = ''v'' then usei 1000 else [])"
proof -
  have same: "LockedCoins sei_env funded_bank a = LockedCoins sei_env minted_bank a"
    by (rule SendCoins_accounts [OF conjunct1 [OF minted_ok] funded])
  have "LockedCoins sei_env minted_bank ''v'' = Inr (usei 1000)" by (simp add: LockedCoins_def minted_views locked_account_coins)
  moreover have "LockedCoins sei_env minted_bank a = Inr []" if "a \<noteq> ''v''" "a \<noteq> ''m''"
    using that by (simp add: LockedCoins_def minted_bank_def bank_eval)
  ultimately show ?thesis unfolding same using minted_locked by (cases "a = ''m''") auto
qed

lemma funded_supply: "supply_of funded_bank ''usei'' = 1000"
  using SendCoins_neutral(1) [OF conjunct1 [OF minted_ok] funded, of "''usei''"]
  by (simp add: shifts_def supply_of_def GetSupply_def minted_views)

lemma sei_views [simp]: "CanSendTo sei_env a \<longleftrightarrow> a \<noteq> ''x''" "amt (usei n) d = (if d = ''usei'' then n else 0)"
  "bal minted_bank a d = (if a = ''m'' \<and> d = ''usei'' then 1000 else 0)"
  by (simp_all add: CanSendTo_def sei_env_def usei_def ab.held_def minted_views)

subsection \<open>Properties\<close>

text \<open>C2. In every state that the operations of the bank module reach from an empty bank, in any order and with any
  of them failing, the amounts held by the accounts, the deferred amounts and the wei amount to the recorded
  supply in each denomination, and \<open>TotalSupply\<close> reports no violation, as long as the supply of the base
  denomination fits the integer type when it is expressed in wei.\<close>

theorem reachable_TotalSupply:
  assumes "bank_reachable (be_denoms env) st" and "GetBaseDenom (be_denoms env) = Inr base" and "reDnm_match base"
    and "be_hasDeferredCache env" and "int_in_range (supply_of st base * OneUseiInWei)"
  shows "TotalSupply env st = Some (Inr False) \<and> supply_matches base st"
  using TotalSupply_not_broken [OF _ _ assms(2-5)] reachable_supply [OF assms(1-3)] by simp_all

theorem reachable_TotalSupply_witness: "TotalSupply sei_env funded_bank = Some (Inr False)"
  using reachable_TotalSupply [of sei_env funded_bank "''usei''"] funded_reachable usei_ok funded_supply
  by (simp add: int_in_range_iff OneUseiInWei_def sei_env_def)

text \<open>C6. A transfer of coins in a reachable state succeeds exactly when the recipient is accepted and the sender has
  the amount on top of its locked coins in each denomination sent. It then moves exactly that amount, touches no
  other balance and no wei, and the recipient has an account. No credit overflows, whatever the balances.\<close>

theorem SendCoins_exact:
  assumes "bank_reachable reg st" and "GetBaseDenom reg = Inr base" and "reDnm_match base"
    and "coins_ok amount" and "LockedCoins env st from = Inr l" and "coins_ok l"
  shows "case SendCoins env from to amount st of
      Inl e \<Rightarrow> (\<exists>d. 0 < amt amount d \<and> bal st from d < amt l d + amt amount d \<and>
          e = (if bal st from d < amt l d then negative_panic else ErrInsufficientFunds)) \<or>
        (\<not> CanSendTo env to \<and> e = ErrInvalidRecipient)
    | Inr st' \<Rightarrow> CanSendTo env to \<and> (\<forall>d. 0 < amt amount d \<longrightarrow> amt l d + amt amount d \<le> bal st from d) \<and>
        moved st from to (amt amount) st' \<and> HasAccount (accounts st') to"
  using SendCoins_spec [OF _ _ assms(4-6)] reachable_supply [OF assms(1-3)] by blast

theorem SendCoins_exact_witness:
  "\<exists>st'. SendCoins sei_env ''m'' ''v'' (usei 5) minted_bank = Inr st' \<and> bal st' ''m'' ''usei'' = 995 \<and> bal st' ''v'' ''usei'' = 5"
  using SendCoins_exact [OF minted_reachable usei_ok(2,1) coins_ok_usei(2) minted_locked coins_ok_usei(4), of "''v''"]
  by (auto simp: moved_def split: sum.splits if_splits)

text \<open>C11. Send messages never spend locked coins: when every account holds its locked coins, it still does after any
  sequence of send messages, whatever they ask for and whether or not they succeed.\<close>

theorem sends_keep_locked_coins:
  assumes "bank_reachable reg st" and "GetBaseDenom reg = Inr base" and "reDnm_match base"
    and "locked_covered env st" and "\<And>m. m \<in> set msgs \<Longrightarrow> coins_in_range (MsgAmount m)"
  shows "locked_covered env (fold (deliver_send env) msgs st)"
proof -
  have "bank_ok st" using reachable_supply [OF assms(1-3)] by simp
  with assms(4,5) show ?thesis
    by (induction msgs arbitrary: st) (simp_all add: deliver_send_covered)
qed

lemma funded_covered: "locked_covered sei_env funded_bank"
  unfolding locked_covered_def
proof
  fix a
  show "\<exists>l. LockedCoins sei_env funded_bank a = Inr l \<and> coins_ok l \<and> (\<forall>d. amt l d \<le> bal funded_bank a d)"
    using funded_locked [of a] funded_bal [of a] by (intro exI [of _ "if a = ''v'' then usei 1000 else []"]) simp
qed

theorem sends_keep_locked_coins_witness:
  "locked_covered sei_env (deliver_send sei_env \<lparr>FromAddress = ''v'', ToAddress = ''m'', MsgAmount = usei 1\<rparr> funded_bank)"
  using sends_keep_locked_coins [OF funded_reachable usei_ok(2,1) funded_covered,
      of "[\<lparr>FromAddress = ''v'', ToAddress = ''m'', MsgAmount = usei 1\<rparr>]"] coins_ok_usei(1)
  by (simp add: coins_ok_def)

text \<open>C12. A transfer of an amount in both units, the base denomination and wei, between two accounts succeeds exactly
  when the recipient is accepted and the sender has the total in wei, borrowing across the two units as needed.
  It then moves exactly that total and no other denomination. The sender has no locked coins here.\<close>

theorem SendCoinsAndWei_exact:
  assumes "bank_reachable (be_denoms env) st" and "GetBaseDenom (be_denoms env) = Inr base" and "reDnm_match base"
    and "int_in_range (supply_of st base * OneUseiInWei)" and "0 \<le> amount" and "int_in_range amount"
    and "0 \<le> wei" and "int_in_range wei" and "LockedCoins env st from = Inr []" and "from \<noteq> to"
  shows "case SendCoinsAndWei env from to amount wei st of
      Inl e \<Rightarrow> e = ErrInsufficientFunds \<and> aggregated base st from < amount * OneUseiInWei + wei \<or>
        e = ErrInvalidRecipient \<and> \<not> CanSendTo env to
    | Inr st' \<Rightarrow> CanSendTo env to \<and> amount * OneUseiInWei + wei \<le> aggregated base st from \<and>
        (\<forall>a. aggregated base st' a = aggregated base st a - (if a = from then amount * OneUseiInWei + wei else 0)
          + (if a = to then amount * OneUseiInWei + wei else 0)) \<and>
        (\<forall>a d. d \<noteq> base \<longrightarrow> bal st' a d = bal st a d)"
proof -
  have ok: "bank_ok st" "supply_matches base st" using reachable_supply [OF assms(1-3)] by simp_all
  have must: "MustGetBaseDenom env = Inr base" using assms(2) by (simp add: MustGetBaseDenom_def)
  note effect = SendCoinsAndWei_effect [OF ok(1) must assms(3,5,7)]
  from SendCoinsAndWei_spec [OF ok must assms(3-10)] show ?thesis
    using effect(2) effect(3) by (auto split: sum.splits)
qed

theorem SendCoinsAndWei_exact_witness:
  "\<exists>st'. SendCoinsAndWei sei_env ''m'' ''r'' 2 1 minted_bank = Inr st' \<and> aggregated ''usei'' st' ''r'' = 2 * OneUseiInWei + 1"
proof -
  have "supply_of minted_bank ''usei'' = 1000" by (simp add: supply_of_def GetSupply_def minted_views)
  then show ?thesis
    using SendCoinsAndWei_exact [of sei_env minted_bank "''usei''" 2 1 "''m''" "''r''"] minted_reachable usei_ok minted_locked
    by (auto simp: int_in_range_iff OneUseiInWei_def aggregated_def GetWeiBalance_def minted_views split: sum.splits)
qed


text \<open>C13. The settlement at the end of a block always succeeds when the module addresses can be read back from their
  text and are accepted as recipients: each account is credited exactly with what the transactions of the block
  deferred for it, the cache is empty afterwards, and wei and supply stay the same.\<close>

theorem WriteDeferredBalances_settles:
  assumes "bank_reachable reg st" and "GetBaseDenom reg = Inr base" and "reDnm_match base" and "be_hasDeferredCache env"
    and "\<And>a. a \<in> fst ` fst ` fst ` set (deferred st) \<Longrightarrow>
      be_AccAddressFromBech32 env (be_String env a) = Some a \<and> CanSendTo env a"
  shows "\<exists>st'. WriteDeferredBalances env st = Inr st' \<and> deferred st' = [] \<and>
    (\<forall>a d. bal st' a d = bal st a d + deferred_of st a d) \<and> GetWeiBalance st' = GetWeiBalance st \<and> supplies st' = supplies st"
proof -
  have ok: "bank_ok st" "supply_matches base st" using reachable_supply [OF assms(1-3)] by simp_all
  obtain st' where st': "WriteDeferredBalances env st = Inr st'"
    using WriteDeferred_succeeds [OF ok assms(4,5)] by blast
  from WriteDeferred_credits [OF ok(1) this] assms(5) show ?thesis using st' by blast
qed

definition deferred_bank :: bank where
  "deferred_bank = (case DeferredSendCoinsFromAccountToModule sei_env ''m'' ''bonded'' (usei 5) minted_bank of Inr st \<Rightarrow> st)"

lemma deferred_send:
  "DeferredSendCoinsFromAccountToModule sei_env ''m'' ''bonded'' (usei 5) minted_bank = Inr deferred_bank"
  "deferred deferred_bank = [(((''b'', 3), ''usei''), \<lparr>Denom = ''usei'', Amount = 5\<rparr>)]"
  by (simp_all add: deferred_bank_def DeferredSendCoinsFromAccountToModule_def minted_bank_def bank_eval debit_eval
      UpsertBalances_def upsertBalance_def dc_GetBalance_def dc_setBalance_def)


lemma deferred_reachable: "bank_reachable sei_registry deferred_bank"
  by (rule bank_reachable.step [OF minted_reachable usei_ok(3) bank_step.defer_send [OF deferred_send(1)]])

theorem WriteDeferredBalances_settles_witness:
  "\<exists>st'. WriteDeferredBalances sei_env deferred_bank = Inr st' \<and> bal st' ''b'' ''usei'' = bal deferred_bank ''b'' ''usei'' + 5"
proof -
  have "deferred_of deferred_bank ''b'' ''usei'' = 5" by (simp add: deferred_of_def deferred_send(2))
  then show ?thesis
    using WriteDeferredBalances_settles [OF deferred_reachable usei_ok(2,1), of sei_env]
    by (auto simp: deferred_send(2) CanSendTo_def sei_env_def)
qed

text \<open>C25. The supply is collected page by page from the store, and the loop ends: in every reachable state
  \<open>CollectAllTotalSupply\<close> returns, without a panic, a valid set of coins with the recorded supply of each
  denomination, however many pages there are.\<close>

theorem CollectAllTotalSupply_returns:
  assumes "bank_reachable reg st" and "GetBaseDenom reg = Inr base" and "reDnm_match base"
  shows "\<exists>s. CollectAllTotalSupply st = Some (Inr s) \<and> Coins_IsValid s \<and> (\<forall>d. amt s d = Amount (GetSupply st d))"
  using CollectAllTotalSupply_spec [of st] reachable_supply [OF assms] by (auto simp: coins_ok_def supply_of_def)

theorem CollectAllTotalSupply_returns_witness:
  "\<exists>s. CollectAllTotalSupply funded_bank = Some (Inr s) \<and> amt s ''usei'' = 1000"
  using CollectAllTotalSupply_returns [OF funded_reachable usei_ok(2,1)] funded_supply by (auto simp: supply_of_def)

text \<open>C26. What the stores hold in a reachable state is well formed: a balance, in the accounts and in the deferred
  cache, is stored once, under its own valid denomination, and is positive and within the integer type; the wei
  of an account is positive and below one unit of the base denomination; and a recorded supply is positive.\<close>

theorem reachable_well_formed:
  assumes "bank_reachable reg st" and "GetBaseDenom reg = Inr base" and "reDnm_match base"
  shows "distinct (gm_keys (balances st)) \<and> distinct (gm_keys (deferred st)) \<and> distinct (gm_keys (weiBalances st)) \<and>
    distinct (gm_keys (supplies st)) \<and>
    list_all (\<lambda>((a, d), c). Denom c = d \<and> reDnm_match d \<and> 0 < Amount c \<and> int_in_range (Amount c)) (balances st) \<and>
    list_all (\<lambda>((k, d), c). Denom c = d \<and> reDnm_match d \<and> 0 < Amount c \<and> int_in_range (Amount c)) (deferred st) \<and>
    list_all (\<lambda>(a, w). 0 < w \<and> w < OneUseiInWei) (weiBalances st) \<and>
    list_all (\<lambda>(d, s). reDnm_match d \<and> 0 < s \<and> int_in_range s) (supplies st)"
proof -
  have "bank_ok st" using reachable_supply [OF assms] by simp
  then show ?thesis by (auto simp: bank_ok_def entries_ok_def wei_ok_def supply_ok_def entry_ok_def list_all_iff)
qed

theorem reachable_well_formed_witness: "distinct (gm_keys (balances funded_bank)) \<and>
  list_all (\<lambda>((a, d), c). Denom c = d \<and> reDnm_match d \<and> 0 < Amount c \<and> int_in_range (Amount c)) (balances funded_bank)"
  using reachable_well_formed [OF funded_reachable usei_ok(2,1)] by blast

text \<open>C40. A transfer in wei ignores the lock of a vesting account: an account whose whole balance is locked can send
  less than one unit of the base denomination in wei, which is taken from the locked balance. The account then
  holds less than its locked coins, and a later attempt to send any amount of the base denomination panics
  instead of returning an error.\<close>

theorem wei_spends_locked_coins:
  assumes "bank_reachable (be_denoms env) st" and "GetBaseDenom (be_denoms env) = Inr base" and "reDnm_match base"
    and "int_in_range (supply_of st base * OneUseiInWei)" and "LockedCoins env st from = Inr l" and "coins_ok l"
    and "bal st from base = amt l base" and "0 < amt l base" and "GetWeiBalance st from = 0"
    and "CanSendTo env to" and "from \<noteq> to" and "0 < wei" and "wei < OneUseiInWei" and "0 < x" and "int_in_range x"
  shows "\<exists>st'. SendCoinsAndWei env from to 0 wei st = Inr st' \<and> bal st' from base < amt l base \<and>
    LockedCoins env st' from = Inr l \<and> SendCoins env from to [\<lparr>Denom = base, Amount = x\<rparr>] st' = Inl negative_panic"
proof -
  have ok: "bank_ok st" "supply_matches base st" using reachable_supply [OF assms(1-3)] by simp_all
  have must: "MustGetBaseDenom env = Inr base" using assms(2) by (simp add: MustGetBaseDenom_def)
  have wei: "int_in_range wei" using assms(12,13) by (intro int_in_range_mono [OF _ OneUseiInWei_in_range]) simp
  have agg: "aggregated base st from = amt l base * OneUseiInWei" using assms(7,9) by (simp add: aggregated_def)
  moreover have "1 * OneUseiInWei \<le> amt l base * OneUseiInWei" using assms(8) by (intro mult_right_mono) (simp_all add: less_imp_le)
  ultimately have "wei \<le> aggregated base st from" using assms(13) by linarith
  with wei_leg [OF ok must assms(3,4) _ wei, of "from" to] assms(10,12) obtain st1 st2 where
    s: "SubWei env from wei st = Inr st1" "AddWei env to wei st1 = Inr st2" "bank_ok st2" "supply_matches base st2"
      "accounts st2 = accounts st" "aggregated base st2 from = aggregated base st from - wei"
    using assms(11) by auto
  have low: "bal st2 from base < amt l base"
    using aggregated_ge_iff [OF s(3), of "amt l base" base "from"] s(6) agg assms(12) by simp
  have locked: "LockedCoins env st2 from = Inr l" using assms(5) s(5) by (simp add: LockedCoins_def)
  have "SendCoins env from to [\<lparr>Denom = base, Amount = x\<rparr>] st2 = Inl negative_panic"
    by (rule SendCoins_below_lock [OF s(3,4) assms(3,14,15) locked assms(6,10) low])
  moreover have "SendCoinsAndWei env from to 0 wei st = Inr st2" using s(1,2) by (simp add: SendCoinsAndWei_def)
  ultimately show ?thesis using low locked by blast
qed

theorem wei_spends_locked_coins_witness:
  "\<exists>st'. SendCoinsAndWei sei_env ''v'' ''r'' 0 1 funded_bank = Inr st' \<and> bal st' ''v'' ''usei'' < 1000 \<and>
    SendCoins sei_env ''v'' ''r'' [\<lparr>Denom = ''usei'', Amount = 1\<rparr>] st' = Inl negative_panic"
proof -
  have "GetWeiBalance funded_bank = GetWeiBalance minted_bank"
    using SendCoins_neutral(2) [OF conjunct1 [OF minted_ok] funded] by (simp add: moved_def)
  then have "GetWeiBalance funded_bank ''v'' = 0" by (simp add: GetWeiBalance_def minted_views)
  then show ?thesis
    using wei_spends_locked_coins [of sei_env funded_bank "''usei''" "''v''" "usei 1000" "''r''" 1 1] funded_reachable usei_ok
      funded_supply funded_locked [of "''v''"] funded_bal
    by (auto simp: int_in_range_iff OneUseiInWei_def)
qed

end
