(* ===== verification/FactoryProps.thy ===== *)
theory FactoryProps
  imports TokenFactory BankProps
begin

text \<open>
  The token factory: names of denominations, what a message does to supply and balances, who may change
  a denomination, the supply of the bank over all messages, and the round trip through genesis.
\<close>

subsection \<open>Names\<close>

lemma split_on_nonempty: "split_on c s \<noteq> []"
  by (induction s) (auto split: list.splits)

lemma split_on_join: "join_slash (split_on (CHR ''/'') s) = s"
proof (induction s)
  case (Cons x xs)
  then show ?case by (cases "split_on (CHR ''/'') xs" rule: join_slash.cases) (auto simp: split_on_nonempty)
qed simp

lemma join_slash_append: "ss \<noteq> [] \<Longrightarrow> join_slash (s # ss) = s @ CHR ''/'' # join_slash ss"
  by (cases ss) simp_all

lemma DeconstructDenom_Inr:
  assumes "DeconstructDenom env denom = Inr (creator, subdenom)"
  shows "denom = join_slash [ModuleDenomPrefix, creator, subdenom]" and "reDnm_match denom"
    and "be_AccAddressFromBech32 env creator \<noteq> None"
proof -
  let ?ps = "split_on (CHR ''/'') denom"
  have p: "\<not> length ?ps < 3" "?ps ! 0 = ModuleDenomPrefix" "be_AccAddressFromBech32 env (?ps ! 1) \<noteq> None"
      "creator = ?ps ! 1" "subdenom = join_slash (drop 2 ?ps)" and v: "reDnm_match denom"
    using assms by (auto simp: DeconstructDenom_def valid_denom_def ValidateDenom_def Let_def split: if_splits)
  then obtain r where ps: "?ps = ModuleDenomPrefix # creator # r" "r \<noteq> []"
    by (cases ?ps; cases "tl ?ps"; cases "tl (tl ?ps)") auto
  have "denom = join_slash ?ps" by (simp add: split_on_join)
  then show "denom = join_slash [ModuleDenomPrefix, creator, subdenom]" using ps p(5) by (simp add: join_slash_append)
  show "reDnm_match denom" by (rule v)
  show "be_AccAddressFromBech32 env creator \<noteq> None" using p by simp
qed

lemma GetTokenDenom_Inr:
  assumes "GetTokenDenom creator subdenom = Inr denom"
  shows "denom = ModuleDenomPrefix @ CHR ''/'' # creator @ CHR ''/'' # subdenom" and "reDnm_match denom" and "CHR ''/'' \<notin> set creator"
  using assms by (auto simp: GetTokenDenom_def Let_def valid_denom_def ValidateDenom_def split: if_splits)

lemma Deconstruct_GetTokenDenom:
  assumes "GetTokenDenom creator subdenom = Inr denom" and "be_AccAddressFromBech32 env creator \<noteq> None"
  shows "DeconstructDenom env denom = Inr (creator, subdenom)"
proof -
  note d = GetTokenDenom_Inr [OF assms(1)]
  have "split_on (CHR ''/'') (ModuleDenomPrefix @ CHR ''/'' # creator @ CHR ''/'' # subdenom) =
      ModuleDenomPrefix # creator # split_on (CHR ''/'') subdenom"
    using d(3) by (simp add: split_on_once ModuleDenomPrefix_def)
  then have "split_on (CHR ''/'') denom = ModuleDenomPrefix # creator # split_on (CHR ''/'') subdenom" using d(1) by simp
  with d(2) assms(2) show ?thesis
    by (simp add: DeconstructDenom_def valid_denom_def ValidateDenom_def Let_def split_on_join split_on_nonempty)
qed

subsection \<open>Module accounts\<close>

text \<open>Accounts are stored under their own address.\<close>

definition auth_ok :: "auth \<Rightarrow> bool" where
  "auth_ok ak \<longleftrightarrow> (\<forall>a acc. GetAccount ak a = Some acc \<longrightarrow> Address (base_account acc) = a)"

lemma auth_ok_set: "auth_ok ak \<Longrightarrow> auth_ok (SetAccount acc ak)"
  by (auto simp: auth_ok_def GetAccount_def SetAccount_def gomap_simps)

lemma set_account_number_address: "Address (base_account (set_account_number n acc)) = Address (base_account acc)"
  by (cases acc) simp_all

lemma auth_ok_next: "GetNextAccountNumber ak = (n, ak') \<Longrightarrow> auth_ok ak \<Longrightarrow> auth_ok ak'"
  by (auto simp: GetNextAccountNumber_def auth_ok_def GetAccount_def Let_def)

lemma GetModuleAccount_at:
  assumes "auth_ok ak" and "GetModuleAccount pt name ak = Inr (Some acc, ak')"
  shows "GetModuleAddress pt name = Some (Address (base_account acc))" and "auth_ok ak'"
proof -
  obtain addr perms where pt: "gm_load pt name = Some (addr, perms)"
    using assms(2) by (auto simp: GetModuleAccount_def split: option.splits)
  have "Address (base_account acc) = addr \<and> auth_ok ak'"
  proof (cases "GetAccount ak addr")
    case None
    obtain n ak1 where next_n: "GetNextAccountNumber ak = (n, ak1)" by (cases "GetNextAccountNumber ak")
    then show ?thesis
      using assms pt None auth_ok_next [OF next_n assms(1)] auth_ok_set
      by (auto simp: GetModuleAccount_def NewEmptyModuleAccount_def NewAccount_def split: if_splits)
  next
    case (Some acc0)
    then show ?thesis using assms pt by (auto simp: GetModuleAccount_def auth_ok_def split: if_splits)
  qed
  then show "GetModuleAddress pt name = Some (Address (base_account acc))" "auth_ok ak'" using pt by (simp_all add: GetModuleAddress_def)
qed

lemma module_account_at:
  assumes "auth_ok (accounts st)" and "module_account env name st = Inr (acc, st')"
  shows "GetModuleAddress (be_permAddrs env) name = Some (acc_address acc)" and "auth_ok (accounts st')"
    and "st' = st\<lparr>accounts := accounts st'\<rparr>"
proof -
  obtain ak where g: "GetModuleAccount (be_permAddrs env) name (accounts st) = Inr (Some acc, ak)" "st' = st\<lparr>accounts := ak\<rparr>"
    using assms(2) by (auto simp: module_account_def sum_bind_Inr_iff lift_acc_def split: option.splits sum.splits)
  from GetModuleAccount_at [OF assms(1) g(1)] g(2)
  show "GetModuleAddress (be_permAddrs env) name = Some (acc_address acc)" "auth_ok (accounts st')" "st' = st\<lparr>accounts := accounts st'\<rparr>"
    by (simp_all add: acc_address_def)
qed


subsection \<open>Minting and burning\<close>

text \<open>One account changes by \<open>g\<close>, and nothing else of what the accounts hold does.\<close>

definition gains :: "bank \<Rightarrow> addr \<Rightarrow> (string \<Rightarrow> int) \<Rightarrow> bank \<Rightarrow> bool" where
  "gains st a g st' \<longleftrightarrow> bank_ok st' \<and> auth_ok (accounts st') \<and> GetWeiBalance st' = GetWeiBalance st \<and>
     allowLists st' = allowLists st \<and>
     (\<forall>a' d. bal st' a' d = bal st a' d + (if a' = a then g d else 0))"

definition same_holdings :: "bank \<Rightarrow> bank \<Rightarrow> bool" where
  "same_holdings st st' \<longleftrightarrow> balances st' = balances st \<and> weiBalances st' = weiBalances st \<and> accounts st' = accounts st \<and>
     allowLists st' = allowLists st"

lemma each_same_holdings:
  assumes "\<And>c st st'. f c st = Inr st' \<Longrightarrow> same_holdings st st'"
  shows "each f cs st = Inr st' \<Longrightarrow> same_holdings st st'"
proof (induction cs arbitrary: st)
  case (Cons c cs)
  from Cons.prems obtain st1 where st1: "f c st = Inr st1" "each f cs st1 = Inr st'" by (auto simp: sum_bind_Inr_iff)
  from assms [OF st1(1)] Cons.IH [OF st1(2)] show ?case by (simp add: same_holdings_def)
qed (simp add: same_holdings_def)

lemma supply_views:
  "add_supply c st = Inr st' \<Longrightarrow> same_holdings st st'" "sub_supply c st = Inr st' \<Longrightarrow> same_holdings st st'"
  by (auto simp: same_holdings_def sum_bind_Inr_iff add_supply_def sub_supply_def SetSupply_def)

lemma supply_loop_views:
  "each add_supply cs st = Inr st' \<Longrightarrow> same_holdings st st'" "each sub_supply cs st = Inr st' \<Longrightarrow> same_holdings st st'"
  by (erule each_same_holdings [rotated], erule supply_views)+

lemma bal_cong: "balances st' = balances st \<Longrightarrow> bal st' = bal st"
  by (simp add: ab.held_def fun_eq_iff)

lemma wei_cong: "weiBalances st' = weiBalances st \<Longrightarrow> GetWeiBalance st' = GetWeiBalance st"
  by (simp add: GetWeiBalance_def fun_eq_iff)

lemma module_ledger:
  assumes "bank_ok st" and "auth_ok (accounts st)"
    and "module_account env name st = Inr (acc, st1)" and "module_account env name st1 = Inr (acc', st2)"
    and "ab.changes st2 (acc_address acc') g st3"
    and "same_holdings st3 st'" and "bank_ok st'"
  shows "\<exists>a. GetModuleAddress (be_permAddrs env) name = Some a \<and> gains st a g st'"
proof -
  note m1 = module_account_at [OF assms(2,3)]
  note m2 = module_account_at [OF m1(2) assms(4)]
  obtain ak1 ak2 where ak: "st1 = st\<lparr>accounts := ak1\<rparr>" "st2 = st1\<lparr>accounts := ak2\<rparr>"
    using module_account_Inr [OF assms(3)] module_account_Inr [OF assms(4)] by blast
  have b2: "bal st2 a d = bal st a d" "GetWeiBalance st2 a = GetWeiBalance st a" "allowLists st2 = allowLists st" for a d
    unfolding ak by simp_all
  have b3: "GetWeiBalance st3 = GetWeiBalance st2" "accounts st3 = accounts st2" "allowLists st3 = allowLists st2"
    by (rule wei_cong [OF changes_frame(1) [OF assms(5)]], rule changes_frame(6) [OF assms(5)], rule changes_frame(4) [OF assms(5)])
  have "bal st' = bal st3" "GetWeiBalance st' = GetWeiBalance st3" "accounts st' = accounts st3" "allowLists st' = allowLists st3"
    using assms(6) bal_cong [of st' st3] wei_cong [of st' st3] by (simp_all add: same_holdings_def)
  moreover have "\<forall>a d. bal st3 a d = bal st2 a d + (if a = acc_address acc' then g d else 0)"
    using assms(5) unfolding ab.changes_def by blast
  ultimately have "gains st (acc_address acc') g st'" using assms(7) m2(2) b2 b3 by (simp add: gains_def fun_eq_iff)
  with m2(1) show ?thesis by blast
qed

lemma module_account_ok: "bank_ok st \<Longrightarrow> module_account env name st = Inr (acc, st') \<Longrightarrow> bank_ok st'"
  using module_account_Inr [of env name st acc st'] by auto

lemma MintCoins_gains:
  assumes "bank_ok st" and "auth_ok (accounts st)" and "MintCoins env name amounts st = Inr st'"
  shows "\<exists>a. GetModuleAddress (be_permAddrs env) name = Some a \<and> gains st a (amt amounts) st'"
proof -
  obtain acc st1 acc' st2 st3 where s: "module_account env name st = Inr (acc, st1)" "module_account env name st1 = Inr (acc', st2)"
      "AddCoins env (acc_address acc') amounts True st2 = Inr st3" "each add_supply amounts st3 = Inr st'"
    using assms(3) by (auto simp: MintCoins_def createCoins_def sum_bind_Inr_iff split: if_splits)
  have "bank_ok st2" by (rule module_account_ok [OF module_account_ok [OF assms(1) s(1)] s(2)])
  then have "balances_ok st2" by (simp add: bank_ok_def)
  note ch = AddCoins_changes(1) [OF this s(3)]
  have "bank_ok st'" using MintCoins_shifts [OF assms(1,3)] by (simp add: shifts_def)
  from module_ledger [OF assms(1,2) s(1,2) ch supply_loop_views(1) [OF s(4)] this] show ?thesis .
qed

lemma BurnCoins_gains:
  assumes "bank_ok st" and "auth_ok (accounts st)" and "BurnCoins env name amounts st = Inr st'"
  shows "\<exists>a. GetModuleAddress (be_permAddrs env) name = Some a \<and> gains st a (\<lambda>d. - amt amounts d) st'"
proof -
  obtain acc st1 acc' st2 st3 where s: "module_account env name st = Inr (acc, st1)" "module_account env name st1 = Inr (acc', st2)"
      "SubUnlockedCoins env (acc_address acc') amounts True st2 = Inr st3" "each sub_supply amounts st3 = Inr st'"
    using assms(3) by (auto simp: BurnCoins_def destroyCoins_def sum_bind_Inr_iff split: if_splits)
  have "bank_ok st2" by (rule module_account_ok [OF module_account_ok [OF assms(1) s(1)] s(2)])
  then have "balances_ok st2" by (simp add: bank_ok_def)
  note ch = SubUnlockedCoins_changes(1) [OF this s(3)]
  have "bank_ok st'" using BurnCoins_shifts [OF assms(1,3)] by (simp add: shifts_def)
  from module_ledger [OF assms(1,2) s(1,2) ch supply_loop_views(2) [OF s(4)] this] show ?thesis .
qed


lemma create_account_auth_ok: "auth_ok (accounts st) \<Longrightarrow> auth_ok (accounts (create_account a st))"
  by (auto simp: create_account_def NewAccountWithAddress_def NewAccount_def intro!: auth_ok_set dest: auth_ok_next split: prod.splits)

lemma SendCoins_auth_ok:
  assumes "bank_ok st" and "auth_ok (accounts st)" and "SendCoins env from to amount st = Inr st'"
  shows "auth_ok (accounts st')"
proof -
  obtain st1 where st1: "SendCoinsWithoutAccCreation env from to amount st = Inr st1" "st' = create_account to st1"
    using assms(3) by (auto simp: SendCoins_def sum_bind_Inr_iff)
  with send_neutral(3) [OF assms(1) st1(1)] assms(2) show ?thesis by (simp add: create_account_auth_ok)
qed

lemma SendCoins_allowLists:
  assumes "bank_ok st" and "SendCoins env from to amount st = Inr st'"
  shows "allowLists st' = allowLists st"
proof -
  obtain st1 st2 where s: "SubUnlockedCoins env from amount True st = Inr st1" "AddCoins env to amount True st1 = Inr st2"
      "st' = create_account to st2"
    using assms(2) by (auto simp: SendCoins_def SendCoinsWithoutAccCreation_def sendCoinsWithoutAccCreation_def sum_bind_Inr_iff)
  have "balances_ok st" using assms(1) by (simp add: bank_ok_def)
  note c1 = SubUnlockedCoins_changes(1) [OF this s(1)]
  note c2 = AddCoins_changes(1) [OF changes_frame(7) [OF c1] s(2)]
  show ?thesis using changes_frame(4) [OF c1] changes_frame(4) [OF c2] s(3) by (simp add: create_account_def split: prod.splits)
qed

lemma lift_bank_Inr [simp]: "lift_bank r = Inr x \<longleftrightarrow> r = Inr x"
  by (cases r) (simp_all add: lift_bank_def)

lemma factory_bank_perms [simp]: "be_permAddrs (factory_bank env) = be_permAddrs env" "be_denoms (factory_bank env) = be_denoms env"
  by (simp_all add: factory_bank_def WithMintCoinsRestriction_def)

lemma positive_single:
  assumes "positive_coin c"
  shows "NewCoins [c] = Inr [c]" and "amt [c] d = (if d = Denom c then Amount c else 0)" and "Coins_IsValid [c]"
proof -
  show "Coins_IsValid [c]" using assms by (auto simp: positive_coin_def Coin_Validate_def ValidateDenom_def split: if_splits)
  then show "NewCoins [c] = Inr [c]" by (rule NewCoins_valid)
qed simp

text \<open>What a message adds to the supply of a denomination.\<close>

fun msg_delta :: "factory_msg \<Rightarrow> string \<Rightarrow> int" where
  "msg_delta (MsgMint sender c) d = (if d = Denom c then Amount c else 0)"
| "msg_delta (MsgBurn sender c) d = (if d = Denom c then - Amount c else 0)"
| "msg_delta _ d = 0"

lemma msg_delta_other [simp]:
  "msg_delta (MsgCreateDenom s d l) = (\<lambda>_. 0)" "msg_delta (MsgUpdateDenom s d l) = (\<lambda>_. 0)"
  "msg_delta (MsgChangeAdmin s d n) = (\<lambda>_. 0)" "msg_delta (MsgSetDenomMetadata s m) = (\<lambda>_. 0)"
  by (simp_all add: fun_eq_iff)

text \<open>The bank after a message: one account and the supply change by \<open>g\<close>.\<close>

definition bank_effect :: "bank \<Rightarrow> addr option \<Rightarrow> (string \<Rightarrow> int) \<Rightarrow> bank \<Rightarrow> bool" where
  "bank_effect bk a g bk' \<longleftrightarrow> bank_ok bk' \<and> auth_ok (accounts bk') \<and> GetWeiBalance bk' = GetWeiBalance bk \<and>
     (\<forall>d. supply_of bk' d = supply_of bk d + g d) \<and>
     (\<forall>b d. bal bk' b d = bal bk b d + (if a = Some b then g d else 0))"

lemma bank_effect_none: "bank_ok bk \<Longrightarrow> auth_ok (accounts bk) \<Longrightarrow> bank_effect bk a (\<lambda>_. 0) bk"
  by (simp add: bank_effect_def)

lemma mint_effect:
  assumes "bank_ok bk" and "auth_ok (accounts bk)" and "MintCoins env name cs bk = Inr bk1"
    and "SendCoinsFromModuleToAccount env name addr cs bk1 = Inr bk'"
  shows "bank_effect bk (Some addr) (amt cs) bk' \<and> allowLists bk' = allowLists bk"
proof -
  obtain m where m: "GetModuleAddress (be_permAddrs env) name = Some m" "gains bk m (amt cs) bk1"
    using MintCoins_gains [OF assms(1-3)] by blast
  then have ok1: "bank_ok bk1" "auth_ok (accounts bk1)" by (simp_all add: gains_def)
  have send: "SendCoins env m addr cs bk1 = Inr bk'"
    using assms(4) m(1) by (simp add: SendCoinsFromModuleToAccount_def split: if_splits)
  have "supply_of bk1 d = supply_of bk d + amt cs d" "supply_of bk' d = supply_of bk1 d" for d
    using MintCoins_shifts [OF assms(1,3)] SendCoins_neutral(1) [OF ok1(1) send] by (simp_all add: shifts_def)
  moreover have "bank_ok bk'" using SendCoins_neutral(1) [OF ok1(1) send] by (simp add: shifts_def)
  ultimately show ?thesis
    using m(2) SendCoins_neutral(2) [OF ok1(1) send] SendCoins_auth_ok [OF ok1 send] SendCoins_allowLists [OF ok1(1) send]
    by (simp add: bank_effect_def gains_def moved_def)
qed

lemma burn_effect:
  assumes "bank_ok bk" and "auth_ok (accounts bk)" and "SendCoinsFromAccountToModule env addr name cs bk = Inr bk1"
    and "BurnCoins env name cs bk1 = Inr bk'"
  shows "bank_effect bk (Some addr) (\<lambda>d. - amt cs d) bk' \<and> allowLists bk' = allowLists bk"
proof -
  obtain acc bk0 where mod: "module_account env name bk = Inr (acc, bk0)" and send: "SendCoins env addr (acc_address acc) cs bk0 = Inr bk1"
    using assms(3) by (auto simp: SendCoinsFromAccountToModule_def sum_bind_Inr_iff)
  note at = module_account_at [OF assms(2) mod]
  have ok0: "bank_ok bk0" by (rule module_account_ok [OF assms(1) mod])
  obtain ak where bk0: "bk0 = bk\<lparr>accounts := ak\<rparr>" using module_account_Inr [OF mod] by blast
  have ok1: "bank_ok bk1" "auth_ok (accounts bk1)"
    using SendCoins_neutral(1) [OF ok0 send] SendCoins_auth_ok [OF ok0 at(2) send] by (simp_all add: shifts_def)
  have burn: "gains bk1 (acc_address acc) (\<lambda>d. - amt cs d) bk'" using BurnCoins_gains [OF ok1 assms(4)] at(1) by simp
  have "supply_of bk1 d = supply_of bk0 d" "supply_of bk' d = supply_of bk1 d - amt cs d" for d
    using SendCoins_neutral(1) [OF ok0 send] BurnCoins_shifts [OF ok1(1) assms(4)] by (simp_all add: shifts_def)
  then show ?thesis
    using burn SendCoins_neutral(2) [OF ok0 send] SendCoins_allowLists [OF ok0 send] by (simp add: bank_effect_def gains_def moved_def bk0) (simp add: fun_eq_iff)
qed


subsection \<open>Messages\<close>

lemma mintTo_effect:
  assumes "bank_ok (tf_bank st)" and "auth_ok (accounts (tf_bank st))" and "positive_coin c" and "mintTo env c sender st = Inr st'"
  shows "bank_effect (tf_bank st) (be_AccAddressFromBech32 env sender) (msg_delta (MsgMint sender c)) (tf_bank st')"
    and "allowLists (tf_bank st') = allowLists (tf_bank st)"
proof -
  obtain bk addr bk' where s: "MintCoins (factory_bank env) ModuleName [c] (tf_bank st) = Inr bk"
      "be_AccAddressFromBech32 env sender = Some addr"
      "SendCoinsFromModuleToAccount (factory_bank env) ModuleName addr [c] bk = Inr bk'" "st' = st\<lparr>tf_bank := bk'\<rparr>"
    using assms(4) by (auto simp: mintTo_def sum_bind_Inr_iff positive_single(1) [OF assms(3)] split: option.splits)
  have "msg_delta (MsgMint sender c) = amt [c]" by (auto simp: fun_eq_iff)
  with mint_effect [OF assms(1,2) s(1,3)] s(2,4)
  show "bank_effect (tf_bank st) (be_AccAddressFromBech32 env sender) (msg_delta (MsgMint sender c)) (tf_bank st')"
    and "allowLists (tf_bank st') = allowLists (tf_bank st)" by simp_all
qed

lemma burnFrom_effect:
  assumes "bank_ok (tf_bank st)" and "auth_ok (accounts (tf_bank st))" and "positive_coin c" and "burnFrom env c sender st = Inr st'"
  shows "bank_effect (tf_bank st) (be_AccAddressFromBech32 env sender) (msg_delta (MsgBurn sender c)) (tf_bank st')"
    and "allowLists (tf_bank st') = allowLists (tf_bank st)"
proof -
  obtain bk addr bk' where s: "SendCoinsFromAccountToModule (factory_bank env) addr ModuleName [c] (tf_bank st) = Inr bk"
      "be_AccAddressFromBech32 env sender = Some addr"
      "BurnCoins (factory_bank env) ModuleName [c] bk = Inr bk'" "st' = st\<lparr>tf_bank := bk'\<rparr>"
    using assms(4) by (auto simp: burnFrom_def sum_bind_Inr_iff positive_single(1) [OF assms(3)] split: option.splits)
  have "msg_delta (MsgBurn sender c) = (\<lambda>d. - amt [c] d)" by (auto simp: fun_eq_iff)
  with burn_effect [OF assms(1,2) s(1,3)] s(2,4)
  show "bank_effect (tf_bank st) (be_AccAddressFromBech32 env sender) (msg_delta (MsgBurn sender c)) (tf_bank st')"
    and "allowLists (tf_bank st') = allowLists (tf_bank st)" by simp_all
qed

text \<open>Every message but minting and burning at most changes an allow list of the bank.\<close>

definition bank_same :: "factory \<Rightarrow> factory \<Rightarrow> bool" where
  "bank_same st st' \<longleftrightarrow> (\<exists>l. tf_bank st' = (tf_bank st)\<lparr>allowLists := l\<rparr>)"

lemma bank_sameI: "tf_bank st' = tf_bank st \<Longrightarrow> bank_same st st'"
  "tf_bank st' = SetDenomAllowList d l (tf_bank st) \<Longrightarrow> bank_same st st'"
  by (auto simp: bank_same_def SetDenomAllowList_def intro: exI [of _ "allowLists (tf_bank st)"])

lemma bank_same_effect:
  assumes "bank_ok (tf_bank st)" and "auth_ok (accounts (tf_bank st))" and "bank_same st st'"
  shows "bank_effect (tf_bank st) a (\<lambda>_. 0) (tf_bank st')"
proof -
  obtain l where l: "tf_bank st' = (tf_bank st)\<lparr>allowLists := l\<rparr>" using assms(3) by (auto simp: bank_same_def)
  show ?thesis
    using assms(1,2) by (simp add: bank_effect_def l bank_ok_def wei_ok_def supply_ok_def supply_of_def GetSupply_def ab.held_def)
      (simp add: GetWeiBalance_def fun_eq_iff)
qed

lemma createDenom_Inr:
  assumes "createDenomAfterValidation env creator denom st = Inr st'"
  shows "tf_bank st' = tf_bank st" and "tf_admins st' = gm_store denom creator (tf_admins st)"
    and "tf_creators st' = gm_store (creator, denom) denom (tf_creators st)"
    and "tf_metadata st' = gm_store denom (denom_metadata denom) (tf_metadata st)"
    and "tf_DenomAllowListMaxSize st' = tf_DenomAllowListMaxSize st" and "AuthorityMetadata_Validate env creator = Inr ()"
  using assms by (auto simp: createDenomAfterValidation_def setAuthorityMetadata_def SetDenomMetaData_def addDenomFromCreator_def
      denom_metadata_def sum_bind_Inr_iff)

lemma srv_CreateDenom_Inr:
  assumes "srv_CreateDenom env sender subdenom allowList st = Inr st'"
  obtains denom st1 where "GetTokenDenom sender subdenom = Inr denom" and "GetDenomMetaData st denom = None"
    and "createDenomAfterValidation env sender denom st = Inr st1"
    and "st' = st1 \<or> (\<exists>l. st' = st1\<lparr>tf_bank := SetDenomAllowList denom l (tf_bank st1)\<rparr>)"
  using assms by (auto simp: srv_CreateDenom_def CreateDenom_def validateCreateDenom_def sum_bind_Inr_iff split: if_splits)

lemma tf_deliver_Inr:
  assumes "tf_deliver env msg st = Inr st'"
  shows "tf_handle env msg st = Inr st'" and "be_AccAddressFromBech32 env (Sender msg) \<noteq> None" and "tf_ValidateBasic env msg = Inr ()"
  using assms by (auto simp: tf_deliver_def sum_bind_Inr_iff split: if_splits)

lemma deliver_effect:
  assumes "bank_ok (tf_bank st)" and "auth_ok (accounts (tf_bank st))" and "tf_deliver env msg st = Inr st'"
  shows "bank_effect (tf_bank st) (be_AccAddressFromBech32 env (Sender msg)) (msg_delta msg) (tf_bank st')"
    and "msg_delta msg d \<noteq> 0 \<Longrightarrow> GetAuthorityMetadata st d = Sender msg"
proof -
  note h = tf_deliver_Inr [OF assms(3)]
  note same = bank_same_effect [OF assms(1,2)]
  have "bank_effect (tf_bank st) (be_AccAddressFromBech32 env (Sender msg)) (msg_delta msg) (tf_bank st') \<and>
    (msg_delta msg d \<noteq> 0 \<longrightarrow> GetAuthorityMetadata st d = Sender msg)"
  proof (cases msg)
    case (MsgCreateDenom sender subdenom allowList)
    with h(1) obtain denom st1 where "createDenomAfterValidation env sender denom st = Inr st1"
      "st' = st1 \<or> (\<exists>l. st' = st1\<lparr>tf_bank := SetDenomAllowList denom l (tf_bank st1)\<rparr>)" by (auto elim!: srv_CreateDenom_Inr)
    then have "bank_same st st'" by (auto simp: createDenom_Inr(1) intro: bank_sameI)
    with same MsgCreateDenom show ?thesis by simp
  next
    case (MsgUpdateDenom sender denom allowList)
    with h(1) have "bank_same st st'"
      by (auto simp: srv_UpdateDenom_def sum_bind_Inr_iff intro: bank_sameI split: if_splits option.splits)
    with same MsgUpdateDenom show ?thesis by simp
  next
    case (MsgMint sender c)
    with h(1,3) have m: "positive_coin c" "mintTo env c sender st = Inr st'" "GetAuthorityMetadata st (Denom c) = sender"
      by (auto simp: srv_Mint_def ensure_def split: if_splits)
    from mintTo_effect(1) [OF assms(1,2) m(1,2)] m(3) show ?thesis unfolding MsgMint by simp
  next
    case (MsgBurn sender c)
    with h(1,3) have m: "positive_coin c" "burnFrom env c sender st = Inr st'" "GetAuthorityMetadata st (Denom c) = sender"
      by (auto simp: srv_Burn_def ensure_def split: if_splits)
    from burnFrom_effect(1) [OF assms(1,2) m(1,2)] m(3) show ?thesis unfolding MsgBurn by simp
  next
    case (MsgChangeAdmin sender denom newAdmin)
    with h(1) have "bank_same st st'"
      by (auto simp: srv_ChangeAdmin_def setAdmin_def setAuthorityMetadata_def sum_bind_Inr_iff intro: bank_sameI split: if_splits)
    with same MsgChangeAdmin show ?thesis by simp
  next
    case (MsgSetDenomMetadata sender m)
    with h(1) have "bank_same st st'"
      by (auto simp: srv_SetDenomMetadata_def SetDenomMetaData_def sum_bind_Inr_iff intro: bank_sameI split: if_splits)
    with same MsgSetDenomMetadata show ?thesis by simp
  qed
  then show "bank_effect (tf_bank st) (be_AccAddressFromBech32 env (Sender msg)) (msg_delta msg) (tf_bank st')"
    and "msg_delta msg d \<noteq> 0 \<Longrightarrow> GetAuthorityMetadata st d = Sender msg" by simp_all
qed


subsection \<open>Reachable states\<close>

text \<open>The token factory and the other users of the bank, in any order. The text of addresses is read the same
  way throughout.\<close>

inductive factory_reachable :: "denom_registry \<Rightarrow> (string \<Rightarrow> addr option) \<Rightarrow> factory \<Rightarrow> bool" for reg dec where
  start: "auth_ok ak \<Longrightarrow> factory_reachable reg dec
    \<lparr>tf_bank = empty_bank p ak, tf_metadata = md, tf_admins = [], tf_creators = [], tf_DenomAllowListMaxSize = n\<rparr>"
| message: "factory_reachable reg dec st \<Longrightarrow> be_denoms env = reg \<Longrightarrow> be_AccAddressFromBech32 env = dec \<Longrightarrow>
    tf_deliver env msg st = Inr st' \<Longrightarrow> factory_reachable reg dec st'"
| other: "factory_reachable reg dec st \<Longrightarrow> be_denoms env = reg \<Longrightarrow> bank_step env (tf_bank st) bk \<Longrightarrow> auth_ok (accounts bk) \<Longrightarrow>
    factory_reachable reg dec (st\<lparr>tf_bank := bk\<rparr>)"

lemma tf_bank_reachable:
  assumes "bank_reachable (be_denoms env) (tf_bank st)" and "tf_handle env msg st = Inr st'"
  shows "bank_reachable (be_denoms env) (tf_bank st')"
proof -
  note step = bank_reachable.step [where env = "factory_bank env"]
  have allow: "bank_reachable (be_denoms env) (SetDenomAllowList d l bk)" if "bank_reachable (be_denoms env) bk" for d l bk
    by (rule step [OF that]) (simp_all add: bank_step.allow_list)
  show ?thesis
  proof (cases msg)
    case (MsgCreateDenom sender subdenom allowList)
    with assms obtain denom st1 where "createDenomAfterValidation env sender denom st = Inr st1"
      "st' = st1 \<or> (\<exists>l. st' = st1\<lparr>tf_bank := SetDenomAllowList denom l (tf_bank st1)\<rparr>)" by (auto elim!: srv_CreateDenom_Inr)
    with assms(1) show ?thesis by (auto simp: createDenom_Inr(1) intro!: allow)
  next
    case (MsgMint sender c)
    with assms obtain cs bk addr where "MintCoins (factory_bank env) ModuleName cs (tf_bank st) = Inr bk"
        "SendCoinsFromModuleToAccount (factory_bank env) ModuleName addr cs bk = Inr (tf_bank st')"
      by (auto simp: srv_Mint_def mintTo_def sum_bind_Inr_iff split: if_splits option.splits)
    then show ?thesis
      using step [OF step [OF assms(1) _ bank_step.mint] _ bank_step.from_module] by simp
  next
    case (MsgBurn sender c)
    with assms obtain cs bk addr where "SendCoinsFromAccountToModule (factory_bank env) addr ModuleName cs (tf_bank st) = Inr bk"
        "BurnCoins (factory_bank env) ModuleName cs bk = Inr (tf_bank st')"
      by (auto simp: srv_Burn_def burnFrom_def sum_bind_Inr_iff split: if_splits option.splits)
    then show ?thesis
      using step [OF step [OF assms(1) _ bank_step.to_module] _ bank_step.burn] by simp
  qed (use assms in \<open>auto simp: srv_UpdateDenom_def srv_ChangeAdmin_def setAdmin_def setAuthorityMetadata_def srv_SetDenomMetadata_def
      SetDenomMetaData_def sum_bind_Inr_iff intro!: allow split: if_splits option.splits\<close>)
qed

lemma factory_reachable_bank:
  assumes "factory_reachable reg dec st" and "GetBaseDenom reg = Inr base" and "reDnm_match base"
  shows "bank_reachable reg (tf_bank st) \<and> auth_ok (accounts (tf_bank st))"
  using assms(1)
proof induction
  case (start ak p md n)
  then show ?case using bank_reachable.start [of reg p ak] by (simp add: empty_bank_def)
next
  case (message st env msg st')
  note h = tf_deliver_Inr(1) [OF message.hyps(4)]
  have "bank_ok (tf_bank st)" using reachable_supply [OF _ assms(2,3)] message.IH by blast
  with deliver_effect(1) [OF _ _ message.hyps(4)] message.IH have "auth_ok (accounts (tf_bank st'))" by (simp add: bank_effect_def)
  moreover have "bank_reachable reg (tf_bank st')" using tf_bank_reachable [OF _ h] message by simp
  ultimately show ?case by simp
next
  case (other st env bk)
  then show ?case by (auto intro: bank_reachable.step)
qed

text \<open>Every administered denomination has a name of the token factory, metadata, and an entry of its creator.\<close>

definition factory_ok :: "(string \<Rightarrow> addr option) \<Rightarrow> factory \<Rightarrow> bool" where
  "factory_ok dec st \<longleftrightarrow>
     (\<forall>d a. gm_load (tf_admins st) d = Some a \<longrightarrow> dec a \<noteq> None \<and> gm_load (tf_metadata st) d \<noteq> None \<and>
       (\<exists>c. gm_load (tf_creators st) (c, d) = Some d)) \<and>
     (\<forall>c d v. gm_load (tf_creators st) (c, d) = Some v \<longrightarrow> v = d \<and> gm_load (tf_admins st) d \<noteq> None \<and> dec c \<noteq> None \<and>
       (\<exists>s. GetTokenDenom c s = Inr d)) \<and> distinct (gm_keys (tf_creators st))"

lemma createDenom_ok:
  assumes "factory_ok dec st" and "GetTokenDenom sender sub = Inr denom" and "dec sender \<noteq> None"
    and "createDenomAfterValidation env sender denom st = Inr st1"
  shows "factory_ok dec st1"
  using assms(1-3) unfolding factory_ok_def createDenom_Inr [OF assms(4)]
  by (auto simp: gomap_simps)


lemma factory_ok_bank [simp]: "factory_ok dec (st\<lparr>tf_bank := bk\<rparr>) \<longleftrightarrow> factory_ok dec st"
  by (simp add: factory_ok_def)

lemma mint_burn_Inr:
  "srv_Mint env sender c st = Inr st' \<Longrightarrow> \<exists>bk. st' = st\<lparr>tf_bank := bk\<rparr>"
  "srv_Burn env sender c st = Inr st' \<Longrightarrow> \<exists>bk. st' = st\<lparr>tf_bank := bk\<rparr>"
  by (auto simp: srv_Mint_def srv_Burn_def mintTo_def burnFrom_def sum_bind_Inr_iff split: if_splits option.splits)

text \<open>A sender can be read as an address, so it is not the administrator of an unknown denomination.\<close>

lemma known_admin:
  assumes "GetAuthorityMetadata st d = a" and "dec a \<noteq> None" and "dec [] = None"
  shows "gm_load (tf_admins st) d = Some a"
  using assms by (auto simp: GetAuthorityMetadata_def split: option.splits)

lemma change_admin_ok:
  assumes "factory_ok dec st" and "gm_load (tf_admins st) d = Some a" and "dec a' \<noteq> None"
  shows "factory_ok dec (st\<lparr>tf_admins := gm_store d a' (tf_admins st)\<rparr>)"
  using assms unfolding factory_ok_def by (auto simp: gomap_simps)

lemma set_metadata_ok:
  assumes "factory_ok dec st"
  shows "factory_ok dec (SetDenomMetaData m st)"
  using assms unfolding factory_ok_def SetDenomMetaData_def by (auto simp: gomap_simps)

lemma deliver_ok:
  assumes "factory_ok dec st" and "be_AccAddressFromBech32 env = dec" and "dec [] = None" and "tf_deliver env msg st = Inr st'"
  shows "factory_ok dec st'"
proof -
  note h = tf_deliver_Inr [OF assms(4), unfolded assms(2)]
  show ?thesis
  proof (cases msg)
    case (MsgCreateDenom sender subdenom allowList)
    with h(1) obtain denom st1 where c: "GetTokenDenom sender subdenom = Inr denom"
      "createDenomAfterValidation env sender denom st = Inr st1"
      "st' = st1 \<or> (\<exists>l. st' = st1\<lparr>tf_bank := SetDenomAllowList denom l (tf_bank st1)\<rparr>)" by (auto elim!: srv_CreateDenom_Inr)
    with createDenom_ok [OF assms(1) c(1) _ c(2)] h(2) MsgCreateDenom show ?thesis by auto
  next
    case (MsgChangeAdmin sender denom newAdmin)
    with h(1) have c: "GetAuthorityMetadata st denom = sender" "st' = st\<lparr>tf_admins := gm_store denom newAdmin (tf_admins st)\<rparr>"
      by (auto simp: srv_ChangeAdmin_def setAdmin_def setAuthorityMetadata_def sum_bind_Inr_iff split: if_splits)
    have "dec newAdmin \<noteq> None" using h(3) assms(2) MsgChangeAdmin by (auto split: if_splits)
    with change_admin_ok [OF assms(1) known_admin [where dec = dec, OF c(1) _ assms(3)]] h(2) c(2) MsgChangeAdmin show ?thesis by simp
  next
    case (MsgMint sender c)
    with h(1) mint_burn_Inr(1) assms(1) show ?thesis by fastforce
  next
    case (MsgBurn sender c)
    with h(1) mint_burn_Inr(2) assms(1) show ?thesis by fastforce
  qed (use assms(1) h(1) in \<open>auto simp: srv_UpdateDenom_def srv_SetDenomMetadata_def sum_bind_Inr_iff
      intro: set_metadata_ok split: if_splits option.splits\<close>)
qed

lemma factory_reachable_ok:
  assumes "factory_reachable reg dec st" and "dec [] = None"
  shows "factory_ok dec st"
  using assms(1)
proof induction
  case (start ak p md n)
  then show ?case by (simp add: factory_ok_def)
next
  case (message st env msg st')
  with deliver_ok assms(2) show ?case by blast
qed simp

subsection \<open>Authority\<close>

text \<open>The message is from the administrator of the denomination, or creates it.\<close>

definition authorised :: "factory \<Rightarrow> factory_msg \<Rightarrow> string \<Rightarrow> bool" where
  "authorised st msg d \<longleftrightarrow> GetAuthorityMetadata st d = Sender msg \<or>
     (\<exists>sub l. msg = MsgCreateDenom (Sender msg) sub l \<and> GetTokenDenom (Sender msg) sub = Inr d \<and> GetDenomMetaData st d = None)"

definition denom_changed :: "factory \<Rightarrow> factory \<Rightarrow> string \<Rightarrow> bool" where
  "denom_changed st st' d \<longleftrightarrow> GetAuthorityMetadata st' d \<noteq> GetAuthorityMetadata st d \<or>
     GetDenomMetaData st' d \<noteq> GetDenomMetaData st d \<or> GetDenomAllowList (tf_bank st') d \<noteq> GetDenomAllowList (tf_bank st) d"


lemma GetDenomAllowList_set:
  "GetDenomAllowList (SetDenomAllowList denom l bk) d = (if d = denom then l else GetDenomAllowList bk d)"
  by (simp add: GetDenomAllowList_def SetDenomAllowList_def gomap_simps)

lemma create_changes:
  assumes "srv_CreateDenom env sender sub l st = Inr st'" and "denom_changed st st' d"
  shows "GetTokenDenom sender sub = Inr d \<and> GetDenomMetaData st d = None"
proof -
  obtain denom st1 where c: "GetTokenDenom sender sub = Inr denom" "GetDenomMetaData st denom = None"
    "createDenomAfterValidation env sender denom st = Inr st1"
    "st' = st1 \<or> (\<exists>l. st' = st1\<lparr>tf_bank := SetDenomAllowList denom l (tf_bank st1)\<rparr>)"
    by (rule srv_CreateDenom_Inr [OF assms(1)])
  have "d = denom"
    using c(4) assms(2)
    by (auto simp: denom_changed_def GetAuthorityMetadata_def GetDenomMetaData_def GetDenomAllowList_set createDenom_Inr [OF c(3)]
        gomap_simps split: if_splits)
  with c(1,2) show ?thesis by simp
qed

lemma deliver_authorised:
  assumes "bank_ok (tf_bank st)" and "auth_ok (accounts (tf_bank st))" and "tf_deliver env msg st = Inr st'" and "denom_changed st st' d"
  shows "authorised st msg d"
proof -
  note h = tf_deliver_Inr [OF assms(3)]
  show ?thesis
  proof (cases msg)
    case (MsgCreateDenom sender sub l)
    with create_changes [OF _ assms(4)] h(1) show ?thesis by (auto simp: authorised_def)
  next
    case (MsgMint sender c)
    with h(1,3) have m: "positive_coin c" "mintTo env c sender st = Inr st'" "\<exists>bk. st' = st\<lparr>tf_bank := bk\<rparr>"
      using mint_burn_Inr(1) by (auto simp: srv_Mint_def ensure_def split: if_splits)
    with assms(4) mintTo_effect(2) [OF assms(1,2) m(1,2)] show ?thesis
      by (auto simp: denom_changed_def GetAuthorityMetadata_def GetDenomMetaData_def GetDenomAllowList_def)
  next
    case (MsgBurn sender c)
    with h(1,3) have m: "positive_coin c" "burnFrom env c sender st = Inr st'" "\<exists>bk. st' = st\<lparr>tf_bank := bk\<rparr>"
      using mint_burn_Inr(2) by (auto simp: srv_Burn_def ensure_def split: if_splits)
    with assms(4) burnFrom_effect(2) [OF assms(1,2) m(1,2)] show ?thesis
      by (auto simp: denom_changed_def GetAuthorityMetadata_def GetDenomMetaData_def GetDenomAllowList_def)
  qed (use h(1) assms(4) in \<open>auto simp: authorised_def denom_changed_def srv_UpdateDenom_def validateUpdateDenom_def srv_ChangeAdmin_def setAdmin_def
      setAuthorityMetadata_def srv_SetDenomMetadata_def SetDenomMetaData_def sum_bind_Inr_iff GetAuthorityMetadata_def GetDenomMetaData_def
      GetDenomAllowList_set gomap_simps split: if_splits option.splits\<close>)
qed


subsection \<open>Genesis\<close>

lemma GetTokenDenom_split:
  assumes "GetTokenDenom c s = Inr d"
  shows "split_on (CHR ''/'') d = ModuleDenomPrefix # c # split_on (CHR ''/'') s"
  using GetTokenDenom_Inr [OF assms] by (simp add: split_on_once ModuleDenomPrefix_def)

lemma GetTokenDenom_inj: "GetTokenDenom c s = Inr d \<Longrightarrow> GetTokenDenom c' s' = Inr d \<Longrightarrow> c = c' \<and> s = s'"
  using GetTokenDenom_split [of c s d] GetTokenDenom_split [of c' s' d] split_on_join [of s] split_on_join [of s'] by simp

definition created_by :: "string \<Rightarrow> string \<Rightarrow> bool" where
  "created_by c d \<longleftrightarrow> (\<exists>s. GetTokenDenom c s = Inr d)"

lemma created_by_unique: "created_by c d \<Longrightarrow> created_by c' d \<Longrightarrow> c = c'"
  by (auto simp: created_by_def dest: GetTokenDenom_inj)

lemma init_denom_effect:
  assumes "created_by c d" and "dec c \<noteq> None" and "dec a \<noteq> None" and "be_AccAddressFromBech32 env = dec"
  shows "\<exists>st'. init_denom env (d, a) st = Inr st' \<and> tf_admins st' = gm_store d a (gm_store d c (tf_admins st)) \<and>
    tf_creators st' = gm_store (c, d) d (tf_creators st) \<and> tf_metadata st' = gm_store d (denom_metadata d) (tf_metadata st) \<and>
    tf_DenomAllowListMaxSize st' = tf_DenomAllowListMaxSize st \<and> tf_bank st' = tf_bank st"
proof -
  obtain s where s: "GetTokenDenom c s = Inr d" using assms(1) by (auto simp: created_by_def)
  have "DeconstructDenom env d = Inr (c, s)" using Deconstruct_GetTokenDenom [OF s] assms(2,4) by simp
  then show ?thesis
    using assms(2-4) by (simp add: init_denom_def createDenomAfterValidation_def setAuthorityMetadata_def AuthorityMetadata_Validate_def
        SetDenomMetaData_def addDenomFromCreator_def denom_metadata_def)
qed

lemma init_denoms:
  assumes "be_AccAddressFromBech32 env = dec"
    and "\<And>d. d \<in> set ds \<Longrightarrow> (\<exists>c. created_by c d \<and> dec c \<noteq> None) \<and> dec (f d) \<noteq> None"
  shows "\<exists>st'. each (init_denom env) (map (\<lambda>d. (d, f d)) ds) st = Inr st' \<and>
    (\<forall>d. gm_load (tf_admins st') d = (if d \<in> set ds then Some (f d) else gm_load (tf_admins st) d)) \<and>
    (\<forall>c d. gm_load (tf_creators st') (c, d) = (if d \<in> set ds \<and> created_by c d then Some d else gm_load (tf_creators st) (c, d))) \<and>
    (\<forall>d. gm_load (tf_metadata st') d = (if d \<in> set ds then Some (denom_metadata d) else gm_load (tf_metadata st) d)) \<and>
    tf_DenomAllowListMaxSize st' = tf_DenomAllowListMaxSize st \<and> tf_bank st' = tf_bank st"
  using assms(2)
proof (induction ds arbitrary: st)
  case (Cons d ds)
  obtain c where c: "created_by c d" "dec c \<noteq> None" "dec (f d) \<noteq> None" using Cons.prems [of d] by (auto simp del: not_None_eq)
  have unique: "created_by c' d \<longleftrightarrow> c' = c" for c' using c(1) created_by_unique by blast
  obtain st1 where st1: "init_denom env (d, f d) st = Inr st1" "tf_admins st1 = gm_store d (f d) (gm_store d c (tf_admins st))"
      "tf_creators st1 = gm_store (c, d) d (tf_creators st)" "tf_metadata st1 = gm_store d (denom_metadata d) (tf_metadata st)"
      "tf_DenomAllowListMaxSize st1 = tf_DenomAllowListMaxSize st" "tf_bank st1 = tf_bank st"
    using init_denom_effect [OF c assms(1), of st] by blast
  have "(\<exists>c. created_by c e \<and> dec c \<noteq> None) \<and> dec (f e) \<noteq> None" if "e \<in> set ds" for e using Cons.prems that by simp
  from Cons.IH [OF this, of st1] show ?case using st1 unique by (auto simp: gomap_simps)
qed simp

lemma factory_ok_admin:
  assumes "factory_ok dec st" and "gm_load (tf_admins st) d = Some a"
  obtains c where "dec a \<noteq> None" and "gm_load (tf_creators st) (c, d) = Some d"
  using assms unfolding factory_ok_def by blast

lemma factory_ok_creator:
  assumes "factory_ok dec st" and "gm_load (tf_creators st) (c, d) = Some v"
  shows "v = d" and "gm_load (tf_admins st) d \<noteq> None" and "dec c \<noteq> None" and "created_by c d"
  using assms unfolding factory_ok_def created_by_def by blast+

lemma iterator_iff:
  assumes "factory_ok dec st"
  shows "d \<in> set (GetAllDenomsIterator st) \<longleftrightarrow> gm_load (tf_admins st) d \<noteq> None"
proof -
  have dist: "distinct (gm_keys (tf_creators st))" using assms by (simp add: factory_ok_def)
  have "d \<in> set (GetAllDenomsIterator st) \<longleftrightarrow> (\<exists>c e. gm_load (tf_creators st) (c, e) = Some d)"
  proof
    assume "d \<in> set (GetAllDenomsIterator st)"
    then obtain c e where "((c, e), d) \<in> set (tf_creators st)" by (auto simp: GetAllDenomsIterator_def)
    then have "gm_load (tf_creators st) (c, e) = Some d" by (rule map_of_is_SomeI [OF dist])
    then show "\<exists>c e. gm_load (tf_creators st) (c, e) = Some d" by blast
  next
    assume "\<exists>c e. gm_load (tf_creators st) (c, e) = Some d"
    then obtain k where "(k, d) \<in> set (tf_creators st)" by (blast dest: map_of_SomeD)
    then show "d \<in> set (GetAllDenomsIterator st)" by (force simp: GetAllDenomsIterator_def)
  qed
  also have "\<dots> \<longleftrightarrow> gm_load (tf_admins st) d \<noteq> None"
  proof
    assume "\<exists>c e. gm_load (tf_creators st) (c, e) = Some d"
    then obtain c e where "gm_load (tf_creators st) (c, e) = Some d" by blast
    with factory_ok_creator(1,2) [OF assms this] show "gm_load (tf_admins st) d \<noteq> None" by simp
  next
    assume "gm_load (tf_admins st) d \<noteq> None"
    then obtain a where "gm_load (tf_admins st) d = Some a" by blast
    then obtain c where "gm_load (tf_creators st) (c, d) = Some d" by (rule factory_ok_admin [OF assms])
    then show "\<exists>c e. gm_load (tf_creators st) (c, e) = Some d" by blast
  qed
  finally show ?thesis .
qed

text \<open>The creator of a denomination is part of its name, so importing finds the same one.\<close>

lemma creators_kept:
  assumes "factory_ok dec st"
  shows "(if d \<in> set (GetAllDenomsIterator st) \<and> created_by c d then Some d else None) = gm_load (tf_creators st) (c, d)"
proof (cases "gm_load (tf_creators st) (c, d)")
  case None
  have "\<not> created_by c d" if d: "d \<in> set (GetAllDenomsIterator st)"
  proof
    assume c: "created_by c d"
    obtain a where "gm_load (tf_admins st) d = Some a" using d iterator_iff [OF assms, of d] by auto
    then obtain c' where c': "gm_load (tf_creators st) (c', d) = Some d" by (rule factory_ok_admin [OF assms])
    from created_by_unique [OF factory_ok_creator(4) [OF assms c'] c] have "c' = c" .
    with c' None show False by simp
  qed
  with None show ?thesis by simp
next
  case (Some v)
  note v = factory_ok_creator [OF assms Some]
  have "d \<in> set (GetAllDenomsIterator st)" using iterator_iff [OF assms, of d] v(2) by simp
  with Some v(1,4) show ?thesis by simp
qed

lemma export_import:
  assumes "factory_ok dec st" and "be_AccAddressFromBech32 env = dec" and "dec [] = None"
    and "GetModuleAddress (be_permAddrs env) ModuleName = Some m" and "tf_admins st0 = []" and "tf_creators st0 = []"
  shows "\<exists>st'. tf_InitGenesis env (tf_ExportGenesis st) st0 = Inr st' \<and>
    (\<forall>d. gm_load (tf_admins st') d = gm_load (tf_admins st) d) \<and> (\<forall>k. gm_load (tf_creators st') k = gm_load (tf_creators st) k) \<and>
    tf_DenomAllowListMaxSize st' = tf_DenomAllowListMaxSize st"
proof -
  let ?ds = "GetAllDenomsIterator st" and ?f = "GetAuthorityMetadata st"
  obtain st1 where st1: "CreateModuleAccount env st0 = Inr st1" "tf_admins st1 = []" "tf_creators st1 = []"
    using assms(4-6) by (auto simp: CreateModuleAccount_def NewEmptyModuleAccount_def blank_permission_def lift_bank_def)
  have "(\<exists>c. created_by c d \<and> dec c \<noteq> None) \<and> dec (?f d) \<noteq> None" if d: "d \<in> set ?ds" for d
  proof -
    obtain a where a: "gm_load (tf_admins st) d = Some a" using d iterator_iff [OF assms(1), of d] by auto
    then obtain c where c: "dec a \<noteq> None" "gm_load (tf_creators st) (c, d) = Some d" by (rule factory_ok_admin [OF assms(1)])
    from factory_ok_creator(3,4) [OF assms(1) c(2)] a c(1) show ?thesis by (auto simp: GetAuthorityMetadata_def)
  qed
  from init_denoms [where ds = ?ds and f = ?f, OF assms(2) this, where st = "st1\<lparr>tf_DenomAllowListMaxSize := tf_DenomAllowListMaxSize st\<rparr>"]
  obtain st' where st': "tf_InitGenesis env (tf_ExportGenesis st) st0 = Inr st'"
      "\<forall>d. gm_load (tf_admins st') d = (if d \<in> set ?ds then Some (?f d) else None)"
      "\<forall>c d. gm_load (tf_creators st') (c, d) = (if d \<in> set ?ds \<and> created_by c d then Some d else None)"
      "tf_DenomAllowListMaxSize st' = tf_DenomAllowListMaxSize st"
    using st1 by (auto simp: tf_InitGenesis_def tf_ExportGenesis_def)
  have "gm_load (tf_admins st') d = gm_load (tf_admins st) d" for d
    using st'(2) iterator_iff [OF assms(1), of d] by (cases "gm_load (tf_admins st) d") (simp_all add: GetAuthorityMetadata_def)
  moreover have "gm_load (tf_creators st') (c, d) = gm_load (tf_creators st) (c, d)" for c d
    using st'(3) creators_kept [OF assms(1)] by simp
  ultimately show ?thesis using st'(1,4) by auto
qed


subsection \<open>A small chain\<close>

definition tf_env :: bank_env where
  "tf_env = sei_env\<lparr>be_permAddrs := [(ModuleName, (''tf'', [''minter'', ''burner'']))]\<rparr>"

definition tf_start :: factory where
  "tf_start = \<lparr>tf_bank = empty_bank sei_params \<lparr>acc_store = [], globalAccountNumber = None\<rparr>, tf_metadata = [], tf_admins = [],
     tf_creators = [], tf_DenomAllowListMaxSize = 10\<rparr>"

definition gold :: string where
  "gold = ''factory/alice/gold''"

definition tf_created :: factory where
  "tf_created = tf_start\<lparr>tf_metadata := [(gold, denom_metadata gold)], tf_admins := [(gold, ''alice'')],
     tf_creators := [((''alice'', gold), gold)]\<rparr>"

lemma gold_denom: "GetTokenDenom ''alice'' ''gold'' = Inr gold" "reDnm_match gold"
  by (simp_all add: GetTokenDenom_def MaxSubdenomLength_def MaxCreatorLength_def MaxHrpLength_def ModuleDenomPrefix_def Let_def
      valid_denom_def ValidateDenom_def denom_eval gold_def is_digit_def)

lemma tf_env_views: "be_AccAddressFromBech32 tf_env s = (if s = [] then None else Some s)" "be_denoms tf_env = sei_registry"
  by (simp_all add: tf_env_def sei_env_def)

lemma tf_created: "tf_deliver tf_env (MsgCreateDenom ''alice'' ''gold'' None) tf_start = Inr tf_created"
  by (simp add: tf_deliver_def gold_denom tf_env_views ensure_def srv_CreateDenom_def CreateDenom_def validateCreateDenom_def
      createDenomAfterValidation_def setAuthorityMetadata_def AuthorityMetadata_Validate_def SetDenomMetaData_def
      addDenomFromCreator_def denom_metadata_def GetDenomMetaData_def tf_start_def tf_created_def HasSupply_def empty_bank_def)

lemma tf_start_reachable: "factory_reachable sei_registry (be_AccAddressFromBech32 tf_env) tf_start"
  unfolding tf_start_def by (rule factory_reachable.start) (simp add: auth_ok_def GetAccount_def)

lemma tf_created_reachable: "factory_reachable sei_registry (be_AccAddressFromBech32 tf_env) tf_created"
  by (rule factory_reachable.message [OF tf_start_reachable _ _ tf_created]) (simp_all add: tf_env_views)


definition tf_minted :: factory where
  "tf_minted = (case tf_deliver tf_env (MsgMint ''alice'' \<lparr>Denom = gold, Amount = 5\<rparr>) tf_created of Inr st \<Rightarrow> st)"

lemma tf_minted: "tf_deliver tf_env (MsgMint ''alice'' \<lparr>Denom = gold, Amount = 5\<rparr>) tf_created = Inr tf_minted"
proof -
  have "positive_coin \<lparr>Denom = gold, Amount = 5\<rparr>"
    using gold_denom by (simp add: positive_coin_def Coin_Validate_def ValidateDenom_def)
  note coin = this positive_single(1) [OF this] positive_single(3) [OF this]
  have "DeconstructDenom tf_env gold = Inr (''alice'', ''gold'')"
    by (rule Deconstruct_GetTokenDenom [OF gold_denom(1)]) (simp add: tf_env_views)
  then have "\<exists>st. tf_deliver tf_env (MsgMint ''alice'' \<lparr>Denom = gold, Amount = 5\<rparr>) tf_created = Inr st"
    using coin gold_denom(2)
    by (simp add: tf_deliver_def tf_env_views ensure_def srv_Mint_def mintTo_def GetDenomMetaData_def GetAuthorityMetadata_def
        tf_created_def tf_start_def lift_bank_def bank_eval debit_eval factory_bank_def WithMintCoinsRestriction_def
        NewTokenFactoryDenomMintCoinsRestriction_def tf_env_def ModuleName_def SendCoinsFromModuleToAccount_def GetModuleAddress_def
        BlockedAddr_def CoinbaseAddressPrefix_def SendCoins_def SendCoinsWithoutAccCreation_def sendCoinsWithoutAccCreation_def)
  then show ?thesis by (auto simp: tf_minted_def)
qed


subsection \<open>Properties\<close>

text \<open>C37. The name of a denomination determines its creator and its subdenomination, even when the latter contains
  slashes: \<open>DeconstructDenom\<close> gives back what \<open>GetTokenDenom\<close> was called with, and what it returns joins to the
  name it was given.\<close>

theorem token_denom_roundtrip:
  assumes "be_AccAddressFromBech32 env creator \<noteq> None"
  shows "(GetTokenDenom creator subdenom = Inr denom \<longrightarrow> DeconstructDenom env denom = Inr (creator, subdenom)) \<and>
    (DeconstructDenom env denom = Inr (creator, subdenom) \<longrightarrow> denom = join_slash [ModuleDenomPrefix, creator, subdenom])"
  using Deconstruct_GetTokenDenom [OF _ assms] DeconstructDenom_Inr(1) by blast

theorem token_denom_roundtrip_witness: "DeconstructDenom tf_env gold = Inr (''alice'', ''gold'')"
  using token_denom_roundtrip [of tf_env "''alice''" "''gold''" gold] gold_denom(1) by (simp add: tf_env_views)

text \<open>C15. A message of the token factory changes the supply and the balances exactly as it says, in every state that the
  token factory and the other users of the bank reach: minting and burning change the supply of one denomination
  and the balance of the sender by the amount of the message, the module account keeps what it had, and no other
  balance, no wei and no other supply changes. The amounts held still add up to the supply.\<close>

theorem factory_messages_exact:
  assumes "factory_reachable (be_denoms env) (be_AccAddressFromBech32 env) st" and "GetBaseDenom (be_denoms env) = Inr base"
    and "reDnm_match base" and "tf_deliver env msg st = Inr st'"
  shows "(\<forall>d. supply_of (tf_bank st') d = supply_of (tf_bank st) d + msg_delta msg d) \<and>
    (\<forall>a d. bal (tf_bank st') a d = bal (tf_bank st) a d +
      (if be_AccAddressFromBech32 env (Sender msg) = Some a then msg_delta msg d else 0)) \<and>
    GetWeiBalance (tf_bank st') = GetWeiBalance (tf_bank st) \<and> supply_matches base (tf_bank st')"
proof -
  have b: "bank_reachable (be_denoms env) (tf_bank st)" "auth_ok (accounts (tf_bank st))"
    using factory_reachable_bank [OF assms(1-3)] by simp_all
  have "bank_ok (tf_bank st)" using reachable_supply [OF b(1) assms(2,3)] by simp
  note effect = deliver_effect(1) [OF this b(2) assms(4)]
  have "bank_reachable (be_denoms env) (tf_bank st')" by (rule tf_bank_reachable [OF b(1) tf_deliver_Inr(1) [OF assms(4)]])
  then have "supply_matches base (tf_bank st')" using reachable_supply [OF _ assms(2,3)] by simp
  with effect show ?thesis unfolding bank_effect_def by simp
qed

theorem factory_messages_exact_witness:
  "supply_of (tf_bank tf_minted) gold = supply_of (tf_bank tf_created) gold + 5 \<and>
   bal (tf_bank tf_minted) ''alice'' gold = bal (tf_bank tf_created) ''alice'' gold + 5"
  using factory_messages_exact [OF _ _ _ tf_minted, of "''usei''"] tf_created_reachable usei_ok
  by (simp add: tf_env_views)

text \<open>C14. Only the administrator of a denomination changes it: when a message changes its supply, its administrator, its
  metadata or its allow list, the sender was its administrator before, or the message creates the denomination, which had no
  metadata, and names the sender as creator. Creation leaves the supply as it was.\<close>

theorem only_administrators:
  assumes "factory_reachable (be_denoms env) (be_AccAddressFromBech32 env) st" and "GetBaseDenom (be_denoms env) = Inr base"
    and "reDnm_match base" and "tf_deliver env msg st = Inr st'"
  shows "(supply_of (tf_bank st') d \<noteq> supply_of (tf_bank st) d \<longrightarrow> GetAuthorityMetadata st d = Sender msg) \<and>
    (denom_changed st st' d \<longrightarrow> authorised st msg d)"
proof -
  have b: "bank_reachable (be_denoms env) (tf_bank st)" "auth_ok (accounts (tf_bank st))"
    using factory_reachable_bank [OF assms(1-3)] by simp_all
  have ok: "bank_ok (tf_bank st)" using reachable_supply [OF b(1) assms(2,3)] by simp
  note effect = deliver_effect [OF ok b(2) assms(4)]
  show ?thesis using effect deliver_authorised [OF ok b(2) assms(4)] by (auto simp: bank_effect_def)
qed

theorem only_administrators_witness: "GetAuthorityMetadata tf_created gold = ''alice''"
proof -
  have "supply_of (tf_bank tf_minted) gold = 5"
    using deliver_effect(1) [OF _ _ tf_minted] factory_reachable_bank [OF tf_created_reachable usei_ok(2,1)]
      reachable_supply [OF _ usei_ok(2,1)]
    by (simp add: bank_effect_def) (simp add: tf_created_def tf_start_def empty_bank_def supply_of_def GetSupply_def)
  moreover have "supply_of (tf_bank tf_created) gold = 0"
    by (simp add: tf_created_def tf_start_def empty_bank_def supply_of_def GetSupply_def)
  ultimately show ?thesis
    using only_administrators [OF _ _ _ tf_minted, of "''usei''" gold] tf_created_reachable usei_ok by (simp add: tf_env_views)
qed

text \<open>C38. The state of the token factory survives an export and import of genesis: importing what \<open>ExportGenesis\<close> returns
  into an empty module succeeds, and every denomination has the administrator, and every creator the denominations, it had.\<close>

theorem genesis_roundtrip:
  assumes "factory_reachable reg (be_AccAddressFromBech32 env) st" and "be_AccAddressFromBech32 env [] = None"
    and "GetModuleAddress (be_permAddrs env) ModuleName = Some m" and "tf_admins st0 = []" and "tf_creators st0 = []"
  shows "\<exists>st'. tf_InitGenesis env (tf_ExportGenesis st) st0 = Inr st' \<and>
    (\<forall>d. GetAuthorityMetadata st' d = GetAuthorityMetadata st d) \<and> (\<forall>k. gm_load (tf_creators st') k = gm_load (tf_creators st) k) \<and>
    tf_DenomAllowListMaxSize st' = tf_DenomAllowListMaxSize st"
  using export_import [OF factory_reachable_ok [OF assms(1,2)] refl assms(2-5)] by (auto simp: GetAuthorityMetadata_def)

theorem genesis_roundtrip_witness:
  "\<exists>st'. tf_InitGenesis tf_env (tf_ExportGenesis tf_created) tf_start = Inr st' \<and> GetAuthorityMetadata st' gold = ''alice''"
proof -
  have "GetModuleAddress (be_permAddrs tf_env) ModuleName = Some ''tf''" by (simp add: tf_env_def GetModuleAddress_def)
  moreover have "tf_admins tf_start = []" "tf_creators tf_start = []" "GetAuthorityMetadata tf_created gold = ''alice''"
    by (simp_all add: tf_start_def tf_created_def GetAuthorityMetadata_def)
  ultimately show ?thesis using genesis_roundtrip [OF tf_created_reachable, of "''tf''" tf_start] by (auto simp: tf_env_views)
qed

end
