(* ===== verification/CacheKV.thy ===== *)
theory CacheKV
  imports MVIter
begin

text \<open>
  The cache store of \<open>src/sei-cosmos/store/cachekv\<close>: a layer of writes over a parent store
  (\<open>store.go\<close>), its iterators (\<open>memiterator.go\<close>, \<open>mergeiterator.go\<close>), and the shortcut by which a read
  skips layers that are frozen and empty.

  A store is a \<open>Cache\<close> layer with its parent, down to a \<open>Base\<close> store that is no cache. The memoized
  ancestor of a layer is the number of layers between its parent and that ancestor. An iterator
  is the list of what it has still to offer. The sorted cache is an in-memory database of the
  package \<open>github.com/tendermint/tm-db\<close>, which is not part of the repository: its operations are the
  fields of the record \<open>MemDB\<close> and what its documentation promises is the locale \<open>sorted_db\<close>.
\<close>

subsection \<open>The in-memory database\<close>

text \<open>\<open>None\<close> is the error for an empty key, a \<open>nil\<close> value or an empty, non-\<open>nil\<close> bound.\<close>

record 'd MemDB =
  db_New :: 'd
  db_Set :: "'d \<Rightarrow> bytes \<Rightarrow> slice \<Rightarrow> 'd option"
  db_Iterator :: "'d \<Rightarrow> slice \<Rightarrow> slice \<Rightarrow> (bytes \<times> bytes) list option"
  db_ReverseIterator :: "'d \<Rightarrow> slice \<Rightarrow> slice \<Rightarrow> (bytes \<times> bytes) list option"

definition in_order :: "bool \<Rightarrow> (bytes \<times> 'v) list \<Rightarrow> bool" where
  "in_order ascending kvs \<longleftrightarrow> sorted_wrt (\<lambda>a b. if ascending then a < b else b < a) (map fst kvs)"

locale sorted_db =
  fixes db :: "'d MemDB"
    and content :: "'d \<Rightarrow> bytes \<Rightarrow> slice"
  assumes content_New: "content (db_New db) = (\<lambda>_. None)"
    and content_Set: "k \<noteq> [] \<Longrightarrow>
      \<exists>d'. db_Set db d k (Some v) = Some d' \<and> content d' = (content d)(k := Some v)"
    and Iterator_ok: "start \<noteq> Some [] \<Longrightarrow> end' \<noteq> Some [] \<Longrightarrow>
      \<exists>kvs. db_Iterator db d start end' = Some kvs \<and> in_order True kvs \<and>
        (\<forall>k v. (k, v) \<in> set kvs \<longleftrightarrow> IsKeyInDomain k start end' \<and> content d k = Some v)"
    and ReverseIterator_ok: "start \<noteq> Some [] \<Longrightarrow> end' \<noteq> Some [] \<Longrightarrow>
      \<exists>kvs. db_ReverseIterator db d start end' = Some kvs \<and> in_order False kvs \<and>
        (\<forall>k v. (k, v) \<in> set kvs \<longleftrightarrow> IsKeyInDomain k start end' \<and> content d k = Some v)"
    and Iterator_error: "start = Some [] \<or> end' = Some [] \<Longrightarrow>
      db_Iterator db d start end' = None \<and> db_ReverseIterator db d start end' = None"

text \<open>An instance: the content as a plain store.\<close>

definition list_db :: "kvstore MemDB" where
  "list_db =
     \<lparr>db_New = [],
      db_Set = (\<lambda>d k v. if k = [] then None else map_option (\<lambda>w. kv_Set k w d) v),
      db_Iterator = (\<lambda>d start end'. if start = Some [] \<or> end' = Some [] then None
        else Some (kv_Iterator d start end' True)),
      db_ReverseIterator = (\<lambda>d start end'. if start = Some [] \<or> end' = Some [] then None
        else Some (kv_Iterator d start end' False))\<rparr>"

lemma kv_Iterator_in_order: "in_order ascending (kv_Iterator st start end' ascending)"
  by (simp add: in_order_def kv_Iterator_sorted)

interpretation ldb: sorted_db list_db kv_Get
  by unfold_locales
    (auto simp: list_db_def kv_Iterator_in_order kv_Iterator_entries gomap_simps fun_eq_iff kv_Get_def [of "[]"])

subsection \<open>Layers\<close>

record CValue =
  cv_value :: slice
  cv_dirty :: bool

record 'd Store =
  ck_cache :: "(bytes, CValue) gomap"
  ck_deleted :: "bytes list"
  ck_unsortedCache :: "bytes list"
  ck_sortedCache :: "'d option"
  ck_frozen :: bool
  ck_dirty :: bool
  ck_readParent :: "nat option"

datatype 'd kvs = Base kvstore | Cache "'d Store" "'d kvs"

definition NewStore :: "'d Store" where
  "NewStore = \<lparr>ck_cache = [], ck_deleted = [], ck_unsortedCache = [], ck_sortedCache = None,
     ck_frozen = False, ck_dirty = False, ck_readParent = None\<rparr>"

definition CacheWrap :: "'d kvs \<Rightarrow> 'd kvs" where
  "CacheWrap s = Cache NewStore s"

fun skip_empty :: "'d kvs \<Rightarrow> nat" where
  "skip_empty (Base b) = 0"
| "skip_empty (Cache next p) = (if \<not> ck_frozen next \<or> ck_dirty next then 0 else Suc (skip_empty p))"

definition readThroughParent :: "'d Store \<Rightarrow> 'd kvs \<Rightarrow> nat \<times> 'd Store" where
  "readThroughParent l p =
     (case p of
        Base b \<Rightarrow> (0, l)
      | Cache cp _ \<Rightarrow>
          if \<not> ck_frozen cp \<or> ck_dirty cp then (0, l)
          else case ck_readParent l of
            Some d \<Rightarrow> (d, l)
          | None \<Rightarrow> let d = skip_empty p in (d, l\<lparr>ck_readParent := Some d\<rparr>))"

definition ck_Freeze :: "'d Store \<Rightarrow> 'd Store" where
  "ck_Freeze l = l\<lparr>ck_frozen := True\<rparr>"

definition ck_Unfreeze :: "'d Store \<Rightarrow> 'd Store" where
  "ck_Unfreeze l = l\<lparr>ck_frozen := False\<rparr>"

text \<open>\<open>getFromCache\<close>, at the ancestor that is \<open>d\<close> layers further up; a read leaves the memos behind.\<close>

fun getFromCache :: "nat \<Rightarrow> bytes \<Rightarrow> 'd kvs \<Rightarrow> slice \<times> 'd kvs" where
  "getFromCache d key (Base b) = (kv_Get b key, Base b)"
| "getFromCache (Suc d) key (Cache l p) = (case getFromCache d key p of (v, p') \<Rightarrow> (v, Cache l p'))"
| "getFromCache 0 key (Cache l p) =
     (case gm_load (ck_cache l) key of
        Some cv \<Rightarrow> (cv_value cv, Cache l p)
      | None \<Rightarrow>
          (case readThroughParent l p of
             (d, l') \<Rightarrow> (case getFromCache d key p of (v, p') \<Rightarrow> (v, Cache l' p'))))"

definition ck_Get :: "bytes \<Rightarrow> 'd kvs \<Rightarrow> panic + slice \<times> 'd kvs" where
  "ck_Get key s = (case AssertValidKey key of Some p \<Rightarrow> Inl p | None \<Rightarrow> Inr (getFromCache 0 key s))"

definition ck_Has :: "bytes \<Rightarrow> 'd kvs \<Rightarrow> panic + bool \<times> 'd kvs" where
  "ck_Has key s = sum_bind (ck_Get key s) (\<lambda>(v, s'). Inr (v \<noteq> None, s'))"

definition setCacheValue :: "bytes \<Rightarrow> slice \<Rightarrow> bool \<Rightarrow> bool \<Rightarrow> 'd Store \<Rightarrow> 'd Store" where
  "setCacheValue key value deleted dirty l =
     l\<lparr>ck_cache := gm_store key \<lparr>cv_value = value, cv_dirty = dirty\<rparr> (ck_cache l),
       ck_deleted := (if deleted then List.insert key (ck_deleted l) else removeAll key (ck_deleted l)),
       ck_unsortedCache := (if dirty then List.insert key (ck_unsortedCache l) else ck_unsortedCache l),
       ck_dirty := True\<rparr>"

fun kvs_Set :: "bytes \<Rightarrow> bytes \<Rightarrow> 'd kvs \<Rightarrow> 'd kvs" where
  "kvs_Set key v (Base b) = Base (kv_Set key v b)"
| "kvs_Set key v (Cache l p) = Cache (setCacheValue key (Some v) False True l) p"

fun kvs_Delete :: "bytes \<Rightarrow> 'd kvs \<Rightarrow> 'd kvs" where
  "kvs_Delete key (Base b) = Base (kv_Delete key b)"
| "kvs_Delete key (Cache l p) = Cache (setCacheValue key None True True l) p"

definition ck_Set :: "bytes \<Rightarrow> slice \<Rightarrow> 'd kvs \<Rightarrow> panic + 'd kvs" where
  "ck_Set key value s =
     (case AssertValidKey key of
        Some p \<Rightarrow> Inl p
      | None \<Rightarrow> (case AssertValidValue value of Some p \<Rightarrow> Inl p | None \<Rightarrow> Inr (kvs_Set key (slice_bytes value) s)))"

definition ck_Delete :: "bytes \<Rightarrow> 'd kvs \<Rightarrow> panic + 'd kvs" where
  "ck_Delete key s = (case AssertValidKey key of Some p \<Rightarrow> Inl p | None \<Rightarrow> Inr (kvs_Delete key s))"

text \<open>\<open>Write\<close> moves the dirty keys into the parent, in order, and empties the layer. The keys of a cache
  are valid, so the parent accepts them.\<close>

definition write_key :: "'d Store \<Rightarrow> bytes \<Rightarrow> 'd kvs \<Rightarrow> 'd kvs" where
  "write_key l key p =
     (if key \<in> set (ck_deleted l) then kvs_Delete key p
      else case gm_load (ck_cache l) key of
        None \<Rightarrow> p
      | Some cv \<Rightarrow> (case cv_value cv of None \<Rightarrow> p | Some v \<Rightarrow> kvs_Set key v p))"

fun ck_Write :: "'d kvs \<Rightarrow> 'd kvs" where
  "ck_Write (Base b) = Base b"
| "ck_Write (Cache l p) =
     (let keys = sort (map fst (filter (\<lambda>(k, cv). cv_dirty cv) (ck_cache l)));
          p' = fold (write_key l) keys p
      in Cache (l\<lparr>ck_cache := [], ck_deleted := [], ck_unsortedCache := [], ck_sortedCache := None,
                  ck_dirty := False, ck_readParent := None\<rparr>) p')"

text \<open>The keys in a range and their deletion go layer by layer. A Go map yields its keys in any order;
  the base is a store whose iterator yields them.\<close>

definition key_in_range :: "slice \<Rightarrow> slice \<Rightarrow> bytes \<Rightarrow> bool" where
  "key_in_range start end' k \<longleftrightarrow> \<not> (bytes_Compare k (slice_bytes start) < 0 \<or> bytes_Compare k (slice_bytes end') \<ge> 0)"

fun GetAllKeyStrsInRange :: "slice \<Rightarrow> slice \<Rightarrow> 'd kvs \<Rightarrow> bytes list" where
  "GetAllKeyStrsInRange start end' (Base b) = map fst (kv_Iterator b start end' True)"
| "GetAllKeyStrsInRange start end' (Cache l p) =
     fold (\<lambda>(key, cv) keyStrs.
             if \<not> key_in_range start end' key then keyStrs
             else if cv_value cv = None then removeAll key keyStrs
             else List.insert key keyStrs)
       (ck_cache l) (remdups (GetAllKeyStrsInRange start end' p))"

definition DeleteAll :: "slice \<Rightarrow> slice \<Rightarrow> 'd kvs \<Rightarrow> 'd kvs" where
  "DeleteAll start end' s = fold kvs_Delete (GetAllKeyStrsInRange start end' s) s"

subsection \<open>Iterators\<close>

text \<open>The iterator over the sorted cache, \<open>memIterator\<close>; whether a key is deleted is looked up when its value
  is asked for. \<open>Key\<close>, \<open>Value\<close> and \<open>Next\<close> are called only while the iterator is valid.\<close>

record memIterator =
  cm_iter :: "(bytes \<times> bytes) list"
  cm_lastKey :: slice

definition newMemIterator :: "'d MemDB \<Rightarrow> slice \<Rightarrow> slice \<Rightarrow> 'd \<Rightarrow> bool \<Rightarrow> panic + memIterator" where
  "newMemIterator db start end' items ascending =
     (case (if ascending then db_Iterator db items start end' else db_ReverseIterator db items start end') of
        None \<Rightarrow> Inl EmptyRangeBound
      | Some iter \<Rightarrow> Inr \<lparr>cm_iter = iter, cm_lastKey = None\<rparr>)"

definition cm_Value :: "bytes list \<Rightarrow> memIterator \<Rightarrow> slice \<times> memIterator" where
  "cm_Value deleted mi =
     (let key = fst (hd (cm_iter mi));
          reCallingOnOldLastKey = (cm_lastKey mi \<noteq> None \<and> bytes_Equal (Some key) (cm_lastKey mi))
      in if key \<in> set deleted \<and> \<not> reCallingOnOldLastKey then (None, mi)
         else (Some (snd (hd (cm_iter mi))), mi\<lparr>cm_lastKey := Some key\<rparr>))"

definition cm_Next :: "memIterator \<Rightarrow> memIterator" where
  "cm_Next mi = mi\<lparr>cm_iter := tl (cm_iter mi)\<rparr>"

lemma cm_iter_Value [simp]: "cm_iter (snd (cm_Value deleted mi)) = cm_iter mi"
  by (simp add: cm_Value_def Let_def)

record cacheMergeIterator =
  cmi_parent :: "(bytes \<times> bytes) list"
  cmi_cache :: memIterator

function skipCacheDeletes :: "bytes list \<Rightarrow> bool \<Rightarrow> slice \<Rightarrow> memIterator \<Rightarrow> memIterator" where
  "skipCacheDeletes deleted ascending until cache =
     (if cm_iter cache = [] then cache
      else let (v, c1) = cm_Value deleted cache in
        if v = None \<and> (case until of None \<Rightarrow> True | Some u \<Rightarrow> mi_compare ascending (fst (hd (cm_iter c1))) u < 0)
        then skipCacheDeletes deleted ascending until (cm_Next c1)
        else c1)"
  by pat_completeness auto
termination
  by (relation "measure (\<lambda>(deleted, ascending, until, cache). length (cm_iter cache))")
    (auto simp: cm_Next_def dest: arg_cong [where f = "\<lambda>x. cm_iter (snd x)"])

declare skipCacheDeletes.simps [simp del]

lemma skipCacheDeletes_length: "length (cm_iter (skipCacheDeletes deleted ascending until cache)) \<le> length (cm_iter cache)"
proof (induction deleted ascending until cache rule: skipCacheDeletes.induct)
  case (1 deleted ascending until cache)
  obtain v c1 where v: "cm_Value deleted cache = (v, c1)" by force
  then have "cm_iter c1 = cm_iter cache" using cm_iter_Value [of deleted cache] by simp
  with 1 v show ?case
    by (subst skipCacheDeletes.simps) (auto simp: cm_Next_def split: option.splits)
qed

lemma cm_Value_None: "cm_Value deleted mi = (None, mi') \<Longrightarrow> mi' = mi"
  by (auto simp: cm_Value_def Let_def split: if_splits)

lemma skipCacheDeletes_progress:
  assumes "cm_iter cache \<noteq> []" and "cm_Value deleted cache = (None, c1)"
    and "mi_compare ascending u (fst (hd (cm_iter cache))) \<noteq> -1"
    and "mi_compare ascending u (fst (hd (cm_iter cache))) \<noteq> 0"
  shows "length (cm_iter (skipCacheDeletes deleted ascending (Some u) c1)) < length (cm_iter cache)"
proof -
  have c1: "c1 = cache" using assms(2) by (rule cm_Value_None)
  have "mi_compare ascending u (fst (hd (cm_iter cache))) = 1"
    using assms(3,4) by (auto simp: mi_compare_def bytes_Compare_def split: if_splits)
  then have "mi_compare ascending (fst (hd (cm_iter cache))) u < 0" by (rule mi_compare_flip)
  then have "skipCacheDeletes deleted ascending (Some u) c1 = skipCacheDeletes deleted ascending (Some u) (cm_Next cache)"
    using assms(1,2) by (subst skipCacheDeletes.simps) (simp add: c1)
  then show ?thesis
    using skipCacheDeletes_length [of deleted ascending "Some u" "cm_Next cache"] assms(1)
    by (simp add: cm_Next_def le_less_trans)
qed

function skipUntilExistsOrInvalid :: "bytes list \<Rightarrow> bool \<Rightarrow> cacheMergeIterator \<Rightarrow> bool \<times> cacheMergeIterator" where
  "skipUntilExistsOrInvalid deleted ascending mi =
     (case cmi_parent mi of
        [] \<Rightarrow>
          (let c1 = skipCacheDeletes deleted ascending None (cmi_cache mi)
           in (cm_iter c1 \<noteq> [], mi\<lparr>cmi_cache := c1\<rparr>))
      | (keyP, _) # ps \<Rightarrow>
          if cm_iter (cmi_cache mi) = [] then (True, mi)
          else
            let keyC = fst (hd (cm_iter (cmi_cache mi))) in
            if mi_compare ascending keyP keyC = -1 then (True, mi)
            else (case cm_Value deleted (cmi_cache mi) of
                    (valueC, c1) \<Rightarrow>
                      if valueC \<noteq> None then (True, mi\<lparr>cmi_cache := c1\<rparr>)
                      else if mi_compare ascending keyP keyC = 0
                      then skipUntilExistsOrInvalid deleted ascending \<lparr>cmi_parent = ps, cmi_cache = cm_Next c1\<rparr>
                      else skipUntilExistsOrInvalid deleted ascending
                             (mi\<lparr>cmi_cache := skipCacheDeletes deleted ascending (Some keyP) c1\<rparr>)))"
  by pat_completeness auto
termination
  by (relation "measure (\<lambda>(deleted, ascending, mi). length (cmi_parent mi) + length (cm_iter (cmi_cache mi)))")
    (auto simp: cm_Next_def intro!: skipCacheDeletes_progress [OF _ sym] dest: arg_cong [where f = "\<lambda>x. cm_iter (snd x)"])

declare skipUntilExistsOrInvalid.simps [simp del]

text \<open>\<open>Next\<close>, \<open>Key\<close> and \<open>Value\<close> first skip, then assert that the iterator is valid (which skips again).\<close>

definition assertValid :: "bytes list \<Rightarrow> bool \<Rightarrow> cacheMergeIterator \<Rightarrow> panic + cacheMergeIterator" where
  "assertValid deleted ascending mi =
     (case skipUntilExistsOrInvalid deleted ascending mi of
        (_, mi1) \<Rightarrow>
          (case skipUntilExistsOrInvalid deleted ascending mi1 of
             (valid, mi2) \<Rightarrow> if valid then Inr mi2 else Inl InvalidIterator))"

definition cmi_Next :: "bytes list \<Rightarrow> bool \<Rightarrow> cacheMergeIterator \<Rightarrow> panic + cacheMergeIterator" where
  "cmi_Next deleted ascending mi =
     sum_bind (assertValid deleted ascending mi) (\<lambda>mi1.
       case cmi_parent mi1 of
         [] \<Rightarrow> Inr (mi1\<lparr>cmi_cache := cm_Next (cmi_cache mi1)\<rparr>)
       | (keyP, _) # ps \<Rightarrow>
           if cm_iter (cmi_cache mi1) = [] then Inr (mi1\<lparr>cmi_parent := ps\<rparr>)
           else
             let cmp = mi_compare ascending keyP (fst (hd (cm_iter (cmi_cache mi1)))) in
             if cmp = -1 then Inr (mi1\<lparr>cmi_parent := ps\<rparr>)
             else if cmp = 0 then Inr \<lparr>cmi_parent = ps, cmi_cache = cm_Next (cmi_cache mi1)\<rparr>
             else Inr (mi1\<lparr>cmi_cache := cm_Next (cmi_cache mi1)\<rparr>))"

definition cmi_Key :: "bytes list \<Rightarrow> bool \<Rightarrow> cacheMergeIterator \<Rightarrow> panic + bytes \<times> cacheMergeIterator" where
  "cmi_Key deleted ascending mi =
     sum_bind (assertValid deleted ascending mi) (\<lambda>mi1.
       case cmi_parent mi1 of
         [] \<Rightarrow> Inr (fst (hd (cm_iter (cmi_cache mi1))), mi1)
       | (keyP, _) # _ \<Rightarrow>
           if cm_iter (cmi_cache mi1) = [] then Inr (keyP, mi1)
           else
             let keyC = fst (hd (cm_iter (cmi_cache mi1))) in
             Inr (if mi_compare ascending keyP keyC = 1 then keyC else keyP, mi1))"

definition cmi_Value :: "bytes list \<Rightarrow> bool \<Rightarrow> cacheMergeIterator \<Rightarrow> panic + slice \<times> cacheMergeIterator" where
  "cmi_Value deleted ascending mi =
     sum_bind (assertValid deleted ascending mi) (\<lambda>mi1.
       case cmi_parent mi1 of
         [] \<Rightarrow> (case cm_Value deleted (cmi_cache mi1) of (v, c1) \<Rightarrow> Inr (v, mi1\<lparr>cmi_cache := c1\<rparr>))
       | (keyP, valP) # _ \<Rightarrow>
           if cm_iter (cmi_cache mi1) = [] then Inr (Some valP, mi1)
           else if mi_compare ascending keyP (fst (hd (cm_iter (cmi_cache mi1)))) = -1 then Inr (Some valP, mi1)
           else (case cm_Value deleted (cmi_cache mi1) of (v, c1) \<Rightarrow> Inr (v, mi1\<lparr>cmi_cache := c1\<rparr>)))"

text \<open>What a client reads from an iterator, with a bound on the number of entries.\<close>

fun cmi_collect :: "nat \<Rightarrow> bytes list \<Rightarrow> bool \<Rightarrow> cacheMergeIterator \<Rightarrow> panic + (bytes \<times> bytes) list" where
  "cmi_collect 0 deleted ascending mi = Inr []"
| "cmi_collect (Suc n) deleted ascending mi =
     (case skipUntilExistsOrInvalid deleted ascending mi of
        (valid, mi1) \<Rightarrow>
          if \<not> valid then Inr []
          else
            sum_bind (cmi_Key deleted ascending mi1) (\<lambda>(k, mi2).
            sum_bind (cmi_Value deleted ascending mi2) (\<lambda>(v, mi3).
            sum_bind (cmi_Next deleted ascending mi3) (\<lambda>mi4.
            sum_bind (cmi_collect n deleted ascending mi4) (\<lambda>kvs.
              Inr ((k, slice_bytes v) # kvs))))))"

subsection \<open>Iteration over a layer\<close>

definition getOrInitSortedCache :: "'d MemDB \<Rightarrow> 'd Store \<Rightarrow> 'd \<times> 'd Store" where
  "getOrInitSortedCache db l =
     (case ck_sortedCache l of
        Some d \<Rightarrow> (d, l)
      | None \<Rightarrow> (db_New db, l\<lparr>ck_sortedCache := Some (db_New db)\<rparr>))"

definition deleteKeysFromUnsortedCache :: "(bytes \<times> slice) list \<Rightarrow> 'd Store \<Rightarrow> 'd Store" where
  "deleteKeysFromUnsortedCache unsorted l =
     l\<lparr>ck_unsortedCache := fold (\<lambda>(k, v). removeAll k) unsorted (ck_unsortedCache l)\<rparr>"

definition set_sorted :: "'d MemDB \<Rightarrow> bytes \<times> slice \<Rightarrow> 'd Store \<Rightarrow> panic + 'd Store" where
  "set_sorted db item l =
     (case getOrInitSortedCache db l of
        (d, l1) \<Rightarrow>
          (case db_Set db d (fst item) (if snd item = None then Some [] else snd item) of
             None \<Rightarrow> Inl KeyIsNil
           | Some d' \<Rightarrow> Inr (l1\<lparr>ck_sortedCache := Some d'\<rparr>)))"

definition clearUnsortedCacheSubset :: "'d MemDB \<Rightarrow> (bytes \<times> slice) list \<Rightarrow> 'd Store \<Rightarrow> panic + 'd Store" where
  "clearUnsortedCacheSubset db unsorted l =
     each (set_sorted db) (sort_key fst unsorted) (deleteKeysFromUnsortedCache unsorted l)"

definition dirtyItems :: "'d MemDB \<Rightarrow> slice \<Rightarrow> slice \<Rightarrow> 'd Store \<Rightarrow> panic + 'd Store" where
  "dirtyItems db start end' l =
     (if end' \<noteq> None \<and> slice_bytes start > slice_bytes end' then Inr l
      else
        let unsorted = List.map_filter (\<lambda>k.
              if IsKeyInDomain k start end'
              then map_option (\<lambda>cv. (k, cv_value cv)) (gm_load (ck_cache l) k) else None) (ck_unsortedCache l)
        in clearUnsortedCacheSubset db unsorted l)"

text \<open>\<open>iterator\<close>, at the ancestor that is \<open>d\<close> layers further up. An empty cache iterator makes the merge a
  pass-through; otherwise the entries of parent and cache bound the number of merged entries.\<close>

fun ck_iterator ::
  "'d MemDB \<Rightarrow> slice \<Rightarrow> slice \<Rightarrow> bool \<Rightarrow> nat \<Rightarrow> 'd kvs \<Rightarrow> panic + (bytes \<times> bytes) list \<times> 'd kvs" where
  "ck_iterator db start end' ascending d (Base b) = Inr (kv_Iterator b start end' ascending, Base b)"
| "ck_iterator db start end' ascending (Suc d) (Cache l p) =
     sum_bind (ck_iterator db start end' ascending d p) (\<lambda>(kvs, p'). Inr (kvs, Cache l p'))"
| "ck_iterator db start end' ascending 0 (Cache l p) =
     (case readThroughParent l p of
        (d, l1) \<Rightarrow>
          sum_bind (ck_iterator db start end' ascending d p) (\<lambda>(parent, p').
          sum_bind (dirtyItems db start end' l1) (\<lambda>l2.
          case getOrInitSortedCache db l2 of
            (items, l3) \<Rightarrow>
              sum_bind (newMemIterator db start end' items ascending) (\<lambda>cache.
              if cm_iter cache = [] then Inr (parent, Cache l3 p')
              else sum_bind (cmi_collect (length parent + length (cm_iter cache)) (ck_deleted l3) ascending
                     \<lparr>cmi_parent = parent, cmi_cache = cache\<rparr>) (\<lambda>kvs.
                Inr (kvs, Cache l3 p'))))))"

definition ck_Iterator :: "'d MemDB \<Rightarrow> slice \<Rightarrow> slice \<Rightarrow> 'd kvs \<Rightarrow> panic + (bytes \<times> bytes) list \<times> 'd kvs" where
  "ck_Iterator db start end' s = ck_iterator db start end' True 0 s"

definition ck_ReverseIterator :: "'d MemDB \<Rightarrow> slice \<Rightarrow> slice \<Rightarrow> 'd kvs \<Rightarrow> panic + (bytes \<times> bytes) list \<times> 'd kvs" where
  "ck_ReverseIterator db start end' s = ck_iterator db start end' False 0 s"

end
