(* ===== verification/CacheLaws.thy ===== *)
theory CacheLaws
  imports CacheKV
begin

text \<open>
  What cache layers do: the content that a stack of layers shows (\<open>view\<close>), the invariant of layers
  and memos (\<open>chain_ok\<close>), and the effect of every operation of \<open>CacheKV\<close> on them. Reads and iterators
  return what reading one layer after the other returns, although they skip layers.
\<close>

subsection \<open>The content of a stack of layers\<close>

fun view :: "'d kvs \<Rightarrow> bytes \<Rightarrow> slice" where
  "view (Base b) k = kv_Get b k"
| "view (Cache l p) k = (case gm_load (ck_cache l) k of Some cv \<Rightarrow> cv_value cv | None \<Rightarrow> view p k)"

lemma view_Set: "view (kvs_Set k v s) k' = (if k' = k then Some v else view s k')"
  by (cases s) (auto simp: gomap_simps setCacheValue_def)

lemma view_Delete: "view (kvs_Delete k s) k' = (if k' = k then None else view s k')"
  by (cases s) (auto simp: gomap_simps setCacheValue_def)

interpretation layered: kv_store view kvs_Set kvs_Delete
  by unfold_locales (simp_all add: view_Set view_Delete)

text \<open>The invariant of a layer: the cache holds valid keys, all dirty, and records which of them are
  deleted; a clean layer is empty; the keys that are not in the unsorted cache are in the sorted one with
  their value.\<close>

definition sorted_content :: "('d \<Rightarrow> bytes \<Rightarrow> slice) \<Rightarrow> 'd Store \<Rightarrow> bytes \<Rightarrow> slice" where
  "sorted_content content l k = (case ck_sortedCache l of None \<Rightarrow> None | Some d \<Rightarrow> content d k)"

definition cached_bytes :: "'d Store \<Rightarrow> bytes \<Rightarrow> slice" where
  "cached_bytes l k = map_option (\<lambda>cv. slice_bytes (cv_value cv)) (gm_load (ck_cache l) k)"

definition layer_ok :: "('d \<Rightarrow> bytes \<Rightarrow> slice) \<Rightarrow> 'd Store \<Rightarrow> bool" where
  "layer_ok content l \<longleftrightarrow>
     distinct (gm_keys (ck_cache l)) \<and>
     (\<forall>k cv. gm_load (ck_cache l) k = Some cv \<longrightarrow>
        k \<noteq> [] \<and> cv_dirty cv \<and> (k \<in> set (ck_deleted l) \<longleftrightarrow> cv_value cv = None)) \<and>
     (\<forall>k. k \<in> set (ck_deleted l) \<or> k \<in> set (ck_unsortedCache l) \<longrightarrow> gm_load (ck_cache l) k \<noteq> None) \<and>
     (\<not> ck_dirty l \<longrightarrow> ck_cache l = []) \<and>
     (\<forall>k. sorted_content content l k \<noteq> None \<longrightarrow> gm_load (ck_cache l) k \<noteq> None) \<and>
     (\<forall>k. k \<notin> set (ck_unsortedCache l) \<longrightarrow> sorted_content content l k = cached_bytes l k)"

text \<open>The invariant of a stack: a memo skips layers that are empty, and the base holds no empty key.\<close>

fun hollow :: "nat \<Rightarrow> 'd kvs \<Rightarrow> bool" where
  "hollow 0 s \<longleftrightarrow> True"
| "hollow (Suc d) (Base b) \<longleftrightarrow> False"
| "hollow (Suc d) (Cache l p) \<longleftrightarrow> ck_cache l = [] \<and> hollow d p"

fun chain_ok :: "('d \<Rightarrow> bytes \<Rightarrow> slice) \<Rightarrow> 'd kvs \<Rightarrow> bool" where
  "chain_ok content (Base b) \<longleftrightarrow> kv_Get b [] = None"
| "chain_ok content (Cache l p) \<longleftrightarrow>
     layer_ok content l \<and> (\<forall>d. ck_readParent l = Some d \<longrightarrow> hollow d p) \<and> chain_ok content p"

lemma layer_ok_clean: "layer_ok content l \<Longrightarrow> \<not> ck_dirty l \<Longrightarrow> ck_cache l = []"
  by (simp add: layer_ok_def)

lemma layer_ok_load:
  "layer_ok content l \<Longrightarrow> gm_load (ck_cache l) k = Some cv \<Longrightarrow>
     k \<noteq> [] \<and> cv_dirty cv \<and> (k \<in> set (ck_deleted l) \<longleftrightarrow> cv_value cv = None)"
  unfolding layer_ok_def by blast

lemma layer_ok_flags [simp]:
  "layer_ok content (l\<lparr>ck_readParent := d\<rparr>) \<longleftrightarrow> layer_ok content l"
  "layer_ok content (l\<lparr>ck_frozen := f\<rparr>) \<longleftrightarrow> layer_ok content l"
  by (simp_all add: layer_ok_def sorted_content_def cached_bytes_def)

lemma layer_ok_New: "layer_ok content NewStore"
  by (simp add: layer_ok_def NewStore_def sorted_content_def cached_bytes_def)

lemma chain_ok_CacheWrap: "chain_ok content s \<Longrightarrow> chain_ok content (CacheWrap s)"
  by (simp add: CacheWrap_def layer_ok_New) (simp add: NewStore_def)

lemma layer_ok_set:
  assumes "layer_ok content l" and "k \<noteq> []"
  shows "layer_ok content (setCacheValue k v (v = None) True l)"
  using assms
  by (auto simp: layer_ok_def setCacheValue_def gomap_simps sorted_content_def cached_bytes_def
      distinct_update simp del: not_None_eq)

lemma chain_ok_Set: "chain_ok content s \<Longrightarrow> k \<noteq> [] \<Longrightarrow> chain_ok content (kvs_Set k v s)"
  using layer_ok_set [of content _ k "Some v"] by (cases s) (auto simp: setCacheValue_def gomap_simps)

lemma chain_ok_Delete: "chain_ok content s \<Longrightarrow> k \<noteq> [] \<Longrightarrow> chain_ok content (kvs_Delete k s)"
  using layer_ok_set [of content _ k None] by (cases s) (auto simp: setCacheValue_def gomap_simps)

subsection \<open>Skipping layers\<close>

text \<open>Reads change nothing but memos and the sorting of the cache.\<close>

definition same_layer :: "'d Store \<Rightarrow> 'd Store \<Rightarrow> bool" where
  "same_layer l l' \<longleftrightarrow> ck_cache l' = ck_cache l \<and> ck_deleted l' = ck_deleted l \<and>
     ck_frozen l' = ck_frozen l \<and> ck_dirty l' = ck_dirty l"

fun same_chain :: "'d kvs \<Rightarrow> 'd kvs \<Rightarrow> bool" where
  "same_chain (Base b) (Base b') \<longleftrightarrow> b' = b"
| "same_chain (Cache l p) (Cache l' p') \<longleftrightarrow> same_layer l l' \<and> same_chain p p'"
| "same_chain _ _ \<longleftrightarrow> False"

lemma same_layer_refl [simp]: "same_layer l l"
  by (simp add: same_layer_def)

lemma same_chain_refl [simp]: "same_chain s s"
  by (induction s) simp_all

lemma same_layer_trans: "same_layer a b \<Longrightarrow> same_layer b c \<Longrightarrow> same_layer a c"
  by (simp add: same_layer_def)

lemma same_chain_trans: "same_chain a b \<Longrightarrow> same_chain b c \<Longrightarrow> same_chain a c"
proof (induction a b arbitrary: c rule: same_chain.induct)
  case (2 l p l' p')
  then show ?case by (cases c) (auto intro: same_layer_trans)
qed (auto elim: same_chain.elims)

lemma same_chain_view: "same_chain s s' \<Longrightarrow> view s' = view s"
  by (induction s s' rule: same_chain.induct) (auto simp: fun_eq_iff same_layer_def split: option.splits)

lemma same_chain_hollow: "same_chain s s' \<Longrightarrow> hollow d s' \<longleftrightarrow> hollow d s"
proof (induction s s' arbitrary: d rule: same_chain.induct)
  case (2 l p l' p')
  then show ?case by (cases d) (auto simp: same_layer_def)
qed auto

lemma hollow_skip_empty: "chain_ok content s \<Longrightarrow> hollow (skip_empty s) s"
  by (induction s) (auto dest: layer_ok_clean)

lemma readThroughParent_ok:
  assumes "chain_ok content (Cache l p)" and "readThroughParent l p = (d, l')"
  shows "hollow d p" and "chain_ok content (Cache l' p)" and "same_layer l l'"
proof -
  have l': "l' = l \<or> l' = l\<lparr>ck_readParent := Some d\<rparr>"
    using assms(2) by (auto simp: readThroughParent_def Let_def split: kvs.splits if_splits option.splits)
  have "d = 0 \<or> ck_readParent l = Some d \<or> d = skip_empty p"
    using assms(2) by (auto simp: readThroughParent_def Let_def split: kvs.splits if_splits option.splits)
  with assms(1) hollow_skip_empty show h: "hollow d p" by auto
  from l' h assms(1) show "chain_ok content (Cache l' p)" by auto
  from l' show "same_layer l l'" by (auto simp: same_layer_def)
qed

lemma chain_ok_replace:
  assumes "chain_ok content (Cache l p)" and "same_chain p p'" and "chain_ok content p'"
  shows "chain_ok content (Cache l p')"
  using assms by (simp add: same_chain_hollow)

lemma getFromCache_ok:
  assumes "chain_ok content s" and "hollow d s" and "getFromCache d k s = (v, s')"
  shows "v = view s k \<and> same_chain s s' \<and> chain_ok content s'"
  using assms
proof (induction d k s arbitrary: v s' rule: getFromCache.induct)
  case (2 d k l p)
  obtain w p' where w: "getFromCache d k p = (w, p')" by force
  with "2.IH" [OF _ _ w] "2.prems" have "w = view p k" "same_chain p p'" "chain_ok content p'" by auto
  with "2.prems" w show ?case by (auto simp: same_chain_hollow)
next
  case (3 k l p)
  show ?case
  proof (cases "gm_load (ck_cache l) k")
    case None
    obtain d l' where d: "readThroughParent l p = (d, l')" by force
    obtain w p' where w: "getFromCache d k p = (w, p')" by force
    note r = readThroughParent_ok [OF "3.prems"(1) d]
    have "w = view p k \<and> same_chain p p' \<and> chain_ok content p'"
      using "3.IH" [OF None d [symmetric] _ r(1) w] "3.prems"(1) by simp
    with None "3.prems"(3) d w r show ?thesis by (auto intro: chain_ok_replace)
  qed (use "3.prems" in auto)
qed auto

subsection \<open>The merge iterator\<close>

text \<open>What the merge of a parent with a cache has to offer.\<close>

fun merged :: "bytes list \<Rightarrow> bool \<Rightarrow> (bytes \<times> bytes) list \<Rightarrow> (bytes \<times> bytes) list \<Rightarrow> (bytes \<times> bytes) list" where
  "merged deleted ascending ps [] = ps"
| "merged deleted ascending [] (c # cs) =
     (if fst c \<in> set deleted then merged deleted ascending [] cs else c # merged deleted ascending [] cs)"
| "merged deleted ascending (p # ps) (c # cs) =
     (if mi_compare ascending (fst p) (fst c) = -1 then p # merged deleted ascending ps (c # cs)
      else if mi_compare ascending (fst p) (fst c) = 0
      then (if fst c \<in> set deleted then merged deleted ascending ps cs else c # merged deleted ascending ps cs)
      else (if fst c \<in> set deleted then merged deleted ascending (p # ps) cs
            else c # merged deleted ascending (p # ps) cs))"

text \<open>A cache iterator does not remember a deleted key as its last one.\<close>

definition fresh :: "bytes list \<Rightarrow> memIterator \<Rightarrow> bool" where
  "fresh deleted c \<longleftrightarrow> (\<forall>k. cm_lastKey c = Some k \<longrightarrow> k \<notin> set deleted)"

lemma cm_Value_fresh:
  assumes "fresh deleted c" and "cm_Value deleted c = (v, c')"
  shows "v = (if fst (hd (cm_iter c)) \<in> set deleted then None else Some (snd (hd (cm_iter c))))"
    and "cm_iter c' = cm_iter c" and "fresh deleted c'"
  using assms by (auto simp: cm_Value_def Let_def fresh_def bytes_Equal_def split: if_splits)

lemma fresh_Next [simp]: "fresh deleted (cm_Next c) \<longleftrightarrow> fresh deleted c"
  by (simp add: fresh_def cm_Next_def)

definition skippable :: "bytes list \<Rightarrow> bool \<Rightarrow> slice \<Rightarrow> bytes \<times> bytes \<Rightarrow> bool" where
  "skippable deleted ascending until c \<longleftrightarrow> fst c \<in> set deleted \<and>
     (case until of None \<Rightarrow> True | Some u \<Rightarrow> mi_compare ascending (fst c) u < 0)"

lemma skipCacheDeletes_spec:
  "fresh deleted c \<Longrightarrow>
     cm_iter (skipCacheDeletes deleted ascending until c) = dropWhile (skippable deleted ascending until) (cm_iter c) \<and>
     fresh deleted (skipCacheDeletes deleted ascending until c)"
proof (induction deleted ascending until c rule: skipCacheDeletes.induct)
  case (1 deleted ascending until c)
  obtain v c1 where v: "cm_Value deleted c = (v, c1)" by force
  note val = cm_Value_fresh [OF "1.prems" v]
  show ?case
  proof (cases "cm_iter c")
    case Nil
    with "1.prems" show ?thesis by (subst (1 2) skipCacheDeletes.simps) simp
  next
    case (Cons x xs)
    have skip: "skipCacheDeletes deleted ascending until c =
        (if skippable deleted ascending until x then skipCacheDeletes deleted ascending until (cm_Next c1) else c1)"
      using Cons v val by (subst skipCacheDeletes.simps) (auto simp: skippable_def split: option.splits)
    show ?thesis
    proof (cases "skippable deleted ascending until x")
      case True
      have "v = None \<and> (case until of None \<Rightarrow> True | Some u \<Rightarrow> mi_compare ascending (fst (hd (cm_iter c1))) u < 0)"
        using True Cons val by (auto simp: skippable_def split: option.splits)
      from "1.IH" [OF _ v [symmetric] refl this] Cons val True
      show ?thesis by (simp add: skip) (simp add: cm_Next_def)
    qed (use Cons val skip in simp)
  qed
qed

lemma mi_compare_values: "mi_compare ascending a b \<in> {-1, 0, 1}"
  by (auto simp: mi_compare_def bytes_Compare_def)

lemma mi_compare_flip': "mi_compare ascending a b < 0 \<Longrightarrow> mi_compare ascending b a = 1"
  by (auto simp: mi_compare_def bytes_Compare_def split: if_splits)

lemma merged_drop:
  "merged deleted ascending [] (dropWhile (skippable deleted ascending None) cs) = merged deleted ascending [] cs"
  "merged deleted ascending (p # ps) (dropWhile (skippable deleted ascending (Some (fst p))) cs) =
     merged deleted ascending (p # ps) cs"
  by (induction cs) (auto simp: skippable_def dest: mi_compare_flip')

definition settled :: "bytes list \<Rightarrow> bool \<Rightarrow> cacheMergeIterator \<Rightarrow> bool" where
  "settled deleted ascending mi \<longleftrightarrow>
     cm_iter (cmi_cache mi) = [] \<or> fst (hd (cm_iter (cmi_cache mi))) \<notin> set deleted \<or>
     (cmi_parent mi \<noteq> [] \<and> mi_compare ascending (fst (hd (cmi_parent mi))) (fst (hd (cm_iter (cmi_cache mi)))) = -1)"

definition rest :: "bytes list \<Rightarrow> bool \<Rightarrow> cacheMergeIterator \<Rightarrow> (bytes \<times> bytes) list" where
  "rest deleted ascending mi = merged deleted ascending (cmi_parent mi) (cm_iter (cmi_cache mi))"

lemma skipUntil_Nil:
  assumes "cmi_parent mi = []"
  shows "skipUntilExistsOrInvalid deleted ascending mi =
    (cm_iter (skipCacheDeletes deleted ascending None (cmi_cache mi)) \<noteq> [],
     mi\<lparr>cmi_cache := skipCacheDeletes deleted ascending None (cmi_cache mi)\<rparr>)"
  using assms by (subst skipUntilExistsOrInvalid.simps) (simp add: Let_def)

lemma skipUntil_Cons:
  assumes "cmi_parent mi = p # ps" and "cm_Value deleted (cmi_cache mi) = (v, c1)"
  shows "skipUntilExistsOrInvalid deleted ascending mi =
    (if cm_iter (cmi_cache mi) = [] \<or> mi_compare ascending (fst p) (fst (hd (cm_iter (cmi_cache mi)))) = -1 then (True, mi)
     else if v \<noteq> None then (True, mi\<lparr>cmi_cache := c1\<rparr>)
     else if mi_compare ascending (fst p) (fst (hd (cm_iter (cmi_cache mi)))) = 0
     then skipUntilExistsOrInvalid deleted ascending \<lparr>cmi_parent = ps, cmi_cache = cm_Next c1\<rparr>
     else skipUntilExistsOrInvalid deleted ascending (mi\<lparr>cmi_cache := skipCacheDeletes deleted ascending (Some (fst p)) c1\<rparr>))"
  using assms by (subst skipUntilExistsOrInvalid.simps) (simp add: Let_def split_beta)

lemma settled_rest:
  "settled deleted ascending mi \<Longrightarrow>
     rest deleted ascending mi = [] \<longleftrightarrow> cmi_parent mi = [] \<and> cm_iter (cmi_cache mi) = []"
  by (cases "cmi_parent mi"; cases "cm_iter (cmi_cache mi)") (auto simp: rest_def settled_def)

lemma skipUntil_spec:
  "fresh deleted (cmi_cache mi) \<Longrightarrow> skipUntilExistsOrInvalid deleted ascending mi = (valid, mi') \<Longrightarrow>
     rest deleted ascending mi' = rest deleted ascending mi \<and> settled deleted ascending mi' \<and>
     fresh deleted (cmi_cache mi') \<and> (valid \<longleftrightarrow> rest deleted ascending mi \<noteq> [])"
proof (induction deleted ascending mi arbitrary: valid mi' rule: skipUntilExistsOrInvalid.induct)
  case (1 deleted ascending mi)
  show ?case
  proof (cases "cmi_parent mi")
    case Nil
    let ?c = "skipCacheDeletes deleted ascending None (cmi_cache mi)"
    let ?mi = "mi\<lparr>cmi_cache := ?c\<rparr>"
    note spec = skipCacheDeletes_spec [OF "1.prems"(1), of ascending None]
    have r: "rest deleted ascending ?mi = rest deleted ascending mi"
      using spec Nil by (simp add: rest_def merged_drop)
    have s: "settled deleted ascending ?mi"
      using spec hd_dropWhile [of "skippable deleted ascending None" "cm_iter (cmi_cache mi)"]
      by (auto simp: skippable_def settled_def)
    have "valid \<longleftrightarrow> cm_iter ?c \<noteq> []" and "mi' = ?mi"
      using "1.prems"(2) Nil by (simp_all add: skipUntil_Nil)
    with r s spec Nil settled_rest [OF s] show ?thesis by simp
  next
    case (Cons p ps)
    obtain v c1 where v: "cm_Value deleted (cmi_cache mi) = (v, c1)" by force
    note val = cm_Value_fresh [OF "1.prems"(1) v]
    obtain kp vp where p: "p = (kp, vp)" by (cases p)
    let ?k = "fst (hd (cm_iter (cmi_cache mi)))"
    consider "cm_iter (cmi_cache mi) = [] \<or> mi_compare ascending kp ?k = -1"
      | "cm_iter (cmi_cache mi) \<noteq> []" "mi_compare ascending kp ?k \<noteq> -1" "v \<noteq> None"
      | "cm_iter (cmi_cache mi) \<noteq> []" "mi_compare ascending kp ?k = 0" "v = None"
      | "cm_iter (cmi_cache mi) \<noteq> []" "mi_compare ascending kp ?k = 1" "v = None"
      using mi_compare_values [of ascending kp ?k] by auto
    then show ?thesis
    proof cases
      case 1
      with "1.prems" Cons v p show ?thesis
        by (cases "cm_iter (cmi_cache mi)") (auto simp: skipUntil_Cons settled_def rest_def)
    next
      case 2
      with "1.prems" Cons v val p show ?thesis
        by (cases "cm_iter (cmi_cache mi)") (auto simp: skipUntil_Cons settled_def rest_def split: if_splits)
    next
      case 3
      let ?mi = "\<lparr>cmi_parent = ps, cmi_cache = cm_Next c1\<rparr>"
      have "skipUntilExistsOrInvalid deleted ascending ?mi = (valid, mi')"
        using "1.prems"(2) Cons v 3 p by (simp add: skipUntil_Cons)
      note IH = "1.IH"(1) [OF Cons [unfolded p] refl 3(1) refl _ v [symmetric] _ 3(2) _ this]
      have "rest deleted ascending ?mi = rest deleted ascending mi"
        using 3 Cons val p by (cases "cm_iter (cmi_cache mi)") (auto simp: rest_def cm_Next_def split: if_splits)
      with IH 3 val show ?thesis by simp
    next
      case 4
      let ?mi = "mi\<lparr>cmi_cache := skipCacheDeletes deleted ascending (Some kp) c1\<rparr>"
      have "skipUntilExistsOrInvalid deleted ascending ?mi = (valid, mi')"
        using "1.prems"(2) Cons v 4 p by (simp add: skipUntil_Cons)
      note IH = "1.IH"(2) [OF Cons [unfolded p] refl 4(1) refl _ v [symmetric] _ _ _ this]
      note spec = skipCacheDeletes_spec [OF val(3), of ascending "Some kp"]
      have "rest deleted ascending ?mi = rest deleted ascending mi"
        using spec Cons val(2) p merged_drop(2) [of deleted ascending p ps "cm_iter (cmi_cache mi)"] by (simp add: rest_def)
      with IH 4 spec show ?thesis by simp
    qed
  qed
qed

lemma assertValid_spec:
  assumes "fresh deleted (cmi_cache mi)"
  shows "rest deleted ascending mi = [] \<Longrightarrow> assertValid deleted ascending mi = Inl InvalidIterator"
    and "rest deleted ascending mi \<noteq> [] \<Longrightarrow> \<exists>mi'. assertValid deleted ascending mi = Inr mi' \<and>
      rest deleted ascending mi' = rest deleted ascending mi \<and> settled deleted ascending mi' \<and>
      fresh deleted (cmi_cache mi')"
proof -
  obtain b1 mi1 where 1: "skipUntilExistsOrInvalid deleted ascending mi = (b1, mi1)" by force
  obtain b2 mi2 where 2: "skipUntilExistsOrInvalid deleted ascending mi1 = (b2, mi2)" by force
  note s1 = skipUntil_spec [OF assms 1]
  then have s2: "rest deleted ascending mi2 = rest deleted ascending mi1 \<and> settled deleted ascending mi2 \<and>
      fresh deleted (cmi_cache mi2) \<and> (b2 \<longleftrightarrow> rest deleted ascending mi1 \<noteq> [])"
    using skipUntil_spec [OF _ 2] by blast
  from 1 2 s1 s2 show "rest deleted ascending mi = [] \<Longrightarrow> assertValid deleted ascending mi = Inl InvalidIterator"
    and "rest deleted ascending mi \<noteq> [] \<Longrightarrow> \<exists>mi'. assertValid deleted ascending mi = Inr mi' \<and>
      rest deleted ascending mi' = rest deleted ascending mi \<and> settled deleted ascending mi' \<and>
      fresh deleted (cmi_cache mi')"
    by (auto simp: assertValid_def)
qed

text \<open>The operations offer the head of what is left, and \<open>Next\<close> drops it.\<close>

lemma cmi_ops:
  assumes "fresh deleted (cmi_cache mi)" and "rest deleted ascending mi = (k, v) # kvs"
  shows "\<exists>mi'. cmi_Key deleted ascending mi = Inr (k, mi') \<and>
      rest deleted ascending mi' = (k, v) # kvs \<and> fresh deleted (cmi_cache mi')"
    and "\<exists>mi'. cmi_Value deleted ascending mi = Inr (Some v, mi') \<and>
      rest deleted ascending mi' = (k, v) # kvs \<and> fresh deleted (cmi_cache mi')"
    and "\<exists>mi'. cmi_Next deleted ascending mi = Inr mi' \<and>
      rest deleted ascending mi' = kvs \<and> fresh deleted (cmi_cache mi')"
proof -
  obtain m where m: "assertValid deleted ascending mi = Inr m" "rest deleted ascending m = (k, v) # kvs"
      "settled deleted ascending m" "fresh deleted (cmi_cache m)"
    using assertValid_spec(2) [OF assms(1)] assms(2) by force
  obtain w c where w: "cm_Value deleted (cmi_cache m) = (w, c)" by force
  note val = cm_Value_fresh [OF m(4) w]
  show "\<exists>mi'. cmi_Key deleted ascending mi = Inr (k, mi') \<and>
      rest deleted ascending mi' = (k, v) # kvs \<and> fresh deleted (cmi_cache mi')"
    using m by (cases "cmi_parent m"; cases "cm_iter (cmi_cache m)")
      (auto simp: cmi_Key_def rest_def settled_def mi_compare_def bytes_Compare_def split: if_splits)
  show "\<exists>mi'. cmi_Value deleted ascending mi = Inr (Some v, mi') \<and>
      rest deleted ascending mi' = (k, v) # kvs \<and> fresh deleted (cmi_cache mi')"
    using m w val by (cases "cmi_parent m"; cases "cm_iter (cmi_cache m)")
      (auto simp: cmi_Value_def rest_def settled_def split: if_splits)
  show "\<exists>mi'. cmi_Next deleted ascending mi = Inr mi' \<and>
      rest deleted ascending mi' = kvs \<and> fresh deleted (cmi_cache mi')"
    using m by (cases "cmi_parent m"; cases "cm_iter (cmi_cache m)")
      (auto simp: cmi_Next_def rest_def settled_def cm_Next_def fresh_def split: if_splits)
qed

lemma cmi_collect_rest:
  "fresh deleted (cmi_cache mi) \<Longrightarrow> length (rest deleted ascending mi) \<le> n \<Longrightarrow>
     cmi_collect n deleted ascending mi = Inr (rest deleted ascending mi)"
proof (induction n arbitrary: mi)
  case (Suc n)
  obtain valid m1 where 1: "skipUntilExistsOrInvalid deleted ascending mi = (valid, m1)" by force
  note s1 = skipUntil_spec [OF Suc.prems(1) 1]
  show ?case
  proof (cases "rest deleted ascending mi")
    case (Cons x kvs)
    obtain k v where x: "x = (k, v)" by (cases x)
    obtain m2 where 2: "cmi_Key deleted ascending m1 = Inr (k, m2)" "rest deleted ascending m2 = (k, v) # kvs"
        "fresh deleted (cmi_cache m2)"
      using cmi_ops(1) [of deleted m1 ascending k v kvs] s1 Cons x by auto
    obtain m3 where 3: "cmi_Value deleted ascending m2 = Inr (Some v, m3)" "rest deleted ascending m3 = (k, v) # kvs"
        "fresh deleted (cmi_cache m3)"
      using cmi_ops(2) [OF 2(3,2)] by blast
    obtain m4 where 4: "cmi_Next deleted ascending m3 = Inr m4" "rest deleted ascending m4 = kvs"
        "fresh deleted (cmi_cache m4)"
      using cmi_ops(3) [OF 3(3,2)] by blast
    from Suc.IH [OF 4(3)] 4 Suc.prems Cons have "cmi_collect n deleted ascending m4 = Inr kvs" by simp
    with 1 2 3 4 s1 Cons x show ?thesis by simp
  qed (use 1 s1 in simp)
qed simp

subsection \<open>Merging sorted iterators\<close>

definition precedes :: "bool \<Rightarrow> bytes \<Rightarrow> bytes \<Rightarrow> bool" where
  "precedes ascending a b \<longleftrightarrow> (if ascending then a < b else b < a)"

lemma mi_compare_precedes:
  "mi_compare ascending a b = -1 \<longleftrightarrow> precedes ascending a b"
  "mi_compare ascending a b = 0 \<longleftrightarrow> a = b"
  by (auto simp: mi_compare_def bytes_Compare_def precedes_def)

lemma precedes_trans: "precedes ascending a b \<Longrightarrow> precedes ascending b c \<Longrightarrow> precedes ascending a c"
  by (auto simp: precedes_def split: if_splits)

lemma precedes_irrefl [simp]: "\<not> precedes ascending a a"
  by (simp add: precedes_def)

lemma precedes_linear: "\<not> precedes ascending a b \<Longrightarrow> a \<noteq> b \<Longrightarrow> precedes ascending b a"
  by (auto simp: precedes_def split: if_splits)

lemma in_order_Cons [simp]:
  "in_order ascending (x # xs) \<longleftrightarrow> (\<forall>y \<in> set xs. precedes ascending (fst x) (fst y)) \<and> in_order ascending xs"
  by (simp add: in_order_def precedes_def)

lemma in_order_Nil [simp]: "in_order ascending []"
  by (simp add: in_order_def)

text \<open>An ordered list of entries is determined by its entries.\<close>

lemma in_order_unique:
  "in_order ascending xs \<Longrightarrow> in_order ascending ys \<Longrightarrow> set xs = set ys \<Longrightarrow> xs = ys"
proof (induction xs arbitrary: ys)
  case (Cons x xs)
  then obtain y ys' where ys: "ys = y # ys'" by (cases ys) auto
  have "x = y"
  proof (rule ccontr)
    assume "x \<noteq> y"
    then have "x \<in> set ys'" "y \<in> set xs" using Cons.prems(3) ys by auto
    then have "precedes ascending (fst y) (fst x)" "precedes ascending (fst x) (fst y)"
      using Cons.prems ys by auto
    then show False by (auto dest: precedes_trans)
  qed
  moreover have "x \<notin> set xs" "y \<notin> set ys'" using Cons.prems ys by auto
  ultimately have "set xs = set ys'" using Cons.prems(3) ys by auto
  with Cons ys \<open>x = y\<close> show ?case by auto
qed simp

lemma merged_subset: "set (merged deleted ascending ps cs) \<subseteq> set ps \<union> set cs"
  by (induction deleted ascending ps cs rule: merged.induct) auto

lemma precedes_cases:
  obtains "precedes ascending a b" | "a = b" | "precedes ascending b a" "\<not> precedes ascending a b" "a \<noteq> b"
  using precedes_linear by blast

lemma merged_entries:
  assumes "in_order ascending ps" and "in_order ascending cs"
  shows "(k, v) \<in> set (merged deleted ascending ps cs) \<longleftrightarrow>
    (k, v) \<in> set cs \<and> k \<notin> set deleted \<or> (k, v) \<in> set ps \<and> (\<forall>w. (k, w) \<notin> set cs)"
  using assms
proof (induction deleted ascending ps cs rule: merged.induct)
  case (3 deleted ascending p ps c cs)
  obtain kp vp kc vc where pc: "p = (kp, vp)" "c = (kc, vc)" by (cases p; cases c)
  show ?case
  proof (cases rule: precedes_cases [of ascending kp kc])
    case 1
    then have "\<forall>w. (kp, w) \<notin> set (c # cs)" using "3.prems" pc by (auto dest: precedes_trans)
    moreover from 1 3 pc have "(k, v) \<in> set (merged deleted ascending ps (c # cs)) \<longleftrightarrow>
        (k, v) \<in> set (c # cs) \<and> k \<notin> set deleted \<or> (k, v) \<in> set ps \<and> (\<forall>w. (k, w) \<notin> set (c # cs))"
      by (simp add: mi_compare_precedes)
    ultimately show ?thesis using 1 pc by (auto simp: mi_compare_precedes)
  next
    case 2
    then have "\<forall>w. (kc, w) \<notin> set ps" "\<forall>w. (kc, w) \<notin> set cs" using "3.prems" pc by auto
    moreover from 2 3 pc have "(k, v) \<in> set (merged deleted ascending ps cs) \<longleftrightarrow>
        (k, v) \<in> set cs \<and> k \<notin> set deleted \<or> (k, v) \<in> set ps \<and> (\<forall>w. (k, w) \<notin> set cs)"
      by (cases "kc \<in> set deleted") (simp_all add: mi_compare_precedes)
    ultimately show ?thesis using 2 pc by (auto simp: mi_compare_precedes)
  next
    case c: 3
    then have "\<forall>w. (kc, w) \<notin> set (p # ps)" "\<forall>w. (kc, w) \<notin> set cs" using "3.prems" pc by (auto dest: precedes_trans)
    moreover from c 3 pc have "(k, v) \<in> set (merged deleted ascending (p # ps) cs) \<longleftrightarrow>
        (k, v) \<in> set cs \<and> k \<notin> set deleted \<or> (k, v) \<in> set (p # ps) \<and> (\<forall>w. (k, w) \<notin> set cs)"
      by (cases "kc \<in> set deleted") (simp_all add: mi_compare_precedes)
    ultimately show ?thesis using c pc by (auto simp: mi_compare_precedes)
  qed
qed auto

lemma merged_in_order:
  "in_order ascending ps \<Longrightarrow> in_order ascending cs \<Longrightarrow> in_order ascending (merged deleted ascending ps cs)"
proof (induction deleted ascending ps cs rule: merged.induct)
  case (2 deleted ascending c cs)
  then show ?case using merged_subset [of deleted ascending "[]" cs] by auto
next
  case (3 deleted ascending p ps c cs)
  show ?case
  proof (cases rule: precedes_cases [of ascending "fst p" "fst c"])
    case 1
    with 3 merged_subset [of deleted ascending ps "c # cs"] show ?thesis
      by (auto simp: mi_compare_precedes dest: precedes_trans)
  next
    case 2
    with 3 merged_subset [of deleted ascending ps cs] show ?thesis by (auto simp: mi_compare_precedes)
  next
    case c: 3
    with 3 merged_subset [of deleted ascending "p # ps" cs] show ?thesis
      by (auto simp: mi_compare_precedes dest: precedes_trans)
  qed
qed auto

lemma merged_length: "length (merged deleted ascending ps cs) \<le> length ps + length cs"
  by (induction deleted ascending ps cs rule: merged.induct) auto

end
