(* ===== verification/CacheIter.thy ===== *)
theory CacheIter
  imports CacheLaws
begin

text \<open>
  Iterators over a stack of cache layers: the sorted cache is brought up to date for the range, and the
  merge with the parent yields the content of the stack in the range, in order.
\<close>

definition entries_of :: "(bytes \<Rightarrow> slice) \<Rightarrow> slice \<Rightarrow> slice \<Rightarrow> (bytes \<times> bytes) list \<Rightarrow> bool" where
  "entries_of f start end' kvs \<longleftrightarrow> (\<forall>k v. (k, v) \<in> set kvs \<longleftrightarrow> IsKeyInDomain k start end' \<and> f k = Some v)"

context sorted_db
begin

lemma set_sorted_ok:
  assumes "k \<noteq> []"
  shows "\<exists>d. set_sorted db (k, v) l = Inr (l\<lparr>ck_sortedCache := Some d\<rparr>) \<and>
    content d = (sorted_content content l)(k := Some (slice_bytes v))"
proof -
  obtain d0 l0 where d0: "getOrInitSortedCache db l = (d0, l0)" "\<And>d. l0\<lparr>ck_sortedCache := d\<rparr> = l\<lparr>ck_sortedCache := d\<rparr>"
      "content d0 = sorted_content content l"
    by (cases "ck_sortedCache l")
      (auto simp: getOrInitSortedCache_def sorted_content_def content_New fun_eq_iff)
  obtain d where "db_Set db d0 k (Some (slice_bytes v)) = Some d" "content d = (content d0)(k := Some (slice_bytes v))"
    using content_Set [OF assms] by blast
  with d0 show ?thesis by (cases v) (auto simp: set_sorted_def)
qed

lemma each_set_sorted:
  assumes "\<And>k v. (k, v) \<in> set xs \<Longrightarrow> k \<noteq> [] \<and> v = f k"
  shows "\<exists>sc. each (set_sorted db) xs l = Inr (l\<lparr>ck_sortedCache := sc\<rparr>) \<and>
    (\<forall>k. sorted_content content (l\<lparr>ck_sortedCache := sc\<rparr>) k =
      (if k \<in> fst ` set xs then Some (slice_bytes (f k)) else sorted_content content l k))"
  using assms
proof (induction xs arbitrary: l)
  case Nil
  have "l = l\<lparr>ck_sortedCache := ck_sortedCache l\<rparr>" by simp
  then show ?case by (intro exI [of _ "ck_sortedCache l"]) simp
next
  case (Cons x xs)
  obtain k v where x: "x = (k, v)" by (cases x)
  obtain d where d: "set_sorted db (k, v) l = Inr (l\<lparr>ck_sortedCache := Some d\<rparr>)"
      "content d = (sorted_content content l)(k := Some (slice_bytes v))"
    using set_sorted_ok [of k v l] Cons.prems x by auto
  obtain sc where sc: "each (set_sorted db) xs (l\<lparr>ck_sortedCache := Some d\<rparr>) = Inr (l\<lparr>ck_sortedCache := sc\<rparr>)"
      "\<forall>j. sorted_content content (l\<lparr>ck_sortedCache := sc\<rparr>) j =
        (if j \<in> fst ` set xs then Some (slice_bytes (f j))
         else sorted_content content (l\<lparr>ck_sortedCache := Some d\<rparr>) j)"
    using Cons.IH [of "l\<lparr>ck_sortedCache := Some d\<rparr>"] Cons.prems by auto
  have "v = f k" using Cons.prems x by simp
  with sc d x show ?case by (intro exI [of _ sc]) (auto simp: sorted_content_def)
qed

lemma fold_removeAll: "set (fold (\<lambda>(k, v). removeAll k) xs ks) = set ks - fst ` set xs"
  by (induction xs arbitrary: ks) auto

lemma map_filter_load:
  "set (List.map_filter (\<lambda>k. if P k then map_option (\<lambda>cv. (k, cv_value cv)) (m k) else None) ks) =
     {(k, cv_value cv) | k cv. k \<in> set ks \<and> P k \<and> m k = Some cv}"
  by (force simp: List.map_filter_def split: if_splits option.splits)

lemma dirtyItems_ok:
  assumes "layer_ok content l"
  shows "\<exists>l'. dirtyItems db start end' l = Inr l' \<and> same_layer l l' \<and> ck_readParent l' = ck_readParent l \<and>
    layer_ok content l' \<and> (\<forall>k. IsKeyInDomain k start end' \<longrightarrow> sorted_content content l' k = cached_bytes l k)"
proof (cases "end' \<noteq> None \<and> slice_bytes start > slice_bytes end'")
  case True
  then have "\<not> IsKeyInDomain k start end'" for k by (auto simp: IsKeyInDomain_def)
  with True assms show ?thesis by (simp add: dirtyItems_def)
next
  case False
  let ?un = "List.map_filter (\<lambda>k. if IsKeyInDomain k start end'
    then map_option (\<lambda>cv. (k, cv_value cv)) (gm_load (ck_cache l) k) else None) (ck_unsortedCache l)"
  define f where "f k = (case gm_load (ck_cache l) k of Some cv \<Rightarrow> cv_value cv | None \<Rightarrow> None)" for k
  let ?l = "deleteKeysFromUnsortedCache ?un l"
  have un: "k \<in> fst ` set ?un \<longleftrightarrow> k \<in> set (ck_unsortedCache l) \<and> IsKeyInDomain k start end' \<and> gm_load (ck_cache l) k \<noteq> None" for k
    unfolding map_filter_load by force
  have keys: "k \<noteq> [] \<and> v = f k" if "(k, v) \<in> set (sort_key fst ?un)" for k v
    using that layer_ok_load [OF assms] by (auto simp: map_filter_load f_def)
  obtain sc where sc: "each (set_sorted db) (sort_key fst ?un) ?l = Inr (?l\<lparr>ck_sortedCache := sc\<rparr>)"
      "\<forall>k. sorted_content content (?l\<lparr>ck_sortedCache := sc\<rparr>) k =
        (if k \<in> fst ` set (sort_key fst ?un) then Some (slice_bytes (f k)) else sorted_content content ?l k)"
    using each_set_sorted [of "sort_key fst ?un" f ?l] keys by blast
  let ?l' = "?l\<lparr>ck_sortedCache := sc\<rparr>"
  have old: "sorted_content content ?l k = sorted_content content l k" for k
    by (simp add: sorted_content_def deleteKeysFromUnsortedCache_def)
  have unsorted: "set (ck_unsortedCache ?l') = set (ck_unsortedCache l) - fst ` set ?un"
    by (simp add: deleteKeysFromUnsortedCache_def fold_removeAll)
  have content': "sorted_content content ?l' k =
      (if k \<in> fst ` set ?un then cached_bytes l k else sorted_content content l k)" for k
    using sc(2) un [of k] by (auto simp: f_def cached_bytes_def old)
  have fields: "ck_cache ?l' = ck_cache l" "ck_deleted ?l' = ck_deleted l" "ck_dirty ?l' = ck_dirty l"
    "ck_frozen ?l' = ck_frozen l" "ck_readParent ?l' = ck_readParent l"
    by (simp_all add: deleteKeysFromUnsortedCache_def)
  have cb: "cached_bytes ?l' = cached_bytes l" by (simp add: cached_bytes_def fun_eq_iff fields)
  have inv: "gm_load (ck_cache l) k \<noteq> None" if "k \<in> set (ck_deleted l) \<or> k \<in> set (ck_unsortedCache l)" for k
    using assms that unfolding layer_ok_def by blast
  have "layer_ok content ?l'"
    unfolding layer_ok_def fields unsorted content' cb
    using assms inv un unfolding layer_ok_def by (auto simp: cached_bytes_def simp del: not_None_eq)
  moreover have "sorted_content content ?l' k = cached_bytes l k" if "IsKeyInDomain k start end'" for k
    using assms inv [of k] un [of k] that unfolding content' layer_ok_def by auto
  moreover have "dirtyItems db start end' l = Inr ?l'"
    unfolding dirtyItems_def if_not_P [OF False] using sc(1) by (simp add: clearUnsortedCacheSubset_def)
  ultimately show ?thesis using fields by (intro exI [of _ ?l']) (simp add: same_layer_def)
qed

lemma newMemIterator_ok:
  assumes "start \<noteq> Some []" and "end' \<noteq> Some []"
  shows "\<exists>kvs. newMemIterator db start end' d ascending = Inr \<lparr>cm_iter = kvs, cm_lastKey = None\<rparr> \<and>
    in_order ascending kvs \<and> entries_of (content d) start end' kvs"
proof (cases ascending)
  case True
  with Iterator_ok [OF assms, of d] show ?thesis by (auto simp: newMemIterator_def entries_of_def)
next
  case False
  with ReverseIterator_ok [OF assms, of d] show ?thesis by (auto simp: newMemIterator_def entries_of_def)
qed

lemma getOrInitSortedCache_ok:
  assumes "layer_ok content l" and "getOrInitSortedCache db l = (d, l')"
  shows "content d = sorted_content content l" and "same_layer l l'" and "ck_readParent l' = ck_readParent l"
    and "layer_ok content l'"
proof -
  show "content d = sorted_content content l"
    using assms(2) by (auto simp: getOrInitSortedCache_def sorted_content_def content_New fun_eq_iff split: option.splits)
  have l': "l' = l \<or> (ck_sortedCache l = None \<and> l' = l\<lparr>ck_sortedCache := Some (db_New db)\<rparr>)"
    using assms(2) by (auto simp: getOrInitSortedCache_def split: option.splits)
  then show "same_layer l l'" "ck_readParent l' = ck_readParent l" by (auto simp: same_layer_def)
  have "sorted_content content l' = sorted_content content l"
    using l' by (auto simp: sorted_content_def content_New fun_eq_iff)
  then have "layer_ok content l' \<longleftrightarrow> layer_ok content l"
    using l' by (elim disjE) (simp_all add: layer_ok_def cached_bytes_def)
  with assms(1) show "layer_ok content l'" by simp
qed

text \<open>The merge of what the parent and the cache hold in the range.\<close>

lemma merged_view:
  assumes "layer_ok content l" and "in_order ascending ps" and "in_order ascending cs"
    and "entries_of (view p) start end' ps" and "entries_of (cached_bytes l) start end' cs"
  shows "entries_of (view (Cache l p)) start end' (merged (ck_deleted l) ascending ps cs)"
  unfolding entries_of_def
proof (intro allI)
  fix k v
  have no: "(\<forall>w. (k, w) \<notin> set cs) \<longleftrightarrow> \<not> IsKeyInDomain k start end' \<or> gm_load (ck_cache l) k = None"
    using assms(5) by (cases "gm_load (ck_cache l) k") (auto simp: entries_of_def cached_bytes_def)
  have "(k, v) \<in> set (merged (ck_deleted l) ascending ps cs) \<longleftrightarrow>
      (k, v) \<in> set cs \<and> k \<notin> set (ck_deleted l) \<or> (k, v) \<in> set ps \<and> (\<forall>w. (k, w) \<notin> set cs)"
    using merged_entries [OF assms(2,3)] .
  also have "\<dots> \<longleftrightarrow> IsKeyInDomain k start end' \<and> view (Cache l p) k = Some v"
    using assms(4,5) layer_ok_load [OF assms(1), of k]
    by (cases "gm_load (ck_cache l) k") (auto simp: no entries_of_def cached_bytes_def slice_bytes_def split: option.splits)
  finally show "(k, v) \<in> set (merged (ck_deleted l) ascending ps cs) \<longleftrightarrow>
      IsKeyInDomain k start end' \<and> view (Cache l p) k = Some v" .
qed

lemma ck_iterator_layer:
  assumes "chain_ok content (Cache l p)" and "start \<noteq> Some []" and "end' \<noteq> Some []"
    and "readThroughParent l p = (d, l1)"
    and "ck_iterator db start end' ascending d p = Inr (ps, p')"
    and "in_order ascending ps" "entries_of (view p) start end' ps" "same_chain p p'" "chain_ok content p'"
  shows "\<exists>kvs s'. ck_iterator db start end' ascending 0 (Cache l p) = Inr (kvs, s') \<and> in_order ascending kvs \<and>
    entries_of (view (Cache l p)) start end' kvs \<and> same_chain (Cache l p) s' \<and> chain_ok content s'"
proof -
  note r = readThroughParent_ok [OF assms(1,4)]
  then have l1: "layer_ok content l1" by simp
  then obtain l2 where l2: "dirtyItems db start end' l1 = Inr l2" "same_layer l1 l2" "ck_readParent l2 = ck_readParent l1"
      "layer_ok content l2" "\<And>k. IsKeyInDomain k start end' \<Longrightarrow> sorted_content content l2 k = cached_bytes l1 k"
    using dirtyItems_ok [of l1 start end'] by blast
  obtain items l3 where l3: "getOrInitSortedCache db l2 = (items, l3)" by force
  note i = getOrInitSortedCache_ok [OF l2(4) l3]
  obtain cs where cs: "newMemIterator db start end' items ascending = Inr \<lparr>cm_iter = cs, cm_lastKey = None\<rparr>"
      "in_order ascending cs" "entries_of (content items) start end' cs"
    using newMemIterator_ok [OF assms(2,3)] by blast
  have same: "same_layer l l3" using r(3) l2(2) i(2) by (blast intro: same_layer_trans)
  have cb: "entries_of (cached_bytes l) start end' cs"
    using cs(3) l2(5) r(3) unfolding entries_of_def i(1) same_layer_def cached_bytes_def by metis
  have ok: "chain_ok content (Cache l3 p')"
    using r(2) i(3,4) l2(3) assms(8,9) by (simp add: same_chain_hollow)
  let ?kvs = "merged (ck_deleted l) ascending ps cs"
  have v: "entries_of (view (Cache l p)) start end' ?kvs" "in_order ascending ?kvs"
    using merged_view [OF _ assms(6) cs(2) assms(7) cb] merged_in_order [OF assms(6) cs(2)] assms(1) by auto
  have "cmi_collect (length ps + length cs) (ck_deleted l3) ascending
      \<lparr>cmi_parent = ps, cmi_cache = \<lparr>cm_iter = cs, cm_lastKey = None\<rparr>\<rparr> = Inr ?kvs"
    using cmi_collect_rest [of "ck_deleted l3" "\<lparr>cmi_parent = ps, cmi_cache = \<lparr>cm_iter = cs, cm_lastKey = None\<rparr>\<rparr>" ascending]
      merged_length [of "ck_deleted l" ascending ps cs] same
    by (simp add: fresh_def rest_def same_layer_def)
  with assms(4,5) l2(1) l3 cs(1) have "ck_iterator db start end' ascending 0 (Cache l p) = Inr (?kvs, Cache l3 p')"
    by (cases cs) simp_all
  with v same ok assms(8) show ?thesis by auto
qed

lemma ck_iterator_ok:
  assumes "start \<noteq> Some []" and "end' \<noteq> Some []"
  shows "chain_ok content s \<Longrightarrow> hollow d s \<Longrightarrow>
    \<exists>kvs s'. ck_iterator db start end' ascending d s = Inr (kvs, s') \<and> in_order ascending kvs \<and>
      entries_of (view s) start end' kvs \<and> same_chain s s' \<and> chain_ok content s'"
proof (induction s arbitrary: d)
  case (Base b)
  then show ?case by (simp add: kv_Iterator_in_order entries_of_def kv_Iterator_entries)
next
  case (Cache l p)
  show ?case
  proof (cases d)
    case 0
    obtain e l1 where e: "readThroughParent l p = (e, l1)" by force
    note r = readThroughParent_ok [OF Cache.prems(1) e]
    obtain ps p' where "ck_iterator db start end' ascending e p = Inr (ps, p')" "in_order ascending ps"
        "entries_of (view p) start end' ps" "same_chain p p'" "chain_ok content p'"
      using Cache.IH [OF _ r(1)] Cache.prems(1) by auto
    then show ?thesis unfolding 0 by (rule ck_iterator_layer [OF Cache.prems(1) assms e])
  next
    case (Suc e)
    then obtain ps p' where "ck_iterator db start end' ascending e p = Inr (ps, p')" "in_order ascending ps"
        "entries_of (view p) start end' ps" "same_chain p p'" "chain_ok content p'"
      using Cache.IH [of e] Cache.prems by auto
    moreover have "view (Cache l p) = view p" using Suc Cache.prems(2) by (simp add: fun_eq_iff)
    ultimately show ?thesis using Suc Cache.prems(1) by (simp add: same_chain_hollow)
  qed
qed

text \<open>An empty, non-\<open>nil\<close> bound makes the iterator of every layer panic.\<close>

lemma ck_iterator_empty_bound:
  assumes "start = Some [] \<or> end' = Some []"
  shows "chain_ok content s \<Longrightarrow> hollow d s \<Longrightarrow>
    (\<exists>r. ck_iterator db start end' ascending d s = Inr r) \<or> ck_iterator db start end' ascending d s = Inl EmptyRangeBound"
    and "chain_ok content (Cache l p) \<Longrightarrow> ck_iterator db start end' ascending 0 (Cache l p) = Inl EmptyRangeBound"
proof -
  have step: "ck_iterator db start end' ascending 0 (Cache l p) = Inl EmptyRangeBound"
    if ok: "chain_ok content (Cache l p)" and r: "readThroughParent l p = (e, l1)"
      and parent: "(\<exists>r. ck_iterator db start end' ascending e p = Inr r) \<or>
        ck_iterator db start end' ascending e p = Inl EmptyRangeBound" for l p e l1
  proof -
    have "layer_ok content l1" using readThroughParent_ok [OF ok r] by simp
    then obtain l2 where "dirtyItems db start end' l1 = Inr l2" using dirtyItems_ok by blast
    moreover obtain items l3 where "getOrInitSortedCache db l2 = (items, l3)" by force
    ultimately show ?thesis
      using parent r Iterator_error [OF assms, of items] by (auto simp: newMemIterator_def)
  qed
  show all: "(\<exists>r. ck_iterator db start end' ascending d s = Inr r) \<or> ck_iterator db start end' ascending d s = Inl EmptyRangeBound"
    if "chain_ok content s" "hollow d s" for d s
    using that
  proof (induction s arbitrary: d)
    case (Cache l p)
    obtain e l1 where e: "readThroughParent l p = (e, l1)" by force
    show ?case
    proof (cases d)
      case 0
      with step [OF Cache.prems(1) e Cache.IH] readThroughParent_ok(1) [OF Cache.prems(1) e] Cache.prems(1)
      show ?thesis by simp
    next
      case (Suc e)
      with Cache.IH [of e] Cache.prems show ?thesis by auto
    qed
  qed simp
  show "ck_iterator db start end' ascending 0 (Cache l p) = Inl EmptyRangeBound" if "chain_ok content (Cache l p)"
  proof -
    obtain e l1 where e: "readThroughParent l p = (e, l1)" by force
    show ?thesis
      using step [OF that e all] readThroughParent_ok(1) [OF that e] that by simp
  qed
qed

end

end
