(* ===== verification/CacheMulti.thy ===== *)
theory CacheMulti
  imports CacheIter
begin

text \<open>
  The branched multi-store of \<open>src/sei-cosmos/store/cachemulti/store.go\<close> and the stack of such stores that
  the EVM state database keeps for its snapshots (\<open>src/x/evm/state\<close>): \<open>Snapshot\<close> branches and freezes,
  \<open>RevertToSnapshot\<close> returns to a branch and unfreezes it, \<open>flushCtxs\<close> writes the branches back.

  A branch holds a cache store for every store key, created on first use over the store of the branch
  below (\<open>cms_parents\<close>). Since a store carries its parents, the branches below are kept only by their
  frozen flags (\<open>sn_frozen\<close>) and are recovered by dropping layers.
\<close>

record 'd cms =
  cms_stores :: "(string, 'd kvs) gomap"
  cms_parents :: "(string, 'd kvs) gomap"
  cms_frozen :: bool

fun freeze_top :: "'d kvs \<Rightarrow> 'd kvs" where
  "freeze_top (Base b) = Base b"
| "freeze_top (Cache l p) = Cache (ck_Freeze l) p"

fun unfreeze_top :: "'d kvs \<Rightarrow> 'd kvs" where
  "unfreeze_top (Base b) = Base b"
| "unfreeze_top (Cache l p) = Cache (ck_Unfreeze l) p"

definition branch_store :: "bool \<Rightarrow> 'd kvs \<Rightarrow> 'd kvs" where
  "branch_store frozen parent = (if frozen then freeze_top (CacheWrap parent) else CacheWrap parent)"

definition getOrCreateStore :: "string \<Rightarrow> 'd cms \<Rightarrow> ('d kvs \<times> 'd cms) option" where
  "getOrCreateStore key cms =
     (case gm_load (cms_stores cms) key of
        Some s \<Rightarrow> Some (s, cms)
      | None \<Rightarrow>
          (case gm_load (cms_parents cms) key of
             None \<Rightarrow> None
           | Some parent \<Rightarrow>
               let s = branch_store (cms_frozen cms) parent
               in Some (s, cms\<lparr>cms_stores := gm_store key s (cms_stores cms),
                               cms_parents := gm_delete key (cms_parents cms)\<rparr>)))"

definition GetKVStore :: "string \<Rightarrow> 'd cms \<Rightarrow> panic + 'd kvs \<times> 'd cms" where
  "GetKVStore key cms = (case getOrCreateStore key cms of None \<Rightarrow> Inl UnknownStore | Some r \<Rightarrow> Inr r)"

text \<open>The stores of a branch are references: an operation on a store leaves its result in the branch.\<close>

definition put_store :: "string \<Rightarrow> 'd kvs \<Rightarrow> 'd cms \<Rightarrow> 'd cms" where
  "put_store key s cms = cms\<lparr>cms_stores := gm_store key s (cms_stores cms)\<rparr>"

definition materialize :: "'d cms \<Rightarrow> 'd cms" where
  "materialize cms =
     cms\<lparr>cms_stores := fold (\<lambda>(k, parent). gm_store k (branch_store (cms_frozen cms) parent)) (cms_parents cms) (cms_stores cms),
         cms_parents := []\<rparr>"

definition newCacheMultiStoreFromCMS :: "'d cms \<Rightarrow> 'd cms" where
  "newCacheMultiStoreFromCMS cms = \<lparr>cms_stores = [], cms_parents = cms_stores (materialize cms), cms_frozen = False\<rparr>"

definition cms_Freeze :: "'d cms \<Rightarrow> 'd cms" where
  "cms_Freeze cms = cms\<lparr>cms_frozen := True, cms_stores := map (\<lambda>(k, s). (k, freeze_top s)) (cms_stores cms)\<rparr>"

definition cms_Unfreeze :: "'d cms \<Rightarrow> 'd cms" where
  "cms_Unfreeze cms = cms\<lparr>cms_frozen := False, cms_stores := map (\<lambda>(k, s). (k, unfreeze_top s)) (cms_stores cms)\<rparr>"

definition cms_Write :: "'d cms \<Rightarrow> 'd cms" where
  "cms_Write cms = cms\<lparr>cms_stores := map (\<lambda>(k, s). (k, ck_Write s)) (cms_stores cms)\<rparr>"

subsection \<open>The stack of branches\<close>

record 'd branches =
  sn_top :: "'d cms"
  sn_frozen :: "bool list"

fun depth :: "'d kvs \<Rightarrow> nat" where
  "depth (Base b) = 0"
| "depth (Cache l p) = Suc (depth p)"

text \<open>The store of a branch further down, with \<open>m\<close> layers.\<close>

fun lower :: "nat \<Rightarrow> 'd kvs \<Rightarrow> 'd kvs" where
  "lower m (Base b) = Base b"
| "lower m (Cache l p) = (if depth p < m then Cache l p else lower m p)"

definition cms_chains :: "'d cms \<Rightarrow> (string, 'd kvs) gomap" where
  "cms_chains cms = cms_stores cms @ cms_parents cms"

text \<open>\<open>Snapshot\<close> branches first and freezes the old branch then; the new branch refers to the stores of
  the old one, which are therefore frozen here before they become the parents.\<close>

definition sn_Snapshot :: "'d branches \<Rightarrow> nat \<times> 'd branches" where
  "sn_Snapshot st =
     (let oldMS = materialize (sn_top st);
          old = (if sn_frozen st \<noteq> [] then cms_Freeze oldMS else oldMS)
      in (length (sn_frozen st),
          \<lparr>sn_top = newCacheMultiStoreFromCMS old, sn_frozen = cms_frozen old # sn_frozen st\<rparr>))"

definition sn_Revert :: "nat \<Rightarrow> 'd branches \<Rightarrow> panic + 'd branches" where
  "sn_Revert version st =
     (if version \<ge> length (sn_frozen st) then Inl IndexOutOfRange
      else
        let back = length (sn_frozen st) - version;
            ms = \<lparr>cms_stores = map (\<lambda>(k, s). (k, lower (Suc version) s)) (cms_chains (sn_top st)),
                  cms_parents = [], cms_frozen = sn_frozen st ! (back - 1)\<rparr>
        in Inr \<lparr>sn_top = cms_Unfreeze ms, sn_frozen = drop back (sn_frozen st)\<rparr>)"

text \<open>\<open>flushCtxs\<close> writes the top branch and then every branch below it but the first, which is written
  elsewhere; a store that the top branch has not created is first written one branch below.\<close>

fun below :: "('d kvs \<Rightarrow> 'd kvs) \<Rightarrow> 'd kvs \<Rightarrow> 'd kvs" where
  "below f (Base b) = Base b"
| "below f (Cache l p) = Cache l (f p)"

fun flush_layers :: "nat \<Rightarrow> 'd kvs \<Rightarrow> 'd kvs" where
  "flush_layers 0 s = s"
| "flush_layers (Suc n) s = below (flush_layers n) (ck_Write s)"

definition sn_flushCtxs :: "'d branches \<Rightarrow> 'd branches" where
  "sn_flushCtxs st =
     (case sn_frozen st of
        [] \<Rightarrow> st
      | _ # fs \<Rightarrow>
          let n = length fs; ms = cms_Write (sn_top st)
          in st\<lparr>sn_top := ms\<lparr>cms_stores := map (\<lambda>(k, s). (k, below (flush_layers n) s)) (cms_stores ms),
                            cms_parents := map (\<lambda>(k, s). (k, flush_layers n s)) (cms_parents ms)\<rparr>\<rparr>)"

subsection \<open>Operations on the top branch\<close>

datatype store_op =
    OpGet string bytes
  | OpHas string bytes
  | OpSet string bytes slice
  | OpDelete string bytes
  | OpDeleteAll string bytes bytes
  | OpIterator string slice slice bool
  | OpSnapshot
  | OpRevert nat
  | OpFlush

datatype store_res =
    ResSlice slice
  | ResBool bool
  | ResEntries "(bytes \<times> bytes) list"
  | ResVersion nat
  | ResUnit
  | ResPanic panic

definition on_store ::
  "string \<Rightarrow> ('d kvs \<Rightarrow> panic + store_res \<times> 'd kvs) \<Rightarrow> 'd branches \<Rightarrow> panic + store_res \<times> 'd branches" where
  "on_store key f st =
     sum_bind (GetKVStore key (sn_top st)) (\<lambda>(s, ms).
     sum_bind (f s) (\<lambda>(r, s'). Inr (r, st\<lparr>sn_top := put_store key s' ms\<rparr>)))"

fun branch_op :: "'d MemDB \<Rightarrow> store_op \<Rightarrow> 'd branches \<Rightarrow> panic + store_res \<times> 'd branches" where
  "branch_op db (OpGet sk key) st =
     on_store sk (\<lambda>s. sum_bind (ck_Get key s) (\<lambda>(v, s'). Inr (ResSlice v, s'))) st"
| "branch_op db (OpHas sk key) st =
     on_store sk (\<lambda>s. sum_bind (ck_Has key s) (\<lambda>(b, s'). Inr (ResBool b, s'))) st"
| "branch_op db (OpSet sk key value) st =
     on_store sk (\<lambda>s. sum_bind (ck_Set key value s) (\<lambda>s'. Inr (ResUnit, s'))) st"
| "branch_op db (OpDelete sk key) st =
     on_store sk (\<lambda>s. sum_bind (ck_Delete key s) (\<lambda>s'. Inr (ResUnit, s'))) st"
| "branch_op db (OpDeleteAll sk start end') st =
     on_store sk (\<lambda>s. Inr (ResUnit, DeleteAll (Some start) (Some end') s)) st"
| "branch_op db (OpIterator sk start end' ascending) st =
     on_store sk (\<lambda>s. sum_bind (if ascending then ck_Iterator db start end' s else ck_ReverseIterator db start end' s)
       (\<lambda>(kvs, s'). Inr (ResEntries kvs, s'))) st"
| "branch_op db OpSnapshot st = (case sn_Snapshot st of (v, st') \<Rightarrow> Inr (ResVersion v, st'))"
| "branch_op db (OpRevert v) st = sum_bind (sn_Revert v st) (\<lambda>st'. Inr (ResUnit, st'))"
| "branch_op db OpFlush st = Inr (ResUnit, sn_flushCtxs st)"

text \<open>A sequence of operations; a panic is recovered by the caller, and the state is the one before it.\<close>

fun branch_run :: "'d MemDB \<Rightarrow> store_op list \<Rightarrow> 'd branches \<Rightarrow> store_res list \<times> 'd branches" where
  "branch_run db [] st = ([], st)"
| "branch_run db (op # ops) st =
     (case branch_op db op st of
        Inl p \<Rightarrow> (case branch_run db ops st of (rs, st') \<Rightarrow> (ResPanic p # rs, st'))
      | Inr (r, st1) \<Rightarrow> (case branch_run db ops st1 of (rs, st') \<Rightarrow> (r # rs, st')))"

definition new_branches :: "(string, kvstore) gomap \<Rightarrow> 'd branches" where
  "new_branches stores =
     \<lparr>sn_top = \<lparr>cms_stores = [], cms_parents = map (\<lambda>(k, b). (k, Base b)) stores, cms_frozen = False\<rparr>, sn_frozen = []\<rparr>"

end
