(* ===== verification/CacheStack.thy ===== *)
theory CacheStack
  imports CacheMulti
begin

text \<open>
  The stack of branches implements snapshots: it behaves like a list of complete contents, one for every
  branch, where a snapshot copies the top, a revert drops contents and a flush makes all contents the
  one on top. The layers, their lazy creation, the frozen flags and the memos are not observable.
\<close>

subsection \<open>Writing a layer back\<close>

definition cached_value :: "'d Store \<Rightarrow> bytes \<Rightarrow> slice" where
  "cached_value l k = (case gm_load (ck_cache l) k of None \<Rightarrow> None | Some cv \<Rightarrow> cv_value cv)"

lemma write_key_one:
  assumes "layer_ok content l" and "gm_load (ck_cache l) k \<noteq> None"
  shows "write_key l k p = layered.write_one (k, cached_value l k) p"
  using assms layer_ok_load [OF assms(1), of k]
  by (auto simp: write_key_def layered.write_one_def cached_value_def split: option.splits)

lemma fold_write_key:
  assumes "layer_ok content l" and "\<And>k. k \<in> set ks \<Longrightarrow> gm_load (ck_cache l) k \<noteq> None"
  shows "fold (write_key l) ks p = fold layered.write_one (map (\<lambda>k. (k, cached_value l k)) ks) p"
  using assms(2) by (induction ks arbitrary: p) (simp_all add: write_key_one [OF assms(1)])

lemma write_key_ok:
  "layer_ok content l \<Longrightarrow> k \<noteq> [] \<Longrightarrow> chain_ok content p \<Longrightarrow> chain_ok content (write_key l k p)"
  by (auto simp: write_key_def chain_ok_Set chain_ok_Delete split: option.splits)

lemma depth_put [simp]: "depth (kvs_Set k v s) = depth s" "depth (kvs_Delete k s) = depth s"
  by (cases s; simp)+

lemma depth_write_key [simp]: "depth (write_key l k p) = depth p"
  by (simp add: write_key_def split: option.splits)

lemma fold_write_key_ok:
  "layer_ok content l \<Longrightarrow> [] \<notin> set ks \<Longrightarrow> chain_ok content p \<Longrightarrow>
     chain_ok content (fold (write_key l) ks p) \<and> depth (fold (write_key l) ks p) = depth p"
  by (induction ks arbitrary: p) (auto simp: write_key_ok)

lemma ck_Write_ok:
  assumes "chain_ok content (Cache l p)"
  obtains l' p' where "ck_Write (Cache l p) = Cache l' p'" "ck_cache l' = []" "ck_readParent l' = None"
    "layer_ok content l'" "view p' = view (Cache l p)" "chain_ok content p'" "depth p' = depth p"
proof -
  let ?ks = "sort (map fst (filter (\<lambda>(k, cv). cv_dirty cv) (ck_cache l)))"
  let ?p = "fold (write_key l) ?ks p"
  have l: "layer_ok content l" using assms by simp
  have dist: "distinct (gm_keys (ck_cache l))" using l by (simp add: layer_ok_def)
  have ks: "k \<in> set ?ks \<longleftrightarrow> gm_load (ck_cache l) k \<noteq> None" for k
    using layer_ok_load [OF l, of k] dist by (auto simp: image_iff)
  let ?ws = "map (\<lambda>k. (k, cached_value l k)) ?ks"
  have "distinct (map fst ?ws)"
    using dist by (simp add: distinct_map_filter o_def)
  moreover have m: "map_of ?ws k = (if gm_load (ck_cache l) k = None then None else Some (cached_value l k))" for k
    using ks [of k] by (simp add: map_of_map_restrict restrict_map_def)
  moreover have "?p = fold layered.write_one ?ws p"
    using ks by (intro fold_write_key [OF l]) blast
  ultimately have w: "view ?p k = (case map_of ?ws k of None \<Rightarrow> view p k | Some v \<Rightarrow> v)" for k
    by (simp only: layered.get_fold_write)
  have "view ?p k = view (Cache l p) k" for k
    unfolding w m by (cases "gm_load (ck_cache l) k") (simp_all add: cached_value_def)
  moreover have "[] \<notin> set ?ks" using ks [of "[]"] layer_ok_load [OF l, of "[]"] by auto
  then have "chain_ok content ?p" "depth ?p = depth p"
    using fold_write_key_ok [OF l] assms by simp_all
  ultimately show thesis
    by (intro that [OF ck_Write.simps(2) [unfolded Let_def]])
      (simp_all add: fun_eq_iff layer_ok_def sorted_content_def cached_bytes_def)
qed

subsection \<open>Keys in a range\<close>

lemma key_in_range_iff: "key_in_range (Some a) (Some b) k \<longleftrightarrow> a \<le> k \<and> k < b"
  by (auto simp: key_in_range_def bytes_Compare_def)

lemma range_fold:
  "distinct (gm_keys m) \<Longrightarrow>
     k \<in> set (fold (\<lambda>(key, cv) ks.
             if \<not> P key then ks else if cv_value cv = None then removeAll key ks else List.insert key ks) m ks) \<longleftrightarrow>
     (case gm_load m k of None \<Rightarrow> k \<in> set ks | Some cv \<Rightarrow> if P k then cv_value cv \<noteq> None else k \<in> set ks)"
proof (induction m arbitrary: ks)
  case (Cons x m)
  have "gm_load m (fst x) = None" using Cons.prems by (simp add: gm_load_None_key)
  with Cons show ?case by (cases x; cases "k = fst x"; cases "gm_load m k") simp_all
qed simp

lemma GetAllKeyStrsInRange_set:
  "chain_ok content s \<Longrightarrow> set (GetAllKeyStrsInRange (Some a) (Some b) s) = {k. a \<le> k \<and> k < b \<and> view s k \<noteq> None}"
proof (induction s)
  case (Base st)
  have "k \<in> set (map fst (kv_Iterator st (Some a) (Some b) True)) \<longleftrightarrow> (\<exists>v. (k, v) \<in> set (kv_Iterator st (Some a) (Some b) True))" for k
    by force
  then show ?case by (auto simp: kv_Iterator_entries IsKeyInDomain_def not_less not_le)
next
  case (Cache l p)
  have "distinct (gm_keys (ck_cache l))" using Cache.prems by (simp add: layer_ok_def)
  from range_fold [OF this, where P = "key_in_range (Some a) (Some b)"]
  have "k \<in> set (GetAllKeyStrsInRange (Some a) (Some b) (Cache l p)) \<longleftrightarrow> a \<le> k \<and> k < b \<and> view (Cache l p) k \<noteq> None" for k
    unfolding GetAllKeyStrsInRange.simps using Cache by (cases "gm_load (ck_cache l) k") (auto simp add: key_in_range_iff)
  then show ?case by blast
qed

lemma fold_Delete:
  "[] \<notin> set ks \<Longrightarrow> chain_ok content s \<Longrightarrow>
     chain_ok content (fold kvs_Delete ks s) \<and> depth (fold kvs_Delete ks s) = depth s \<and>
     view (fold kvs_Delete ks s) = (\<lambda>k. if k \<in> set ks then None else view s k)"
  by (induction ks arbitrary: s) (auto simp: chain_ok_Delete view_Delete fun_eq_iff)

lemma view_nil_key: "chain_ok content s \<Longrightarrow> view s [] = None"
proof (induction s)
  case (Cache l p)
  then show ?case using layer_ok_load [of content l "[]"] by (auto split: option.splits)
qed simp

lemma DeleteAll_ok:
  assumes "chain_ok content s"
  shows "chain_ok content (DeleteAll (Some a) (Some b) s)" and "depth (DeleteAll (Some a) (Some b) s) = depth s"
    and "view (DeleteAll (Some a) (Some b) s) = (\<lambda>k. if a \<le> k \<and> k < b then None else view s k)"
proof -
  let ?ks = "GetAllKeyStrsInRange (Some a) (Some b) s"
  have ks: "set ?ks = {k. a \<le> k \<and> k < b \<and> view s k \<noteq> None}" using assms by (rule GetAllKeyStrsInRange_set)
  then have "[] \<notin> set ?ks" using view_nil_key [OF assms] by simp
  from fold_Delete [OF this assms] ks
  show "chain_ok content (DeleteAll (Some a) (Some b) s)" and "depth (DeleteAll (Some a) (Some b) s) = depth s"
    and "view (DeleteAll (Some a) (Some b) s) = (\<lambda>k. if a \<le> k \<and> k < b then None else view s k)"
    by (auto simp: DeleteAll_def fun_eq_iff)
qed

subsection \<open>Lower branches\<close>

lemma lower_id [simp]: "depth s \<le> m \<Longrightarrow> lower m s = s"
  by (cases s) simp_all

lemma depth_lower: "depth (lower m s) = min m (depth s)"
  by (induction s) auto

lemma lower_lower: "m \<le> n \<Longrightarrow> lower m (lower n s) = lower m s"
  by (induction s) auto

lemma chain_ok_lower: "chain_ok content s \<Longrightarrow> chain_ok content (lower m s)"
  by (induction s) auto

lemma depth_same: "same_chain s s' \<Longrightarrow> depth s' = depth s"
  by (induction s s' rule: same_chain.induct) auto

lemma same_chain_lower: "same_chain s s' \<Longrightarrow> same_chain (lower m s) (lower m s')"
  by (induction s s' rule: same_chain.induct) (auto dest: depth_same)

text \<open>An operation on the top layer leaves the lower branches alone.\<close>

lemma lower_top: "m \<le> depth p \<Longrightarrow> lower m (Cache l p) = lower m p"
  by simp

lemma lower_put:
  "m < depth s \<Longrightarrow> lower m (kvs_Set k v s) = lower m s"
  "m < depth s \<Longrightarrow> lower m (kvs_Delete k s) = lower m s"
  by (cases s; simp)+

lemma lower_DeleteAll: "m < depth s \<Longrightarrow> lower m (DeleteAll a b s) = lower m s"
proof -
  have "m < depth s \<Longrightarrow> lower m (fold kvs_Delete ks s) = lower m s" for ks
    by (induction ks arbitrary: s) (simp_all add: lower_put)
  then show "m < depth s \<Longrightarrow> lower m (DeleteAll a b s) = lower m s" by (simp add: DeleteAll_def)
qed

lemma freeze_ok [simp]:
  "chain_ok content (freeze_top s) \<longleftrightarrow> chain_ok content s" "depth (freeze_top s) = depth s" "view (freeze_top s) = view s"
  "chain_ok content (unfreeze_top s) \<longleftrightarrow> chain_ok content s" "depth (unfreeze_top s) = depth s" "view (unfreeze_top s) = view s"
  by (cases s; simp add: ck_Freeze_def ck_Unfreeze_def fun_eq_iff)+

lemma view_lower_freeze [simp]:
  "view (lower m (freeze_top s)) = view (lower m s)" "view (lower m (unfreeze_top s)) = view (lower m s)"
  by (cases s; simp add: ck_Freeze_def ck_Unfreeze_def fun_eq_iff)+

lemma branch_store_ok:
  assumes "chain_ok content s"
  shows "chain_ok content (branch_store f s)" and "depth (branch_store f s) = Suc (depth s)"
    and "view (lower m (branch_store f s)) = view (lower m s)"
  using chain_ok_CacheWrap [OF assms]
  by (simp_all add: branch_store_def) (simp_all add: CacheWrap_def fun_eq_iff NewStore_def)

lemma flush_layers_ok:
  "chain_ok content s \<Longrightarrow> depth s = Suc n \<Longrightarrow>
     chain_ok content (flush_layers n s) \<and> depth (flush_layers n s) = depth s \<and>
     (\<forall>m > 0. view (lower m (flush_layers n s)) = view s)"
proof (induction n arbitrary: s)
  case (Suc n)
  then obtain l p where s: "s = Cache l p" "depth p = Suc n" by (cases s) auto
  obtain l' p' where w: "ck_Write s = Cache l' p'" "ck_cache l' = []" "ck_readParent l' = None"
      "layer_ok content l'" "view p' = view s" "chain_ok content p'" "depth p' = depth p"
    using ck_Write_ok Suc.prems(1) s(1) by metis
  let ?q = "flush_layers n p'"
  have q: "chain_ok content ?q" "depth ?q = Suc n" "\<And>m. m > 0 \<Longrightarrow> view (lower m ?q) = view s"
    using Suc.IH [OF w(6)] w(5,7) s(2) by auto
  from q(3) [of "Suc n"] q(2) have "view ?q = view s" by simp
  with q w s show ?case by (auto simp: fun_eq_iff)
qed auto

end
