(* ===== verification/CacheProps.thy ===== *)
theory CacheProps
  imports CacheStack
begin

text \<open>
  The refinement of snapshots by branches: an abstract stack of contents, the relation of branches to it, and
  the properties of the cache stores.
\<close>

subsection \<open>The abstract stack\<close>

text \<open>The content of all stores, and a stack of such contents, the newest first.\<close>

type_synonym world = "string \<Rightarrow> (bytes \<Rightarrow> slice) option"

definition put_world :: "string \<Rightarrow> (bytes \<Rightarrow> slice) \<Rightarrow> world list \<Rightarrow> world list" where
  "put_world sk f ws = (hd ws)(sk \<mapsto> f) # tl ws"

fun snapshot_op :: "store_op \<Rightarrow> world list \<Rightarrow> store_res \<Rightarrow> world list \<Rightarrow> bool" where
  "snapshot_op (OpGet sk key) ws r ws' \<longleftrightarrow> ws' = ws \<and>
     r = (case hd ws sk of None \<Rightarrow> ResPanic UnknownStore | Some f \<Rightarrow>
            if key = [] then ResPanic KeyIsNil else ResSlice (f key))"
| "snapshot_op (OpHas sk key) ws r ws' \<longleftrightarrow> ws' = ws \<and>
     r = (case hd ws sk of None \<Rightarrow> ResPanic UnknownStore | Some f \<Rightarrow>
            if key = [] then ResPanic KeyIsNil else ResBool (f key \<noteq> None))"
| "snapshot_op (OpSet sk key value) ws r ws' \<longleftrightarrow>
     (r, ws') = (case hd ws sk of None \<Rightarrow> (ResPanic UnknownStore, ws) | Some f \<Rightarrow>
            if key = [] then (ResPanic KeyIsNil, ws)
            else if value = None then (ResPanic ValueIsNil, ws)
            else (ResUnit, put_world sk (f(key := value)) ws))"
| "snapshot_op (OpDelete sk key) ws r ws' \<longleftrightarrow>
     (r, ws') = (case hd ws sk of None \<Rightarrow> (ResPanic UnknownStore, ws) | Some f \<Rightarrow>
            if key = [] then (ResPanic KeyIsNil, ws) else (ResUnit, put_world sk (f(key := None)) ws))"
| "snapshot_op (OpDeleteAll sk start end') ws r ws' \<longleftrightarrow>
     (r, ws') = (case hd ws sk of None \<Rightarrow> (ResPanic UnknownStore, ws) | Some f \<Rightarrow>
            (ResUnit, put_world sk (\<lambda>k. if start \<le> k \<and> k < end' then None else f k) ws))"
| "snapshot_op (OpIterator sk start end' ascending) ws r ws' \<longleftrightarrow> ws' = ws \<and>
     (case hd ws sk of None \<Rightarrow> r = ResPanic UnknownStore | Some f \<Rightarrow>
        if start = Some [] \<or> end' = Some [] then r = ResPanic EmptyRangeBound
        else \<exists>kvs. r = ResEntries kvs \<and> in_order ascending kvs \<and> entries_of f start end' kvs)"
| "snapshot_op OpSnapshot ws r ws' \<longleftrightarrow> r = ResVersion (length ws - 1) \<and> ws' = hd ws # ws"
| "snapshot_op (OpRevert v) ws r ws' \<longleftrightarrow>
     (r, ws') = (if v \<ge> length ws - 1 then (ResPanic IndexOutOfRange, ws) else (ResUnit, drop (length ws - 1 - v) ws))"
| "snapshot_op OpFlush ws r ws' \<longleftrightarrow> r = ResUnit \<and> ws' = replicate (length ws) (hd ws)"

fun snapshot_run :: "store_op list \<Rightarrow> world list \<Rightarrow> store_res list \<Rightarrow> world list \<Rightarrow> bool" where
  "snapshot_run [] ws rs ws' \<longleftrightarrow> rs = [] \<and> ws' = ws"
| "snapshot_run (op # ops) ws rs ws' \<longleftrightarrow>
     (\<exists>r rs' ws1. rs = r # rs' \<and> snapshot_op op ws r ws1 \<and> snapshot_run ops ws1 rs' ws')"

subsection \<open>The contents of branches\<close>

definition chain_at :: "'d branches \<Rightarrow> string \<Rightarrow> 'd kvs option" where
  "chain_at st = gm_load (cms_chains (sn_top st))"

definition world_at :: "'d branches \<Rightarrow> nat \<Rightarrow> world" where
  "world_at st m = (\<lambda>sk. map_option (\<lambda>c. view (lower m c)) (chain_at st sk))"

definition worlds :: "'d branches \<Rightarrow> world list" where
  "worlds st = map (world_at st) (rev [1..<length (sn_frozen st) + 2])"

definition branches_ok :: "('d \<Rightarrow> bytes \<Rightarrow> slice) \<Rightarrow> 'd branches \<Rightarrow> bool" where
  "branches_ok content st \<longleftrightarrow>
     distinct (gm_keys (cms_chains (sn_top st))) \<and>
     (\<forall>(sk, s) \<in> set (cms_stores (sn_top st)). chain_ok content s \<and> depth s = Suc (length (sn_frozen st))) \<and>
     (\<forall>(sk, s) \<in> set (cms_parents (sn_top st)). chain_ok content s \<and> depth s = length (sn_frozen st))"

lemma worlds_Cons:
  "worlds st = world_at st (Suc (length (sn_frozen st))) # map (world_at st) (rev [1..<Suc (length (sn_frozen st))])"
  by (simp add: worlds_def)

lemma gm_store_subset: "set (gm_store k v m) \<subseteq> insert (k, v) (set m)"
  by (induction m) auto

lemma length_worlds [simp]: "length (worlds st) = Suc (length (sn_frozen st))"
  by (simp add: worlds_def del: upt_Suc)

lemma chain_at_split:
  "chain_at st sk = (case gm_load (cms_stores (sn_top st)) sk of
     Some s \<Rightarrow> Some s | None \<Rightarrow> gm_load (cms_parents (sn_top st)) sk)"
  by (simp add: chain_at_def cms_chains_def map_add_def)

lemma chain_at_ok:
  assumes "branches_ok content st" and "chain_at st sk = Some c"
  shows "chain_ok content c" and "depth c \<le> Suc (length (sn_frozen st))"
  using assms by (auto simp: branches_ok_def chain_at_split dest!: map_of_SomeD split: option.splits)

lemma hd_worlds:
  assumes "branches_ok content st"
  shows "hd (worlds st) sk = map_option view (chain_at st sk)"
  using chain_at_ok(2) [OF assms] by (cases "chain_at st sk") (auto simp: worlds_Cons world_at_def)

text \<open>An operation finds the store of the top branch and puts its result there.\<close>

lemma put_store_ok:
  assumes "branches_ok content (st\<lparr>sn_top := ms\<rparr>)" and "sk \<notin> set (gm_keys (cms_parents ms))"
  shows "chain_ok content s \<Longrightarrow> depth s = Suc (length (sn_frozen st)) \<Longrightarrow>
      branches_ok content (st\<lparr>sn_top := put_store sk s ms\<rparr>)"
    and "chain_at (st\<lparr>sn_top := put_store sk s ms\<rparr>) = (chain_at (st\<lparr>sn_top := ms\<rparr>))(sk \<mapsto> s)"
proof -
  show "chain_at (st\<lparr>sn_top := put_store sk s ms\<rparr>) = (chain_at (st\<lparr>sn_top := ms\<rparr>))(sk \<mapsto> s)"
    by (auto simp: chain_at_split put_store_def gomap_simps fun_eq_iff split: option.splits)
  assume "chain_ok content s" "depth s = Suc (length (sn_frozen st))"
  with assms show "branches_ok content (st\<lparr>sn_top := put_store sk s ms\<rparr>)"
    using gm_store_subset [of sk s "cms_stores ms"] gm_keys_store [of sk s "cms_stores ms"]
    by (auto simp: branches_ok_def cms_chains_def put_store_def distinct_update)
qed

lemma create_store_ok:
  assumes "branches_ok content st" and "gm_load (cms_stores (sn_top st)) sk = None"
    and "gm_load (cms_parents (sn_top st)) sk = Some c"
  shows "branches_ok content (st\<lparr>sn_top := (sn_top st)\<lparr>cms_stores := gm_store sk (branch_store f c) (cms_stores (sn_top st)),
      cms_parents := gm_delete sk (cms_parents (sn_top st))\<rparr>\<rparr>)"
proof -
  have c: "chain_ok content c" "depth c = length (sn_frozen st)"
    using assms(1,3) by (auto simp: branches_ok_def dest!: map_of_SomeD)
  show ?thesis
    using assms gm_store_subset [of sk "branch_store f c" "cms_stores (sn_top st)"]
      gm_keys_store [of sk "branch_store f c" "cms_stores (sn_top st)"] branch_store_ok(1,2) [OF c(1), of f] c
    by (auto simp: branches_ok_def cms_chains_def distinct_update AList.delete_eq distinct_map_filter)
qed

lemma getOrCreateStore_ok:
  assumes "branches_ok content st" and "chain_at st sk = Some c"
  obtains s ms where "GetKVStore sk (sn_top st) = Inr (s, ms)" "chain_ok content s"
    "depth s = Suc (length (sn_frozen st))" "\<forall>m. view (lower m s) = view (lower m c)"
    "\<forall>s'. chain_ok content s' \<and> depth s' = depth s \<longrightarrow> branches_ok content (st\<lparr>sn_top := put_store sk s' ms\<rparr>)"
    "\<forall>s'. chain_at (st\<lparr>sn_top := put_store sk s' ms\<rparr>) = (chain_at st)(sk \<mapsto> s')"
proof (cases "gm_load (cms_stores (sn_top st)) sk")
  case (Some s)
  with assms(2) have c: "c = s" by (simp add: chain_at_split)
  have s: "chain_ok content s" "depth s = Suc (length (sn_frozen st))"
    using assms(1) Some by (auto simp: branches_ok_def dest!: map_of_SomeD)
  have "sk \<notin> set (gm_keys (cms_parents (sn_top st)))"
    using assms(1) gm_load_Some_key [OF Some] unfolding branches_ok_def cms_chains_def by auto
  from put_store_ok [OF _ this, of content st] assms(1) Some s c show ?thesis
    by (intro that [of s "sn_top st"]) (simp_all add: GetKVStore_def getOrCreateStore_def)
next
  case None
  with assms(2) have p: "gm_load (cms_parents (sn_top st)) sk = Some c" by (simp add: chain_at_split)
  then have c: "chain_ok content c" "depth c = length (sn_frozen st)"
    using assms(1) by (auto simp: branches_ok_def dest!: map_of_SomeD)
  let ?s = "branch_store (cms_frozen (sn_top st)) c"
  let ?ms = "(sn_top st)\<lparr>cms_stores := gm_store sk ?s (cms_stores (sn_top st)),
    cms_parents := gm_delete sk (cms_parents (sn_top st))\<rparr>"
  have new: "sk \<notin> set (gm_keys (cms_parents ?ms))" by (auto simp: AList.delete_eq)
  have at: "(chain_at (st\<lparr>sn_top := ?ms\<rparr>))(sk \<mapsto> s') = (chain_at st)(sk \<mapsto> s')" for s'
    by (auto simp: chain_at_split fun_eq_iff gomap_simps split: option.splits)
  note put = put_store_ok [OF create_store_ok [OF assms(1) None p] new]
  show ?thesis
    using None p branch_store_ok [OF c(1)] c(2) put at
    by (intro that [of ?s ?ms]) (simp_all add: GetKVStore_def getOrCreateStore_def Let_def)
qed

lemma worlds_put:
  assumes "branches_ok content st" and "chain_at st sk = Some c"
    and "\<And>m. m \<le> length (sn_frozen st) \<Longrightarrow> view (lower m s) = view (lower m c)"
    and "chain_at st' = (chain_at st)(sk \<mapsto> s)" and "sn_frozen st' = sn_frozen st" and "depth s = Suc (length (sn_frozen st))"
  shows "worlds st' = put_world sk (view s) (worlds st)"
proof -
  have "world_at st' m = world_at st m" if "m \<le> length (sn_frozen st)" for m
    using assms(2-4) that by (auto simp: world_at_def fun_eq_iff)
  moreover have "world_at st' (Suc (length (sn_frozen st))) = (world_at st (Suc (length (sn_frozen st))))(sk \<mapsto> view s)"
    using assms(4,6) by (auto simp: world_at_def fun_eq_iff)
  ultimately show ?thesis by (auto simp: worlds_Cons assms(5) put_world_def simp del: upt_Suc)
qed

lemma put_world_same: "hd (worlds st) sk = Some f \<Longrightarrow> put_world sk f (worlds st) = worlds st"
  by (simp add: put_world_def worlds_Cons fun_upd_idem)

subsection \<open>Snapshots, reverts and flushes\<close>

lemma gm_load_fold_store:
  "distinct (gm_keys ps) \<Longrightarrow>
     gm_load (fold (\<lambda>(k, p). gm_store k (g p)) ps m) sk =
     (case gm_load ps sk of None \<Rightarrow> gm_load m sk | Some p \<Rightarrow> Some (g p))"
proof (induction ps arbitrary: m)
  case (Cons x ps)
  have "gm_load ps (fst x) = None" using Cons.prems by (simp add: gm_load_None_key)
  with Cons show ?case by (cases x; cases "sk = fst x") (simp_all add: gomap_simps split: option.splits)
qed simp

lemma fold_store_set: "set (fold (\<lambda>(k, p). gm_store k (g p)) ps m) \<subseteq> set m \<union> {(k, g p) | k p. (k, p) \<in> set ps}"
proof (induction ps arbitrary: m)
  case (Cons x ps)
  then show ?case using gm_store_subset [of "fst x" "g (snd x)" m] by (cases x) fastforce
qed simp

lemma distinct_fold_store: "distinct (gm_keys m) \<Longrightarrow> distinct (gm_keys (fold (\<lambda>(k, p). gm_store k (g p)) ps m))"
  by (induction ps arbitrary: m) (auto simp: distinct_update)

text \<open>Creating the remaining stores of the top branch leaves the contents as they are.\<close>

lemma materialize_ok:
  assumes "branches_ok content st"
  shows "distinct (gm_keys (cms_stores (materialize (sn_top st))))"
    and "\<forall>(sk, s) \<in> set (cms_stores (materialize (sn_top st))). chain_ok content s \<and> depth s = Suc (length (sn_frozen st))"
    and "map_option (\<lambda>s. view (lower m s)) (gm_load (cms_stores (materialize (sn_top st))) sk) = world_at st m sk"
proof -
  let ?ms = "sn_top st"
  let ?g = "branch_store (cms_frozen ?ms)"
  have stores: "cms_stores (materialize ?ms) = fold (\<lambda>(k, p). gm_store k (?g p)) (cms_parents ?ms) (cms_stores ?ms)"
    by (simp add: materialize_def)
  have dist: "distinct (gm_keys (cms_stores ?ms))" "distinct (gm_keys (cms_parents ?ms))"
    using assms by (simp_all add: branches_ok_def cms_chains_def)
  then show "distinct (gm_keys (cms_stores (materialize ?ms)))" by (simp add: stores distinct_fold_store)
  have p: "chain_ok content s \<and> depth s = length (sn_frozen st)" if "(k, s) \<in> set (cms_parents ?ms)" for k s
    using assms that by (auto simp: branches_ok_def)
  have q: "chain_ok content s \<and> depth s = Suc (length (sn_frozen st))" if "(k, s) \<in> set (cms_stores ?ms)" for k s
    using assms that by (auto simp: branches_ok_def)
  show "\<forall>(sk, s) \<in> set (cms_stores (materialize ?ms)). chain_ok content s \<and> depth s = Suc (length (sn_frozen st))"
  proof (intro ballI, clarify)
    fix k s
    assume "(k, s) \<in> set (cms_stores (materialize ?ms))"
    then consider "(k, s) \<in> set (cms_stores ?ms)" | c where "s = ?g c" "(k, c) \<in> set (cms_parents ?ms)"
      using fold_store_set [of ?g "cms_parents ?ms" "cms_stores ?ms"] unfolding stores by auto
    then show "chain_ok content s \<and> depth s = Suc (length (sn_frozen st))"
    proof cases
      case 2
      with p [OF 2(2)] branch_store_ok(1,2) [of content c "cms_frozen ?ms"] show ?thesis by simp
    qed (rule q)
  qed
  have "gm_load (cms_stores ?ms) sk = None" if "gm_load (cms_parents ?ms) sk = Some c" for c
    using assms gm_load_Some_key [OF that] unfolding branches_ok_def cms_chains_def gm_load_None_key by auto
  moreover have "view (lower m (?g c)) = view (lower m c)" if "gm_load (cms_parents ?ms) sk = Some c" for c
    using p [OF map_of_SomeD [OF that]] branch_store_ok(3) by blast
  ultimately show "map_option (\<lambda>s. view (lower m s)) (gm_load (cms_stores (materialize ?ms)) sk) = world_at st m sk"
    unfolding stores gm_load_fold_store [OF dist(2)]
    by (cases "gm_load (cms_parents ?ms) sk"; cases "gm_load (cms_stores ?ms) sk") (simp_all add: world_at_def chain_at_split)
qed

lemma gm_load_map_snd: "gm_load (map (\<lambda>(k, s). (k, f s)) m) k = map_option f (gm_load m k)"
  by (induction m) auto

lemma sn_Snapshot_ok:
  assumes "branches_ok content st" and "sn_Snapshot st = (v, st')"
  shows "branches_ok content st'" and "v = length (worlds st) - 1" and "worlds st' = hd (worlds st) # worlds st"
proof -
  let ?n = "length (sn_frozen st)" and ?m = "materialize (sn_top st)"
  define f :: "'a kvs \<Rightarrow> 'a kvs" where "f = (if sn_frozen st \<noteq> [] then freeze_top else (\<lambda>s. s))"
  have f: "cms_parents (sn_top st') = map (\<lambda>(k, s). (k, f s)) (cms_stores ?m)"
    using assms(2) by (auto simp: f_def sn_Snapshot_def newCacheMultiStoreFromCMS_def materialize_def cms_Freeze_def)
  have st': "cms_stores (sn_top st') = []" "length (sn_frozen st') = Suc ?n" and "v = length (worlds st) - 1"
    using assms(2) by (auto simp: sn_Snapshot_def Let_def newCacheMultiStoreFromCMS_def)
  then show "v = length (worlds st) - 1" by simp
  note m = materialize_ok [OF assms(1)]
  have fs: "chain_ok content (f s) \<longleftrightarrow> chain_ok content s" "depth (f s) = depth s" "view (lower m (f s)) = view (lower m s)" for m s
    by (auto simp: f_def)
  show "branches_ok content st'"
    using m(1,2) st' fs by (auto simp: branches_ok_def cms_chains_def f o_def split_beta)
  have w: "world_at st' m sk = world_at st m sk" for m sk
    using st' m(3) [of m sk] by (cases "gm_load (cms_stores ?m) sk")
      (auto simp: world_at_def [of st'] chain_at_split f gm_load_map_snd fs)
  have "world_at st (Suc (Suc ?n)) = world_at st (Suc ?n)"
    using chain_at_ok(2) [OF assms(1)] by (fastforce simp: world_at_def fun_eq_iff intro: map_option_cong)
  moreover have "world_at st' = world_at st" by (intro ext) (rule w)
  ultimately show "worlds st' = hd (worlds st) # worlds st"
    using st' by (simp add: worlds_def)
qed

lemma sn_Revert_ok:
  assumes "branches_ok content st" and "v < length (sn_frozen st)"
  shows "\<exists>st'. sn_Revert v st = Inr st' \<and> branches_ok content st' \<and>
    worlds st' = drop (length (worlds st) - 1 - v) (worlds st)"
proof -
  let ?n = "length (sn_frozen st)" and ?f = "\<lambda>s. unfreeze_top (lower (Suc v) s)"
  obtain st' where st': "sn_Revert v st = Inr st'" "length (sn_frozen st') = v" "cms_parents (sn_top st') = []"
      "cms_stores (sn_top st') = map (\<lambda>(k, s). (k, ?f s)) (cms_chains (sn_top st))"
    using assms(2) by (auto simp: sn_Revert_def Let_def cms_Unfreeze_def split_beta o_def)
  have c: "chain_ok content s \<and> ?n \<le> depth s" if "(k, s) \<in> set (cms_chains (sn_top st))" for k s
    using assms(1) that by (auto simp: branches_ok_def cms_chains_def)
  have "branches_ok content st'"
    using assms c st' by (fastforce simp: branches_ok_def cms_chains_def [of "sn_top st'"] o_def split_beta
        depth_lower chain_ok_lower)
  moreover have "world_at st' m = world_at st m" if "m \<le> Suc v" for m
    using that by (simp add: world_at_def fun_eq_iff chain_at_split [of st'] st' gm_load_map_snd
        chain_at_def [of st] option.map_comp o_def lower_lower option.case_eq_if)
  then have "worlds st' = drop (?n - v) (worlds st)"
    using assms(2) by (auto simp: worlds_def st'(2) drop_map drop_rev take_upt simp del: upt_Suc)
  ultimately show ?thesis using st'(1) by simp
qed

lemma sn_flushCtxs_stores:
  assumes "sn_frozen st = f # fs"
  shows "cms_stores (sn_top (sn_flushCtxs st)) = map (\<lambda>(k, s). (k, flush_layers (Suc (length fs)) s)) (cms_stores (sn_top st))"
    and "cms_parents (sn_top (sn_flushCtxs st)) = map (\<lambda>(k, s). (k, flush_layers (length fs) s)) (cms_parents (sn_top st))"
    and "sn_frozen (sn_flushCtxs st) = sn_frozen st"
  using assms by (simp_all add: sn_flushCtxs_def Let_def cms_Write_def split_beta o_def)

lemma sn_flushCtxs_ok:
  assumes "branches_ok content st"
  shows "branches_ok content (sn_flushCtxs st) \<and>
    worlds (sn_flushCtxs st) = replicate (length (worlds st)) (hd (worlds st))"
proof (cases "sn_frozen st")
  case Nil
  then have "sn_flushCtxs st = st" by (simp add: sn_flushCtxs_def)
  moreover from Nil have "worlds st = [hd (worlds st)]" by (simp add: worlds_def)
  ultimately show ?thesis using assms Nil by simp
next
  case (Cons f fs)
  note fl = sn_flushCtxs_stores [OF Cons]
  have s: "chain_ok content (flush_layers (Suc (length fs)) s) \<and> depth (flush_layers (Suc (length fs)) s) = depth s \<and>
      (\<forall>m > 0. view (lower m (flush_layers (Suc (length fs)) s)) = view s) \<and> depth s = Suc (length (sn_frozen st))"
    if "(k, s) \<in> set (cms_stores (sn_top st))" for k s
    using assms that flush_layers_ok [of content s "Suc (length fs)"] Cons by (auto simp: branches_ok_def simp del: flush_layers.simps)
  have p: "chain_ok content (flush_layers (length fs) s) \<and> depth (flush_layers (length fs) s) = depth s \<and>
      (\<forall>m > 0. view (lower m (flush_layers (length fs) s)) = view s) \<and> depth s = length (sn_frozen st)"
    if "(k, s) \<in> set (cms_parents (sn_top st))" for k s
    using assms that flush_layers_ok [of content s "length fs"] Cons by (auto simp: branches_ok_def)
  have "branches_ok content (sn_flushCtxs st)"
    using assms s p unfolding branches_ok_def fl cms_chains_def by (fastforce simp: o_def split_beta)
  have "world_at (sn_flushCtxs st) m sk = map_option view (chain_at st sk)" if "m > 0" for m sk
  proof (cases "gm_load (cms_stores (sn_top st)) sk")
    case None
    have "view (lower m (flush_layers (length fs) c)) = view c" if "gm_load (cms_parents (sn_top st)) sk = Some c" for c
      using p [OF map_of_SomeD [OF that]] \<open>m > 0\<close> by blast
    with None show ?thesis
      by (cases "gm_load (cms_parents (sn_top st)) sk") (simp_all add: world_at_def chain_at_split fl gm_load_map_snd)
  next
    case (Some c)
    then show ?thesis using s [OF map_of_SomeD [OF Some]] that
      by (simp add: world_at_def chain_at_split fl gm_load_map_snd del: flush_layers.simps)
  qed
  then have w: "world_at (sn_flushCtxs st) m = hd (worlds st)" if "m > 0" for m
    using that hd_worlds [OF assms] by (simp add: fun_eq_iff)
  then have "map (world_at (sn_flushCtxs st)) (rev [1..<length (sn_frozen st) + 2]) =
      map (\<lambda>_. hd (worlds st)) (rev [1..<length (sn_frozen st) + 2])"
    by (intro map_cong) (auto simp del: upt_Suc)
  then have "worlds (sn_flushCtxs st) = replicate (length (worlds st)) (hd (worlds st))"
    unfolding worlds_def [of "sn_flushCtxs st"] fl(3) by (simp add: map_replicate_const del: upt_Suc)
  with \<open>branches_ok content (sn_flushCtxs st)\<close> show ?thesis by blast
qed

subsection \<open>Operations on a store\<close>

text \<open>What an operation on the store of the top branch has to do for the contents to follow.\<close>

lemma on_store_ok:
  assumes "branches_ok content st" and "chain_at st sk = Some c"
    and "\<And>s. chain_ok content s \<Longrightarrow> depth s = Suc (length (sn_frozen st)) \<Longrightarrow> view s = view c \<Longrightarrow>
      \<exists>s'. f s = Inr (r, s') \<and> chain_ok content s' \<and> depth s' = depth s \<and> view s' = g \<and>
        (\<forall>m < depth s. view (lower m s') = view (lower m s))"
  shows "\<exists>st'. on_store sk f st = Inr (r, st') \<and> branches_ok content st' \<and> worlds st' = put_world sk g (worlds st)"
proof -
  obtain s ms where s: "GetKVStore sk (sn_top st) = Inr (s, ms)" "chain_ok content s"
      "depth s = Suc (length (sn_frozen st))" "\<forall>m. view (lower m s) = view (lower m c)"
      "\<forall>s'. chain_ok content s' \<and> depth s' = depth s \<longrightarrow> branches_ok content (st\<lparr>sn_top := put_store sk s' ms\<rparr>)"
      "\<forall>s'. chain_at (st\<lparr>sn_top := put_store sk s' ms\<rparr>) = (chain_at st)(sk \<mapsto> s')"
    using getOrCreateStore_ok [OF assms(1,2)] .
  have "view s = view c" using spec [OF s(4), of "depth s"] s(3) chain_at_ok(2) [OF assms(1,2)] by simp
  then obtain s' where s': "f s = Inr (r, s')" "chain_ok content s'" "depth s' = depth s" "view s' = g"
      "\<And>m. m < depth s \<Longrightarrow> view (lower m s') = view (lower m s)"
    using assms(3) [OF s(2,3)] by blast
  let ?st = "st\<lparr>sn_top := put_store sk s' ms\<rparr>"
  have "worlds ?st = put_world sk g (worlds st)"
    using worlds_put [OF assms(1,2), of s' ?st] s s' by simp
  with s s' show ?thesis by (auto simp: on_store_def)
qed

lemma on_store_panic:
  assumes "branches_ok content st" and "chain_at st sk = Some c"
    and "\<And>s. chain_ok content s \<Longrightarrow> depth s = Suc (length (sn_frozen st)) \<Longrightarrow> f s = Inl p"
  shows "on_store sk f st = Inl p"
proof -
  obtain s ms where "GetKVStore sk (sn_top st) = Inr (s, ms)" "chain_ok content s" "depth s = Suc (length (sn_frozen st))"
    using getOrCreateStore_ok [OF assms(1,2)] .
  with assms(3) show ?thesis by (simp add: on_store_def)
qed

lemma on_store_unknown:
  "chain_at st sk = None \<Longrightarrow> on_store sk f st = Inl UnknownStore"
  by (auto simp: on_store_def GetKVStore_def getOrCreateStore_def chain_at_split split: option.splits)

text \<open>A read changes no content.\<close>

lemma on_store_read:
  assumes "branches_ok content st" and "chain_at st sk = Some c"
    and "\<And>s. chain_ok content s \<Longrightarrow> depth s = Suc (length (sn_frozen st)) \<Longrightarrow> view s = view c \<Longrightarrow>
      \<exists>s'. f s = Inr (r, s') \<and> chain_ok content s' \<and> same_chain s s'"
  shows "\<exists>st'. on_store sk f st = Inr (r, st') \<and> branches_ok content st' \<and> worlds st' = worlds st"
proof -
  have "put_world sk (view c) (worlds st) = worlds st"
    using hd_worlds [OF assms(1), of sk] assms(2) by (simp add: put_world_same)
  moreover have same: "\<exists>s'. f s = Inr (r, s') \<and> chain_ok content s' \<and> depth s' = depth s \<and> view s' = view c \<and>
        (\<forall>m < depth s. view (lower m s') = view (lower m s))"
    if "chain_ok content s" "depth s = Suc (length (sn_frozen st))" "view s = view c" for s
    using assms(3) [OF that] that(3) same_chain_lower by (metis depth_same same_chain_view)
  moreover have "\<exists>st'. on_store sk f st = Inr (r, st') \<and> branches_ok content st' \<and>
      worlds st' = put_world sk (view c) (worlds st)"
    using same by (rule on_store_ok [OF assms(1,2)])
  ultimately show ?thesis by simp
qed

lemma on_store_write:
  assumes "branches_ok content st" and "chain_at st sk = Some c"
    and "\<And>s. f s = Inr (ResUnit, h s)"
    and "\<And>s. chain_ok content s \<Longrightarrow> chain_ok content (h s) \<and> depth (h s) = depth s \<and>
      view (h s) = g (view s) \<and> (\<forall>m < depth s. lower m (h s) = lower m s)"
  shows "\<exists>st'. on_store sk f st = Inr (ResUnit, st') \<and> branches_ok content st' \<and>
    worlds st' = put_world sk (g (view c)) (worlds st)"
  using assms(3,4) by (intro on_store_ok [OF assms(1,2)]) auto

text \<open>Every operation on branches is one on the stack of contents.\<close>

definition simulates :: "('d \<Rightarrow> bytes \<Rightarrow> slice) \<Rightarrow> store_op \<Rightarrow> 'd branches \<Rightarrow> panic + store_res \<times> 'd branches \<Rightarrow> bool" where
  "simulates content op st res \<longleftrightarrow>
     (case res of
        Inl p \<Rightarrow> snapshot_op op (worlds st) (ResPanic p) (worlds st)
      | Inr (r, st') \<Rightarrow> branches_ok content st' \<and> snapshot_op op (worlds st) r (worlds st'))"

lemma simulates_unknown:
  assumes "branches_ok content st" and "chain_at st sk = None"
  shows "\<And>key. simulates content (OpGet sk key) st (on_store sk f st)"
    and "\<And>key. simulates content (OpHas sk key) st (on_store sk f st)"
    and "\<And>key v. simulates content (OpSet sk key v) st (on_store sk f st)"
    and "\<And>key. simulates content (OpDelete sk key) st (on_store sk f st)"
    and "\<And>a b. simulates content (OpDeleteAll sk a b) st (on_store sk f st)"
    and "\<And>a b asc. simulates content (OpIterator sk a b asc) st (on_store sk f st)"
  using hd_worlds [OF assms(1), of sk] assms(2) by (simp_all add: simulates_def on_store_unknown)

lemma simulates_Get:
  assumes "branches_ok content st"
  shows "simulates content (OpGet sk key) st (branch_op db (OpGet sk key) st)"
    and "simulates content (OpHas sk key) st (branch_op db (OpHas sk key) st)"
proof -
  let ?g = "\<lambda>s. sum_bind (ck_Get key s) (\<lambda>(v, s'). Inr (ResSlice v, s'))"
  let ?h = "\<lambda>s. sum_bind (ck_Has key s) (\<lambda>(b, s'). Inr (ResBool b, s'))"
  have "simulates content (OpGet sk key) st (on_store sk ?g st) \<and> simulates content (OpHas sk key) st (on_store sk ?h st)"
  proof (cases "chain_at st sk")
    case None
    then show ?thesis by (simp add: simulates_unknown [OF assms])
  next
    case (Some c)
    note hd = hd_worlds [OF assms, of sk]
    show ?thesis
    proof (cases "key = []")
      case True
      then have "on_store sk ?g st = Inl KeyIsNil" "on_store sk ?h st = Inl KeyIsNil"
        by (auto intro!: on_store_panic [OF assms Some] simp: ck_Get_def ck_Has_def AssertValidKey_def)
      with True Some hd show ?thesis by (simp add: simulates_def)
    next
      case False
      have read: "\<exists>s'. ck_Get key s = Inr (view c key, s') \<and> chain_ok content s' \<and> same_chain s s'"
        if "chain_ok content s" "view s = view c" for s
        using getFromCache_ok [OF that(1), of 0 key] that(2) False
        by (cases "getFromCache 0 key s") (simp add: ck_Get_def AssertValidKey_def)
      have "\<exists>st'. on_store sk ?g st = Inr (ResSlice (view c key), st') \<and> branches_ok content st' \<and> worlds st' = worlds st"
        "\<exists>st'. on_store sk ?h st = Inr (ResBool (view c key \<noteq> None), st') \<and> branches_ok content st' \<and> worlds st' = worlds st"
        by (rule on_store_read [OF assms Some]; use read in \<open>fastforce simp: ck_Has_def\<close>)+
      with False Some hd show ?thesis by (auto simp: simulates_def)
    qed
  qed
  then show "simulates content (OpGet sk key) st (branch_op db (OpGet sk key) st)"
    and "simulates content (OpHas sk key) st (branch_op db (OpHas sk key) st)" by simp_all
qed

lemma simulates_Set:
  assumes "branches_ok content st"
  shows "simulates content (OpSet sk key value) st (branch_op db (OpSet sk key value) st)"
proof (cases "chain_at st sk")
  case None
  then show ?thesis by (simp add: simulates_unknown [OF assms])
next
  case (Some c)
  let ?f = "\<lambda>s. sum_bind (ck_Set key value s) (\<lambda>s'. Inr (ResUnit, s'))"
  note hd = hd_worlds [OF assms, of sk]
  show ?thesis
  proof (cases "key = [] \<or> value = None")
    case True
    then have "on_store sk ?f st = Inl (if key = [] then KeyIsNil else ValueIsNil)"
      by (intro on_store_panic [OF assms Some]) (auto simp: ck_Set_def AssertValidKey_def AssertValidValue_def)
    with True Some hd show ?thesis by (auto simp: simulates_def)
  next
    case False
    then obtain v where v: "value = Some v" "key \<noteq> []" by auto
    have "\<exists>st'. on_store sk ?f st = Inr (ResUnit, st') \<and> branches_ok content st' \<and>
        worlds st' = put_world sk ((view c)(key := Some v)) (worlds st)"
      using v by (intro on_store_write [OF assms Some, where h = "kvs_Set key v"])
        (auto simp: ck_Set_def AssertValidKey_def AssertValidValue_def chain_ok_Set view_Set lower_put fun_eq_iff)
    with v Some hd show ?thesis by (auto simp: simulates_def)
  qed
qed

lemma simulates_Delete:
  assumes "branches_ok content st"
  shows "simulates content (OpDelete sk key) st (branch_op db (OpDelete sk key) st)"
proof (cases "chain_at st sk")
  case None
  then show ?thesis by (simp add: simulates_unknown [OF assms])
next
  case (Some c)
  let ?f = "\<lambda>s. sum_bind (ck_Delete key s) (\<lambda>s'. Inr (ResUnit, s'))"
  note hd = hd_worlds [OF assms, of sk]
  show ?thesis
  proof (cases "key = []")
    case True
    then have "on_store sk ?f st = Inl KeyIsNil"
      by (intro on_store_panic [OF assms Some]) (auto simp: ck_Delete_def AssertValidKey_def)
    with True Some hd show ?thesis by (auto simp: simulates_def)
  next
    case False
    have "\<exists>st'. on_store sk ?f st = Inr (ResUnit, st') \<and> branches_ok content st' \<and>
        worlds st' = put_world sk ((view c)(key := None)) (worlds st)"
      using False by (intro on_store_write [OF assms Some, where h = "kvs_Delete key"])
        (auto simp: ck_Delete_def AssertValidKey_def chain_ok_Delete view_Delete lower_put fun_eq_iff)
    with False Some hd show ?thesis by (auto simp: simulates_def)
  qed
qed

lemma simulates_DeleteAll:
  assumes "branches_ok content st"
  shows "simulates content (OpDeleteAll sk a b) st (branch_op db (OpDeleteAll sk a b) st)"
proof (cases "chain_at st sk")
  case None
  then show ?thesis by (simp add: simulates_unknown [OF assms])
next
  case (Some c)
  have "\<exists>st'. on_store sk (\<lambda>s. Inr (ResUnit, DeleteAll (Some a) (Some b) s)) st = Inr (ResUnit, st') \<and>
      branches_ok content st' \<and> worlds st' = put_world sk (\<lambda>k. if a \<le> k \<and> k < b then None else view c k) (worlds st)"
    by (intro on_store_write [OF assms Some, where h = "DeleteAll (Some a) (Some b)"])
      (simp_all add: DeleteAll_ok lower_DeleteAll)
  with Some hd_worlds [OF assms, of sk] show ?thesis by (auto simp: simulates_def)
qed

lemma simulates_stack:
  assumes "branches_ok content st"
  shows "simulates content OpSnapshot st (branch_op db OpSnapshot st)"
    and "simulates content (OpRevert v) st (branch_op db (OpRevert v) st)"
    and "simulates content OpFlush st (branch_op db OpFlush st)"
proof -
  obtain u st1 where "sn_Snapshot st = (u, st1)" by force
  with sn_Snapshot_ok [OF assms this] show "simulates content OpSnapshot st (branch_op db OpSnapshot st)"
    by (simp add: simulates_def)
  show "simulates content (OpRevert v) st (branch_op db (OpRevert v) st)"
  proof (cases "v < length (sn_frozen st)")
    case True
    with sn_Revert_ok [OF assms this] show ?thesis by (auto simp: simulates_def)
  next
    case False
    then have "sn_Revert v st = Inl IndexOutOfRange" by (simp add: sn_Revert_def)
    with False show ?thesis by (simp add: simulates_def)
  qed
  show "simulates content OpFlush st (branch_op db OpFlush st)"
    using sn_flushCtxs_ok [OF assms] by (simp add: simulates_def)
qed

context sorted_db
begin

lemma simulates_Iterator:
  assumes "branches_ok content st"
  shows "simulates content (OpIterator sk start end' ascending) st (branch_op db (OpIterator sk start end' ascending) st)"
proof (cases "chain_at st sk")
  case None
  then show ?thesis by (simp add: simulates_unknown [OF assms])
next
  case (Some c)
  let ?i = "\<lambda>s. if ascending then ck_Iterator db start end' s else ck_ReverseIterator db start end' s"
  let ?f = "\<lambda>s. sum_bind (?i s) (\<lambda>(kvs, s'). Inr (ResEntries kvs, s'))"
  note hd = hd_worlds [OF assms, of sk]
  have i: "?i s = ck_iterator db start end' ascending 0 s" for s
    by (simp add: ck_Iterator_def ck_ReverseIterator_def)
  show ?thesis
  proof (cases "start = Some [] \<or> end' = Some []")
    case True
    have "?i s = Inl EmptyRangeBound" if "chain_ok content s" "depth s = Suc (length (sn_frozen st))" for s
      unfolding i using that ck_iterator_empty_bound(2) [OF True] by (cases s) auto
    then have "on_store sk ?f st = Inl EmptyRangeBound"
      by (intro on_store_panic [OF assms Some]) simp
    with True Some hd show ?thesis by (auto simp: simulates_def)
  next
    case False
    have it: "\<exists>kvs s'. ?i s = Inr (kvs, s') \<and> in_order ascending kvs \<and> entries_of (view c) start end' kvs \<and>
        same_chain s s' \<and> chain_ok content s'" if "chain_ok content s" "view s = view c" for s
      unfolding i using ck_iterator_ok [of start end' s 0 ascending] False that by auto
    obtain kvs where kvs: "in_order ascending kvs" "entries_of (view c) start end' kvs"
      using it [OF chain_at_ok(1) [OF assms Some] refl] by blast
    have "\<exists>s'. ?f s = Inr (ResEntries kvs, s') \<and> chain_ok content s' \<and> same_chain s s'"
      if s: "chain_ok content s" "view s = view c" for s
    proof -
      obtain kvs' s' where s': "?i s = Inr (kvs', s')" "in_order ascending kvs'" "entries_of (view c) start end' kvs'"
          "same_chain s s'" "chain_ok content s'"
        using it [OF s] by blast
      have "kvs' = kvs"
        using s'(3) kvs(2) by (intro in_order_unique [OF s'(2) kvs(1)]) (simp add: entries_of_def set_eq_iff)
      with s' show ?thesis by simp
    qed
    then have "\<exists>st'. on_store sk ?f st = Inr (ResEntries kvs, st') \<and> branches_ok content st' \<and> worlds st' = worlds st"
      by (intro on_store_read [OF assms Some]) blast
    with False Some hd kvs show ?thesis by (auto simp: simulates_def)
  qed
qed

lemma branch_op_simulates: "branches_ok content st \<Longrightarrow> simulates content op st (branch_op db op st)"
  by (cases op)
    (simp_all only: simulates_Get simulates_Set simulates_Delete simulates_DeleteAll simulates_Iterator simulates_stack)

lemma branch_run_simulates:
  "branches_ok content st \<Longrightarrow> branch_run db ops st = (rs, st') \<Longrightarrow>
     branches_ok content st' \<and> snapshot_run ops (worlds st) rs (worlds st')"
proof (induction ops arbitrary: st rs)
  case (Cons op ops)
  show ?case
  proof (cases "branch_op db op st")
    case (Inl p)
    then obtain rs' where rs: "branch_run db ops st = (rs', st')" "rs = ResPanic p # rs'"
      using Cons.prems(2) by (auto split: prod.splits)
    have "snapshot_op op (worlds st) (ResPanic p) (worlds st)"
      using branch_op_simulates [OF Cons.prems(1), of op] Inl by (simp add: simulates_def)
    with Cons.IH [OF Cons.prems(1) rs(1)] rs(2) show ?thesis by auto
  next
    case (Inr x)
    obtain r st1 where x: "x = (r, st1)" by (cases x)
    with Inr Cons.prems(2) obtain rs' where rs: "branch_run db ops st1 = (rs', st')" "rs = r # rs'"
      by (auto split: prod.splits)
    have "branches_ok content st1" "snapshot_op op (worlds st) r (worlds st1)"
      using branch_op_simulates [OF Cons.prems(1), of op] Inr x by (simp_all add: simulates_def)
    with Cons.IH [OF _ rs(1)] rs(2) show ?thesis by auto
  qed
qed simp

end

subsection \<open>Initial branches\<close>

definition store_world :: "(string, kvstore) gomap \<Rightarrow> world" where
  "store_world stores = (\<lambda>sk. map_option kv_Get (gm_load stores sk))"

definition valid_stores :: "(string, kvstore) gomap \<Rightarrow> bool" where
  "valid_stores stores \<longleftrightarrow> distinct (gm_keys stores) \<and> (\<forall>(sk, b) \<in> set stores. kv_Get b [] = None)"

lemma view_Base: "view (Base b) = kv_Get b"
  by (simp add: fun_eq_iff)

lemma new_branches_ok:
  assumes "valid_stores stores"
  shows "branches_ok content (new_branches stores)" and "worlds (new_branches stores) = [store_world stores]"
proof -
  show "branches_ok content (new_branches stores)"
    using assms by (auto simp: branches_ok_def new_branches_def cms_chains_def valid_stores_def o_def split_beta)
  show "worlds (new_branches stores) = [store_world stores]"
    by (simp add: worlds_def new_branches_def world_at_def chain_at_split gm_load_map_snd store_world_def
        option.map_comp o_def view_Base)
qed

text \<open>Operations after a snapshot that neither revert to it or an earlier one nor flush.\<close>

fun stays_above :: "nat \<Rightarrow> store_op \<Rightarrow> bool" where
  "stays_above v (OpRevert w) \<longleftrightarrow> v < w"
| "stays_above v OpFlush \<longleftrightarrow> False"
| "stays_above v _ \<longleftrightarrow> True"

lemma snapshot_op_above:
  assumes "snapshot_op op (xs @ ws) r ws'" and "xs \<noteq> []" and "stays_above (length ws - 1) op" and "ws \<noteq> []"
  shows "\<exists>ys. ys \<noteq> [] \<and> ws' = ys @ ws"
proof (cases op)
  case (OpRevert w)
  let ?n = "length (xs @ ws) - 1 - w"
  show ?thesis
  proof (cases "w \<ge> length (xs @ ws) - 1")
    case False
    then have "?n < length xs" using OpRevert assms(3,4) by (cases ws) auto
    with False OpRevert assms(1) show ?thesis by (intro exI [of _ "drop ?n xs"]) auto
  qed (use OpRevert assms in auto)
qed (use assms in \<open>auto simp: put_world_def Cons_eq_append_conv split: option.splits if_splits\<close>)

lemma snapshot_run_above:
  assumes "snapshot_run ops (xs @ ws) rs ws'" and "xs \<noteq> []" and "list_all (stays_above (length ws - 1)) ops" and "ws \<noteq> []"
  shows "\<exists>ys. ys \<noteq> [] \<and> ws' = ys @ ws"
  using assms
proof (induction ops arbitrary: xs rs)
  case (Cons op ops)
  then obtain r rs' ws1 where 1: "snapshot_op op (xs @ ws) r ws1" "snapshot_run ops ws1 rs' ws'" by auto
  with snapshot_op_above [OF 1(1)] Cons.prems obtain ys where "ys \<noteq> []" "ws1 = ys @ ws" by auto
  with Cons.IH [of ys rs'] 1(2) Cons.prems show ?case by simp
qed auto

lemma snapshot_run_append:
  "snapshot_run (ops @ ops') ws rs ws' \<Longrightarrow>
     \<exists>rs1 rs2 ws1. rs = rs1 @ rs2 \<and> snapshot_run ops ws rs1 ws1 \<and> snapshot_run ops' ws1 rs2 ws'"
proof (induction ops arbitrary: ws rs)
  case (Cons op ops)
  then obtain r rs' ws1 where 1: "rs = r # rs'" "snapshot_op op ws r ws1" "snapshot_run (ops @ ops') ws1 rs' ws'" by auto
  from Cons.IH [OF 1(3)] obtain rs1 rs2 ws2 where
    "rs' = rs1 @ rs2" "snapshot_run ops ws1 rs1 ws2" "snapshot_run ops' ws2 rs2 ws'" by blast
  with 1 show ?case by (intro exI [of _ "r # rs1"] exI [of _ rs2] exI [of _ ws2]) auto
qed auto

text \<open>With a \<open>nil\<close> end the range is unbounded for a base store and for iterators, but \<open>GetAllKeyStrsInRange\<close> then
  leaves out what the layer itself has cached: \<open>bytes.Compare\<close> takes the \<open>nil\<close> end for the empty key.\<close>

lemma GetAllKeyStrsInRange_nil_end:
  "GetAllKeyStrsInRange (Some ''a'') None (kvs_Set ''b'' ''1'' (CacheWrap (Base [(''c'', ''2'')]))) = [''c''] \<and>
   map_sum id fst (ck_Iterator list_db (Some ''a'') None (kvs_Set ''b'' ''1'' (CacheWrap (Base [(''c'', ''2'')])))) =
     Inr [(''b'', ''1''), (''c'', ''2'')]"
  by code_simp

subsection \<open>Properties\<close>

text \<open>C5. The branches of the multi-store implement snapshots: whatever sequence of reads, writes, deletions, iterations,
  snapshots, reverts and flushes is run on them, every result, panics included, is the one of a stack that holds a complete
  copy of all stores for every snapshot, and the contents of the branches at the end are that stack. So skipping
  frozen empty layers, the memoized ancestors, the sorted caches and the lazy creation of stores cannot be observed.\<close>

theorem branches_refine_snapshots:
  assumes "sorted_db db content" and "valid_stores stores"
    and "branch_run db ops (new_branches stores) = (rs, st)"
  shows "snapshot_run ops [store_world stores] rs (worlds st)"
  using sorted_db.branch_run_simulates [OF assms(1) new_branches_ok(1) [OF assms(2)] assms(3)]
  by (simp add: new_branches_ok(2) [OF assms(2)])

definition demo_ops :: "store_op list" where
  "demo_ops = [OpSnapshot, OpSet ''evm'' ''a'' (Some ''1''), OpSnapshot, OpDelete ''evm'' ''k'', OpSnapshot,
     OpIterator ''evm'' None None True, OpRevert 1, OpGet ''evm'' ''k'', OpFlush, OpIterator ''evm'' None None False]"

lemma demo_run:
  "fst (branch_run list_db demo_ops (new_branches [(''evm'', [(''k'', ''0'')])])) =
     [ResVersion 0, ResUnit, ResVersion 1, ResUnit, ResVersion 2, ResEntries [(''a'', ''1'')], ResUnit,
      ResSlice (Some ''0''), ResUnit, ResEntries [(''k'', ''0''), (''a'', ''1'')]]"
  by code_simp

lemma demo_stores: "valid_stores [(''evm'', [(''k'', ''0'')])]"
  by (simp add: valid_stores_def kv_Get_def)

theorem branches_refine_snapshots_witness:
  "\<exists>ws. snapshot_run demo_ops [store_world [(''evm'', [(''k'', ''0'')])]]
     [ResVersion 0, ResUnit, ResVersion 1, ResUnit, ResVersion 2, ResEntries [(''a'', ''1'')], ResUnit,
      ResSlice (Some ''0''), ResUnit, ResEntries [(''k'', ''0''), (''a'', ''1'')]] ws"
  using branches_refine_snapshots [OF ldb.sorted_db_axioms demo_stores, of demo_ops] demo_run
  by (metis prod.collapse)

text \<open>C39. A revert restores the contents of its snapshot: after any operations that start from a snapshot, take and revert later
  snapshots and write, delete and iterate at will, reverting to the snapshot succeeds and leaves the contents of the branch and
  of all branches below it as they were when it was taken.\<close>

theorem revert_restores_contents:
  assumes "sorted_db db content" and "valid_stores stores"
    and "branch_run db ops0 (new_branches stores) = (rs0, st0)"
    and "list_all (stays_above (length (sn_frozen st0))) ops"
    and "branch_run db (OpSnapshot # ops @ [OpRevert (length (sn_frozen st0))]) st0 = (rs, st)"
  shows "hd rs = ResVersion (length (sn_frozen st0)) \<and> last rs = ResUnit \<and> worlds st = worlds st0"
proof -
  have ok: "branches_ok content st0"
    using sorted_db.branch_run_simulates [OF assms(1) new_branches_ok(1) [OF assms(2)] assms(3)] by blast
  obtain rs' where rs: "rs = ResVersion (length (sn_frozen st0)) # rs'"
      "snapshot_run (ops @ [OpRevert (length (sn_frozen st0))]) (hd (worlds st0) # worlds st0) rs' (worlds st)"
    using sorted_db.branch_run_simulates [OF assms(1) ok assms(5)] by auto
  obtain rs1 r ws where run: "rs' = rs1 @ [r]" "snapshot_run ops (hd (worlds st0) # worlds st0) rs1 ws"
      "snapshot_op (OpRevert (length (sn_frozen st0))) ws r (worlds st)"
    using snapshot_run_append [OF rs(2)] by auto
  have "worlds st0 \<noteq> []" by (simp add: worlds_Cons)
  then obtain ys where "ys \<noteq> []" "ws = ys @ worlds st0"
    using snapshot_run_above [of ops "[hd (worlds st0)]" "worlds st0" rs1 ws] run(2) assms(4) by auto
  with rs(1) run show ?thesis by auto
qed

definition demo_start :: "kvstore branches" where
  "demo_start = snd (branch_run list_db [OpSnapshot] (new_branches [(''evm'', [(''k'', ''0'')])]))"

lemma demo_start_version: "length (sn_frozen demo_start) = 1"
  by code_simp

theorem revert_restores_contents_witness:
  "worlds (snd (branch_run list_db
     [OpSnapshot, OpSet ''evm'' ''a'' (Some ''1''), OpSnapshot, OpDelete ''evm'' ''k'', OpRevert 1] demo_start)) =
   worlds demo_start"
proof -
  let ?ops = "[OpSet ''evm'' ''a'' (Some ''1''), OpSnapshot, OpDelete ''evm'' ''k'']"
  have start: "branch_run list_db [OpSnapshot] (new_branches [(''evm'', [(''k'', ''0'')])]) =
      (fst (branch_run list_db [OpSnapshot] (new_branches [(''evm'', [(''k'', ''0'')])])), demo_start)"
    unfolding demo_start_def by (rule prod.collapse [symmetric])
  have "list_all (stays_above (length (sn_frozen demo_start))) ?ops" by simp
  from revert_restores_contents [OF ldb.sorted_db_axioms demo_stores start this prod.collapse [symmetric]]
  show ?thesis by (simp only: demo_start_version append.simps)
qed

end
