(* ===== verification/EvmKeeper.thy ===== *)
theory EvmKeeper
  imports BankTransfers
begin

text \<open>
  The keeper of the EVM module as the state database uses it: the files \<open>state.go\<close>, \<open>code.go\<close>, \<open>nonce.go\<close>,
  \<open>balance.go\<close>, \<open>address.go\<close> and \<open>keeper.go\<close> of \<open>src/x/evm/keeper\<close>, over the bank.

  The record \<open>evm_world\<close> is the content of the stores: the bank, and a table for every key prefix of the EVM
  store, decoded. EVM addresses are byte strings of 20 bytes, and storage keys and values (\<open>common.Hash\<close>) are
  words of 256 bits. The record \<open>evm_env\<close> holds what is third-party code (hashing, the conversions of
  \<open>common.BytesToAddress\<close> and \<open>uint256.FromBig\<close>) and what the keeper reads from the context. The replay of
  Ethereum blocks is off, so \<open>PrepareReplayedAddr\<close> does nothing; gas, events and tracing hooks are left out.
\<close>

type_synonym eaddr = bytes
type_synonym hash = "256 word"

record evm_world =
  ew_bank :: bank
  ew_state :: "(eaddr \<times> hash, hash) gomap"
  ew_code :: "(eaddr, bytes) gomap"
  ew_codeSize :: "(eaddr, 64 word) gomap"
  ew_codeHash :: "(eaddr, hash) gomap"
  ew_nonce :: "(eaddr, 64 word) gomap"
  ew_seiAddr :: "(eaddr, addr) gomap"
  ew_evmAddr :: "(addr, eaddr) gomap"

record evm_env =
  ee_bank :: bank_env
  ee_Keccak256Hash :: "bytes \<Rightarrow> hash"
  ee_EmptyCodeHash :: hash
  ee_BytesToAddress :: "bytes \<Rightarrow> eaddr"
  ee_FromBig :: "int \<Rightarrow> 256 word \<times> bool"
  ee_IsTracing :: bool
  ee_ChainID :: string
  ee_BlockHeight :: int

datatype evm_panic =
    EvmBankPanic account_panic
  | EvmBankError bank_error
  | BalanceOverflow
  | RefundBelowZero
  | InvalidRevision
  | NoSnapshot
  | NotInSimulation
  | FinalizeSimulation
  | SliceBounds

type_synonym 'a eres = "evm_panic + 'a"

definition lift_sdk :: "sdk_panic + 'a \<Rightarrow> 'a eres" where
  "lift_sdk r = (case r of Inl p \<Rightarrow> Inl (EvmBankPanic (SdkPanic p)) | Inr x \<Rightarrow> Inr x)"

text \<open>A bank operation panics, or returns an error, or returns the new state.\<close>

definition on_bank :: "'a bres \<Rightarrow> (bank_error + 'a) eres" where
  "on_bank r =
     (case r of
        Inl (BankPanic p) \<Rightarrow> Inl (EvmBankPanic p)
      | Inl NoBaseDenom \<Rightarrow> Inl (EvmBankError NoBaseDenom)
      | Inl e \<Rightarrow> Inr (Inl e)
      | Inr x \<Rightarrow> Inr (Inr x))"

definition must_bank :: "'a bres \<Rightarrow> 'a eres" where
  "must_bank r =
     (case r of Inl (BankPanic p) \<Rightarrow> Inl (EvmBankPanic p) | Inl e \<Rightarrow> Inl (EvmBankError e) | Inr x \<Rightarrow> Inr x)"

definition BaseDenom :: string where
  "BaseDenom = ''usei''"

subsection \<open>Addresses\<close>

definition GetSeiAddress :: "evm_world \<Rightarrow> eaddr \<Rightarrow> addr option" where
  "GetSeiAddress w evmAddress = gm_load (ew_seiAddr w) evmAddress"

definition GetSeiAddressOrDefault :: "evm_world \<Rightarrow> eaddr \<Rightarrow> addr" where
  "GetSeiAddressOrDefault w evmAddress =
     (case GetSeiAddress w evmAddress of Some addr \<Rightarrow> addr | None \<Rightarrow> evmAddress)"

definition GetEVMAddress :: "evm_world \<Rightarrow> addr \<Rightarrow> eaddr option" where
  "GetEVMAddress w seiAddress = gm_load (ew_evmAddr w) seiAddress"

definition GetEVMAddressOrDefault :: "evm_env \<Rightarrow> evm_world \<Rightarrow> addr \<Rightarrow> eaddr" where
  "GetEVMAddressOrDefault env w seiAddress =
     (case GetEVMAddress w seiAddress of Some addr \<Rightarrow> addr | None \<Rightarrow> ee_BytesToAddress env seiAddress)"

definition SetAddressMapping :: "addr \<Rightarrow> eaddr \<Rightarrow> evm_world \<Rightarrow> evm_world" where
  "SetAddressMapping seiAddress evmAddress w =
     w\<lparr>ew_seiAddr := gm_store evmAddress seiAddress (ew_seiAddr w),
       ew_evmAddr := gm_store seiAddress evmAddress (ew_evmAddr w),
       ew_bank := create_account seiAddress (ew_bank w)\<rparr>"

definition DeleteAddressMapping :: "addr \<Rightarrow> eaddr \<Rightarrow> evm_world \<Rightarrow> evm_world" where
  "DeleteAddressMapping seiAddress evmAddress w =
     w\<lparr>ew_seiAddr := gm_delete evmAddress (ew_seiAddr w), ew_evmAddr := gm_delete seiAddress (ew_evmAddr w)\<rparr>"

definition CanAddressReceive :: "evm_env \<Rightarrow> evm_world \<Rightarrow> addr \<Rightarrow> bool" where
  "CanAddressReceive env w addr =
     (case GetSeiAddress w (ee_BytesToAddress env addr) of
        None \<Rightarrow> True
      | Some associatedAddr \<Rightarrow> associatedAddr = addr)"

text \<open>The application registers \<open>CanAddressReceive\<close> as a recipient checker of the bank.\<close>

definition evm_bank_env :: "evm_env \<Rightarrow> evm_world \<Rightarrow> bank_env" where
  "evm_bank_env env w =
     (ee_bank env)\<lparr>be_recipientCheckers := be_recipientCheckers (ee_bank env) @ [CanAddressReceive env w]\<rparr>"

subsection \<open>Storage, code and nonces\<close>

definition kp_GetState :: "evm_world \<Rightarrow> eaddr \<Rightarrow> hash \<Rightarrow> hash" where
  "kp_GetState w addr key = (case gm_load (ew_state w) (addr, key) of None \<Rightarrow> 0 | Some val \<Rightarrow> val)"

definition kp_SetState :: "eaddr \<Rightarrow> hash \<Rightarrow> hash \<Rightarrow> evm_world \<Rightarrow> evm_world" where
  "kp_SetState addr key val w =
     (if val = 0 then w\<lparr>ew_state := gm_delete (addr, key) (ew_state w)\<rparr>
      else w\<lparr>ew_state := gm_store (addr, key) val (ew_state w)\<rparr>)"

definition PurgeState :: "eaddr \<Rightarrow> evm_world \<Rightarrow> evm_world" where
  "PurgeState addr w = w\<lparr>ew_state := filter (\<lambda>((a, k), v). a \<noteq> addr) (ew_state w)\<rparr>"

definition kp_GetCode :: "evm_world \<Rightarrow> eaddr \<Rightarrow> slice" where
  "kp_GetCode w addr =
     (case gm_load (ew_code w) addr of None \<Rightarrow> None | Some code \<Rightarrow> if length code = 0 then None else Some code)"

definition kp_SetCode :: "evm_env \<Rightarrow> eaddr \<Rightarrow> slice \<Rightarrow> evm_world \<Rightarrow> evm_world" where
  "kp_SetCode env addr code w =
     (let code' = slice_bytes code;
          w1 = w\<lparr>ew_code := gm_store addr code' (ew_code w),
                 ew_codeSize := gm_store addr (of_nat (length code')) (ew_codeSize w),
                 ew_codeHash := gm_store addr (ee_Keccak256Hash env code') (ew_codeHash w)\<rparr>
      in if GetSeiAddress w1 addr = None then SetAddressMapping (GetSeiAddressOrDefault w1 addr) addr w1 else w1)"

definition kp_GetCodeSize :: "evm_world \<Rightarrow> eaddr \<Rightarrow> 64 word" where
  "kp_GetCodeSize w addr = (case gm_load (ew_codeSize w) addr of None \<Rightarrow> 0 | Some n \<Rightarrow> n)"

definition kp_GetNonce :: "evm_world \<Rightarrow> eaddr \<Rightarrow> 64 word" where
  "kp_GetNonce w addr = (case gm_load (ew_nonce w) addr of None \<Rightarrow> 0 | Some n \<Rightarrow> n)"

definition kp_SetNonce :: "eaddr \<Rightarrow> 64 word \<Rightarrow> evm_world \<Rightarrow> evm_world" where
  "kp_SetNonce addr nonce w = w\<lparr>ew_nonce := gm_store addr nonce (ew_nonce w)\<rparr>"

subsection \<open>Balances\<close>

text \<open>What the EVM shows as the balance of an account: its coins of the base denomination that are not locked, in wei,
  and its wei.\<close>

definition SdkUseiToSweiMultiplier :: int where
  "SdkUseiToSweiMultiplier = 1000000000000"

definition kp_GetBalance :: "evm_env \<Rightarrow> evm_world \<Rightarrow> addr \<Rightarrow> int eres" where
  "kp_GetBalance env w addr =
     sum_bind (must_bank (GetBalance (ew_bank w) addr BaseDenom)) (\<lambda>allUsei.
     sum_bind (must_bank (LockedCoins (evm_bank_env env w) (ew_bank w) addr)) (\<lambda>locked.
     sum_bind (lift_sdk (AmountOf locked BaseDenom)) (\<lambda>lockedUsei.
     sum_bind (lift_sdk (Int_Sub (Amount allUsei) lockedUsei)) (\<lambda>usei.
     sum_bind (lift_sdk (Int_Mul usei SdkUseiToSweiMultiplier)) (\<lambda>swei.
       lift_sdk (Int_Add swei (GetWeiBalance (ew_bank w) addr)))))))"

definition kp_GetCodeHash :: "evm_env \<Rightarrow> evm_world \<Rightarrow> eaddr \<Rightarrow> hash eres" where
  "kp_GetCodeHash env w addr =
     (case gm_load (ew_codeHash w) addr of
        Some h \<Rightarrow> Inr h
      | None \<Rightarrow>
          sum_bind (kp_GetBalance env w (GetSeiAddressOrDefault w addr)) (\<lambda>b.
            Inr (if b = 0 \<and> kp_GetNonce w addr = 0 then 0 else ee_EmptyCodeHash env)))"

end
