(* ===== verification/EvmState.thy ===== *)
theory EvmState
  imports EvmKeeper
begin

text \<open>
  The state database of the EVM, \<open>DBImpl\<close> of \<open>src/x/evm/state\<close>: accounts, storage, transient storage, logs,
  refunds, access lists, storage overrides, the surplus, the memo of code, and the journal with which a revert
  undoes the part of the state that is not in the stores.

  A snapshot keeps the content of the stores (\<open>sdb_snapshottedCtxs\<close>, the oldest first); that the branches of the
  multi-store implement this is shown in \<open>CacheProps\<close>. Maps with the hexadecimal text of an address or a hash as
  their key are keyed by the address or the hash.
\<close>

subsection \<open>State\<close>

record log =
  log_Address :: eaddr
  log_Topics :: "hash list"
  log_Data :: bytes
  log_Index :: nat

record accessList =
  al_Addresses :: "(eaddr, int) gomap"
  al_Slots :: "hash list list"

record storageOverride =
  so_committed :: "(hash, hash) gomap"
  so_current :: "(hash, hash) gomap"

record TemporaryState =
  ts_logs :: "log list"
  ts_transientStates :: "(eaddr, (hash, hash) gomap) gomap"
  ts_transientAccounts :: "(eaddr, bytes) gomap"
  ts_transientModuleStates :: "(bytes, 64 word) gomap"
  ts_accessLists :: accessList
  ts_storageOverrides :: "(eaddr, storageOverride) gomap"
  ts_surplus :: int

datatype journalEntry =
    AccountStatusChange eaddr slice
  | AddLogChange
  | RefundChange "64 word"
  | AccessListAddAccountChange eaddr
  | AccessListAddSlotChange eaddr hash
  | TransientStorageChange eaddr hash hash
  | StorageOverrideChange eaddr hash hash
  | StorageOverrideRemove eaddr storageOverride
  | StorageOverrideInstall eaddr "storageOverride option"
  | SurplusChange int
  | CodeCacheChange eaddr slice bool
  | Watermark nat

record DBImpl =
  sdb_ctx :: evm_world
  sdb_snapshottedCtxs :: "evm_world list"
  sdb_temp :: TemporaryState
  sdb_journal :: "journalEntry list"
  sdb_codeCache :: "(eaddr, slice) gomap option"
  sdb_err :: "bank_error option"
  sdb_coinbaseAddress :: addr
  sdb_coinbaseEvmAddress :: eaddr
  sdb_simulation :: bool

definition GasRefundKey :: bytes where
  "GasRefundKey = [CHR 0x01]"

definition AccountCreated :: bytes where
  "AccountCreated = [CHR 0x01]"

definition AccountDeleted :: bytes where
  "AccountDeleted = [CHR 0x02]"

definition NewTemporaryState :: TemporaryState where
  "NewTemporaryState =
     \<lparr>ts_logs = [], ts_transientStates = [], ts_transientAccounts = [], ts_transientModuleStates = [],
      ts_accessLists = \<lparr>al_Addresses = [], al_Slots = []\<rparr>, ts_storageOverrides = [], ts_surplus = 0\<rparr>"

definition journal_append :: "journalEntry \<Rightarrow> DBImpl \<Rightarrow> DBImpl" where
  "journal_append e s = s\<lparr>sdb_journal := sdb_journal s @ [e]\<rparr>"

definition set_temp :: "TemporaryState \<Rightarrow> DBImpl \<Rightarrow> DBImpl" where
  "set_temp t s = s\<lparr>sdb_temp := t\<rparr>"

definition set_ctx :: "evm_world \<Rightarrow> DBImpl \<Rightarrow> DBImpl" where
  "set_ctx w s = s\<lparr>sdb_ctx := w\<rparr>"

definition set_bank :: "bank \<Rightarrow> DBImpl \<Rightarrow> DBImpl" where
  "set_bank b s = s\<lparr>sdb_ctx := (sdb_ctx s)\<lparr>ew_bank := b\<rparr>\<rparr>"

subsection \<open>Snapshots\<close>

definition sdb_Snapshot :: "DBImpl \<Rightarrow> nat \<times> DBImpl" where
  "sdb_Snapshot s =
     (let s1 = s\<lparr>sdb_snapshottedCtxs := sdb_snapshottedCtxs s @ [sdb_ctx s]\<rparr>;
          version = length (sdb_snapshottedCtxs s1) - 1
      in (version, journal_append (Watermark version) s1))"

definition GetCoinbaseAddress :: "nat \<Rightarrow> addr" where
  "GetCoinbaseAddress txIdx =
     CoinbaseAddressPrefix @ map (\<lambda>i. char_of (drop_bit (8 * i) txIdx)) [7, 6, 5, 4, 3, 2, 1, 0]"

text \<open>The context is given by the stores, the index of the transaction and whether the EVM was entered from the
  wasmd precompile; the address of the fee collector is what the keeper returns.\<close>

definition NewDBImpl :: "evm_world \<Rightarrow> nat \<Rightarrow> bool \<Rightarrow> eaddr \<Rightarrow> bool \<Rightarrow> DBImpl" where
  "NewDBImpl ctx txIdx viaWasmd feeCollector simulation =
     snd (sdb_Snapshot
       \<lparr>sdb_ctx = ctx, sdb_snapshottedCtxs = [], sdb_temp = NewTemporaryState, sdb_journal = [],
        sdb_codeCache = (if \<not> simulation \<and> \<not> viaWasmd then Some [] else None), sdb_err = None,
        sdb_coinbaseAddress = GetCoinbaseAddress txIdx, sdb_coinbaseEvmAddress = feeCollector,
        sdb_simulation = simulation\<rparr>)"

subsection \<open>Undoing journal entries\<close>

text \<open>An index into the slots that is out of range is a panic of the code.\<close>

definition slots_at :: "accessList \<Rightarrow> int \<Rightarrow> hash list eres" where
  "slots_at al idx =
     (if 0 \<le> idx \<and> idx < int (length (al_Slots al)) then Inr (al_Slots al ! nat idx) else Inl SliceBounds)"

definition undo_slot :: "eaddr \<Rightarrow> hash \<Rightarrow> accessList \<Rightarrow> accessList eres" where
  "undo_slot a slot al =
     (case gm_load (al_Addresses al) a of
        None \<Rightarrow> Inr al
      | Some idx \<Rightarrow>
          if idx = -1 then Inr al
          else if idx \<ge> int (length (al_Slots al)) then Inr al
          else sum_bind (slots_at al idx) (\<lambda>slotmap.
            let i = nat idx; slots = removeAll slot slotmap in
            if length slots = 0
            then Inr \<lparr>al_Addresses = gm_store a (-1) (al_Addresses al),
                      al_Slots = take i (al_Slots al) @ drop (Suc i) (al_Slots al)\<rparr>
            else Inr (al\<lparr>al_Slots := (al_Slots al)[i := slots]\<rparr>)))"

definition undo_transient :: "eaddr \<Rightarrow> hash \<Rightarrow> hash \<Rightarrow> (eaddr, (hash, hash) gomap) gomap \<Rightarrow> (eaddr, (hash, hash) gomap) gomap" where
  "undo_transient a key prevalue ts =
     (if prevalue = 0
      then case gm_load ts a of
        None \<Rightarrow> ts
      | Some states \<Rightarrow>
          let states' = gm_delete key states
          in if length states' = 0 then gm_delete a ts else gm_store a states' ts
      else gm_store a (gm_store key prevalue (case gm_load ts a of None \<Rightarrow> [] | Some states \<Rightarrow> states)) ts)"

fun undo_temp :: "journalEntry \<Rightarrow> TemporaryState \<Rightarrow> TemporaryState eres" where
  "undo_temp (AccountStatusChange a prev) t =
     Inr (t\<lparr>ts_transientAccounts :=
       (case prev of None \<Rightarrow> gm_delete a (ts_transientAccounts t) | Some st \<Rightarrow> gm_store a st (ts_transientAccounts t))\<rparr>)"
| "undo_temp AddLogChange t =
     (if ts_logs t = [] then Inl SliceBounds else Inr (t\<lparr>ts_logs := butlast (ts_logs t)\<rparr>))"
| "undo_temp (RefundChange prev) t =
     Inr (t\<lparr>ts_transientModuleStates := gm_store GasRefundKey prev (ts_transientModuleStates t)\<rparr>)"
| "undo_temp (AccessListAddAccountChange a) t =
     Inr (t\<lparr>ts_accessLists := (ts_accessLists t)\<lparr>al_Addresses := gm_delete a (al_Addresses (ts_accessLists t))\<rparr>\<rparr>)"
| "undo_temp (AccessListAddSlotChange a slot) t =
     sum_bind (undo_slot a slot (ts_accessLists t)) (\<lambda>al. Inr (t\<lparr>ts_accessLists := al\<rparr>))"
| "undo_temp (TransientStorageChange a key prevalue) t =
     Inr (t\<lparr>ts_transientStates := undo_transient a key prevalue (ts_transientStates t)\<rparr>)"
| "undo_temp (StorageOverrideChange a key prev) t =
     Inr (case gm_load (ts_storageOverrides t) a of
        None \<Rightarrow> t
      | Some ov \<Rightarrow> t\<lparr>ts_storageOverrides := gm_store a (ov\<lparr>so_current := gm_store key prev (so_current ov)\<rparr>) (ts_storageOverrides t)\<rparr>)"
| "undo_temp (StorageOverrideRemove a prev) t =
     Inr (t\<lparr>ts_storageOverrides := gm_store a prev (ts_storageOverrides t)\<rparr>)"
| "undo_temp (StorageOverrideInstall a prev) t =
     Inr (t\<lparr>ts_storageOverrides :=
       (case prev of None \<Rightarrow> gm_delete a (ts_storageOverrides t) | Some ov \<Rightarrow> gm_store a ov (ts_storageOverrides t))\<rparr>)"
| "undo_temp (SurplusChange delta) t =
     sum_bind (lift_sdk (Int_Sub (ts_surplus t) delta)) (\<lambda>sp. Inr (t\<lparr>ts_surplus := sp\<rparr>))"
| "undo_temp (CodeCacheChange a prev had) t = Inr t"
| "undo_temp (Watermark v) t = Inr t"

fun undo_code :: "journalEntry \<Rightarrow> (eaddr, slice) gomap \<Rightarrow> (eaddr, slice) gomap" where
  "undo_code (CodeCacheChange a prev had) m = (if had then gm_store a prev m else gm_delete a m)"
| "undo_code _ m = m"

definition revert_entry :: "journalEntry \<Rightarrow> DBImpl \<Rightarrow> DBImpl eres" where
  "revert_entry e s =
     sum_bind (undo_temp e (sdb_temp s)) (\<lambda>t.
       Inr (s\<lparr>sdb_temp := t, sdb_codeCache := map_option (undo_code e) (sdb_codeCache s)\<rparr>))"

text \<open>The loop of \<open>RevertToSnapshot\<close> over the journal, the newest entry first: the journal is cut at the watermark of
  the snapshot, and kept when there is none.\<close>

fun revert_journal :: "nat \<Rightarrow> journalEntry list \<Rightarrow> DBImpl \<Rightarrow> DBImpl eres" where
  "revert_journal version [] s = Inr s"
| "revert_journal version (e # older) s =
     sum_bind (revert_entry e s) (\<lambda>s1.
       if e = Watermark version then Inr (s1\<lparr>sdb_journal := rev older\<rparr>)
       else revert_journal version older s1)"

definition sdb_RevertToSnapshot :: "nat \<Rightarrow> DBImpl \<Rightarrow> DBImpl eres" where
  "sdb_RevertToSnapshot version s =
     (if version \<ge> length (sdb_snapshottedCtxs s) then Inl InvalidRevision
      else revert_journal version (rev (sdb_journal s))
        (s\<lparr>sdb_ctx := sdb_snapshottedCtxs s ! version,
           sdb_snapshottedCtxs := take version (sdb_snapshottedCtxs s)\<rparr>))"

subsection \<open>Storage\<close>

definition GetCommittedState :: "DBImpl \<Rightarrow> eaddr \<Rightarrow> hash \<Rightarrow> hash eres" where
  "GetCommittedState s addr key =
     (case gm_load (ts_storageOverrides (sdb_temp s)) addr of
        Some ov \<Rightarrow> Inr (case gm_load (so_committed ov) key of None \<Rightarrow> 0 | Some v \<Rightarrow> v)
      | None \<Rightarrow>
          (case sdb_snapshottedCtxs s of
             [] \<Rightarrow> Inl NoSnapshot
           | base # _ \<Rightarrow> Inr (kp_GetState base addr key)))"

definition sdb_GetState :: "DBImpl \<Rightarrow> eaddr \<Rightarrow> hash \<Rightarrow> hash" where
  "sdb_GetState s addr key =
     (case gm_load (ts_storageOverrides (sdb_temp s)) addr of
        Some ov \<Rightarrow> (case gm_load (so_current ov) key of None \<Rightarrow> 0 | Some v \<Rightarrow> v)
      | None \<Rightarrow> kp_GetState (sdb_ctx s) addr key)"

definition setOverrideState :: "storageOverride \<Rightarrow> eaddr \<Rightarrow> hash \<Rightarrow> hash \<Rightarrow> DBImpl \<Rightarrow> hash \<times> DBImpl" where
  "setOverrideState ov addr key val s =
     (let old = (case gm_load (so_current ov) key of None \<Rightarrow> 0 | Some v \<Rightarrow> v);
          t = sdb_temp s
      in (old, set_temp
            (t\<lparr>ts_storageOverrides := gm_store addr (ov\<lparr>so_current := gm_store key val (so_current ov)\<rparr>) (ts_storageOverrides t)\<rparr>)
            (journal_append (StorageOverrideChange addr key old) s)))"

definition sdb_SetState :: "eaddr \<Rightarrow> hash \<Rightarrow> hash \<Rightarrow> DBImpl \<Rightarrow> hash \<times> DBImpl" where
  "sdb_SetState addr key val s =
     (case gm_load (ts_storageOverrides (sdb_temp s)) addr of
        Some ov \<Rightarrow> setOverrideState ov addr key val s
      | None \<Rightarrow> (sdb_GetState s addr key, set_ctx (kp_SetState addr key val (sdb_ctx s)) s))"

definition SetStorage :: "eaddr \<Rightarrow> (hash, hash) gomap \<Rightarrow> DBImpl \<Rightarrow> DBImpl" where
  "SetStorage addr states s =
     (let t = sdb_temp s;
          prev = gm_load (ts_storageOverrides t) addr;
          m = fold (\<lambda>(k, v). gm_store k v) states []
      in journal_append (StorageOverrideInstall addr prev)
           (set_temp (t\<lparr>ts_storageOverrides := gm_store addr \<lparr>so_committed = m, so_current = m\<rparr> (ts_storageOverrides t)\<rparr>) s))"

definition getTransientState :: "DBImpl \<Rightarrow> eaddr \<Rightarrow> hash \<Rightarrow> hash option" where
  "getTransientState s addr key =
     (case gm_load (ts_transientStates (sdb_temp s)) addr of None \<Rightarrow> None | Some m \<Rightarrow> gm_load m key)"

definition GetTransientState :: "DBImpl \<Rightarrow> eaddr \<Rightarrow> hash \<Rightarrow> hash" where
  "GetTransientState s addr key = (case getTransientState s addr key of None \<Rightarrow> 0 | Some v \<Rightarrow> v)"

definition SetTransientState :: "eaddr \<Rightarrow> hash \<Rightarrow> hash \<Rightarrow> DBImpl \<Rightarrow> DBImpl" where
  "SetTransientState addr key val s =
     (let t = sdb_temp s;
          st = (case gm_load (ts_transientStates t) addr of None \<Rightarrow> [] | Some m \<Rightarrow> m);
          prev = (case gm_load st key of None \<Rightarrow> 0 | Some v \<Rightarrow> v)
      in journal_append (TransientStorageChange addr key prev)
           (set_temp (t\<lparr>ts_transientStates := gm_store addr (gm_store key val st) (ts_transientStates t)\<rparr>) s))"

subsection \<open>Account status, logs, refunds and nonces\<close>

definition MarkAccount :: "eaddr \<Rightarrow> bytes \<Rightarrow> DBImpl \<Rightarrow> DBImpl" where
  "MarkAccount acc status s =
     (let t = sdb_temp s
      in journal_append (AccountStatusChange acc (gm_load (ts_transientAccounts t) acc))
           (set_temp (t\<lparr>ts_transientAccounts := gm_store acc status (ts_transientAccounts t)\<rparr>) s))"

definition Created :: "DBImpl \<Rightarrow> eaddr \<Rightarrow> bool" where
  "Created s acc \<longleftrightarrow> gm_load (ts_transientAccounts (sdb_temp s)) acc = Some AccountCreated"

definition HasSelfDestructed :: "DBImpl \<Rightarrow> eaddr \<Rightarrow> bool" where
  "HasSelfDestructed s acc \<longleftrightarrow> gm_load (ts_transientAccounts (sdb_temp s)) acc = Some AccountDeleted"

definition CreateContract :: "eaddr \<Rightarrow> DBImpl \<Rightarrow> DBImpl" where
  "CreateContract acc s = MarkAccount acc AccountCreated s"

definition AddLog :: "log \<Rightarrow> DBImpl \<Rightarrow> DBImpl" where
  "AddLog l s =
     (let t = sdb_temp s
      in journal_append AddLogChange
           (set_temp (t\<lparr>ts_logs := ts_logs t @ [l\<lparr>log_Index := length (ts_logs t)\<rparr>]\<rparr>) s))"

definition GetRefund :: "DBImpl \<Rightarrow> 64 word" where
  "GetRefund s = (case gm_load (ts_transientModuleStates (sdb_temp s)) GasRefundKey of None \<Rightarrow> 0 | Some r \<Rightarrow> r)"

definition set_refund :: "64 word \<Rightarrow> DBImpl \<Rightarrow> DBImpl" where
  "set_refund r s =
     (let t = sdb_temp s
      in set_temp (t\<lparr>ts_transientModuleStates := gm_store GasRefundKey r (ts_transientModuleStates t)\<rparr>) s)"

definition AddRefund :: "64 word \<Rightarrow> DBImpl \<Rightarrow> DBImpl" where
  "AddRefund gas s = journal_append (RefundChange (GetRefund s)) (set_refund (GetRefund s + gas) s)"

definition SubRefund :: "64 word \<Rightarrow> DBImpl \<Rightarrow> DBImpl eres" where
  "SubRefund gas s =
     (if gas > GetRefund s then Inl RefundBelowZero
      else Inr (journal_append (RefundChange (GetRefund s)) (set_refund (GetRefund s - gas) s)))"

definition sdb_GetNonce :: "DBImpl \<Rightarrow> eaddr \<Rightarrow> 64 word" where
  "sdb_GetNonce s addr = kp_GetNonce (sdb_ctx s) addr"

definition sdb_SetNonce :: "eaddr \<Rightarrow> 64 word \<Rightarrow> DBImpl \<Rightarrow> DBImpl" where
  "sdb_SetNonce addr nonce s = set_ctx (kp_SetNonce addr nonce (sdb_ctx s)) s"

subsection \<open>Access lists\<close>

definition AddressInAccessList :: "DBImpl \<Rightarrow> eaddr \<Rightarrow> bool" where
  "AddressInAccessList s addr \<longleftrightarrow> gm_load (al_Addresses (ts_accessLists (sdb_temp s))) addr \<noteq> None"

definition SlotInAccessList :: "DBImpl \<Rightarrow> eaddr \<Rightarrow> hash \<Rightarrow> (bool \<times> bool) eres" where
  "SlotInAccessList s addr slot =
     (let al = ts_accessLists (sdb_temp s) in
      case gm_load (al_Addresses al) addr of
        None \<Rightarrow> Inr (False, False)
      | Some idx \<Rightarrow>
          if idx \<noteq> -1 then sum_bind (slots_at al idx) (\<lambda>slots. Inr (True, slot \<in> set slots)) else Inr (True, False))"

definition set_accessList :: "accessList \<Rightarrow> DBImpl \<Rightarrow> DBImpl" where
  "set_accessList al s = set_temp ((sdb_temp s)\<lparr>ts_accessLists := al\<rparr>) s"

definition AddAddressToAccessList :: "eaddr \<Rightarrow> DBImpl \<Rightarrow> DBImpl" where
  "AddAddressToAccessList addr s =
     (let al = ts_accessLists (sdb_temp s) in
      if gm_load (al_Addresses al) addr \<noteq> None then s
      else journal_append (AccessListAddAccountChange addr)
             (set_accessList (al\<lparr>al_Addresses := gm_store addr (-1) (al_Addresses al)\<rparr>) s))"

definition new_slots :: "eaddr \<Rightarrow> hash \<Rightarrow> DBImpl \<Rightarrow> DBImpl" where
  "new_slots addr slot s =
     (let al = ts_accessLists (sdb_temp s) in
      journal_append (AccessListAddSlotChange addr slot)
        (set_accessList \<lparr>al_Addresses = gm_store addr (int (length (al_Slots al))) (al_Addresses al),
                         al_Slots = al_Slots al @ [[slot]]\<rparr> s))"

definition AddSlotToAccessList :: "eaddr \<Rightarrow> hash \<Rightarrow> DBImpl \<Rightarrow> DBImpl eres" where
  "AddSlotToAccessList addr slot s =
     (let al = ts_accessLists (sdb_temp s) in
      case gm_load (al_Addresses al) addr of
        None \<Rightarrow> Inr (new_slots addr slot (AddAddressToAccessList addr s))
      | Some idx \<Rightarrow>
          if idx = -1 then Inr (new_slots addr slot s)
          else sum_bind (slots_at al idx) (\<lambda>slotmap.
            if slot \<in> set slotmap then Inr s
            else Inr (journal_append (AccessListAddSlotChange addr slot)
                   (set_accessList (al\<lparr>al_Slots := (al_Slots al)[nat idx := slot # slotmap]\<rparr>) s))))"

definition CustomPrecompileStartingAddr :: eaddr where
  "CustomPrecompileStartingAddr = replicate 18 (CHR 0x00) @ [CHR 0x10, CHR 0x01]"

definition skips_precompile :: "evm_env \<Rightarrow> eaddr \<Rightarrow> bool" where
  "skips_precompile env addr \<longleftrightarrow>
     CustomPrecompileStartingAddr \<le> addr \<and>
     (\<not> ee_IsTracing env \<or> ee_ChainID env \<noteq> ''pacific-1'' \<or> 94496767 \<le> ee_BlockHeight env)"

definition Prepare :: "evm_env \<Rightarrow> eaddr \<Rightarrow> eaddr \<Rightarrow> eaddr option \<Rightarrow> eaddr list \<Rightarrow> (eaddr \<times> hash list) list \<Rightarrow> DBImpl \<Rightarrow> DBImpl eres" where
  "Prepare env sender coinbase dest precompiles txAccesses s =
     (let s1 = AddAddressToAccessList sender (snd (sdb_Snapshot s));
          s2 = (case dest of None \<Rightarrow> s1 | Some d \<Rightarrow> AddAddressToAccessList d s1);
          s3 = fold AddAddressToAccessList (filter (\<lambda>addr. \<not> skips_precompile env addr) precompiles) s2
      in sum_bind
           (each (\<lambda>(addr, keys) s'. each (AddSlotToAccessList addr) keys (AddAddressToAccessList addr s')) txAccesses s3)
           (\<lambda>s4. Inr (AddAddressToAccessList coinbase s4)))"

end
