(* ===== verification/EvmOps.thy ===== *)
theory EvmOps
  imports EvmState
begin

text \<open>
  The operations of the state database that read or write the bank and the code of accounts: \<open>balance.go\<close>,
  \<open>code.go\<close>, \<open>check.go\<close>, \<open>transfer.go\<close>, the life cycle of accounts in \<open>state.go\<close> and the end of a transaction in
  \<open>statedb.go\<close>, all in \<open>src/x/evm/state\<close>. The datatype \<open>sdb_op\<close> lists the calls of the EVM and of the precompiles that
  change the state, so that a transaction is a list of them.

  Amounts of the EVM are unsigned 256-bit words, so the branches for a negative amount are never taken. The hooks
  that give test accounts a balance do nothing in a production build, and the tracing hooks and events are left out.
\<close>

subsection \<open>Balances\<close>

definition UseiToSweiMultiplier :: int where
  "UseiToSweiMultiplier = 1000000000000"

definition sdb_SplitUseiWeiAmount :: "int \<Rightarrow> (int \<times> int) eres" where
  "sdb_SplitUseiWeiAmount amount =
     (let wei = amount mod UseiToSweiMultiplier; usei = amount sdiv UseiToSweiMultiplier in
      sum_bind (lift_sdk (NewIntFromBigInt usei)) (\<lambda>u.
      sum_bind (lift_sdk (NewIntFromBigInt wei)) (\<lambda>w. Inr (u, w))))"

definition sdb_getSeiAddress :: "DBImpl \<Rightarrow> eaddr \<Rightarrow> addr" where
  "sdb_getSeiAddress s evmAddr =
     (if sdb_coinbaseEvmAddress s = evmAddr then sdb_coinbaseAddress s
      else GetSeiAddressOrDefault (sdb_ctx s) evmAddr)"

definition base_coins :: "int \<Rightarrow> Coins eres" where
  "base_coins usei = sum_bind (lift_sdk (NewCoin BaseDenom usei)) (\<lambda>c. lift_sdk (NewCoins [c]))"

definition set_err :: "bank_error \<Rightarrow> DBImpl \<Rightarrow> DBImpl" where
  "set_err e s = s\<lparr>sdb_err := Some e\<rparr>"

definition add_surplus :: "int \<Rightarrow> DBImpl \<Rightarrow> DBImpl eres" where
  "add_surplus surplus s =
     sum_bind (lift_sdk (Int_Add (ts_surplus (sdb_temp s)) surplus)) (\<lambda>sp.
       Inr (journal_append (SurplusChange surplus) (set_temp ((sdb_temp s)\<lparr>ts_surplus := sp\<rparr>) s)))"

definition SubBalance :: "evm_env \<Rightarrow> eaddr \<Rightarrow> 256 word \<Rightarrow> DBImpl \<Rightarrow> DBImpl eres" where
  "SubBalance env evmAddr amtUint256 s =
     (let amt = uint amtUint256; addr = sdb_getSeiAddress s evmAddr; benv = evm_bank_env env (sdb_ctx s) in
      if amt = 0 then Inr s
      else
        sum_bind (sdb_SplitUseiWeiAmount amt) (\<lambda>(usei, wei).
        sum_bind (base_coins usei) (\<lambda>coins.
        sum_bind (on_bank (SubUnlockedCoins benv addr coins True (ew_bank (sdb_ctx s)))) (\<lambda>r1.
          case r1 of
            Inl e \<Rightarrow> Inr (set_err e s)
          | Inr b1 \<Rightarrow>
              sum_bind (on_bank (SubWei benv addr wei b1)) (\<lambda>r2.
                case r2 of
                  Inl e \<Rightarrow> Inr (set_err e (set_bank b1 s))
                | Inr b2 \<Rightarrow>
                    sum_bind (lift_sdk (NewIntFromBigInt amt)) (\<lambda>surplus. add_surplus surplus (set_bank b2 s)))))))"

definition AddBalance :: "evm_env \<Rightarrow> eaddr \<Rightarrow> 256 word \<Rightarrow> DBImpl \<Rightarrow> DBImpl eres" where
  "AddBalance env evmAddr amtUint256 s =
     (let amt = uint amtUint256; addr = sdb_getSeiAddress s evmAddr; benv = evm_bank_env env (sdb_ctx s) in
      if amt = 0 then Inr s
      else
        sum_bind (sdb_SplitUseiWeiAmount amt) (\<lambda>(usei, wei).
        sum_bind (base_coins usei) (\<lambda>coins.
        sum_bind (on_bank (AddCoins benv addr coins True (ew_bank (sdb_ctx s)))) (\<lambda>r1.
          case r1 of
            Inl e \<Rightarrow> Inr (set_err e s)
          | Inr b1 \<Rightarrow>
              sum_bind (on_bank (AddWei benv addr wei b1)) (\<lambda>r2.
                case r2 of
                  Inl e \<Rightarrow> Inr (set_err e (set_bank b1 s))
                | Inr b2 \<Rightarrow>
                    sum_bind (lift_sdk (NewIntFromBigInt amt)) (\<lambda>surplus. add_surplus (Int_Neg surplus) (set_bank b2 s)))))))"

definition sdb_GetBalance :: "evm_env \<Rightarrow> DBImpl \<Rightarrow> eaddr \<Rightarrow> 256 word eres" where
  "sdb_GetBalance env s evmAddr =
     sum_bind (kp_GetBalance env (sdb_ctx s) (sdb_getSeiAddress s evmAddr)) (\<lambda>b.
       let (res, overflow) = ee_FromBig env b in if overflow then Inl BalanceOverflow else Inr res)"

definition sdb_send :: "evm_env \<Rightarrow> addr \<Rightarrow> addr \<Rightarrow> int \<Rightarrow> DBImpl \<Rightarrow> DBImpl eres" where
  "sdb_send env fromAddr toAddr amount s =
     sum_bind (sdb_SplitUseiWeiAmount amount) (\<lambda>(usei, wei).
     sum_bind (on_bank (SendCoinsAndWei (evm_bank_env env (sdb_ctx s)) fromAddr toAddr usei wei (ew_bank (sdb_ctx s)))) (\<lambda>r.
       case r of Inl e \<Rightarrow> Inr (set_err e s) | Inr b \<Rightarrow> Inr (set_bank b s)))"

definition raise_err :: "DBImpl \<Rightarrow> DBImpl eres" where
  "raise_err s = (case sdb_err s of Some e \<Rightarrow> Inl (EvmBankError e) | None \<Rightarrow> Inr s)"

text \<open>\<open>SetBalance\<close> panics on every error, so what a failed transfer leaves in the stores is never seen.\<close>

definition SetBalance :: "evm_env \<Rightarrow> eaddr \<Rightarrow> 256 word \<Rightarrow> DBImpl \<Rightarrow> DBImpl eres" where
  "SetBalance env evmAddr amtUint256 s =
     (if \<not> sdb_simulation s then Inl NotInSimulation
      else
        let amt = uint amtUint256; seiAddr = sdb_getSeiAddress s evmAddr;
            moduleAddr = (case GetModuleAddress (be_permAddrs (ee_bank env)) ''evm'' of None \<Rightarrow> [] | Some a \<Rightarrow> a) in
        sum_bind (sdb_GetBalance env s evmAddr) (\<lambda>old.
        sum_bind (sdb_send env seiAddr moduleAddr (uint old) s) (\<lambda>s1.
        sum_bind (raise_err s1) (\<lambda>s2.
        sum_bind (sdb_SplitUseiWeiAmount amt) (\<lambda>(usei, wei).
        sum_bind (lift_sdk (Int_Add usei 1)) (\<lambda>minted.
        sum_bind (base_coins minted) (\<lambda>coinsAmt.
        sum_bind (must_bank (MintCoins (evm_bank_env env (sdb_ctx s2)) ''evm'' coinsAmt (ew_bank (sdb_ctx s2)))) (\<lambda>b.
        sum_bind (sdb_send env moduleAddr seiAddr amt (set_bank b s2)) raise_err))))))))"

definition TransferWithoutEvents :: "evm_env \<Rightarrow> eaddr \<Rightarrow> eaddr \<Rightarrow> 256 word \<Rightarrow> DBImpl \<Rightarrow> DBImpl eres" where
  "TransferWithoutEvents env sender recipient amount s =
     sum_bind (SubBalance env sender amount s) (AddBalance env recipient amount)"

subsection \<open>Code\<close>

definition sdb_GetCodeHash :: "evm_env \<Rightarrow> DBImpl \<Rightarrow> eaddr \<Rightarrow> hash eres" where
  "sdb_GetCodeHash env s addr = kp_GetCodeHash env (sdb_ctx s) addr"

definition journalCodeCacheMutation :: "eaddr \<Rightarrow> DBImpl \<Rightarrow> DBImpl" where
  "journalCodeCacheMutation addr s =
     (case sdb_codeCache s of
        None \<Rightarrow> s
      | Some m \<Rightarrow>
          (case gm_load m addr of
             None \<Rightarrow> journal_append (CodeCacheChange addr None False) s
           | Some prev \<Rightarrow> journal_append (CodeCacheChange addr prev True) s))"

definition putCodeCache :: "eaddr \<Rightarrow> slice \<Rightarrow> DBImpl \<Rightarrow> DBImpl" where
  "putCodeCache addr code s =
     (case sdb_codeCache s of
        None \<Rightarrow> s
      | Some m \<Rightarrow>
          if length (slice_bytes code) = 0 then s\<lparr>sdb_codeCache := Some (gm_store addr None m)\<rparr>
          else s\<lparr>sdb_codeCache := Some (gm_store addr code m)\<rparr>)"

definition sdb_GetCode :: "eaddr \<Rightarrow> DBImpl \<Rightarrow> slice \<times> DBImpl" where
  "sdb_GetCode addr s =
     (case sdb_codeCache s of
        None \<Rightarrow> (kp_GetCode (sdb_ctx s) addr, s)
      | Some m \<Rightarrow>
          (case gm_load m addr of
             Some code \<Rightarrow> (code, s)
           | None \<Rightarrow>
               let code = kp_GetCode (sdb_ctx s) addr in
               if length (slice_bytes code) = 0
               then (None, s\<lparr>sdb_codeCache := Some (gm_store addr None m)\<rparr>)
               else (code, putCodeCache addr code s)))"

definition RefreshCodeCache :: "eaddr \<Rightarrow> slice \<Rightarrow> DBImpl \<Rightarrow> DBImpl" where
  "RefreshCodeCache addr code s = putCodeCache addr code (journalCodeCacheMutation addr s)"

definition sdb_SetCode :: "evm_env \<Rightarrow> eaddr \<Rightarrow> slice \<Rightarrow> DBImpl \<Rightarrow> slice \<times> DBImpl" where
  "sdb_SetCode env addr code s =
     (let (oldCode, s1) = sdb_GetCode addr s;
          s2 = set_ctx (kp_SetCode env addr code (sdb_ctx s1)) s1
      in (oldCode, putCodeCache addr code (journalCodeCacheMutation addr s2)))"

definition sdb_GetCodeSize :: "DBImpl \<Rightarrow> eaddr \<Rightarrow> 64 word" where
  "sdb_GetCodeSize s addr = kp_GetCodeSize (sdb_ctx s) addr"

subsection \<open>Accounts\<close>

definition Exist :: "evm_env \<Rightarrow> DBImpl \<Rightarrow> eaddr \<Rightarrow> bool eres" where
  "Exist env s addr =
     sum_bind (sdb_GetCodeHash env s addr) (\<lambda>codeHash.
       if codeHash \<noteq> 0 then Inr True
       else if sdb_GetNonce s addr > 0 then Inr True
       else sum_bind (sdb_GetBalance env s addr) (\<lambda>b.
         if b > 0 then Inr True else Inr (HasSelfDestructed s addr)))"

definition Empty :: "evm_env \<Rightarrow> DBImpl \<Rightarrow> eaddr \<Rightarrow> bool eres" where
  "Empty env s addr =
     sum_bind (sdb_GetBalance env s addr) (\<lambda>b.
       if b = 0 \<and> sdb_GetNonce s addr = 0
       then sum_bind (sdb_GetCodeHash env s addr) (\<lambda>codeHash. Inr (codeHash = 0))
       else Inr False)"

definition deleteIfExists :: "eaddr \<Rightarrow> (eaddr, 'v) gomap \<Rightarrow> bool \<times> (eaddr, 'v) gomap" where
  "deleteIfExists key store = (if gm_load store key \<noteq> None then (True, gm_delete key store) else (False, store))"

definition clearAccountCodeAndNonce :: "eaddr \<Rightarrow> DBImpl \<Rightarrow> DBImpl" where
  "clearAccountCodeAndNonce acc s =
     (let w = sdb_ctx s;
          s1 = set_ctx (w\<lparr>ew_code := snd (deleteIfExists acc (ew_code w)),
                          ew_codeSize := snd (deleteIfExists acc (ew_codeSize w)),
                          ew_nonce := snd (deleteIfExists acc (ew_nonce w))\<rparr>) s;
          s2 = journalCodeCacheMutation acc s1
      in (case sdb_codeCache s2 of None \<Rightarrow> s2 | Some m \<Rightarrow> s2\<lparr>sdb_codeCache := Some (gm_delete acc m)\<rparr>))"

definition clearAccountState :: "eaddr \<Rightarrow> DBImpl \<Rightarrow> DBImpl" where
  "clearAccountState acc s =
     (let t = sdb_temp s;
          s1 = (case gm_load (ts_storageOverrides t) acc of
                  None \<Rightarrow> s
                | Some ov \<Rightarrow>
                    set_temp (t\<lparr>ts_storageOverrides := gm_delete acc (ts_storageOverrides t)\<rparr>)
                      (journal_append (StorageOverrideRemove acc ov) s));
          w = sdb_ctx s1;
          (existed, hashes) = deleteIfExists acc (ew_codeHash w)
      in if existed
         then clearAccountCodeAndNonce acc (set_ctx (PurgeState acc (w\<lparr>ew_codeHash := hashes\<rparr>)) s1)
         else s1)"

definition CreateAccount :: "evm_env \<Rightarrow> eaddr \<Rightarrow> DBImpl \<Rightarrow> DBImpl" where
  "CreateAccount env acc s =
     MarkAccount acc AccountCreated (if \<not> ee_IsTracing env then clearAccountState acc s else s)"

definition SelfDestruct :: "evm_env \<Rightarrow> eaddr \<Rightarrow> DBImpl \<Rightarrow> (256 word \<times> DBImpl) eres" where
  "SelfDestruct env acc s =
     (let s1 = (case GetSeiAddress (sdb_ctx s) acc of
                  None \<Rightarrow> s
                | Some seiAddr \<Rightarrow> set_ctx (DeleteAddressMapping seiAddr acc (sdb_ctx s)) s)
      in sum_bind (sdb_GetBalance env s1 acc) (\<lambda>b.
         sum_bind (SubBalance env acc b s1) (\<lambda>s2. Inr (b, MarkAccount acc AccountDeleted s2))))"

definition SelfDestruct6780 :: "evm_env \<Rightarrow> eaddr \<Rightarrow> DBImpl \<Rightarrow> ((256 word \<times> bool) \<times> DBImpl) eres" where
  "SelfDestruct6780 env acc s =
     (if Created s acc then sum_bind (SelfDestruct env acc s) (\<lambda>(b, s'). Inr ((b, True), s'))
      else Inr ((0, False), s))"

subsection \<open>The end of a transaction\<close>

text \<open>The loops go over the marks of the accounts; Go visits them in any order, the model in the order in which they
  were set.\<close>

definition handle_residual :: "evm_env \<Rightarrow> eaddr \<times> bytes \<Rightarrow> DBImpl \<Rightarrow> DBImpl eres" where
  "handle_residual env x s =
     (let (acc, status) = x in
      if status \<noteq> AccountDeleted then Inr s
      else
        sum_bind (sdb_GetBalance env s acc) (\<lambda>residual.
          if residual = 0 then Inr s
          else sum_bind (SubBalance env acc residual s) (AddBalance env (sdb_coinbaseEvmAddress s) residual)))"

definition handleResidualFundsInDestructedAccounts :: "evm_env \<Rightarrow> DBImpl \<Rightarrow> DBImpl eres" where
  "handleResidualFundsInDestructedAccounts env s = each (handle_residual env) (ts_transientAccounts (sdb_temp s)) s"

definition clearAccountStateIfDestructed :: "DBImpl \<Rightarrow> DBImpl" where
  "clearAccountStateIfDestructed s =
     fold (\<lambda>(acc, status) s'. if status \<noteq> AccountDeleted then s' else clearAccountState acc s')
       (ts_transientAccounts (sdb_temp s)) s"

text \<open>Writing every branch into the one below, down to the base, makes all of them show what the newest showed.\<close>

definition flushCtxs :: "DBImpl \<Rightarrow> DBImpl" where
  "flushCtxs s = s\<lparr>sdb_snapshottedCtxs := map (\<lambda>_. sdb_ctx s) (sdb_snapshottedCtxs s)\<rparr>"

definition Finalize :: "evm_env \<Rightarrow> DBImpl \<Rightarrow> ((bank_error + int) \<times> DBImpl) eres" where
  "Finalize env s =
     (if sdb_simulation s then Inl FinalizeSimulation
      else case sdb_err s of
        Some e \<Rightarrow> Inr (Inl e, s)
      | None \<Rightarrow>
          sum_bind (handleResidualFundsInDestructedAccounts env s) (\<lambda>s1.
            let s2 = flushCtxs (clearAccountStateIfDestructed s1)
            in Inr (Inr (ts_surplus (sdb_temp s2)), s2)))"

definition CleanupForTracer :: "eaddr \<Rightarrow> DBImpl \<Rightarrow> DBImpl" where
  "CleanupForTracer feeCollector s =
     (let s1 = flushCtxs s;
          s2 = (case sdb_snapshottedCtxs s1 of [] \<Rightarrow> s1 | base # _ \<Rightarrow> set_ctx base s1)
      in snd (sdb_Snapshot (s2\<lparr>sdb_coinbaseEvmAddress := feeCollector, sdb_temp := NewTemporaryState, sdb_journal := [],
           sdb_snapshottedCtxs := [], sdb_codeCache := map_option (\<lambda>_. []) (sdb_codeCache s2)\<rparr>)))"

definition ResetForTracer :: "eaddr \<Rightarrow> DBImpl \<Rightarrow> DBImpl" where
  "ResetForTracer feeCollector s =
     snd (sdb_Snapshot (s\<lparr>sdb_coinbaseEvmAddress := feeCollector, sdb_temp := NewTemporaryState, sdb_journal := [],
       sdb_codeCache := map_option (\<lambda>_. []) (sdb_codeCache s)\<rparr>))"

definition sdb_Copy :: "DBImpl \<Rightarrow> DBImpl" where
  "sdb_Copy s =
     s\<lparr>sdb_snapshottedCtxs := sdb_snapshottedCtxs s @ [sdb_ctx s],
       sdb_codeCache := map_option (\<lambda>_. []) (sdb_codeCache s)\<rparr>"

subsection \<open>Transactions as lists of calls\<close>

text \<open>An upgrade of a pointer contract writes the code through the keeper and then refreshes the memo.\<close>

definition upgrade_code :: "evm_env \<Rightarrow> eaddr \<Rightarrow> slice \<Rightarrow> DBImpl \<Rightarrow> DBImpl" where
  "upgrade_code env contractAddr ret s =
     RefreshCodeCache contractAddr ret (set_ctx (kp_SetCode env contractAddr ret (sdb_ctx s)) s)"

datatype sdb_op =
    OpSnapshot
  | OpRevertToSnapshot nat
  | OpPrepare eaddr eaddr "eaddr option" "eaddr list" "(eaddr \<times> hash list) list"
  | OpSubBalance eaddr "256 word"
  | OpAddBalance eaddr "256 word"
  | OpTransfer eaddr eaddr "256 word"
  | OpSetState eaddr hash hash
  | OpSetStorage eaddr "(hash, hash) gomap"
  | OpSetTransientState eaddr hash hash
  | OpSetNonce eaddr "64 word"
  | OpGetCode eaddr
  | OpSetCode eaddr slice
  | OpUpgradeCode eaddr slice
  | OpAddLog log
  | OpAddRefund "64 word"
  | OpSubRefund "64 word"
  | OpAddAddress eaddr
  | OpAddSlot eaddr hash
  | OpCreateAccount eaddr
  | OpCreateContract eaddr
  | OpSelfDestruct eaddr
  | OpSelfDestruct6780 eaddr

fun sdb_exec :: "evm_env \<Rightarrow> sdb_op \<Rightarrow> DBImpl \<Rightarrow> DBImpl eres" where
  "sdb_exec env OpSnapshot s = Inr (snd (sdb_Snapshot s))"
| "sdb_exec env (OpRevertToSnapshot version) s = sdb_RevertToSnapshot version s"
| "sdb_exec env (OpPrepare sender coinbase dest precompiles txAccesses) s = Prepare env sender coinbase dest precompiles txAccesses s"
| "sdb_exec env (OpSubBalance a x) s = SubBalance env a x s"
| "sdb_exec env (OpAddBalance a x) s = AddBalance env a x s"
| "sdb_exec env (OpTransfer a b x) s = TransferWithoutEvents env a b x s"
| "sdb_exec env (OpSetState a key val) s = Inr (snd (sdb_SetState a key val s))"
| "sdb_exec env (OpSetStorage a states) s = Inr (SetStorage a states s)"
| "sdb_exec env (OpSetTransientState a key val) s = Inr (SetTransientState a key val s)"
| "sdb_exec env (OpSetNonce a n) s = Inr (sdb_SetNonce a n s)"
| "sdb_exec env (OpGetCode a) s = Inr (snd (sdb_GetCode a s))"
| "sdb_exec env (OpSetCode a code) s = Inr (snd (sdb_SetCode env a code s))"
| "sdb_exec env (OpUpgradeCode a code) s = Inr (upgrade_code env a code s)"
| "sdb_exec env (OpAddLog l) s = Inr (AddLog l s)"
| "sdb_exec env (OpAddRefund gas) s = Inr (AddRefund gas s)"
| "sdb_exec env (OpSubRefund gas) s = SubRefund gas s"
| "sdb_exec env (OpAddAddress a) s = Inr (AddAddressToAccessList a s)"
| "sdb_exec env (OpAddSlot a slot) s = AddSlotToAccessList a slot s"
| "sdb_exec env (OpCreateAccount a) s = Inr (CreateAccount env a s)"
| "sdb_exec env (OpCreateContract a) s = Inr (CreateContract a s)"
| "sdb_exec env (OpSelfDestruct a) s = sum_bind (SelfDestruct env a s) (\<lambda>(_, s'). Inr s')"
| "sdb_exec env (OpSelfDestruct6780 a) s = sum_bind (SelfDestruct6780 env a s) (\<lambda>(_, s'). Inr s')"

end
