(* ===== verification/EvmJournal.thy ===== *)
theory EvmJournal
  imports EvmOps
begin

text \<open>
  The journal of the state database undoes what it records. What the queries can see of the temporary state is the
  record \<open>seen\<close>; every journal entry acts on it (\<open>undo_seen\<close>), and every operation appends entries that lead back
  from the state it leaves to the state it found (\<open>extends\<close>).
\<close>

subsection \<open>Relations that follow the calls\<close>

text \<open>A relation between the states before and after, closed under composition, that holds for the basic operations, holds
  for the operations composed of them. It is interpreted on the effect on the journal, on the memo of code, and on the
  value in the bank.\<close>

locale call_order =
  fixes env :: evm_env
    and R :: "DBImpl \<Rightarrow> DBImpl \<Rightarrow> bool"
  assumes same: "R s s"
    and comp: "R s s1 \<Longrightarrow> R s1 s2 \<Longrightarrow> R s s2"
    and address: "R s (AddAddressToAccessList a s)"
    and slot: "AddSlotToAccessList a key s = Inr s' \<Longrightarrow> R s s'"
    and sub: "SubBalance env a x s = Inr s' \<Longrightarrow> R s s'"
    and add: "AddBalance env a x s = Inr s' \<Longrightarrow> R s s'"
    and mark: "R s (MarkAccount a st s)"
    and unmap: "R s (set_ctx (DeleteAddressMapping seiAddr a (sdb_ctx s)) s)"
begin

lemma over_each:
  assumes "\<And>x s s'. f x s = Inr s' \<Longrightarrow> R s s'" and "each f xs s = Inr s'"
  shows "R s s'"
  using assms(2)
proof (induction xs arbitrary: s)
  case (Cons x xs)
  then obtain s1 where "f x s = Inr s1" "each f xs s1 = Inr s'" by (auto simp: sum_bind_Inr_iff)
  then show ?case using Cons.IH assms(1) comp by blast
qed (simp add: same)

lemma over_fold: "(\<And>x s. R s (f x s)) \<Longrightarrow> R s (fold f xs s)"
  by (induction xs arbitrary: s) (auto intro: same comp)

lemma over_Prepare:
  assumes "Prepare env sender coinbase dest precompiles txAccesses s = Inr s'"
  shows "R (snd (sdb_Snapshot s)) s'"
proof -
  let ?s1 = "AddAddressToAccessList sender (snd (sdb_Snapshot s))"
  let ?s2 = "case dest of None \<Rightarrow> ?s1 | Some d \<Rightarrow> AddAddressToAccessList d ?s1"
  let ?s3 = "fold AddAddressToAccessList (filter (\<lambda>a. \<not> skips_precompile env a) precompiles) ?s2"
  let ?f = "\<lambda>(addr, keys) s'. each (AddSlotToAccessList addr) keys (AddAddressToAccessList addr s')"
  obtain s4 where s4: "each ?f txAccesses ?s3 = Inr s4" "s' = AddAddressToAccessList coinbase s4"
    using assms by (auto simp: Prepare_def Let_def sum_bind_Inr_iff)
  have "R ?s1 ?s2" by (simp add: same address split: option.split)
  then have s2: "R (snd (sdb_Snapshot s)) ?s2" by (rule comp [OF address])
  have "R ?s2 ?s3" by (rule over_fold) (rule address)
  then have s3: "R (snd (sdb_Snapshot s)) ?s3" by (rule comp [OF s2])
  have "R ?s3 s4"
    by (rule over_each [OF _ s4(1)]) (auto intro: comp [OF address] over_each [OF slot])
  then have "R (snd (sdb_Snapshot s)) s4" by (rule comp [OF s3])
  then show ?thesis unfolding s4(2) by (rule comp [OF _ address])
qed

lemma over_Transfer: "TransferWithoutEvents env a b x s = Inr s' \<Longrightarrow> R s s'"
  unfolding TransferWithoutEvents_def sum_bind_Inr_iff by (elim exE conjE) (rule comp [OF sub add])

lemma over_SelfDestruct:
  assumes "SelfDestruct env a s = Inr (b, s')"
  shows "R s s'"
proof -
  let ?s1 = "case GetSeiAddress (sdb_ctx s) a of None \<Rightarrow> s
    | Some seiAddr \<Rightarrow> set_ctx (DeleteAddressMapping seiAddr a (sdb_ctx s)) s"
  obtain s2 where s2: "SubBalance env a b ?s1 = Inr s2" "s' = MarkAccount a AccountDeleted s2"
    using assms unfolding SelfDestruct_def Let_def by (auto simp: sum_bind_Inr_iff)
  have "R s ?s1" by (simp add: same unmap split: option.split)
  then have "R s s2" by (rule comp [OF _ sub [OF s2(1)]])
  then show ?thesis unfolding s2(2) by (rule comp [OF _ mark])
qed

lemma over_SelfDestruct6780: "SelfDestruct6780 env a s = Inr (r, s') \<Longrightarrow> R s s'"
  by (auto simp: SelfDestruct6780_def sum_bind_Inr_iff same split: if_splits dest: over_SelfDestruct)

lemma over_residual: "handle_residual env x s = Inr s' \<Longrightarrow> R s s'"
  by (cases x) (auto simp: handle_residual_def sum_bind_Inr_iff same split: if_splits elim: comp [OF sub add])

lemma over_residuals: "handleResidualFundsInDestructedAccounts env s = Inr s' \<Longrightarrow> R s s'"
  unfolding handleResidualFundsInDestructedAccounts_def by (rule over_each [OF over_residual])

end

subsection \<open>What the queries see\<close>

record seen =
  v_logs :: "log list"
  v_transient :: "eaddr \<Rightarrow> hash \<Rightarrow> hash"
  v_accounts :: "eaddr \<Rightarrow> bytes option"
  v_refund :: "64 word"
  v_addresses :: "eaddr \<Rightarrow> int option"
  v_slots :: "hash set list"
  v_overrides :: "eaddr \<Rightarrow> ((hash \<Rightarrow> hash) \<times> (hash \<Rightarrow> hash)) option"
  v_surplus :: int

definition or_zero :: "('k \<Rightarrow> 'v option) \<Rightarrow> 'k \<Rightarrow> 'v :: zero" where
  "or_zero m k = (case m k of None \<Rightarrow> 0 | Some v \<Rightarrow> v)"

definition transient_of :: "(eaddr, (hash, hash) gomap) gomap \<Rightarrow> eaddr \<Rightarrow> hash \<Rightarrow> hash" where
  "transient_of ts a = (case gm_load ts a of None \<Rightarrow> (\<lambda>_. 0) | Some m \<Rightarrow> or_zero (gm_load m))"

definition override_of :: "storageOverride \<Rightarrow> (hash \<Rightarrow> hash) \<times> (hash \<Rightarrow> hash)" where
  "override_of ov = (or_zero (gm_load (so_committed ov)), or_zero (gm_load (so_current ov)))"

definition overrides_of :: "(eaddr, storageOverride) gomap \<Rightarrow> eaddr \<Rightarrow> ((hash \<Rightarrow> hash) \<times> (hash \<Rightarrow> hash)) option" where
  "overrides_of m a = map_option override_of (gm_load m a)"

definition see :: "TemporaryState \<Rightarrow> seen" where
  "see t =
     \<lparr>v_logs = ts_logs t, v_transient = transient_of (ts_transientStates t), v_accounts = gm_load (ts_transientAccounts t),
      v_refund = or_zero (gm_load (ts_transientModuleStates t)) GasRefundKey,
      v_addresses = gm_load (al_Addresses (ts_accessLists t)), v_slots = map set (al_Slots (ts_accessLists t)),
      v_overrides = overrides_of (ts_storageOverrides t), v_surplus = ts_surplus t\<rparr>"

definition undo_seen_slot :: "eaddr \<Rightarrow> hash \<Rightarrow> seen \<Rightarrow> seen eres" where
  "undo_seen_slot a slot v =
     (case v_addresses v a of
        None \<Rightarrow> Inr v
      | Some idx \<Rightarrow>
          if idx = -1 \<or> idx \<ge> int (length (v_slots v)) then Inr v
          else if idx < 0 then Inl SliceBounds
          else
            let i = nat idx; slots = v_slots v ! i - {slot} in
            if slots = {}
            then Inr (v\<lparr>v_addresses := (v_addresses v)(a \<mapsto> -1), v_slots := take i (v_slots v) @ drop (Suc i) (v_slots v)\<rparr>)
            else Inr (v\<lparr>v_slots := (v_slots v)[i := slots]\<rparr>))"

fun undo_seen :: "journalEntry \<Rightarrow> seen \<Rightarrow> seen eres" where
  "undo_seen (AccountStatusChange a prev) v = Inr (v\<lparr>v_accounts := (v_accounts v)(a := prev)\<rparr>)"
| "undo_seen AddLogChange v = (if v_logs v = [] then Inl SliceBounds else Inr (v\<lparr>v_logs := butlast (v_logs v)\<rparr>))"
| "undo_seen (RefundChange prev) v = Inr (v\<lparr>v_refund := prev\<rparr>)"
| "undo_seen (AccessListAddAccountChange a) v = Inr (v\<lparr>v_addresses := (v_addresses v)(a := None)\<rparr>)"
| "undo_seen (AccessListAddSlotChange a slot) v = undo_seen_slot a slot v"
| "undo_seen (TransientStorageChange a key prevalue) v =
     Inr (v\<lparr>v_transient := (v_transient v)(a := (v_transient v a)(key := prevalue))\<rparr>)"
| "undo_seen (StorageOverrideChange a key prev) v =
     Inr (v\<lparr>v_overrides := (v_overrides v)(a := map_option (\<lambda>(c, m). (c, m(key := prev))) (v_overrides v a))\<rparr>)"
| "undo_seen (StorageOverrideRemove a prev) v = Inr (v\<lparr>v_overrides := (v_overrides v)(a \<mapsto> override_of prev)\<rparr>)"
| "undo_seen (StorageOverrideInstall a prev) v =
     Inr (v\<lparr>v_overrides := (v_overrides v)(a := map_option override_of prev)\<rparr>)"
| "undo_seen (SurplusChange delta) v =
     sum_bind (lift_sdk (Int_Sub (v_surplus v) delta)) (\<lambda>sp. Inr (v\<lparr>v_surplus := sp\<rparr>))"
| "undo_seen (CodeCacheChange a prev had) v = Inr v"
| "undo_seen (Watermark n) v = Inr v"

lemma or_zero_simps [simp]:
  "or_zero (m(k \<mapsto> x)) = (or_zero m)(k := x)"
  "or_zero (m(k := None)) = (or_zero m)(k := 0)"
  "or_zero (\<lambda>_. None) = (\<lambda>_. 0)"
  "or_zero (\<lambda>k'. if k' = k then Some x else m k') = (or_zero m)(k := x)"
  "or_zero (\<lambda>k'. if k' = k then None else m k') = (or_zero m)(k := 0)"
  by (auto simp: or_zero_def fun_eq_iff)

lemmas gm_funs = update_conv' AList.delete_conv'

lemma transient_of_store: "transient_of (gm_store a m ts) = (transient_of ts)(a := or_zero (gm_load m))"
  by (auto simp: transient_of_def fun_eq_iff gomap_simps)

lemma transient_of_delete: "transient_of (gm_delete a ts) = (transient_of ts)(a := (\<lambda>_. 0))"
  by (auto simp: transient_of_def fun_eq_iff gomap_simps)

lemma see_undo_transient:
  "transient_of (undo_transient a key prevalue ts) =
     (transient_of ts)(a := (transient_of ts a)(key := prevalue))"
proof (cases "gm_load ts a")
  case None
  then have "transient_of ts a = (\<lambda>_. 0)" by (simp add: transient_of_def)
  with None show ?thesis
    by (cases "prevalue = 0") (auto simp: undo_transient_def transient_of_store gm_funs fun_eq_iff)
next
  case (Some m)
  then have m: "transient_of ts a = or_zero (gm_load m)" by (simp add: transient_of_def)
  have "(or_zero (gm_load m))(key := 0) = (\<lambda>_. 0)" if "gm_delete key m = []"
    using arg_cong [OF AList.delete_conv' [of key m], of or_zero] that by simp
  with Some m show ?thesis
    by (cases "prevalue = 0") (auto simp: undo_transient_def Let_def transient_of_store transient_of_delete gm_funs)
qed

lemma overrides_of_simps:
  "overrides_of (gm_store a ov m) = (overrides_of m)(a \<mapsto> override_of ov)"
  "overrides_of (gm_delete a m) = (overrides_of m)(a := None)"
  by (auto simp: overrides_of_def fun_eq_iff gomap_simps)

lemma see_undo_slot:
  "map_sum id (\<lambda>al. see (t\<lparr>ts_accessLists := al\<rparr>)) (undo_slot a slot (ts_accessLists t)) = undo_seen_slot a slot (see t)"
proof -
  let ?al = "ts_accessLists t"
  have "map set ((al_Slots ?al)[i := removeAll slot (al_Slots ?al ! i)]) = (map set (al_Slots ?al))[i := set (al_Slots ?al ! i) - {slot}]"
    for i by (simp add: map_update)
  moreover have "set (al_Slots ?al ! i) \<subseteq> {slot} \<longleftrightarrow> removeAll slot (al_Slots ?al ! i) = []" for i
    by (simp flip: set_empty add: Diff_eq_empty_iff)
  ultimately show ?thesis
    by (auto simp: see_def undo_slot_def undo_seen_slot_def slots_at_def Let_def gm_funs take_map drop_map fun_eq_iff
        split: option.splits)
qed

lemma see_undo_temp: "map_sum id see (undo_temp e t) = undo_seen e (see t)"
proof (cases e)
  case (TransientStorageChange a key prevalue)
  then show ?thesis by (simp add: see_def see_undo_transient)
next
  case (AccessListAddSlotChange a slot)
  then show ?thesis
    using see_undo_slot [of t a slot] by (cases "undo_slot a slot (ts_accessLists t)") simp_all
next
  case (StorageOverrideChange a key prev)
  then show ?thesis
    by (auto simp: see_def overrides_of_simps gm_funs fun_eq_iff split: option.splits)
      (auto simp: overrides_of_def override_of_def gm_funs)
next
  case (SurplusChange delta)
  then show ?thesis by (simp add: see_def sum_bind_def lift_sdk_def split: sum.splits)
qed (auto simp: see_def overrides_of_simps gm_funs fun_eq_iff split: option.splits)

subsection \<open>Undoing a piece of the journal\<close>

text \<open>\<open>undone es v v'\<close>: undoing the entries \<open>es\<close>, the newest first, leads from \<open>v\<close> to \<open>v'\<close>, and none of them is a
  watermark.\<close>

fun undone :: "journalEntry list \<Rightarrow> seen \<Rightarrow> seen \<Rightarrow> bool" where
  "undone [] v v' \<longleftrightarrow> v' = v"
| "undone (e # es) v v' \<longleftrightarrow> (\<forall>n. e \<noteq> Watermark n) \<and> (\<exists>u. undo_seen e v = Inr u \<and> undone es u v')"

lemma undone_append: "undone es v u \<Longrightarrow> undone es' u v' \<Longrightarrow> undone (es @ es') v v'"
  by (induction es arbitrary: v) auto

text \<open>Every index of the access list points to a set of slots, and none of the sets is empty; the surplus fits into an
  \<open>sdk.Int\<close>.\<close>

definition seen_ok :: "seen \<Rightarrow> bool" where
  "seen_ok v \<longleftrightarrow>
     (\<forall>a idx. v_addresses v a = Some idx \<longrightarrow> -1 \<le> idx \<and> idx < int (length (v_slots v))) \<and>
     {} \<notin> set (v_slots v) \<and> int_in_range (v_surplus v)"

text \<open>An operation keeps the snapshots, and the entries it adds to the journal undo it.\<close>

definition extends :: "DBImpl \<Rightarrow> DBImpl \<Rightarrow> bool" where
  "extends s s' \<longleftrightarrow>
     sdb_snapshottedCtxs s' = sdb_snapshottedCtxs s \<and>
     sdb_coinbaseAddress s' = sdb_coinbaseAddress s \<and> sdb_coinbaseEvmAddress s' = sdb_coinbaseEvmAddress s \<and>
     (seen_ok (see (sdb_temp s)) \<longrightarrow> seen_ok (see (sdb_temp s')) \<and>
       (\<exists>es. sdb_journal s' = sdb_journal s @ es \<and> undone (rev es) (see (sdb_temp s')) (see (sdb_temp s))))"

lemma extends_refl [simp]: "extends s s"
  by (auto simp: extends_def intro: exI [of _ "[]"])

lemma extends_trans [trans]:
  assumes "extends s s1" and "extends s1 s2"
  shows "extends s s2"
proof -
  have "\<exists>es. sdb_journal s2 = sdb_journal s @ es \<and> undone (rev es) (see (sdb_temp s2)) (see (sdb_temp s))"
    if "seen_ok (see (sdb_temp s))"
  proof -
    from assms that obtain es es' where
      "sdb_journal s1 = sdb_journal s @ es" "undone (rev es) (see (sdb_temp s1)) (see (sdb_temp s))"
      "sdb_journal s2 = sdb_journal s1 @ es'" "undone (rev es') (see (sdb_temp s2)) (see (sdb_temp s1))"
      by (auto simp: extends_def)
    then show ?thesis by (intro exI [of _ "es @ es'"]) (auto intro: undone_append)
  qed
  with assms show ?thesis by (simp add: extends_def)
qed

text \<open>Operations that touch neither the temporary state nor the journal, and operations that add one entry.\<close>

lemma extends_quiet:
  assumes "sdb_snapshottedCtxs s' = sdb_snapshottedCtxs s" and "sdb_temp s' = sdb_temp s" and "sdb_journal s' = sdb_journal s"
    and "sdb_coinbaseAddress s' = sdb_coinbaseAddress s" and "sdb_coinbaseEvmAddress s' = sdb_coinbaseEvmAddress s"
  shows "extends s s'"
  using assms by (auto simp: extends_def intro: exI [of _ "[]"])

lemma extends_entry:
  assumes "sdb_snapshottedCtxs s' = sdb_snapshottedCtxs s" and "sdb_journal s' = sdb_journal s @ [e]"
    and "sdb_coinbaseAddress s' = sdb_coinbaseAddress s" and "sdb_coinbaseEvmAddress s' = sdb_coinbaseEvmAddress s"
    and "\<And>n. e \<noteq> Watermark n"
    and "seen_ok (see (sdb_temp s)) \<Longrightarrow> undo_seen e (see (sdb_temp s')) = Inr (see (sdb_temp s))"
    and "seen_ok (see (sdb_temp s)) \<Longrightarrow> seen_ok (see (sdb_temp s'))"
  shows "extends s s'"
  using assms by (auto simp: extends_def intro!: exI [of _ "[e]"])

lemmas sdb_sets = journal_append_def set_temp_def set_ctx_def set_bank_def set_err_def

lemma extends_sets [simp]:
  "extends s (set_ctx w s)" "extends s (set_bank b s)" "extends s (set_err e s)" "extends s (s\<lparr>sdb_codeCache := m\<rparr>)"
  "extends s (set_err e (set_bank b s))"
  by (simp_all add: extends_quiet sdb_sets)

subsection \<open>The operations\<close>

lemma MarkAccount_extends: "extends s (MarkAccount a st s)"
  by (rule extends_entry [where e = "AccountStatusChange a (gm_load (ts_transientAccounts (sdb_temp s)) a)"])
    (auto simp: MarkAccount_def sdb_sets Let_def see_def seen_ok_def gm_funs fun_eq_iff)

lemma AddLog_extends: "extends s (AddLog l s)"
  by (rule extends_entry [where e = AddLogChange]) (auto simp: AddLog_def sdb_sets Let_def see_def seen_ok_def)

lemma set_refund_extends: "extends s (journal_append (RefundChange (GetRefund s)) (set_refund r s))"
  by (rule extends_entry [where e = "RefundChange (GetRefund s)"])
    (auto simp: set_refund_def GetRefund_def sdb_sets Let_def see_def seen_ok_def gm_funs or_zero_def)

lemma SetTransientState_extends: "extends s (SetTransientState a key val s)"
proof -
  let ?ts = "ts_transientStates (sdb_temp s)"
  let ?st = "case gm_load ?ts a of None \<Rightarrow> [] | Some m \<Rightarrow> m"
  let ?prev = "case gm_load ?st key of None \<Rightarrow> 0 | Some v \<Rightarrow> v"
  have "or_zero (gm_load ?st) = transient_of ?ts a" "?prev = transient_of ?ts a key"
    by (auto simp: transient_of_def or_zero_def fun_eq_iff split: option.splits)
  then show ?thesis
    by (intro extends_entry [where e = "TransientStorageChange a key ?prev"])
      (auto simp: SetTransientState_def sdb_sets Let_def see_def seen_ok_def transient_of_store gm_funs fun_eq_iff)
qed

lemma SetStorage_extends: "extends s (SetStorage a states s)"
  by (rule extends_entry [where e = "StorageOverrideInstall a (gm_load (ts_storageOverrides (sdb_temp s)) a)"])
    (auto simp: SetStorage_def sdb_sets Let_def see_def seen_ok_def overrides_of_simps overrides_of_def fun_eq_iff)

lemma SetState_extends: "extends s (snd (sdb_SetState a key val s))"
proof (cases "gm_load (ts_storageOverrides (sdb_temp s)) a")
  case None
  then show ?thesis by (simp add: sdb_SetState_def)
next
  case (Some ov)
  let ?prev = "case gm_load (so_current ov) key of None \<Rightarrow> 0 | Some v \<Rightarrow> v"
  have "overrides_of (ts_storageOverrides (sdb_temp s)) a = Some (override_of ov)" "?prev = or_zero (gm_load (so_current ov)) key"
    using Some by (simp_all add: overrides_of_def or_zero_def)
  with Some show ?thesis
    by (intro extends_entry [where e = "StorageOverrideChange a key ?prev"])
      (auto simp: sdb_SetState_def setOverrideState_def sdb_sets Let_def see_def seen_ok_def overrides_of_simps override_of_def
        gm_funs fun_eq_iff)
qed

lemma AddAddress_extends: "extends s (AddAddressToAccessList a s)"
proof (cases "gm_load (al_Addresses (ts_accessLists (sdb_temp s))) a")
  case None
  then show ?thesis
    by (intro extends_entry [where e = "AccessListAddAccountChange a"])
      (auto simp: AddAddressToAccessList_def set_accessList_def sdb_sets Let_def see_def seen_ok_def gm_funs fun_eq_iff split: if_splits)
qed (simp add: AddAddressToAccessList_def)

lemma new_slots_extends:
  assumes "gm_load (al_Addresses (ts_accessLists (sdb_temp s))) a = Some (-1)"
  shows "extends s (new_slots a slot s)"
  using assms
  by (intro extends_entry [where e = "AccessListAddSlotChange a slot"])
    (auto simp: new_slots_def set_accessList_def sdb_sets Let_def see_def seen_ok_def undo_seen_slot_def gm_funs nth_append
      fun_eq_iff split: if_splits, force)

lemma undo_seen_slot_insert:
  assumes "seen_ok v" and "v_addresses v a = Some (int i)" and "i < length (v_slots v)" and "slot \<notin> v_slots v ! i"
  shows "undo_seen_slot a slot (v\<lparr>v_slots := (v_slots v)[i := insert slot (v_slots v ! i)]\<rparr>) = Inr v"
    and "seen_ok (v\<lparr>v_slots := (v_slots v)[i := insert slot (v_slots v ! i)]\<rparr>)"
proof -
  have "v_slots v ! i \<noteq> {}" using assms(1,3) nth_mem by (force simp: seen_ok_def)
  then have "\<not> v_slots v ! i \<subseteq> {slot}" using assms(4) by blast
  moreover have "insert slot (v_slots v ! i) - {slot} = v_slots v ! i" using assms(4) by simp
  ultimately show "undo_seen_slot a slot (v\<lparr>v_slots := (v_slots v)[i := insert slot (v_slots v ! i)]\<rparr>) = Inr v"
    using assms(2,3) by (simp add: undo_seen_slot_def Let_def)
  have "{} \<notin> set ((v_slots v)[i := insert slot (v_slots v ! i)])"
    using assms(1) set_update_subset_insert [of "v_slots v" i] by (auto simp: seen_ok_def)
  with assms(1) show "seen_ok (v\<lparr>v_slots := (v_slots v)[i := insert slot (v_slots v ! i)]\<rparr>)" by (simp add: seen_ok_def)
qed

lemma AddSlot_extends:
  assumes "AddSlotToAccessList a slot s = Inr s'"
  shows "extends s s'"
proof (cases "gm_load (al_Addresses (ts_accessLists (sdb_temp s))) a")
  case None
  then have "extends (AddAddressToAccessList a s) (new_slots a slot (AddAddressToAccessList a s))"
    by (intro new_slots_extends) (simp add: AddAddressToAccessList_def set_accessList_def sdb_sets Let_def gomap_simps)
  with None assms extends_trans [OF AddAddress_extends] show ?thesis by (auto simp: AddSlotToAccessList_def Let_def)
next
  case (Some idx)
  show ?thesis
  proof (cases "idx = -1 \<or> s' = s")
    case True
    with Some assms new_slots_extends [of s a slot] show ?thesis by (auto simp: AddSlotToAccessList_def)
  next
    case False
    let ?al = "ts_accessLists (sdb_temp s)"
    have i: "0 \<le> idx" "idx < int (length (al_Slots ?al))" "slot \<notin> set (al_Slots ?al ! nat idx)" and s':
      "s' = journal_append (AccessListAddSlotChange a slot)
        (set_accessList (?al\<lparr>al_Slots := (al_Slots ?al)[nat idx := slot # al_Slots ?al ! nat idx]\<rparr>) s)"
      using False Some assms by (auto simp: AddSlotToAccessList_def Let_def slots_at_def split: if_splits)
    let ?v = "see (sdb_temp s)"
    have "see (sdb_temp s') = ?v\<lparr>v_slots := (v_slots ?v)[nat idx := insert slot (v_slots ?v ! nat idx)]\<rparr>"
      using i by (simp add: s' see_def set_accessList_def sdb_sets map_update)
    moreover have "v_addresses ?v a = Some (int (nat idx))" "nat idx < length (v_slots ?v)" "slot \<notin> v_slots ?v ! nat idx"
      using i Some by (simp_all add: see_def)
    ultimately show ?thesis
      using undo_seen_slot_insert [of ?v a "nat idx" slot]
      by (intro extends_entry [where e = "AccessListAddSlotChange a slot"])
        (simp_all add: s' set_accessList_def sdb_sets)
  qed
qed

lemma add_surplus_extends: "add_surplus x s = Inr s' \<Longrightarrow> extends s s'"
  by (intro extends_entry [where e = "SurplusChange x"])
    (auto simp: add_surplus_def sdb_sets see_def seen_ok_def sum_bind_Inr_iff lift_sdk_def Int_Add_def Int_Sub_def Let_def
      int_in_range_def split: if_splits sum.splits)

lemma on_bank_Inr_iff [simp]: "on_bank r = Inr (Inr x) \<longleftrightarrow> r = Inr x"
  by (auto simp: on_bank_def split: sum.splits bank_error.splits)

text \<open>A change of a balance does nothing, or leaves an error, or moves the coins and the wei and records the surplus.\<close>

definition parts_of :: "int \<Rightarrow> Coins \<Rightarrow> int \<Rightarrow> bool" where
  "parts_of amount coins wei \<longleftrightarrow> (\<exists>usei. sdb_SplitUseiWeiAmount amount = Inr (usei, wei) \<and> base_coins usei = Inr coins)"

lemma SubBalance_cases:
  assumes "SubBalance env a x s = Inr s'"
  shows "s' = s \<and> uint x = 0 \<or> (\<exists>e. s' = set_err e s) \<or> (\<exists>e b. s' = set_err e (set_bank b s)) \<or>
    (\<exists>coins wei b1 b2. parts_of (uint x) coins wei \<and>
      SubUnlockedCoins (evm_bank_env env (sdb_ctx s)) (sdb_getSeiAddress s a) coins True (ew_bank (sdb_ctx s)) = Inr b1 \<and>
      SubWei (evm_bank_env env (sdb_ctx s)) (sdb_getSeiAddress s a) wei b1 = Inr b2 \<and>
      add_surplus (uint x) (set_bank b2 s) = Inr s')"
  using assms
  by (fastforce simp: SubBalance_def Let_def parts_of_def sum_bind_def lift_sdk_def NewIntFromBigInt_def
      split: if_splits sum.splits prod.splits)

lemma AddBalance_cases:
  assumes "AddBalance env a x s = Inr s'"
  shows "s' = s \<and> uint x = 0 \<or> (\<exists>e. s' = set_err e s) \<or> (\<exists>e b. s' = set_err e (set_bank b s)) \<or>
    (\<exists>coins wei b1 b2. parts_of (uint x) coins wei \<and>
      AddCoins (evm_bank_env env (sdb_ctx s)) (sdb_getSeiAddress s a) coins True (ew_bank (sdb_ctx s)) = Inr b1 \<and>
      AddWei (evm_bank_env env (sdb_ctx s)) (sdb_getSeiAddress s a) wei b1 = Inr b2 \<and>
      add_surplus (- uint x) (set_bank b2 s) = Inr s')"
  using assms
  by (fastforce simp: AddBalance_def Let_def parts_of_def sum_bind_def lift_sdk_def NewIntFromBigInt_def Int_Neg_def
      split: if_splits sum.splits prod.splits)

lemma SubBalance_extends: "SubBalance env a x s = Inr s' \<Longrightarrow> extends s s'"
  by (drule SubBalance_cases) (auto intro: extends_trans [OF extends_sets(2)] add_surplus_extends)

lemma AddBalance_extends: "AddBalance env a x s = Inr s' \<Longrightarrow> extends s s'"
  by (drule AddBalance_cases) (auto intro: extends_trans [OF extends_sets(2)] add_surplus_extends)

lemma journalCodeCacheMutation_extends: "extends s (journalCodeCacheMutation a s)"
proof (cases "sdb_codeCache s")
  case (Some m)
  then show ?thesis
    by (cases "gm_load m a")
      (auto simp: journalCodeCacheMutation_def sdb_sets intro: extends_entry [where e = "CodeCacheChange a p h" for p h])
qed (simp add: journalCodeCacheMutation_def)

lemma putCodeCache_extends: "extends s (putCodeCache a code s)"
  by (auto simp: putCodeCache_def split: option.splits)

lemma GetCode_extends: "extends s (snd (sdb_GetCode a s))"
  by (auto simp: sdb_GetCode_def Let_def putCodeCache_extends split: option.splits)

lemma RefreshCodeCache_extends: "extends s (RefreshCodeCache a code s)"
  unfolding RefreshCodeCache_def by (rule extends_trans [OF journalCodeCacheMutation_extends putCodeCache_extends])

lemma SetCode_extends: "extends s (snd (sdb_SetCode env a code s))"
proof -
  let ?s1 = "snd (sdb_GetCode a s)"
  let ?s2 = "set_ctx (kp_SetCode env a code (sdb_ctx ?s1)) ?s1"
  have "extends s ?s1" by (rule GetCode_extends)
  also have "extends ?s1 ?s2" by simp
  also have "extends ?s2 (RefreshCodeCache a code ?s2)" by (rule RefreshCodeCache_extends)
  finally show ?thesis by (simp add: sdb_SetCode_def RefreshCodeCache_def case_prod_beta Let_def)
qed

lemma upgrade_code_extends: "extends s (upgrade_code env a code s)"
  unfolding upgrade_code_def by (rule extends_trans [OF extends_sets(1) RefreshCodeCache_extends])

lemma clearAccountCodeAndNonce_extends: "extends s (clearAccountCodeAndNonce a s)"
proof -
  obtain w m where "clearAccountCodeAndNonce a s = (journalCodeCacheMutation a (set_ctx w s))\<lparr>sdb_codeCache := m\<rparr> \<or>
      clearAccountCodeAndNonce a s = journalCodeCacheMutation a (set_ctx w s)"
    by (cases "sdb_codeCache (journalCodeCacheMutation a
          (set_ctx ((sdb_ctx s)\<lparr>ew_code := snd (deleteIfExists a (ew_code (sdb_ctx s))),
            ew_codeSize := snd (deleteIfExists a (ew_codeSize (sdb_ctx s))),
            ew_nonce := snd (deleteIfExists a (ew_nonce (sdb_ctx s)))\<rparr>) s))")
      (auto simp: clearAccountCodeAndNonce_def Let_def)
  moreover have "extends s (journalCodeCacheMutation a (set_ctx w s))"
    by (rule extends_trans [OF extends_sets(1) journalCodeCacheMutation_extends])
  ultimately show ?thesis by (auto intro: extends_trans)
qed

definition without_override :: "eaddr \<Rightarrow> DBImpl \<Rightarrow> DBImpl" where
  "without_override a s =
     (case gm_load (ts_storageOverrides (sdb_temp s)) a of
        None \<Rightarrow> s
      | Some ov \<Rightarrow>
          set_temp ((sdb_temp s)\<lparr>ts_storageOverrides := gm_delete a (ts_storageOverrides (sdb_temp s))\<rparr>)
            (journal_append (StorageOverrideRemove a ov) s))"

lemma without_override_extends: "extends s (without_override a s)"
proof (cases "gm_load (ts_storageOverrides (sdb_temp s)) a")
  case (Some ov)
  then have "overrides_of (ts_storageOverrides (sdb_temp s)) a = Some (override_of ov)" by (simp add: overrides_of_def)
  with Some show ?thesis
    by (intro extends_entry [where e = "StorageOverrideRemove a ov"])
      (auto simp: without_override_def sdb_sets see_def seen_ok_def overrides_of_simps fun_eq_iff)
qed (simp add: without_override_def)

lemma clearAccountState_alt:
  "clearAccountState a s =
     (let s1 = without_override a s in
      if gm_load (ew_codeHash (sdb_ctx s)) a = None then s1
      else clearAccountCodeAndNonce a
        (set_ctx (PurgeState a ((sdb_ctx s)\<lparr>ew_codeHash := gm_delete a (ew_codeHash (sdb_ctx s))\<rparr>)) s1))"
  by (auto simp: clearAccountState_def without_override_def Let_def deleteIfExists_def sdb_sets split: option.splits)

lemma clearAccountState_extends: "extends s (clearAccountState a s)"
  unfolding clearAccountState_alt Let_def
  by (auto intro: without_override_extends extends_trans [OF without_override_extends]
      extends_trans [OF extends_sets(1) clearAccountCodeAndNonce_extends])

lemma CreateAccount_extends: "extends s (CreateAccount env a s)"
  unfolding CreateAccount_def using extends_trans [OF clearAccountState_extends MarkAccount_extends]
  by (simp add: MarkAccount_extends)

interpretation journal_order: call_order env extends for env
  by unfold_locales
    (rule extends_refl, erule (1) extends_trans, rule AddAddress_extends, erule AddSlot_extends, erule SubBalance_extends,
      erule AddBalance_extends, rule MarkAccount_extends, rule extends_sets)

lemma sdb_exec_extends:
  assumes "sdb_exec env c s = Inr s'" and "\<And>v. c \<noteq> OpRevertToSnapshot v"
  shows "extends (if c = OpSnapshot \<or> (\<exists>a b d ps ts. c = OpPrepare a b d ps ts) then snd (sdb_Snapshot s) else s) s'"
  using assms
  by (cases c)
    (auto simp: sum_bind_Inr_iff SubRefund_def AddRefund_def CreateContract_def sdb_SetNonce_def
      set_refund_extends MarkAccount_extends AddLog_extends SetTransientState_extends SetStorage_extends SetState_extends
      GetCode_extends SetCode_extends upgrade_code_extends AddAddress_extends CreateAccount_extends
      split: if_splits
      dest: journal_order.over_Prepare SubBalance_extends AddBalance_extends journal_order.over_Transfer AddSlot_extends
        journal_order.over_SelfDestruct journal_order.over_SelfDestruct6780)

end
