(* ===== verification/EvmRuns.thy ===== *)
theory EvmRuns
  imports EvmJournal "HOL-Library.Sublist"
begin

text \<open>
  Transactions as lists of calls: the journal leads back to what was seen at every snapshot that is still open, so a
  revert never panics and restores it (\<open>journaled\<close>), and the memo of code always agrees with the stores
  (\<open>memo_ok\<close>).
\<close>

subsection \<open>The journal leads back to every open snapshot\<close>

text \<open>The lists of snapshots and journal entries have the newest first.\<close>

fun unwinds :: "seen list \<Rightarrow> journalEntry list \<Rightarrow> seen \<Rightarrow> bool" where
  "unwinds gs [] v \<longleftrightarrow> gs = []"
| "unwinds gs (e # js) v \<longleftrightarrow>
     (case e of
        Watermark n \<Rightarrow> gs \<noteq> [] \<and> hd gs = v \<and> n = length (tl gs) \<and> unwinds (tl gs) js v
      | _ \<Rightarrow> (\<exists>u. undo_seen e v = Inr u \<and> unwinds gs js u))"

lemma unwinds_entry:
  "(\<And>n. e \<noteq> Watermark n) \<Longrightarrow> unwinds gs (e # js) v \<longleftrightarrow> (\<exists>u. undo_seen e v = Inr u \<and> unwinds gs js u)"
  by (cases e) auto

lemma unwinds_append: "undone es v u \<Longrightarrow> unwinds gs js u \<Longrightarrow> unwinds gs (es @ js) v"
  by (induction es arbitrary: v) (auto simp: unwinds_entry simp del: unwinds.simps(2))

definition journaled :: "seen list \<Rightarrow> DBImpl \<Rightarrow> bool" where
  "journaled gs s \<longleftrightarrow>
     seen_ok (see (sdb_temp s)) \<and> list_all seen_ok gs \<and> length gs = length (sdb_snapshottedCtxs s) \<and>
     unwinds gs (rev (sdb_journal s)) (see (sdb_temp s))"

lemma journaled_extends:
  assumes "journaled gs s" and "extends s s'"
  shows "journaled gs s'"
proof -
  from assms obtain es where "sdb_journal s' = sdb_journal s @ es" "undone (rev es) (see (sdb_temp s')) (see (sdb_temp s))"
    by (auto simp: journaled_def extends_def)
  with assms show ?thesis by (auto simp: journaled_def extends_def intro: unwinds_append)
qed

lemma journaled_Snapshot: "journaled gs s \<Longrightarrow> journaled (see (sdb_temp s) # gs) (snd (sdb_Snapshot s))"
  by (simp add: journaled_def sdb_Snapshot_def journal_append_def Let_def)

lemma journaled_New: "journaled [see NewTemporaryState] (NewDBImpl w txIdx viaWasmd fee sim)"
  by (simp add: journaled_def NewDBImpl_def sdb_Snapshot_def journal_append_def Let_def NewTemporaryState_def see_def
      seen_ok_def int_in_range_iff)

text \<open>What \<open>RevertToSnapshot\<close> does to the rest of the state.\<close>

definition keeps :: "DBImpl \<Rightarrow> DBImpl \<Rightarrow> bool" where
  "keeps s s' \<longleftrightarrow>
     sdb_ctx s' = sdb_ctx s \<and> sdb_snapshottedCtxs s' = sdb_snapshottedCtxs s \<and> sdb_err s' = sdb_err s \<and>
     sdb_coinbaseAddress s' = sdb_coinbaseAddress s \<and> sdb_coinbaseEvmAddress s' = sdb_coinbaseEvmAddress s \<and>
     sdb_simulation s' = sdb_simulation s"

lemma revert_entry_Inr:
  assumes "undo_seen e (see (sdb_temp s)) = Inr u"
  shows "\<exists>s'. revert_entry e s = Inr s' \<and> see (sdb_temp s') = u \<and> keeps s s' \<and>
    sdb_codeCache s' = map_option (undo_code e) (sdb_codeCache s)"
proof -
  have "map_sum id see (undo_temp e (sdb_temp s)) = Inr u" using assms by (simp add: see_undo_temp)
  then obtain t where "undo_temp e (sdb_temp s) = Inr t" "see t = u" by (cases "undo_temp e (sdb_temp s)") auto
  then show ?thesis by (simp add: revert_entry_def keeps_def)
qed

lemma keeps_trans: "keeps s s1 \<Longrightarrow> keeps s1 s2 \<Longrightarrow> keeps s s2"
  by (simp add: keeps_def)

lemma open_tl:
  assumes "version < length (tl gs)"
  shows "rev (tl gs) ! version = rev gs ! version" and "drop (length (tl gs) - version) (tl gs) = drop (length gs - version) gs"
  using assms by (cases gs; simp add: nth_append Suc_diff_le)+

lemma revert_journal_restores:
  assumes "unwinds gs js (see (sdb_temp s))" and "version < length gs"
  shows "\<exists>s' pre. revert_journal version js s = Inr s' \<and> keeps s s' \<and>
    js = pre @ Watermark version # rev (sdb_journal s') \<and>
    sdb_codeCache s' = map_option (\<lambda>m. fold undo_code pre m) (sdb_codeCache s) \<and>
    see (sdb_temp s') = rev gs ! version \<and>
    unwinds (drop (length gs - version) gs) (rev (sdb_journal s')) (rev gs ! version)"
  using assms
proof (induction js arbitrary: gs s)
  case (Cons e js)
  obtain u where u: "undo_seen e (see (sdb_temp s)) = Inr u" using Cons.prems(1) by (cases e) auto
  then obtain s1 where s1: "revert_entry e s = Inr s1" "see (sdb_temp s1) = u" "keeps s s1"
      "sdb_codeCache s1 = map_option (undo_code e) (sdb_codeCache s)"
    using revert_entry_Inr by blast
  show ?case
  proof (cases "e = Watermark version")
    case True
    with Cons.prems u s1 obtain g gs' where g: "gs = g # gs'" "g = u" "version = length gs'" "unwinds gs' js u"
      by (cases gs) auto
    moreover have "undo_code e = id" by (simp add: True fun_eq_iff)
    ultimately show ?thesis
      using True s1 by (intro exI [of _ "s1\<lparr>sdb_journal := rev js\<rparr>"] exI [of _ "[]"])
        (auto simp: keeps_def nth_append option.map_ident option.map_id)
  next
    case False
    obtain hs where hs: "unwinds hs js u" "version < length hs" "rev hs ! version = rev gs ! version"
        "drop (length hs - version) hs = drop (length gs - version) gs"
    proof (cases "\<exists>n. e = Watermark n")
      case True
      with Cons.prems u False have "unwinds (tl gs) js u" "version < length (tl gs)" by auto
      then show ?thesis using open_tl [of version gs] by (intro that [of "tl gs"]) simp_all
    next
      case no: False
      with Cons.prems u show ?thesis by (intro that [of gs]) (auto simp: unwinds_entry simp del: unwinds.simps(2))
    qed
    from Cons.IH [of hs s1] hs(1,2) s1(2) obtain s' pre where s': "revert_journal version js s1 = Inr s'" "keeps s1 s'"
        "js = pre @ Watermark version # rev (sdb_journal s')"
        "sdb_codeCache s' = map_option (\<lambda>m. fold undo_code pre m) (sdb_codeCache s1)"
        "see (sdb_temp s') = rev hs ! version"
        "unwinds (drop (length hs - version) hs) (rev (sdb_journal s')) (rev hs ! version)"
      by auto
    with False s1 hs keeps_trans [OF s1(3) s'(2)] show ?thesis
      by (intro exI [of _ s'] exI [of _ "e # pre"]) (simp add: option.map_comp comp_def)
  qed
qed simp

lemma RevertToSnapshot_restores:
  assumes "journaled gs s" and "version < length gs"
  shows "\<exists>s'. sdb_RevertToSnapshot version s = Inr s' \<and> sdb_ctx s' = sdb_snapshottedCtxs s ! version \<and>
    sdb_snapshottedCtxs s' = take version (sdb_snapshottedCtxs s) \<and> sdb_err s' = sdb_err s \<and>
    see (sdb_temp s') = rev gs ! version \<and> journaled (drop (length gs - version) gs) s' \<and>
    (\<exists>pre. rev (sdb_journal s) = pre @ Watermark version # rev (sdb_journal s') \<and>
      sdb_codeCache s' = map_option (\<lambda>m. fold undo_code pre m) (sdb_codeCache s))"
proof -
  let ?s = "s\<lparr>sdb_ctx := sdb_snapshottedCtxs s ! version, sdb_snapshottedCtxs := take version (sdb_snapshottedCtxs s)\<rparr>"
  obtain s' pre where s': "revert_journal version (rev (sdb_journal s)) ?s = Inr s'" "keeps ?s s'" "see (sdb_temp s') = rev gs ! version"
      "unwinds (drop (length gs - version) gs) (rev (sdb_journal s')) (rev gs ! version)"
    and pre: "rev (sdb_journal s) = pre @ Watermark version # rev (sdb_journal s')"
      "sdb_codeCache s' = map_option (\<lambda>m. fold undo_code pre m) (sdb_codeCache s)"
    using revert_journal_restores [of gs "rev (sdb_journal s)" ?s version] assms by (auto simp: journaled_def)
  have len: "length gs = length (sdb_snapshottedCtxs s)" and ok: "list_all seen_ok gs" using assms(1) by (simp_all add: journaled_def)
  have "rev gs ! version \<in> set gs" using assms(2) by (metis length_rev nth_mem set_rev)
  then have "seen_ok (rev gs ! version)" "list_all seen_ok (drop (length gs - version) gs)"
    using ok by (auto simp: list_all_iff dest: in_set_dropD)
  then have "journaled (drop (length gs - version) gs) s'"
    using s' assms(2) len by (simp add: journaled_def keeps_def)
  moreover have "sdb_RevertToSnapshot version s = Inr s'" using s'(1) assms(2) len by (simp add: sdb_RevertToSnapshot_def)
  moreover have "sdb_ctx s' = sdb_snapshottedCtxs s ! version" "sdb_err s' = sdb_err s"
      "sdb_snapshottedCtxs s' = take version (sdb_snapshottedCtxs s)"
    using s'(2) by (simp_all add: keeps_def)
  ultimately show ?thesis using s'(3) pre by blast
qed

subsection \<open>Runs\<close>

definition sdb_run :: "evm_env \<Rightarrow> sdb_op list \<Rightarrow> DBImpl \<Rightarrow> DBImpl eres" where
  "sdb_run env cs s = each (sdb_exec env) cs s"

text \<open>The snapshots from \<open>base\<close> on stay open as long as no call reverts to one of them.\<close>

definition stays_above :: "nat \<Rightarrow> sdb_op \<Rightarrow> bool" where
  "stays_above v c = (case c of OpRevertToSnapshot r \<Rightarrow> v < r | _ \<Rightarrow> True)"

definition takes_snapshot :: "sdb_op \<Rightarrow> bool" where
  "takes_snapshot c = (case c of OpSnapshot \<Rightarrow> True | OpPrepare a b d ps ts \<Rightarrow> True | _ \<Rightarrow> False)"

text \<open>What was seen at the open snapshots after a call, the newest first.\<close>

definition next_seen :: "sdb_op \<Rightarrow> DBImpl \<Rightarrow> seen list \<Rightarrow> seen list" where
  "next_seen c s gs =
     (case c of
        OpRevertToSnapshot r \<Rightarrow> drop (length gs - r) gs
      | _ \<Rightarrow> if takes_snapshot c then see (sdb_temp s) # gs else gs)"

lemma exec_cases:
  assumes "sdb_exec env c s = Inr s'"
  obtains r where "c = OpRevertToSnapshot r" "sdb_RevertToSnapshot r s = Inr s'" "\<And>gs. next_seen c s gs = drop (length gs - r) gs"
  | "takes_snapshot c" "extends (snd (sdb_Snapshot s)) s'" "\<And>gs. next_seen c s gs = see (sdb_temp s) # gs"
  | "\<And>r. c \<noteq> OpRevertToSnapshot r" "extends s s'" "\<And>gs. next_seen c s gs = gs"
proof (cases "\<exists>r. c = OpRevertToSnapshot r")
  case True
  with assms show ?thesis by (auto simp: next_seen_def intro: that(1))
next
  case False
  have t: "takes_snapshot c \<longleftrightarrow> c = OpSnapshot \<or> (\<exists>a b d ps ts. c = OpPrepare a b d ps ts)"
    by (cases c) (simp_all add: takes_snapshot_def)
  have n: "next_seen c s gs = (if takes_snapshot c then see (sdb_temp s) # gs else gs)" for gs
    using False by (cases c) (auto simp: next_seen_def)
  from sdb_exec_extends [OF assms] False have "extends (if takes_snapshot c then snd (sdb_Snapshot s) else s) s'"
    unfolding t by blast
  then show ?thesis using that(2,3) n False by (cases "takes_snapshot c") auto
qed

lemma Snapshot_snaps [simp]: "sdb_snapshottedCtxs (snd (sdb_Snapshot s)) = sdb_snapshottedCtxs s @ [sdb_ctx s]"
  by (simp add: sdb_Snapshot_def journal_append_def Let_def)

lemma Revert_bound: "journaled gs s \<Longrightarrow> sdb_RevertToSnapshot r s = Inr s' \<Longrightarrow> r < length gs"
  by (auto simp: sdb_RevertToSnapshot_def journaled_def split: if_splits)

lemma exec_journaled:
  assumes "journaled gs s" and "sdb_exec env c s = Inr s'"
  shows "journaled (next_seen c s gs) s'"
  using assms(2)
proof (cases rule: exec_cases)
  case (1 r)
  from RevertToSnapshot_restores [OF assms(1) Revert_bound [OF assms(1) 1(2)]] 1 show ?thesis by auto
next
  case 2
  with journaled_extends [OF journaled_Snapshot [OF assms(1)]] show ?thesis by simp
next
  case 3
  with journaled_extends [OF assms(1)] show ?thesis by simp
qed

text \<open>The oldest \<open>Suc v\<close> snapshots stay open as long as no call reverts to one of them.\<close>

lemma exec_open:
  assumes "journaled gs s" and "sdb_exec env c s = Inr s'" and "suffix old gs" and "length old = Suc v" and "stays_above v c"
  shows "suffix old (next_seen c s gs) \<and> take (Suc v) (sdb_snapshottedCtxs s') = take (Suc v) (sdb_snapshottedCtxs s)"
  using assms(2)
proof (cases rule: exec_cases)
  case (1 r)
  have r: "r < length gs" by (rule Revert_bound [OF assms(1) 1(2)])
  from RevertToSnapshot_restores [OF assms(1) r] 1(2) have "sdb_snapshottedCtxs s' = take r (sdb_snapshottedCtxs s)" by auto
  moreover have "Suc v \<le> r" using assms(5) 1(1) by (simp add: stays_above_def)
  moreover from this have "suffix old (drop (length gs - r) gs)" using assms(3,4) r by (auto simp: suffix_def)
  ultimately show ?thesis using 1(3) by (simp add: min_def)
next
  case 2
  have "Suc v \<le> length (sdb_snapshottedCtxs s)"
    using assms(1,3,4) by (auto simp: journaled_def dest: suffix_length_le)
  moreover have "sdb_snapshottedCtxs s' = sdb_snapshottedCtxs s @ [sdb_ctx s]" using 2(2) by (simp add: extends_def)
  ultimately show ?thesis using 2(3) assms(3) by (simp add: suffix_Cons)
next
  case 3
  then show ?thesis using assms(3) by (simp add: extends_def)
qed

lemma run_step: "sdb_run env (c # cs) s = Inr s' \<longleftrightarrow> (\<exists>s1. sdb_exec env c s = Inr s1 \<and> sdb_run env cs s1 = Inr s')"
  by (simp add: sdb_run_def sum_bind_Inr_iff)

lemma run_Nil [simp]: "sdb_run env [] s = Inr s' \<longleftrightarrow> s' = s"
  by (auto simp: sdb_run_def)

lemma run_open:
  assumes "sdb_run env cs s = Inr s'" and "journaled gs s" and "suffix old gs" and "length old = Suc v"
    and "list_all (stays_above v) cs"
  shows "\<exists>hs. journaled hs s' \<and> suffix old hs \<and> take (Suc v) (sdb_snapshottedCtxs s') = take (Suc v) (sdb_snapshottedCtxs s)"
  using assms
proof (induction cs arbitrary: s gs)
  case (Cons c cs)
  then obtain s1 where s1: "sdb_exec env c s = Inr s1" "sdb_run env cs s1 = Inr s'" by (auto simp: run_step)
  from exec_open [OF Cons.prems(2) s1(1) Cons.prems(3,4)] Cons.prems(5)
  have "suffix old (next_seen c s gs)" "take (Suc v) (sdb_snapshottedCtxs s1) = take (Suc v) (sdb_snapshottedCtxs s)" by auto
  with Cons.IH [OF s1(2) exec_journaled [OF Cons.prems(2) s1(1)]] Cons.prems(4,5) show ?case by auto
qed auto

lemma run_journaled:
  assumes "sdb_run env cs s = Inr s'" and "journaled gs s"
  shows "\<exists>hs. journaled hs s'"
  using assms
proof (induction cs arbitrary: s gs)
  case (Cons c cs)
  then obtain s1 where s1: "sdb_exec env c s = Inr s1" "sdb_run env cs s1 = Inr s'" by (auto simp: run_step)
  from Cons.IH [OF s1(2) exec_journaled [OF Cons.prems(2) s1(1)]] show ?case .
qed auto

end
