(* ===== verification/EvmMemo.thy ===== *)
theory EvmMemo
  imports EvmRuns
begin

text \<open>
  The memo of code of the state database: reads fill it without a journal entry, writes journal the entry they replace,
  and a revert puts back the entries that were journaled. In every state of a transaction the memo agrees with the
  stores, so that \<open>GetCode\<close> returns what the keeper would return.
\<close>

subsection \<open>The memo along the journal\<close>

definition agrees :: "(eaddr \<Rightarrow> slice) \<Rightarrow> (eaddr \<rightharpoonup> slice) \<Rightarrow> bool" where
  "agrees code m \<longleftrightarrow> (\<forall>a c. m a = Some c \<longrightarrow> c = code a)"

fun undo_memo :: "journalEntry \<Rightarrow> (eaddr \<rightharpoonup> slice) \<Rightarrow> (eaddr \<rightharpoonup> slice)" where
  "undo_memo (CodeCacheChange a prev had) m = m(a := (if had then Some prev else None))"
| "undo_memo _ m = m"

lemma undo_code_memo: "gm_load (undo_code e m) = undo_memo e (gm_load m)"
  by (cases e) (auto simp: gm_funs)

lemma fold_undo_code_memo: "gm_load (fold undo_code es m) = fold undo_memo es (gm_load m)"
  by (induction es arbitrary: m) (simp_all add: undo_code_memo)

text \<open>Going back along the journal, the newest entry first: the code changes only where an entry of the memo was journaled,
  at a watermark it is the code of the snapshot, and the memo agrees with it all the way.\<close>

fun memo_unwinds :: "evm_world list \<Rightarrow> journalEntry list \<Rightarrow> (eaddr \<Rightarrow> slice) \<Rightarrow> (eaddr \<rightharpoonup> slice) \<Rightarrow> bool" where
  "memo_unwinds ws [] code m \<longleftrightarrow> agrees code m"
| "memo_unwinds ws (e # js) code m \<longleftrightarrow> agrees code m \<and>
     (case e of
        Watermark n \<Rightarrow> ws \<noteq> [] \<and> n = length (tl ws) \<and> kp_GetCode (hd ws) = code \<and> memo_unwinds (tl ws) js code m
      | CodeCacheChange a prev had \<Rightarrow>
          (\<exists>code'. (\<forall>b. b \<noteq> a \<longrightarrow> code' b = code b) \<and> memo_unwinds ws js code' (undo_memo e m))
      | _ \<Rightarrow> memo_unwinds ws js code m)"

definition memo_free :: "journalEntry \<Rightarrow> bool" where
  "memo_free e = (case e of CodeCacheChange a prev had \<Rightarrow> False | Watermark n \<Rightarrow> False | _ \<Rightarrow> True)"

lemma memo_unwinds_agrees: "memo_unwinds ws js code m \<Longrightarrow> agrees code m"
  by (cases js) auto

lemma memo_unwinds_free: "memo_free e \<Longrightarrow> memo_unwinds ws (e # js) code m \<longleftrightarrow> memo_unwinds ws js code m"
  by (cases e) (auto simp: memo_free_def dest: memo_unwinds_agrees)

lemma memo_unwinds_frees: "list_all memo_free es \<Longrightarrow> memo_unwinds ws (es @ js) code m \<longleftrightarrow> memo_unwinds ws js code m"
  by (induction es) (simp_all add: memo_unwinds_free del: memo_unwinds.simps(2))

lemma agrees_fill: "agrees code m \<Longrightarrow> agrees code (m(a \<mapsto> code a))"
  by (simp add: agrees_def)

lemma memo_unwinds_fill:
  "memo_unwinds ws js code m \<Longrightarrow> memo_unwinds ws js code (m(a \<mapsto> code a))"
proof (induction js arbitrary: ws code m)
  case (Cons e js)
  have agr: "agrees code (m(a \<mapsto> code a))" by (rule agrees_fill [OF memo_unwinds_agrees [OF Cons.prems]])
  show ?case
  proof (cases "memo_free e")
    case True
    with Cons show ?thesis by (simp add: memo_unwinds_free del: memo_unwinds.simps(2))
  next
    case False
    then consider n where "e = Watermark n" | b prev had where "e = CodeCacheChange b prev had"
      by (auto simp: memo_free_def split: journalEntry.splits)
    then show ?thesis
    proof cases
      case (1 n)
      with Cons.prems have "ws \<noteq> []" "n = length (tl ws)" "kp_GetCode (hd ws) = code" "memo_unwinds (tl ws) js code m" by auto
      with agr Cons.IH [of "tl ws" code m] show ?thesis by (simp only: 1 memo_unwinds.simps journalEntry.case) blast
    next
      case (2 b prev had)
      with Cons.prems obtain code' where code': "\<forall>c. c \<noteq> b \<longrightarrow> code' c = code c" "memo_unwinds ws js code' (undo_memo e m)"
        by auto
      have "memo_unwinds ws js code' (undo_memo e (m(a \<mapsto> code a)))"
      proof (cases "a = b")
        case True
        with code'(2) 2 show ?thesis by simp
      next
        case neq: False
        with code'(1) 2 have eq: "undo_memo e (m(a \<mapsto> code a)) = (undo_memo e m)(a \<mapsto> code' a)"
          by (auto simp: fun_upd_twist)
        show ?thesis unfolding eq by (rule Cons.IH [OF code'(2)])
      qed
      with agr code'(1) show ?thesis by (simp only: 2 memo_unwinds.simps journalEntry.case) blast
    qed
  qed
qed (simp add: agrees_fill)

lemma memo_unwinds_mutate:
  assumes "memo_unwinds ws js code m" and "\<And>b. b \<noteq> a \<Longrightarrow> code' b = code b" and "x = None \<or> x = Some (code' a)"
    and "e = (case m a of None \<Rightarrow> CodeCacheChange a None False | Some prev \<Rightarrow> CodeCacheChange a prev True)"
  shows "memo_unwinds ws (e # js) code' (m(a := x))"
proof -
  have "agrees code' (m(a := x))"
    using memo_unwinds_agrees [OF assms(1)] assms(2,3) by (auto simp: agrees_def)
  moreover have "undo_memo e (m(a := x)) = m" using assms(4) by (cases "m a") (auto simp: fun_eq_iff)
  ultimately show ?thesis using assms(1,2,4) by (auto split: option.splits intro!: exI [of _ code])
qed

lemma memo_unwinds_revert:
  assumes "memo_unwinds ws (pre @ Watermark v # js) code m"
  shows "v < length ws \<and> memo_unwinds (drop (length ws - v) ws) js (kp_GetCode (rev ws ! v)) (fold undo_memo pre m)"
  using assms
proof (induction pre arbitrary: ws code m)
  case Nil
  then show ?case by (cases ws) (auto simp: nth_append)
next
  case (Cons e pre)
  show ?case
  proof (cases "\<exists>n. e = Watermark n")
    case True
    with Cons.prems have "memo_unwinds (tl ws) (pre @ Watermark v # js) code m" and e: "undo_memo e = (\<lambda>m. m)" "ws \<noteq> []"
      by (auto simp: fun_eq_iff)
    moreover have "length (tl ws) < length ws" using e(2) by simp
    ultimately show ?thesis using Cons.IH [of "tl ws" code m] open_tl [of v ws] by (auto simp del: length_tl)
  next
    case False
    with Cons.prems obtain code' where "memo_unwinds ws (pre @ Watermark v # js) code' (undo_memo e m)" by (cases e) auto
    from Cons.IH [OF this] show ?thesis by simp
  qed
qed

subsection \<open>Operations that leave the code alone\<close>

definition memo_ok :: "DBImpl \<Rightarrow> bool" where
  "memo_ok s =
     (case sdb_codeCache s of
        None \<Rightarrow> True
      | Some m \<Rightarrow> memo_unwinds (rev (sdb_snapshottedCtxs s)) (rev (sdb_journal s)) (kp_GetCode (sdb_ctx s)) (gm_load m))"

definition quiet :: "DBImpl \<Rightarrow> DBImpl \<Rightarrow> bool" where
  "quiet s s' \<longleftrightarrow>
     sdb_snapshottedCtxs s' = sdb_snapshottedCtxs s \<and> sdb_codeCache s' = sdb_codeCache s \<and>
     ew_code (sdb_ctx s') = ew_code (sdb_ctx s) \<and>
     (\<exists>es. sdb_journal s' = sdb_journal s @ es \<and> list_all memo_free es)"

lemma quiet_refl [simp]: "quiet s s"
  by (simp add: quiet_def)

lemma quiet_trans [trans]: "quiet s s1 \<Longrightarrow> quiet s1 s2 \<Longrightarrow> quiet s s2"
  by (auto simp: quiet_def)

lemma kp_GetCode_cong: "ew_code w' = ew_code w \<Longrightarrow> kp_GetCode w' = kp_GetCode w"
  by (simp add: kp_GetCode_def fun_eq_iff)

lemma memo_ok_quiet: "memo_ok s \<Longrightarrow> quiet s s' \<Longrightarrow> memo_ok s'"
  using kp_GetCode_cong [of "sdb_ctx s'" "sdb_ctx s"]
  by (auto simp: memo_ok_def quiet_def memo_unwinds_frees list_all_rev split: option.splits)

lemmas quiet_simps = quiet_def sdb_sets Let_def memo_free_def

lemma quiet_sets [simp]:
  "quiet s (set_bank b s)" "quiet s (set_err e s)" "ew_code w = ew_code (sdb_ctx s) \<Longrightarrow> quiet s (set_ctx w s)"
  "quiet s (set_err e (set_bank b s))"
  by (simp_all add: quiet_simps)

lemma quiet_ops [simp]:
  "quiet s (MarkAccount a st s)" "quiet s (AddLog l s)" "quiet s (AddRefund gas s)" "quiet s (SetTransientState a key val s)"
  "quiet s (SetStorage a states s)" "quiet s (AddAddressToAccessList a s)" "quiet s (new_slots a slot s)"
  "quiet s (sdb_SetNonce a n s)" "quiet s (without_override a s)"
  by (auto simp: quiet_simps MarkAccount_def AddLog_def AddRefund_def set_refund_def SetTransientState_def SetStorage_def
      AddAddressToAccessList_def set_accessList_def new_slots_def sdb_SetNonce_def kp_SetNonce_def without_override_def
      split: option.splits)

lemma quiet_SetState: "quiet s (snd (sdb_SetState a key val s))"
  by (auto simp: quiet_simps sdb_SetState_def setOverrideState_def kp_SetState_def split: option.splits)

lemma quiet_SubRefund: "SubRefund gas s = Inr s' \<Longrightarrow> quiet s s'"
  by (auto simp: quiet_simps SubRefund_def set_refund_def split: if_splits)

lemma quiet_AddSlot: "AddSlotToAccessList a slot s = Inr s' \<Longrightarrow> quiet s s'"
  by (auto simp: AddSlotToAccessList_def Let_def sum_bind_Inr_iff split: option.splits if_splits
      intro: quiet_trans [OF quiet_ops(6)] quiet_ops)
    (simp_all add: quiet_simps set_accessList_def)

lemma quiet_add_surplus: "add_surplus x s = Inr s' \<Longrightarrow> quiet s s'"
  by (auto simp: add_surplus_def sum_bind_Inr_iff quiet_simps)

lemma quiet_SubBalance: "SubBalance env a x s = Inr s' \<Longrightarrow> quiet s s'"
  by (drule SubBalance_cases) (auto intro: quiet_trans [OF quiet_sets(1)] quiet_add_surplus)

lemma quiet_AddBalance: "AddBalance env a x s = Inr s' \<Longrightarrow> quiet s s'"
  by (drule AddBalance_cases) (auto intro: quiet_trans [OF quiet_sets(1)] quiet_add_surplus)


interpretation quiet_order: call_order env quiet for env
  by unfold_locales
    (rule quiet_refl, erule (1) quiet_trans, rule quiet_ops, erule quiet_AddSlot, erule quiet_SubBalance,
      erule quiet_AddBalance, rule quiet_ops, simp add: DeleteAddressMapping_def)

subsection \<open>Operations that read or write code\<close>

lemma memo_ok_Some:
  "sdb_codeCache s = Some m \<Longrightarrow> memo_ok s \<longleftrightarrow>
     memo_unwinds (rev (sdb_snapshottedCtxs s)) (rev (sdb_journal s)) (kp_GetCode (sdb_ctx s)) (gm_load m)"
  by (simp add: memo_ok_def)

lemma kp_GetCode_empty: "slice_bytes (kp_GetCode w a) = [] \<Longrightarrow> kp_GetCode w a = None"
  by (auto simp: kp_GetCode_def slice_bytes_def split: option.splits if_splits)

lemma GetCode_alt:
  "sdb_GetCode a s =
     (case sdb_codeCache s of
        None \<Rightarrow> (kp_GetCode (sdb_ctx s) a, s)
      | Some m \<Rightarrow>
          (case gm_load m a of
             Some code \<Rightarrow> (code, s)
           | None \<Rightarrow> (kp_GetCode (sdb_ctx s) a, s\<lparr>sdb_codeCache := Some (gm_store a (kp_GetCode (sdb_ctx s) a) m)\<rparr>)))"
proof (cases "slice_bytes (kp_GetCode (sdb_ctx s) a) = []")
  case True
  then have "kp_GetCode (sdb_ctx s) a = None" by (rule kp_GetCode_empty)
  then show ?thesis by (simp add: sdb_GetCode_def Let_def slice_bytes_def split: option.split)
qed (simp add: sdb_GetCode_def putCodeCache_def Let_def split: option.split)

lemma GetCode_value:
  assumes "memo_ok s"
  shows "fst (sdb_GetCode a s) = kp_GetCode (sdb_ctx s) a"
proof (cases "sdb_codeCache s")
  case (Some m)
  with assms have "agrees (kp_GetCode (sdb_ctx s)) (gm_load m)" by (auto simp: memo_ok_Some intro: memo_unwinds_agrees)
  with Some show ?thesis by (auto simp: GetCode_alt agrees_def split: option.splits)
qed (simp add: GetCode_alt)

lemma gm_load_store_fun: "gm_load (gm_store a x m) = (gm_load m)(a \<mapsto> x)"
  by (rule ext) (simp add: gomap_simps)

lemma gm_load_delete_fun: "gm_load (gm_delete a m) = (gm_load m)(a := None)"
  by (rule ext) (simp add: gomap_simps)

lemma memo_ok_GetCode:
  assumes "memo_ok s"
  shows "memo_ok (snd (sdb_GetCode a s))"
proof (cases "\<exists>m. sdb_codeCache s = Some m \<and> gm_load m a = None")
  case True
  then obtain m where m: "sdb_codeCache s = Some m" "gm_load m a = None" by blast
  have "memo_unwinds (rev (sdb_snapshottedCtxs s)) (rev (sdb_journal s)) (kp_GetCode (sdb_ctx s))
      ((gm_load m)(a \<mapsto> kp_GetCode (sdb_ctx s) a))"
    using assms m(1) by (intro memo_unwinds_fill) (simp add: memo_ok_Some)
  then show ?thesis using m by (simp add: GetCode_alt memo_ok_def gm_load_store_fun)
next
  case False
  with assms show ?thesis by (auto simp: GetCode_alt split: option.splits)
qed

text \<open>A write of code at \<open>a\<close>, with the memo entry journaled and then replaced or removed.\<close>

lemma memo_ok_write:
  assumes "memo_ok s" and "\<And>b. b \<noteq> a \<Longrightarrow> kp_GetCode w b = kp_GetCode (sdb_ctx s) b"
    and "\<And>m. sdb_codeCache s = Some m \<Longrightarrow>
      s' = (journalCodeCacheMutation a (set_ctx w s))\<lparr>sdb_codeCache := Some m'\<rparr> \<and> gm_load m' = (gm_load m)(a := x)"
    and "x = None \<or> x = Some (kp_GetCode w a)"
    and "sdb_codeCache s = None \<Longrightarrow> sdb_codeCache s' = None"
  shows "memo_ok s'"
proof (cases "sdb_codeCache s")
  case None
  with assms(5) show ?thesis by (simp add: memo_ok_def)
next
  case (Some m)
  let ?e = "case gm_load m a of None \<Rightarrow> CodeCacheChange a None False | Some prev \<Rightarrow> CodeCacheChange a prev True"
  have s': "s' = s\<lparr>sdb_ctx := w, sdb_journal := sdb_journal s @ [?e], sdb_codeCache := Some m'\<rparr>"
    and m': "gm_load m' = (gm_load m)(a := x)"
    using assms(3) [OF Some] Some by (auto simp: journalCodeCacheMutation_def sdb_sets split: option.splits)
  have "memo_unwinds (rev (sdb_snapshottedCtxs s)) (?e # rev (sdb_journal s)) (kp_GetCode w) ((gm_load m)(a := x))"
    using assms(1,2,4) Some by (intro memo_unwinds_mutate [of _ _ "kp_GetCode (sdb_ctx s)"]) (simp_all add: memo_ok_Some)
  then show ?thesis by (simp add: memo_ok_def s' m' del: memo_unwinds.simps(2))
qed

lemma codeCache_sets [simp]:
  "sdb_codeCache (set_ctx w s) = sdb_codeCache s" "sdb_codeCache (journalCodeCacheMutation a s) = sdb_codeCache s"
  by (auto simp: sdb_sets journalCodeCacheMutation_def split: option.splits)

lemma memo_ok_Refresh:
  assumes "memo_ok s" and "\<And>b. b \<noteq> a \<Longrightarrow> kp_GetCode w b = kp_GetCode (sdb_ctx s) b"
    and "kp_GetCode w a = (if length (slice_bytes code) = 0 then None else code)"
  shows "memo_ok (RefreshCodeCache a code (set_ctx w s))"
proof (rule memo_ok_write [OF assms(1,2), where m' = "gm_store a (kp_GetCode w a) (the (sdb_codeCache s))" and x = "Some (kp_GetCode w a)"])
qed (auto simp: RefreshCodeCache_def putCodeCache_def gm_load_store_fun assms(3) split: option.splits)

lemma kp_SetCode_code:
  "kp_GetCode (kp_SetCode env a code w) b =
     (if b = a then if length (slice_bytes code) = 0 then None else code else kp_GetCode w b)"
  by (cases code)
    (auto simp: kp_SetCode_def kp_GetCode_def Let_def SetAddressMapping_def gomap_simps slice_bytes_def split: option.splits)

lemma memo_ok_SetCode: "memo_ok s \<Longrightarrow> memo_ok (snd (sdb_SetCode env a code s))"
  using memo_ok_Refresh [OF memo_ok_GetCode, of s a "kp_SetCode env a code (sdb_ctx (snd (sdb_GetCode a s)))" a code]
  by (simp add: sdb_SetCode_def RefreshCodeCache_def case_prod_beta Let_def kp_SetCode_code)

lemma memo_ok_upgrade: "memo_ok s \<Longrightarrow> memo_ok (upgrade_code env a code s)"
  unfolding upgrade_code_def by (rule memo_ok_Refresh) (simp_all add: kp_SetCode_code)

lemma memo_ok_clearCode:
  assumes "memo_ok s"
  shows "memo_ok (clearAccountCodeAndNonce a s)"
proof -
  let ?w = "(sdb_ctx s)\<lparr>ew_code := snd (deleteIfExists a (ew_code (sdb_ctx s))),
    ew_codeSize := snd (deleteIfExists a (ew_codeSize (sdb_ctx s))), ew_nonce := snd (deleteIfExists a (ew_nonce (sdb_ctx s)))\<rparr>"
  show ?thesis
  proof (rule memo_ok_write [OF assms, where a = a and w = ?w and m' = "gm_delete a (the (sdb_codeCache s))" and x = None])
  qed (auto simp: kp_GetCode_def deleteIfExists_def gomap_simps clearAccountCodeAndNonce_def Let_def gm_load_delete_fun
      split: option.splits)
qed

lemma memo_ok_clear:
  assumes "memo_ok s"
  shows "memo_ok (clearAccountState a s)"
proof -
  let ?w = "PurgeState a ((sdb_ctx s)\<lparr>ew_codeHash := gm_delete a (ew_codeHash (sdb_ctx s))\<rparr>)"
  have "quiet s (set_ctx ?w (without_override a s))"
    by (simp add: quiet_def PurgeState_def sdb_sets without_override_def memo_free_def split: option.splits)
  then have "memo_ok (set_ctx ?w (without_override a s))" by (rule memo_ok_quiet [OF assms])
  then show ?thesis
    using memo_ok_quiet [OF assms quiet_ops(9)] by (simp add: clearAccountState_alt Let_def memo_ok_clearCode)
qed

subsection \<open>Runs\<close>

lemma memo_ok_Snapshot:
  assumes "memo_ok s"
  shows "memo_ok (snd (sdb_Snapshot s))"
proof (cases "sdb_codeCache s")
  case (Some m)
  with assms show ?thesis
    by (auto simp: memo_ok_def sdb_Snapshot_def journal_append_def Let_def intro: memo_unwinds_agrees)
qed (simp add: memo_ok_def sdb_Snapshot_def journal_append_def Let_def)

lemma memo_ok_Revert:
  assumes "memo_ok s" and "journaled gs s" and "sdb_RevertToSnapshot version s = Inr s'"
  shows "memo_ok s'"
proof -
  have v: "version < length gs" and len: "length gs = length (sdb_snapshottedCtxs s)"
    using assms(2,3) by (auto simp: sdb_RevertToSnapshot_def journaled_def split: if_splits)
  obtain pre where s': "sdb_ctx s' = sdb_snapshottedCtxs s ! version" "sdb_snapshottedCtxs s' = take version (sdb_snapshottedCtxs s)"
    and pre: "rev (sdb_journal s) = pre @ Watermark version # rev (sdb_journal s')"
      "sdb_codeCache s' = map_option (\<lambda>m. fold undo_code pre m) (sdb_codeCache s)"
    using RevertToSnapshot_restores [OF assms(2) v] unfolding assms(3) by (elim exE conjE) (simp only: sum.inject)
  let ?ws = "rev (sdb_snapshottedCtxs s)"
  have ws: "drop (length ?ws - version) ?ws = rev (sdb_snapshottedCtxs s')" "kp_GetCode (rev ?ws ! version) = kp_GetCode (sdb_ctx s')"
    using v len s' by (simp_all add: rev_take)
  have "memo_unwinds (rev (sdb_snapshottedCtxs s')) (rev (sdb_journal s')) (kp_GetCode (sdb_ctx s')) (gm_load (fold undo_code pre m))"
    if "sdb_codeCache s = Some m" for m
    using assms(1) memo_unwinds_revert [of ?ws pre version "rev (sdb_journal s')" "kp_GetCode (sdb_ctx s)" "gm_load m"]
    unfolding memo_ok_Some [OF that] pre(1) ws fold_undo_code_memo by blast
  then show ?thesis using pre(2) by (cases "sdb_codeCache s") (simp_all add: memo_ok_def)
qed

definition touches_code :: "sdb_op \<Rightarrow> bool" where
  "touches_code c =
     (case c of OpSnapshot \<Rightarrow> True | OpRevertToSnapshot v \<Rightarrow> True | OpPrepare a b d ps ts \<Rightarrow> True | OpGetCode a \<Rightarrow> True
      | OpSetCode a code \<Rightarrow> True | OpUpgradeCode a code \<Rightarrow> True | OpCreateAccount a \<Rightarrow> True | _ \<Rightarrow> False)"

lemma exec_quiet: "sdb_exec env c s = Inr s' \<Longrightarrow> \<not> touches_code c \<Longrightarrow> quiet s s'"
  by (cases c)
    (auto simp: touches_code_def sum_bind_Inr_iff CreateContract_def quiet_SetState
      dest: quiet_SubBalance quiet_AddBalance quiet_order.over_Transfer quiet_SubRefund quiet_AddSlot
        quiet_order.over_SelfDestruct quiet_order.over_SelfDestruct6780)

lemma memo_ok_exec:
  assumes "memo_ok s" and "journaled gs s" and "sdb_exec env c s = Inr s'"
  shows "memo_ok s'"
proof (cases "touches_code c")
  case True
  note snap = memo_ok_Snapshot [OF assms(1)]
  show ?thesis
  proof (cases c)
    case (OpRevertToSnapshot v)
    with assms(3) memo_ok_Revert [OF assms(1,2), of v] show ?thesis by simp
  next
    case (OpPrepare sender coinbase dest ps ts)
    with assms(3) memo_ok_quiet [OF snap quiet_order.over_Prepare] show ?thesis by simp
  next
    case (OpCreateAccount a)
    with assms(3) memo_ok_quiet [OF memo_ok_clear [OF assms(1)] quiet_ops(1)] memo_ok_quiet [OF assms(1) quiet_ops(1)]
    show ?thesis by (auto simp: CreateAccount_def)
  qed (use True assms(1,3) snap in \<open>auto simp: touches_code_def memo_ok_GetCode memo_ok_SetCode memo_ok_upgrade\<close>)
next
  case False
  then show ?thesis by (rule memo_ok_quiet [OF assms(1) exec_quiet [OF assms(3)]])
qed

lemma run_memo_ok:
  assumes "sdb_run env cs s = Inr s'" and "journaled gs s" and "memo_ok s"
  shows "memo_ok s'"
  using assms
proof (induction cs arbitrary: s gs)
  case (Cons c cs)
  then obtain s1 where s1: "sdb_exec env c s = Inr s1" "sdb_run env cs s1 = Inr s'" by (auto simp: run_step)
  from Cons.IH [OF s1(2) exec_journaled [OF Cons.prems(2) s1(1)] memo_ok_exec [OF Cons.prems(3,2) s1(1)]] show ?case .
qed simp

lemma memo_ok_New: "memo_ok (NewDBImpl w txIdx viaWasmd fee sim)"
  unfolding NewDBImpl_def by (rule memo_ok_Snapshot) (simp add: memo_ok_def agrees_def)

end
