(* ===== verification/EvmValue.thy ===== *)
theory EvmValue
  imports EvmMemo
begin

text \<open>
  The value in the bank: what a transaction of the EVM takes out of the balances is its surplus. Every call keeps the sum
  of what the bank holds of the base denomination, in wei, and the surplus, and it changes neither the other
  denominations nor the supply; a revert goes back to the sums of the snapshot.
\<close>

subsection \<open>Amounts in coins and wei\<close>

lemma BaseDenom_ok [simp]: "reDnm_match BaseDenom"
  by (simp add: BaseDenom_def) code_simp

lemma MustGetBaseDenom_evm [simp]: "MustGetBaseDenom (evm_bank_env env w) = MustGetBaseDenom (ee_bank env)"
  by (simp add: MustGetBaseDenom_def evm_bank_env_def)

lemma base_coins_eq:
  assumes "0 \<le> u"
  shows "base_coins u = Inr (if u = 0 then [] else [\<lparr>Denom = BaseDenom, Amount = u\<rparr>])"
  using assms
  by (simp add: base_coins_def NewCoin_nonneg lift_sdk_def NewCoins_def sanitizeCoins_def removeZeroCoins_def Coins_Sort_def
      Coins_Validate.simps validate_single_def ValidateDenom_def)

lemma base_coins_facts:
  assumes "0 \<le> u" and "base_coins u = Inr coins"
  shows "amt coins d = (if d = BaseDenom then u else 0)" and "Coins_IsValid coins" and "coins_in_range coins \<longleftrightarrow> int_in_range u"
  using assms
  by (auto simp: base_coins_eq Coins_IsValid_def validate_single_def ValidateDenom_def coins_in_range_def split: if_splits)

lemma word_in_range: "int_in_range (uint (x :: 256 word))"
  using uint_lt2p [of x] by (simp add: int_in_range_iff)

lemma Split_parts:
  assumes "0 \<le> x" and "int_in_range x"
  shows "sdb_SplitUseiWeiAmount x = Inr (x div OneUseiInWei, x mod OneUseiInWei)"
proof -
  have "int_in_range (x div OneUseiInWei)" by (rule div_in_range [OF assms])
  moreover have "int_in_range (x mod OneUseiInWei)"
    using assms(1) by (intro int_in_range_mono [OF _ OneUseiInWei_in_range]) (simp add: less_imp_le)
  ultimately show ?thesis
    using assms(1)
    by (simp add: sdb_SplitUseiWeiAmount_def Let_def NewIntFromBigInt_def int_in_range_def lift_sdk_def signed_divide_int_def
        sgn_if UseiToSweiMultiplier_def OneUseiInWei_def not_less)
qed

lemma parts_of_facts:
  fixes x :: "256 word"
  assumes "parts_of (uint x) coins wei"
  shows "wei = uint x mod OneUseiInWei" and "amt coins d = (if d = BaseDenom then uint x div OneUseiInWei else 0)"
    and "Coins_IsValid coins" and "coins_in_range coins" and "0 \<le> wei"
proof -
  have u: "0 \<le> uint x div OneUseiInWei" by (simp add: pos_imp_zdiv_nonneg_iff)
  have c: "base_coins (uint x div OneUseiInWei) = Inr coins" and w: "wei = uint x mod OneUseiInWei"
    using assms by (auto simp: parts_of_def Split_parts word_in_range)
  show "wei = uint x mod OneUseiInWei" "0 \<le> wei" using w by simp_all
  show "amt coins d = (if d = BaseDenom then uint x div OneUseiInWei else 0)" "Coins_IsValid coins" "coins_in_range coins"
    using base_coins_facts [OF u c] div_in_range [OF _ word_in_range, of x] by simp_all
qed

subsection \<open>The calls\<close>

definition surplus_of :: "DBImpl \<Rightarrow> int" where
  "surplus_of s = ts_surplus (sdb_temp s)"

abbreviation bank_of :: "DBImpl \<Rightarrow> bank" where
  "bank_of s \<equiv> ew_bank (sdb_ctx s)"

text \<open>The bank \<open>b'\<close> comes from \<open>b\<close> by taking out \<open>x\<close> wei of the base denomination.\<close>

definition takes :: "bank \<Rightarrow> int \<Rightarrow> bank \<Rightarrow> bool" where
  "takes b x b' \<longleftrightarrow> shifts BaseDenom b (\<lambda>d. if d = BaseDenom then - x else 0) (\<lambda>_. 0) b'"

lemma takes_trans: "takes b x b1 \<Longrightarrow> takes b1 y b2 \<Longrightarrow> takes b (x + y) b2"
  unfolding takes_def by (drule (1) shifts_trans) (erule shifts_cong; simp)

lemma takes_refl: "bank_ok b \<Longrightarrow> takes b 0 b"
  by (simp add: takes_def shifts_def)

lemma takes_ok: "takes b x b' \<Longrightarrow> bank_ok b'"
  by (simp add: takes_def shifts_def)

text \<open>A call without an error takes from the bank what it adds to the surplus.\<close>

definition settles :: "evm_env \<Rightarrow> DBImpl \<Rightarrow> DBImpl \<Rightarrow> bool" where
  "settles env s s' \<longleftrightarrow>
     (MustGetBaseDenom (ee_bank env) = Inr BaseDenom \<and> sdb_err s' = None \<longrightarrow>
       sdb_err s = None \<and> (bank_ok (bank_of s) \<longrightarrow> takes (bank_of s) (surplus_of s' - surplus_of s) (bank_of s')))"

lemma settles_trans: "settles env s s1 \<Longrightarrow> settles env s1 s2 \<Longrightarrow> settles env s s2"
  using takes_trans [of "bank_of s" "surplus_of s1 - surplus_of s" "bank_of s1" "surplus_of s2 - surplus_of s1" "bank_of s2"]
  by (auto simp: settles_def dest: takes_ok)

text \<open>Calls that leave the bank, the surplus and the error alone.\<close>

definition idle :: "DBImpl \<Rightarrow> DBImpl \<Rightarrow> bool" where
  "idle s s' \<longleftrightarrow> bank_of s' = bank_of s \<and> surplus_of s' = surplus_of s \<and> sdb_err s' = sdb_err s"

lemma idle_settles: "idle s s' \<Longrightarrow> settles env s s'"
  by (simp add: idle_def settles_def takes_refl)

lemma add_surplus_views:
  "add_surplus x s = Inr s' \<Longrightarrow> sdb_ctx s' = sdb_ctx s \<and> surplus_of s' = surplus_of s + x \<and> sdb_err s' = sdb_err s"
  by (auto simp: add_surplus_def sum_bind_Inr_iff surplus_of_def sdb_sets lift_sdk_def Int_Add_iff split: sum.splits if_splits)

lemma SubBalance_settles:
  assumes "SubBalance env a x s = Inr s'"
  shows "settles env s s'"
  using SubBalance_cases [OF assms]
proof (elim disjE exE conjE)
  fix coins wei b1 b2
  assume h: "parts_of (uint x) coins wei"
    "SubUnlockedCoins (evm_bank_env env (sdb_ctx s)) (sdb_getSeiAddress s a) coins True (bank_of s) = Inr b1"
    "SubWei (evm_bank_env env (sdb_ctx s)) (sdb_getSeiAddress s a) wei b1 = Inr b2"
    "add_surplus (uint x) (set_bank b2 s) = Inr s'"
  note parts = parts_of_facts [OF h(1)]
  have "takes (bank_of s) (uint x) b2" if ok: "bank_ok (bank_of s)" and base: "MustGetBaseDenom (ee_bank env) = Inr BaseDenom"
  proof -
    note b1 = SubUnlockedCoins_shifts [OF ok h(2), of BaseDenom]
    then have "bank_ok b1" by (simp add: shifts_def)
    from SubWei_moves [OF this _ _ parts(5) h(3)] base
    have "shifts BaseDenom b1 (\<lambda>d. if d = BaseDenom then - wei else 0) (\<lambda>_. 0) b2" by (simp add: base_moves_def)
    from shifts_trans [OF b1 this] show ?thesis
      unfolding takes_def by (rule shifts_cong) (simp_all add: parts(1,2) minus_div_mult_eq_mod [symmetric])
  qed
  with add_surplus_views [OF h(4)] show ?thesis by (simp add: settles_def sdb_sets surplus_of_def)
qed (simp_all add: settles_def sdb_sets takes_refl)

lemma AddBalance_settles:
  assumes "AddBalance env a x s = Inr s'"
  shows "settles env s s'"
  using AddBalance_cases [OF assms]
proof (elim disjE exE conjE)
  fix coins wei b1 b2
  assume h: "parts_of (uint x) coins wei"
    "AddCoins (evm_bank_env env (sdb_ctx s)) (sdb_getSeiAddress s a) coins True (bank_of s) = Inr b1"
    "AddWei (evm_bank_env env (sdb_ctx s)) (sdb_getSeiAddress s a) wei b1 = Inr b2"
    "add_surplus (- uint x) (set_bank b2 s) = Inr s'"
  note parts = parts_of_facts [OF h(1)]
  have "takes (bank_of s) (- uint x) b2" if ok: "bank_ok (bank_of s)" and base: "MustGetBaseDenom (ee_bank env) = Inr BaseDenom"
  proof -
    note b1 = AddCoins_shifts [OF ok h(2), of BaseDenom]
    then have "bank_ok b1" by (simp add: shifts_def)
    from AddWei_moves [OF this _ _ parts(5) h(3)] base
    have "shifts BaseDenom b1 (\<lambda>d. if d = BaseDenom then wei else 0) (\<lambda>_. 0) b2" by (simp add: base_moves_def)
    from shifts_trans [OF b1 this] show ?thesis
      unfolding takes_def by (rule shifts_cong) (simp_all add: parts(1,2))
  qed
  with add_surplus_views [OF h(4)] show ?thesis by (simp add: settles_def sdb_sets surplus_of_def)
qed (simp_all add: settles_def sdb_sets takes_refl)

lemma create_account_takes: "bank_ok b \<Longrightarrow> takes b 0 (create_account a b)"
  using create_account_shifts [of b BaseDenom a] by (simp add: takes_def shifts_def)

lemma kp_SetCode_bank: "ew_bank (kp_SetCode env a code w) = ew_bank w \<or> ew_bank (kp_SetCode env a code w) = create_account (GetSeiAddressOrDefault w a) (ew_bank w)"
  by (auto simp: kp_SetCode_def Let_def SetAddressMapping_def GetSeiAddressOrDefault_def GetSeiAddress_def)

lemma idle_trans: "idle s s1 \<Longrightarrow> idle s1 s2 \<Longrightarrow> idle s s2"
  by (simp add: idle_def)

lemmas idle_simps = idle_def surplus_of_def sdb_sets Let_def

lemma idle_code [simp]:
  "idle s (journalCodeCacheMutation a s)" "idle s (putCodeCache a code s)" "idle s (snd (sdb_GetCode a s))"
  "idle s (RefreshCodeCache a code s)"
  by (auto simp: idle_simps journalCodeCacheMutation_def putCodeCache_def sdb_GetCode_def RefreshCodeCache_def split: option.splits)

lemma idle_ops [simp]:
  "idle s (MarkAccount a st s)" "idle s (AddLog l s)" "idle s (AddRefund gas s)" "idle s (SetTransientState a key val s)"
  "idle s (SetStorage a states s)" "idle s (AddAddressToAccessList a s)" "idle s (sdb_SetNonce a n s)"
  "idle s (snd (sdb_SetState a key val s))" "idle s (clearAccountState a s)"
  by (auto simp: idle_simps MarkAccount_def AddLog_def AddRefund_def set_refund_def SetTransientState_def SetStorage_def
      AddAddressToAccessList_def set_accessList_def sdb_SetNonce_def kp_SetNonce_def sdb_SetState_def setOverrideState_def
      kp_SetState_def clearAccountState_alt without_override_def clearAccountCodeAndNonce_def journalCodeCacheMutation_def
      PurgeState_def split: option.splits)

lemma idle_SubRefund: "SubRefund gas s = Inr s' \<Longrightarrow> idle s s'"
  by (auto simp: idle_simps SubRefund_def set_refund_def split: if_splits)

lemma idle_AddSlot: "AddSlotToAccessList a slot s = Inr s' \<Longrightarrow> idle s s'"
  by (auto simp: AddSlotToAccessList_def AddAddressToAccessList_def new_slots_def set_accessList_def idle_simps sum_bind_Inr_iff
      split: option.splits if_splits)

lemma settles_code:
  assumes "idle s s1" and "idle (set_ctx (kp_SetCode env a code (sdb_ctx s1)) s1) s'"
  shows "settles env' s s'"
  using assms kp_SetCode_bank [of env a code "sdb_ctx s1"] create_account_takes
  by (auto simp: idle_simps settles_def takes_refl)

interpretation value_order: call_order env "settles env" for env
  by unfold_locales
    (simp add: settles_def takes_refl, erule (1) settles_trans, simp add: idle_settles, rule idle_settles, erule idle_AddSlot,
      erule SubBalance_settles, erule AddBalance_settles, simp add: idle_settles, rule idle_settles,
      simp add: idle_simps DeleteAddressMapping_def)

lemma Snapshot_idle: "idle s (snd (sdb_Snapshot s))"
  by (simp add: idle_simps sdb_Snapshot_def)

lemma exec_settles:
  assumes "sdb_exec env c s = Inr s'" and "\<And>r. c \<noteq> OpRevertToSnapshot r"
  shows "settles env s s'"
proof (cases c)
  case (OpPrepare a b d ps ts)
  with assms(1) have "settles env (snd (sdb_Snapshot s)) s'" by (auto intro: value_order.over_Prepare)
  then show ?thesis by (rule settles_trans [OF idle_settles [OF Snapshot_idle]])
next
  case (OpSetCode a code)
  with assms(1) show ?thesis
    by (auto simp: sdb_SetCode_def case_prod_beta Let_def intro!: settles_code [OF idle_code(3)] idle_trans [OF idle_code(1) idle_code(2)])
next
  case (OpUpgradeCode a code)
  with assms(1) show ?thesis
    by (auto simp: upgrade_code_def intro!: settles_code [of s s env a code] simp: idle_def [of s s])
next
  case (OpCreateAccount a)
  with assms(1) show ?thesis
    by (auto simp: CreateAccount_def intro!: idle_settles idle_trans [OF idle_ops(9) idle_ops(1)])
qed (use assms in \<open>auto simp: sum_bind_Inr_iff CreateContract_def Snapshot_idle idle_settles
    dest: idle_settles [OF idle_SubRefund] idle_settles [OF idle_AddSlot] SubBalance_settles AddBalance_settles
      value_order.over_Transfer value_order.over_SelfDestruct value_order.over_SelfDestruct6780\<close>)

subsection \<open>Runs\<close>

text \<open>\<open>b\<close> is the bank before the transaction: the bank now, and the bank at every open snapshot, miss the surplus of then.\<close>

definition settled :: "bank \<Rightarrow> seen list \<Rightarrow> DBImpl \<Rightarrow> bool" where
  "settled b gs s \<longleftrightarrow>
     (sdb_err s = None \<longrightarrow> takes b (surplus_of s) (bank_of s) \<and>
       list_all2 (\<lambda>w g. takes b (v_surplus g) (ew_bank w)) (rev (sdb_snapshottedCtxs s)) gs)"

lemma v_surplus_see [simp]: "v_surplus (see t) = ts_surplus t"
  by (simp add: see_def)

lemma settled_settles:
  assumes "settled b gs s" and "settles env s s'" and "MustGetBaseDenom (ee_bank env) = Inr BaseDenom"
    and "sdb_err s' = None"
  shows "takes b (surplus_of s') (bank_of s')"
proof -
  have "sdb_err s = None" and t: "takes b (surplus_of s) (bank_of s)"
    using assms by (auto simp: settles_def settled_def)
  from t have "bank_ok (bank_of s)" by (rule takes_ok)
  with assms have "takes (bank_of s) (surplus_of s' - surplus_of s) (bank_of s')" by (auto simp: settles_def)
  from takes_trans [OF t this] show ?thesis by simp
qed

lemma exec_settled:
  assumes "settled b gs s" and "journaled gs s" and "sdb_exec env c s = Inr s'"
    and "MustGetBaseDenom (ee_bank env) = Inr BaseDenom"
  shows "settled b (next_seen c s gs) s'"
  using assms(3)
proof (cases rule: exec_cases)
  case (1 r)
  have r: "r < length gs" by (rule Revert_bound [OF assms(2) 1(2)])
  from RevertToSnapshot_restores [OF assms(2) r] 1(2) have s':
    "sdb_ctx s' = sdb_snapshottedCtxs s ! r" "sdb_snapshottedCtxs s' = take r (sdb_snapshottedCtxs s)" "sdb_err s' = sdb_err s"
    "see (sdb_temp s') = rev gs ! r" by auto
  have len: "length gs = length (sdb_snapshottedCtxs s)" using assms(2) by (simp add: journaled_def)
  show ?thesis
    unfolding settled_def 1(3)
  proof (intro impI conjI)
    assume "sdb_err s' = None"
    with assms(1) s'(3) have l: "list_all2 (\<lambda>w g. takes b (v_surplus g) (ew_bank w)) (rev (sdb_snapshottedCtxs s)) gs"
      by (simp add: settled_def)
    then have "list_all2 (\<lambda>w g. takes b (v_surplus g) (ew_bank w)) (sdb_snapshottedCtxs s) (rev gs)"
      by (simp add: list_all2_rev1)
    from list_all2_nthD [OF this, of r] r len s'(1,4) v_surplus_see [of "sdb_temp s'"]
    show "takes b (surplus_of s') (bank_of s')" by (simp add: surplus_of_def)
    from list_all2_dropI [OF l, of "length gs - r"] r len
    show "list_all2 (\<lambda>w g. takes b (v_surplus g) (ew_bank w)) (rev (sdb_snapshottedCtxs s')) (drop (length gs - r) gs)"
      by (simp add: s'(2) rev_take)
  qed
next
  case 2
  have "settles env s s'" using 2(1) by (intro exec_settles [OF assms(3)]) (auto simp: takes_snapshot_def)
  then show ?thesis
    using settled_settles [OF assms(1) _ assms(4)] assms(1,4) 2(2)
    by (simp add: settled_def 2(3) extends_def settles_def surplus_of_def)
next
  case 3
  have "settles env s s'" using 3(1) by (intro exec_settles [OF assms(3)])
  then show ?thesis
    using settled_settles [OF assms(1) _ assms(4)] assms(1,4) 3(2)
    by (simp add: settled_def 3(3) extends_def settles_def)
qed

lemma run_settled:
  assumes "sdb_run env cs s = Inr s'" and "journaled gs s" and "settled b gs s" and "MustGetBaseDenom (ee_bank env) = Inr BaseDenom"
  shows "\<exists>hs. journaled hs s' \<and> settled b hs s'"
  using assms
proof (induction cs arbitrary: s gs)
  case (Cons c cs)
  then obtain s1 where s1: "sdb_exec env c s = Inr s1" "sdb_run env cs s1 = Inr s'" by (auto simp: run_step)
  from Cons.IH [OF s1(2) exec_journaled [OF Cons.prems(2) s1(1)] exec_settled [OF Cons.prems(3,2) s1(1) Cons.prems(4)]] Cons.prems(4)
  show ?case by simp
qed auto

lemma settled_New:
  assumes "bank_ok (ew_bank w)"
  shows "settled (ew_bank w) [see NewTemporaryState] (NewDBImpl w txIdx viaWasmd fee sim)"
  using takes_refl [OF assms]
  by (simp add: settled_def NewDBImpl_def sdb_Snapshot_def journal_append_def Let_def surplus_of_def NewTemporaryState_def)

lemma clearDestructed_idle: "idle s (clearAccountStateIfDestructed s)"
proof -
  have "idle s (fold (\<lambda>(acc, status) s'. if status \<noteq> AccountDeleted then s' else clearAccountState acc s') xs s)" for xs
  proof (induction xs arbitrary: s)
    case (Cons x xs)
    have "idle s (case x of (acc, status) \<Rightarrow> if status \<noteq> AccountDeleted then s else clearAccountState acc s)"
      by (simp add: idle_def [of s s] split: prod.split)
    from idle_trans [OF this Cons.IH] show ?case by (cases x) simp
  qed (simp add: idle_def)
  then show ?thesis by (simp add: clearAccountStateIfDestructed_def)
qed

lemma Finalize_settles:
  assumes "Finalize env s = Inr (Inr surplus, s')"
  shows "settles env s s' \<and> surplus = surplus_of s' \<and> (\<forall>w \<in> set (sdb_snapshottedCtxs s'). w = sdb_ctx s')"
proof -
  obtain s1 where s1: "handleResidualFundsInDestructedAccounts env s = Inr s1"
      "s' = flushCtxs (clearAccountStateIfDestructed s1)" "surplus = ts_surplus (sdb_temp s')"
    using assms by (auto simp: Finalize_def sum_bind_Inr_iff Let_def split: if_splits option.splits)
  have "idle (clearAccountStateIfDestructed s1) s'" by (simp add: s1(2) flushCtxs_def idle_simps)
  with clearDestructed_idle have "idle s1 s'" by (rule idle_trans)
  then have "settles env s s'" by (rule settles_trans [OF value_order.over_residuals [OF s1(1)] idle_settles])
  then show ?thesis by (auto simp: s1(3) surplus_of_def) (auto simp: s1(2) flushCtxs_def)
qed

subsection \<open>What an account can spend\<close>

lemma LockedCoins_evm [simp]: "LockedCoins (evm_bank_env env w) st a = LockedCoins (ee_bank env) st a"
  by (simp add: LockedCoins_def evm_bank_env_def split: option.split)

lemma must_bank_Inr [simp]: "must_bank (Inr x) = Inr x"
  by (simp add: must_bank_def)

lemma lift_sdk_Inr [simp]: "lift_sdk (Inr x) = Inr x"
  by (simp add: lift_sdk_def)

text \<open>The balance that the EVM shows is what the account holds, in wei, without the locked coins.\<close>

lemma kp_GetBalance_eq:
  assumes "bank_ok (ew_bank w)" and "LockedCoins (ee_bank env) (ew_bank w) a = Inr l" and "coins_ok l"
    and "amt l BaseDenom \<le> bal (ew_bank w) a BaseDenom" and "int_in_range (aggregated BaseDenom (ew_bank w) a)"
  shows "kp_GetBalance env w a = Inr (aggregated BaseDenom (ew_bank w) a - amt l BaseDenom * OneUseiInWei)"
proof -
  let ?u = "bal (ew_bank w) a BaseDenom" and ?w = "GetWeiBalance (ew_bank w) a" and ?l = "amt l BaseDenom"
  note parts = aggregated_parts(1) [OF assms(1), of a] aggregated_parts(3-5) [OF assms(1), of a BaseDenom] aggregated_parts(6) [OF assms(1)]
  have l: "0 \<le> ?l" using assms(3) by (simp add: coins_ok_def valid_amt_nonneg)
  have u: "int_in_range (?u - ?l)"
    using l assms(4) by (intro int_in_range_mono [OF _ parts(3)]) simp
  have mono: "(?u - ?l) * OneUseiInWei \<le> ?u * OneUseiInWei" "0 \<le> (?u - ?l) * OneUseiInWei"
    using l assms(4) by (simp_all add: less_imp_le)
  have agg: "aggregated BaseDenom (ew_bank w) a = ?u * OneUseiInWei + ?w" by (simp add: aggregated_def)
  have "\<bar>(?u - ?l) * OneUseiInWei\<bar> \<le> \<bar>aggregated BaseDenom (ew_bank w) a\<bar>"
      "\<bar>(?u - ?l) * OneUseiInWei + ?w\<bar> \<le> \<bar>aggregated BaseDenom (ew_bank w) a\<bar>"
    using mono parts(1) unfolding agg by linarith+
  then have "int_in_range ((?u - ?l) * OneUseiInWei)" "int_in_range ((?u - ?l) * OneUseiInWei + ?w)"
    using int_in_range_mono [OF _ assms(5)] by blast+
  moreover have "GetBalance (ew_bank w) a BaseDenom = Inr \<lparr>Denom = BaseDenom, Amount = ?u\<rparr>"
    by (rule ab.getB_ok [OF parts(5) BaseDenom_ok])
  moreover have "SdkUseiToSweiMultiplier = OneUseiInWei" by (simp add: SdkUseiToSweiMultiplier_def OneUseiInWei_def)
  ultimately show ?thesis
    using u assms(2) Int_Mul_iff [OF u OneUseiInWei_in_range]
    by (simp add: kp_GetBalance_def Int_Sub_iff Int_Add_iff AmountOf_valid aggregated_def left_diff_distrib)
qed

lemma SubWei_accounts: "SubWei env a x st = Inr st' \<Longrightarrow> accounts st' = accounts st"
  by (auto simp: SubWei_def Let_def sum_bind_Inr_iff setBalance_def setWeiBalance_def split: if_splits)

text \<open>Taking at most what is not locked succeeds in the bank, and leaves the locked coins.\<close>

lemma split_le:
  fixes x u w :: int
  assumes "x \<le> u * OneUseiInWei + w" and "w < OneUseiInWei"
  shows "x div OneUseiInWei \<le> u"
proof -
  have "x div OneUseiInWei * OneUseiInWei \<le> x" using pos_mod_sign [of OneUseiInWei x] by (simp add: minus_mod_eq_div_mult [symmetric])
  also have "x < (u + 1) * OneUseiInWei" using assms by (simp add: distrib_right)
  finally have "x div OneUseiInWei < u + 1" by (simp add: mult_less_cancel_right_pos)
  then show ?thesis by simp
qed

lemma debit_unlocked:
  fixes x :: "256 word"
  assumes "MustGetBaseDenom (ee_bank env) = Inr BaseDenom" and "bank_ok b"
    and "LockedCoins (ee_bank env) b a = Inr l" and "coins_ok l" and "amt l BaseDenom \<le> bal b a BaseDenom"
    and "int_in_range (aggregated BaseDenom b a)"
    and "uint x \<le> aggregated BaseDenom b a - amt l BaseDenom * OneUseiInWei"
    and "parts_of (uint x) coins wei"
  shows "\<exists>b1 b2. SubUnlockedCoins (evm_bank_env env w) a coins True b = Inr b1 \<and> SubWei (evm_bank_env env w) a wei b1 = Inr b2 \<and>
    bank_ok b2 \<and> accounts b2 = accounts b \<and>
    (\<forall>a'. aggregated BaseDenom b2 a' = aggregated BaseDenom b a' - (if a' = a then uint x else 0)) \<and>
    amt l BaseDenom \<le> bal b2 a BaseDenom"
proof -
  let ?u = "bal b a BaseDenom" and ?w = "GetWeiBalance b a" and ?l = "amt l BaseDenom" and ?benv = "evm_bank_env env w"
  note parts = parts_of_facts [OF assms(8)]
  note agg = aggregated_parts(1,2) [OF assms(2), of a] aggregated_parts(3) [OF assms(2), of a BaseDenom] aggregated_parts(6) [OF assms(2)]
  have usei: "uint x div OneUseiInWei \<le> ?u - ?l"
    using assms(7) agg(2) by (intro split_le [of _ _ ?w]) (simp_all add: aggregated_def left_diff_distrib)
  have "SubUnlockedCoins ?benv a coins True b \<noteq> Inl e" for e
    using SubUnlockedCoins_spec [OF agg(4) parts(3,4), of ?benv a l] assms(3,4) usei by (auto simp: parts(2) split: if_splits)
  then obtain b1 where b1: "SubUnlockedCoins ?benv a coins True b = Inr b1" by (cases "SubUnlockedCoins ?benv a coins True b") auto
  note ch = SubUnlockedCoins_changes(1) [OF agg(4) b1]
  have ok1: "bank_ok b1" using SubUnlockedCoins_shifts [OF assms(2) b1, of BaseDenom] by (simp add: shifts_def)
  have "GetWeiBalance b1 a' = GetWeiBalance b a'" for a' using changes_frame(1) [OF ch] by (simp add: GetWeiBalance_def)
  then have agg1: "aggregated BaseDenom b1 a' = aggregated BaseDenom b a' - (if a' = a then uint x div OneUseiInWei * OneUseiInWei else 0)" for a'
    using ch by (simp add: aggregated_def ab.changes_def parts(2) left_diff_distrib)
  have split: "uint x div OneUseiInWei * OneUseiInWei + wei = uint x" by (simp add: parts(1))
  have l: "0 \<le> ?l * OneUseiInWei" using assms(4) by (simp add: coins_ok_def valid_amt_nonneg less_imp_le)
  have x: "0 \<le> uint x div OneUseiInWei * OneUseiInWei" by (simp add: pos_imp_zdiv_nonneg_iff less_imp_le)
  have enough: "wei \<le> aggregated BaseDenom b1 a" using agg1 [of a] assms(7) split l by simp
  have r1: "int_in_range (aggregated BaseDenom b1 a)"
    using agg1 [of a] enough parts(5) x by (intro int_in_range_mono [OF _ assms(6)]) simp
  have "wei \<le> uint x" using split x by linarith
  then have "int_in_range wei" using parts(5) by (intro int_in_range_mono [OF _ word_in_range [of x]]) simp
  from SubWei_spec [OF ok1 _ BaseDenom_ok parts(5) this r1, of ?benv] assms(1) enough
  obtain b2 where b2: "SubWei ?benv a wei b1 = Inr b2" "base_moves BaseDenom b1 a (- wei) b2"
    by (cases "SubWei ?benv a wei b1") auto
  have ok2: "bank_ok b2" by (rule base_moves_bank_ok [OF b2(2)])
  have agg2: "aggregated BaseDenom b2 a' = aggregated BaseDenom b a' - (if a' = a then uint x else 0)" for a'
    using b2(2) agg1 [of a'] split by (simp add: base_moves_def)
  have "?l * OneUseiInWei \<le> bal b2 a BaseDenom * OneUseiInWei + GetWeiBalance b2 a"
    using agg2 [of a] assms(7) by (simp add: aggregated_def)
  then have "?l * OneUseiInWei div OneUseiInWei \<le> bal b2 a BaseDenom"
    using aggregated_parts(2) [OF ok2, of a] by (rule split_le)
  then have "?l \<le> bal b2 a BaseDenom" by simp
  moreover have "accounts b2 = accounts b" using SubWei_accounts [OF b2(1)] changes_frame(6) [OF ch] by simp
  ultimately show ?thesis using b1 b2(1) ok2 agg2 by blast
qed

definition paid :: "256 word \<Rightarrow> bank \<Rightarrow> DBImpl \<Rightarrow> DBImpl" where
  "paid x b s =
     journal_append (SurplusChange (uint x))
       (set_temp ((sdb_temp s)\<lparr>ts_surplus := ts_surplus (sdb_temp s) + uint x\<rparr>) (set_bank b s))"

lemma paid_views [simp]:
  "sdb_ctx (paid x b s) = (sdb_ctx s)\<lparr>ew_bank := b\<rparr>" "sdb_err (paid x b s) = sdb_err s"
  "ts_surplus (sdb_temp (paid x b s)) = ts_surplus (sdb_temp s) + uint x"
  "ts_transientAccounts (sdb_temp (paid x b s)) = ts_transientAccounts (sdb_temp s)"
  "sdb_simulation (paid x b s) = sdb_simulation s"
  by (simp_all add: paid_def sdb_sets)

lemma SubBalance_run:
  assumes "parts_of (uint x) coins wei" and "x \<noteq> 0"
    and "SubUnlockedCoins (evm_bank_env env (sdb_ctx s)) (sdb_getSeiAddress s a) coins True (bank_of s) = Inr b1"
    and "SubWei (evm_bank_env env (sdb_ctx s)) (sdb_getSeiAddress s a) wei b1 = Inr b2"
    and "int_in_range (ts_surplus (sdb_temp s) + uint x)"
  shows "SubBalance env a x s = Inr (paid x b2 s)"
proof -
  obtain u where u: "sdb_SplitUseiWeiAmount (uint x) = Inr (u, wei)" "base_coins u = Inr coins"
    using assms(1) by (auto simp: parts_of_def)
  have "NewIntFromBigInt (uint x) = Inr (uint x)"
    using word_in_range [of x] by (simp add: NewIntFromBigInt_def int_in_range_def not_less)
  moreover have "add_surplus (uint x) (set_bank b2 s) = Inr (paid x b2 s)"
    using assms(5) by (simp add: add_surplus_def paid_def Int_Add_iff sdb_sets)
  ultimately show ?thesis
    using u assms(2-4) by (simp add: SubBalance_def Let_def on_bank_def uint_0_iff)
qed

lemma parts_exist: "\<exists>coins wei. parts_of (uint (x :: 256 word)) coins wei"
  by (simp add: parts_of_def Split_parts word_in_range base_coins_eq pos_imp_zdiv_nonneg_iff)

end
