(* ===== verification/EvmProps.thy ===== *)
theory EvmProps
  imports EvmValue BankProps
begin

text \<open>
  What the state database of the EVM promises: a revert restores the answers of all queries, the memo of code is never
  stale, and the surplus that the end of a transaction reports is what the transaction took out of the bank.
\<close>

subsection \<open>The answers of the queries\<close>

definition same_answers :: "DBImpl \<Rightarrow> DBImpl \<Rightarrow> bool" where
  "same_answers s s' \<longleftrightarrow>
     sdb_ctx s' = sdb_ctx s \<and> ts_logs (sdb_temp s') = ts_logs (sdb_temp s) \<and> GetRefund s' = GetRefund s \<and>
     ts_surplus (sdb_temp s') = ts_surplus (sdb_temp s) \<and>
     (\<forall>a. fst (sdb_GetCode a s') = fst (sdb_GetCode a s) \<and>
       Created s' a = Created s a \<and> HasSelfDestructed s' a = HasSelfDestructed s a \<and>
       AddressInAccessList s' a = AddressInAccessList s a \<and>
       (\<forall>k. sdb_GetState s' a k = sdb_GetState s a k \<and> GetCommittedState s' a k = GetCommittedState s a k \<and>
         GetTransientState s' a k = GetTransientState s a k \<and> SlotInAccessList s' a k = SlotInAccessList s a k))"

lemma see_parts:
  assumes "see t' = see t"
  shows "ts_logs t' = ts_logs t" and "transient_of (ts_transientStates t') = transient_of (ts_transientStates t)"
    and "gm_load (ts_transientAccounts t') = gm_load (ts_transientAccounts t)"
    and "or_zero (gm_load (ts_transientModuleStates t')) GasRefundKey = or_zero (gm_load (ts_transientModuleStates t)) GasRefundKey"
    and "gm_load (al_Addresses (ts_accessLists t')) = gm_load (al_Addresses (ts_accessLists t))"
    and "map set (al_Slots (ts_accessLists t')) = map set (al_Slots (ts_accessLists t))"
    and "overrides_of (ts_storageOverrides t') = overrides_of (ts_storageOverrides t)"
    and "ts_surplus t' = ts_surplus t"
  using assms by (simp_all add: see_def)

lemma GetState_seen:
  "sdb_GetState s a k =
     (case overrides_of (ts_storageOverrides (sdb_temp s)) a of Some (c, m) \<Rightarrow> m k | None \<Rightarrow> kp_GetState (sdb_ctx s) a k)"
  by (simp add: sdb_GetState_def overrides_of_def override_of_def or_zero_def split: option.split)

lemma GetCommittedState_seen:
  "GetCommittedState s a k =
     (case overrides_of (ts_storageOverrides (sdb_temp s)) a of
        Some (c, m) \<Rightarrow> Inr (c k)
      | None \<Rightarrow> (case sdb_snapshottedCtxs s of [] \<Rightarrow> Inl NoSnapshot | base # _ \<Rightarrow> Inr (kp_GetState base a k)))"
  by (simp add: GetCommittedState_def overrides_of_def override_of_def or_zero_def split: option.split)

lemma GetTransientState_seen: "GetTransientState s a k = transient_of (ts_transientStates (sdb_temp s)) a k"
  by (simp add: GetTransientState_def getTransientState_def transient_of_def or_zero_def split: option.split)

lemma GetRefund_seen: "GetRefund s = or_zero (gm_load (ts_transientModuleStates (sdb_temp s))) GasRefundKey"
  by (simp add: GetRefund_def or_zero_def)

lemma SlotInAccessList_seen:
  "SlotInAccessList s a k =
     (let al = ts_accessLists (sdb_temp s); slots = map set (al_Slots al) in
      case gm_load (al_Addresses al) a of
        None \<Rightarrow> Inr (False, False)
      | Some idx \<Rightarrow>
          if idx \<noteq> -1
          then if 0 \<le> idx \<and> idx < int (length slots) then Inr (True, k \<in> slots ! nat idx) else Inl SliceBounds
          else Inr (True, False))"
  by (auto simp: SlotInAccessList_def slots_at_def Let_def split: option.split)

lemma same_answersI:
  assumes "sdb_ctx s' = sdb_ctx s" and "sdb_snapshottedCtxs s' = sdb_snapshottedCtxs s"
    and "see (sdb_temp s') = see (sdb_temp s)" and "memo_ok s" and "memo_ok s'"
  shows "same_answers s s'"
proof -
  note seen = see_parts [OF assms(3)]
  have "SlotInAccessList s' a k = SlotInAccessList s a k" for a k by (simp only: SlotInAccessList_seen Let_def seen)
  moreover have "sdb_GetState s' a k = sdb_GetState s a k" "GetCommittedState s' a k = GetCommittedState s a k" for a k
    unfolding GetState_seen GetCommittedState_seen seen assms(1,2) by (rule refl)+
  ultimately show ?thesis
    by (simp add: same_answers_def assms(1) GetTransientState_seen GetRefund_seen seen Created_def HasSelfDestructed_def AddressInAccessList_def GetCode_value [OF assms(4)] GetCode_value [OF assms(5)])
qed

subsection \<open>An example\<close>

text \<open>The stores hold the bank in which 1000 usei were minted to \<open>m\<close>; the fee collector is \<open>f\<close>.\<close>

definition evm_env0 :: evm_env where
  "evm_env0 = \<lparr>ee_bank = sei_env, ee_Keccak256Hash = (\<lambda>c. of_nat (length c)), ee_EmptyCodeHash = 1, ee_BytesToAddress = (\<lambda>a. a),
     ee_FromBig = (\<lambda>i. (word_of_int i, i \<ge> 2 ^ 256)), ee_IsTracing = False, ee_ChainID = ''pacific-1'', ee_BlockHeight = 1\<rparr>"

definition evm_world0 :: evm_world where
  "evm_world0 = \<lparr>ew_bank = minted_bank, ew_state = [], ew_code = [], ew_codeSize = [], ew_codeHash = [], ew_nonce = [],
     ew_seiAddr = [], ew_evmAddr = []\<rparr>"

abbreviation new_db :: DBImpl where
  "new_db \<equiv> NewDBImpl evm_world0 0 False ''f'' False"

definition before_calls :: "sdb_op list" where
  "before_calls = [OpSetNonce ''m'' 1, OpAddRefund 5, OpAddSlot ''c'' 7, OpGetCode ''c'']"

definition during_calls :: "sdb_op list" where
  "during_calls = [OpSetState ''c'' 1 2, OpSetTransientState ''c'' 1 9, OpSnapshot, OpAddSlot ''d'' 8, OpRevertToSnapshot 2,
     OpSetCode ''c'' (Some ''code'')]"

lemmas state_eval = sdb_run_def NewDBImpl_def sdb_Snapshot_def journal_append_def set_temp_def set_ctx_def set_bank_def Let_def
  NewTemporaryState_def sdb_SetNonce_def kp_SetNonce_def AddRefund_def GetRefund_def set_refund_def evm_world0_def
  AddSlotToAccessList_def AddAddressToAccessList_def set_accessList_def new_slots_def sdb_GetCode_def kp_GetCode_def
  slice_bytes_def

lemmas call_eval = sdb_SetState_def kp_SetState_def SetTransientState_def sdb_RevertToSnapshot_def revert_entry_def undo_slot_def
  slots_at_def undo_transient_def sdb_SetCode_def putCodeCache_def journalCodeCacheMutation_def
  kp_SetCode_def GetSeiAddress_def SetAddressMapping_def create_account_def

definition state_before :: DBImpl where
  "state_before = (case sdb_run evm_env0 before_calls new_db of Inr s \<Rightarrow> s)"

definition state_during :: DBImpl where
  "state_during = (case sdb_run evm_env0 during_calls (snd (sdb_Snapshot state_before)) of Inr s \<Rightarrow> s)"

lemma before_run: "sdb_run evm_env0 before_calls new_db = Inr state_before"
  by (simp add: state_before_def before_calls_def state_eval)

lemma during_run: "sdb_run evm_env0 during_calls (snd (sdb_Snapshot state_before)) = Inr state_during"
  by (simp add: state_during_def during_calls_def state_before_def before_calls_def state_eval call_eval)

lemma new_db_views [simp]:
  "sdb_ctx new_db = evm_world0" "sdb_err new_db = None" "sdb_temp new_db = NewTemporaryState" "sdb_simulation new_db = False"
  "sdb_getSeiAddress new_db ''m'' = ''m''" "ew_bank evm_world0 = minted_bank" "ee_bank evm_env0 = sei_env"
  by (simp_all add: NewDBImpl_def sdb_Snapshot_def journal_append_def Let_def sdb_getSeiAddress_def GetSeiAddressOrDefault_def
      GetSeiAddress_def evm_world0_def evm_env0_def)

lemma minted_account:
  "MustGetBaseDenom sei_env = Inr BaseDenom" "LockedCoins sei_env minted_bank ''m'' = Inr []" "coins_ok []"
  "bal minted_bank ''m'' BaseDenom = 1000" "aggregated BaseDenom minted_bank ''m'' = 1000000000000000" "bank_ok minted_bank"
  using usei_ok minted_ok
  by (simp_all add: MustGetBaseDenom_def BaseDenom_def LockedCoins_def minted_views acc_LockedCoins_def lift_panic_def lift_acc_def sdk_def
      coins_ok_def Coins_IsValid_def coins_in_range_def ab.held_def aggregated_def GetWeiBalance_def OneUseiInWei_def)

lemma example_shown: "kp_GetBalance evm_env0 evm_world0 ''m'' = Inr 1000000000000000"
  using kp_GetBalance_eq [of evm_world0 evm_env0 "''m''" "[]"] minted_account by (simp add: int_in_range_iff)

lemma example_paid: "\<exists>b. SubBalance evm_env0 ''m'' 5000000000007 new_db = Inr (paid 5000000000007 b new_db)"
proof -
  obtain coins wei where parts: "parts_of (uint (5000000000007 :: 256 word)) coins wei" using parts_exist by blast
  obtain b1 b2 where "SubUnlockedCoins (evm_bank_env evm_env0 evm_world0) ''m'' coins True minted_bank = Inr b1"
      "SubWei (evm_bank_env evm_env0 evm_world0) ''m'' wei b1 = Inr b2"
    using debit_unlocked [OF _ minted_account(6) _ minted_account(3) _ _ _ parts, of evm_env0 "''m''" evm_world0] minted_account
    by (auto simp: int_in_range_iff)
  then show ?thesis
    using SubBalance_run [OF parts, of evm_env0 new_db "''m''" b1 b2] by (auto simp: NewTemporaryState_def int_in_range_iff)
qed

subsection \<open>Reverts\<close>

lemma take_Suc_snoc:
  assumes "take (Suc n) xs = ys @ [y]" and "length ys = n"
  shows "xs ! n = y" and "take n xs = ys"
proof -
  have "length (take (Suc n) xs) = Suc n" using assms by simp
  then have "n < length xs" by simp
  then have "take (Suc n) xs = take n xs @ [xs ! n]" by (rule take_Suc_conv_app_nth)
  with assms(1) show "xs ! n = y" "take n xs = ys" by simp_all
qed

text \<open>C3. In any transaction, after any calls, a snapshot followed by any further calls (with their own snapshots, and
  reverts that do not reach below it) can be reverted: \<open>RevertToSnapshot\<close> never panics, and afterwards the stores and the
  answers of all queries (storage, committed and transient storage, code, logs, refund, surplus, access list, created and
  destroyed accounts) are those of the moment of the snapshot.\<close>

theorem revert_restores_state:
  assumes "sdb_run env before (NewDBImpl w txIdx viaWasmd fee sim) = Inr s"
    and "sdb_Snapshot s = (version, s1)"
    and "sdb_run env during s1 = Inr s2"
    and "list_all (stays_above version) during"
  shows "\<exists>s'. sdb_RevertToSnapshot version s2 = Inr s' \<and> same_answers s s' \<and> sdb_snapshottedCtxs s' = sdb_snapshottedCtxs s"
proof -
  obtain gs where gs: "journaled gs s" using run_journaled [OF assms(1) journaled_New] by blast
  have memo: "memo_ok s" by (rule run_memo_ok [OF assms(1) journaled_New memo_ok_New])
  have v: "version = length gs" and s1: "s1 = snd (sdb_Snapshot s)"
    using assms(2) gs by (auto simp: sdb_Snapshot_def Let_def journaled_def)
  note j1 = journaled_Snapshot [OF gs, folded s1]
  obtain hs where hs: "journaled hs s2" "suffix (see (sdb_temp s) # gs) hs"
      "take (Suc version) (sdb_snapshottedCtxs s2) = take (Suc version) (sdb_snapshottedCtxs s1)"
    using run_open [OF assms(3) j1 suffix_order.refl _ assms(4)] v by auto
  have len: "length gs = length (sdb_snapshottedCtxs s)" using gs by (simp add: journaled_def)
  have snaps: "take (Suc version) (sdb_snapshottedCtxs s2) = sdb_snapshottedCtxs s @ [sdb_ctx s]"
    using hs(3) v len by (simp add: s1)
  from hs(2) obtain ns where ns: "hs = ns @ see (sdb_temp s) # gs" by (auto simp: suffix_def)
  obtain s' where s': "sdb_RevertToSnapshot version s2 = Inr s'" "sdb_ctx s' = sdb_snapshottedCtxs s2 ! version"
      "sdb_snapshottedCtxs s' = take version (sdb_snapshottedCtxs s2)" "see (sdb_temp s') = rev hs ! version"
    using RevertToSnapshot_restores [OF hs(1), of version] v ns by auto
  have "sdb_snapshottedCtxs s2 ! version = sdb_ctx s" "take version (sdb_snapshottedCtxs s2) = sdb_snapshottedCtxs s"
    using take_Suc_snoc [OF snaps] v len by simp_all
  moreover have "rev hs ! version = see (sdb_temp s)" using v ns by (simp add: nth_append)
  moreover have "memo_ok s'"
    by (rule memo_ok_Revert [OF run_memo_ok [OF assms(3) j1 memo_ok_Snapshot [OF memo, folded s1]] hs(1) s'(1)])
  ultimately have "same_answers s s'" using s' memo by (intro same_answersI) simp_all
  with s' \<open>take version (sdb_snapshottedCtxs s2) = sdb_snapshottedCtxs s\<close> show ?thesis by auto
qed

theorem revert_restores_state_witness:
  "\<exists>s s1 s2 s'. sdb_run evm_env0 before_calls new_db = Inr s \<and> sdb_Snapshot s = (1, s1) \<and>
    sdb_run evm_env0 during_calls s1 = Inr s2 \<and> sdb_RevertToSnapshot 1 s2 = Inr s' \<and> same_answers s s'"
proof -
  have "fst (sdb_Snapshot state_before) = 1" by (simp add: state_before_def before_calls_def state_eval)
  then have snap: "sdb_Snapshot state_before = (1, snd (sdb_Snapshot state_before))" by (simp add: prod_eq_iff)
  have "list_all (stays_above 1) during_calls" by (simp add: during_calls_def stays_above_def)
  from revert_restores_state [OF before_run snap during_run this] before_run snap during_run show ?thesis by blast
qed

text \<open>C7. In every state of every transaction, reading code through the memo returns what the keeper reads from the
  stores: reads that fill the memo, writes, upgrades, recreated accounts and reverts never leave a stale entry.\<close>

theorem GetCode_reads_the_stores:
  assumes "sdb_run env cs (NewDBImpl w txIdx viaWasmd fee sim) = Inr s"
  shows "fst (sdb_GetCode a s) = kp_GetCode (sdb_ctx s) a"
  by (rule GetCode_value [OF run_memo_ok [OF assms journaled_New memo_ok_New]])

theorem GetCode_reads_the_stores_witness:
  "\<exists>s. sdb_run evm_env0 before_calls new_db = Inr s \<and> fst (sdb_GetCode ''c'' s) = kp_GetCode (sdb_ctx s) ''c''"
  using before_run GetCode_reads_the_stores [OF before_run, of "''c''"] by blast

text \<open>C4. When a transaction ends without an error, the surplus that \<open>Finalize\<close> reports is exactly the number of wei that
  the transaction took out of the bank: reverted calls, self-destructed accounts and their residual funds included. The
  other denominations and the supply are as before, and all branches of the stores show the final state.\<close>

theorem Finalize_reports_what_left_the_bank:
  assumes "MustGetBaseDenom (ee_bank env) = Inr BaseDenom" and "bank_ok (ew_bank w)"
    and "sdb_run env cs (NewDBImpl w txIdx viaWasmd fee sim) = Inr s"
    and "Finalize env s = Inr (Inr surplus, s')" and "sdb_err s' = None"
  shows "bank_ok (ew_bank (sdb_ctx s')) \<and>
    worth BaseDenom (ew_bank (sdb_ctx s')) BaseDenom = worth BaseDenom (ew_bank w) BaseDenom - surplus \<and>
    (\<forall>d. d \<noteq> BaseDenom \<longrightarrow> worth BaseDenom (ew_bank (sdb_ctx s')) d = worth BaseDenom (ew_bank w) d) \<and>
    (\<forall>d. supply_of (ew_bank (sdb_ctx s')) d = supply_of (ew_bank w) d) \<and>
    list_all (\<lambda>c. c = sdb_ctx s') (sdb_snapshottedCtxs s')"
proof -
  obtain hs where "settled (ew_bank w) hs s"
    using run_settled [OF assms(3) journaled_New settled_New [OF assms(2)] assms(1)] by blast
  note fin = Finalize_settles [OF assms(4)]
  from settled_settles [OF \<open>settled (ew_bank w) hs s\<close> _ assms(1,5)] fin
  have "takes (ew_bank w) surplus (ew_bank (sdb_ctx s'))" by simp
  with fin show ?thesis by (simp add: takes_def shifts_def list_all_iff)
qed

theorem Finalize_reports_what_left_the_bank_witness:
  "\<exists>s s'. sdb_run evm_env0 [OpSubBalance ''m'' 5000000000007] new_db = Inr s \<and>
    Finalize evm_env0 s = Inr (Inr 5000000000007, s') \<and>
    worth BaseDenom (ew_bank (sdb_ctx s')) BaseDenom = worth BaseDenom minted_bank BaseDenom - 5000000000007"
proof -
  obtain b where b: "SubBalance evm_env0 ''m'' 5000000000007 new_db = Inr (paid 5000000000007 b new_db)" using example_paid by blast
  let ?s = "paid 5000000000007 b new_db"
  have run: "sdb_run evm_env0 [OpSubBalance ''m'' 5000000000007] new_db = Inr ?s" by (simp add: sdb_run_def b)
  have fin: "Finalize evm_env0 ?s = Inr (Inr 5000000000007, flushCtxs ?s)"
    by (simp add: Finalize_def handleResidualFundsInDestructedAccounts_def clearAccountStateIfDestructed_def NewTemporaryState_def
        flushCtxs_def Let_def)
  have "sdb_err (flushCtxs ?s) = None" by (simp add: flushCtxs_def)
  from Finalize_reports_what_left_the_bank [OF _ _ run fin this] minted_account(1,6) run fin show ?thesis by auto
qed

text \<open>C8. What the EVM shows as the balance of an account can be spent, to the last wei, and the locked coins stay: taking at
  most that amount succeeds without an error, the balance shown afterwards is smaller by exactly the amount, the account
  still holds its locked coins, no other account changes, and the surplus grows by the amount.\<close>

theorem SubBalance_spends_what_is_shown:
  assumes addr_def: "addr = sdb_getSeiAddress s a" and b_def: "b = ew_bank (sdb_ctx s)"
    and "MustGetBaseDenom (ee_bank env) = Inr BaseDenom" and "bank_ok b"
    and "LockedCoins (ee_bank env) b addr = Inr l" and "coins_ok l" and "amt l BaseDenom \<le> bal b addr BaseDenom"
    and "int_in_range (aggregated BaseDenom b addr)" and "int_in_range (ts_surplus (sdb_temp s) + uint x)"
    and "kp_GetBalance env (sdb_ctx s) addr = Inr shown" and "uint x \<le> shown"
  shows "\<exists>s'. SubBalance env a x s = Inr s' \<and> sdb_err s' = sdb_err s \<and>
    kp_GetBalance env (sdb_ctx s') addr = Inr (shown - uint x) \<and>
    amt l BaseDenom \<le> bal (ew_bank (sdb_ctx s')) addr BaseDenom \<and>
    (\<forall>a'. a' \<noteq> addr \<longrightarrow> aggregated BaseDenom (ew_bank (sdb_ctx s')) a' = aggregated BaseDenom b a') \<and>
    ts_surplus (sdb_temp s') = ts_surplus (sdb_temp s) + uint x"
proof (cases "x = 0")
  case True
  then have "SubBalance env a x s = Inr s" by (simp add: SubBalance_def)
  with True assms show ?thesis by simp
next
  case False
  note shown = kp_GetBalance_eq [OF assms(4) [unfolded b_def] assms(5-8) [unfolded b_def]]
  then have x: "uint x \<le> aggregated BaseDenom b addr - amt l BaseDenom * OneUseiInWei"
    and shown': "shown = aggregated BaseDenom b addr - amt l BaseDenom * OneUseiInWei"
    using assms(10,11) by (simp_all add: b_def)
  obtain coins wei where parts: "parts_of (uint x) coins wei" using parts_exist by blast
  from debit_unlocked [OF assms(3-8) x parts, of "sdb_ctx s"] obtain b1 b2 where
    b1: "SubUnlockedCoins (evm_bank_env env (sdb_ctx s)) addr coins True b = Inr b1" and
    b2: "SubWei (evm_bank_env env (sdb_ctx s)) addr wei b1 = Inr b2" "bank_ok b2" "accounts b2 = accounts b"
      "\<And>a'. aggregated BaseDenom b2 a' = aggregated BaseDenom b a' - (if a' = addr then uint x else 0)"
      "amt l BaseDenom \<le> bal b2 addr BaseDenom" by blast
  have sub: "SubBalance env a x s = Inr (paid x b2 s)"
    by (rule SubBalance_run [OF parts False b1 [unfolded addr_def b_def] b2(1) [unfolded addr_def] assms(9)])
  have "aggregated BaseDenom b2 addr \<le> aggregated BaseDenom b addr" using b2(4) [of addr] by simp
  then have "int_in_range (aggregated BaseDenom b2 addr)"
    using aggregated_nonneg [OF b2(2), of BaseDenom addr] by (intro int_in_range_mono [OF _ assms(8)]) simp
  moreover have "LockedCoins (ee_bank env) b2 addr = Inr l" using assms(5) b2(3) by (simp add: LockedCoins_def)
  ultimately have "kp_GetBalance env ((sdb_ctx s)\<lparr>ew_bank := b2\<rparr>) addr = Inr (shown - uint x)"
    using kp_GetBalance_eq [of "(sdb_ctx s)\<lparr>ew_bank := b2\<rparr>" env addr l] assms(6) b2 by (simp add: shown')
  with sub b2 show ?thesis by simp
qed

theorem SubBalance_spends_what_is_shown_witness:
  "\<exists>s'. SubBalance evm_env0 ''m'' 5000000000007 new_db = Inr s' \<and> kp_GetBalance evm_env0 (sdb_ctx s') ''m'' = Inr 994999999999993"
  using SubBalance_spends_what_is_shown [of "''m''" new_db "''m''" minted_bank evm_env0 "[]" 5000000000007 1000000000000000]
    minted_account example_shown
  by (auto simp: NewTemporaryState_def int_in_range_iff)

text \<open>When an account holds less than its locked coins, the amount that \<open>GetBalance\<close> of the keeper returns is negative; the
  state database hands it to \<open>uint256.FromBig\<close>, whose overflow flag does not tell negative numbers.\<close>

lemma shown_balance_negative: "kp_GetBalance evm_env0 evm_world0 ''v'' = Inr (- 1000000000000000)"
proof -
  have "LockedCoins sei_env minted_bank ''v'' = Inr (usei 1000)" 
    by (simp add: LockedCoins_def minted_views locked_account_coins)
  moreover have "GetBalance minted_bank ''v'' BaseDenom = Inr \<lparr>Denom = BaseDenom, Amount = 0\<rparr>"
    by (simp add: GetBalance_def minted_views NewCoin_nonneg lift_panic_def lift_acc_def sdk_def)
  moreover have "Int_Mul (- 1000) SdkUseiToSweiMultiplier = Inr (- 1000000000000000)"
    by (simp add: Int_Mul_iff int_in_range_iff SdkUseiToSweiMultiplier_def)
  moreover have "AmountOf (usei 1000) BaseDenom = Inr 1000" by (simp add: AmountOf_valid) (simp add: usei_def BaseDenom_def)
  ultimately show ?thesis
    by (simp add: kp_GetBalance_def Int_Sub_iff Int_Add_iff int_in_range_iff GetWeiBalance_def minted_views)
qed

end
