(* ===== verification/PrefixStore.thy ===== *)
theory PrefixStore
  imports KVStore
begin

text \<open>
  Prefix stores: \<open>src/sei-cosmos/store/prefix/store.go\<close> and \<open>PrefixEndBytes\<close> of \<open>store/types/utils.go\<close>. Modules share
  one store and give each kind of record a prefix; a prefix store shows the records with its prefix, under keys without
  it. The parent is given by its content, and an iterator of the parent by the pairs still to come.
\<close>

subsection \<open>The end of a prefix\<close>

text \<open>The loop over the bytes from the last to the first: the last byte below 255 is increased, the bytes of value 255
  after it are cut off.\<close>

fun prefix_end_loop :: "bytes \<Rightarrow> slice" where
  "prefix_end_loop [] = None"
| "prefix_end_loop (b # front) =
     (if b \<noteq> char_of (255 :: nat) then Some (rev (char_of (of_char b + 1 :: nat) # front)) else prefix_end_loop front)"

definition PrefixEndBytes :: "bytes \<Rightarrow> slice" where
  "PrefixEndBytes p = (if length p = 0 then None else prefix_end_loop (rev p))"

definition cpIncr :: "bytes \<Rightarrow> slice" where
  "cpIncr bz = PrefixEndBytes bz"

subsection \<open>The store\<close>

record pstore =
  ps_parent :: kvstore
  ps_prefix :: bytes

datatype prefix_panic =
    NilKeyOnStore
  | StorePanic panic
  | PrefixIteratorInvalid
  | ShouldNotHappen

definition cloneAppend :: "bytes \<Rightarrow> slice \<Rightarrow> bytes" where
  "cloneAppend bz tail = bz @ slice_bytes tail"

definition ps_key :: "pstore \<Rightarrow> slice \<Rightarrow> prefix_panic + bytes" where
  "ps_key s key = (if key = None then Inl NilKeyOnStore else Inr (cloneAppend (ps_prefix s) key))"

definition ps_Get :: "slice \<Rightarrow> pstore \<Rightarrow> prefix_panic + slice" where
  "ps_Get key s = sum_bind (ps_key s key) (\<lambda>k. Inr (kv_Get (ps_parent s) k))"

definition ps_Has :: "slice \<Rightarrow> pstore \<Rightarrow> prefix_panic + bool" where
  "ps_Has key s = sum_bind (ps_key s key) (\<lambda>k. Inr (kv_Has (ps_parent s) k))"

definition ps_Set :: "slice \<Rightarrow> slice \<Rightarrow> pstore \<Rightarrow> prefix_panic + pstore" where
  "ps_Set key v s =
     (case AssertValidKey (slice_bytes key) of
        Some p \<Rightarrow> Inl (StorePanic p)
      | None \<Rightarrow>
          (case AssertValidValue v of
             Some p \<Rightarrow> Inl (StorePanic p)
           | None \<Rightarrow> sum_bind (ps_key s key) (\<lambda>k. Inr (s\<lparr>ps_parent := kv_Set k (slice_bytes v) (ps_parent s)\<rparr>))))"

definition ps_Delete :: "slice \<Rightarrow> pstore \<Rightarrow> prefix_panic + pstore" where
  "ps_Delete key s = sum_bind (ps_key s key) (\<lambda>k. Inr (s\<lparr>ps_parent := kv_Delete k (ps_parent s)\<rparr>))"

text \<open>The parent answers for a range as the adapter of a plain database does: it walks the range with an iterator,
  collects the keys, and deletes them one by one.\<close>

definition kv_GetAllKeyStrsInRange :: "slice \<Rightarrow> slice \<Rightarrow> kvstore \<Rightarrow> bytes list" where
  "kv_GetAllKeyStrsInRange start end' st = map fst (kv_Iterator st start end' True)"

definition kv_DeleteAll :: "slice \<Rightarrow> slice \<Rightarrow> kvstore \<Rightarrow> kvstore" where
  "kv_DeleteAll start end' st = fold kv_Delete (map fst (kv_Iterator st start end' True)) st"

definition ps_newend :: "pstore \<Rightarrow> slice \<Rightarrow> slice" where
  "ps_newend s end' = (if end' = None then cpIncr (ps_prefix s) else Some (cloneAppend (ps_prefix s) end'))"

definition ps_DeleteAll :: "slice \<Rightarrow> slice \<Rightarrow> pstore \<Rightarrow> pstore" where
  "ps_DeleteAll start end' s =
     (let newstart = cloneAppend (ps_prefix s) start; newend = ps_newend s end'
      in s\<lparr>ps_parent := kv_DeleteAll (Some newstart) newend (ps_parent s)\<rparr>)"

definition ps_GetAllKeyStrsInRange :: "slice \<Rightarrow> slice \<Rightarrow> pstore \<Rightarrow> bytes list" where
  "ps_GetAllKeyStrsInRange start end' s =
     (let newstart = cloneAppend (ps_prefix s) start; newend = ps_newend s end'
      in kv_GetAllKeyStrsInRange (Some newstart) newend (ps_parent s))"

subsection \<open>Iterators\<close>

record prefixIterator =
  pi_prefix :: bytes
  pi_start :: slice
  pi_end :: slice
  pi_iter :: "(bytes \<times> bytes) list"
  pi_valid :: bool

definition HasPrefix :: "bytes \<Rightarrow> bytes \<Rightarrow> bool" where
  "HasPrefix s p \<longleftrightarrow> length p \<le> length s \<and> take (length p) s = p"

definition newPrefixIterator :: "bytes \<Rightarrow> slice \<Rightarrow> slice \<Rightarrow> (bytes \<times> bytes) list \<Rightarrow> prefixIterator" where
  "newPrefixIterator p start end' parent =
     \<lparr>pi_prefix = p, pi_start = start, pi_end = end', pi_iter = parent,
      pi_valid = (case parent of [] \<Rightarrow> False | (k, v) # _ \<Rightarrow> HasPrefix k p)\<rparr>"

definition pi_Domain :: "prefixIterator \<Rightarrow> slice \<times> slice" where
  "pi_Domain it = (pi_start it, pi_end it)"

definition pi_Valid :: "prefixIterator \<Rightarrow> bool" where
  "pi_Valid it \<longleftrightarrow> pi_valid it \<and> pi_iter it \<noteq> []"

text \<open>Moving or reading a parent iterator that is at its end panics.\<close>

definition pi_Next :: "prefixIterator \<Rightarrow> prefix_panic + prefixIterator" where
  "pi_Next it =
     (if \<not> pi_valid it then Inl PrefixIteratorInvalid
      else case pi_iter it of
        [] \<Rightarrow> Inl (StorePanic InvalidIterator)
      | _ # rest \<Rightarrow>
          Inr (it\<lparr>pi_iter := rest,
                 pi_valid := (case rest of [] \<Rightarrow> False | (k, v) # _ \<Rightarrow> HasPrefix k (pi_prefix it))\<rparr>))"

definition stripPrefix :: "bytes \<Rightarrow> bytes \<Rightarrow> prefix_panic + bytes" where
  "stripPrefix key p =
     (if length key < length p \<or> take (length p) key \<noteq> p then Inl ShouldNotHappen else Inr (drop (length p) key))"

definition pi_Key :: "prefixIterator \<Rightarrow> prefix_panic + bytes" where
  "pi_Key it =
     (if \<not> pi_valid it then Inl PrefixIteratorInvalid
      else case pi_iter it of
        [] \<Rightarrow> Inl (StorePanic InvalidIterator)
      | (k, v) # _ \<Rightarrow> stripPrefix k (pi_prefix it))"

definition pi_Value :: "prefixIterator \<Rightarrow> prefix_panic + bytes" where
  "pi_Value it =
     (if \<not> pi_valid it then Inl PrefixIteratorInvalid
      else case pi_iter it of
        [] \<Rightarrow> Inl (StorePanic InvalidIterator)
      | (k, v) # _ \<Rightarrow> Inr v)"

definition ps_Iterator :: "slice \<Rightarrow> slice \<Rightarrow> pstore \<Rightarrow> prefixIterator" where
  "ps_Iterator start end' s =
     (let newstart = cloneAppend (ps_prefix s) start; newend = ps_newend s end';
          iter = kv_Iterator (ps_parent s) (Some newstart) newend True
      in newPrefixIterator (ps_prefix s) start end' iter)"

definition ps_ReverseIterator :: "slice \<Rightarrow> slice \<Rightarrow> pstore \<Rightarrow> prefixIterator" where
  "ps_ReverseIterator start end' s =
     (let newstart = cloneAppend (ps_prefix s) start; newend = ps_newend s end';
          iter = kv_Iterator (ps_parent s) (Some newstart) newend False
      in newPrefixIterator (ps_prefix s) start end' iter)"

text \<open>What a client reads who takes the key and the value and calls \<open>Next\<close> while the iterator is valid. The number
  bounds the steps; the result is \<open>None\<close> when the iterator is still valid after them.\<close>

fun pi_collect :: "nat \<Rightarrow> prefixIterator \<Rightarrow> (prefix_panic + (bytes \<times> bytes) list) option" where
  "pi_collect 0 it = (if pi_Valid it then None else Some (Inr []))"
| "pi_collect (Suc n) it =
     (if pi_Valid it then
        case sum_bind (pi_Key it) (\<lambda>k. sum_bind (pi_Value it) (\<lambda>v. sum_bind (pi_Next it) (\<lambda>it'. Inr ((k, v), it')))) of
          Inl p \<Rightarrow> Some (Inl p)
        | Inr (kv, it') \<Rightarrow> map_option (\<lambda>r. sum_bind r (\<lambda>kvs. Inr (kv # kvs))) (pi_collect n it')
      else Some (Inr []))"

text \<open>\<open>PurgePrefix\<close> of the EVM keeper removes all records of a prefix.\<close>

definition PurgePrefix :: "bytes \<Rightarrow> kvstore \<Rightarrow> kvstore" where
  "PurgePrefix pref st = ps_parent (ps_DeleteAll None None \<lparr>ps_parent = st, ps_prefix = pref\<rparr>)"

subsection \<open>Clients of a prefix store\<close>

text \<open>A client calls the operations one after the other; after a panic it goes on with the store as it was.\<close>

datatype pop =
    PGet slice
  | PHas slice
  | PSet slice slice
  | PDelete slice
  | PDeleteAll slice slice
  | PIterate slice slice
  | PReverseIterate slice slice

datatype pres =
    PValue slice
  | PBool bool
  | PUnit
  | PPairs "(bytes \<times> bytes) list"
  | PUnfinished

definition pi_pairs :: "prefixIterator \<Rightarrow> prefix_panic + pres" where
  "pi_pairs it =
     (case pi_collect (length (pi_iter it)) it of
        None \<Rightarrow> Inr PUnfinished
      | Some r \<Rightarrow> sum_bind r (\<lambda>kvs. Inr (PPairs kvs)))"

definition answer :: "'s \<Rightarrow> prefix_panic + 's \<Rightarrow> (prefix_panic + pres) \<times> 's" where
  "answer s r = (case r of Inl p \<Rightarrow> (Inl p, s) | Inr s' \<Rightarrow> (Inr PUnit, s'))"

fun ps_op :: "pop \<Rightarrow> pstore \<Rightarrow> (prefix_panic + pres) \<times> pstore" where
  "ps_op (PGet key) s = (sum_bind (ps_Get key s) (\<lambda>v. Inr (PValue v)), s)"
| "ps_op (PHas key) s = (sum_bind (ps_Has key s) (\<lambda>b. Inr (PBool b)), s)"
| "ps_op (PSet key v) s = answer s (ps_Set key v s)"
| "ps_op (PDelete key) s = answer s (ps_Delete key s)"
| "ps_op (PDeleteAll start end') s = (Inr PUnit, ps_DeleteAll start end' s)"
| "ps_op (PIterate start end') s = (pi_pairs (ps_Iterator start end' s), s)"
| "ps_op (PReverseIterate start end') s = (pi_pairs (ps_ReverseIterator start end' s), s)"

fun ps_run :: "pop list \<Rightarrow> pstore \<Rightarrow> (prefix_panic + pres) list \<times> pstore" where
  "ps_run [] s = ([], s)"
| "ps_run (op # ops) s = (let (r, s1) = ps_op op s; (rs, s2) = ps_run ops s1 in (r # rs, s2))"

text \<open>The contract: the same calls on a store that holds only the records of the prefix, under keys without it.\<close>

definition strip :: "bytes \<Rightarrow> kvstore \<Rightarrow> kvstore" where
  "strip p st = map (\<lambda>(k, v). (drop (length p) k, v)) (filter (\<lambda>(k, v). HasPrefix k p) st)"

definition own_key :: "slice \<Rightarrow> prefix_panic + bytes" where
  "own_key key = (case key of None \<Rightarrow> Inl NilKeyOnStore | Some k \<Rightarrow> Inr k)"

fun own_op :: "pop \<Rightarrow> kvstore \<Rightarrow> (prefix_panic + pres) \<times> kvstore" where
  "own_op (PGet key) m = (sum_bind (own_key key) (\<lambda>k. Inr (PValue (kv_Get m k))), m)"
| "own_op (PHas key) m = (sum_bind (own_key key) (\<lambda>k. Inr (PBool (kv_Get m k \<noteq> None))), m)"
| "own_op (PSet key v) m =
     (if slice_bytes key = [] then (Inl (StorePanic KeyIsNil), m)
      else case v of
        None \<Rightarrow> (Inl (StorePanic ValueIsNil), m)
      | Some b \<Rightarrow> (Inr PUnit, kv_Set (slice_bytes key) b m))"
| "own_op (PDelete key) m = answer m (sum_bind (own_key key) (\<lambda>k. Inr (kv_Delete k m)))"
| "own_op (PDeleteAll start end') m = (Inr PUnit, kv_DeleteAll start end' m)"
| "own_op (PIterate start end') m = (Inr (PPairs (kv_Iterator m start end' True)), m)"
| "own_op (PReverseIterate start end') m = (Inr (PPairs (kv_Iterator m start end' False)), m)"

fun own_run :: "pop list \<Rightarrow> kvstore \<Rightarrow> (prefix_panic + pres) list \<times> kvstore" where
  "own_run [] m = ([], m)"
| "own_run (op # ops) m = (let (r, m1) = own_op op m; (rs, m2) = own_run ops m1 in (r # rs, m2))"

subsection \<open>The range of a prefix\<close>

lemma HasPrefix_iff: "HasPrefix s p \<longleftrightarrow> (\<exists>r. s = p @ r)"
  unfolding HasPrefix_def by (metis append_eq_conv_conj append_take_drop_id le_add1 length_append)

lemma HasPrefix_Cons [simp]: "HasPrefix s []" "\<not> HasPrefix [] (b # p)" "HasPrefix (c # s) (b # p) \<longleftrightarrow> c = b \<and> HasPrefix s p"
  by (auto simp: HasPrefix_iff)

lemma append_less_iff [simp]: "p @ a < p @ (b :: bytes) \<longleftrightarrow> a < b"
  by (induction p) auto

lemma append_le_iff [simp]: "p @ a \<le> p @ (b :: bytes) \<longleftrightarrow> a \<le> b"
  by (simp add: not_less [symmetric])

text \<open>What lies between a prefix and one of its extensions has the prefix.\<close>

lemma between_has_prefix: "p \<le> k \<Longrightarrow> k < p @ e \<Longrightarrow> HasPrefix (k :: bytes) p"
proof (induction p arbitrary: k)
  case (Cons b p)
  then show ?case by (cases k) auto
qed simp

lemma prefix_end_loop_snoc:
  "prefix_end_loop (xs @ [b]) =
     (case prefix_end_loop xs of
        Some e \<Rightarrow> Some (b # e)
      | None \<Rightarrow> if b \<noteq> char_of (255 :: nat) then Some [char_of (of_char b + 1 :: nat)] else None)"
  by (induction xs) auto

lemma PrefixEndBytes_loop: "PrefixEndBytes p = prefix_end_loop (rev p)"
  by (simp add: PrefixEndBytes_def)

lemma PrefixEndBytes_Nil [simp]: "PrefixEndBytes [] = None"
  by (simp add: PrefixEndBytes_def)

lemma PrefixEndBytes_Cons:
  "PrefixEndBytes (b # p) =
     (case PrefixEndBytes p of
        Some e \<Rightarrow> Some (b # e)
      | None \<Rightarrow> if b \<noteq> char_of (255 :: nat) then Some [char_of (of_char b + 1 :: nat)] else None)"
  by (simp add: PrefixEndBytes_loop prefix_end_loop_snoc)

lemma byte_bound: "(of_char c :: nat) \<le> 255"
proof -
  have "(of_char c :: nat) < 256" by simp
  then show ?thesis by linarith
qed

lemma next_byte:
  fixes b c :: char
  assumes "b \<noteq> char_of (255 :: nat)"
  shows "c < char_of (of_char b + 1 :: nat) \<longleftrightarrow> c \<le> b"
proof -
  have "(of_char b :: nat) \<noteq> 255" using assms by (metis char_of_char)
  with byte_bound [of b] have "Suc (of_char b) mod 256 = Suc (of_char b :: nat)" by simp
  then show ?thesis by (auto simp: less_char_def less_eq_char_def)
qed

lemma last_byte: "c \<le> char_of (255 :: nat)" for c :: char
  using byte_bound [of c] by (simp add: less_eq_char_def)

text \<open>The keys from the prefix up to its end bytes are exactly those with the prefix.\<close>

lemma prefix_range:
  "HasPrefix k p \<longleftrightarrow> p \<le> k \<and> (case PrefixEndBytes p of None \<Rightarrow> True | Some e \<Rightarrow> k < e)"
proof (induction p arbitrary: k)
  case (Cons b p)
  show ?case
  proof (cases k)
    case k: (Cons c k')
    have below: "c < char_of (of_char b + 1 :: nat) \<longleftrightarrow> c \<le> b" if "b \<noteq> char_of (255 :: nat)" using that by (rule next_byte)
    have top: "c \<le> char_of (255 :: nat)" by (rule last_byte)
    show ?thesis
      using Cons.IH [of k'] below top unfolding k
      by (cases "PrefixEndBytes p"; cases "b = char_of (255 :: nat)") (auto simp: PrefixEndBytes_Cons)
  qed simp
qed simp

text \<open>Hence the range a prefix store asks of its parent holds exactly the keys of its own range.\<close>

lemma prefixed_domain:
  "IsKeyInDomain x (Some (cloneAppend (ps_prefix s) start)) (ps_newend s end') \<longleftrightarrow>
     (\<exists>k. x = ps_prefix s @ k \<and> IsKeyInDomain k start end')"
proof -
  let ?p = "ps_prefix s"
  have le: "?p \<le> ?p @ a" for a by (metis append_le_iff append_Nil2 Nil_le_Cons neq_Nil_conv order_refl)
  have pre: "HasPrefix x ?p" if "IsKeyInDomain x (Some (cloneAppend ?p start)) (ps_newend s end')"
  proof (cases end')
    case None
    have "?p \<le> x" using that le [of "slice_bytes start"] by (auto simp: IsKeyInDomain_def cloneAppend_def)
    with that None show ?thesis
      by (auto simp: IsKeyInDomain_def ps_newend_def cpIncr_def prefix_range not_le split: option.splits)
  next
    case (Some e)
    have "?p \<le> x" using that le [of "slice_bytes start"] by (auto simp: IsKeyInDomain_def cloneAppend_def)
    with that Some show ?thesis
      by (auto simp: IsKeyInDomain_def ps_newend_def cloneAppend_def not_le intro: between_has_prefix)
  qed
  have "IsKeyInDomain (?p @ k) (Some (cloneAppend ?p start)) (ps_newend s end') \<longleftrightarrow> IsKeyInDomain k start end'" for k
  proof (cases end')
    case None
    have "HasPrefix (?p @ k) ?p" by (auto simp: HasPrefix_iff)
    with None show ?thesis
      by (auto simp: IsKeyInDomain_def ps_newend_def cpIncr_def cloneAppend_def prefix_range not_le split: option.splits)
  next
    case (Some e)
    then show ?thesis by (simp add: IsKeyInDomain_def ps_newend_def cloneAppend_def)
  qed
  with pre show ?thesis by (auto simp: HasPrefix_iff)
qed

subsection \<open>Iteration\<close>

lemma sorted_wrt_set_unique:
  assumes "\<And>a b. R a b \<Longrightarrow> \<not> R b a"
  shows "sorted_wrt R xs \<Longrightarrow> sorted_wrt R ys \<Longrightarrow> set xs = set ys \<Longrightarrow> xs = ys"
proof (induction xs arbitrary: ys)
  case (Cons x xs)
  then obtain y ys' where ys: "ys = y # ys'" by (cases ys) auto
  have "x = y"
  proof (rule ccontr)
    assume "x \<noteq> y"
    with Cons.prems ys have "x \<in> set ys'" "y \<in> set xs" by auto
    with Cons.prems ys assms show False by auto
  qed
  moreover have "x \<notin> set xs" "y \<notin> set ys'" using Cons.prems(1,2) ys assms [of x x] assms [of y y] by auto
  ultimately have "set xs = set ys'" using Cons.prems(3) ys by auto
  with Cons ys \<open>x = y\<close> show ?case by simp
qed simp

abbreviation iter_order :: "bool \<Rightarrow> bytes \<times> bytes \<Rightarrow> bytes \<times> bytes \<Rightarrow> bool" where
  "iter_order ascending a b \<equiv> (if ascending then fst a < fst b else fst b < fst a)"

lemma kv_Iterator_unique:
  assumes "sorted_wrt (iter_order ascending) kvs"
    and "\<And>k v. (k, v) \<in> set kvs \<longleftrightarrow> IsKeyInDomain k start end' \<and> kv_Get st k = Some v"
  shows "kv_Iterator st start end' ascending = kvs"
proof (rule sorted_wrt_set_unique [where R = "iter_order ascending"])
  show "sorted_wrt (iter_order ascending) (kv_Iterator st start end' ascending)"
    using kv_Iterator_sorted [of ascending st start end'] by (simp add: sorted_wrt_map)
  show "set (kv_Iterator st start end' ascending) = set kvs"
    using assms(2) by (auto simp: kv_Iterator_entries)
qed (use assms(1) in \<open>auto split: if_splits\<close>)

abbreviation with_prefix :: "bytes \<Rightarrow> (bytes \<times> bytes) list \<Rightarrow> (bytes \<times> bytes) list" where
  "with_prefix p kvs \<equiv> map (\<lambda>(k, v). (p @ k, v)) kvs"

lemma kv_Iterator_prefixed:
  assumes "\<And>k. kv_Get m k = kv_Get (ps_parent s) (ps_prefix s @ k)"
  shows "kv_Iterator (ps_parent s) (Some (cloneAppend (ps_prefix s) start)) (ps_newend s end') ascending =
    with_prefix (ps_prefix s) (kv_Iterator m start end' ascending)"
proof (rule kv_Iterator_unique)
  show "sorted_wrt (iter_order ascending) (with_prefix (ps_prefix s) (kv_Iterator m start end' ascending))"
    using kv_Iterator_sorted [of ascending m start end'] by (cases ascending) (simp_all add: sorted_wrt_map case_prod_beta)
  show "(k, v) \<in> set (with_prefix (ps_prefix s) (kv_Iterator m start end' ascending)) \<longleftrightarrow>
      IsKeyInDomain k (Some (cloneAppend (ps_prefix s) start)) (ps_newend s end') \<and> kv_Get (ps_parent s) k = Some v" for k v
    unfolding prefixed_domain by (auto simp: kv_Iterator_entries assms image_iff split: prod.splits)
qed

lemma pi_collect_prefixed:
  "pi_collect (length kvs) (newPrefixIterator p start end' (with_prefix p kvs)) = Some (Inr kvs)"
proof (induction kvs)
  case Nil
  then show ?case by (simp add: newPrefixIterator_def pi_Valid_def)
next
  case (Cons kv kvs)
  obtain k v where kv: "kv = (k, v)" by (cases kv)
  let ?it = "newPrefixIterator p start end' (with_prefix p (kv # kvs))"
  have pre: "HasPrefix (p @ k) p" for k by (auto simp: HasPrefix_iff)
  have "pi_Valid ?it" "pi_Key ?it = Inr k" "pi_Value ?it = Inr v"
    by (simp_all add: kv newPrefixIterator_def pi_Valid_def pi_Key_def pi_Value_def stripPrefix_def pre)
  moreover have "pi_Next ?it = Inr (newPrefixIterator p start end' (with_prefix p kvs))"
    by (cases kvs) (auto simp: kv newPrefixIterator_def pi_Next_def pre)
  ultimately show ?case using Cons.IH by (simp add: kv)
qed

subsection \<open>A prefix store is a store of its own\<close>

lemma strip_Get: "kv_Get (strip p st) k = kv_Get st (p @ k)"
  by (induction st) (auto simp: strip_def kv_Get_def HasPrefix_iff, metis)

interpretation prefixed: kv_store "\<lambda>s k. kv_Get (ps_parent s) (ps_prefix s @ k)"
  "\<lambda>k v s. s\<lparr>ps_parent := kv_Set (ps_prefix s @ k) v (ps_parent s)\<rparr>"
  "\<lambda>k s. s\<lparr>ps_parent := kv_Delete (ps_prefix s @ k) (ps_parent s)\<rparr>"
  by unfold_locales (simp_all add: gomap_simps)

lemma kv_Get_DeleteAll: "kv_Get (kv_DeleteAll start end' st) k = (if IsKeyInDomain k start end' then None else kv_Get st k)"
proof -
  have del: "kv_Get (fold kv_Delete ks st) k = (if k \<in> set ks then None else kv_Get st k)" for ks
    by (induction ks arbitrary: st) (auto simp: gomap_simps)
  have "k \<in> set (map fst (kv_Iterator st start end' True)) \<longleftrightarrow> IsKeyInDomain k start end' \<and> kv_Get st k \<noteq> None"
  proof -
    have "k \<in> fst ` set (kv_Iterator st start end' True) \<longleftrightarrow> (\<exists>v. (k, v) \<in> set (kv_Iterator st start end' True))"
      by (force simp: image_iff)
    then show ?thesis by (auto simp: kv_Iterator_entries)
  qed
  then show ?thesis by (auto simp: kv_DeleteAll_def del)
qed

text \<open>The simulation: the store of its own holds what the parent holds under the prefixed keys, and no operation
  touches the other keys of the parent.\<close>

definition holds_own :: "pstore \<Rightarrow> kvstore \<Rightarrow> bool" where
  "holds_own s m \<longleftrightarrow> (\<forall>k. kv_Get m k = kv_Get (ps_parent s) (ps_prefix s @ k))"

definition keeps_others :: "pstore \<Rightarrow> pstore \<Rightarrow> bool" where
  "keeps_others s s' \<longleftrightarrow> ps_prefix s' = ps_prefix s \<and>
     (\<forall>k. \<not> HasPrefix k (ps_prefix s) \<longrightarrow> kv_Get (ps_parent s') k = kv_Get (ps_parent s) k)"

lemma keeps_others_refl [simp]: "keeps_others s s"
  by (simp add: keeps_others_def)

lemma keeps_others_trans: "keeps_others s s1 \<Longrightarrow> keeps_others s1 s2 \<Longrightarrow> keeps_others s s2"
  by (simp add: keeps_others_def)

lemma pi_pairs_own:
  assumes "holds_own s m"
  shows "pi_pairs (ps_Iterator start end' s) = Inr (PPairs (kv_Iterator m start end' True))"
    and "pi_pairs (ps_ReverseIterator start end' s) = Inr (PPairs (kv_Iterator m start end' False))"
proof -
  have own: "kv_Get m k = kv_Get (ps_parent s) (ps_prefix s @ k)" for k using assms by (simp add: holds_own_def)
  have "pi_pairs (newPrefixIterator p start end' (with_prefix p kvs)) = Inr (PPairs kvs)" for p kvs
    using pi_collect_prefixed [of kvs p start end'] by (simp add: pi_pairs_def newPrefixIterator_def)
  then show "pi_pairs (ps_Iterator start end' s) = Inr (PPairs (kv_Iterator m start end' True))"
    and "pi_pairs (ps_ReverseIterator start end' s) = Inr (PPairs (kv_Iterator m start end' False))"
    unfolding ps_Iterator_def ps_ReverseIterator_def Let_def kv_Iterator_prefixed [OF own] by simp_all
qed

lemma DeleteAll_own:
  assumes "holds_own s m"
  shows "holds_own (ps_DeleteAll start end' s) (kv_DeleteAll start end' m)" and "keeps_others s (ps_DeleteAll start end' s)"
  using assms
  by (auto simp: holds_own_def keeps_others_def ps_DeleteAll_def Let_def kv_Get_DeleteAll prefixed_domain HasPrefix_iff)

lemma ps_op_own:
  assumes "holds_own s m"
  shows "fst (ps_op op s) = fst (own_op op m)" and "holds_own (snd (ps_op op s)) (snd (own_op op m))"
    and "keeps_others s (snd (ps_op op s))"
proof -
  note defs = ps_Get_def ps_Has_def ps_Set_def ps_Delete_def ps_key_def own_key_def cloneAppend_def answer_def kv_Has_def
    AssertValidKey_def AssertValidValue_def
  have own: "kv_Get m k = kv_Get (ps_parent s) (ps_prefix s @ k)" for k using assms by (simp add: holds_own_def)
  have "fst (ps_op op s) = fst (own_op op m) \<and> holds_own (snd (ps_op op s)) (snd (own_op op m)) \<and>
      keeps_others s (snd (ps_op op s))"
  proof (cases op)
    case (PDeleteAll start end')
    with DeleteAll_own [OF assms] show ?thesis by simp
  next
    case (PIterate start end')
    with pi_pairs_own [OF assms] assms show ?thesis by simp
  next
    case (PReverseIterate start end')
    with pi_pairs_own [OF assms] assms show ?thesis by simp
  qed (auto simp: defs own holds_own_def keeps_others_def gomap_simps HasPrefix_iff split: option.splits)
  then show "fst (ps_op op s) = fst (own_op op m)" "holds_own (snd (ps_op op s)) (snd (own_op op m))"
    "keeps_others s (snd (ps_op op s))" by simp_all
qed

lemma ps_run_own:
  "holds_own s m \<Longrightarrow> fst (ps_run ops s) = fst (own_run ops m) \<and>
     holds_own (snd (ps_run ops s)) (snd (own_run ops m)) \<and> keeps_others s (snd (ps_run ops s))"
proof (induction ops arbitrary: s m)
  case (Cons op ops)
  note step = ps_op_own [OF Cons.prems, of op]
  from Cons.IH [OF step(2)] step(1,3) show ?case
    by (auto simp: Let_def case_prod_beta intro: keeps_others_trans)
qed simp

text \<open>The keys that \<open>GetAllKeyStrsInRange\<close> reports are the keys of the parent: unlike those of the iterators, they
  still carry the prefix, so a layer above that deletes what it is told deletes nothing of the range.\<close>

lemma GetAllKeyStrsInRange_keeps_prefix:
  "ps_GetAllKeyStrsInRange start end' s =
     map (append (ps_prefix s)) (kv_GetAllKeyStrsInRange start end' (strip (ps_prefix s) (ps_parent s)))"
  by (simp add: ps_GetAllKeyStrsInRange_def kv_GetAllKeyStrsInRange_def Let_def
      kv_Iterator_prefixed [OF strip_Get] case_prod_beta o_def)

text \<open>\<open>PurgePrefix\<close> removes the records with the prefix and no other, also when the prefix ends in bytes 255.\<close>

lemma PurgePrefix_exact: "kv_Get (PurgePrefix pref st) k = (if HasPrefix k pref then None else kv_Get st k)"
proof -
  let ?s = "\<lparr>ps_parent = st, ps_prefix = pref\<rparr>"
  have "IsKeyInDomain k None None" for k by (auto simp: IsKeyInDomain_def)
  with prefixed_domain [of k ?s None None] show ?thesis
    by (simp add: PurgePrefix_def ps_DeleteAll_def Let_def kv_Get_DeleteAll HasPrefix_iff)
qed

subsection \<open>Properties\<close>

text \<open>C23. A prefix store behaves as a store of its own: for every sequence of calls - reads, writes, deletions,
  range deletions and complete iterations in both directions, with or without bounds, and with \<open>nil\<close> keys and
  values - the answers and panics are those of a store that holds just the records of the prefix under keys
  without it, every iteration ends, and the parent keeps what it has under keys without the prefix.\<close>

theorem prefix_store_is_a_store:
  "fst (ps_run ops \<lparr>ps_parent = st, ps_prefix = p\<rparr>) = fst (own_run ops (strip p st)) \<and>
   (\<forall>k. kv_Get (ps_parent (snd (ps_run ops \<lparr>ps_parent = st, ps_prefix = p\<rparr>))) (p @ k) =
     kv_Get (snd (own_run ops (strip p st))) k) \<and>
   (\<forall>k. (\<nexists>r. k = p @ r) \<longrightarrow>
     kv_Get (ps_parent (snd (ps_run ops \<lparr>ps_parent = st, ps_prefix = p\<rparr>))) k = kv_Get st k)"
  using ps_run_own [of "\<lparr>ps_parent = st, ps_prefix = p\<rparr>" "strip p st" ops]
  by (auto simp: holds_own_def keeps_others_def strip_Get HasPrefix_iff)

theorem prefix_store_is_a_store_witness:
  "fst (ps_run [PSet (Some ''c'') (Some ''3''), PReverseIterate None None]
      \<lparr>ps_parent = [(''ab'', ''1''), (''b'', ''2'')], ps_prefix = ''a''\<rparr>) =
     [Inr PUnit, Inr (PPairs [(''c'', ''3''), (''b'', ''1'')])] \<and>
   kv_Get (ps_parent (snd (ps_run [PSet (Some ''c'') (Some ''3''), PReverseIterate None None]
      \<lparr>ps_parent = [(''ab'', ''1''), (''b'', ''2'')], ps_prefix = ''a''\<rparr>))) ''b'' = Some ''2''"
proof -
  let ?ops = "[PSet (Some ''c'') (Some ''3''), PReverseIterate None None]" and ?st = "[(''ab'', ''1''), (''b'', ''2'')]"
  note own = prefix_store_is_a_store [of ?ops ?st "''a''"]
  have "fst (own_run ?ops (strip ''a'' ?st)) = [Inr PUnit, Inr (PPairs [(''c'', ''3''), (''b'', ''1'')])]" by code_simp
  moreover have "\<nexists>r. ''b'' = ''a'' @ r" by simp
  moreover have "kv_Get ?st ''b'' = Some ''2''" by (simp add: kv_Get_def)
  ultimately show ?thesis using own by metis
qed

end
