(* ===== verification/Spec2Isabelle.thy ===== *)
theory Spec2Isabelle
  imports Serializability CoinText FactoryProps CacheProps EvmProps PrefixStore
begin

text \<open>
  \<^bold>\<open>A verification of parts of sei-chain.\<close>

  sei-chain is a proof-of-stake chain on a fork of the Cosmos SDK (\<open>src/sei-cosmos\<close>). Six parts of it
  are treated: the optimistic concurrent execution of blocks, the layers over the stores, the
  arithmetic of money, the bank module with the accounts it serves, the token factory built on the
  bank, and the state database through which the EVM uses the stores and the bank.

  \<^bold>\<open>Block execution.\<close> The scheduler (\<open>src/sei-cosmos/tasks/scheduler.go\<close>) runs the transactions of a
  block concurrently. Every transaction reads and writes through a version-indexed store
  (\<open>src/sei-cosmos/store/multiversion/mvkv.go\<close>), which records what it read; the writes go into a
  multi-version store (\<open>store.go\<close>, one ordered tree of versions per key, \<open>data_structures.go\<close>). The
  scheduler then validates each recorded read set against the writes of the earlier transactions,
  turns the writes of invalid transactions into estimates, and runs these transactions again until
  all are valid; after \<open>maximumIterations\<close> rounds it goes on one transaction at a time. Finally the
  latest versions are written to the parent stores.

  \<^item> \<open>Sei_Prelude\<close>, \<open>KVStore\<close>: Go slices and maps, key-value stores (\<open>store/types/validity.go\<close>) and the
    interface \<open>kv_store\<close>.
  \<^item> \<open>MVItem\<close>: \<open>data_structures.go\<close>. The B-tree package is a parameter, the record \<open>btree\<close>, with its
    documented laws in the locale \<open>btree_api\<close>; red-black trees are an instance.
  \<^item> \<open>MVStore\<close>, \<open>MVIter\<close>, \<open>MVValidate\<close>: \<open>store.go\<close>, \<open>memiterator.go\<close>, \<open>mergeiterator.go\<close>. The in-memory
    database of the iterator check is the record \<open>memdb\<close> with the locale \<open>memdb_api\<close>. Lemmas: what
    each operation does to the version of every key and transaction, what the iterators yield, and
    when a read set passes validation.
  \<^item> \<open>VIStore\<close>: \<open>mvkv.go\<close>; transactions are interaction trees (\<open>prog\<close>) of reads and writes, and a run
    against a version-indexed store is compared with a run on plain stores.
  \<^item> \<open>Scheduler\<close>: \<open>scheduler.go\<close>. The worker goroutines are replaced by a \<open>schedule\<close>, which gives the
    order in which tasks of a round execute and validate and, for every task, the state of the
    multi-version stores at each of its reads. The validation of one task is atomic.
  \<^item> \<open>OCCInvariant\<close>, \<open>OCCStep\<close>, \<open>SyncRound\<close>, \<open>Serializability\<close>: the invariant of the scheduler, its
    preservation by execution and validation, the synchronous rounds, and the theorem that a block
    gives the serial result for every schedule. \<open>ProcessAll\<close> takes a bound on the number of rounds;
    \<open>maximumIterations + 1\<close> rounds are enough, because a synchronous round validates every task.

  The theorem \<open>ProcessAll_serializable\<close> below is about transactions that write no empty values:
  validation compares with \<open>bytes.Equal\<close>, which does not distinguish an absent key from an empty
  value, and \<open>ProcessAll_empty_value_not_serializable\<close> shows a block that then deviates from the
  serial result. It is also about transactions without iterators; the validation of iterators is
  modelled, the iterators of running transactions are not.

  \<^bold>\<open>Cache layers and snapshots.\<close> A transaction works on branches of the stores: layers that keep its writes in memory
  (\<open>src/sei-cosmos/store/cachekv\<close>), one per store and created when first used (\<open>store/cachemulti/store.go\<close>). The state
  database of the EVM stacks such branches, one per snapshot (\<open>Snapshot\<close>, \<open>RevertToSnapshot\<close> and \<open>flushCtxs\<close> in
  \<open>src/x/evm/state\<close>), and freezes all but the newest, so that reads can skip frozen layers without writes.

  \<^item> \<open>CacheKV\<close>: \<open>cachekv/store.go\<close>. A layer and what it stands on are the datatype \<open>kvs\<close>; the pointer to the layer that
    reads go to, which the code remembers, is the number of layers to skip. \<open>CacheLaws\<close>: what every operation does to
    the content that a layer shows (\<open>view\<close>), and when skipping is sound (\<open>chain_ok\<close>).
  \<^item> \<open>CacheIter\<close>: the iterators of \<open>memiterator.go\<close> and \<open>mergeiterator.go\<close>. The in-memory tree of the sorted cache is the
    locale \<open>sorted_db\<close>, with sorted lists as its instance. Collecting an iterator has fuel, the number of entries of
    the parent and of the cache, which is enough because every step passes one of them. Writes during an iteration
    are not modelled.
  \<^item> \<open>CacheMulti\<close>, \<open>CacheStack\<close>, \<open>CacheProps\<close>: the multi-store, the stack of branches, and the theorem that the stack of
    layers behaves like a stack of complete contents, for all sequences of operations.
  \<^item> \<open>PrefixStore\<close>: \<open>store/prefix/store.go\<close>, which shows a module the records with one prefix, and \<open>PrefixEndBytes\<close> of
    \<open>store/types/utils.go\<close>. The theorem: it behaves like a store that holds just these records, and the other keys of
    its parent stay. Collecting an iterator is bounded by the number of records of the parent in the range, which is
    enough because every step passes one. The parent answers for ranges as \<open>store/dbadapter/store.go\<close> does. The other
    theories have a table for every prefix of a store; \<open>PurgePrefix_exact\<close> is the step from the range deletion on a
    prefix store to the deletion from such a table.

  \<^bold>\<open>Money.\<close> Amounts are bounded big integers and fixed-point decimals; coins carry a denomination.

  \<^item> \<open>SdkInt\<close>: \<open>src/sei-cosmos/types/int.go\<close>. An \<open>Int\<close> is an \<open>int\<close>; operations that panic return a sum
    with the panic on the left. Lemmas: exactness within 256 bits.
  \<^item> \<open>Decimal\<close>: \<open>decimal.go\<close>; a \<open>Dec\<close> is the integer number of units of \<open>10 ^ -18\<close>. Lemmas: rounding to
    nearest even, accuracy of quotients (with the condition under which \<open>QuoRoundUp\<close> does not round up),
    powers, and the range of decimals.
  \<^item> \<open>DigitText\<close>, \<open>DecimalText\<close>: the number syntax of \<open>math/big\<close> that the code uses, parsing, printing,
    sortable bytes and protobuf text of decimals and integers, with their round trips.
  \<^item> \<open>Coins\<close>, \<open>CoinLaws\<close>, \<open>CoinProps\<close>: \<open>coin.go\<close>. The merge of two coin sets is analysed once, in the
    locale \<open>coin_sum\<close>, for integer and decimal coins; the lemmas reduce every operation on valid sets
    to the amounts of the denominations.
  \<^item> \<open>DecCoins\<close>, \<open>DecCoinProps\<close>: \<open>dec_coin.go\<close>; \<open>Denoms\<close>: \<open>denom.go\<close>; \<open>CoinText\<close>: printing and parsing of
    coins.

  \<^bold>\<open>Accounts and the bank.\<close> The bank module (\<open>src/sei-cosmos/x/bank\<close>) keeps the balances of the accounts, their
  wei (fractions of the base denomination for the EVM), the supply, and a cache of deferred transfers to
  module accounts that is settled at the end of a block. Accounts (\<open>src/sei-cosmos/x/auth\<close>) may be module
  accounts with permissions, or vesting accounts that lock part of their coins.

  \<^item> \<open>Accounts\<close>: the account keeper (\<open>x/auth/keeper/account.go\<close>, \<open>keeper.go\<close>), module accounts and the four kinds of
    vesting account (\<open>x/auth/vesting/types/vesting_account.go\<close>). \<open>VestingProps\<close>: schedules and the tracking of
    delegations.
  \<^item> \<open>Bank\<close>: \<open>view.go\<close> and \<open>send.go\<close> of \<open>x/bank/keeper\<close>, the record \<open>bank\<close> with the stores of the module and the
    record \<open>bank_env\<close> with what a keeper is built with and reads from the context. \<open>BankKeeper\<close>: \<open>keeper.go\<close>,
    \<open>deferred_cache.go\<close>, \<open>invariants.go\<close>, \<open>msg_server.go\<close> and the checks of \<open>types/msgs.go\<close>.
  \<^item> \<open>BankLedger\<close>: the contract of a store of coins, the locale \<open>coin_ledger\<close>, with the account balances and the
    deferred cache as its two instances. \<open>BankLaws\<close>, \<open>BankOps\<close>, \<open>BankFlows\<close>, \<open>BankDeferred\<close>: what each operation does to
    the balances, to the total in wei (\<open>worth\<close>) and to the supply (\<open>shifts\<close>).
  \<^item> \<open>BankSupply\<close>: the step relation \<open>bank_step\<close> over all operations, reachability, and the supply in reachable
    states. The collection of the supply page by page has fuel, one more than the number of denominations, which
    is enough because every page but the last is full. \<open>BankTransfers\<close>, \<open>BankProps\<close>: when transfers succeed, the
    settlement of deferred balances, and locked coins.

  Addresses are those the stores keep apart, of 1 to 255 bytes; bech32 text is third-party code, two
  functions of \<open>bank_env\<close> with the hypothesis that an address is read back from its text where that matters.
  A failed operation returns its error and no state, since its writes are discarded.

  \<^bold>\<open>The token factory.\<close> \<open>src/x/tokenfactory\<close> lets an account create a denomination named after it and administer it:
  mint, burn, pass on the administration, set the metadata and an allow list.

  \<^item> \<open>TokenFactory\<close>: names of denominations (\<open>types/denoms.go\<close>), the keeper (\<open>keeper/*.go\<close>), the six messages with their
    stateless checks (\<open>keeper/msg_server.go\<close>, \<open>types/msgs.go\<close>), genesis, and the metadata of the bank module
    (\<open>x/bank/types/metadata.go\<close>). The record \<open>factory\<close> has the bank as a field; its other fields are the stores of
    administrators, creators and metadata.
  \<^item> \<open>FactoryProps\<close>: the effect of every message on balances and supply, which keeps the invariant of the bank; who may
    change a denomination; the round trips of names and of genesis. The empty text is no address, which is a
    hypothesis about bech32.

  \<^bold>\<open>The state database of the EVM.\<close> \<open>DBImpl\<close> of \<open>src/x/evm/state\<close> gives the EVM accounts, storage and balances. What is in the
  stores it reads and writes through the keeper (\<open>src/x/evm/keeper\<close>) and the bank, and snapshots cover it; logs, refunds,
  transient storage, access lists, overrides, the surplus and the memo of code it keeps in memory, and a journal undoes
  their changes.

  \<^item> \<open>EvmKeeper\<close>: storage, code, nonces, addresses and balances of the keeper, over the record \<open>evm_world\<close>, which has the
    bank as a field and a table for every prefix of the store. Hashing and the conversions between number types are
    third-party code, functions of \<open>evm_env\<close>.
  \<^item> \<open>EvmState\<close>: the record \<open>DBImpl\<close>, \<open>journal.go\<close>, \<open>accesslist.go\<close>, \<open>refund.go\<close>, \<open>log.go\<close>, \<open>nonce.go\<close>, and snapshots and storage of
    \<open>state.go\<close>. \<open>EvmOps\<close>: \<open>balance.go\<close>, \<open>code.go\<close>, \<open>check.go\<close>, \<open>transfer.go\<close>, the life cycle of accounts, and \<open>Finalize\<close> of
    \<open>statedb.go\<close>. A snapshot keeps the content of the stores; \<open>CacheProps\<close> shows that the branches implement this.
    A transaction is a list of calls (\<open>sdb_op\<close>).
  \<^item> \<open>EvmJournal\<close>, \<open>EvmRuns\<close>: what the queries see of the memory (\<open>seen\<close>), that the entries an operation appends lead back to
    what was seen before, and that they lead back to every open snapshot (\<open>journaled\<close>). \<open>EvmMemo\<close>: the memo of code agrees
    with the stores. \<open>EvmValue\<close>: a call takes from the bank what it adds to the surplus. The locale \<open>call_order\<close> carries
    each of these relations from the basic to the composed operations. \<open>EvmProps\<close> has the theorems.

  The calls of precompiles into other modules, which change the stores at will between the calls listed here, are not
  part of a transaction in these theorems. An error that \<open>Finalize\<close> meets while it moves residual funds is
  excluded by a hypothesis, since \<open>Finalize\<close> looks at the error before it moves them and not after.

  \<^bold>\<open>Not modelled.\<close> The uninitialised \<open>Int\<close> and \<open>Dec\<close> (a \<open>nil\<close> pointer), JSON and YAML encodings, events,
  telemetry and logging, the sharing of slice memory, the genesis of the bank,
  gRPC queries, gas metering, and the parts of the repository that the manifest lists as not modelled: consensus and
  networking (\<open>sei-tendermint\<close>), the databases (\<open>sei-db\<close>), the interpreters of EVM and WebAssembly code (third-party
  or native code), IBC, the RPC servers and command-line clients, and the other modules.
\<close>

section \<open>Blocks run concurrently give the serial result\<close>

text \<open>Programs and a schedule for the witnesses below: a transaction that prepends to the value of a
  key, one that writes an empty value or asks whether the key is there, and a schedule that runs
  and validates the tasks in reverse order, each on the initial stores.\<close>

definition count_tx :: "char \<Rightarrow> slice prog" where
  "count_tx c =
     GetOp ''bank'' ''k'' (\<lambda>r.
       case r of
         Inl p \<Rightarrow> Done None
       | Inr v \<Rightarrow> SetOp ''bank'' ''k'' (Some (c # slice_bytes v)) (\<lambda>_. Done v))"

definition empty_tx :: "bool \<Rightarrow> bool prog" where
  "empty_tx writes =
     (if writes then SetOp ''bank'' ''k'' (Some []) (\<lambda>_. Done True)
      else HasOp ''bank'' ''k'' (\<lambda>r. Done (r = Inr True)))"

definition reverse_schedule :: "(bytes, kvstore) gomap \<Rightarrow> 't schedule" where
  "reverse_schedule stores =
     \<lparr>sch_exec_order = rev,
      sch_env = (\<lambda>_ _. map (\<lambda>(sk, kv). (sk, NewMultiVersionStore kv)) stores),
      sch_validate_order = rev\<rparr>"

lemma reverse_schedule_ok:
  assumes "btree_api bt" and "\<And>sk kv k. gm_load stores sk = Some kv \<Longrightarrow> kv_Get kv k \<noteq> Some []"
  shows "sched_ok bt I stores (reverse_schedule stores)"
proof -
  have "stores_ok bt I (map (\<lambda>(sk, kv). (sk, NewMultiVersionStore kv)) stores)"
    using btree_api.stores_ok_new [OF assms(1)] assms(2) by blast
  then show ?thesis by (simp add: sched_ok_def reverse_schedule_def env_ok_def split_beta)
qed

lemma count_block_ok:
  "block_ok count_tx [(''bank'', [])] [(CHR ''a'', 0), (CHR ''b'', 1)]"
  by (simp add: block_ok_def count_tx_def kv_Get_def split: sum.splits)

text \<open>C1. Optimistic execution is correct: for every schedule of the workers, every interleaving of
  their store accesses and every block whose transactions write no empty values, \<open>ProcessAll\<close>
  returns after at most \<open>maximumIterations + 1\<close> rounds without a panic, its responses are those
  of running the transactions one after the other in block order, and the stores end with the
  contents that serial run leaves.\<close>

theorem ProcessAll_serializable:
  assumes "btree_api bt" and "block_ok deliverTx stores reqs"
    and "\<forall>n. sched_ok bt (snd ` set reqs) stores (sched n)" and "maximumIterations < fuel"
  shows "\<exists>rs s. ProcessAll bt md deliverTx sched fuel stores reqs NewScheduler = Some (Inr (rs, s)) \<and>
    run_block deliverTx (map fst reqs) (stores_world stores) = (rs, stores_world (bases (multiVersionStores s)))"
proof -
  obtain r where r: "ProcessAll bt md deliverTx sched fuel stores reqs NewScheduler = Some r"
    using btree_api.ProcessAll_ends [OF assms] by blast
  with btree_api.ProcessAll_result [OF assms(1-3) r] show ?thesis by simp
qed

theorem ProcessAll_serializable_witness:
  "\<exists>rs s. ProcessAll rbt_btree list_memdb count_tx (\<lambda>_. reverse_schedule [(''bank'', [])]) 11
      [(''bank'', [])] [(CHR ''a'', 0), (CHR ''b'', 1)] NewScheduler = Some (Inr (rs, s)) \<and>
    run_block count_tx [CHR ''a'', CHR ''b''] (stores_world [(''bank'', [])]) =
      (rs, stores_world (bases (multiVersionStores s)))"
proof -
  have "\<forall>n. sched_ok rbt_btree I [(''bank'', [])] (reverse_schedule [(''bank'', [])])" for I
    by (intro allI reverse_schedule_ok [OF rbt.btree_api_axioms]) (auto simp: kv_Get_def split: if_splits)
  from ProcessAll_serializable [OF rbt.btree_api_axioms count_block_ok this, of 11 list_memdb]
  show ?thesis by (simp add: maximumIterations_def)
qed

text \<open>The restriction to non-empty values is needed: validation compares reads with
  \<open>bytes.Equal\<close>, which does not tell an absent key from an empty value. When the second
  transaction runs before the first has written an empty value, its answer that the key is
  absent is accepted, although the serial run finds the key.\<close>

theorem ProcessAll_empty_value_not_serializable:
  "map_option (map_sum id fst)
     (ProcessAll rbt_btree list_memdb empty_tx (\<lambda>_. reverse_schedule [(''bank'', [])]) 11
        [(''bank'', [])] [(True, 0), (False, 1)] NewScheduler) = Some (Inr [True, False]) \<and>
   fst (run_block empty_tx [True, False] (stores_world [(''bank'', [])])) = [True, True]"
  by code_simp

end
